(* ===== verification/Prelude.thy ===== *)
theory Prelude
  imports Main "HOL-Library.Word" "HOL-Library.Sublist" "HOL-Library.Signed_Division"
begin

text \<open>
  Shared vocabulary of the development: bytes and C strings as character lists, the part of
  the C library (\<open>ctype.h\<close>, \<open>string.h\<close>) that the modelled sources call, and the
  general facts the component theories share.

  A C string is a list of characters; the terminating NUL is the end of the list, so a
  pointer into a string is the suffix that starts there and \<open>**p == 0\<close> is the test for
  the empty suffix.  Lists that come from such a string hold no NUL (\<open>nul_free\<close>).
\<close>

section \<open>Fact collections\<close>

named_theorems cstr_simps \<open>C string and ctype facts\<close>
named_theorems codec_simps \<open>byte codecs\<close>

section \<open>Bytes, words and characters\<close>

type_synonym u8 = "8 word"
type_synonym u16 = "16 word"
type_synonym u32 = "32 word"
type_synonym u64 = "64 word"

type_synonym bytes = "u8 list"

definition byte :: "char \<Rightarrow> nat" where
  "byte c = of_char c"

definition chr :: "nat \<Rightarrow> char" where
  "chr n = char_of n"

definition NUL :: char where
  "NUL = CHR 0x00"

definition nul_free :: "string \<Rightarrow> bool" where
  "nul_free s \<longleftrightarrow> NUL \<notin> set s"

text \<open>What a consumer that stops at the first NUL sees of a buffer.\<close>

definition cstr :: "string \<Rightarrow> string" where
  "cstr s = takeWhile (\<lambda>c. c \<noteq> NUL) s"

definition bytes_of :: "string \<Rightarrow> bytes" where
  "bytes_of s = map of_char s"

lemma byte_less [simp]: "byte c < 256"
  by (simp add: byte_def)

lemma chr_byte [simp]: "chr (byte c) = c"
  by (simp add: chr_def byte_def)

lemma byte_chr [simp]: "n < 256 \<Longrightarrow> byte (chr n) = n"
  by (simp add: chr_def byte_def)

lemma byte_inject [simp]: "byte c = byte d \<longleftrightarrow> c = d"
  by (simp add: byte_def)

lemma byte_NUL [simp]: "byte NUL = 0"
  by (simp add: byte_def NUL_def)

lemma byte_eq_iff: "n < 256 \<Longrightarrow> byte c = n \<longleftrightarrow> c = chr n"
  by (metis byte_chr chr_byte)

lemma length_bytes_of [simp]: "length (bytes_of s) = length s"
  by (simp add: bytes_of_def)

lemma cstr_nul_free [simp]: "nul_free s \<Longrightarrow> cstr s = s"
  by (auto simp: cstr_def nul_free_def takeWhile_eq_all_conv)

lemma nul_free_cstr [simp]: "nul_free (cstr s)"
  by (auto simp: cstr_def nul_free_def dest: set_takeWhileD)

lemma nul_free_Nil [simp]: "nul_free []"
  by (simp add: nul_free_def)

lemma nul_free_Cons [simp]: "nul_free (c # s) \<longleftrightarrow> c \<noteq> NUL \<and> nul_free s"
  by (auto simp: nul_free_def)

lemma nul_free_append [simp]: "nul_free (s @ t) \<longleftrightarrow> nul_free s \<and> nul_free t"
  by (auto simp: nul_free_def)

section \<open>Character classes of the C locale\<close>

definition isspace :: "char \<Rightarrow> bool" where
  "isspace c \<longleftrightarrow> byte c = 32 \<or> (9 \<le> byte c \<and> byte c \<le> 13)"

definition isdigit :: "char \<Rightarrow> bool" where
  "isdigit c \<longleftrightarrow> 48 \<le> byte c \<and> byte c \<le> 57"

definition isupper :: "char \<Rightarrow> bool" where
  "isupper c \<longleftrightarrow> 65 \<le> byte c \<and> byte c \<le> 90"

definition islower :: "char \<Rightarrow> bool" where
  "islower c \<longleftrightarrow> 97 \<le> byte c \<and> byte c \<le> 122"

definition isalpha :: "char \<Rightarrow> bool" where
  "isalpha c \<longleftrightarrow> isupper c \<or> islower c"

definition isalnum :: "char \<Rightarrow> bool" where
  "isalnum c \<longleftrightarrow> isalpha c \<or> isdigit c"

definition isxdigit :: "char \<Rightarrow> bool" where
  "isxdigit c \<longleftrightarrow> isdigit c \<or> (65 \<le> byte c \<and> byte c \<le> 70) \<or> (97 \<le> byte c \<and> byte c \<le> 102)"

definition tolower :: "char \<Rightarrow> char" where
  "tolower c = (if isupper c then chr (byte c + 32) else c)"

lemmas ctype_defs = isspace_def isdigit_def isupper_def islower_def isalpha_def isalnum_def
  isxdigit_def

lemma isspace_not_NUL [simp]: "\<not> isspace NUL"
  by (simp add: isspace_def)

lemma byte_tolower: "byte (tolower c) = (if isupper c then byte c + 32 else byte c)"
  by (simp add: tolower_def isupper_def)

lemma isspace_tolower [simp]: "isspace (tolower c) \<longleftrightarrow> isspace c"
  by (auto simp: isspace_def byte_tolower isupper_def)

lemma tolower_idem [simp]: "tolower (tolower c) = tolower c"
proof -
  have "\<not> isupper (tolower c)" by (auto simp: isupper_def byte_tolower)
  then show ?thesis by (subst tolower_def) simp
qed

section \<open>string.h on suffixes\<close>

text \<open>
  \<open>strstr\<close>, \<open>strchr\<close> and \<open>memchr\<close> as the index of the first match.
  \<open>!strncmp(s, lit, strlen(lit))\<close> is the library's \<open>prefix lit s\<close>.
\<close>

fun strstr :: "string \<Rightarrow> string \<Rightarrow> nat option" where
  "strstr s lit =
     (if prefix lit s then Some 0
      else case s of [] \<Rightarrow> None | _ # t \<Rightarrow> map_option Suc (strstr t lit))"

declare strstr.simps [simp del]

fun strchr :: "string \<Rightarrow> char \<Rightarrow> nat option" where
  "strchr [] c = None"
| "strchr (d # s) c = (if d = c then Some 0 else map_option Suc (strchr s c))"

definition slice :: "nat \<Rightarrow> nat \<Rightarrow> 'a list \<Rightarrow> 'a list" where
  "slice a b xs = take (b - a) (drop a xs)"

lemma strstr_Nil: "strstr [] lit = (if lit = [] then Some 0 else None)"
  by (simp add: strstr.simps)

lemma strstr_Cons:
  "strstr (c # s) lit = (if prefix lit (c # s) then Some 0 else map_option Suc (strstr s lit))"
  by (simp add: strstr.simps)

lemma strstr_Some_iff:
  "strstr s lit = Some i \<longleftrightarrow>
     i \<le> length s \<and> prefix lit (drop i s) \<and> (\<forall>j<i. \<not> prefix lit (drop j s))"
proof (induction s arbitrary: i)
  case Nil
  then show ?case by (auto simp: strstr_Nil)
next
  case (Cons c s)
  show ?case
  proof (cases "prefix lit (c # s)")
    case True
    then show ?thesis by (auto simp: strstr_Cons)
  next
    case False
    show ?thesis
    proof (cases i)
      case 0
      with False show ?thesis by (simp add: strstr_Cons)
    next
      case (Suc k)
      have "(\<forall>j<Suc k. \<not> prefix lit (drop j (c # s))) \<longleftrightarrow> (\<forall>j<k. \<not> prefix lit (drop j s))"
        using False by (auto simp: less_Suc_eq_0_disj)
      with Suc False Cons.IH [of k] show ?thesis by (simp add: strstr_Cons)
    qed
  qed
qed

lemma strstr_ex_iff: "(\<exists>i. strstr s lit = Some i) \<longleftrightarrow> (\<exists>i\<le>length s. prefix lit (drop i s))"
proof
  assume "\<exists>i\<le>length s. prefix lit (drop i s)"
  then obtain i where i: "i \<le> length s \<and> prefix lit (drop i s)" by blast
  define m where "m = (LEAST i. i \<le> length s \<and> prefix lit (drop i s))"
  have "m \<le> length s \<and> prefix lit (drop m s)"
    unfolding m_def using i by (rule LeastI)
  moreover have "\<not> prefix lit (drop j s)" if "j < m" for j
    using not_less_Least [of j "\<lambda>i. i \<le> length s \<and> prefix lit (drop i s)"] that calculation
    by (auto simp: m_def [symmetric])
  ultimately show "\<exists>i. strstr s lit = Some i"
    by (auto simp: strstr_Some_iff)
qed (auto simp: strstr_Some_iff)

lemma strstr_None_iff: "strstr s lit = None \<longleftrightarrow> (\<forall>i\<le>length s. \<not> prefix lit (drop i s))"
  using strstr_ex_iff [of s lit] by (cases "strstr s lit") auto

lemma strstr_SomeD:
  assumes "strstr s lit = Some i"
  shows "i + length lit \<le> length s" "take (length lit) (drop i s) = lit"
  using assms by (auto simp: strstr_Some_iff prefix_def dest: arg_cong [where f = length])

lemma strchr_Some_iff:
  "strchr s c = Some i \<longleftrightarrow> i < length s \<and> s ! i = c \<and> (\<forall>j<i. s ! j \<noteq> c)"
proof (induction s arbitrary: i)
  case (Cons d s)
  show ?case
    by (cases i) (auto simp: Cons.IH All_less_Suc2)
qed simp

lemma strchr_None_iff: "strchr s c = None \<longleftrightarrow> c \<notin> set s"
  by (induction s) auto

lemma strchr_append:
  "strchr (s @ t) c =
     (case strchr s c of Some i \<Rightarrow> Some i
      | None \<Rightarrow> map_option (\<lambda>i. length s + i) (strchr t c))"
  by (cases "strchr t c"; induction s) (auto split: option.splits)

lemma prefix_take_iff: "prefix p s \<longleftrightarrow> take (length p) s = p"
  by (metis append_eq_conv_conj prefix_def take_is_prefix)

lemma prefix_appendI: "prefix p s \<Longrightarrow> prefix p (s @ t)"
  by (auto simp: prefix_def)

lemma prefix_append_long: "length p \<le> length s \<Longrightarrow> prefix p (s @ t) \<longleftrightarrow> prefix p s"
  by (simp add: prefix_take_iff)

lemma length_slice [simp]: "b \<le> length xs \<Longrightarrow> length (slice a b xs) = b - a"
  by (simp add: slice_def)

lemma set_slice: "set (slice a b xs) \<subseteq> set xs"
  by (auto simp: slice_def dest: in_set_takeD in_set_dropD)

lemma strstr_skip:
  assumes "\<forall>q<k. \<not> prefix lit (drop q s)" "k \<le> length s"
  shows "strstr s lit = map_option (\<lambda>i. k + i) (strstr (drop k s) lit)"
  using assms
proof (induction k arbitrary: s)
  case 0
  then show ?case by (simp add: option.map_ident)
next
  case (Suc k)
  then obtain c t where s: "s = c # t" by (cases s) auto
  have "\<forall>q<k. \<not> prefix lit (drop q t)" using Suc.prems(1) s by force
  then have "strstr t lit = map_option (\<lambda>i. k + i) (strstr (drop k t) lit)"
    using Suc.IH Suc.prems(2) s by simp
  moreover have "\<not> prefix lit s" using Suc.prems(1) by force
  ultimately show ?case
    using s by (simp add: strstr_Cons option.map_comp comp_def)
qed

lemma slice_append_take: "a \<le> b \<Longrightarrow> take a xs @ slice a b xs = take b xs"
  by (simp add: slice_def take_add [symmetric])

lemma slice_full: "take a xs @ drop a xs = xs"
  by simp

section \<open>Bits of small values\<close>

unbundle bit_operations_syntax

lemma nat_push_or:
  assumes "m < 2 ^ k"
  shows "(a * 2 ^ k :: nat) OR m = a * 2 ^ k + m"
proof -
  have "take_bit k m = m" using assms by (simp add: take_bit_nat_eq_self)
  then have b: "bit m n \<Longrightarrow> n < k" for n by (metis bit_take_bit_iff)
  have "push_bit k a AND m = 0"
    by (rule bit_eqI) (auto simp: bit_simps dest: b)
  then have "push_bit k a + m = push_bit k a OR m"
    by (rule disjunctive_add_eq_or)
  then show ?thesis by (simp add: push_bit_eq_mult)
qed

lemma unat_or_add:
  fixes x :: "'a::len word"
  assumes "unat b = a * 2 ^ k" "unat x < 2 ^ k"
  shows "unat (b OR x) = unat b + unat x"
  using assms nat_push_or [of "unat x" k a] by (simp add: unsigned_or_eq)

lemma unat_and_mask:
  fixes w :: "'a::len word"
  shows "unat (w AND mask k) = unat w mod 2 ^ k"
  by (simp only: take_bit_eq_mask [symmetric] unsigned_take_bit_eq)
    (simp add: take_bit_eq_mod)


lemma find_snoc: "find P (xs @ [x]) = (case find P xs of None \<Rightarrow> if P x then Some x else None | Some y \<Rightarrow> Some y)"
  by (induction xs) auto

lemma find_SomeD: "find P xs = Some x \<Longrightarrow> x \<in> set xs \<and> P x"
  by (induction xs) (auto split: if_splits)

lemma find_upt_iff:
  "find P [a..<b] = Some (p::nat) \<longleftrightarrow> a \<le> p \<and> p < b \<and> P p \<and> (\<forall>q\<in>{a..<p}. \<not> P q)"
proof (induction b arbitrary: p)
  case (Suc b)
  show ?case
  proof (cases "a \<le> b")
    case True
    show ?thesis
    proof (cases "find P [a..<b]")
      case None
      then have "\<forall>q\<in>{a..<b}. \<not> P q" by (auto simp: find_None_iff)
      with True None show ?thesis by (auto simp: find_snoc less_Suc_eq)
    next
      case (Some x)
      with True Suc.IH [of x] Suc.IH [of p] show ?thesis
        by (auto simp: find_snoc less_Suc_eq)
    qed
  qed simp
qed simp

section \<open>Decimal output\<close>

text \<open>What \<open>printf\<close> writes for \<open>%u\<close> and \<open>%d\<close>.\<close>

fun dec_str :: "nat \<Rightarrow> string" where
  "dec_str n = (if n < 10 then [chr (48 + n)] else dec_str (n div 10) @ [chr (48 + n mod 10)])"

declare dec_str.simps [simp del]

definition dec_int :: "int \<Rightarrow> string" where
  "dec_int i = (if i < 0 then CHR ''-'' # dec_str (nat (- i)) else dec_str (nat i))"

lemma dec_str_nonempty [simp]: "dec_str n \<noteq> []"
  by (simp add: dec_str.simps [of n])

section \<open>Case-insensitive comparison\<close>

definition strcaseeq :: "string \<Rightarrow> string \<Rightarrow> bool" where
  "strcaseeq a b \<longleftrightarrow> map tolower a = map tolower b"

definition strcasestr :: "string \<Rightarrow> string \<Rightarrow> bool" where
  "strcasestr s needle \<longleftrightarrow> strstr (map tolower s) (map tolower needle) \<noteq> None"

end
