(* ===== verification/Json.thy ===== *)
theory Json
  imports Prelude
begin

text \<open>
  The hand-written JSON reader of \<open>ds4_server.c\<close> (lines 195 to 550) and its JSON string
  writer (lines 4750 to 4800).  A reader takes the suffix at the cursor and returns the value
  and the suffix after it, or \<open>None\<close> where the C function returns false.  Allocation is
  not modelled (the C code exits when it fails).
\<close>

section \<open>Lexical helpers\<close>

abbreviation QUOT :: char where "QUOT \<equiv> CHR 0x22"
abbreviation BSL :: char where "BSL \<equiv> CHR 0x5C"

definition json_ws :: "string \<Rightarrow> string" where
  "json_ws s = dropWhile isspace s"

definition json_lit :: "string \<Rightarrow> string \<Rightarrow> string option" where
  "json_lit s lit = (if prefix lit s then Some (drop (length lit) s) else None)"

definition json_hex :: "char \<Rightarrow> int" where
  "json_hex c =
     (if 48 \<le> byte c \<and> byte c \<le> 57 then int (byte c) - 48
      else if 97 \<le> byte c \<and> byte c \<le> 102 then 10 + int (byte c) - 97
      else if 65 \<le> byte c \<and> byte c \<le> 70 then 10 + int (byte c) - 65
      else - 1)"

unbundle bit_operations_syntax

text \<open>\<open>(char)x\<close> of an unsigned value keeps its low eight bits.\<close>

definition put8 :: "u32 \<Rightarrow> char" where
  "put8 w = chr (unat w mod 256)"

definition utf8_put :: "u32 \<Rightarrow> string" where
  "utf8_put cp0 =
     (let cp = (if cp0 > 0x10ffff \<or> (cp0 \<ge> 0xd800 \<and> cp0 \<le> 0xdfff) then 0xfffd else cp0) in
      if cp \<le> 0x7f then [put8 cp]
      else if cp \<le> 0x7ff then
        [put8 (0xc0 OR drop_bit 6 cp), put8 (0x80 OR (cp AND 0x3f))]
      else if cp \<le> 0xffff then
        [put8 (0xe0 OR drop_bit 12 cp), put8 (0x80 OR (drop_bit 6 cp AND 0x3f)),
         put8 (0x80 OR (cp AND 0x3f))]
      else
        [put8 (0xf0 OR drop_bit 18 cp), put8 (0x80 OR (drop_bit 12 cp AND 0x3f)),
         put8 (0x80 OR (drop_bit 6 cp AND 0x3f)), put8 (0x80 OR (cp AND 0x3f))])"

definition hex_shift :: "u32 \<Rightarrow> char \<Rightarrow> u32" where
  "hex_shift cp h = (push_bit 4 cp OR word_of_int (json_hex h))"

definition json_u16 :: "string \<Rightarrow> (u32 \<times> string) option" where
  "json_u16 s =
     (case s of
        b # u # h0 # h1 # h2 # h3 # r \<Rightarrow>
          if b = BSL \<and> u = CHR ''u'' \<and> (\<forall>h\<in>set [h0, h1, h2, h3]. json_hex h \<ge> 0)
          then Some (foldl hex_shift 0 [h0, h1, h2, h3], r)
          else None
      | _ \<Rightarrow> None)"

section \<open>Strings\<close>

definition json_simple_escape :: "char \<Rightarrow> char option" where
  "json_simple_escape c =
     (if c = QUOT then Some QUOT
      else if c = BSL then Some BSL
      else if c = CHR ''/'' then Some (CHR ''/'')
      else if c = CHR ''b'' then Some (CHR 0x08)
      else if c = CHR ''f'' then Some (CHR 0x0C)
      else if c = CHR ''n'' then Some (CHR 0x0A)
      else if c = CHR ''r'' then Some (CHR 0x0D)
      else if c = CHR ''t'' then Some (CHR 0x09)
      else None)"

text \<open>A \<open>\u\<close> escape, with the surrogate pair logic; a lone high surrogate is U+FFFD.\<close>

definition json_unicode_escape :: "string \<Rightarrow> (string \<times> string) option" where
  "json_unicode_escape s =
     (case json_u16 s of
        None \<Rightarrow> None
      | Some (cp, r) \<Rightarrow>
          if cp \<ge> 0xd800 \<and> cp \<le> 0xdbff then
            (case json_u16 r of
               Some (lo, r') \<Rightarrow>
                 if lo \<ge> 0xdc00 \<and> lo \<le> 0xdfff
                 then Some (utf8_put (0x10000 + push_bit 10 (cp - 0xd800) + (lo - 0xdc00)), r')
                 else Some (utf8_put 0xfffd, r)
             | None \<Rightarrow> Some (utf8_put 0xfffd, r))
          else Some (utf8_put cp, r))"

lemma json_u16_length: "json_u16 s = Some (cp, r) \<Longrightarrow> length s = length r + 6"
  by (auto simp: json_u16_def split: list.splits if_splits)

lemma json_unicode_escape_length:
  "json_unicode_escape s = Some (u, r) \<Longrightarrow> length r + 6 \<le> length s"
  by (auto simp: json_unicode_escape_def split: option.splits prod.splits if_splits
      dest!: json_u16_length)

text \<open>The loop body of \<open>json_string\<close>, from just after the opening quote.\<close>

function json_string_body :: "string \<Rightarrow> (string \<times> string) option" where
  "json_string_body [] = None"
| "json_string_body (c # s) =
     (if c = QUOT then Some ([], s)
      else if c \<noteq> BSL then map_option (apfst ((#) c)) (json_string_body s)
      else
        (case s of
           [] \<Rightarrow> None
         | e # t \<Rightarrow>
             if e = CHR ''u'' then
               (case json_unicode_escape (c # s) of
                  None \<Rightarrow> None
                | Some (u, r) \<Rightarrow> map_option (apfst ((@) u)) (json_string_body r))
             else
               (case json_simple_escape e of
                  None \<Rightarrow> None
                | Some d \<Rightarrow> map_option (apfst ((#) d)) (json_string_body t))))"
  by pat_completeness auto
termination
  by (relation "measure length") (auto dest!: json_unicode_escape_length)

definition json_string :: "string \<Rightarrow> (string \<times> string) option" where
  "json_string s =
     (case json_ws s of
        c # t \<Rightarrow> if c = QUOT then map_option (apfst cstr) (json_string_body t) else None
      | [] \<Rightarrow> None)"

lemma json_ws_length: "length (json_ws s) \<le> length s"
  by (simp add: json_ws_def length_dropWhile_le)

lemma json_string_body_length:
  "json_string_body s = Some (v, r) \<Longrightarrow> length r < length s"
proof (induction s arbitrary: v r rule: json_string_body.induct)
  case (2 c s)
  show ?case
  proof (cases "c = QUOT \<or> c \<noteq> BSL")
    case True
    with 2 show ?thesis by (fastforce split: if_splits)
  next
    case False
    then have c: "c = BSL" "c \<noteq> QUOT" by auto
    with 2 show ?thesis
      by (fastforce split: list.splits if_splits option.splits prod.splits
          dest!: json_unicode_escape_length)
  qed
qed simp

lemma json_string_length: "json_string s = Some (v, r) \<Longrightarrow> length r + 2 \<le> length s"
  using json_ws_length [of s]
  by (auto simp: json_string_def split: list.splits if_splits dest!: json_string_body_length)

section \<open>Numbers and booleans\<close>

text \<open>
  Where \<open>strtod\<close> of the C library stops in the C locale: white space, a sign, then
  \<open>inf\<close>/\<open>infinity\<close>, \<open>nan\<close> with an optional parenthesised tag, a hexadecimal or a
  decimal floating point literal; \<open>None\<close> when there is no number (\<open>end == *p\<close>).
\<close>

definition skip_sign :: "string \<Rightarrow> string" where
  "skip_sign s =
     (case s of c # t \<Rightarrow> if c = CHR ''+'' \<or> c = CHR ''-'' then t else s | [] \<Rightarrow> [])"

definition exp_tail :: "char \<Rightarrow> string \<Rightarrow> string" where
  "exp_tail e r =
     (case r of
        c # t \<Rightarrow>
          if tolower c = e then
            (case skip_sign t of
               d # _ \<Rightarrow> if isdigit d then dropWhile isdigit (skip_sign t) else r
             | [] \<Rightarrow> r)
          else r
      | [] \<Rightarrow> r)"

definition float_tail :: "(char \<Rightarrow> bool) \<Rightarrow> char \<Rightarrow> string \<Rightarrow> string option" where
  "float_tail isd e s =
     (let whole = takeWhile isd s; r = dropWhile isd s in
      case r of
        c # t \<Rightarrow>
          if c = CHR ''.'' \<and> (whole \<noteq> [] \<or> takeWhile isd t \<noteq> [])
          then Some (exp_tail e (dropWhile isd t))
          else if whole = [] then None else Some (exp_tail e r)
      | [] \<Rightarrow> if whole = [] then None else Some [])"

definition prefix_nocase :: "string \<Rightarrow> string \<Rightarrow> bool" where
  "prefix_nocase lit s \<longleftrightarrow> prefix (map tolower lit) (map tolower s)"

definition nan_tag_char :: "char \<Rightarrow> bool" where
  "nan_tag_char c \<longleftrightarrow> isalnum c \<or> c = CHR ''_''"

definition nan_tail :: "string \<Rightarrow> string" where
  "nan_tail s =
     (case s of
        c # t \<Rightarrow>
          if c = CHR ''('' then
            (case dropWhile nan_tag_char t of
               d # u \<Rightarrow> if d = CHR '')'' then u else s
             | [] \<Rightarrow> s)
          else s
      | [] \<Rightarrow> [])"

definition strtod_end :: "string \<Rightarrow> string option" where
  "strtod_end s =
     (let t = skip_sign (dropWhile isspace s) in
      if prefix_nocase ''infinity'' t then Some (drop 8 t)
      else if prefix_nocase ''inf'' t then Some (drop 3 t)
      else if prefix_nocase ''nan'' t then Some (nan_tail (drop 3 t))
      else if prefix_nocase ''0x'' t then
        (case float_tail isxdigit (CHR ''p'') (drop 2 t) of
           Some r \<Rightarrow> Some r
         | None \<Rightarrow> Some (drop 1 t))
      else float_tail isdigit (CHR ''e'') t)"

text \<open>
  \<open>json_number\<close> as far as the cursor is concerned; the value it stores is not used by the
  code modelled here.
\<close>

definition json_number_end :: "string \<Rightarrow> string option" where
  "json_number_end s = strtod_end (json_ws s)"

definition json_bool :: "string \<Rightarrow> (bool \<times> string) option" where
  "json_bool s =
     (let t = json_ws s in
      case json_lit t ''true'' of
        Some r \<Rightarrow> Some (True, r)
      | None \<Rightarrow> (case json_lit t ''false'' of Some r \<Rightarrow> Some (False, r) | None \<Rightarrow> None))"

lemma skip_sign_length: "length (skip_sign s) \<le> length s"
  by (auto simp: skip_sign_def split: list.splits)

lemma dropWhile_length: "length (dropWhile P s) \<le> length s"
  by (simp add: length_dropWhile_le)

lemma exp_tail_length: "length (exp_tail e r) \<le> length r"
proof -
  have "length (dropWhile isdigit (skip_sign t)) \<le> length t" for t
    using dropWhile_length [of isdigit "skip_sign t"] skip_sign_length [of t] by linarith
  then show ?thesis
    by (auto simp: exp_tail_def le_SucI split: list.splits)
qed

lemma dropWhile_less: "takeWhile P s \<noteq> [] \<Longrightarrow> length (dropWhile P s) < length s"
  using arg_cong [OF takeWhile_dropWhile_id [of P s], of length] by (cases "takeWhile P s") auto

lemma dropWhile_ConsD: "dropWhile P s = c # t \<Longrightarrow> length t < length s"
  using dropWhile_length [of P s] by simp

lemma float_tail_length: "float_tail isd e s = Some r \<Longrightarrow> length r < length s"
proof -
  assume a: "float_tail isd e s = Some r"
  have e: "length (exp_tail e (dropWhile isd t)) \<le> length t" for t
    using exp_tail_length [of e "dropWhile isd t"] dropWhile_length [of isd t] by linarith
  have w: "takeWhile isd s \<noteq> [] \<Longrightarrow> length (exp_tail e (dropWhile isd s)) < length s"
    using exp_tail_length [of e "dropWhile isd s"] dropWhile_less [of isd s] by linarith
  show ?thesis
  proof (cases "dropWhile isd s")
    case Nil
    show ?thesis using a w unfolding float_tail_def Let_def Nil
      by (cases "takeWhile isd s = []") (auto simp: dropWhile_less dest: dropWhile_less)
  next
    case (Cons c t)
    then show ?thesis using a w e [of t] dropWhile_ConsD [OF Cons]
      by (auto simp: float_tail_def Let_def split: if_splits)
  qed
qed

lemma nan_tail_length: "length (nan_tail s) \<le> length s"
proof -
  have "length u \<le> length t" if "dropWhile nan_tag_char t = d # u" for t d u
    using dropWhile_length [of nan_tag_char t] that by simp
  then show ?thesis by (auto simp: nan_tail_def le_SucI split: list.splits)
qed

lemma strtod_end_length: "strtod_end s = Some r \<Longrightarrow> length r < length s"
proof -
  assume a: "strtod_end s = Some r"
  define t where "t = skip_sign (dropWhile isspace s)"
  have t: "length t \<le> length s"
    using skip_sign_length [of "dropWhile isspace s"] dropWhile_length [of isspace s]
    by (simp add: t_def)
  have p: "prefix_nocase lit t \<Longrightarrow> lit \<noteq> [] \<Longrightarrow> 0 < length t" for lit
    by (auto simp: prefix_nocase_def)
  have n: "0 < length t \<Longrightarrow> length (nan_tail (drop 3 t)) < length t"
    using nan_tail_length [of "drop 3 t"] unfolding length_drop by linarith
  have "length r < length t"
    using a n p [of "''infinity''"] p [of "''inf''"]
      p [of "''nan''"] p [of "''0x''"]
    by (auto simp: strtod_end_def Let_def t_def [symmetric] dest!: float_tail_length
        split: if_splits option.splits)
  with t show ?thesis by simp
qed

lemma json_number_end_length: "json_number_end s = Some r \<Longrightarrow> length r < length s"
  using json_ws_length [of s] by (auto simp: json_number_end_def dest!: strtod_end_length)

lemma json_lit_length: "json_lit s lit = Some r \<Longrightarrow> length r + length lit = length s"
  by (auto simp: json_lit_def prefix_def split: if_splits)

section \<open>Skipping values\<close>

definition JSON_MAX_NESTING :: nat where
  "JSON_MAX_NESTING = 256"

text \<open>
  The three mutually recursive skippers and the two loops inside them are one function over
  a tag: \<open>SkValue\<close> is \<open>json_skip_value_depth\<close>, \<open>SkArray\<close> and \<open>SkObject\<close> are
  \<open>json_skip_array_depth\<close> and \<open>json_skip_object_depth\<close>, \<open>SkElems\<close> and
  \<open>SkMembers\<close> their loops.
\<close>

datatype skip_kind = SkValue | SkArray | SkElems | SkObject | SkMembers

fun skip_weight :: "skip_kind \<Rightarrow> nat" where
  "skip_weight SkArray = 1"
| "skip_weight SkObject = 1"
| "skip_weight SkValue = 2"
| "skip_weight SkElems = 3"
| "skip_weight SkMembers = 3"

function (domintros) json_skip :: "skip_kind \<Rightarrow> nat \<Rightarrow> string \<Rightarrow> string option" where
  "json_skip SkValue depth s =
     (let p = json_ws s in
      case p of
        [] \<Rightarrow> json_number_end p
      | c # _ \<Rightarrow>
          if c = QUOT then map_option snd (json_string p)
          else if c = CHR ''{'' then json_skip SkObject depth p
          else if c = CHR ''['' then json_skip SkArray depth p
          else
            (case json_lit p ''true'' of Some r \<Rightarrow> Some r
             | None \<Rightarrow> (case json_lit p ''false'' of Some r \<Rightarrow> Some r
             | None \<Rightarrow> (case json_lit p ''null'' of Some r \<Rightarrow> Some r
             | None \<Rightarrow> json_number_end p))))"
| "json_skip SkArray depth s =
     (if depth \<ge> JSON_MAX_NESTING then None
      else
        (case json_ws s of
           [] \<Rightarrow> None
         | c # t \<Rightarrow>
             if c \<noteq> CHR ''['' then None
             else
               (case json_ws t of
                  d # u \<Rightarrow> if d = CHR '']'' then Some u else json_skip SkElems depth (d # u)
                | [] \<Rightarrow> json_skip SkElems depth [])))"
| "json_skip SkElems depth s =
     (case json_skip SkValue (depth + 1) s of
        None \<Rightarrow> None
      | Some r \<Rightarrow>
          (case json_ws r of
             [] \<Rightarrow> None
           | c # t \<Rightarrow>
               if c = CHR '']'' then Some t
               else if c \<noteq> CHR '','' then None
               else json_skip SkElems depth t))"
| "json_skip SkObject depth s =
     (if depth \<ge> JSON_MAX_NESTING then None
      else
        (case json_ws s of
           [] \<Rightarrow> None
         | c # t \<Rightarrow>
             if c \<noteq> CHR ''{'' then None
             else
               (case json_ws t of
                  d # u \<Rightarrow> if d = CHR ''}'' then Some u else json_skip SkMembers depth (d # u)
                | [] \<Rightarrow> json_skip SkMembers depth [])))"
| "json_skip SkMembers depth s =
     (case json_string s of
        None \<Rightarrow> None
      | Some (key, r) \<Rightarrow>
          (case json_ws r of
             [] \<Rightarrow> None
           | c # t \<Rightarrow>
               if c \<noteq> CHR '':'' then None
               else
                 (case json_skip SkValue (depth + 1) t of
                    None \<Rightarrow> None
                  | Some r' \<Rightarrow>
                      (case json_ws r' of
                         [] \<Rightarrow> None
                       | c' # t' \<Rightarrow>
                           if c' = CHR ''}'' then Some t'
                           else if c' \<noteq> CHR '','' then None
                           else json_skip SkMembers depth t'))))"
  by pat_completeness auto

text \<open>Every skipper consumes at least one byte: the fact its termination needs.\<close>

lemma json_ws_ConsD: "json_ws s = c # t \<Longrightarrow> Suc (length t) \<le> length s"
  using json_ws_length [of s] by simp

lemma json_skip_length_dom:
  "json_skip_dom (k, d, s) \<Longrightarrow> json_skip k d s = Some r \<Longrightarrow> length r < length s"
proof (induction arbitrary: r rule: json_skip.pinduct)
  case (1 depth s)
  have ws: "length (json_ws s) \<le> length s" by (rule json_ws_length)
  show ?case
  proof (cases "json_ws s")
    case Nil
    with 1 show ?thesis
      by (auto simp: json_skip.psimps Let_def dest!: json_number_end_length)
  next
    case (Cons c t)
    with 1 ws show ?thesis
      by (fastforce simp: json_skip.psimps Let_def split: if_splits option.splits
          dest!: json_number_end_length json_string_length json_lit_length)
  qed
next
  case (2 depth s)
  show ?case
  proof (cases "json_ws s")
    case Nil
    with 2 show ?thesis by (auto simp: json_skip.psimps split: if_splits)
  next
    case (Cons c t)
    with 2 json_ws_ConsD [OF Cons] json_ws_length [of t] show ?thesis
      by (fastforce simp: json_skip.psimps split: if_splits list.splits)
  qed
next
  case (3 depth s)
  from 3(4) 3(1) obtain r1 where r1: "json_skip SkValue (depth + 1) s = Some r1"
    by (auto simp: json_skip.psimps split: option.splits)
  then have "length r1 < length s" by (rule 3(2))
  with 3(1,4) r1 3(3) [OF r1] json_ws_ConsD [of r1] show ?case
    by (fastforce simp: json_skip.psimps split: list.splits if_splits)
next
  case (4 depth s)
  show ?case
  proof (cases "json_ws s")
    case Nil
    with 4 show ?thesis by (auto simp: json_skip.psimps split: if_splits)
  next
    case (Cons c t)
    with 4 json_ws_ConsD [OF Cons] json_ws_length [of t] show ?thesis
      by (fastforce simp: json_skip.psimps split: if_splits list.splits)
  qed
next
  case (5 depth s)
  from 5(4) 5(1) obtain key r1 c t where k: "json_string s = Some (key, r1)" "json_ws r1 = c # t"
    "c = CHR '':''"
    by (auto simp: json_skip.psimps split: option.splits list.splits if_splits)
  from k(1) have l1: "length r1 + 2 \<le> length s" by (rule json_string_length)
  from 5(4) 5(1) k obtain r2 where r2: "json_skip SkValue (depth + 1) t = Some r2"
    by (auto simp: json_skip.psimps split: option.splits)
  have "length r2 < length t" using 5(2) k r2 by blast
  with l1 json_ws_ConsD [OF k(2)] 5(1,4) k r2 5(3) [OF k(1) refl k(2)] json_ws_ConsD [of r2]
  show ?case
    by (fastforce simp: json_skip.psimps split: list.splits if_splits)
qed

termination json_skip
  by (relation "measure (\<lambda>(k, d, s). 4 * length s + skip_weight k)")
    (auto dest!: json_ws_ConsD json_string_length json_skip_length_dom
      simp: json_ws_length le_imp_less_Suc)

declare json_skip.simps [simp del]

lemma json_skip_dom_all: "json_skip_dom (k, d, s)"
proof (induction k d s rule: json_skip.induct)
  case (1 depth s)
  show ?case by (rule json_skip.domintros(1)) (use 1 in auto)
next
  case (2 depth s)
  show ?case by (rule json_skip.domintros(2)) (use 2 in auto)
next
  case (3 depth s)
  show ?case by (rule json_skip.domintros(3)) (use 3 in auto)
next
  case (4 depth s)
  show ?case by (rule json_skip.domintros(4)) (use 4 in auto)
next
  case (5 depth s)
  show ?case by (rule json_skip.domintros(5)) (use 5 in auto)
qed

lemma json_skip_length: "json_skip k d s = Some r \<Longrightarrow> length r < length s"
  by (rule json_skip_length_dom) (rule json_skip_dom_all)

definition json_skip_value :: "string \<Rightarrow> string option" where
  "json_skip_value s = json_skip SkValue 0 s"

definition json_raw_value :: "string \<Rightarrow> (string \<times> string) option" where
  "json_raw_value s =
     (let start = json_ws s in
      case json_skip_value start of
        None \<Rightarrow> None
      | Some r \<Rightarrow> Some (take (length start - length r) start, r))"

text \<open>The scan of \<open>json_minify_raw_value\<close>: state is (in_string, escape).\<close>

fun minify_scan :: "bool \<Rightarrow> bool \<Rightarrow> string \<Rightarrow> string" where
  "minify_scan in_string escape [] = []"
| "minify_scan in_string escape (c # s) =
     (if in_string then
        c # (if escape then minify_scan True False s
             else if c = BSL then minify_scan True True s
             else if c = QUOT then minify_scan False False s
             else minify_scan True False s)
      else if c = QUOT then c # minify_scan True escape s
      else if \<not> isspace c then c # minify_scan False escape s
      else minify_scan False escape s)"

definition json_minify_raw_value :: "string \<Rightarrow> string" where
  "json_minify_raw_value json =
     (let start = json_ws json in
      case json_skip_value start of
        None \<Rightarrow> json
      | Some r \<Rightarrow> minify_scan False False (take (length start - length r) start))"

section \<open>Loops over members and elements\<close>

text \<open>
  The object and array loops that the readers of request fields share: after each member or
  element an optional comma is skipped (\<open>json_sep\<close>), and the loop ends at the closing
  bracket.  The handler \<open>h\<close> is the loop body: it gets the key, the values collected so far
  and the cursor after the colon (or at the element).  The length tests make the recursion
  well-founded; the locales below show that they never fail for the handlers of the code.
\<close>

definition json_sep :: "string \<Rightarrow> string" where
  "json_sep s =
     (case json_ws s of
        c # t \<Rightarrow> if c = CHR '','' then json_ws t else c # t
      | [] \<Rightarrow> [])"

lemma json_sep_length: "length (json_sep s) \<le> length s"
proof (cases "json_ws s")
  case (Cons c t)
  then show ?thesis
    using json_ws_ConsD [OF Cons] json_ws_length [of t] by (simp add: json_sep_def)
qed (simp add: json_sep_def)

lemma json_sep_less: "length s < n \<Longrightarrow> length (json_sep s) < n"
  using json_sep_length [of s] by simp

type_synonym 'a member_handler = "string \<Rightarrow> 'a \<Rightarrow> string \<Rightarrow> ('a \<times> string) option"
type_synonym 'a elem_handler = "'a \<Rightarrow> string \<Rightarrow> ('a \<times> string) option"

function json_object_loop :: "'a member_handler \<Rightarrow> 'a \<Rightarrow> string \<Rightarrow> ('a \<times> string) option" where
  "json_object_loop h a s =
     (case s of
        [] \<Rightarrow> None
      | c # t \<Rightarrow>
          if c = CHR ''}'' then Some (a, t)
          else
            (case json_string s of
               None \<Rightarrow> None
             | Some (key, s1) \<Rightarrow>
                 (case json_ws s1 of
                    [] \<Rightarrow> None
                  | c1 # s2 \<Rightarrow>
                      if c1 \<noteq> CHR '':'' then None
                      else
                        (case h key a s2 of
                           None \<Rightarrow> None
                         | Some (a', s3) \<Rightarrow>
                             if length s3 \<le> length s2
                             then json_object_loop h a' (json_sep s3) else None))))"
  by pat_completeness auto
termination
  by (relation "measure (\<lambda>(h, a, s). length s)")
    (auto dest!: json_ws_ConsD json_string_length intro!: json_sep_less)

function json_array_loop :: "'a elem_handler \<Rightarrow> 'a \<Rightarrow> string \<Rightarrow> ('a \<times> string) option" where
  "json_array_loop h a s =
     (case s of
        [] \<Rightarrow> None
      | c # t \<Rightarrow>
          if c = CHR '']'' then Some (a, t)
          else
            (case h a s of
               None \<Rightarrow> None
             | Some (a', r) \<Rightarrow>
                 if length r < length s then json_array_loop h a' (json_sep r) else None))"
  by pat_completeness auto
termination
  by (relation "measure (\<lambda>(h, a, s). length s)")
    (auto intro!: json_sep_less)

declare json_object_loop.simps [simp del] json_array_loop.simps [simp del]

text \<open>
  The contract of a member handler: it never moves the cursor backwards.  Under it the loop
  unfolds exactly as the C loop does.
\<close>

locale member_reader =
  fixes h :: "'a member_handler"
  assumes consumes: "h key a s = Some (b, r) \<Longrightarrow> length r \<le> length s"
begin

lemma object_loop_unfold:
  "json_object_loop h a s =
     (case s of
        [] \<Rightarrow> None
      | c # t \<Rightarrow>
          if c = CHR ''}'' then Some (a, t)
          else
            (case json_string s of
               None \<Rightarrow> None
             | Some (key, s1) \<Rightarrow>
                 (case json_ws s1 of
                    [] \<Rightarrow> None
                  | c1 # s2 \<Rightarrow>
                      if c1 \<noteq> CHR '':'' then None
                      else
                        (case h key a s2 of
                           None \<Rightarrow> None
                         | Some (a', s3) \<Rightarrow> json_object_loop h a' (json_sep s3)))))"
  by (subst json_object_loop.simps) (auto split: list.splits option.splits dest: consumes)

lemma object_loop_length:
  "json_object_loop h a s = Some (b, r) \<Longrightarrow> length r < length s"
proof (induction h a s rule: json_object_loop.induct)
  case (1 h a s)
  show ?case
  proof (cases s)
    case Nil
    with 1(2) show ?thesis by (simp add: json_object_loop.simps)
  next
    case (Cons c t)
    show ?thesis
    proof (cases "c = CHR ''}''")
      case True
      with 1(2) Cons show ?thesis by (simp add: json_object_loop.simps [of h a "_ # _"])
    next
      case False
      with 1(2) Cons obtain key s1 s2 a' s3 where k:
        "json_string s = Some (key, s1)" "json_ws s1 = CHR '':'' # s2" "h key a s2 = Some (a', s3)"
        "length s3 \<le> length s2" "json_object_loop h a' (json_sep s3) = Some (b, r)"
        by (auto simp: json_object_loop.simps [of h a "_ # _"] split: option.splits list.splits if_splits)
      have "length r < length (json_sep s3)"
        using 1(1) [OF Cons False k(1) refl k(2) _ k(3) refl k(4,5)] by simp
      then show ?thesis
        using json_sep_length [of s3] k(4) json_ws_ConsD [OF k(2)] json_string_length [OF k(1)]
        by simp
    qed
  qed
qed

text \<open>An invariant of the values collected so far that every member keeps.\<close>

lemma object_loop_inv:
  assumes step: "\<And>key a s b r. P a \<Longrightarrow> h key a s = Some (b, r) \<Longrightarrow> P b"
  shows "json_object_loop h a s = Some (b, r) \<Longrightarrow> P a \<Longrightarrow> P b"
proof (induction s arbitrary: a rule: measure_induct_rule [where f = length])
  case (less s)
  show ?case
  proof (cases s)
    case Nil
    with less.prems show ?thesis by (simp add: json_object_loop.simps)
  next
    case (Cons c t)
    show ?thesis
    proof (cases "c = CHR ''}''")
      case True
      with less.prems Cons show ?thesis by (simp add: json_object_loop.simps [of h a "_ # _"])
    next
      case False
      with less.prems Cons obtain key s1 s2 a' s3 where k:
        "json_string s = Some (key, s1)" "json_ws s1 = CHR '':'' # s2" "h key a s2 = Some (a', s3)"
        "length s3 \<le> length s2" "json_object_loop h a' (json_sep s3) = Some (b, r)"
        by (auto simp: json_object_loop.simps [of h a "_ # _"]
            split: option.splits list.splits if_splits)
      have "length (json_sep s3) < length s"
        using json_sep_length [of s3] k(4) json_ws_ConsD [OF k(2)] json_string_length [OF k(1)]
        by simp
      then show ?thesis using less.IH k(5) step [OF less.prems(2) k(3)] by blast
    qed
  qed
qed

end

locale elem_reader =
  fixes h :: "'a elem_handler"
  assumes consumes: "h a s = Some (b, r) \<Longrightarrow> length r < length s"
begin

lemma array_loop_unfold:
  "json_array_loop h a s =
     (case s of
        [] \<Rightarrow> None
      | c # t \<Rightarrow>
          if c = CHR '']'' then Some (a, t)
          else
            (case h a s of
               None \<Rightarrow> None
             | Some (a', r) \<Rightarrow> json_array_loop h a' (json_sep r)))"
  by (subst json_array_loop.simps) (auto split: list.splits option.splits dest: consumes)

lemma array_loop_length:
  "json_array_loop h a s = Some (b, r) \<Longrightarrow> length r < length s"
proof (induction h a s rule: json_array_loop.induct)
  case (1 h a s)
  show ?case
  proof (cases s)
    case Nil
    with 1(2) show ?thesis by (simp add: json_array_loop.simps)
  next
    case (Cons c t)
    show ?thesis
    proof (cases "c = CHR '']''")
      case True
      with 1(2) Cons show ?thesis by (simp add: json_array_loop.simps [of h a "_ # _"])
    next
      case False
      with 1(2) Cons obtain a' s3 where k: "h a s = Some (a', s3)" "length s3 < length s"
        "json_array_loop h a' (json_sep s3) = Some (b, r)"
        by (auto simp: json_array_loop.simps [of h a "_ # _"] split: option.splits if_splits)
      have "length r < length (json_sep s3)"
        using 1(1) [OF Cons False k(1) refl k(2,3)] .
      then show ?thesis using json_sep_length [of s3] k(2) by simp
    qed
  qed
qed

lemma array_loop_inv:
  assumes step: "\<And>a s b r. P a \<Longrightarrow> h a s = Some (b, r) \<Longrightarrow> P b"
  shows "json_array_loop h a s = Some (b, r) \<Longrightarrow> P a \<Longrightarrow> P b"
proof (induction s arbitrary: a rule: measure_induct_rule [where f = length])
  case (less s)
  show ?case
  proof (cases s)
    case Nil
    with less.prems show ?thesis by (simp add: json_array_loop.simps)
  next
    case (Cons c t)
    show ?thesis
    proof (cases "c = CHR '']''")
      case True
      with less.prems Cons show ?thesis by (simp add: json_array_loop.simps [of h a "_ # _"])
    next
      case False
      with less.prems Cons obtain a' s3 where k: "h a s = Some (a', s3)" "length s3 < length s"
        "json_array_loop h a' (json_sep s3) = Some (b, r)"
        by (auto simp: json_array_loop.simps [of h a "_ # _"] split: option.splits if_splits)
      have "length (json_sep s3) < length s" using k(2) by (rule json_sep_less)
      then show ?thesis using less.IH k(3) step [OF less.prems(2) k(1)] by blast
    qed
  qed
qed

end

section \<open>Message content\<close>

text \<open>
  \<open>json_content\<close>: a message's content is a string, \<open>null\<close>, an array of strings and
  text parts (their text is concatenated), or something else, which reads as empty.
\<close>

definition content_member :: "string member_handler" where
  "content_member key acc s =
     (if key = ''text'' then
        (case json_string s of None \<Rightarrow> None | Some (v, r) \<Rightarrow> Some (acc @ v, r))
      else map_option (\<lambda>r. (acc, r)) (json_skip_value s))"

definition content_elem :: "string elem_handler" where
  "content_elem acc s =
     (case s of
        [] \<Rightarrow> None
      | c # t \<Rightarrow>
          if c = QUOT then
            (case json_string s of None \<Rightarrow> None | Some (v, r) \<Rightarrow> Some (acc @ v, r))
          else if c = CHR ''{'' then json_object_loop content_member acc (json_ws t)
          else map_option (\<lambda>r. (acc, r)) (json_skip_value s))"

definition json_content :: "string \<Rightarrow> (string \<times> string) option" where
  "json_content s =
     (let p = json_ws s in
      case p of
        [] \<Rightarrow> map_option (\<lambda>r. ([], r)) (json_skip_value p)
      | c # t \<Rightarrow>
          if c = QUOT then json_string p
          else
            (case json_lit p ''null'' of
               Some r \<Rightarrow> Some ([], r)
             | None \<Rightarrow>
                 if c \<noteq> CHR ''['' then map_option (\<lambda>r. ([], r)) (json_skip_value p)
                 else json_array_loop content_elem [] (json_ws t)))"

lemma json_skip_value_length: "json_skip_value s = Some r \<Longrightarrow> length r < length s"
  by (auto simp: json_skip_value_def dest: json_skip_length)

interpretation content_member: member_reader content_member
  by unfold_locales
    (auto simp: content_member_def split: if_splits option.splits
      dest!: json_string_length json_skip_value_length)

interpretation content_elem: elem_reader content_elem
proof
  fix acc s b r
  assume a: "content_elem acc s = Some (b, r)"
  show "length r < length s"
  proof (cases s)
    case (Cons c t)
    have "length r < length (json_ws t)"
      if "json_object_loop content_member acc (json_ws t) = Some (b, r)"
      using that by (rule content_member.object_loop_length)
    with a Cons json_ws_length [of t] show ?thesis
      by (auto simp: content_elem_def split: if_splits option.splits
          dest!: json_string_length json_skip_value_length)
  qed (use a in \<open>simp add: content_elem_def\<close>)
qed

lemma json_content_length: "json_content s = Some (v, r) \<Longrightarrow> length r < length s"
proof -
  assume a: "json_content s = Some (v, r)"
  have w: "length (json_ws s) \<le> length s" by (rule json_ws_length)
  have "length r < length (json_ws s)"
  proof (cases "json_ws s")
    case Nil
    then show ?thesis
      using a by (auto simp: json_content_def dest!: json_skip_value_length)
  next
    case (Cons c t)
    have "length r < length (json_ws t)"
      if "json_array_loop content_elem [] (json_ws t) = Some (v, r)"
      using that by (rule content_elem.array_loop_length)
    with a Cons json_ws_length [of t] show ?thesis
      by (auto simp: json_content_def Let_def split: if_splits option.splits
          dest!: json_string_length json_skip_value_length json_lit_length)
  qed
  with w show ?thesis by simp
qed

section \<open>Writing strings\<close>

definition hexdig :: "nat \<Rightarrow> char" where
  "hexdig n = ''0123456789abcdef'' ! n"

text \<open>\<open>printf\<close>'s \<open>%04x\<close> of a value below 65536.\<close>

definition hex4_str :: "nat \<Rightarrow> string" where
  "hex4_str n = map hexdig [n div 4096 mod 16, n div 256 mod 16, n div 16 mod 16, n mod 16]"

definition json_escape_char :: "char \<Rightarrow> string" where
  "json_escape_char c =
     (if c = QUOT \<or> c = BSL then [BSL, c]
      else if c = CHR 0x0A then [BSL, CHR ''n'']
      else if c = CHR 0x0D then [BSL, CHR ''r'']
      else if c = CHR 0x09 then [BSL, CHR ''t'']
      else if byte c < 0x20 then BSL # CHR ''u'' # hex4_str (byte c)
      else [c])"

definition json_escape_fragment :: "string \<Rightarrow> string" where
  "json_escape_fragment s = concat (map json_escape_char s)"

definition json_escape :: "string \<Rightarrow> string" where
  "json_escape s = QUOT # json_escape_fragment s @ [QUOT]"

text \<open>\<open>json_escape_n\<close> copies \<open>n\<close> bytes and escapes the copy as a C string.\<close>

definition json_escape_n :: "string \<Rightarrow> nat \<Rightarrow> string" where
  "json_escape_n s n = json_escape (cstr (take n s))"

lemma json_hex_hexdig: "k < 16 \<Longrightarrow> json_hex (hexdig k) = int k"
proof -
  have "\<forall>k\<in>set [0..<16]. json_hex (hexdig k) = int k"
    by (simp add: upt_rec json_hex_def hexdig_def byte_def)
  then show "k < 16 \<Longrightarrow> json_hex (hexdig k) = int k" by simp
qed

lemma push_bit_4_or:
  fixes cp :: u32
  assumes "k < 16"
  shows "push_bit 4 cp OR of_nat k = 16 * cp + of_nat k"
proof -
  have "take_bit 4 k = k" using assms by (simp add: take_bit_nat_eq_self)
  then have b: "bit k n \<Longrightarrow> n < 4" for n by (metis bit_take_bit_iff)
  have "push_bit 4 cp AND of_nat k = 0"
    by (rule bit_word_eqI) (auto simp: bit_simps dest: b)
  then have "push_bit 4 cp + of_nat k = push_bit 4 cp OR of_nat k"
    by (rule disjunctive_add_eq_or)
  then show ?thesis by (simp add: push_bit_eq_mult mult.commute)
qed

lemma hex_shift_hexdig: "k < 16 \<Longrightarrow> hex_shift cp (hexdig k) = 16 * cp + of_nat k"
  by (simp add: hex_shift_def json_hex_hexdig push_bit_4_or)

lemma json_u16_hex4:
  assumes "n < 65536"
  shows "json_u16 (BSL # CHR ''u'' # hex4_str n @ t) = Some (of_nat n, t)"
proof -
  have m: "n div 4096 mod 16 = n div 4096" using assms by simp
  have "(16 * (16 * (16 * of_nat (n div 4096) + of_nat (n div 256 mod 16)) + of_nat (n div 16 mod 16))
      + of_nat (n mod 16) :: u32) =
    of_nat (16 * (16 * (16 * (n div 4096) + n div 256 mod 16) + n div 16 mod 16) + n mod 16)"
    by simp
  also have "16 * (16 * (16 * (n div 4096) + n div 256 mod 16) + n div 16 mod 16) + n mod 16 = n"
    using div_mult2_eq [of n 256 16] div_mult2_eq [of n 16 16] by simp
  finally show ?thesis
    using m by (simp add: json_u16_def hex4_str_def json_hex_hexdig hex_shift_hexdig)
qed

lemma utf8_put_ascii:
  assumes "n < 128"
  shows "utf8_put (of_nat n) = [chr n]"
proof -
  have "unat (of_nat n :: u32) = n" using assms by (simp add: unat_of_nat)
  moreover have "(of_nat n :: u32) \<le> 0x7f"
    using assms calculation by (simp add: word_le_nat_alt)
  ultimately show ?thesis
    using assms by (auto simp: utf8_put_def put8_def Let_def word_le_nat_alt word_less_nat_alt)
qed

lemma control_unicode_escape:
  assumes "byte c < 32"
  shows "json_unicode_escape (BSL # CHR ''u'' # hex4_str (byte c) @ t) = Some ([c], t)"
proof -
  have u: "json_u16 (BSL # CHR ''u'' # hex4_str (byte c) @ t) = Some (of_nat (byte c), t)"
    using assms by (simp add: json_u16_hex4)
  have "unat (of_nat (byte c) :: u32) = byte c" using assms by (simp add: unat_of_nat)
  then have "\<not> 0xd800 \<le> (of_nat (byte c) :: u32)"
    using assms by (simp add: word_le_nat_alt)
  with u show ?thesis
    using utf8_put_ascii [of "byte c"] assms by (simp add: json_unicode_escape_def)
qed

lemma json_string_body_escape_char:
  "json_string_body (json_escape_char c @ t) = map_option (apfst ((#) c)) (json_string_body t)"
proof (cases "byte c < 0x20 \<and> c \<noteq> CHR 0x0A \<and> c \<noteq> CHR 0x0D \<and> c \<noteq> CHR 0x09 \<and> c \<noteq> QUOT \<and> c \<noteq> BSL")
  case True
  then show ?thesis
    using control_unicode_escape [of c t]
    by (simp add: json_escape_char_def hex4_str_def apfst_def map_prod_def)
next
  case False
  then show ?thesis
    by (auto simp: json_escape_char_def json_simple_escape_def)
qed

lemma json_string_body_escape_fragment:
  "json_string_body (json_escape_fragment s @ QUOT # t) = Some (s, t)"
proof (induction s)
  case Nil
  show ?case by (simp add: json_escape_fragment_def)
next
  case (Cons c s)
  have "json_escape_fragment (c # s) @ QUOT # t =
      json_escape_char c @ (json_escape_fragment s @ QUOT # t)"
    by (simp add: json_escape_fragment_def)
  with Cons show ?case by (simp add: json_string_body_escape_char)
qed

lemma json_string_escape:
  "json_string (json_escape s @ t) = Some (cstr s, t)"
  by (simp add: json_string_def json_escape_def json_ws_def isspace_def byte_def
      json_string_body_escape_fragment)

text \<open>Escaping and parsing are inverse: whatever C string the server writes as a JSON string, control
  characters and bytes of any encoding included, its own reader gives the string back and stops
  right behind the closing quote.\<close>

theorem json_escape_roundtrip:
  "json_string (json_escape (cstr v) @ t) = Some (cstr v, t)"
  by (simp add: json_string_escape)

section \<open>The nesting limit\<close>

lemma json_ws_bracket [simp]:
  "json_ws (CHR ''['' # s) = CHR ''['' # s" "json_ws (CHR '']'' # s) = CHR '']'' # s"
  by (simp_all add: json_ws_def isspace_def byte_def)

lemma json_skip_brackets:
  "json_skip SkValue d (replicate (Suc n) (CHR ''['') @ replicate (Suc n) (CHR '']'') @ t)
   = (if d + Suc n \<le> 256 then Some t else None)"
proof (induction n arbitrary: d t)
  case 0
  show ?case by (simp add: JSON_MAX_NESTING_def json_skip.simps(1,2))
next
  case (Suc n)
  have close: "replicate (Suc (Suc n)) (CHR '']'') @ t = replicate (Suc n) (CHR '']'') @ CHR '']'' # t"
    by (metis append.assoc append_Cons append_Nil replicate_Suc replicate_append_same)
  let ?inner = "replicate (Suc n) (CHR ''['') @ replicate (Suc n) (CHR '']'') @ CHR '']'' # t"
  have inner: "json_skip SkValue (d + 1) ?inner = (if d + 1 + Suc n \<le> 256 then Some (CHR '']'' # t) else None)"
    by (rule Suc.IH)
  obtain u where u: "?inner = CHR ''['' # u" by simp
  have "json_skip SkValue d (CHR ''['' # ?inner) = json_skip SkArray d (CHR ''['' # ?inner)"
    by (subst json_skip.simps(1)) simp
  also have "\<dots> = (if d \<ge> 256 then None else json_skip SkElems d ?inner)"
    unfolding u by (subst json_skip.simps(2)) (simp add: JSON_MAX_NESTING_def)
  also have "json_skip SkElems d ?inner = (if d + 1 + Suc n \<le> 256 then Some t else None)"
    by (subst json_skip.simps(3)) (use inner in simp)
  finally have "json_skip SkValue d (CHR ''['' # ?inner) = (if d + Suc (Suc n) \<le> 256 then Some t else None)"
    by simp
  then show ?case by (simp only: close) simp
qed

text \<open>The nesting limit is exact: brackets nested up to 256 deep are skipped, and one level more is
  refused, whatever follows, so the recursion of the reader is bounded.\<close>

theorem json_skip_value_nesting:
  "json_skip_value (replicate (Suc n) (CHR ''['') @ replicate (Suc n) (CHR '']'') @ t)
   = (if Suc n \<le> 256 then Some t else None)"
  unfolding json_skip_value_def json_skip_brackets by simp

end
