(* ===== verification/Streaming.thy ===== *)
theory Streaming
  imports Json
begin

text \<open>
  Stop sequences and safe streaming boundaries of \<open>ds4_server.c\<close> (lines 1358 to 1473 and
  the plain completion stream of \<open>generate_job\<close>): which bytes of the generated text may
  already go to the client.
\<close>

section \<open>Stop lists\<close>

record stop_list =
  sl_v :: "string list"
  sl_max_len :: nat

definition stop_list_clear :: "stop_list \<Rightarrow> stop_list" where
  "stop_list_clear l = l\<lparr>sl_v := [], sl_max_len := 0\<rparr>"

definition stop_list_push :: "stop_list \<Rightarrow> string \<Rightarrow> stop_list" where
  "stop_list_push l s =
     (if s = [] then l
      else l\<lparr>sl_v := sl_v l @ [s], sl_max_len := (if length s > sl_max_len l then length s else sl_max_len l)\<rparr>)"

definition stop_elem :: "stop_list elem_handler" where
  "stop_elem l s =
     (case s of
        [] \<Rightarrow> None
      | c # _ \<Rightarrow>
          if c = QUOT then
            (case json_string s of None \<Rightarrow> None | Some (v, r) \<Rightarrow> Some (stop_list_push l v, r))
          else map_option (\<lambda>r. (l, r)) (json_skip_value s))"

definition parse_stop :: "string \<Rightarrow> stop_list \<Rightarrow> (stop_list \<times> string) option" where
  "parse_stop s out =
     (let p = json_ws s; l = stop_list_clear out in
      case p of
        [] \<Rightarrow> map_option (\<lambda>r. (l, r)) (json_skip_value p)
      | c # t \<Rightarrow>
          if c = QUOT then
            (case json_string p of None \<Rightarrow> None | Some (v, r) \<Rightarrow> Some (stop_list_push l v, r))
          else if c \<noteq> CHR ''['' then map_option (\<lambda>r. (l, r)) (json_skip_value p)
          else json_array_loop stop_elem l (json_ws t))"

interpretation stop_elem: elem_reader stop_elem
  by unfold_locales
    (auto simp: stop_elem_def split: list.splits if_splits option.splits
      dest!: json_string_length json_skip_value_length)

definition stop_find_step ::
  "string \<Rightarrow> nat \<Rightarrow> (nat \<times> nat) option \<Rightarrow> string \<Rightarrow> (nat \<times> nat) option" where
  "stop_find_step text from best st =
     (case strstr (drop from text) st of
        None \<Rightarrow> best
      | Some i \<Rightarrow>
          (case best of
             None \<Rightarrow> Some (from + i, length st)
           | Some (bp, bl) \<Rightarrow> if from + i < bp then Some (from + i, length st) else best))"

definition stop_list_find_from :: "stop_list \<Rightarrow> string \<Rightarrow> nat \<Rightarrow> (nat \<times> nat) option" where
  "stop_list_find_from l text from = foldl (stop_find_step text from) None (sl_v l)"

definition stop_list_stream_safe_len :: "stop_list \<Rightarrow> nat \<Rightarrow> nat" where
  "stop_list_stream_safe_len l text_len =
     (if sl_v l = [] \<or> sl_max_len l \<le> 1 then text_len
      else let hold = sl_max_len l - 1 in if text_len > hold then text_len - hold else 0)"

text \<open>What the parser establishes: no empty stop, and \<open>max_len\<close> bounds every stop.\<close>

definition stop_list_ok :: "stop_list \<Rightarrow> bool" where
  "stop_list_ok l \<longleftrightarrow> (\<forall>s\<in>set (sl_v l). s \<noteq> [] \<and> length s \<le> sl_max_len l)"

lemma stop_list_ok_clear: "stop_list_ok (stop_list_clear l)"
  by (simp add: stop_list_ok_def stop_list_clear_def)

lemma stop_list_ok_push: "stop_list_ok l \<Longrightarrow> stop_list_ok (stop_list_push l s)"
  by (fastforce simp: stop_list_ok_def stop_list_push_def)

lemma stop_elem_ok: "stop_list_ok l \<Longrightarrow> stop_elem l s = Some (l', r) \<Longrightarrow> stop_list_ok l'"
  by (auto simp: stop_elem_def stop_list_ok_push split: list.splits if_splits option.splits)

lemmas stop_array_loop_ok = stop_elem.array_loop_inv [where P = stop_list_ok, OF stop_elem_ok]

lemma parse_stop_ok: "parse_stop s out = Some (l, r) \<Longrightarrow> stop_list_ok l"
  by (auto simp: parse_stop_def Let_def split: list.splits if_splits option.splits
      intro: stop_list_ok_clear stop_list_ok_push stop_array_loop_ok)

section \<open>What the search returns\<close>

definition stop_at :: "stop_list \<Rightarrow> string \<Rightarrow> nat \<Rightarrow> bool" where
  "stop_at l text q \<longleftrightarrow> (\<exists>st\<in>set (sl_v l). prefix st (drop q text))"

lemma stop_find_fold:
  assumes "from \<le> length text"
  shows "case foldl (stop_find_step text from) best sts of
      None \<Rightarrow> best = None \<and> (\<forall>st\<in>set sts. strstr (drop from text) st = None)
    | Some (p, n) \<Rightarrow>
        (best = Some (p, n) \<or> (\<exists>st\<in>set sts. length st = n \<and> strstr (drop from text) st = Some (p - from) \<and> from \<le> p))
        \<and> (\<forall>bp bl. best = Some (bp, bl) \<longrightarrow> p \<le> bp)
        \<and> (\<forall>st\<in>set sts. \<forall>i. strstr (drop from text) st = Some i \<longrightarrow> p \<le> from + i)"
proof (induction sts arbitrary: best)
  case Nil
  then show ?case by (auto split: option.splits)
next
  case (Cons st sts)
  let ?b = "stop_find_step text from best st"
  from Cons.IH [of ?b] show ?case
    by (cases "strstr (drop from text) st"; cases best)
      (fastforce simp: stop_find_step_def split: option.splits if_splits prod.splits)+
qed

lemma stop_list_find_from_None:
  assumes "from \<le> length text"
  shows "stop_list_find_from l text from = None \<longleftrightarrow>
    (\<forall>q. from \<le> q \<and> q \<le> length text \<longrightarrow> \<not> stop_at l text q)"
proof
  assume "stop_list_find_from l text from = None"
  then have n: "\<forall>st\<in>set (sl_v l). strstr (drop from text) st = None"
    using stop_find_fold [OF assms, of None "sl_v l"] by (simp add: stop_list_find_from_def)
  show "\<forall>q. from \<le> q \<and> q \<le> length text \<longrightarrow> \<not> stop_at l text q"
  proof (intro allI impI notI)
    fix q assume q: "from \<le> q \<and> q \<le> length text" and "stop_at l text q"
    then obtain st where st: "st \<in> set (sl_v l)" "prefix st (drop q text)"
      by (auto simp: stop_at_def)
    from q have "drop q text = drop (q - from) (drop from text)" by simp
    with st n q show False
      by (metis diff_le_mono length_drop strstr_None_iff)
  qed
next
  assume a: "\<forall>q. from \<le> q \<and> q \<le> length text \<longrightarrow> \<not> stop_at l text q"
  show "stop_list_find_from l text from = None"
  proof (cases "stop_list_find_from l text from")
    case (Some pn)
    then obtain p n where pn: "stop_list_find_from l text from = Some (p, n)" by (cases pn) auto
    then obtain st where st: "st \<in> set (sl_v l)" "strstr (drop from text) st = Some (p - from)"
      "from \<le> p"
      using stop_find_fold [OF assms, of None "sl_v l"] by (auto simp: stop_list_find_from_def)
    then have "p \<le> length text" "prefix st (drop p text)"
      using assms by (auto simp: strstr_Some_iff)
    with st a show ?thesis by (auto simp: stop_at_def)
  qed
qed

lemma stop_list_find_from_Some:
  assumes "from \<le> length text" "stop_list_find_from l text from = Some (p, n)"
  shows "from \<le> p" "p \<le> length text" "\<exists>st\<in>set (sl_v l). length st = n \<and> prefix st (drop p text)"
    "\<forall>q. from \<le> q \<and> q < p \<longrightarrow> \<not> stop_at l text q"
proof -
  have f: "\<exists>st\<in>set (sl_v l). length st = n \<and> strstr (drop from text) st = Some (p - from) \<and> from \<le> p"
    "\<forall>st\<in>set (sl_v l). \<forall>i. strstr (drop from text) st = Some i \<longrightarrow> p \<le> from + i"
    using stop_find_fold [OF assms(1), of None "sl_v l"] assms(2)
    by (auto simp: stop_list_find_from_def)
  then show "from \<le> p" by auto
  from f(1) show "p \<le> length text" "\<exists>st\<in>set (sl_v l). length st = n \<and> prefix st (drop p text)"
    using assms(1) by (auto simp: strstr_Some_iff)
  show "\<forall>q. from \<le> q \<and> q < p \<longrightarrow> \<not> stop_at l text q"
  proof (intro allI impI notI)
    fix q assume q: "from \<le> q \<and> q < p" and "stop_at l text q"
    then obtain st where st: "st \<in> set (sl_v l)" "prefix st (drop (q - from) (drop from text))"
      by (auto simp: stop_at_def)
    moreover have "q - from \<le> length (drop from text)"
      using q \<open>p \<le> length text\<close> by (simp add: diff_le_mono)
    ultimately obtain i where i: "strstr (drop from text) st = Some i"
      using strstr_ex_iff [of "drop from text" st] by blast
    then have "i \<le> q - from" using st(2) by (auto simp: strstr_Some_iff not_less [symmetric])
    with f(2) st(1) i q show False by fastforce
  qed
qed

text \<open>Starting the scan later changes nothing when no stop starts before.\<close>

lemma stop_list_find_from_skip:
  assumes "\<forall>q<k. \<not> stop_at l text q" "k \<le> length text"
  shows "stop_list_find_from l text k = stop_list_find_from l text 0"
proof -
  have "foldl (stop_find_step text k) best sts = foldl (stop_find_step text 0) best sts"
    if "set sts \<subseteq> set (sl_v l)" for best sts
    using that
  proof (induction sts arbitrary: best)
    case (Cons st sts)
    then have "\<forall>q<k. \<not> prefix st (drop q text)"
      using assms(1) by (auto simp: stop_at_def)
    then have "strstr text st = map_option (\<lambda>i. k + i) (strstr (drop k text) st)"
      using assms(2) by (rule strstr_skip)
    then have "stop_find_step text k best st = stop_find_step text 0 best st"
      by (auto simp: stop_find_step_def split: option.splits)
    with Cons show ?case by simp
  qed simp
  then show ?thesis by (simp add: stop_list_find_from_def)
qed

lemma stop_list_stream_safe_len_le: "stop_list_stream_safe_len l n \<le> n"
  by (auto simp: stop_list_stream_safe_len_def Let_def)

lemma stop_list_stream_safe_len_mono:
  "m \<le> n \<Longrightarrow> stop_list_stream_safe_len l m \<le> stop_list_stream_safe_len l n"
  by (auto simp: stop_list_stream_safe_len_def Let_def)

lemma safe_len_covers:
  assumes "stop_list_ok l" "st \<in> set (sl_v l)" "q < stop_list_stream_safe_len l n"
  shows "q + length st \<le> n"
proof -
  have "length st \<le> sl_max_len l" "st \<noteq> []" "sl_v l \<noteq> []"
    using assms by (auto simp: stop_list_ok_def)
  then show ?thesis
    using assms(3) by (auto simp: stop_list_stream_safe_len_def Let_def split: if_splits)
qed

text \<open>
  The reason the tail is held back: a stop that completes only with later text never starts
  inside the part already released.
\<close>

lemma no_stop_in_released_part:
  assumes "stop_list_ok l" "stop_list_find_from l text 0 = None"
    and "q < stop_list_stream_safe_len l (length text)"
  shows "\<not> stop_at l (text @ later) q"
proof
  assume "stop_at l (text @ later) q"
  then obtain st where st: "st \<in> set (sl_v l)" "prefix st (drop q (text @ later))"
    by (auto simp: stop_at_def)
  have le: "q + length st \<le> length text"
    using assms(1) st(1) assms(3) by (rule safe_len_covers)
  then have "prefix st (drop q text)"
    using st(2) prefix_append_long [of st "drop q text" later] by simp
  then have "stop_at l text q" using st(1) by (auto simp: stop_at_def)
  then show False using assms(2) le by (simp add: stop_list_find_from_None)
qed

section \<open>UTF-8 boundaries\<close>

definition utf8_expected_len :: "char \<Rightarrow> nat" where
  "utf8_expected_len c =
     (if byte c < 0x80 then 1
      else if 0xc2 \<le> byte c \<and> byte c \<le> 0xdf then 2
      else if 0xe0 \<le> byte c \<and> byte c \<le> 0xef then 3
      else if 0xf0 \<le> byte c \<and> byte c \<le> 0xf4 then 4
      else 1)"

text \<open>\<open>(c & 0xc0) == 0x80\<close>\<close>

definition utf8_cont :: "char \<Rightarrow> bool" where
  "utf8_cont c \<longleftrightarrow> byte c AND 0xc0 = 0x80"

text \<open>The backward loop over continuation bytes: at most four.\<close>

fun utf8_back :: "string \<Rightarrow> nat \<Rightarrow> nat \<Rightarrow> nat \<Rightarrow> nat" where
  "utf8_back s start 0 p = p"
| "utf8_back s start (Suc left) p =
     (if p > start \<and> utf8_cont (s ! (p - 1)) then utf8_back s start left (p - 1) else p)"

definition utf8_stream_safe_len :: "string \<Rightarrow> nat \<Rightarrow> nat \<Rightarrow> bool \<Rightarrow> nat" where
  "utf8_stream_safe_len s start limit final =
     (if final \<or> limit \<le> start then limit
      else
        (let p = utf8_back s start 4 limit in
         if p = limit then
           (if utf8_expected_len (s ! (limit - 1)) > 1 then limit - 1 else limit)
         else if p = start \<and> utf8_cont (s ! p) then start
         else
           (let lead = p - 1; need = utf8_expected_len (s ! lead) in
            if limit - lead < need then lead else limit)))"

lemma utf8_back_bounds:
  "start \<le> p \<Longrightarrow> start \<le> utf8_back s start n p \<and> utf8_back s start n p \<le> p \<and> p \<le> utf8_back s start n p + n"
proof (induction n arbitrary: p)
  case (Suc n)
  show ?case
  proof (cases "p > start \<and> utf8_cont (s ! (p - 1))")
    case True
    then have "start \<le> p - 1" by arith
    from Suc.IH [OF this] True show ?thesis by auto
  qed (use Suc in auto)
qed simp

lemma utf8_back_stop:
  "utf8_back s start n p = start \<Longrightarrow> start < p \<Longrightarrow> utf8_cont (s ! start)"
proof (induction n arbitrary: p)
  case (Suc n)
  then show ?case
    by (cases "p - 1 = start") (auto split: if_splits)
qed simp

lemma utf8_stream_safe_len_le: "utf8_stream_safe_len s start limit final \<le> limit"
  using utf8_back_bounds [of start limit s 4]
  by (auto simp: utf8_stream_safe_len_def Let_def)

lemma utf8_stream_safe_len_ge:
  assumes "start \<le> limit"
  shows "start \<le> utf8_stream_safe_len s start limit final"
proof (cases "final \<or> limit \<le> start")
  case True
  then show ?thesis using assms by (auto simp: utf8_stream_safe_len_def)
next
  case False
  define p where "p = utf8_back s start 4 limit"
  have b: "start \<le> p" "p \<le> limit"
    using utf8_back_bounds [OF assms, of s 4] by (auto simp: p_def)
  show ?thesis
  proof (cases "p = start")
    case True
    then have "utf8_cont (s ! start)"
      using utf8_back_stop [of s start 4 limit] False by (simp add: p_def)
    with True False show ?thesis
      by (auto simp: utf8_stream_safe_len_def Let_def p_def [symmetric])
  next
    case neq: False
    then have "start \<le> p - 1" "start \<le> limit - 1" using b by arith+
    with False assms show ?thesis
      by (auto simp: utf8_stream_safe_len_def Let_def p_def [symmetric])
  qed
qed

text \<open>
  A complete character: a lead byte that announces its length, then continuation bytes.
  \<open>utf8_put\<close> only writes such characters.
\<close>

definition utf8_char :: "string \<Rightarrow> bool" where
  "utf8_char xs \<longleftrightarrow>
     xs \<noteq> [] \<and> length xs \<le> 4 \<and> utf8_expected_len (hd xs) = length xs
     \<and> \<not> utf8_cont (hd xs) \<and> (\<forall>c\<in>set (tl xs). utf8_cont c)"

definition char_start :: "string list \<Rightarrow> nat \<Rightarrow> nat" where
  "char_start cs k = length (concat (take k cs))"

lemma char_start_0 [simp]: "char_start cs 0 = 0"
  by (simp add: char_start_def)

lemma char_start_Suc: "k < length cs \<Longrightarrow> char_start cs (Suc k) = char_start cs k + length (cs ! k)"
  by (simp add: char_start_def take_Suc_conv_app_nth)

lemma char_start_all: "char_start cs (length cs) = length (concat cs)"
  by (simp add: char_start_def)

lemma char_start_mono: "j \<le> k \<Longrightarrow> char_start cs j \<le> char_start cs k"
proof -
  assume "j \<le> k"
  then have "take k cs = take j cs @ take (k - j) (drop j cs)"
    by (metis le_add_diff_inverse take_add)
  then show ?thesis by (simp add: char_start_def)
qed

lemma concat_nth_char:
  "k < length cs \<Longrightarrow> i < length (cs ! k) \<Longrightarrow> (concat cs @ rest) ! (char_start cs k + i) = cs ! k ! i"
proof (induction cs arbitrary: k)
  case (Cons c cs)
  then show ?case
    by (cases k) (auto simp: char_start_def nth_append)
qed simp

text \<open>Every position after the first is inside, or at the end of, exactly one character.\<close>

lemma locate_char:
  assumes "\<forall>c\<in>set cs. c \<noteq> []" "char_start cs a < limit" "limit \<le> length (concat cs)"
  shows "\<exists>j off. a \<le> j \<and> j < length cs \<and> 0 < off \<and> off \<le> length (cs ! j) \<and> limit = char_start cs j + off"
proof -
  define j where "j = (LEAST j. limit \<le> char_start cs (Suc j))"
  have ex: "limit \<le> char_start cs (Suc (length cs))"
    using assms(3) by (simp add: char_start_def)
  have j1: "limit \<le> char_start cs (Suc j)"
    unfolding j_def using ex by (rule LeastI)
  have j2: "char_start cs j < limit"
  proof (cases j)
    case 0
    then show ?thesis using assms(2) char_start_mono [of 0 a cs] by simp
  next
    case (Suc m)
    then have "\<not> limit \<le> char_start cs (Suc m)"
      using not_less_Least [of m "\<lambda>j. limit \<le> char_start cs (Suc j)"] by (simp add: j_def)
    with Suc show ?thesis by simp
  qed
  have aj: "a \<le> j"
  proof (rule ccontr)
    assume "\<not> a \<le> j"
    then have "char_start cs (Suc j) \<le> char_start cs a" by (intro char_start_mono) simp
    with j1 assms(2) show False by simp
  qed
  have jl: "j < length cs"
  proof (rule ccontr)
    assume "\<not> j < length cs"
    then have "char_start cs j = length (concat cs)" by (simp add: char_start_def)
    with j2 assms(3) show False by simp
  qed
  have "limit = char_start cs j + (limit - char_start cs j)" using j2 by simp
  moreover have "limit - char_start cs j \<le> length (cs ! j)"
    using j1 jl by (simp add: char_start_Suc)
  ultimately show ?thesis using aj jl j2 by (metis zero_less_diff)
qed

lemma utf8_back_run:
  assumes "\<forall>i. p - m \<le> i \<and> i < p \<longrightarrow> utf8_cont (s ! i)" "\<not> utf8_cont (s ! (p - m - 1))"
    "start < p - m" "m < n"
  shows "utf8_back s start n p = p - m"
  using assms
proof (induction m arbitrary: n p)
  case 0
  then show ?case by (cases n) auto
next
  case (Suc m)
  then obtain n' where n: "n = Suc n'" by (cases n) auto
  have c: "utf8_cont (s ! (p - 1))" "p > start"
    using Suc.prems(1,3) by auto
  have "utf8_back s start n' (p - 1) = p - 1 - m"
    using Suc.prems n by (intro Suc.IH) auto
  then show ?case using n c by simp
qed

lemma utf8_safe_in_char:
  assumes cs: "\<forall>c\<in>set cs. utf8_char c"
    and j: "j < length cs" "0 < off" "off \<le> length (cs ! j)" "start \<le> char_start cs j"
  shows "utf8_stream_safe_len (concat cs @ rest) start (char_start cs j + off) False =
    (if off < length (cs ! j) then char_start cs j else char_start cs (Suc j))"
proof -
  let ?s = "concat cs @ rest" and ?B = "char_start cs j"
  have ch: "utf8_char (cs ! j)" using cs j(1) by simp
  have nth: "?s ! (?B + i) = cs ! j ! i" if "i < length (cs ! j)" for i
    using that j(1) by (rule concat_nth_char [rotated])
  have ne: "0 < length (cs ! j)" using ch by (simp add: utf8_char_def)
  have lead: "?s ! ?B = hd (cs ! j)" using nth [OF ne] ne by (simp add: hd_conv_nth)
  have conts: "utf8_cont (?s ! i)" if "?B + 1 \<le> i" "i < ?B + off" for i
  proof -
    have k: "i - ?B < length (cs ! j)" "i - ?B > 0" using that j(3) by auto
    then have "cs ! j ! (i - ?B) \<in> set (tl (cs ! j))"
      by (metis Suc_pred' length_tl less_imp_Suc_add nth_mem nth_tl diff_Suc_1 Suc_less_eq)
    with ch nth [OF k(1)] that show ?thesis by (simp add: utf8_char_def)
  qed
  have bk: "utf8_back ?s start 4 (?B + off) = ?B + 1"
  proof -
    have "off \<le> 4" using j(3) ch by (auto simp: utf8_char_def)
    then have "utf8_back ?s start 4 (?B + off) = ?B + off - (off - 1)"
      using conts lead ch j by (intro utf8_back_run) (auto simp: utf8_char_def)
    then show ?thesis using j(2) by simp
  qed
  have len: "utf8_expected_len (?s ! ?B) = length (cs ! j)"
    using lead ch by (simp add: utf8_char_def)
  have bnd: "char_start cs (Suc j) = ?B + length (cs ! j)" using j(1) by (rule char_start_Suc)
  show ?thesis
  proof (cases "off = 1")
    case True
    then show ?thesis
      using bk len j bnd by (auto simp: utf8_stream_safe_len_def Let_def)
  next
    case False
    then show ?thesis
      using bk len j bnd by (auto simp: utf8_stream_safe_len_def Let_def)
  qed
qed

lemma utf8_safe_boundary:
  assumes cs: "\<forall>c\<in>set cs. utf8_char c"
    and l: "char_start cs a \<le> limit" "limit \<le> length (concat cs)" "a \<le> length cs"
  shows "\<exists>k\<le>length cs. utf8_stream_safe_len (concat cs @ rest) (char_start cs a) limit False = char_start cs k
      \<and> a \<le> k \<and> char_start cs k \<le> limit \<and> (\<forall>m\<le>length cs. char_start cs m \<le> limit \<longrightarrow> m \<le> k)"
proof (cases "char_start cs a = limit")
  case True
  have "\<forall>m\<le>length cs. char_start cs m \<le> limit \<longrightarrow> m \<le> a"
  proof (intro allI impI)
    fix m assume m: "m \<le> length cs" "char_start cs m \<le> limit"
    show "m \<le> a"
    proof (rule ccontr)
      assume "\<not> m \<le> a"
      then have "char_start cs (Suc a) \<le> char_start cs m" "a < length cs"
        using m(1) by (auto intro: char_start_mono)
      moreover from \<open>a < length cs\<close> have "0 < length (cs ! a)"
        using cs by (auto simp: utf8_char_def)
      ultimately show False using m(2) True by (simp add: char_start_Suc)
    qed
  qed
  with True l show ?thesis by (auto simp: utf8_stream_safe_len_def)
next
  case False
  have ne: "\<forall>c\<in>set cs. c \<noteq> []" using cs by (auto simp: utf8_char_def)
  then obtain j off where j: "a \<le> j" "j < length cs" "0 < off" "off \<le> length (cs ! j)"
    "limit = char_start cs j + off"
    using locate_char [OF ne, of a limit] False l by auto
  have r: "utf8_stream_safe_len (concat cs @ rest) (char_start cs a) limit False =
    (if off < length (cs ! j) then char_start cs j else char_start cs (Suc j))"
    using utf8_safe_in_char [OF cs j(2,3,4), of "char_start cs a" rest] j(1,5)
    by (simp add: char_start_mono)
  have strict: "char_start cs m < char_start cs k" if "m < k" "k \<le> length cs" for m k
  proof -
    have "m < length cs" using that by simp
    then have "char_start cs m < char_start cs (Suc m)"
      using ne by (simp add: char_start_Suc)
    also have "\<dots> \<le> char_start cs k" using that by (intro char_start_mono) simp
    finally show ?thesis .
  qed
  have bnd: "char_start cs (Suc j) = char_start cs j + length (cs ! j)"
    using j(2) by (rule char_start_Suc)
  show ?thesis
  proof (cases "off < length (cs ! j)")
    case True
    have "m \<le> j" if "m \<le> length cs" "char_start cs m \<le> limit" for m
    proof (rule ccontr)
      assume "\<not> m \<le> j"
      then have "char_start cs (Suc j) \<le> char_start cs m" by (intro char_start_mono) simp
      with that(2) bnd True j(5) show False by simp
    qed
    with True r j show ?thesis by (intro exI [of _ j]) auto
  next
    case False
    then have "limit = char_start cs (Suc j)" using j bnd by simp
    moreover have "m \<le> Suc j" if "m \<le> length cs" "char_start cs m \<le> limit" for m
      using strict [of "Suc j" m] that calculation by (metis not_less)
    ultimately show ?thesis using False r j by (intro exI [of _ "Suc j"]) auto
  qed
qed

lemma utf8_cont_byte: "utf8_cont c \<longleftrightarrow> 128 \<le> byte c \<and> byte c < 192"
proof -
  define n where "n = byte c"
  have "n AND push_bit 6 3 = push_bit 6 (drop_bit 6 n AND mask 2)"
    by (rule bit_eqI) (auto simp: bit_simps mask_eq_exp_minus_1 numeral_3_eq_3)
  also have "drop_bit 6 n AND mask 2 = n div 64"
  proof -
    have "n div 64 < 4" using byte_less [of c] unfolding n_def by linarith
    then show ?thesis
      by (simp add: take_bit_eq_mask [symmetric] take_bit_eq_mod drop_bit_eq_div)
  qed
  finally have c1: "n AND push_bit 6 3 = (n div 64) * 2 ^ 6" unfolding push_bit_eq_mult .
  have c2: "push_bit 6 3 = (0xc0 :: nat)" by (simp add: push_bit_eq_mult)
  have c3: "(n div 64) * 2 ^ 6 = 64 * (n div 64)" by simp
  have a: "n AND 0xc0 = 64 * (n div 64)" by (rule trans [OF c1 [unfolded c2] c3])
  have "64 * m \<le> n \<Longrightarrow> n < 64 * m + 64 \<Longrightarrow> (64 * m = 128) = (128 \<le> n \<and> n < 192)" for m
    by arith
  then have "(64 * (n div 64) = 128) = (128 \<le> n \<and> n < 192)"
    using times_div_less_eq_dividend [of 64 n] dividend_less_times_div [of 64 n] by simp
  then show ?thesis unfolding utf8_cont_def n_def [symmetric] a .
qed

lemma utf8_put_cases:
  fixes cp :: u32
  assumes "cp \<le> 0x10ffff" "\<not> (cp \<ge> 0xd800 \<and> cp \<le> 0xdfff)"
  defines "n \<equiv> unat cp"
  shows "map byte (utf8_put cp) =
    (if n < 128 then [n]
     else if n < 2048 then [192 + n div 64, 128 + n mod 64]
     else if n < 65536 then [224 + n div 4096, 128 + n div 64 mod 64, 128 + n mod 64]
     else [240 + n div 262144, 128 + n div 4096 mod 64, 128 + n div 64 mod 64, 128 + n mod 64])"
proof -
  have mask: "unat (w AND 0x3f) = unat w mod 64" for w :: u32
    using unat_and_mask [of w 6] by (simp add: mask_eq_exp_minus_1)
  have shift: "unat (drop_bit k cp) = n div 2 ^ k" for k
    by (simp only: n_def unat_drop_bit_eq) (simp add: drop_bit_eq_div)
  have shift2: "unat (drop_bit k cp AND 0x3f) = n div 2 ^ k mod 64" for k
    by (simp add: mask shift)
  have lo: "unat (0x80 OR (w AND 0x3f)) = 128 + unat w mod 64" for w :: u32
    using unat_or_add [of "0x80 :: u32" 2 6 "w AND 0x3f"] by (simp add: mask)
  have n: "n \<le> 0x10ffff" using assms(1) by (simp add: n_def word_le_nat_alt)
  have l2: "n < 2048 \<Longrightarrow> unat (0xc0 OR drop_bit 6 cp) = 192 + n div 64"
    using unat_or_add [of "0xc0 :: u32" 6 5 "drop_bit 6 cp"] by (simp add: shift)
  have l3: "n < 65536 \<Longrightarrow> unat (0xe0 OR drop_bit 12 cp) = 224 + n div 4096"
    using unat_or_add [of "0xe0 :: u32" 14 4 "drop_bit 12 cp"] by (simp add: shift)
  have l4: "unat (0xf0 OR drop_bit 18 cp) = 240 + n div 262144"
    using unat_or_add [of "0xf0 :: u32" 15 4 "drop_bit 18 cp"] n by (simp add: shift)
  have "\<not> (cp > 0x10ffff \<or> (cp \<ge> 0xd800 \<and> cp \<le> 0xdfff))"
    using assms(1,2) by auto
  then show ?thesis
    using l2 l3 l4 n
    by (auto simp: utf8_put_def put8_def lo shift n_def [symmetric] word_le_nat_alt)
qed

lemma utf8_expected_len_byte:
  "utf8_expected_len c = (let b = byte c in
     if b < 128 then 1 else if 194 \<le> b \<and> b \<le> 223 then 2 else if 224 \<le> b \<and> b \<le> 239 then 3
     else if 240 \<le> b \<and> b \<le> 244 then 4 else 1)"
  by (simp add: utf8_expected_len_def Let_def)

lemma utf8_char_byte:
  "utf8_char xs \<longleftrightarrow> (let bs = map byte xs in
     bs \<noteq> [] \<and> length bs \<le> 4 \<and> (let b = hd bs in
       length bs = (if b < 128 then 1 else if 194 \<le> b \<and> b \<le> 223 then 2
         else if 224 \<le> b \<and> b \<le> 239 then 3 else if 240 \<le> b \<and> b \<le> 244 then 4 else 1)
       \<and> \<not> (128 \<le> b \<and> b < 192)) \<and> (\<forall>b\<in>set (tl bs). 128 \<le> b \<and> b < 192))"
  by (cases xs) (auto simp: utf8_char_def utf8_expected_len_byte utf8_cont_byte Let_def)

lemma utf8_put_replacement:
  "cp > 0x10ffff \<or> (cp \<ge> 0xd800 \<and> cp \<le> 0xdfff) \<Longrightarrow> utf8_put cp = utf8_put 0xfffd"
  by (simp add: utf8_put_def)

lemma utf8_put_utf8_char: "utf8_char (utf8_put cp)"
proof -
  have ok: "utf8_char (utf8_put cp)"
    if "cp \<le> 0x10ffff" "\<not> (cp \<ge> 0xd800 \<and> cp \<le> 0xdfff)" for cp :: u32
  proof -
    have "unat cp \<le> 0x10ffff" using that(1) by (simp add: word_le_nat_alt)
    then show ?thesis
      using utf8_put_cases [OF that] by (auto simp: utf8_char_byte Let_def)
  qed
  show ?thesis
  proof (cases "cp > 0x10ffff \<or> (cp \<ge> 0xd800 \<and> cp \<le> 0xdfff)")
    case True
    then show ?thesis by (subst utf8_put_replacement) (auto intro: ok)
  next
    case False
    then show ?thesis by (auto simp: not_less intro: ok)
  qed
qed

section \<open>Streaming a plain completion\<close>

text \<open>
  The token loop of \<open>generate_job\<close> for a plain completion stream (lines 11571 to 11603 and
  11779 to 11786) and the flush after it (lines 11933 to 11937): \<open>ps_text\<close> is the text
  buffer, \<open>ps_pos\<close> is \<open>plain_stream_pos\<close>, \<open>ps_scan\<close> is \<open>stop_scan_from\<close>,
  \<open>ps_sent\<close> what the client has received, \<open>ps_done\<close> that a stop ended the loop.
\<close>

record plain_stream =
  ps_text :: string
  ps_pos :: nat
  ps_scan :: nat
  ps_sent :: string
  ps_done :: bool

definition plain_init :: plain_stream where
  "plain_init = \<lparr>ps_text = [], ps_pos = 0, ps_scan = 0, ps_sent = [], ps_done = False\<rparr>"

definition plain_step :: "stop_list \<Rightarrow> plain_stream \<Rightarrow> string \<Rightarrow> plain_stream" where
  "plain_step l st piece =
     (if ps_done st then st
      else
        let text = ps_text st @ piece;
            hit = stop_list_find_from l text (ps_scan st);
            want = (case hit of Some (p, _) \<Rightarrow> p
                    | None \<Rightarrow> stop_list_stream_safe_len l (length text));
            stream_len = utf8_stream_safe_len text (ps_pos st) (min want (length text)) (hit \<noteq> None);
            scan = (if hit = None \<and> sl_max_len l > 1
                    then (let hold = sl_max_len l - 1 in
                          if length text > hold then length text - hold else 0)
                    else ps_scan st);
            sent = (if stream_len > ps_pos st
                    then ps_sent st @ slice (ps_pos st) stream_len text else ps_sent st);
            pos = (if stream_len > ps_pos st then stream_len else ps_pos st)
        in \<lparr>ps_text = (case hit of Some (p, _) \<Rightarrow> take p text | None \<Rightarrow> text),
            ps_pos = pos, ps_scan = scan, ps_sent = sent, ps_done = (hit \<noteq> None)\<rparr>)"

definition plain_finish :: "plain_stream \<Rightarrow> string" where
  "plain_finish st =
     (if length (ps_text st) > ps_pos st then ps_sent st @ drop (ps_pos st) (ps_text st)
      else ps_sent st)"

definition plain_stream_output :: "stop_list \<Rightarrow> string list \<Rightarrow> string" where
  "plain_stream_output l pieces = plain_finish (foldl (plain_step l) plain_init pieces)"

text \<open>
  The specification: nothing is streamed; after each piece the whole text so far is searched
  from its start, and the answer is cut at the first stop.
\<close>

fun batch_output :: "stop_list \<Rightarrow> string \<Rightarrow> string list \<Rightarrow> string" where
  "batch_output l acc [] = acc"
| "batch_output l acc (piece # pieces) =
     (case stop_list_find_from l (acc @ piece) 0 of
        Some (p, _) \<Rightarrow> take p (acc @ piece)
      | None \<Rightarrow> batch_output l (acc @ piece) pieces)"

definition plain_inv :: "stop_list \<Rightarrow> plain_stream \<Rightarrow> bool" where
  "plain_inv l st \<longleftrightarrow>
     \<not> ps_done st
     \<and> stop_list_find_from l (ps_text st) 0 = None
     \<and> ps_pos st \<le> stop_list_stream_safe_len l (length (ps_text st))
     \<and> ps_scan st \<le> stop_list_stream_safe_len l (length (ps_text st))
     \<and> ps_sent st = take (ps_pos st) (ps_text st)"

lemma stop_list_find_from_end [simp]:
  "stop_list_ok l \<Longrightarrow> stop_list_find_from l [] 0 = None"
  by (auto simp: stop_list_find_from_None stop_at_def stop_list_ok_def)

lemma plain_inv_init: "stop_list_ok l \<Longrightarrow> plain_inv l plain_init"
  by (simp add: plain_inv_def plain_init_def)

text \<open>Under the invariant the incremental search finds what a search from the start finds.\<close>

lemma plain_search_complete:
  assumes "stop_list_ok l" "plain_inv l st"
  shows "stop_list_find_from l (ps_text st @ piece) (ps_scan st) =
    stop_list_find_from l (ps_text st @ piece) 0"
proof (rule stop_list_find_from_skip)
  show "\<forall>q<ps_scan st. \<not> stop_at l (ps_text st @ piece) q"
    using assms no_stop_in_released_part [of l "ps_text st" _ piece]
    by (auto simp: plain_inv_def)
  have "ps_scan st \<le> length (ps_text st)"
    using assms(2) stop_list_stream_safe_len_le [of l "length (ps_text st)"]
    by (auto simp: plain_inv_def)
  then show "ps_scan st \<le> length (ps_text st @ piece)" by simp
qed

lemma plain_step_miss:
  assumes "stop_list_ok l" "plain_inv l st"
    and "stop_list_find_from l (ps_text st @ piece) 0 = None"
  shows "plain_inv l (plain_step l st piece)"
    and "ps_text (plain_step l st piece) = ps_text st @ piece"
proof -
  let ?T = "ps_text st @ piece"
  let ?safe = "stop_list_stream_safe_len l (length ?T)"
  let ?u = "utf8_stream_safe_len ?T (ps_pos st) (min ?safe (length ?T)) False"
  have hit: "stop_list_find_from l ?T (ps_scan st) = None"
    using assms plain_search_complete by simp
  have safe: "?safe \<le> length ?T" by (rule stop_list_stream_safe_len_le)
  have mono: "stop_list_stream_safe_len l (length (ps_text st)) \<le> ?safe"
    by (rule stop_list_stream_safe_len_mono) simp
  have u: "?u \<le> ?safe"
    using utf8_stream_safe_len_le [of ?T "ps_pos st" "min ?safe (length ?T)" False] safe by simp
  have pos: "ps_pos st \<le> length (ps_text st)" "ps_pos st \<le> ?safe"
    using assms(2) mono stop_list_stream_safe_len_le [of l "length (ps_text st)"]
    by (auto simp: plain_inv_def)
  have sent: "ps_sent st = take (ps_pos st) ?T"
    using assms(2) pos(1) by (simp add: plain_inv_def)
  have scan: "sl_max_len l > 1 \<Longrightarrow> length ?T - (sl_max_len l - 1) \<le> ?safe"
    using safe by (auto simp: stop_list_stream_safe_len_def Let_def)
  show "ps_text (plain_step l st piece) = ?T"
    using assms(2) hit by (simp add: plain_step_def plain_inv_def Let_def)
  show "plain_inv l (plain_step l st piece)"
    using assms hit u pos sent scan mono slice_append_take [of "ps_pos st" ?u ?T]
    by (auto simp: plain_step_def plain_inv_def Let_def)
qed

lemma plain_step_hit:
  assumes "stop_list_ok l" "plain_inv l st"
    and "stop_list_find_from l (ps_text st @ piece) 0 = Some (p, n)"
  shows "ps_done (plain_step l st piece)"
    and "plain_finish (plain_step l st piece) = take p (ps_text st @ piece)"
proof -
  let ?T = "ps_text st @ piece"
  have hit: "stop_list_find_from l ?T (ps_scan st) = Some (p, n)"
    using assms plain_search_complete by simp
  have p: "p \<le> length ?T" "stop_at l ?T p"
    using stop_list_find_from_Some [OF _ assms(3)] by (auto simp: stop_at_def)
  have "ps_pos st \<le> p"
  proof (rule ccontr)
    assume "\<not> ps_pos st \<le> p"
    then have "p < stop_list_stream_safe_len l (length (ps_text st))"
      using assms(2) by (simp add: plain_inv_def)
    with assms p(2) show False
      using no_stop_in_released_part [of l "ps_text st" p piece] by (simp add: plain_inv_def)
  qed
  moreover have "ps_sent st = take (ps_pos st) ?T"
    using assms(2) stop_list_stream_safe_len_le [of l "length (ps_text st)"]
    by (simp add: plain_inv_def)
  ultimately show "ps_done (plain_step l st piece)"
    "plain_finish (plain_step l st piece) = take p ?T"
    using hit assms(2) p(1) slice_append_take [of "ps_pos st" p ?T]
    by (auto simp: plain_step_def plain_finish_def plain_inv_def Let_def utf8_stream_safe_len_def
        min_absorb1)
qed

lemma plain_step_done: "ps_done st \<Longrightarrow> foldl (plain_step l) st pieces = st"
  by (induction pieces) (auto simp: plain_step_def)

lemma plain_fold_batch:
  assumes "stop_list_ok l" "plain_inv l st"
  shows "plain_finish (foldl (plain_step l) st pieces) = batch_output l (ps_text st) pieces"
  using assms(2)
proof (induction pieces arbitrary: st)
  case Nil
  then show ?case by (auto simp: plain_finish_def plain_inv_def)
next
  case (Cons piece pieces)
  show ?case
  proof (cases "stop_list_find_from l (ps_text st @ piece) 0")
    case None
    then show ?thesis
      using Cons plain_step_miss [OF assms(1) Cons.prems None] by simp
  next
    case (Some pn)
    then obtain p n where pn: "stop_list_find_from l (ps_text st @ piece) 0 = Some (p, n)"
      by (cases pn) auto
    then show ?thesis
      using plain_step_hit [OF assms(1) Cons.prems pn] by (simp add: plain_step_done)
  qed
qed


text \<open>C3. Streaming is exact: for the stop sequences a request can give and pieces of any size, the
  bytes sent to the client, across all chunks, are those of the answer that waits for each whole
  text and cuts it at the first stop; no byte of a stop sequence leaks and none is lost.\<close>

theorem plain_stream_refines_batch:
  assumes "parse_stop s out = Some (l, r)"
  shows "plain_stream_output l pieces = batch_output l [] pieces"
  using plain_fold_batch [OF parse_stop_ok [OF assms] plain_inv_init [OF parse_stop_ok [OF assms]]]
  by (simp add: plain_stream_output_def plain_init_def)

theorem plain_stream_refines_batch_witness:
  "plain_stream_output \<lparr>sl_v = [''END'', ''x''], sl_max_len = 3\<rparr> [''abE'', ''N'', ''Dx'']
     = batch_output \<lparr>sl_v = [''END'', ''x''], sl_max_len = 3\<rparr> [] [''abE'', ''N'', ''Dx'']"
  by (rule plain_stream_refines_batch [of "[CHR ''['', QUOT] @ ''END'' @ [QUOT, CHR '','', QUOT] @ ''x'' @ [QUOT, CHR '']'']"
        "\<lparr>sl_v = [], sl_max_len = 0\<rparr>" _ "[]"]) code_simp

text \<open>A chunk never ends inside a character: when the bytes up to some character boundary are
  well-formed UTF-8, the length released under a limit is the greatest character boundary that
  does not exceed the limit.\<close>

theorem utf8_stream_safe_len_boundary:
  assumes "\<forall>c\<in>set cs. utf8_char c"
    and "char_start cs a \<le> limit" "limit \<le> length (concat cs)" "a \<le> length cs"
  shows "\<exists>k\<le>length cs. utf8_stream_safe_len (concat cs @ rest) (char_start cs a) limit False = char_start cs k
      \<and> a \<le> k \<and> char_start cs k \<le> limit \<and> (\<forall>m\<le>length cs. char_start cs m \<le> limit \<longrightarrow> m \<le> k)"
  by (rule utf8_safe_boundary [OF assms])

theorem utf8_stream_safe_len_boundary_witness:
  "utf8_stream_safe_len [CHR 0xC3, CHR 0xA9, CHR ''z''] 0 1 False = 0"
proof -
  let ?c = "[CHR 0xC3, CHR 0xA9]"
  have "\<forall>c\<in>set [?c]. utf8_char c" by code_simp
  from utf8_stream_safe_len_boundary [OF this, of 0 1 "''z''"]
  obtain k where k: "k \<le> 1" "utf8_stream_safe_len [CHR 0xC3, CHR 0xA9, CHR ''z''] 0 1 False = char_start [?c] k"
    "char_start [?c] k \<le> 1" by auto
  then have "k = 0" by (cases k) (simp_all add: char_start_def)
  with k(2) show ?thesis by simp
qed

text \<open>Whatever code point an escape names, lone surrogates and values past the end of Unicode
  included, what the reader stores is one complete UTF-8 character.\<close>

theorem utf8_put_well_formed: "utf8_char (utf8_put cp)"
  by (rule utf8_put_utf8_char)

end
