(* ===== verification/Chat.thy ===== *)
theory Chat
  imports Json
begin

text \<open>
  The chat transcript of \<open>ds4_server.c\<close>: tool calls and messages (lines 588 to 636), the
  constructors that own them (lines 727 to 781 and 1047 to 1053), and the readers of the
  OpenAI \<open>messages\<close> array (lines 1508 to 1614 and 2049 to 2147).  A \<open>char *\<close> that
  may be NULL is an option.
\<close>

section \<open>Data\<close>

record tool_call =
  tc_id :: "string option"
  tc_name :: "string option"
  tc_arguments :: "string option"

record tool_calls =
  tcs_v :: "tool_call list"
  tcs_raw_dsml :: "string option"

record chat_msg =
  cm_role :: "string option"
  cm_content :: "string option"
  cm_reasoning :: "string option"
  cm_tool_call_id :: "string option"
  cm_tool_call_ids :: "string list"
  cm_calls :: tool_calls

type_synonym chat_msgs = "chat_msg list"

definition empty_tool_call :: tool_call where
  "empty_tool_call = \<lparr>tc_id = None, tc_name = None, tc_arguments = None\<rparr>"

definition empty_tool_calls :: tool_calls where
  "empty_tool_calls = \<lparr>tcs_v = [], tcs_raw_dsml = None\<rparr>"

definition empty_chat_msg :: chat_msg where
  "empty_chat_msg = \<lparr>cm_role = None, cm_content = None, cm_reasoning = None,
     cm_tool_call_id = None, cm_tool_call_ids = [], cm_calls = empty_tool_calls\<rparr>"

definition tool_calls_push :: "tool_calls \<Rightarrow> tool_call \<Rightarrow> tool_calls" where
  "tool_calls_push calls tc = calls\<lparr>tcs_v := tcs_v calls @ [tc]\<rparr>"

definition chat_msg_add_tool_call_id :: "chat_msg \<Rightarrow> string \<Rightarrow> chat_msg" where
  "chat_msg_add_tool_call_id m ident =
     (if ident = [] then m
      else
        let m' = (if cm_tool_call_id m = None then m\<lparr>cm_tool_call_id := Some ident\<rparr> else m) in
        if ident \<in> set (cm_tool_call_ids m') then m'
        else m'\<lparr>cm_tool_call_ids := cm_tool_call_ids m' @ [ident]\<rparr>)"

section \<open>Tool calls\<close>

definition function_call_member :: "tool_call member_handler" where
  "function_call_member key tc s =
     (if key = ''name'' then
        (case json_string s of None \<Rightarrow> None | Some (v, r) \<Rightarrow> Some (tc\<lparr>tc_name := Some v\<rparr>, r))
      else if key = ''arguments'' then
        (let p = json_ws s in
         case (if take 1 p = [QUOT] then json_string p else json_raw_value p) of
           None \<Rightarrow> None
         | Some (v, r) \<Rightarrow> Some (tc\<lparr>tc_arguments := Some v\<rparr>, r))
      else map_option (\<lambda>r. (tc, r)) (json_skip_value s))"

definition parse_function_call :: "tool_call \<Rightarrow> string \<Rightarrow> (tool_call \<times> string) option" where
  "parse_function_call tc s =
     (case json_ws s of
        [] \<Rightarrow> None
      | c # t \<Rightarrow> if c \<noteq> CHR ''{'' then None else json_object_loop function_call_member tc (json_ws t))"

definition tool_call_member :: "tool_call member_handler" where
  "tool_call_member key tc s =
     (if key = ''id'' then
        (case json_string s of None \<Rightarrow> None | Some (v, r) \<Rightarrow> Some (tc\<lparr>tc_id := Some v\<rparr>, r))
      else if key = ''function'' then parse_function_call tc s
      else map_option (\<lambda>r. (tc, r)) (json_skip_value s))"

definition tool_call_elem :: "tool_calls elem_handler" where
  "tool_call_elem calls s =
     (case s of
        [] \<Rightarrow> None
      | c # t \<Rightarrow>
          if c \<noteq> CHR ''{'' then None
          else
            (case json_object_loop tool_call_member empty_tool_call (json_ws t) of
               None \<Rightarrow> None
             | Some (tc, r) \<Rightarrow>
                 Some (if tc_name tc \<noteq> None \<and> tc_arguments tc \<noteq> None
                       then tool_calls_push calls tc else calls, r)))"

definition parse_tool_calls_value :: "tool_calls \<Rightarrow> string \<Rightarrow> (tool_calls \<times> string) option" where
  "parse_tool_calls_value calls s =
     (let p = json_ws s in
      case json_lit p ''null'' of
        Some r \<Rightarrow> Some (calls, r)
      | None \<Rightarrow>
          (case p of
             [] \<Rightarrow> None
           | c # t \<Rightarrow>
               if c \<noteq> CHR ''['' then None else json_array_loop tool_call_elem calls (json_ws t)))"

section \<open>Messages\<close>

definition message_member :: "chat_msg member_handler" where
  "message_member key m s =
     (if key = ''role'' then
        (case json_string s of None \<Rightarrow> None | Some (v, r) \<Rightarrow> Some (m\<lparr>cm_role := Some v\<rparr>, r))
      else if key = ''content'' then
        (case json_content s of None \<Rightarrow> None | Some (v, r) \<Rightarrow> Some (m\<lparr>cm_content := Some v\<rparr>, r))
      else if key = ''reasoning_content'' then
        (case json_content s of None \<Rightarrow> None | Some (v, r) \<Rightarrow> Some (m\<lparr>cm_reasoning := Some v\<rparr>, r))
      else if key = ''tool_call_id'' then
        (case json_string s of None \<Rightarrow> None | Some (v, r) \<Rightarrow> Some (chat_msg_add_tool_call_id m v, r))
      else if key = ''tool_calls'' then
        (case parse_tool_calls_value empty_tool_calls s of
           None \<Rightarrow> None | Some (calls, r) \<Rightarrow> Some (m\<lparr>cm_calls := calls\<rparr>, r))
      else map_option (\<lambda>r. (m, r)) (json_skip_value s))"

definition nonempty_opt :: "string option \<Rightarrow> bool" where
  "nonempty_opt v \<longleftrightarrow> v \<noteq> None \<and> v \<noteq> Some []"

definition str_or_empty :: "string option \<Rightarrow> string" where
  "str_or_empty v = (case v of None \<Rightarrow> [] | Some s \<Rightarrow> s)"

lemma str_or_empty_simps [simp]: "str_or_empty None = []" "str_or_empty (Some s) = s"
  by (simp_all add: str_or_empty_def)

definition merge_user :: "chat_msg \<Rightarrow> chat_msg \<Rightarrow> chat_msg" where
  "merge_user previous m =
     previous\<lparr>cm_content := Some (str_or_empty (cm_content previous)
        @ (if nonempty_opt (cm_content previous) \<and> nonempty_opt (cm_content m) then [CHR 0x0A] else [])
        @ str_or_empty (cm_content m))\<rparr>"

text \<open>What happens to a message once its closing brace is read.\<close>

definition accept_message :: "chat_msgs \<Rightarrow> chat_msg \<Rightarrow> chat_msgs" where
  "accept_message msgs m0 =
     (let m1 = (if cm_role m0 = None then m0\<lparr>cm_role := Some ''user''\<rparr> else m0);
          m = (if cm_content m1 = None then m1\<lparr>cm_content := Some []\<rparr> else m1) in
      if cm_role m = Some ''assistant'' \<and> tcs_v (cm_calls m) = [] \<and> cm_content m = Some ''!''
      then msgs
      else if cm_role m = Some ''user'' \<and> msgs \<noteq> [] \<and> cm_role (last msgs) = Some ''user''
      then butlast msgs @ [merge_user (last msgs) m]
      else msgs @ [m])"

definition message_elem :: "chat_msgs elem_handler" where
  "message_elem msgs s =
     (case s of
        [] \<Rightarrow> None
      | c # t \<Rightarrow>
          if c \<noteq> CHR ''{'' then None
          else
            (case json_object_loop message_member empty_chat_msg (json_ws t) of
               None \<Rightarrow> None
             | Some (m, r) \<Rightarrow> Some (accept_message msgs m, r)))"

definition parse_messages :: "chat_msgs \<Rightarrow> string \<Rightarrow> (chat_msgs \<times> string) option" where
  "parse_messages msgs s =
     (case json_ws s of
        [] \<Rightarrow> None
      | c # t \<Rightarrow> if c \<noteq> CHR ''['' then None else json_array_loop message_elem msgs (json_ws t))"

section \<open>The readers keep the cursor contracts\<close>

lemma json_raw_value_length: "json_raw_value s = Some (v, r) \<Longrightarrow> length r < length s"
  using json_ws_length [of s]
  by (auto simp: json_raw_value_def Let_def split: option.splits dest!: json_skip_value_length)

interpretation function_call: member_reader function_call_member
proof
  fix key tc s b r
  assume a: "function_call_member key tc s = Some (b, r)"
  have "length (json_ws s) \<le> length s" by (rule json_ws_length)
  with a show "length r \<le> length s"
    by (auto simp: function_call_member_def Let_def split: if_splits option.splits
        dest!: json_string_length json_raw_value_length json_skip_value_length)
qed

lemma parse_function_call_length:
  "parse_function_call tc s = Some (b, r) \<Longrightarrow> length r < length s"
proof -
  assume "parse_function_call tc s = Some (b, r)"
  then obtain c t where k: "json_ws s = c # t"
    "json_object_loop function_call_member tc (json_ws t) = Some (b, r)"
    by (auto simp: parse_function_call_def split: list.splits if_splits)
  show ?thesis
    using function_call.object_loop_length [OF k(2)] json_ws_length [of t] json_ws_ConsD [OF k(1)]
    by simp
qed

interpretation tool_call: member_reader tool_call_member
  by unfold_locales
    (auto simp: tool_call_member_def split: if_splits option.splits
      dest!: json_string_length parse_function_call_length json_skip_value_length)

interpretation tool_call_list: elem_reader tool_call_elem
proof
  fix calls s b r
  assume a: "tool_call_elem calls s = Some (b, r)"
  then obtain c t tc where k: "s = c # t"
    "json_object_loop tool_call_member empty_tool_call (json_ws t) = Some (tc, r)"
    by (auto simp: tool_call_elem_def split: list.splits if_splits option.splits)
  show "length r < length s"
    using tool_call.object_loop_length [OF k(2)] json_ws_length [of t] k(1) by simp
qed

lemma parse_tool_calls_value_length:
  "parse_tool_calls_value calls s = Some (b, r) \<Longrightarrow> length r < length s"
proof -
  assume a: "parse_tool_calls_value calls s = Some (b, r)"
  have w: "length (json_ws s) \<le> length s" by (rule json_ws_length)
  show ?thesis
  proof (cases "json_lit (json_ws s) ''null''")
    case None
    with a obtain c t where k: "json_ws s = c # t"
      "json_array_loop tool_call_elem calls (json_ws t) = Some (b, r)"
      by (auto simp: parse_tool_calls_value_def Let_def split: list.splits if_splits)
    show ?thesis
      using tool_call_list.array_loop_length [OF k(2)] json_ws_length [of t] json_ws_ConsD [OF k(1)]
      by simp
  next
    case (Some r')
    with a w show ?thesis
      by (auto simp: parse_tool_calls_value_def Let_def dest!: json_lit_length)
  qed
qed

interpretation message: member_reader message_member
  by unfold_locales
    (auto simp: message_member_def split: if_splits option.splits
      dest!: json_string_length json_content_length parse_tool_calls_value_length
        json_skip_value_length)

interpretation message_list: elem_reader message_elem
proof
  fix msgs s b r
  assume a: "message_elem msgs s = Some (b, r)"
  then obtain c t m where k: "s = c # t"
    "json_object_loop message_member empty_chat_msg (json_ws t) = Some (m, r)"
    by (auto simp: message_elem_def split: list.splits if_splits option.splits)
  show "length r < length s"
    using message.object_loop_length [OF k(2)] json_ws_length [of t] k(1) by simp
qed

section \<open>Well-formed transcripts\<close>

definition tool_calls_ok :: "tool_calls \<Rightarrow> bool" where
  "tool_calls_ok calls \<longleftrightarrow> (\<forall>tc\<in>set (tcs_v calls). tc_name tc \<noteq> None \<and> tc_arguments tc \<noteq> None)"

definition call_ids_ok :: "chat_msg \<Rightarrow> bool" where
  "call_ids_ok m \<longleftrightarrow>
     distinct (cm_tool_call_ids m) \<and> [] \<notin> set (cm_tool_call_ids m)
     \<and> cm_tool_call_id m = (case cm_tool_call_ids m of [] \<Rightarrow> None | i # _ \<Rightarrow> Some i)"

definition member_ok :: "chat_msg \<Rightarrow> bool" where
  "member_ok m \<longleftrightarrow> tool_calls_ok (cm_calls m) \<and> call_ids_ok m"

definition message_ok :: "chat_msg \<Rightarrow> bool" where
  "message_ok m \<longleftrightarrow> member_ok m \<and> cm_role m \<noteq> None \<and> cm_content m \<noteq> None"

text \<open>No two user messages in a row.\<close>

fun users_apart :: "chat_msgs \<Rightarrow> bool" where
  "users_apart (a # b # ms) \<longleftrightarrow>
     \<not> (cm_role a = Some ''user'' \<and> cm_role b = Some ''user'') \<and> users_apart (b # ms)"
| "users_apart ms \<longleftrightarrow> True"

definition chat_msgs_ok :: "chat_msgs \<Rightarrow> bool" where
  "chat_msgs_ok msgs \<longleftrightarrow> (\<forall>m\<in>set msgs. message_ok m) \<and> users_apart msgs"

lemma users_apart_snoc:
  "users_apart (ms @ [m]) \<longleftrightarrow>
     users_apart ms \<and> \<not> (ms \<noteq> [] \<and> cm_role (last ms) = Some ''user'' \<and> cm_role m = Some ''user'')"
  by (induction ms rule: users_apart.induct) auto

lemma tool_calls_ok_elem:
  "tool_calls_ok calls \<Longrightarrow> tool_call_elem calls s = Some (calls', r) \<Longrightarrow> tool_calls_ok calls'"
  by (auto simp: tool_call_elem_def tool_calls_ok_def tool_calls_push_def
      split: list.splits if_splits option.splits)

lemma parse_tool_calls_value_ok:
  "parse_tool_calls_value calls s = Some (calls', r) \<Longrightarrow> tool_calls_ok calls \<Longrightarrow> tool_calls_ok calls'"
  by (auto simp: parse_tool_calls_value_def Let_def split: option.splits list.splits if_splits
      intro: tool_call_list.array_loop_inv [where P = tool_calls_ok, OF tool_calls_ok_elem])

lemma call_ids_ok_add: "call_ids_ok m \<Longrightarrow> call_ids_ok (chat_msg_add_tool_call_id m i)"
  by (auto simp: call_ids_ok_def chat_msg_add_tool_call_id_def Let_def split: list.splits)

lemma chat_msg_add_tool_call_id_calls [simp]:
  "cm_calls (chat_msg_add_tool_call_id m i) = cm_calls m"
  by (simp add: chat_msg_add_tool_call_id_def Let_def)

lemma member_ok_step: "member_ok m \<Longrightarrow> message_member key m s = Some (m', r) \<Longrightarrow> member_ok m'"
  by (auto simp: message_member_def member_ok_def call_ids_ok_add
      split: if_splits option.splits
      dest: parse_tool_calls_value_ok)
    (auto simp: call_ids_ok_def tool_calls_ok_def empty_tool_calls_def
      dest: parse_tool_calls_value_ok)


lemma chat_msgs_ok_snoc:
  "chat_msgs_ok (ms @ [m]) \<longleftrightarrow>
     chat_msgs_ok ms \<and> message_ok m
     \<and> \<not> (ms \<noteq> [] \<and> cm_role (last ms) = Some ''user'' \<and> cm_role m = Some ''user'')"
  by (auto simp: chat_msgs_ok_def users_apart_snoc)

lemma merge_user_ok: "message_ok a \<Longrightarrow> message_ok (merge_user a m)"
  by (simp add: message_ok_def member_ok_def call_ids_ok_def merge_user_def)

lemma merge_user_role [simp]: "cm_role (merge_user a m) = cm_role a"
  by (simp add: merge_user_def)

definition with_defaults :: "chat_msg \<Rightarrow> chat_msg" where
  "with_defaults m0 =
     (let m1 = (if cm_role m0 = None then m0\<lparr>cm_role := Some ''user''\<rparr> else m0) in
      if cm_content m1 = None then m1\<lparr>cm_content := Some []\<rparr> else m1)"

lemma with_defaults_ok: "member_ok m \<Longrightarrow> message_ok (with_defaults m)"
  by (auto simp: with_defaults_def message_ok_def member_ok_def call_ids_ok_def Let_def)

lemma accept_message_cases:
  "accept_message msgs m0 = msgs
   \<or> (\<exists>us u. msgs = us @ [u] \<and> cm_role u = Some ''user''
        \<and> accept_message msgs m0 = us @ [merge_user u (with_defaults m0)])
   \<or> \<not> (msgs \<noteq> [] \<and> cm_role (last msgs) = Some ''user''
          \<and> cm_role (with_defaults m0) = Some ''user'')
     \<and> accept_message msgs m0 = msgs @ [with_defaults m0]"
proof (cases msgs rule: rev_cases)
  case Nil
  then show ?thesis by (simp add: accept_message_def with_defaults_def Let_def)
next
  case (snoc us u)
  then show ?thesis
    by (auto simp: accept_message_def with_defaults_def Let_def)
qed

lemma accept_message_ok:
  assumes "chat_msgs_ok msgs" "member_ok m"
  shows "chat_msgs_ok (accept_message msgs m)"
  using accept_message_cases [of msgs m]
proof (elim disjE exE conjE)
  fix us u
  assume "msgs = us @ [u]" "cm_role u = Some ''user''"
    "accept_message msgs m = us @ [merge_user u (with_defaults m)]"
  with assms show ?thesis by (auto simp: chat_msgs_ok_snoc merge_user_ok)
next
  assume "\<not> (msgs \<noteq> [] \<and> cm_role (last msgs) = Some ''user''
          \<and> cm_role (with_defaults m) = Some ''user'')"
    "accept_message msgs m = msgs @ [with_defaults m]"
  with assms show ?thesis by (simp add: chat_msgs_ok_snoc with_defaults_ok)
qed (use assms in simp)

lemma empty_chat_msg_ok: "member_ok empty_chat_msg"
  by (simp add: member_ok_def call_ids_ok_def tool_calls_ok_def empty_chat_msg_def
      empty_tool_calls_def)

lemma message_elem_ok:
  assumes "chat_msgs_ok msgs" "message_elem msgs s = Some (msgs', r)"
  shows "chat_msgs_ok msgs'"
proof -
  from assms(2) obtain t m where
    "json_object_loop message_member empty_chat_msg (json_ws t) = Some (m, r)"
    and m: "msgs' = accept_message msgs m"
    by (auto simp: message_elem_def split: list.splits if_splits option.splits)
  then have "member_ok m"
    by (elim message.object_loop_inv [where P = member_ok, rotated])
      (auto intro: member_ok_step empty_chat_msg_ok)
  with assms(1) m show ?thesis by (simp add: accept_message_ok)
qed

text \<open>C32. Whatever JSON the client sends as \<open>messages\<close>, an accepted array leaves a
  well-formed transcript: every message has a role and a content, every kept tool call has a
  name and arguments, the tool-call ids of a message are nonempty and distinct with the first
  one also in \<open>tool_call_id\<close>, and no two user messages are adjacent.\<close>

theorem parse_messages_well_formed:
  assumes "parse_messages msgs s = Some (msgs', r)" "chat_msgs_ok msgs"
  shows "chat_msgs_ok msgs'"
proof -
  from assms(1) obtain t where "json_array_loop message_elem msgs t = Some (msgs', r)"
    by (auto simp: parse_messages_def split: list.splits if_splits)
  then show ?thesis
    by (elim message_list.array_loop_inv [where P = chat_msgs_ok, rotated])
      (auto intro: message_elem_ok assms)
qed

theorem parse_messages_well_formed_witness:
  "chat_msgs_ok
     [\<lparr>cm_role = Some ''user'', cm_content = Some ''hi'', cm_reasoning = None,
       cm_tool_call_id = Some ''t'', cm_tool_call_ids = [''t''], cm_calls = empty_tool_calls\<rparr>]"
  by (rule parse_messages_well_formed [of "[]" "[CHR ''['', CHR ''{'', QUOT] @ ''content'' @ [QUOT, CHR '':'', QUOT] @ ''hi'' @
       [QUOT, CHR '','', QUOT] @ ''tool_call_id'' @ [QUOT, CHR '':'', QUOT] @ ''t'' @ [QUOT] @ ''}] ''" _ "'' ''"]) code_simp+

end
