(* ===== verification/Thinking.thy ===== *)
theory Thinking
  imports Chat
begin

text \<open>
  Reasoning control: the thinking modes and the context limit of \<open>ds4.c\<close> (lines 25566 to
  25592), the request fields that choose a mode and the selection policy of
  \<open>ds4_server.c\<close> (lines 1136 to 1345), and the scanner that knows, byte by byte, whether a
  generation is inside a \<open><think>\<close> block (lines 10198 to 10230).  The environment variable
  \<open>DS4_ADAPTIVE_THINKING\<close> is an argument.
\<close>

section \<open>Modes\<close>

datatype ds4_think_mode = DS4_THINK_NONE | DS4_THINK_HIGH | DS4_THINK_MAX

definition DS4_THINK_MAX_MIN_CONTEXT :: nat where
  "DS4_THINK_MAX_MIN_CONTEXT = 393216"

definition ds4_think_mode_enabled :: "ds4_think_mode \<Rightarrow> bool" where
  "ds4_think_mode_enabled mode \<longleftrightarrow> mode = DS4_THINK_HIGH \<or> mode = DS4_THINK_MAX"

fun ds4_think_mode_name :: "ds4_think_mode \<Rightarrow> string" where
  "ds4_think_mode_name DS4_THINK_NONE = ''none''"
| "ds4_think_mode_name DS4_THINK_HIGH = ''high''"
| "ds4_think_mode_name DS4_THINK_MAX = ''max''"

definition ds4_think_mode_for_context :: "ds4_think_mode \<Rightarrow> int \<Rightarrow> ds4_think_mode" where
  "ds4_think_mode_for_context mode ctx_size =
     (if mode = DS4_THINK_MAX \<and> nat (if ctx_size > 0 then ctx_size else 0) < DS4_THINK_MAX_MIN_CONTEXT
      then DS4_THINK_HIGH else mode)"

section \<open>Request fields\<close>

definition think_mode_from_enabled :: "bool \<Rightarrow> ds4_think_mode \<Rightarrow> ds4_think_mode" where
  "think_mode_from_enabled enabled effort =
     (if \<not> enabled \<or> effort = DS4_THINK_NONE then DS4_THINK_NONE
      else if effort = DS4_THINK_MAX then DS4_THINK_MAX else DS4_THINK_HIGH)"

definition parse_reasoning_effort_name :: "string \<Rightarrow> ds4_think_mode option" where
  "parse_reasoning_effort_name s =
     (if s = ''max'' then Some DS4_THINK_MAX
      else if s = ''xhigh'' \<or> s = ''high'' then Some DS4_THINK_HIGH
      else if s = ''medium'' \<or> s = ''low'' \<or> s = ''minimal'' then Some DS4_THINK_NONE
      else if s = ''none'' then Some DS4_THINK_NONE
      else None)"

text \<open>The out-parameters are threaded: the mode, and whether the field was really given.\<close>

definition parse_reasoning_effort_value ::
  "ds4_think_mode \<Rightarrow> string \<Rightarrow> ((ds4_think_mode \<times> bool) \<times> string) option" where
  "parse_reasoning_effort_value out s =
     (let p = json_ws s in
      case json_lit p ''null'' of
        Some r \<Rightarrow> Some ((out, False), r)
      | None \<Rightarrow>
          (case json_string p of
             None \<Rightarrow> None
           | Some (effort, r) \<Rightarrow>
               (case parse_reasoning_effort_name effort of
                  None \<Rightarrow> None
                | Some mode \<Rightarrow> Some ((mode, True), r))))"

definition thinking_control_member :: "(bool \<times> bool) member_handler" where
  "thinking_control_member key st s =
     (if key = ''type'' then
        (case json_string s of
           None \<Rightarrow> None
         | Some (type, r) \<Rightarrow>
             Some (if type = ''enabled'' then (True, True)
                   else if type = ''disabled'' then (False, True) else st, r))
      else map_option (\<lambda>r. (st, r)) (json_skip_value s))"

definition parse_thinking_control_value ::
  "bool \<Rightarrow> string \<Rightarrow> ((bool \<times> bool) \<times> string) option" where
  "parse_thinking_control_value enabled s =
     (let p = json_ws s in
      case json_lit p ''null'' of
        Some r \<Rightarrow> Some ((enabled, False), r)
      | None \<Rightarrow>
          (if take 1 p = ''t'' \<or> take 1 p = ''f'' then
             map_option (\<lambda>(b, r). ((b, True), r)) (json_bool p)
           else if take 1 p \<noteq> ''{'' then map_option (\<lambda>r. ((enabled, False), r)) (json_skip_value p)
           else json_object_loop thinking_control_member (enabled, False) (json_ws (drop 1 p))))"

definition effort_member :: "(ds4_think_mode \<times> bool) member_handler" where
  "effort_member key st s =
     (if key = ''effort'' then
        (case parse_reasoning_effort_value (fst st) s of
           None \<Rightarrow> None
         | Some ((mode, given), r) \<Rightarrow> Some ((mode, given \<or> snd st), r))
      else map_option (\<lambda>r. (st, r)) (json_skip_value s))"

definition parse_output_config_effort ::
  "ds4_think_mode \<Rightarrow> string \<Rightarrow> ((ds4_think_mode \<times> bool) \<times> string) option" where
  "parse_output_config_effort effort s =
     (let p = json_ws s in
      case json_lit p ''null'' of
        Some r \<Rightarrow> Some ((effort, False), r)
      | None \<Rightarrow>
          (if take 1 p \<noteq> ''{'' then map_option (\<lambda>r. ((effort, False), r)) (json_skip_value p)
           else json_object_loop effort_member (effort, False) (json_ws (drop 1 p))))"

lemma parse_reasoning_effort_value_length:
  "parse_reasoning_effort_value out s = Some (x, r) \<Longrightarrow> length r < length s"
  using json_ws_length [of s]
  by (auto simp: parse_reasoning_effort_value_def Let_def split: option.splits
      dest!: json_lit_length json_string_length)

interpretation thinking_control: member_reader thinking_control_member
  by unfold_locales
    (auto simp: thinking_control_member_def split: if_splits option.splits
      dest!: json_string_length json_skip_value_length)

interpretation output_config: member_reader effort_member
  by unfold_locales
    (auto simp: effort_member_def split: if_splits option.splits
      dest!: parse_reasoning_effort_value_length json_skip_value_length)

section \<open>Selecting a mode\<close>

definition model_alias_disables_thinking :: "string option \<Rightarrow> bool" where
  "model_alias_disables_thinking model \<longleftrightarrow> model = Some ''deepseek-chat''"

definition model_alias_enables_thinking :: "string option \<Rightarrow> bool" where
  "model_alias_enables_thinking model \<longleftrightarrow> model = Some ''deepseek-reasoner''"

text \<open>The adaptive policy is on when the variable is set to anything but the empty text and 0.\<close>

definition adaptive_thinking_enabled :: "string option \<Rightarrow> bool" where
  "adaptive_thinking_enabled env \<longleftrightarrow> nonempty_opt env \<and> env \<noteq> Some ''0''"

fun text_has_ascii_ci_from :: "string \<Rightarrow> string \<Rightarrow> bool" where
  "text_has_ascii_ci_from [] needle = False"
| "text_has_ascii_ci_from (c # t) needle =
     (prefix (map tolower needle) (map tolower (c # t)) \<or> text_has_ascii_ci_from t needle)"

definition text_has_ascii_ci :: "string \<Rightarrow> string \<Rightarrow> bool" where
  "text_has_ascii_ci text needle \<longleftrightarrow> needle \<noteq> [] \<and> text_has_ascii_ci_from text needle"

definition complex_terms :: "string list" where
  "complex_terms =
     [''debug'', ''diagnos'', ''fix'', ''patch'', ''error'', ''exception'',
      ''stack trace'', ''traceback'', ''regression'', ''test'', ''implement'',
      ''refactor'', ''compile'', ''build'', ''analysis'', ''analizza'',
      ''correggi'', ''errore'', ''confronta'', ''compare'', ''prove'']"

definition complexity_score :: "bool \<Rightarrow> string \<Rightarrow> nat" where
  "complexity_score special_marker text =
     (if \<exists>t\<in>set complex_terms. text_has_ascii_ci text t then 2 else 0)
     + (if strstr text ''```'' \<noteq> None
           \<or> (special_marker \<and> strstr text [CHR ''<'', CHR 0xEF, CHR 0xBD, CHR 0x9C] \<noteq> None)
           \<or> text_has_ascii_ci text ''.c'' \<or> text_has_ascii_ci text ''.py'' then 2 else 0)"

definition adaptive_score :: "chat_msgs option \<Rightarrow> string option \<Rightarrow> bool \<Rightarrow> nat" where
  "adaptive_score msgs prompt has_tools =
     (let (score, size, turns) =
        (case msgs of
           Some ms \<Rightarrow>
             (sum_list (map (\<lambda>m. complexity_score True (str_or_empty (cm_content m))) ms),
              sum_list (map (\<lambda>m. length (str_or_empty (cm_content m))) ms),
              length (filter (\<lambda>m. cm_role m = Some ''user'') ms))
         | None \<Rightarrow>
             (case prompt of
                Some p \<Rightarrow> (complexity_score False p, length p, 0)
              | None \<Rightarrow> (0, 0, 0))) in
      (if has_tools then 4 else 0) + score
      + (if turns > 1 then 2 else 0)
      + (if size \<ge> 1200 then 2 else 0) + (if size \<ge> 8000 then 2 else 0))"

definition select_think_mode ::
  "string option \<Rightarrow> bool \<Rightarrow> bool \<Rightarrow> ds4_think_mode \<Rightarrow> string option \<Rightarrow> chat_msgs option
   \<Rightarrow> string option \<Rightarrow> bool \<Rightarrow> int \<Rightarrow> ds4_think_mode \<times> string" where
  "select_think_mode env got_control thinking_enabled effort model msgs prompt has_tools ctx_size =
     (let (mode, reason) =
        (if got_control then (think_mode_from_enabled thinking_enabled effort, ''explicit-request'')
         else if model_alias_disables_thinking model then (DS4_THINK_NONE, ''model-alias-chat'')
         else if model_alias_enables_thinking model then (DS4_THINK_HIGH, ''model-alias-reasoner'')
         else if adaptive_thinking_enabled env then
           (if adaptive_score msgs prompt has_tools \<ge> 4
            then (DS4_THINK_HIGH, if has_tools then ''adaptive-tools-or-complex'' else ''adaptive-complex'')
            else (DS4_THINK_NONE, ''adaptive-direct''))
         else (DS4_THINK_NONE, ''default-direct'')) in
      (ds4_think_mode_for_context mode ctx_size, reason))"

text \<open>Maximum reasoning is chosen exactly when the request asks for it explicitly, thinking is
  enabled and the context has at least 393216 tokens; no alias and no adaptive score reaches it.\<close>

theorem select_think_mode_max_iff:
  "fst (select_think_mode env got_control thinking_enabled effort model msgs prompt has_tools ctx)
     = DS4_THINK_MAX
   \<longleftrightarrow> got_control \<and> thinking_enabled \<and> effort = DS4_THINK_MAX \<and> ctx \<ge> 393216"
  by (auto simp: select_think_mode_def ds4_think_mode_for_context_def think_mode_from_enabled_def
      DS4_THINK_MAX_MIN_CONTEXT_def Let_def split: if_splits)

text \<open>Without an explicit field, a model alias or the adaptive policy, thinking stays off; with
  tools under the adaptive policy it is on.\<close>

theorem select_think_mode_implicit:
  "ds4_think_mode_enabled
     (fst (select_think_mode env False enabled effort model msgs prompt has_tools ctx))
   \<longleftrightarrow> model = Some ''deepseek-reasoner''
       \<or> (model \<noteq> Some ''deepseek-chat'' \<and> env \<notin> {None, Some [], Some ''0''}
          \<and> (has_tools \<or> adaptive_score msgs prompt has_tools \<ge> 4))"
proof -
  have "has_tools \<Longrightarrow> adaptive_score msgs prompt has_tools \<ge> 4"
    by (auto simp: adaptive_score_def Let_def split: prod.splits)
  then show ?thesis
    by (auto simp: select_think_mode_def ds4_think_mode_for_context_def Let_def
        ds4_think_mode_enabled_def model_alias_disables_thinking_def
        model_alias_enables_thinking_def adaptive_thinking_enabled_def nonempty_opt_def)
qed

section \<open>Tracking the thinking block of a generation\<close>

text \<open>\<open>ts_tail\<close> holds the last bytes seen, at most eight.\<close>

record thinking_state =
  ts_inside :: bool
  ts_tail :: string

definition thinking_state_zero :: thinking_state where
  "thinking_state_zero = \<lparr>ts_inside = False, ts_tail = []\<rparr>"

definition thinking_tail_ends_with :: "thinking_state \<Rightarrow> string \<Rightarrow> bool" where
  "thinking_tail_ends_with st s \<longleftrightarrow>
     length (ts_tail st) \<ge> length s \<and> drop (length (ts_tail st) - length s) (ts_tail st) = s"

definition thinking_state_byte :: "thinking_state \<Rightarrow> char \<Rightarrow> thinking_state" where
  "thinking_state_byte st c =
     (let tail = (if length (ts_tail st) = 8 then drop 1 (ts_tail st) else ts_tail st) @ [c];
          st' = st\<lparr>ts_tail := tail\<rparr> in
      if thinking_tail_ends_with st' ''<think>'' then st'\<lparr>ts_inside := True\<rparr>
      else if thinking_tail_ends_with st' ''</think>'' then st'\<lparr>ts_inside := False\<rparr>
      else st')"

definition thinking_state_feed :: "thinking_state \<Rightarrow> string \<Rightarrow> thinking_state" where
  "thinking_state_feed st p = foldl thinking_state_byte st p"

definition thinking_state_from_prompt :: "string option \<Rightarrow> ds4_think_mode \<Rightarrow> thinking_state" where
  "thinking_state_from_prompt prompt_text mode =
     (case prompt_text of
        Some p \<Rightarrow> thinking_state_feed thinking_state_zero p
      | None \<Rightarrow> if ds4_think_mode_enabled mode then thinking_state_zero\<lparr>ts_inside := True\<rparr>
                else thinking_state_zero)"

definition last_bytes :: "nat \<Rightarrow> 'a list \<Rightarrow> 'a list" where
  "last_bytes n s = drop (length s - n) s"

lemma last_bytes_snoc: "last_bytes 8 (s @ [c]) =
   (if length (last_bytes 8 s) = 8 then drop 1 (last_bytes 8 s) else last_bytes 8 s) @ [c]"
proof (cases "length s \<ge> 8")
  case True
  then have "Suc (length s - 8) = length s - 7" by arith
  with True show ?thesis by (simp add: last_bytes_def)
qed (simp add: last_bytes_def)

lemma last_bytes_suffix:
  assumes "length lit \<le> n"
  shows "length lit \<le> length (last_bytes n s)
      \<and> drop (length (last_bytes n s) - length lit) (last_bytes n s) = lit \<longleftrightarrow> suffix lit s"
proof
  assume "suffix lit s"
  then obtain a where "s = a @ lit" by (auto simp: suffix_def)
  with assms show "length lit \<le> length (last_bytes n s)
      \<and> drop (length (last_bytes n s) - length lit) (last_bytes n s) = lit"
    by (simp add: last_bytes_def)
next
  assume "length lit \<le> length (last_bytes n s)
      \<and> drop (length (last_bytes n s) - length lit) (last_bytes n s) = lit"
  then have "suffix lit (last_bytes n s)" by (metis suffix_drop)
  then show "suffix lit s"
    unfolding last_bytes_def using suffix_drop suffix_order.trans by blast
qed


text \<open>A block is open at the end of a text when an opening tag has no closing tag after it.\<close>

definition think_open :: "string \<Rightarrow> bool" where
  "think_open s \<longleftrightarrow> (\<exists>a b. s = a @ ''<think>'' @ b \<and> strstr b ''</think>'' = None)"

lemma strstr_suffix: "suffix lit s \<Longrightarrow> strstr s lit \<noteq> None"
proof -
  assume "suffix lit s"
  then obtain a where s: "s = a @ lit" by (auto simp: suffix_def)
  have "length a \<le> length s \<and> prefix lit (drop (length a) s)" by (simp add: s)
  then show ?thesis using strstr_ex_iff [of s lit] by auto
qed

lemma strstr_snoc_None:
  assumes "strstr (s @ [c]) lit \<noteq> None" "\<not> suffix lit (s @ [c])" "lit \<noteq> []"
  shows "strstr s lit \<noteq> None"
proof -
  obtain i where i: "i \<le> length (s @ [c])" "prefix lit (drop i (s @ [c]))"
    using assms(1) strstr_ex_iff [of "s @ [c]" lit] by auto
  have le: "i \<le> length s"
    using i assms(3) by (cases "i = Suc (length s)") auto
  have "lit \<noteq> drop i (s @ [c])" using assms(2) suffix_drop [of i "s @ [c]"] by metis
  with i(2) le have "prefix lit (drop i s)" by (simp add: prefix_snoc)
  with le show ?thesis using strstr_ex_iff [of s lit] by auto
qed

lemma strstr_appendI: "strstr s lit \<noteq> None \<Longrightarrow> strstr (s @ t) lit \<noteq> None"
proof -
  assume "strstr s lit \<noteq> None"
  then obtain i where i: "i \<le> length s" "prefix lit (drop i s)"
    using strstr_ex_iff [of s lit] by auto
  then have "i \<le> length (s @ t) \<and> prefix lit (drop i (s @ t))" by (simp add: prefix_prefix)
  then show ?thesis using strstr_ex_iff [of "s @ t" lit] by auto
qed

lemma close_not_across_open:
  assumes "suffix ''</think>'' (a @ ''<think>'' @ b)"
  shows "suffix ''</think>'' b"
proof (cases "length b \<ge> 8")
  case True
  then show ?thesis
    using assms suffix_length_suffix [of _ "a @ ''<think>'' @ b" b] by (simp add: suffix_def)
next
  case False
  then consider "length b = 0" | "length b = 1" | "length b = 2" | "length b = 3" | "length b = 4"
    | "length b = 5" | "length b = 6" | "length b = 7" by linarith
  then show ?thesis
    using assms
    by cases (auto simp: length_Suc_conv eval_nat_numeral suffix_def
        append_eq_append_conv2 append_eq_Cons_conv Cons_eq_append_conv)
qed

lemma think_open_snoc:
  "think_open (s @ [c]) \<longleftrightarrow>
     (if suffix ''<think>'' (s @ [c]) then True
      else if suffix ''</think>'' (s @ [c]) then False else think_open s)"
proof -
  consider (o) "suffix ''<think>'' (s @ [c])"
    | (c) "\<not> suffix ''<think>'' (s @ [c])" "suffix ''</think>'' (s @ [c])"
    | (n) "\<not> suffix ''<think>'' (s @ [c])" "\<not> suffix ''</think>'' (s @ [c])" by blast
  then show ?thesis
  proof cases
    case o
    then obtain a where "s @ [c] = a @ ''<think>''" by (auto simp: suffix_def)
    then have "think_open (s @ [c])"
      unfolding think_open_def by (intro exI [of _ a] exI [of _ "[]"]) (simp add: strstr_Nil)
    with o show ?thesis by simp
  next
    case c
    then have "\<not> think_open (s @ [c])"
      unfolding think_open_def using close_not_across_open strstr_suffix by metis
    with c show ?thesis by simp
  next
    case n
    have "think_open (s @ [c]) \<longleftrightarrow> think_open s"
    proof
      assume "think_open (s @ [c])"
      then obtain a b where ab: "s @ [c] = a @ ''<think>'' @ b" "strstr b ''</think>'' = None"
        by (auto simp: think_open_def)
      with n(1) obtain b' where b: "b = b' @ [c]"
        by (cases b rule: rev_cases) (auto simp: suffix_def)
      with ab have "s = a @ ''<think>'' @ b'" by simp
      moreover have "strstr b' ''</think>'' = None"
        using strstr_appendI ab(2) unfolding b by metis
      ultimately have "s = a @ ''<think>'' @ b'" "strstr b' ''</think>'' = None" by simp_all
      then show "think_open s" by (auto simp: think_open_def)
    next
      assume "think_open s"
      then obtain a b where ab: "s = a @ ''<think>'' @ b" "strstr b ''</think>'' = None"
        by (auto simp: think_open_def)
      have "\<not> suffix ''</think>'' (b @ [c])"
        using n(2) ab(1) suffix_appendI [of "''</think>''" "b @ [c]" "a @ ''<think>''"] by auto
      then have "strstr (b @ [c]) ''</think>'' = None"
        using strstr_snoc_None [of b c "''</think>''"] ab(2) by (metis list.discI)
      then show "think_open (s @ [c])"
        unfolding think_open_def ab(1) by (intro exI [of _ a] exI [of _ "b @ [c]"]) simp
    qed
    with n show ?thesis by (simp only: if_False)
  qed
qed

lemma thinking_state_feed_inv:
  "ts_tail (thinking_state_feed thinking_state_zero s) = last_bytes 8 s
   \<and> ts_inside (thinking_state_feed thinking_state_zero s) = think_open s"
proof (induction s rule: rev_induct)
  case Nil
  then show ?case
    by (simp add: thinking_state_feed_def thinking_state_zero_def last_bytes_def think_open_def)
next
  case (snoc c s)
  have e: "thinking_tail_ends_with (st\<lparr>ts_tail := last_bytes 8 (s @ [c])\<rparr>) lit
      \<longleftrightarrow> suffix lit (s @ [c])" if "length lit \<le> 8" for st lit
    using last_bytes_suffix [OF that, of "s @ [c]"] by (simp add: thinking_tail_ends_with_def)
  let ?st = "thinking_state_feed thinking_state_zero s"
  have tl: "(if length (ts_tail ?st) = 8 then drop 1 (ts_tail ?st) else ts_tail ?st) @ [c]
      = last_bytes 8 (s @ [c])"
    using snoc.IH by (simp only: last_bytes_snoc)
  have "thinking_state_feed thinking_state_zero (s @ [c]) = thinking_state_byte ?st c"
    by (simp add: thinking_state_feed_def)
  also have "\<dots> = (if suffix ''<think>'' (s @ [c]) then ?st\<lparr>ts_tail := last_bytes 8 (s @ [c]), ts_inside := True\<rparr>
      else if suffix ''</think>'' (s @ [c]) then ?st\<lparr>ts_tail := last_bytes 8 (s @ [c]), ts_inside := False\<rparr>
      else ?st\<lparr>ts_tail := last_bytes 8 (s @ [c])\<rparr>)"
    unfolding thinking_state_byte_def Let_def tl by (simp add: e)
  finally show ?case using snoc.IH by (simp add: think_open_snoc)
qed

text \<open>The eight-byte window of the byte-by-byte scanner is enough: after any text, fed in any
  chunks, the state says inside exactly when the text has an opening tag with no closing tag
  after it.\<close>

theorem thinking_state_feed_correct:
  "ts_inside (foldl thinking_state_feed thinking_state_zero chunks) = think_open (concat chunks)"
proof -
  have "foldl thinking_state_feed st chunks = thinking_state_feed st (concat chunks)" for st
    by (induction chunks arbitrary: st) (simp_all add: thinking_state_feed_def)
  then show ?thesis by (simp add: thinking_state_feed_inv)
qed

section \<open>Moving a forced close in front of a tool call\<close>

definition think_inject :: string where
  "think_inject = ''</think>'' @ [CHR 0x0A, CHR 0x0A]"

definition normalize_forced_think_tool_close :: "string \<Rightarrow> nat \<Rightarrow> nat \<Rightarrow> string option" where
  "normalize_forced_think_tool_close text tool_start injected_close =
     (if tool_start > injected_close \<or> \<not> prefix think_inject (drop injected_close text) then None
      else Some (take tool_start text @ think_inject
                 @ take (injected_close - tool_start) (drop tool_start text)
                 @ drop (injected_close + length think_inject) text))"

text \<open>Moving the server's own close in front of the tool call changes no model text: with the
  ten injected bytes deleted, the text before and after the move is the same, and the reasoning
  block is closed where the tool call starts.\<close>

theorem normalize_forced_think_tool_close_correct:
  assumes "normalize_forced_think_tool_close text tool_start injected_close = Some out"
  shows "take tool_start out @ drop (tool_start + 10) out
           = take injected_close text @ drop (injected_close + 10) text
         \<and> \<not> think_open (take (tool_start + 8) out) \<and> length out = length text"
proof (intro conjI)
  from assms have le: "tool_start \<le> injected_close"
    and p: "prefix think_inject (drop injected_close text)"
    and out: "out = take tool_start text @ think_inject
                 @ take (injected_close - tool_start) (drop tool_start text)
                 @ drop (injected_close + length think_inject) text"
    by (auto simp: normalize_forced_think_tool_close_def split: if_splits)
  have ten: "length think_inject = 10" by (simp add: think_inject_def)
  have "length think_inject \<le> length (drop injected_close text)"
    using p by (rule prefix_length_le)
  then have len: "injected_close + 10 \<le> length text" using ten by auto
  have t: "take (injected_close - tool_start) (drop tool_start text) = drop tool_start (take injected_close text)"
    by (simp add: drop_take)
  have j: "take tool_start text @ drop tool_start (take injected_close text) = take injected_close text"
    using le by (metis append_take_drop_id min_absorb1 take_take)
  show "take tool_start out @ drop (tool_start + 10) out
           = take injected_close text @ drop (injected_close + 10) text"
    using le len j by (simp add: out ten t min_def)
  have "suffix ''</think>'' (take (tool_start + 8) out)"
    using le len by (simp add: out min_def think_inject_def suffix_def)
  moreover have "think_open s \<Longrightarrow> \<not> suffix ''</think>'' s" for s
    unfolding think_open_def using close_not_across_open strstr_suffix by metis
  ultimately show "\<not> think_open (take (tool_start + 8) out)" by blast
  show "length out = length text"
    using le len by (simp add: out ten)
qed

theorem normalize_forced_think_tool_close_witness:
  "length (''ab</think>'' @ [CHR 0x0A, CHR 0x0A] @ ''TOOLx'') = (17::nat)"
  using normalize_forced_think_tool_close_correct
    [of "''abTOOL</think>'' @ [CHR 0x0A, CHR 0x0A] @ ''x''" 2 6]
  by (simp add: normalize_forced_think_tool_close_def think_inject_def)

definition should_remember_thinking_checkpoint ::
  "bool \<Rightarrow> bool \<Rightarrow> bool \<Rightarrow> ds4_think_mode \<Rightarrow> string option \<Rightarrow> thinking_state \<Rightarrow> bool" where
  "should_remember_thinking_checkpoint is_chat has_tools prompt_preserves_reasoning mode finish thinking =
     (if \<not> is_chat \<or> has_tools then False
      else if prompt_preserves_reasoning then False
      else if \<not> ds4_think_mode_enabled mode then False
      else if finish = Some ''error'' \<or> finish = Some ''length'' then False
      else \<not> ts_inside thinking)"

end
