(* ===== verification/LoopGuard.thy ===== *)
theory LoopGuard
  imports Thinking
begin

text \<open>
  The guards of \<open>ds4_server.c\<close> against models and agents that repeat themselves (lines 783 to
  1045): repeated endings of the reasoning text, repeated lines with the same intent, the
  trimming of replayed reasoning, tool calls that would never return, and the message added to
  a tool result when the agent runs the same calls in a cycle.
\<close>

section \<open>A reasoning text that ends in four copies of a block\<close>

text \<open>The bytes of the block \<open>k\<close> periods before the last one.\<close>

definition tail_block :: "string \<Rightarrow> nat \<Rightarrow> nat \<Rightarrow> string" where
  "tail_block text period k = take period (drop (length text - period - k * period) text)"

definition reasoning_has_repeated_suffix :: "string \<Rightarrow> nat option" where
  "reasoning_has_repeated_suffix text =
     (let len = length text in
      if len < 64 then None
      else
        find (\<lambda>period. tail_block text period 0 = tail_block text period 1
                     \<and> tail_block text period 0 = tail_block text period 2
                     \<and> tail_block text period 0 = tail_block text period 3)
          [16..<Suc (min (len div 4) 512)])"

definition ends_in_four :: "string \<Rightarrow> nat \<Rightarrow> bool" where
  "ends_in_four text p \<longleftrightarrow> (\<exists>a u. length u = p \<and> text = a @ u @ u @ u @ u)"

lemma tail_block_parts:
  assumes "4 * p \<le> length text"
  shows "text = take (length text - 4 * p) text @ tail_block text p 3 @ tail_block text p 2
                @ tail_block text p 1 @ tail_block text p 0"
proof -
  define n where "n = length text - 4 * p"
  have n: "length text = n + 4 * p" using assms by (simp add: n_def)
  have d: "drop m text = take p (drop m text) @ drop (m + p) text" for m
    by (metis add.commute append_take_drop_id drop_drop)
  have b: "tail_block text p 0 = drop (n + p + p + p) text" "tail_block text p 1 = take p (drop (n + p + p) text)"
    "tail_block text p 2 = take p (drop (n + p) text)" "tail_block text p 3 = take p (drop n text)"
    by (simp_all add: tail_block_def n add_ac numeral_3_eq_3 numeral_2_eq_2)
  have "drop n text = tail_block text p 3 @ tail_block text p 2 @ tail_block text p 1 @ tail_block text p 0"
    unfolding b using d [of n] d [of "n + p"] d [of "n + p + p"] by simp
  then show ?thesis unfolding n_def [symmetric] by (metis append_take_drop_id)
qed

lemma length_tail_block: "(k + 1) * p \<le> length text \<Longrightarrow> length (tail_block text p k) = p"
  by (simp add: tail_block_def algebra_simps)

lemma tail_blocks_equal_iff:
  assumes "4 * p \<le> length text"
  shows "tail_block text p 0 = tail_block text p 1 \<and> tail_block text p 0 = tail_block text p 2
         \<and> tail_block text p 0 = tail_block text p 3 \<longleftrightarrow> ends_in_four text p"
proof
  assume "tail_block text p 0 = tail_block text p 1 \<and> tail_block text p 0 = tail_block text p 2
         \<and> tail_block text p 0 = tail_block text p 3"
  then have "text = take (length text - 4 * p) text @ tail_block text p 0 @ tail_block text p 0
      @ tail_block text p 0 @ tail_block text p 0"
    using tail_block_parts [OF assms] by metis
  moreover have "length (tail_block text p 0) = p" using assms by (intro length_tail_block) simp
  ultimately show "ends_in_four text p" unfolding ends_in_four_def by blast
next
  assume "ends_in_four text p"
  then obtain a u where "length u = p" "text = a @ u @ u @ u @ u" by (auto simp: ends_in_four_def)
  then show "tail_block text p 0 = tail_block text p 1 \<and> tail_block text p 0 = tail_block text p 2
         \<and> tail_block text p 0 = tail_block text p 3"
    by (simp add: tail_block_def)
qed

lemma ends_in_four_length: "ends_in_four text p \<Longrightarrow> 4 * p \<le> length text"
  by (auto simp: ends_in_four_def)

lemma reasoning_has_repeated_suffix_eq:
  "reasoning_has_repeated_suffix text =
     (if length text < 64 then None
      else find (ends_in_four text) [16..<Suc (min (length text div 4) 512)])"
  unfolding reasoning_has_repeated_suffix_def Let_def
  by (intro if_cong refl find_cong tail_blocks_equal_iff) auto

lemma repeated_suffix_iff:
  "reasoning_has_repeated_suffix text = Some p
   \<longleftrightarrow> p \<in> {16..512} \<and> ends_in_four text p \<and> (\<forall>q\<in>{16..<p}. \<not> ends_in_four text q)"
  unfolding reasoning_has_repeated_suffix_eq
  by (auto simp: find_upt_iff dest: ends_in_four_length simp del: upt_Suc)

text \<open>The suffix detector is exact: it reports a period between 16 and 512 when, and only when,
  the text ends in four copies of a block of that length, and it reports the smallest one.\<close>

theorem reasoning_has_repeated_suffix_exact:
  "reasoning_has_repeated_suffix text = Some p
   \<longleftrightarrow> p \<in> {16..512} \<and> ends_in_four text p \<and> \<not> (\<exists>q\<in>{16..<p}. ends_in_four text q)"
  by (auto simp: repeated_suffix_iff)


theorem reasoning_has_repeated_suffix_witness:
  "reasoning_has_repeated_suffix (''x'' @ concat (replicate 4 ''let me look once'')) = Some 16
   \<and> ends_in_four (''x'' @ concat (replicate 4 ''let me look once'')) 16"
proof -
  have r: "reasoning_has_repeated_suffix (''x'' @ concat (replicate 4 ''let me look once'')) = Some 16"
    by code_simp
  with reasoning_has_repeated_suffix_exact [of "''x'' @ concat (replicate 4 ''let me look once'')" 16]
  show ?thesis by blast
qed

section \<open>Lines with the same intent\<close>

definition filler_prefixes :: "string list" where
  "filler_prefixes = [''actually, '', ''actually '', ''now, '', ''now '', ''okay, '', ''okay '']"

definition skip_space :: "string \<Rightarrow> string" where
  "skip_space s = dropWhile isspace s"

lemma skip_space_length: "length (skip_space s) \<le> length s"
  by (simp add: skip_space_def length_dropWhile_le)

definition starts_nocase :: "string \<Rightarrow> string \<Rightarrow> bool" where
  "starts_nocase p s \<longleftrightarrow> length p \<le> length s \<and> strcaseeq (take (length p) s) p"

function strip_fillers :: "string \<Rightarrow> string" where
  "strip_fillers s =
     (case find (\<lambda>p. starts_nocase p s) filler_prefixes of
        None \<Rightarrow> s
      | Some p \<Rightarrow> strip_fillers (skip_space (drop (length p) s)))"
  by pat_completeness auto

termination
proof (relation "measure length")
  fix s p
  assume "find (\<lambda>p. starts_nocase p s) filler_prefixes = Some p"
  then have "p \<in> set filler_prefixes" "starts_nocase p s" by (auto simp: find_Some_iff in_set_conv_nth)
  then have "0 < length p" "length p \<le> length s" by (auto simp: filler_prefixes_def starts_nocase_def)
  then have "length (drop (length p) s) < length s"
    unfolding length_drop by (intro diff_less) auto
  then have "length (skip_space (drop (length p) s)) < length s"
    by (rule le_less_trans [OF skip_space_length])
  then show "(skip_space (drop (length p) s), s) \<in> measure length" by simp
qed simp

declare strip_fillers.simps [simp del]

text \<open>The copy into \<open>out\<close>, with runs of blanks as one space and letters in lower case.\<close>

fun normalize_copy :: "nat \<Rightarrow> string \<Rightarrow> bool \<Rightarrow> string \<Rightarrow> string" where
  "normalize_copy cap [] pending out = out"
| "normalize_copy cap (c # t) pending out =
     (if length out + 1 < cap then
        if isspace c then normalize_copy cap t (out \<noteq> []) out
        else
          let out' = (if pending \<and> length out + 1 < cap then out @ '' '' else out)
          in normalize_copy cap t False (out' @ [tolower c])
      else out)"

definition final_mark :: "char \<Rightarrow> bool" where
  "final_mark c \<longleftrightarrow> c = CHR ''.'' \<or> c = CHR ''!'' \<or> c = CHR ''?'' \<or> isspace c"

definition strip_last :: "(char \<Rightarrow> bool) \<Rightarrow> string \<Rightarrow> string" where
  "strip_last P s = rev (dropWhile P (rev s))"

text \<open>The result is the text in \<open>out\<close> before the NUL that the code stores at its end, at index
  \<open>length\<close> of the result.\<close>

definition reasoning_normalize_line :: "string \<Rightarrow> nat \<Rightarrow> string" where
  "reasoning_normalize_line line out_cap =
     (let l = strip_fillers (strip_last isspace (skip_space line)) in
      if out_cap = 0 then []
      else strip_last final_mark (normalize_copy out_cap l False []))"

lemma strip_last_length: "length (strip_last P s) \<le> length s"
  unfolding strip_last_def by (metis length_dropWhile_le length_rev)

lemma normalize_copy_length:
  "length out \<le> cap \<Longrightarrow> length (normalize_copy cap s pending out) \<le> cap"
  by (induction cap s pending out rule: normalize_copy.induct) (auto simp: Let_def)

lemma normalize_line_length: "length (reasoning_normalize_line line cap) \<le> cap"
  by (auto simp: reasoning_normalize_line_def Let_def
      intro!: order_trans [OF strip_last_length normalize_copy_length])

text \<open>A normalized line never has more characters than the buffer has bytes, but it can fill the
  buffer completely: when a pending space and a letter are both stored at the last two places,
  the closing NUL is written one byte past the end of the caller's array.\<close>

theorem reasoning_normalize_line_bound:
  "length (reasoning_normalize_line line cap) \<le> cap
   \<and> length (reasoning_normalize_line (replicate 510 (CHR ''a'') @ '' b'') 512) = 512"
proof
  show "length (reasoning_normalize_line line cap) \<le> cap" by (rule normalize_line_length)
  have sp: "\<not> isspace CHR ''a''" "\<not> isspace CHR ''b''" "isspace CHR '' ''"
    "tolower CHR ''a'' = CHR ''a''" "tolower CHR ''b'' = CHR ''b''"
    "\<not> final_mark CHR ''b''" by code_simp+
  have fill: "length out + n < cap \<Longrightarrow>
      normalize_copy cap (replicate n (CHR ''a'') @ s) False out
        = normalize_copy cap s False (out @ replicate n (CHR ''a''))" for n cap out s
    by (induction n arbitrary: out) (simp_all add: sp Let_def replicate_append_same)
  have st: "strip_last isspace (skip_space (replicate 510 (CHR ''a'') @ '' b''))
      = replicate 510 (CHR ''a'') @ '' b''"
    by (simp add: skip_space_def strip_last_def sp dropWhile_append3)
  have nf: "find (\<lambda>p. starts_nocase p (replicate 510 (CHR ''a'') @ '' b'')) filler_prefixes = None"
  proof -
    have "list_all (\<lambda>p. length p \<le> 510 \<and> map tolower p \<noteq> replicate (length p) (CHR ''a'')) filler_prefixes"
      by code_simp
    then show ?thesis
      by (auto simp: find_None_iff list_all_iff starts_nocase_def strcaseeq_def sp)
  qed
  have "normalize_copy 512 (replicate 510 (CHR ''a'') @ '' b'') False []
      = replicate 510 (CHR ''a'') @ '' b''"
    using fill [of "[]" 510 512 "'' b''"] by (simp add: sp Let_def)
  then show "length (reasoning_normalize_line (replicate 510 (CHR ''a'') @ '' b'') 512) = 512"
    unfolding reasoning_normalize_line_def Let_def st
    using nf by (simp add: strip_fillers.simps [of "replicate 510 (CHR ''a'') @ '' b''"] strip_last_def sp)
qed


abbreviation NEWLINE :: char where
  "NEWLINE \<equiv> CHR 0x0A"

lemma rest_less:
  "length (takeWhile P r) \<noteq> length r \<Longrightarrow> length r - Suc (length (takeWhile P r)) < length r"
  by (cases r) auto

text \<open>The last twelve completed lines whose normalized text has at least 24 characters, each with
  the position where it starts.\<close>

function intent_lines :: "nat \<Rightarrow> string \<Rightarrow> (nat \<times> string) list \<Rightarrow> (nat \<times> string) list" where
  "intent_lines pos rest recent =
     (let line = takeWhile (\<lambda>c. c \<noteq> NEWLINE) rest in
      if length line = length rest then recent
      else
        let n = reasoning_normalize_line line 512;
            recent' = (if length n \<ge> 24
                       then (if length recent = 12 then drop 1 recent else recent) @ [(pos, n)]
                       else recent)
        in intent_lines (pos + length line + 1) (drop (length line + 1) rest) recent')"
  by pat_completeness auto

termination
  by (relation "measure (\<lambda>(pos, rest, recent). length rest)") (auto simp: rest_less)

declare intent_lines.simps [simp del]

text \<open>The two nearest earlier lines equal to line \<open>last\<close>, newest first.\<close>

definition earlier_matches :: "(nat \<times> string) list \<Rightarrow> nat \<Rightarrow> nat list" where
  "earlier_matches recent k = filter (\<lambda>i. snd (recent ! i) = snd (recent ! k)) (rev [0..<k])"

definition repeated_intent :: "(nat \<times> string) list \<Rightarrow> nat option" where
  "repeated_intent recent =
     (case find (\<lambda>k. length (earlier_matches recent k) \<ge> 2) (rev [2..<length recent]) of
        None \<Rightarrow> None
      | Some k \<Rightarrow> Some (fst (recent ! (earlier_matches recent k ! 1))))"

definition reasoning_has_repeated_line_intent :: "string \<Rightarrow> nat option" where
  "reasoning_has_repeated_line_intent text =
     (if length text < 72 then None else repeated_intent (intent_lines 0 text []))"

text \<open>Every remembered line starts at the beginning of a line inside the text.\<close>

definition line_start :: "string \<Rightarrow> nat \<Rightarrow> bool" where
  "line_start s i \<longleftrightarrow> i < length s \<and> (i = 0 \<or> s ! (i - 1) = NEWLINE)"

definition intent_at :: "string \<Rightarrow> nat \<Rightarrow> string" where
  "intent_at s i = reasoning_normalize_line (takeWhile (\<lambda>c. c \<noteq> NEWLINE) (drop i s)) 512"

definition remembered :: "string \<Rightarrow> nat \<Rightarrow> nat \<times> string \<Rightarrow> bool" where
  "remembered s pos e \<longleftrightarrow> line_start s (fst e) \<and> fst e < pos \<and> snd e = intent_at s (fst e)
     \<and> 24 \<le> length (snd e)"

definition recent_ok :: "string \<Rightarrow> nat \<Rightarrow> (nat \<times> string) list \<Rightarrow> bool" where
  "recent_ok s pos recent \<longleftrightarrow> (\<forall>e\<in>set recent. remembered s pos e) \<and> sorted_wrt (<) (map fst recent)"

lemma recent_ok_drop: "recent_ok s pos recent \<Longrightarrow> recent_ok s pos (drop n recent)"
  by (auto simp: recent_ok_def sorted_wrt_drop drop_map [symmetric] dest: in_set_dropD)

lemma recent_ok_later: "recent_ok s pos recent \<Longrightarrow> pos \<le> pos' \<Longrightarrow> recent_ok s pos' recent"
  by (fastforce simp: recent_ok_def remembered_def)

lemma recent_ok_snoc:
  "recent_ok s pos recent \<Longrightarrow> line_start s pos \<Longrightarrow> 24 \<le> length (intent_at s pos) \<Longrightarrow> pos < pos' \<Longrightarrow>
   recent_ok s pos' (recent @ [(pos, intent_at s pos)])"
  by (fastforce simp: recent_ok_def remembered_def sorted_wrt_append)

lemma intent_lines_ok:
  "rest = drop pos s \<Longrightarrow> pos = 0 \<or> s ! (pos - 1) = NEWLINE \<Longrightarrow> recent_ok s pos recent \<Longrightarrow>
   recent_ok s (length s) (intent_lines pos rest recent)"
proof (induction pos rest recent rule: intent_lines.induct)
  case (1 pos rest recent)
  let ?line = "takeWhile (\<lambda>c. c \<noteq> NEWLINE) rest"
  let ?n = "reasoning_normalize_line ?line 512"
  let ?pos = "pos + length ?line + 1"
  let ?recent = "if length ?n \<ge> 24
                 then (if length recent = 12 then drop 1 recent else recent) @ [(pos, ?n)] else recent"
  show ?case
  proof (cases "length ?line = length rest")
    case True
    then have e: "intent_lines pos rest recent = recent" by (simp add: intent_lines.simps [of pos rest])
    have "\<forall>e\<in>set recent. remembered s (length s) e"
      using 1(4) by (auto simp: recent_ok_def remembered_def line_start_def)
    with 1(4) e show ?thesis by (simp add: recent_ok_def)
  next
    case False
    have "length ?line \<le> length rest" by (rule length_takeWhile_le)
    with False have len: "length ?line < length rest" by simp
    have nl: "rest ! length ?line = NEWLINE" using nth_length_takeWhile [OF len] by simp
    have pos: "pos + length ?line < length s" using len 1(2) by simp
    have nl': "s ! (pos + length ?line) = NEWLINE" using nl pos 1(2) by simp
    have st: "line_start s pos" using 1(3) pos by (simp add: line_start_def)
    have n: "?n = intent_at s pos" using 1(2) by (simp add: intent_at_def)
    have "recent_ok s ?pos ?recent"
      using recent_ok_snoc [OF _ st, of _ ?pos] recent_ok_drop [OF 1(4)] 1(4)
        recent_ok_later [OF 1(4), of ?pos]
      unfolding n by auto
    moreover have "drop (length ?line + 1) rest = drop ?pos s"
      by (simp add: 1(2) add_ac)
    ultimately have "recent_ok s (length s) (intent_lines ?pos (drop (length ?line + 1) rest) ?recent)"
      using nl' by (intro 1(1) [OF refl False refl refl]) simp_all
    then show ?thesis
      using False by (simp add: intent_lines.simps [of pos rest] Let_def)
  qed
qed

lemma repeated_intent_Some:
  assumes "repeated_intent recent = Some cutoff"
  shows "\<exists>i j k. i < j \<and> j < k \<and> k < length recent \<and> cutoff = fst (recent ! i)
    \<and> snd (recent ! i) = snd (recent ! k) \<and> snd (recent ! j) = snd (recent ! k)"
proof -
  from assms obtain k where k: "k < length recent" "length (earlier_matches recent k) \<ge> 2"
    "cutoff = fst (recent ! (earlier_matches recent k ! 1))"
    by (auto simp: repeated_intent_def split: option.splits dest!: find_SomeD)
  let ?m = "earlier_matches recent k"
  have s: "sorted_wrt (>) ?m"
    unfolding earlier_matches_def by (intro sorted_wrt_filter) (simp add: sorted_wrt_rev)
  have "?m ! 1 < ?m ! 0" using sorted_wrt_nth_less [OF s, of 0 1] k(2) by simp
  moreover have "?m ! 0 \<in> set ?m" "?m ! 1 \<in> set ?m" using k(2) by (auto intro!: nth_mem)
  then have "?m ! 0 < k" "snd (recent ! (?m ! 0)) = snd (recent ! k)"
    "snd (recent ! (?m ! 1)) = snd (recent ! k)"
    by (auto simp: earlier_matches_def)
  ultimately show ?thesis using k by blast
qed


lemma line_intent_facts:
  assumes "reasoning_has_repeated_line_intent text = Some cutoff"
  shows "\<exists>j k. cutoff < j \<and> j < k \<and> line_start text cutoff \<and> line_start text j \<and> line_start text k
    \<and> intent_at text cutoff = intent_at text k \<and> intent_at text j = intent_at text k
    \<and> 24 \<le> length (intent_at text k)"
proof -
  let ?r = "intent_lines 0 text []"
  have ok: "recent_ok text (length text) ?r"
    by (rule intent_lines_ok) (simp_all add: recent_ok_def)
  from assms obtain i j k where k: "i < j" "j < k" "k < length ?r" "cutoff = fst (?r ! i)"
    "snd (?r ! i) = snd (?r ! k)" "snd (?r ! j) = snd (?r ! k)"
    using repeated_intent_Some [of ?r cutoff]
    by (auto simp: reasoning_has_repeated_line_intent_def split: if_splits)
  have "fst (?r ! a) < fst (?r ! b)" if "a < b" "b < length ?r" for a b
    using ok that sorted_wrt_nth_less [of "(<)" "map fst ?r" a b] by (simp add: recent_ok_def)
  then have "fst (?r ! i) < fst (?r ! j)" "fst (?r ! j) < fst (?r ! k)" using k by auto
  moreover have "remembered text (length text) (?r ! a)" if "a < length ?r" for a
    using ok that by (simp add: recent_ok_def)
  then have "remembered text (length text) (?r ! i)" "remembered text (length text) (?r ! j)"
    "remembered text (length text) (?r ! k)" using k by auto
  ultimately show ?thesis
    using k by (intro exI [of _ "fst (?r ! j)"] exI [of _ "fst (?r ! k)"]) (auto simp: remembered_def)
qed


text \<open>A reported intent loop is real: the cut position starts a line, two later lines start
  behind it, and the three lines have the same normalized text of at least 24 characters.\<close>

theorem repeated_line_intent_sound:
  assumes "reasoning_has_repeated_line_intent text = Some cutoff"
  shows "\<exists>j k. cutoff < j \<and> j < k \<and> line_start text cutoff \<and> line_start text j \<and> line_start text k
    \<and> intent_at text cutoff = intent_at text k \<and> intent_at text j = intent_at text k
    \<and> 24 \<le> length (intent_at text k)"
  using assms by (rule line_intent_facts)

theorem repeated_line_intent_sound_witness:
  "\<exists>j k. 6 < j \<and> j < k \<and>
     intent_at (''start'' @ [NEWLINE] @ concat (replicate 3 (''now, look at the same file again.'' @ [NEWLINE]))) j
     = intent_at (''start'' @ [NEWLINE] @ concat (replicate 3 (''now, look at the same file again.'' @ [NEWLINE]))) k"
proof -
  have "reasoning_has_repeated_line_intent
      (''start'' @ [NEWLINE] @ concat (replicate 3 (''now, look at the same file again.'' @ [NEWLINE]))) = Some 6"
    by code_simp
  from repeated_line_intent_sound [OF this] show ?thesis by blast
qed

section \<open>Trimming the reasoning a client replays\<close>

fun trim_periods :: "string \<Rightarrow> nat \<Rightarrow> nat \<Rightarrow> nat" where
  "trim_periods s period cutoff =
     (if 0 < period \<and> period \<le> cutoff
         \<and> take period (drop (cutoff - period) s) = take period (drop (length s - period) s)
      then trim_periods s period (cutoff - period) else cutoff)"

declare trim_periods.simps [simp del]

definition suffix_cutoff :: "string \<Rightarrow> (nat \<times> nat) option" where
  "suffix_cutoff s =
     (case reasoning_has_repeated_suffix s of
        None \<Rightarrow> None
      | Some period \<Rightarrow>
          (let cutoff = trim_periods s period (length s - 4 * period)
           in Some (cutoff, (length s - cutoff) div period)))"

definition trim_cutoff :: "string \<Rightarrow> (nat \<times> nat) option" where
  "trim_cutoff s =
     (case reasoning_has_repeated_line_intent s of
        None \<Rightarrow> suffix_cutoff s
      | Some line_cutoff \<Rightarrow>
          (case suffix_cutoff s of
             None \<Rightarrow> Some (line_cutoff, 3)
           | Some (cutoff, copies) \<Rightarrow>
               if line_cutoff < cutoff then Some (line_cutoff, 3) else Some (cutoff, copies)))"

definition trim_reasoning :: "string \<Rightarrow> string \<times> nat" where
  "trim_reasoning s =
     (case trim_cutoff s of
        None \<Rightarrow> (s, 0)
      | Some (cutoff, copies) \<Rightarrow> (strip_last isspace (take cutoff s), copies))"

definition trim_message :: "chat_msg \<Rightarrow> chat_msg" where
  "trim_message m = (case cm_reasoning m of None \<Rightarrow> m
     | Some s \<Rightarrow> m\<lparr>cm_reasoning := Some (fst (trim_reasoning s))\<rparr>)"

definition trim_copies :: "chat_msg \<Rightarrow> nat" where
  "trim_copies m = (case cm_reasoning m of None \<Rightarrow> 0 | Some s \<Rightarrow> snd (trim_reasoning s))"

definition chat_msgs_trim_repeated_reasoning :: "chat_msgs \<Rightarrow> chat_msgs \<times> nat" where
  "chat_msgs_trim_repeated_reasoning msgs = (map trim_message msgs, sum_list (map trim_copies msgs))"

lemma strip_last_prefix: "prefix (strip_last P s) s"
  unfolding strip_last_def suffix_to_prefix [symmetric]
  by (metis rev_rev_ident suffix_dropWhile suffix_to_prefix)

lemma trim_reasoning_prefix: "prefix (fst (trim_reasoning s)) s"
  by (auto simp: trim_reasoning_def split: option.splits
      intro: prefix_order.trans [OF strip_last_prefix take_is_prefix])

lemma trim_periods_spec:
  assumes "0 < length u" "k \<ge> 1" "s = a @ concat (replicate k u)"
  shows "\<exists>b m. a = b @ concat (replicate m u) \<and> \<not> suffix u b \<and> trim_periods s (length u) (length a) = length b"
  using assms(2-)
proof (induction "length a" arbitrary: a k rule: less_induct)
  case less
  have last: "take (length u) (drop (length s - length u) s) = u"
  proof -
    from less(2) obtain j where "k = Suc j" by (cases k) auto
    then have "s = (a @ concat (replicate j u)) @ u"
      using less(3) by (simp flip: replicate_append_same)
    then show ?thesis by simp
  qed
  show ?case
  proof (cases "suffix u a")
    case True
    then obtain a' where a: "a = a' @ u" by (auto simp: suffix_def)
    have s': "s = a' @ concat (replicate (Suc k) u)" using less(3) a by simp
    have "length a' < length a" using a assms(1) by simp
    from less(1) [OF this _ s'] obtain b m where
      b: "a' = b @ concat (replicate m u)" "\<not> suffix u b" "trim_periods s (length u) (length a') = length b"
      by auto
    have "take (length u) (drop (length a - length u) s) = u" by (simp add: s' a)
    then have "trim_periods s (length u) (length a) = trim_periods s (length u) (length a')"
      by (subst trim_periods.simps) (use last assms(1) a in simp)
    moreover have "a = b @ concat (replicate (Suc m) u)"
      by (simp add: a b(1) flip: replicate_append_same)
    ultimately show ?thesis using b by metis
  next
    case False
    have "\<not> (length u \<le> length a \<and> take (length u) (drop (length a - length u) s) = u)"
    proof
      assume h: "length u \<le> length a \<and> take (length u) (drop (length a - length u) s) = u"
      then have "length u + (length a - length u) - length a = 0" by simp
      with h have "drop (length a - length u) a = u" using less(3) by simp
      then show False using False suffix_drop by metis
    qed
    then have "trim_periods s (length u) (length a) = length a"
      by (subst trim_periods.simps) (use last in auto)
    with False show ?thesis by (intro exI [of _ a] exI [of _ 0]) simp
  qed
qed

lemma suffix_cutoff_spec:
  assumes "reasoning_has_repeated_suffix s = Some p"
  shows "\<exists>a u k. length u = p \<and> 4 \<le> k \<and> s = a @ concat (replicate k u) \<and> \<not> suffix u a
    \<and> suffix_cutoff s = Some (length a, k)"
proof -
  from assms have p: "16 \<le> p" "4 * p \<le> length s" "ends_in_four s p"
    by (auto simp: repeated_suffix_iff dest: ends_in_four_length)
  then obtain a u where u: "length u = p" "s = a @ concat (replicate 4 u)"
    by (auto simp: ends_in_four_def eval_nat_numeral)
  with p obtain b m where b: "a = b @ concat (replicate m u)" "\<not> suffix u b"
    "trim_periods s p (length a) = length b"
    using trim_periods_spec [of u 4 s a] by auto
  have s: "s = b @ concat (replicate (m + 4) u)" using u b by (simp add: replicate_add)
  have l: "length s = length b + (m + 4) * p"
    using u(1) by (simp add: s length_concat sum_list_replicate)
  have la: "length s - 4 * p = length a"
    using u by (simp add: length_concat sum_list_replicate)
  have "suffix_cutoff s = Some (length b, m + 4)"
  proof -
    have "trim_periods s p (length s - 4 * p) = length b" using b(3) la by simp
    moreover have "(length s - length b) div p = m + 4" using l p(1) by simp
    ultimately show ?thesis using assms by (simp only: suffix_cutoff_def option.case Let_def)
  qed
  with s u b show ?thesis by (intro exI [of _ b] exI [of _ u] exI [of _ "m + 4"]) simp
qed


text \<open>A reasoning text that ends in a repeated block, with no intent loop in it, is cut in front
  of the first copy: all the copies go, however many there are, their number is reported, and
  blanks at the new end go too.\<close>

theorem trim_reasoning_removes_loop:
  assumes "reasoning_has_repeated_suffix s = Some p" "reasoning_has_repeated_line_intent s = None"
  shows "\<exists>a u k. length u = p \<and> 4 \<le> k \<and> s = a @ concat (replicate k u) \<and> \<not> suffix u a
    \<and> trim_reasoning s = (strip_last isspace a, k)"
proof -
  from suffix_cutoff_spec [OF assms(1)] obtain a u k where
    "length u = p" "4 \<le> k" "s = a @ concat (replicate k u)" "\<not> suffix u a"
    "suffix_cutoff s = Some (length a, k)" by blast
  with assms(2) show ?thesis
    by (intro exI [of _ a] exI [of _ u] exI [of _ k]) (simp add: trim_reasoning_def trim_cutoff_def)
qed

theorem trim_reasoning_removes_loop_witness:
  "let s = ''plan: '' @ concat (replicate 5 ''let me look once'') in
   \<exists>a u k. length u = 16 \<and> 4 \<le> k \<and> s = a @ concat (replicate k u) \<and> \<not> suffix u a
    \<and> trim_reasoning s = (strip_last isspace a, k)"
  unfolding Let_def by (rule trim_reasoning_removes_loop) code_simp+

text \<open>Trimming touches only the reasoning of a message, which becomes a prefix of what it was;
  roles, contents and calls stay, so a well-formed transcript stays well formed.\<close>

theorem chat_msgs_trim_only_shortens:
  "list_all2 (\<lambda>m m'. (\<exists>r. m' = m\<lparr>cm_reasoning := r\<rparr>)
      \<and> rel_option (\<lambda>old new. prefix new old) (cm_reasoning m) (cm_reasoning m'))
     msgs (fst (chat_msgs_trim_repeated_reasoning msgs))"
proof -
  have "(\<exists>r. trim_message m = m\<lparr>cm_reasoning := r\<rparr>)
      \<and> rel_option (\<lambda>old new. prefix new old) (cm_reasoning m) (cm_reasoning (trim_message m))" for m
  proof (cases "cm_reasoning m")
    case None
    then have "trim_message m = m\<lparr>cm_reasoning := cm_reasoning m\<rparr>" by (simp add: trim_message_def)
    then show ?thesis using None by auto
  next
    case (Some s)
    then show ?thesis by (auto simp: trim_message_def trim_reasoning_prefix)
  qed
  then show ?thesis
    by (simp add: chat_msgs_trim_repeated_reasoning_def list_all2_map2 list_all2_same)
qed

section \<open>Calls that never return\<close>

definition tool_calls_same_single :: "tool_calls \<Rightarrow> tool_calls \<Rightarrow> bool" where
  "tool_calls_same_single a b \<longleftrightarrow>
     (case (tcs_v a, tcs_v b) of
        ([x], [y]) \<Rightarrow>
          tc_name x \<noteq> None \<and> tc_name y \<noteq> None \<and> tc_arguments x \<noteq> None \<and> tc_arguments y \<noteq> None
          \<and> tc_name x = tc_name y \<and> tc_arguments x = tc_arguments y
      | _ \<Rightarrow> False)"

definition tool_call_has_persistent_pipe_risk :: "tool_call \<Rightarrow> bool" where
  "tool_call_has_persistent_pipe_risk tc =
     (case (tc_name tc, tc_arguments tc) of
        (Some name, Some args) \<Rightarrow>
          if \<not> strcaseeq name ''bash'' \<and> \<not> strcaseeq name ''shell'' \<and> \<not> strcaseeq name ''powershell''
          then False
          else if \<not> strcasestr args ''Start-Process'' \<or> \<not> strcasestr args ''-NoNewWindow'' then False
          else \<not> (strcasestr args ''-RedirectStandardInput''
                 \<and> strcasestr args ''-RedirectStandardOutput''
                 \<and> strcasestr args ''-RedirectStandardError'')
      | _ \<Rightarrow> False)"

definition tool_calls_find_persistent_pipe_risk :: "tool_calls \<Rightarrow> bool" where
  "tool_calls_find_persistent_pipe_risk calls \<longleftrightarrow>
     (\<exists>tc\<in>set (tcs_v calls). tool_call_has_persistent_pipe_risk tc)"

section \<open>Agents that repeat the same calls\<close>

text \<open>The scan from the newest message back: the calls found, newest first, and the index of the
  newest tool result.\<close>

fun loop_guard_scan ::
  "(nat \<times> chat_msg) list \<Rightarrow> tool_calls list \<Rightarrow> nat option \<Rightarrow> tool_calls list \<times> nat option" where
  "loop_guard_scan [] recent latest = (recent, latest)"
| "loop_guard_scan ((i, msg) # ms) recent latest =
     (if cm_role msg = Some ''tool'' then
        loop_guard_scan ms recent (if latest = None then Some i else latest)
      else if cm_role msg \<noteq> Some ''assistant'' \<or> tcs_v (cm_calls msg) = [] then (recent, latest)
      else if length (tcs_v (cm_calls msg)) \<noteq> 1 \<or> length recent = 12 then (recent, latest)
      else loop_guard_scan ms (recent @ [cm_calls msg]) latest)"

definition loop_repeats :: "tool_calls list \<Rightarrow> nat \<times> nat" where
  "loop_repeats recent =
     (let same = (if recent = [] then 0
                  else length (filter (tool_calls_same_single (hd recent)) recent)) in
      if same \<ge> 3 then (same, 1)
      else
        (case find (\<lambda>p. p * 3 \<le> length recent
             \<and> (\<forall>i\<in>set [p..<length recent div p * p].
                  tool_calls_same_single (recent ! i) (recent ! (i mod p)))) [1..<4] of
           None \<Rightarrow> (same, 0)
         | Some p \<Rightarrow> (length recent div p, p)))"

definition guard_mark :: string where
  "guard_mark = ''Tool loop guard:''"

definition guard_text :: "nat \<Rightarrow> nat \<Rightarrow> string" where
  "guard_text period repeats =
     [CHR 0x0A, CHR 0x0A] @ guard_mark @
     (if period = 1
      then '' this identical tool call has already completed successfully '' @ dec_str repeats
        @ '' times. Reuse the result above. Do not invoke this ''
        @ ''tool again; finish the task with a final response now.''
      else '' the last '' @ dec_str period @ ''-tool sequence has already completed ''
        @ ''successfully '' @ dec_str repeats @ '' times. Reuse those results. Do not invoke another ''
        @ ''tool from this cycle; finish the task with a final response now.'')"

definition chat_msgs_add_tool_loop_guard :: "chat_msgs \<Rightarrow> chat_msgs \<times> nat" where
  "chat_msgs_add_tool_loop_guard msgs =
     (let (recent, latest) = loop_guard_scan (rev (List.enumerate 0 msgs)) [] None;
          (repeats, period) = loop_repeats recent in
      case latest of
        None \<Rightarrow> (msgs, repeats)
      | Some i \<Rightarrow>
          if repeats < 3 then (msgs, repeats)
          else
            let content = str_or_empty (cm_content (msgs ! i)) in
            if cm_content (msgs ! i) \<noteq> None \<and> strstr content guard_mark \<noteq> None then (msgs, repeats)
            else (msgs[i := (msgs ! i)\<lparr>cm_content := Some (content @ guard_text period repeats)\<rparr>], repeats))"


definition periodic :: "nat \<Rightarrow> tool_calls list \<Rightarrow> bool" where
  "periodic p recent \<longleftrightarrow> p * 3 \<le> length recent
     \<and> (\<forall>i. p \<le> i \<longrightarrow> i < length recent div p * p \<longrightarrow>
          tool_calls_same_single (recent ! i) (recent ! (i mod p)))"

lemma loop_repeats_eq:
  "loop_repeats recent =
     (let same = length (filter (tool_calls_same_single (hd recent)) recent) in
      if same \<ge> 3 then (same, 1)
      else (case find (\<lambda>p. periodic p recent) [1..<4] of
              None \<Rightarrow> (same, 0) | Some p \<Rightarrow> (length recent div p, p)))"
proof -
  have "(\<forall>i\<in>set [p..<n]. Q i) \<longleftrightarrow> (\<forall>i. p \<le> i \<longrightarrow> i < n \<longrightarrow> Q i)" for p n Q by auto
  then have p: "(\<lambda>p. p * 3 \<le> length recent
             \<and> (\<forall>i\<in>set [p..<length recent div p * p].
                  tool_calls_same_single (recent ! i) (recent ! (i mod p)))) = (\<lambda>p. periodic p recent)"
    unfolding periodic_def by (intro ext) (simp only:)
  have s: "(if recent = [] then 0 else length (filter (tool_calls_same_single (hd recent)) recent))
      = length (filter (tool_calls_same_single (hd recent)) recent)" by simp
  show ?thesis unfolding loop_repeats_def p s ..
qed

text \<open>The cycle detector reports three or more repetitions exactly when the newest call occurs
  three times among the recent ones, or the recent calls repeat with period one, two or three
  for at least three rounds.\<close>

theorem loop_repeats_iff:
  "fst (loop_repeats recent) \<ge> 3 \<longleftrightarrow>
     length (filter (tool_calls_same_single (hd recent)) recent) \<ge> 3
     \<or> (\<exists>p\<in>{1, 2, 3}. periodic p recent)"
proof -
  have s: "set [1..<4] = {1, 2, 3::nat}" by (auto simp: eval_nat_numeral)
  have "length recent div p \<ge> 3" if "periodic p recent" "1 \<le> p" for p
  proof -
    have "p * 3 div p \<le> length recent div p" using that by (intro div_le_mono) (simp add: periodic_def)
    with that show ?thesis by simp
  qed
  then show ?thesis
    unfolding loop_repeats_eq Let_def s [symmetric]
    by (auto simp: find_None_iff split: option.splits dest!: find_SomeD simp del: upt_Suc)
qed

lemma loop_guard_scan_latest:
  "snd (loop_guard_scan ms recent latest) = Some i \<Longrightarrow>
     latest = Some i \<or> (\<exists>m. (i, m) \<in> set ms \<and> cm_role m = Some ''tool'')"
  by (induction ms recent latest rule: loop_guard_scan.induct) (auto split: if_splits)

lemma loop_guard_scan_cong:
  "map (\<lambda>(i, m). (i, m\<lparr>cm_content := None\<rparr>)) ms = map (\<lambda>(i, m). (i, m\<lparr>cm_content := None\<rparr>)) ms' \<Longrightarrow>
     loop_guard_scan ms recent latest = loop_guard_scan ms' recent latest"
proof (induction ms recent latest arbitrary: ms' rule: loop_guard_scan.induct)
  case (2 i msg ms recent latest)
  then obtain msg' ms'' where k: "ms' = (i, msg') # ms''"
    "msg\<lparr>cm_content := None\<rparr> = msg'\<lparr>cm_content := None\<rparr>"
    "map (\<lambda>(i, m). (i, m\<lparr>cm_content := None\<rparr>)) ms = map (\<lambda>(i, m). (i, m\<lparr>cm_content := None\<rparr>)) ms''"
    by (cases ms') auto
  have "cm_role msg = cm_role msg'" "cm_calls msg = cm_calls msg'"
    using k(2) by (metis chat_msg.select_convs(1) chat_msg.surjective chat_msg.update_convs(2),
      metis chat_msg.select_convs(6) chat_msg.surjective chat_msg.update_convs(2))
  with 2 k show ?case by simp
qed simp

lemma enumerate_update_content:
  "map (\<lambda>(i, m). (i, m\<lparr>cm_content := None\<rparr>)) (List.enumerate n (msgs[j := (msgs ! j)\<lparr>cm_content := x\<rparr>]))
   = map (\<lambda>(i, m). (i, m\<lparr>cm_content := None\<rparr>)) (List.enumerate n msgs)"
  by (cases "j < length msgs")
    (auto intro!: nth_equalityI simp: nth_enumerate_eq nth_list_update)

lemma loop_guard_scan_update:
  "loop_guard_scan (rev (List.enumerate 0 (msgs[j := (msgs ! j)\<lparr>cm_content := x\<rparr>]))) [] None
   = loop_guard_scan (rev (List.enumerate 0 msgs)) [] None"
  by (rule loop_guard_scan_cong) (simp only: rev_map [symmetric] enumerate_update_content)

lemma tool_loop_guard_cases:
  "chat_msgs_add_tool_loop_guard msgs = (msgs, fst (loop_repeats (fst (loop_guard_scan (rev (List.enumerate 0 msgs)) [] None))))
   \<or> (\<exists>i. i < length msgs \<and> cm_role (msgs ! i) = Some ''tool''
        \<and> snd (loop_guard_scan (rev (List.enumerate 0 msgs)) [] None) = Some i
        \<and> (case loop_repeats (fst (loop_guard_scan (rev (List.enumerate 0 msgs)) [] None)) of
            (repeats, period) \<Rightarrow> repeats \<ge> 3 \<and>
             chat_msgs_add_tool_loop_guard msgs =
              (msgs[i := (msgs ! i)\<lparr>cm_content :=
                 Some (str_or_empty (cm_content (msgs ! i)) @ guard_text period repeats)\<rparr>], repeats)))"
proof -
  obtain recent latest where sc: "loop_guard_scan (rev (List.enumerate 0 msgs)) [] None = (recent, latest)"
    by (cases "loop_guard_scan (rev (List.enumerate 0 msgs)) [] None")
  obtain repeats period where r: "loop_repeats recent = (repeats, period)"
    by (cases "loop_repeats recent")
  show ?thesis
  proof (cases latest)
    case None
    then show ?thesis by (simp add: chat_msgs_add_tool_loop_guard_def sc r)
  next
    case (Some i)
    have "i < length msgs \<and> cm_role (msgs ! i) = Some ''tool''"
      using loop_guard_scan_latest [of "rev (List.enumerate 0 msgs)" "[]" None i] Some
      by (auto simp: sc in_set_enumerate_eq)
    then show ?thesis
      using Some by (auto simp: chat_msgs_add_tool_loop_guard_def sc r Let_def)
  qed
qed

text \<open>The guard changes at most the content of one tool message, only when three repetitions
  were seen, and only by appending its text.\<close>

theorem tool_loop_guard_frame:
  "fst (chat_msgs_add_tool_loop_guard msgs) = msgs
   \<or> (\<exists>i t. i < length msgs \<and> cm_role (msgs ! i) = Some ''tool''
        \<and> snd (chat_msgs_add_tool_loop_guard msgs) \<ge> 3
        \<and> fst (chat_msgs_add_tool_loop_guard msgs)
            = msgs[i := (msgs ! i)\<lparr>cm_content := Some (str_or_empty (cm_content (msgs ! i)) @ t)\<rparr>])"
  using tool_loop_guard_cases [of msgs] by (fastforce split: prod.splits)

lemma guard_text_mark: "strstr (s @ guard_text period repeats) guard_mark \<noteq> None"
proof -
  have "s @ guard_text period repeats = (s @ [CHR 0x0A, CHR 0x0A] @ guard_mark) @ drop 18 (guard_text period repeats)"
    by (simp add: guard_text_def guard_mark_def)
  moreover have "strstr (s @ [CHR 0x0A, CHR 0x0A] @ guard_mark) guard_mark \<noteq> None"
    by (rule strstr_suffix) (simp add: suffix_def)
  ultimately show ?thesis using strstr_appendI by metis
qed

text \<open>Replaying a guarded history does not guard it again: the guard is idempotent.\<close>

theorem tool_loop_guard_idempotent:
  "chat_msgs_add_tool_loop_guard (fst (chat_msgs_add_tool_loop_guard msgs))
   = chat_msgs_add_tool_loop_guard msgs"
  using tool_loop_guard_cases [of msgs]
proof (elim disjE exE conjE)
  fix i
  assume i: "i < length msgs" "snd (loop_guard_scan (rev (List.enumerate 0 msgs)) [] None) = Some i"
    and c: "case loop_repeats (fst (loop_guard_scan (rev (List.enumerate 0 msgs)) [] None)) of
            (repeats, period) \<Rightarrow> repeats \<ge> 3 \<and>
             chat_msgs_add_tool_loop_guard msgs =
              (msgs[i := (msgs ! i)\<lparr>cm_content :=
                 Some (str_or_empty (cm_content (msgs ! i)) @ guard_text period repeats)\<rparr>], repeats)"
  obtain recent where sc: "loop_guard_scan (rev (List.enumerate 0 msgs)) [] None = (recent, Some i)"
    using i(2) by (cases "loop_guard_scan (rev (List.enumerate 0 msgs)) [] None") auto
  obtain repeats period where r: "loop_repeats recent = (repeats, period)"
    by (cases "loop_repeats recent")
  let ?t = "str_or_empty (cm_content (msgs ! i)) @ guard_text period repeats"
  let ?msgs = "msgs[i := (msgs ! i)\<lparr>cm_content := Some ?t\<rparr>]"
  have g: "chat_msgs_add_tool_loop_guard msgs = (?msgs, repeats)" using c by (simp add: sc r)
  have "cm_content (?msgs ! i) = Some ?t" using i(1) by simp
  then have "chat_msgs_add_tool_loop_guard ?msgs = (?msgs, repeats)"
    using guard_text_mark [of "str_or_empty (cm_content (msgs ! i))" period repeats]
    by (simp add: chat_msgs_add_tool_loop_guard_def [of ?msgs] loop_guard_scan_update sc r Let_def
        del: not_None_eq)
  with g show ?thesis by simp
qed simp

end
