(* ===== verification/Dsml.thy ===== *)
theory Dsml
  imports Thinking
begin

text \<open>
  Rendering of \<open>ds4_server.c\<close>: tool calls as DSML text (lines 2480 to 2725), the chat
  prompt and the live tool tail (lines 2727 to 2908), and the lexical helpers of the DSML
  reader (lines 4798 to 4919).  A \<open>buf\<close> that only grows is the string appended to it.
\<close>

section \<open>Marks and tags\<close>

abbreviation NL :: string where "NL \<equiv> [CHR 0x0A]"
abbreviation DQ :: string where "DQ \<equiv> [QUOT]"

text \<open>The UTF-8 bytes of U+FF5C and of U+2581.\<close>

definition BAR :: string where
  "BAR = [CHR 0xEF, CHR 0xBD, CHR 0x9C]"

definition LOW :: string where
  "LOW = [CHR 0xE2, CHR 0x96, CHR 0x81]"

definition DS4_DSML :: string where
  "DS4_DSML = BAR @ ''DSML'' @ BAR"

definition DS4_DSML_SHORT :: string where
  "DS4_DSML_SHORT = ''DSML'' @ BAR"

record dsml_syntax =
  tool_calls_start :: string
  tool_calls_end :: string
  invoke_start :: string
  invoke_end :: string
  param_start :: string
  param_end :: string

definition syntax_of :: "string \<Rightarrow> dsml_syntax" where
  "syntax_of mark =
     \<lparr>tool_calls_start = ''<'' @ mark @ ''tool_calls>'',
      tool_calls_end = ''</'' @ mark @ ''tool_calls>'',
      invoke_start = ''<'' @ mark @ ''invoke'',
      invoke_end = ''</'' @ mark @ ''invoke>'',
      param_start = ''<'' @ mark @ ''parameter'',
      param_end = ''</'' @ mark @ ''parameter>''\<rparr>"

definition dsml_full :: dsml_syntax where
  "dsml_full = syntax_of DS4_DSML"

definition dsml_short :: dsml_syntax where
  "dsml_short = syntax_of DS4_DSML_SHORT"

definition dsml_plain :: dsml_syntax where
  "dsml_plain = syntax_of []"

definition dsml_syntaxes :: "dsml_syntax list" where
  "dsml_syntaxes = [dsml_full, dsml_short, dsml_plain]"

definition BEGIN_OF_SENTENCE :: string where
  "BEGIN_OF_SENTENCE = ''<'' @ BAR @ ''begin'' @ LOW @ ''of'' @ LOW @ ''sentence'' @ BAR @ ''>''"

definition END_OF_SENTENCE :: string where
  "END_OF_SENTENCE = ''<'' @ BAR @ ''end'' @ LOW @ ''of'' @ LOW @ ''sentence'' @ BAR @ ''>''"

definition USER_MARK :: string where
  "USER_MARK = ''<'' @ BAR @ ''User'' @ BAR @ ''>''"

definition ASSISTANT_MARK :: string where
  "ASSISTANT_MARK = ''<'' @ BAR @ ''Assistant'' @ BAR @ ''>''"

definition TOOL_RESULT_START :: string where
  "TOOL_RESULT_START = ''<tool_result>''"

definition TOOL_RESULT_END :: string where
  "TOOL_RESULT_END = ''</tool_result>''"

section \<open>The tools prompt\<close>

definition tools_prompt_head :: string where
  "tools_prompt_head =
     ''## Tools'' @ NL @ NL @
     ''You have access to a set of tools to help answer the user question. You can '' @
     ''invoke tools by writing a '' @ DQ @ ''<'' @ BAR @ ''DSML'' @ BAR @ ''tool_calls>'' @ DQ @
     '' block like the following:'' @ NL @ NL @ ''<'' @ BAR @ ''DSML'' @ BAR @ ''tool_calls>'' @
     NL @ ''<'' @ BAR @ ''DSML'' @ BAR @ ''invoke name='' @ DQ @ ''$TOOL_NAME'' @ DQ @ ''>'' @
     NL @ ''<'' @ BAR @ ''DSML'' @ BAR @ ''parameter name='' @ DQ @ ''$PARAMETER_NAME'' @ DQ @
     '' string='' @ DQ @ ''true|false'' @ DQ @ ''>$PARAMETER_VALUE</'' @ BAR @ ''DSML'' @ BAR @
     ''parameter>'' @ NL @ ''...'' @ NL @ ''</'' @ BAR @ ''DSML'' @ BAR @ ''invoke>'' @ NL @
     ''<'' @ BAR @ ''DSML'' @ BAR @ ''invoke name='' @ DQ @ ''$TOOL_NAME2'' @ DQ @ ''>'' @ NL @
     ''...'' @ NL @ ''</'' @ BAR @ ''DSML'' @ BAR @ ''invoke>'' @ NL @ ''</'' @ BAR @ ''DSML'' @
     BAR @ ''tool_calls>'' @ NL @ NL @
     ''String parameters should be specified as raw text and set `string='' @ DQ @ ''true'' @ DQ @
     ''`. Preserve characters such as `>`, `&`, and `&&` exactly; never replace normal '' @
     ''string characters with XML or HTML entity escapes. Only if a string value '' @
     ''itself contains the exact closing parameter tag `</'' @ BAR @ ''DSML'' @ BAR @
     ''parameter>`, write that tag as `&lt;/'' @ BAR @ ''DSML'' @ BAR @
     ''parameter>` inside the value. For all other types (numbers, booleans, arrays, '' @
     ''objects), pass the value in JSON format and set `string='' @ DQ @ ''false'' @ DQ @ ''`.'' @
     NL @ NL @
     ''When a shell command starts a long-lived server, detach it and redirect stdin, '' @
     ''stdout, and stderr away from the tool process before returning. On POSIX use a '' @
     ''background process with redirected streams; with PowerShell use Start-Process '' @
     ''with explicit redirected output/error files. In PowerShell NEVER combine '' @
     ''Start-Process -NoNewWindow with a persistent process unless '' @
     ''-RedirectStandardInput, -RedirectStandardOutput, and -RedirectStandardError are '' @
     ''all present; inherited handles keep the agent tool open forever. Do not use '' @
     ''Get-Content -Wait when validating a persistent server. Never leave a persistent '' @
     ''child inheriting the tool'' @ [CHR 0x27] @
     ''s output pipe, because the agent will continue waiting even after this API '' @
     ''request has completed.'' @ NL @ NL @
     ''If thinking_mode is enabled (triggered by <think>), you MUST output your '' @
     ''complete reasoning inside <think>...</think> BEFORE any tool calls or final '' @
     ''response.'' @ NL @ NL @
     ''Otherwise, output directly after </think> with tool calls or final response.'' @ NL @ NL @
     ''### Available Tool Schemas'' @ NL @ NL"

definition append_tools_prompt_text :: "string option \<Rightarrow> string" where
  "append_tools_prompt_text tool_schemas =
     (if \<not> nonempty_opt tool_schemas then []
      else tools_prompt_head @ str_or_empty tool_schemas @
         NL @ NL @
         ''You MUST strictly follow the above defined tool name and parameter schemas to '' @
         ''invoke tool calls. Use the exact parameter names from the schemas.'')"

definition ds4_think_max_prefix :: string where
  "ds4_think_max_prefix =
     ''Reasoning Effort: Absolute maximum with no shortcuts permitted.'' @ NL @
     ''You MUST be very thorough in your thinking and comprehensively decompose the '' @
     ''problem to resolve the root cause, rigorously stress-testing your logic against '' @
     ''all potential paths, edge cases, and adversarial scenarios.'' @ NL @
     ''Explicitly write out your entire deliberation process, documenting every '' @
     ''intermediate step, considered alternative, and rejected hypothesis to ensure '' @
     ''absolutely no assumption is left unchecked.'' @ NL @ NL"

section \<open>Arguments\<close>

record json_arg =
  ja_key :: string
  ja_value :: string
  ja_is_string :: bool
  ja_used :: bool

type_synonym json_args = "json_arg list"

definition json_args_push :: "json_args \<Rightarrow> json_arg \<Rightarrow> json_args" where
  "json_args_push args arg = args @ [arg]"

definition json_args_find_unused :: "json_args \<Rightarrow> string option \<Rightarrow> nat option" where
  "json_args_find_unused args key =
     (case key of
        None \<Rightarrow> None
      | Some k \<Rightarrow>
          find (\<lambda>i. \<not> ja_used (args ! i) \<and> ja_key (args ! i) = k) [0..<length args])"

definition json_arg_member :: "json_args member_handler" where
  "json_arg_member key args s =
     (let p = json_ws s in
      if take 1 p = DQ then
        (case json_string p of
           None \<Rightarrow> None
         | Some (v, r) \<Rightarrow>
             Some (json_args_push args
                     \<lparr>ja_key = key, ja_value = v, ja_is_string = True, ja_used = False\<rparr>, r))
      else
        (case json_raw_value p of
           None \<Rightarrow> None
         | Some (raw, r) \<Rightarrow>
             Some (json_args_push args
                     \<lparr>ja_key = key, ja_value = json_minify_raw_value raw, ja_is_string = False,
                      ja_used = False\<rparr>, r)))"

definition json_args_parse :: "string option \<Rightarrow> json_args option" where
  "json_args_parse json =
     (case json_ws (str_or_empty json) of
        [] \<Rightarrow> None
      | c # t \<Rightarrow>
          if c \<noteq> CHR ''{'' then None
          else map_option fst (json_object_loop json_arg_member [] (json_ws t)))"

interpretation json_arg: member_reader json_arg_member
proof
  fix key args s b r
  assume "json_arg_member key args s = Some (b, r)"
  with json_ws_length [of s] show "length r \<le> length s"
    by (auto simp: json_arg_member_def Let_def split: if_splits option.splits
        dest!: json_string_length json_raw_value_length)
qed

section \<open>Escaping\<close>

definition dsml_escape_char :: "char \<Rightarrow> string" where
  "dsml_escape_char c =
     (if c = CHR ''&'' then ''&amp;''
      else if c = CHR ''<'' then ''&lt;''
      else if c = CHR ''>'' then ''&gt;''
      else if c = QUOT then ''&quot;''
      else [c])"

definition append_dsml_attr_escaped :: "string option \<Rightarrow> string" where
  "append_dsml_attr_escaped s = concat (map dsml_escape_char (str_or_empty s))"

text \<open>
  The loop of \<open>append_dsml_parameter_text\<close>, \<open>append_tool_result_text\<close> and
  \<open>append_dsml_json_literal\<close>: where the closing tag would begin, its first byte is replaced.
\<close>

fun protect :: "string \<Rightarrow> string \<Rightarrow> string \<Rightarrow> string" where
  "protect close rep [] = []"
| "protect close rep (c # s) =
     (if prefix close (c # s) then rep @ protect close rep s else c # protect close rep s)"

definition append_dsml_parameter_text :: "string option \<Rightarrow> string" where
  "append_dsml_parameter_text s = protect (param_end dsml_full) ''&lt;'' (str_or_empty s)"

definition append_tool_result_text :: "string option \<Rightarrow> string" where
  "append_tool_result_text s = protect TOOL_RESULT_END ''&lt;'' (str_or_empty s)"

definition append_dsml_json_literal :: "string option \<Rightarrow> string" where
  "append_dsml_json_literal s =
     protect (param_end dsml_full) (BSL # ''u003c'') (str_or_empty s)"

section \<open>Tool calls as DSML\<close>

definition append_dsml_arg :: "json_arg \<Rightarrow> string" where
  "append_dsml_arg arg =
     param_start dsml_full @ '' name='' @ DQ @ append_dsml_attr_escaped (Some (ja_key arg)) @ DQ
     @ '' string='' @ DQ @ (if ja_is_string arg then ''true'' else ''false'') @ DQ @ ''>''
     @ (if ja_is_string arg then append_dsml_parameter_text (Some (ja_value arg))
        else append_dsml_json_literal (Some (ja_value arg)))
     @ param_end dsml_full @ NL"

text \<open>
  The arguments in the order of the tool's schema first, then the rest; the order is a list
  of property names, absent where the caller passes NULL.
\<close>

definition dsml_ordered_step ::
  "json_args \<times> string \<Rightarrow> string \<Rightarrow> json_args \<times> string" where
  "dsml_ordered_step st prop =
     (case st of
        (args, out) \<Rightarrow>
          (case json_args_find_unused args (Some prop) of
             None \<Rightarrow> (args, out)
           | Some idx \<Rightarrow>
               (args[idx := (args ! idx)\<lparr>ja_used := True\<rparr>], out @ append_dsml_arg (args ! idx))))"

definition append_dsml_arguments_from_json ::
  "string option \<Rightarrow> string list option \<Rightarrow> string option" where
  "append_dsml_arguments_from_json json order =
     (case json_args_parse json of
        None \<Rightarrow> None
      | Some args0 \<Rightarrow>
          (case foldl dsml_ordered_step (args0, []) (case order of None \<Rightarrow> [] | Some ps \<Rightarrow> ps) of
             (args, out) \<Rightarrow>
               Some (out @ concat (map append_dsml_arg (filter (\<lambda>a. \<not> ja_used a) args)))))"

definition append_json_arg_pair :: "json_arg \<Rightarrow> string" where
  "append_json_arg_pair arg =
     json_escape (ja_key arg) @ '':''
     @ (if ja_is_string arg then json_escape (ja_value arg) else ja_value arg)"

fun comma_join :: "string list \<Rightarrow> string" where
  "comma_join [] = []"
| "comma_join [x] = x"
| "comma_join (x # y # zs) = x @ '','' @ comma_join (y # zs)"

definition append_json_object_or_empty :: "string option \<Rightarrow> string" where
  "append_json_object_or_empty json =
     (case json_args_parse json of
        None \<Rightarrow> ''{}''
      | Some args \<Rightarrow> ''{'' @ comma_join (map append_json_arg_pair args) @ ''}'')"

definition dsml_invoke_text :: "tool_call \<Rightarrow> string" where
  "dsml_invoke_text tc =
     invoke_start dsml_full @ '' name='' @ DQ @ append_dsml_attr_escaped (tc_name tc) @ DQ @ ''>'' @ NL
     @ (case append_dsml_arguments_from_json (tc_arguments tc) None of
          Some args \<Rightarrow> args
        | None \<Rightarrow>
            param_start dsml_full @ '' name='' @ DQ @ ''arguments'' @ DQ @ '' string='' @ DQ @ ''true''
            @ DQ @ ''>'' @ append_dsml_parameter_text (tc_arguments tc) @ param_end dsml_full @ NL)
     @ invoke_end dsml_full @ NL"

definition append_dsml_tool_calls_text :: "tool_calls \<Rightarrow> string" where
  "append_dsml_tool_calls_text calls =
     (if tcs_v calls = [] then []
      else if nonempty_opt (tcs_raw_dsml calls) then str_or_empty (tcs_raw_dsml calls)
      else
        NL @ NL @ tool_calls_start dsml_full @ NL
        @ concat (map dsml_invoke_text (tcs_v calls)) @ tool_calls_end dsml_full)"

section \<open>The chat prompt\<close>

definition role_is_system :: "string option \<Rightarrow> bool" where
  "role_is_system role \<longleftrightarrow> role = Some ''system'' \<or> role = Some ''developer''"

definition role_is_tool :: "string option \<Rightarrow> bool" where
  "role_is_tool role \<longleftrightarrow> role = Some ''tool'' \<or> role = Some ''function''"

definition role_is_user_like :: "string option \<Rightarrow> bool" where
  "role_is_user_like role \<longleftrightarrow>
     role = Some ''user'' \<or> role = Some ''tool'' \<or> role = Some ''function''"

definition chat_history_uses_tool_context :: "chat_msgs \<Rightarrow> string option \<Rightarrow> bool" where
  "chat_history_uses_tool_context msgs tool_schemas \<longleftrightarrow>
     nonempty_opt tool_schemas \<or>
     (\<exists>m\<in>set msgs. (cm_role m = Some ''assistant'' \<and> tcs_v (cm_calls m) \<noteq> [])
        \<or> cm_role m = Some ''tool'' \<or> cm_role m = Some ''function'')"

text \<open>The output and the two flags of the rendering loops.\<close>

record render_state =
  rs_out :: string
  rs_pending_assistant :: bool
  rs_pending_tool_result :: bool

definition render_put :: "string \<Rightarrow> bool \<Rightarrow> bool \<Rightarrow> render_state \<Rightarrow> render_state" where
  "render_put t pending_assistant pending_tool_result st =
     \<lparr>rs_out = rs_out st @ t, rs_pending_assistant = pending_assistant,
      rs_pending_tool_result = pending_tool_result\<rparr>"

text \<open>The loop body; \<open>replay\<close> says whether a past assistant turn repeats its reasoning.\<close>

definition render_assistant_open :: "bool \<Rightarrow> bool \<Rightarrow> chat_msg \<Rightarrow> string" where
  "render_assistant_open think replay m =
     ASSISTANT_MARK @
     (if think \<and> replay then ''<think>'' @ str_or_empty (cm_reasoning m) @ ''</think>''
      else ''</think>'')"

definition render_message :: "bool \<Rightarrow> bool \<Rightarrow> render_state \<Rightarrow> chat_msg \<Rightarrow> render_state" where
  "render_message think replay st m =
     (if role_is_system (cm_role m) then st
      else if cm_role m = Some ''user'' then
        render_put (USER_MARK @ str_or_empty (cm_content m)) True False st
      else if role_is_tool (cm_role m) then
        render_put ((if \<not> rs_pending_tool_result st then USER_MARK else [])
          @ TOOL_RESULT_START @ append_tool_result_text (cm_content m) @ TOOL_RESULT_END) True True st
      else if cm_role m = Some ''assistant'' then
        render_put ((if rs_pending_assistant st then render_assistant_open think replay m else [])
          @ str_or_empty (cm_content m) @ append_dsml_tool_calls_text (cm_calls m)
          @ END_OF_SENTENCE) False False st
      else st)"

text \<open>What follows the last message: the prefix of the turn to be generated.\<close>

definition render_finish :: "bool \<Rightarrow> render_state \<Rightarrow> string" where
  "render_finish think st =
     rs_out st @
     (if rs_pending_assistant st
      then ASSISTANT_MARK @ (if think then ''<think>'' else ''</think>'') else [])"

definition render_system :: "chat_msgs \<Rightarrow> string option \<Rightarrow> string" where
  "render_system msgs tool_schemas =
     foldl (\<lambda>sys m. if role_is_system (cm_role m)
              then sys @ (if sys \<noteq> [] then NL @ NL else []) @ str_or_empty (cm_content m) else sys)
       (append_tools_prompt_text tool_schemas) msgs"

text \<open>The index of the last user or tool message, \<open>-1\<close> without one.\<close>

definition last_user_idx :: "chat_msgs \<Rightarrow> int" where
  "last_user_idx msgs =
     foldl (\<lambda>idx i. if role_is_user_like (cm_role (msgs ! i)) then int i else idx)
       (- 1) [0..<length msgs]"

definition render_chat_prompt_text ::
  "chat_msgs \<Rightarrow> string option \<Rightarrow> ds4_think_mode \<Rightarrow> string" where
  "render_chat_prompt_text msgs tool_schemas think_mode =
     (let think = ds4_think_mode_enabled think_mode;
          tool_context = chat_history_uses_tool_context msgs tool_schemas;
          start = BEGIN_OF_SENTENCE
            @ (if think_mode = DS4_THINK_MAX then ds4_think_max_prefix else [])
            @ render_system msgs tool_schemas;
          st = foldl (\<lambda>st i. render_message think (tool_context \<or> int i > last_user_idx msgs) st (msgs ! i))
            \<lparr>rs_out = start, rs_pending_assistant = False, rs_pending_tool_result = False\<rparr>
            [0..<length msgs] in
      render_finish think st)"

definition render_live_tool_tail :: "chat_msgs \<Rightarrow> nat \<Rightarrow> ds4_think_mode \<Rightarrow> string" where
  "render_live_tool_tail msgs start think_mode =
     (let think = ds4_think_mode_enabled think_mode;
          st = foldl (\<lambda>st i. render_message think True st (msgs ! i))
            \<lparr>rs_out = END_OF_SENTENCE, rs_pending_assistant = False, rs_pending_tool_result = False\<rparr>
            [start..<length msgs] in
      render_finish think st)"

section \<open>Markers in generated text\<close>

text \<open>A pointer into the text is an index into it.\<close>

definition first_of :: "string \<Rightarrow> string list \<Rightarrow> nat option" where
  "first_of s lits =
     foldl (\<lambda>best lit.
       case strstr s lit of
         None \<Rightarrow> best
       | Some i \<Rightarrow> (case best of None \<Rightarrow> Some i | Some b \<Rightarrow> if i < b then Some i else best)) None lits"

definition find_any_tool_start :: "string \<Rightarrow> nat option" where
  "find_any_tool_start s =
     first_of s [tool_calls_start dsml_full, tool_calls_start dsml_short, ''<tool_calls>'']"

definition find_any_tool_end :: "string \<Rightarrow> nat option" where
  "find_any_tool_end s =
     first_of s [tool_calls_end dsml_full, tool_calls_end dsml_short, ''</tool_calls>'']"

record tool_markers =
  saw_start :: bool
  saw_end :: bool
  orphan_end :: bool

definition observe_tool_markers :: "string option \<Rightarrow> tool_markers \<Rightarrow> tool_markers" where
  "observe_tool_markers scan m =
     (case scan of
        None \<Rightarrow> m
      | Some s \<Rightarrow>
          (let had_start = saw_start m;
               start = find_any_tool_start s;
               m1 = (if start \<noteq> None then m\<lparr>saw_start := True\<rparr> else m);
               end_seen =
                 (if had_start then find_any_tool_end s \<noteq> None
                  else case start of None \<Rightarrow> False | Some i \<Rightarrow> find_any_tool_end (drop i s) \<noteq> None) in
           if end_seen then m1\<lparr>saw_end := True\<rparr>
           else if \<not> had_start \<and> start = None \<and> find_any_tool_end s \<noteq> None
           then m1\<lparr>orphan_end := True\<rparr> else m1))"

fun trim_tool_separator_ws :: "string \<Rightarrow> nat \<Rightarrow> nat \<Rightarrow> nat" where
  "trim_tool_separator_ws raw start limit =
     (if limit > start \<and> isspace (raw ! (limit - 1))
      then trim_tool_separator_ws raw start (limit - 1) else limit)"

declare trim_tool_separator_ws.simps [simp del]

definition skip_ascii_ws :: "string \<Rightarrow> string" where
  "skip_ascii_ws p = dropWhile isspace p"

text \<open>The last occurrence: the loop looks for the needle behind every match.\<close>

function find_last_substr_loop :: "string \<Rightarrow> string \<Rightarrow> nat \<Rightarrow> nat option \<Rightarrow> nat option" where
  "find_last_substr_loop s needle p best =
     (if p > length s then best
      else
        (case strstr (drop p s) needle of
           None \<Rightarrow> best
         | Some i \<Rightarrow> find_last_substr_loop s needle (p + i + 1) (Some (p + i))))"
  by pat_completeness auto
termination
  by (relation "measure (\<lambda>(s, needle, p, best). Suc (length s) - p)") auto

declare find_last_substr_loop.simps [simp del]

definition find_last_substr :: "string \<Rightarrow> string \<Rightarrow> nat option" where
  "find_last_substr s needle =
     (if needle = [] then None else find_last_substr_loop s needle 0 None)"

section \<open>Reading DSML text\<close>

definition dsml_entities :: "(string \<times> char) list" where
  "dsml_entities =
     [(''&amp;'', CHR ''&''), (''&lt;'', CHR ''<''), (''&gt;'', CHR ''>''), (''&quot;'', QUOT),
      (''&apos;'', CHR 0x27)]"

function dsml_unescape_text :: "string \<Rightarrow> string" where
  "dsml_unescape_text [] = []"
| "dsml_unescape_text (c # s) =
     (if c \<noteq> CHR ''&'' then c # dsml_unescape_text s
      else
        (case find (\<lambda>e. prefix (fst e) (c # s)) dsml_entities of
           Some (ent, d) \<Rightarrow> d # dsml_unescape_text (drop (length ent - 1) s)
         | None \<Rightarrow> CHR ''&'' # dsml_unescape_text s))"
  by pat_completeness auto
termination
  by (relation "measure length") auto

definition dsml_attr :: "string \<Rightarrow> string \<Rightarrow> string option" where
  "dsml_attr tag name =
     (let pat = name @ ''='' @ DQ in
      case strstr tag pat of
        None \<Rightarrow> None
      | Some i \<Rightarrow>
          (let p = drop (i + length pat) tag in
           case strchr p QUOT of
             None \<Rightarrow> None
           | Some q \<Rightarrow> Some (dsml_unescape_text (take q p))))"

section \<open>Protected text\<close>

text \<open>
  The contract of \<open>protect\<close>: the closing tag begins with a byte that occurs in it only
  once, and the replacement neither holds that byte nor begins with a byte of the tag.  Then
  the first closing tag behind a protected text is the one the renderer wrote.
\<close>

locale guarded_text =
  fixes close rep :: string
  assumes close_ne: "close \<noteq> []"
    and once: "hd close \<notin> set (tl close)"
    and rep_ne: "rep \<noteq> []"
    and rep_open: "hd close \<notin> set rep"
    and rep_hd: "hd rep \<notin> set close"
begin

lemma prefix_close_iff: "prefix close (c # s) \<longleftrightarrow> c = hd close \<and> prefix (tl close) s"
  using close_ne by (cases close) auto

text \<open>A piece of the closing tag that begins the protected text begins the text itself.\<close>

lemma prefix_protect:
  "hd close \<notin> set l \<Longrightarrow> hd rep \<notin> set l \<Longrightarrow> prefix l (protect close rep s @ close @ t)
   \<Longrightarrow> prefix l s"
proof (induction s arbitrary: l)
  case Nil
  then show ?case using close_ne by (cases l; cases close) auto
next
  case (Cons c s)
  show ?case
  proof (cases l)
    case l: (Cons d l')
    have "\<not> prefix close (c # s)"
    proof
      assume "prefix close (c # s)"
      with Cons.prems(3) l rep_ne have "d = hd rep" by (cases rep) auto
      with Cons.prems(2) l show False by simp
    qed
    with Cons.prems l have "c = d" "prefix l' (protect close rep s @ close @ t)" by auto
    with Cons.IH [of l'] Cons.prems(1,2) l show ?thesis by simp
  qed simp
qed

lemma no_hd_skip:
  assumes "hd close \<notin> set r"
  shows "strstr (r @ s) close = map_option (\<lambda>i. length r + i) (strstr s close)"
proof -
  have "\<not> prefix close (drop q (r @ s))" if "q < length r" for q
  proof
    assume p: "prefix close (drop q (r @ s))"
    have "drop q (r @ s) = r ! q # drop (Suc q) (r @ s)"
      using that by (subst Cons_nth_drop_Suc [symmetric]) (auto simp: nth_append)
    with p have "r ! q = hd close" by (simp add: prefix_close_iff)
    with that assms show False using nth_mem by metis
  qed
  then show ?thesis using strstr_skip [of "length r" close "r @ s"] by simp
qed

lemma first_close:
  "strstr (protect close rep s @ close @ t) close = Some (length (protect close rep s))"
proof (induction s)
  case Nil
  show ?case by (simp add: strstr.simps [of "close @ t"])
next
  case (Cons c s)
  show ?case
  proof (cases "prefix close (c # s)")
    case True
    then show ?thesis
      using no_hd_skip [OF rep_open, of "protect close rep s @ close @ t"] Cons.IH by simp
  next
    case False
    have "\<not> prefix close (c # protect close rep s @ close @ t)"
    proof
      assume p: "prefix close (c # protect close rep s @ close @ t)"
      then have "prefix (tl close) (protect close rep s @ close @ t)"
        by (simp add: prefix_close_iff)
      moreover have "hd rep \<notin> set (tl close)" using rep_hd close_ne by (cases close) auto
      ultimately have "prefix (tl close) s" using once prefix_protect by blast
      with p False show False by (simp add: prefix_close_iff)
    qed
    with False Cons.IH show ?thesis by (simp add: strstr_Cons)
  qed
qed

lemma no_close: "strstr (protect close rep s) close = None"
proof (rule ccontr)
  assume "strstr (protect close rep s) close \<noteq> None"
  then obtain i where i: "strstr (protect close rep s) close = Some i" by blast
  have "i + length close \<le> length (protect close rep s)" using i by (rule strstr_SomeD)
  moreover have "strstr (protect close rep s @ close) close = Some i"
    using i calculation by (auto simp: strstr_Some_iff prefix_appendI prefix_append_long)
  ultimately show False using first_close [of s "[]"] close_ne by simp
qed

lemma protect_id: "strstr s close = None \<Longrightarrow> protect close rep s = s"
  by (induction s) (auto simp: strstr_Cons split: if_splits)

lemma protect_skip: "hd close \<notin> set l \<Longrightarrow> protect close rep (l @ s) = l @ protect close rep s"
  by (induction l) (auto simp: prefix_close_iff)

text \<open>At the first closing tag the replacement takes the place of its first byte, and nothing else changes.\<close>

lemma protect_split:
  "strstr p close = None \<Longrightarrow>
    protect close rep (p @ close @ s) = p @ rep @ tl close @ protect close rep s"
proof (induction p)
  case Nil
  obtain c l where c: "close = c # l" using close_ne by (cases close) auto
  show ?case using protect_skip [of l s] once by (simp add: c)
next
  case (Cons c p)
  have p: "strstr p close = None" "\<not> prefix close (c # p)"
    using Cons.prems by (auto simp: strstr_Cons split: if_splits)
  have "\<not> prefix close (c # p @ close @ s)"
  proof
    assume a: "prefix close (c # p @ close @ s)"
    let ?n = "length (c # p)"
    show False
    proof (cases "length close \<le> ?n")
      case True
      have "prefix (c # p) (c # p @ close @ s)" by simp
      with a True have "prefix close (c # p)" by (meson prefix_length_prefix)
      then show False using p(2) by simp
    next
      case False
      obtain z where z: "c # p @ close @ s = close @ z" using a by (auto simp: prefix_def)
      have "close ! ?n = (close @ z) ! ?n" using False by (simp add: nth_append)
      also have "\<dots> = (c # p @ close @ s) ! ?n" by (simp only: z)
      also have "\<dots> = ((c # p) @ close @ s) ! ?n" by simp
      also have "\<dots> = hd close" using close_ne by (simp only: nth_append) (simp add: hd_conv_nth)
      finally have "tl close ! (?n - 1) = hd close" using False by (simp add: nth_tl)
      moreover have "?n - 1 < length (tl close)" using False by simp
      ultimately show False using once nth_mem by metis
    qed
  qed
  then show ?case using Cons.IH [OF p(1)] by simp
qed

end

lemmas tag_defs = syntax_of_def dsml_full_def dsml_short_def dsml_plain_def DS4_DSML_def
  DS4_DSML_SHORT_def BAR_def LOW_def

interpretation param_text: guarded_text "param_end dsml_full" "''&lt;''"
  by unfold_locales (simp_all add: tag_defs)

interpretation param_json: guarded_text "param_end dsml_full" "BSL # ''u003c''"
  by unfold_locales (simp_all add: tag_defs)

interpretation tool_result: guarded_text TOOL_RESULT_END "''&lt;''"
  by unfold_locales (simp_all add: TOOL_RESULT_END_def)

text \<open>C27. Data cannot break out of its wrapper and is otherwise unchanged.  Behind the opening tag of a
  string parameter, of a JSON parameter or of a tool result, the first closing tag is the one the renderer
  writes, whatever the text holds.  A text without that tag is rendered as it is; in any other text the
  piece in front of the first tag is unchanged, the first byte of the tag becomes its escape, its other bytes stay,
  and what follows is rendered in the same way.\<close>

theorem protected_text_closed:
  assumes "strstr p (param_end dsml_full) = None" "strstr r TOOL_RESULT_END = None"
  shows "strstr (append_dsml_parameter_text v @ param_end dsml_full @ t) (param_end dsml_full)
     = Some (length (append_dsml_parameter_text v))
   \<and> strstr (append_dsml_json_literal v @ param_end dsml_full @ t) (param_end dsml_full)
     = Some (length (append_dsml_json_literal v))
   \<and> strstr (append_tool_result_text v @ TOOL_RESULT_END @ t) TOOL_RESULT_END
     = Some (length (append_tool_result_text v))
   \<and> append_dsml_parameter_text (Some p) = p
   \<and> append_dsml_parameter_text (Some (p @ param_end dsml_full @ w))
     = p @ ''&lt;'' @ tl (param_end dsml_full) @ append_dsml_parameter_text (Some w)
   \<and> append_dsml_json_literal (Some p) = p
   \<and> append_dsml_json_literal (Some (p @ param_end dsml_full @ w))
     = p @ (BSL # ''u003c'') @ tl (param_end dsml_full) @ append_dsml_json_literal (Some w)
   \<and> append_tool_result_text (Some r) = r
   \<and> append_tool_result_text (Some (r @ TOOL_RESULT_END @ w))
     = r @ ''&lt;'' @ tl TOOL_RESULT_END @ append_tool_result_text (Some w)"
  unfolding append_dsml_parameter_text_def append_dsml_json_literal_def append_tool_result_text_def
    str_or_empty_simps
  by (intro conjI param_text.first_close param_json.first_close tool_result.first_close
      param_text.protect_id param_json.protect_id tool_result.protect_id
      param_text.protect_split param_json.protect_split tool_result.protect_split assms)

theorem protected_text_closed_witness:
  "append_dsml_json_literal (Some (''[1]'' @ param_end dsml_full @ ''x''))
     = ''[1]'' @ (BSL # ''u003c'') @ tl (param_end dsml_full) @ ''x''
   \<and> append_tool_result_text (Some (''a<b'' @ TOOL_RESULT_END)) = ''a<b&lt;/tool_result>''"
proof -
  have p: "strstr ''[1]'' (param_end dsml_full) = None" "strstr ''x'' (param_end dsml_full) = None"
    "strstr ''a<b'' TOOL_RESULT_END = None" "strstr [] TOOL_RESULT_END = None"
    by (simp_all add: strstr.simps tag_defs TOOL_RESULT_END_def)
  from protected_text_closed [OF p(1,3), of None "[]" "''x''"] protected_text_closed [OF p(1,3), of None "[]" "[]"]
    protected_text_closed [OF p(2,4), of None "[]" "[]"]
  show ?thesis by (simp add: TOOL_RESULT_END_def)
qed

section \<open>Escaped attributes\<close>

text \<open>
  A string codec: a writer and a reader that undoes it.  It makes the writer injective, so two
  values never render alike.
\<close>

locale string_codec =
  fixes esc unesc :: "string \<Rightarrow> string"
  assumes unesc_esc: "unesc (esc s) = s"
begin

lemma esc_inject: "esc s = esc t \<longleftrightarrow> s = t"
  by (metis unesc_esc)

end

lemma dsml_unescape_entity:
  "dsml_unescape_text (dsml_escape_char c @ s) = c # dsml_unescape_text s"
  by (simp add: dsml_escape_char_def dsml_entities_def)

interpretation dsml_attr_codec:
  string_codec "\<lambda>s. append_dsml_attr_escaped (Some s)" dsml_unescape_text
proof
  show "dsml_unescape_text (append_dsml_attr_escaped (Some s)) = s" for s
    by (induction s) (simp_all add: append_dsml_attr_escaped_def dsml_unescape_entity)
qed

interpretation json_codec:
  string_codec json_escape_fragment
    "\<lambda>s. case json_string_body (s @ DQ) of Some (v, _) \<Rightarrow> v | None \<Rightarrow> []"
  by unfold_locales (simp add: json_string_body_escape_fragment)

lemma quot_not_escaped: "QUOT \<notin> set (append_dsml_attr_escaped v)"
  by (auto simp: append_dsml_attr_escaped_def dsml_escape_char_def split: if_splits)

lemma gt_not_escaped: "CHR ''>'' \<notin> set (append_dsml_attr_escaped v)"
  by (auto simp: append_dsml_attr_escaped_def dsml_escape_char_def split: if_splits)

lemma lt_not_escaped: "CHR ''<'' \<notin> set (append_dsml_attr_escaped v)"
  by (auto simp: append_dsml_attr_escaped_def dsml_escape_char_def split: if_splits)

lemma strchr_skip: "c \<notin> set s \<Longrightarrow> strchr (s @ c # t) c = Some (length s)"
  by (induction s) auto

text \<open>The reader of attributes, behind a text in which the attribute does not occur.\<close>

lemma dsml_attr_at:
  assumes "strstr (pre @ name @ ''='' @ DQ @ append_dsml_attr_escaped (Some v) @ DQ @ t)
      (name @ ''='' @ DQ) = Some (length pre)"
  shows "dsml_attr (pre @ name @ ''='' @ DQ @ append_dsml_attr_escaped (Some v) @ DQ @ t) name
    = Some v"
  using assms strchr_skip [OF quot_not_escaped [of "Some v"], of t] dsml_attr_codec.unesc_esc [of v]
  by (simp add: dsml_attr_def Let_def)

section \<open>The live tail\<close>

lemma foldl_nth: "foldl (\<lambda>st i. f st (xs ! i)) st [0..<length xs] = foldl f st xs"
proof -
  have "foldl f st (map ((!) xs) [0..<length xs]) = foldl (\<lambda>st i. f st (xs ! i)) st [0..<length xs]"
    by (simp add: foldl_map)
  then show ?thesis by (simp add: map_nth)
qed

lemma foldl_nth_append:
  "foldl (\<lambda>st i. f st ((xs @ ys) ! i)) st [length xs..<length (xs @ ys)] = foldl f st ys"
proof -
  have "map ((!) (xs @ ys)) [length xs..<length (xs @ ys)] = ys"
    by (rule nth_equalityI) (auto simp: nth_append)
  then show ?thesis by (metis foldl_map)
qed

definition out_after :: "string \<Rightarrow> render_state \<Rightarrow> render_state" where
  "out_after x st = st\<lparr>rs_out := x @ rs_out st\<rparr>"

lemma render_message_out_after:
  "render_message think replay (out_after x st) m = out_after x (render_message think replay st m)"
  by (simp add: render_message_def render_put_def out_after_def)

lemma render_fold_out_after:
  "foldl (render_message think replay) (out_after x st) ms
   = out_after x (foldl (render_message think replay) st ms)"
  by (induction ms arbitrary: st) (simp_all add: render_message_out_after)

lemma render_finish_out_after: "render_finish think (out_after x st) = x @ render_finish think st"
  by (simp add: render_finish_def out_after_def)

lemma render_message_replay:
  "\<not> think \<or> replay \<Longrightarrow> render_message think replay = render_message think True"
  by (intro ext) (auto simp: render_message_def render_assistant_open_def)

definition render_start :: "chat_msgs \<Rightarrow> string option \<Rightarrow> ds4_think_mode \<Rightarrow> render_state" where
  "render_start msgs tool_schemas think_mode =
     \<lparr>rs_out = BEGIN_OF_SENTENCE
        @ (if think_mode = DS4_THINK_MAX then ds4_think_max_prefix else [])
        @ render_system msgs tool_schemas,
      rs_pending_assistant = False, rs_pending_tool_result = False\<rparr>"

lemma render_chat_replay:
  assumes "ds4_think_mode_enabled mode \<longrightarrow> chat_history_uses_tool_context msgs schemas"
  shows "render_chat_prompt_text msgs schemas mode =
    render_finish (ds4_think_mode_enabled mode)
      (foldl (render_message (ds4_think_mode_enabled mode) True) (render_start msgs schemas mode) msgs)"
proof -
  have "render_message (ds4_think_mode_enabled mode)
      (chat_history_uses_tool_context msgs schemas \<or> int i > last_user_idx msgs)
    = render_message (ds4_think_mode_enabled mode) True" for i
    using assms by (intro render_message_replay) auto
  then show ?thesis
    unfolding render_chat_prompt_text_def Let_def render_start_def by (simp add: foldl_nth)
qed

lemma render_system_append:
  assumes "\<forall>m\<in>set ms. \<not> role_is_system (cm_role m)"
  shows "render_system (msgs @ ms) schemas = render_system msgs schemas"
proof -
  have "foldl (\<lambda>sys m. if role_is_system (cm_role m)
      then sys @ (if sys \<noteq> [] then NL @ NL else []) @ str_or_empty (cm_content m) else sys) x ms = x"
    for x :: string using assms by (induction ms) auto
  then show ?thesis by (simp add: render_system_def)
qed

lemma tool_context_append:
  "chat_history_uses_tool_context msgs schemas \<Longrightarrow>
   chat_history_uses_tool_context (msgs @ ms) schemas"
  by (auto simp: chat_history_uses_tool_context_def)

lemma render_assistant_last:
  assumes "cm_role m = Some ''assistant''"
  obtains x where "render_message think replay st m =
    out_after x \<lparr>rs_out = END_OF_SENTENCE, rs_pending_assistant = False, rs_pending_tool_result = False\<rparr>"
proof -
  have "render_message think replay st m =
    out_after (rs_out st @ (if rs_pending_assistant st then render_assistant_open think replay m else [])
      @ str_or_empty (cm_content m) @ append_dsml_tool_calls_text (cm_calls m))
     \<lparr>rs_out = END_OF_SENTENCE, rs_pending_assistant = False, rs_pending_tool_result = False\<rparr>"
    using assms
    by (simp add: render_message_def role_is_system_def role_is_tool_def render_put_def out_after_def)
  then show ?thesis by (rule that)
qed

text \<open>C22. The live tail is exactly what a full re-rendering would append: when the transcript
  ends with the assistant turn that is already in the session, the prompt of the continued
  conversation is the old prompt up to that turn's end mark followed by the tail that
  \<open>render_live_tool_tail\<close> produces from the new messages alone, for every thinking mode.\<close>

theorem live_tool_tail_equals_replay:
  assumes "msgs \<noteq> []" "cm_role (last msgs) = Some ''assistant''"
    and "\<forall>m\<in>set ms. \<not> role_is_system (cm_role m)"
    and "ds4_think_mode_enabled mode \<longrightarrow> chat_history_uses_tool_context msgs schemas"
  shows "\<exists>x. render_chat_prompt_text msgs schemas mode = x @ END_OF_SENTENCE
     \<and> render_chat_prompt_text (msgs @ ms) schemas mode
       = x @ render_live_tool_tail (msgs @ ms) (length msgs) mode"
proof -
  let ?think = "ds4_think_mode_enabled mode"
  let ?e = "\<lparr>rs_out = END_OF_SENTENCE, rs_pending_assistant = False, rs_pending_tool_result = False\<rparr>"
  obtain x where x: "render_message ?think True
      (foldl (render_message ?think True) (render_start msgs schemas mode) (butlast msgs)) (last msgs)
    = out_after x ?e"
    using render_assistant_last [OF assms(2)] by blast
  have st: "foldl (render_message ?think True) (render_start msgs schemas mode) msgs = out_after x ?e"
    using x assms(1) by (cases msgs rule: rev_cases) simp_all
  have "render_chat_prompt_text msgs schemas mode = x @ END_OF_SENTENCE"
    using render_chat_replay [OF assms(4)]
    by (simp add: st render_finish_out_after) (simp add: render_finish_def)
  moreover have "render_start (msgs @ ms) schemas mode = render_start msgs schemas mode"
    by (simp add: render_start_def render_system_append [OF assms(3)])
  moreover have "?think \<longrightarrow> chat_history_uses_tool_context (msgs @ ms) schemas"
    using assms(4) tool_context_append by blast
  moreover have "render_live_tool_tail (msgs @ ms) (length msgs) mode
      = render_finish ?think (foldl (render_message ?think True) ?e ms)"
    unfolding render_live_tool_tail_def Let_def foldl_nth_append ..
  ultimately show ?thesis
    using render_chat_replay [of mode "msgs @ ms" schemas]
    by (intro exI [of _ x]) (simp add: st render_fold_out_after render_finish_out_after)
qed

theorem live_tool_tail_equals_replay_witness:
  "\<exists>x. render_chat_prompt_text
       [empty_chat_msg\<lparr>cm_role := Some ''user''\<rparr>, empty_chat_msg\<lparr>cm_role := Some ''assistant''\<rparr>]
       None DS4_THINK_NONE = x @ END_OF_SENTENCE
     \<and> render_chat_prompt_text
       ([empty_chat_msg\<lparr>cm_role := Some ''user''\<rparr>, empty_chat_msg\<lparr>cm_role := Some ''assistant''\<rparr>]
         @ [empty_chat_msg\<lparr>cm_role := Some ''tool'', cm_content := Some ''ok''\<rparr>]) None DS4_THINK_NONE
       = x @ render_live_tool_tail
           ([empty_chat_msg\<lparr>cm_role := Some ''user''\<rparr>, empty_chat_msg\<lparr>cm_role := Some ''assistant''\<rparr>]
             @ [empty_chat_msg\<lparr>cm_role := Some ''tool'', cm_content := Some ''ok''\<rparr>])
           (length [empty_chat_msg\<lparr>cm_role := Some ''user''\<rparr>, empty_chat_msg\<lparr>cm_role := Some ''assistant''\<rparr>])
           DS4_THINK_NONE"
  by (rule live_tool_tail_equals_replay) code_simp+

section \<open>Searching from the end\<close>

lemma find_last_substr_loop_spec:
  assumes "needle \<noteq> []"
    and "\<forall>i<p. prefix needle (drop i s) \<longrightarrow> (\<exists>b. best = Some b \<and> i \<le> b)"
    and "\<forall>b. best = Some b \<longrightarrow> b < p \<and> prefix needle (drop b s)"
  shows "(case find_last_substr_loop s needle p best of
      None \<Rightarrow> \<forall>i. \<not> prefix needle (drop i s)
    | Some b \<Rightarrow> prefix needle (drop b s) \<and> (\<forall>i>b. \<not> prefix needle (drop i s)))"
  using assms
proof (induction s needle p best rule: find_last_substr_loop.induct)
  case (1 s needle p best)
  have stop: ?case if out: "find_last_substr_loop s needle p best = best"
    and none: "\<forall>i\<ge>p. \<not> prefix needle (drop i s)"
  proof (cases best)
    case None
    then show ?thesis using out none 1(3) by (auto simp: not_le) (metis not_le)
  next
    case (Some b)
    then show ?thesis using out none 1(3,4) by (auto simp: not_le) (metis not_le)
  qed
  show ?case
  proof (cases "p > length s")
    case True
    with 1(2) show ?thesis
      by (intro stop) (auto simp: find_last_substr_loop.simps)
  next
    case False
    show ?thesis
    proof (cases "strstr (drop p s) needle")
      case None
      have "\<not> prefix needle (drop i s)" if "i \<ge> p" for i
      proof (cases "i \<le> length s")
        case True
        then show ?thesis
          using None that by (auto simp: strstr_None_iff dest: spec [of _ "i - p"])
      qed (use 1(2) in auto)
      with None False show ?thesis
        by (intro stop) (auto simp: find_last_substr_loop.simps)
    next
      case (Some i)
      have k: "prefix needle (drop (p + i) s)" "\<forall>j<i. \<not> prefix needle (drop (p + j) s)"
        using Some by (auto simp: strstr_Some_iff add.commute)
      have "\<exists>b. Some (p + i) = Some b \<and> j \<le> b" if "j < p + i + 1" for j
        using that by auto
      with k 1(1) [OF False Some 1(2)] show ?thesis
        by (subst find_last_substr_loop.simps) (use False Some in simp)
    qed
  qed
qed

lemma find_last_substr_Some:
  "find_last_substr s needle = Some b \<Longrightarrow>
   prefix needle (drop b s) \<and> (\<forall>i>b. \<not> prefix needle (drop i s))"
  using find_last_substr_loop_spec [of needle 0 s None]
  by (auto simp: find_last_substr_def split: if_splits)

lemma find_last_substr_None:
  assumes "needle \<noteq> []"
  shows "find_last_substr s needle = None \<longleftrightarrow> strstr s needle = None"
proof (cases "find_last_substr s needle")
  case None
  then have "\<forall>i. \<not> prefix needle (drop i s)"
    using find_last_substr_loop_spec [of needle 0 s None] assms by (simp add: find_last_substr_def)
  with None show ?thesis by (simp add: strstr_None_iff)
next
  case (Some b)
  then have p: "prefix needle (drop b s)" by (rule find_last_substr_Some [THEN conjunct1])
  then have "b \<le> length s" using assms by (cases "b \<le> length s") auto
  with p Some show ?thesis by (auto simp: strstr_None_iff)
qed

end
