(* ===== verification/DsmlParse.thy ===== *)
theory DsmlParse
  imports Dsml
begin

text \<open>
  The reader of generated messages of \<open>ds4_server.c\<close> (lines 4921 to 5400): DSML parameters,
  the split of reasoning and content, \<open>parse_generated_message_ex\<close>, the repair of truncated
  blocks, the policy around a failed parse, and the JSON form of the calls.
\<close>

section \<open>Parameters\<close>

definition tool_call_json_args_add ::
  "string \<Rightarrow> string option \<Rightarrow> string option \<Rightarrow> string option \<Rightarrow> string" where
  "tool_call_json_args_add args name value is_string =
     args @ (if args \<noteq> [] then '', '' else []) @ json_escape (str_or_empty name) @ '': ''
     @ (if is_string = Some ''true'' then json_escape (str_or_empty value)
        else
          let min = json_minify_raw_value (case value of None \<Rightarrow> ''null'' | Some v \<Rightarrow> v) in
          if min \<noteq> [] then min else ''null'')"

text \<open>A tag up to its first \<open>>\<close>, and what follows it.\<close>

definition read_tag :: "string \<Rightarrow> (string \<times> string) option" where
  "read_tag p =
     (case strchr p (CHR ''>'') of
        None \<Rightarrow> None
      | Some i \<Rightarrow> Some (take (Suc i) p, drop (Suc i) p))"

text \<open>A value up to its closing tag, decoded by its type.\<close>

definition read_param_value ::
  "dsml_syntax \<Rightarrow> string \<Rightarrow> string option \<Rightarrow> string \<Rightarrow> string \<Rightarrow> (string \<times> string) option" where
  "read_param_value syn name is_string value_start args =
     (case strstr value_start (param_end syn) of
        None \<Rightarrow> None
      | Some i \<Rightarrow>
          (let raw_value = take i value_start;
               type = (case is_string of None \<Rightarrow> ''true'' | Some t \<Rightarrow> t);
               v = (if type = ''true'' then dsml_unescape_text raw_value else raw_value) in
           Some (tool_call_json_args_add args (Some name) (Some v) (Some type),
                 drop (i + length (param_end syn)) value_start)))"

definition dsml_parse_leaf_param_json ::
  "dsml_syntax \<Rightarrow> string \<Rightarrow> string \<Rightarrow> (string \<times> string) option" where
  "dsml_parse_leaf_param_json syn p out =
     (if \<not> prefix (param_start syn) p then None
      else
        (case read_tag p of
           None \<Rightarrow> None
         | Some (tag, value_start) \<Rightarrow>
             (case dsml_attr tag ''name'' of
                None \<Rightarrow> None
              | Some name \<Rightarrow>
                  read_param_value syn name (dsml_attr tag ''string'') value_start out)))"

lemma read_tag_length: "read_tag p = Some (tag, q) \<Longrightarrow> length q < length p"
  by (auto simp: read_tag_def strchr_Some_iff split: option.splits)

lemma read_param_value_length:
  "read_param_value syn name ty p args = Some (args', q) \<Longrightarrow> length q \<le> length p"
  by (auto simp: read_param_value_def Let_def split: option.splits)

lemma leaf_param_length:
  "dsml_parse_leaf_param_json syn p out = Some (out', q) \<Longrightarrow> length q < length p"
  by (auto simp: dsml_parse_leaf_param_json_def split: if_splits option.splits
      dest!: read_tag_length read_param_value_length)

lemma skip_ascii_ws_length: "length (skip_ascii_ws p) \<le> length p"
  by (simp add: skip_ascii_ws_def length_dropWhile_le)

text \<open>The loop over child parameters; \<open>any\<close> is that one was read.\<close>

function nested_params_loop ::
  "dsml_syntax \<Rightarrow> string \<Rightarrow> string \<Rightarrow> bool \<Rightarrow> (string \<times> bool \<times> string) option" where
  "nested_params_loop syn p0 members any =
     (let p = skip_ascii_ws p0 in
      if \<not> prefix (param_start syn) p then Some (members, any, p)
      else
        (case dsml_parse_leaf_param_json syn p members of
           None \<Rightarrow> None
         | Some (members', q) \<Rightarrow> nested_params_loop syn q members' True))"
  by pat_completeness auto
termination
proof (relation "measure (\<lambda>(syn, p, members, any). length p)")
  fix syn :: dsml_syntax and p0 members :: string and any :: bool and p x members' q
  assume "p = skip_ascii_ws p0" "dsml_parse_leaf_param_json syn p members = Some x"
    "(members', q) = x"
  then have "length q < length (skip_ascii_ws p0)" using leaf_param_length by metis
  then show "((syn, q, members', True), (syn, p0, members, any))
      \<in> measure (\<lambda>(syn, p, members, any). length p)"
    using skip_ascii_ws_length [of p0] by simp
qed simp

declare nested_params_loop.simps [simp del]

definition dsml_parse_nested_params_object ::
  "dsml_syntax \<Rightarrow> string \<Rightarrow> (string \<times> string) option" where
  "dsml_parse_nested_params_object syn p =
     (case nested_params_loop syn p [] False of
        None \<Rightarrow> None
      | Some (members, any, q) \<Rightarrow> if any then Some (''{'' @ members @ ''}'', q) else None)"

text \<open>
  One parameter of a call (the body of the inner loop): a parameter without a type whose
  value begins with a child parameter is an object of its children.
\<close>

definition parse_param :: "dsml_syntax \<Rightarrow> string \<Rightarrow> string \<Rightarrow> (string \<times> string) option" where
  "parse_param syn p args =
     (case read_tag p of
        None \<Rightarrow> None
      | Some (tag, value_start) \<Rightarrow>
          (case dsml_attr tag ''name'' of
             None \<Rightarrow> None
           | Some name \<Rightarrow>
               if dsml_attr tag ''string'' = None
                  \<and> prefix (param_start syn) (skip_ascii_ws value_start)
               then
                 (case dsml_parse_nested_params_object syn value_start of
                    None \<Rightarrow> None
                  | Some (nested, q0) \<Rightarrow>
                      (let q = skip_ascii_ws q0 in
                       Some (tool_call_json_args_add args (Some name) (Some nested) (Some ''false''),
                             if prefix (param_end syn) q then drop (length (param_end syn)) q else q)))
               else read_param_value syn name (dsml_attr tag ''string'') value_start args))"

lemma nested_params_loop_length:
  "nested_params_loop syn p members any = Some (m, a, q) \<Longrightarrow> length q \<le> length p"
proof (induction syn p members any rule: nested_params_loop.induct)
  case (1 syn p members any)
  show ?case
  proof (cases "prefix (param_start syn) (skip_ascii_ws p)")
    case True
    with 1(2) obtain members' r where
      r: "dsml_parse_leaf_param_json syn (skip_ascii_ws p) members = Some (members', r)"
        "nested_params_loop syn r members' True = Some (m, a, q)"
      by (subst (asm) nested_params_loop.simps) (auto simp: Let_def split: option.splits)
    have "length q \<le> length r" using 1(1) [OF refl _ r(1) refl r(2)] True by simp
    with leaf_param_length [OF r(1)] skip_ascii_ws_length [of p] show ?thesis by simp
  next
    case False
    with 1(2) skip_ascii_ws_length [of p] show ?thesis
      by (subst (asm) nested_params_loop.simps) (auto simp: Let_def)
  qed
qed

lemma parse_param_length: "parse_param syn p args = Some (args', q) \<Longrightarrow> length q < length p"
proof -
  assume a: "parse_param syn p args = Some (args', q)"
  then obtain tag r name where r: "read_tag p = Some (tag, r)" "dsml_attr tag ''name'' = Some name"
    by (auto simp: parse_param_def split: option.splits)
  have w: "length (skip_ascii_ws x) \<le> length x" for x by (rule skip_ascii_ws_length)
  have n: "length y \<le> length r" if "dsml_parse_nested_params_object syn r = Some (x, y)" for x y
    using that by (auto simp: dsml_parse_nested_params_object_def split: option.splits if_splits
        dest!: nested_params_loop_length)
  have "length q \<le> length r"
    using a r w n
    by (fastforce simp: parse_param_def Let_def split: if_splits option.splits
        dest: read_param_value_length intro: le_trans diff_le_self [THEN le_trans])
  with read_tag_length [OF r(1)] show ?thesis by simp
qed

function parse_params ::
  "dsml_syntax \<Rightarrow> string \<Rightarrow> string \<Rightarrow> (string \<times> string) option" where
  "parse_params syn p0 args =
     (let p = skip_ascii_ws p0 in
      if prefix (invoke_end syn) p then Some (args, drop (length (invoke_end syn)) p)
      else if \<not> prefix (param_start syn) p then None
      else
        (case parse_param syn p args of
           None \<Rightarrow> None
         | Some (args', q) \<Rightarrow> parse_params syn q args'))"
  by pat_completeness auto
termination
proof (relation "measure (\<lambda>(syn, p, args). length p)")
  fix syn :: dsml_syntax and p0 args :: string and p x args' q
  assume "p = skip_ascii_ws p0" "parse_param syn p args = Some x" "(args', q) = x"
  then have "length q < length (skip_ascii_ws p0)" using parse_param_length by metis
  then show "((syn, q, args'), (syn, p0, args)) \<in> measure (\<lambda>(syn, p, args). length p)"
    using skip_ascii_ws_length [of p0] by simp
qed simp

declare parse_params.simps [simp del]

lemma parse_params_length:
  "parse_params syn p args = Some (args', q) \<Longrightarrow> length q \<le> length p"
proof (induction syn p args rule: parse_params.induct)
  case (1 syn p args)
  show ?case
  proof (cases "prefix (invoke_end syn) (skip_ascii_ws p)")
    case True
    with 1(2) skip_ascii_ws_length [of p] show ?thesis
      by (subst (asm) parse_params.simps) (auto simp: Let_def)
  next
    case False
    with 1(2) obtain args1 r where r: "prefix (param_start syn) (skip_ascii_ws p)"
      "parse_param syn (skip_ascii_ws p) args = Some (args1, r)"
      "parse_params syn r args1 = Some (args', q)"
      by (subst (asm) parse_params.simps) (auto simp: Let_def split: option.splits if_splits)
    have "length q \<le> length r" using 1(1) [OF refl False _ r(2) refl r(3)] r(1) by simp
    with parse_param_length [OF r(2)] skip_ascii_ws_length [of p] show ?thesis by simp
  qed
qed

section \<open>Messages\<close>

definition split_reasoning_content :: "string \<Rightarrow> nat \<Rightarrow> string option \<times> string option" where
  "split_reasoning_content txt n =
     (let s = take n txt;
          body = (if prefix ''<think>'' s then drop 7 s else s) in
      case strstr body ''</think>'' of
        Some i \<Rightarrow> (Some (drop (i + 8) body), Some (take i body))
      | None \<Rightarrow> (Some s, None))"

text \<open>The out-parameters; a failed parse leaves the first two and may have pushed calls.\<close>

record parsed_message =
  pm_content :: "string option"
  pm_reasoning :: "string option"
  pm_calls :: tool_calls

definition pm_split :: "string \<Rightarrow> nat \<Rightarrow> tool_calls \<Rightarrow> parsed_message" where
  "pm_split txt n calls =
     (case split_reasoning_content txt n of
        (c, r) \<Rightarrow> \<lparr>pm_content = c, pm_reasoning = r, pm_calls = calls\<rparr>)"

fun first_match :: "string \<Rightarrow> (string \<times> 'a) list \<Rightarrow> (nat \<times> 'a) option" where
  "first_match s [] = None"
| "first_match s ((lit, x) # rest) =
     (case strstr s lit of Some i \<Rightarrow> Some (i, x) | None \<Rightarrow> first_match s rest)"

definition generated_tool_start :: "string \<Rightarrow> (nat \<times> dsml_syntax) option" where
  "generated_tool_start s =
     first_match s
       [(NL @ NL @ tool_calls_start dsml_full, dsml_full), (tool_calls_start dsml_full, dsml_full),
        (NL @ NL @ tool_calls_start dsml_short, dsml_short), (tool_calls_start dsml_short, dsml_short),
        (NL @ NL @ ''<tool_calls>'', dsml_plain), (''<tool_calls>'', dsml_plain)]"

text \<open>White space and repeated opening markers.\<close>

function skip_tool_starts :: "dsml_syntax \<Rightarrow> string \<Rightarrow> string" where
  "skip_tool_starts syn p0 =
     (case skip_ascii_ws p0 of
        [] \<Rightarrow> []
      | c # q \<Rightarrow>
          if prefix (tool_calls_start syn) (c # q)
          then skip_tool_starts syn (drop (length (tool_calls_start syn) - 1) q)
          else c # q)"
  by pat_completeness auto
termination
proof (relation "measure (\<lambda>(syn, p). length p)")
  fix syn :: dsml_syntax and p0 c q
  assume "skip_ascii_ws p0 = c # q"
  then have "length q < length p0" using skip_ascii_ws_length [of p0] by simp
  then show "((syn, drop (length (tool_calls_start syn) - 1) q), (syn, p0))
      \<in> measure (\<lambda>(syn, p). length p)" by simp
qed simp

declare skip_tool_starts.simps [simp del]

lemma skip_tool_starts_length: "length (skip_tool_starts syn p) \<le> length p"
proof (induction syn p rule: skip_tool_starts.induct)
  case (1 syn p)
  show ?case
  proof (cases "skip_ascii_ws p")
    case (Cons c q)
    have "length q \<le> length p" using Cons skip_ascii_ws_length [of p] by simp
    with 1 [OF Cons] Cons skip_ascii_ws_length [of p] show ?thesis
      by (subst skip_tool_starts.simps) (auto intro: le_trans [OF _ diff_le_self [THEN le_trans]])
  qed (simp add: skip_tool_starts.simps)
qed

definition push_generated_call :: "tool_calls \<Rightarrow> string \<Rightarrow> string \<Rightarrow> tool_calls" where
  "push_generated_call calls name args =
     tool_calls_push calls
       \<lparr>tc_id = None, tc_name = Some name, tc_arguments = Some (''{'' @ args @ ''}'')\<rparr>"

text \<open>The loop over calls: the calls read, and the rest behind the block unless it fails.\<close>

function parse_invokes ::
  "dsml_syntax \<Rightarrow> string \<Rightarrow> tool_calls \<Rightarrow> tool_calls \<times> string option" where
  "parse_invokes syn p0 calls =
     (let p = skip_tool_starts syn p0 in
      if prefix (tool_calls_end syn) p
      then (calls, Some (drop (length (tool_calls_end syn)) p))
      else if \<not> prefix (invoke_start syn) p then (calls, None)
      else
        (case read_tag p of
           None \<Rightarrow> (calls, None)
         | Some (tag, q) \<Rightarrow>
             (case dsml_attr tag ''name'' of
                None \<Rightarrow> (calls, None)
              | Some name \<Rightarrow>
                  (case parse_params syn q [] of
                     None \<Rightarrow> (calls, None)
                   | Some (args, r) \<Rightarrow>
                       parse_invokes syn r (push_generated_call calls name args)))))"
  by pat_completeness auto
termination
proof (relation "measure (\<lambda>(syn, p, calls). length p)")
  fix syn :: dsml_syntax and p0 and calls :: tool_calls and p x tag q name y args r
  assume "p = skip_tool_starts syn p0" "read_tag p = Some x" "(tag, q) = x"
    "parse_params syn q [] = Some y" "(args, r) = y"
  then have "length r \<le> length q" "length q < length p" "length p \<le> length p0"
    using parse_params_length read_tag_length skip_tool_starts_length by metis+
  then show "((syn, r, push_generated_call calls name args), (syn, p0, calls))
      \<in> measure (\<lambda>(syn, p, calls). length p)" by simp
qed simp

declare parse_invokes.simps [simp del]

definition parse_tool_block ::
  "string \<Rightarrow> nat \<Rightarrow> dsml_syntax \<Rightarrow> parsed_message \<Rightarrow> bool \<times> parsed_message" where
  "parse_tool_block txt start syn pm =
     (let content_len = trim_tool_separator_ws txt 0 start;
          block = drop start txt in
      case strstr block (tool_calls_start syn) of
        None \<Rightarrow> (False, pm)
      | Some i \<Rightarrow>
          (case parse_invokes syn (drop (i + length (tool_calls_start syn)) block) (pm_calls pm) of
             (calls, None) \<Rightarrow> (False, pm\<lparr>pm_calls := calls\<rparr>)
           | (calls, Some r) \<Rightarrow>
               (True, pm_split txt content_len
                  (calls\<lparr>tcs_raw_dsml := Some (take (length block - length r) block)\<rparr>))))"

definition parse_generated_message_ex ::
  "string option \<Rightarrow> bool \<Rightarrow> parsed_message \<Rightarrow> bool \<times> parsed_message" where
  "parse_generated_message_ex text0 require_thinking_closed pm =
     (let txt = str_or_empty text0;
          think_end = find_last_substr txt ''</think>'';
          plain = (True, pm_split txt (length txt) (pm_calls pm)) in
      if require_thinking_closed \<and> think_end = None then plain
      else
        (let base = (if require_thinking_closed then (case think_end of Some i \<Rightarrow> i + 8 | None \<Rightarrow> 0)
             else 0) in
         case generated_tool_start (drop base txt) of
           None \<Rightarrow> plain
         | Some (i, syn) \<Rightarrow> parse_tool_block txt (base + i) syn pm))"

section \<open>Repairing a truncated block\<close>

text \<open>The style of the block: the tags in the order of the scan.\<close>

definition syntax_tags :: "dsml_syntax \<Rightarrow> string list" where
  "syntax_tags syn =
     [tool_calls_start syn, tool_calls_end syn, invoke_start syn, invoke_end syn,
      param_start syn, param_end syn]"

definition repair_style :: "string \<Rightarrow> dsml_syntax option" where
  "repair_style scan = find (\<lambda>syn. strstr scan (tool_calls_start syn) \<noteq> None) dsml_syntaxes"

definition tag_at :: "string list \<Rightarrow> string \<Rightarrow> nat option" where
  "tag_at tags p = find (\<lambda>i. tags ! i \<noteq> [] \<and> prefix (tags ! i) p) [0..<length tags]"

text \<open>The scan: one counter per tag.\<close>

function count_tags :: "string list \<Rightarrow> string \<Rightarrow> nat list \<Rightarrow> nat list" where
  "count_tags tags p counts =
     (case p of
        [] \<Rightarrow> counts
      | _ # q \<Rightarrow>
          (case tag_at tags p of
             Some i \<Rightarrow> count_tags tags (drop (length (tags ! i)) p) (counts[i := counts ! i + 1])
           | None \<Rightarrow> count_tags tags q counts))"
  by pat_completeness auto
termination
  by (relation "measure (\<lambda>(tags, p, counts). length p)")
    (auto simp: tag_at_def dest!: find_SomeD)

declare count_tags.simps [simp del]

definition repair_scan :: "string \<Rightarrow> string" where
  "repair_scan s =
     (case find_last_substr s ''</think>'' of None \<Rightarrow> s | Some i \<Rightarrow> drop (i + 8) s)"

definition repair_counts :: "string \<Rightarrow> (dsml_syntax \<times> nat list) option" where
  "repair_counts s =
     (case repair_style (repair_scan s) of
        None \<Rightarrow> None
      | Some syn \<Rightarrow> Some (syn, count_tags (syntax_tags syn) (repair_scan s) [0, 0, 0, 0, 0, 0]))"

definition repair_suffix :: "dsml_syntax \<Rightarrow> nat \<Rightarrow> nat \<Rightarrow> nat \<Rightarrow> string" where
  "repair_suffix syn n_param n_invoke n_tool =
     concat (replicate n_param (param_end syn)) @ concat (replicate n_invoke (invoke_end syn))
     @ concat (replicate n_tool (tool_calls_end syn))"

definition try_repair_dsml :: "string \<Rightarrow> string option" where
  "try_repair_dsml s =
     (if s = [] then None
      else
        (case repair_counts s of
           None \<Rightarrow> None
         | Some (syn, n) \<Rightarrow>
             if n ! 0 = n ! 1 \<and> n ! 2 = n ! 3 \<and> n ! 4 = n ! 5 then None
             else if n ! 1 > n ! 0 \<or> n ! 3 > n ! 2 \<or> n ! 5 > n ! 4 then None
             else Some (s @ repair_suffix syn (n ! 4 - n ! 5) (n ! 2 - n ! 3) (n ! 0 - n ! 1))))"

text \<open>
  The completion of a truncated block in \<open>generate_job\<close>: the repaired text replaces the
  generated one when it parses and yields a call.
\<close>

definition complete_truncation :: "string \<Rightarrow> string option" where
  "complete_truncation s =
     (case try_repair_dsml s of
        None \<Rightarrow> None
      | Some repaired \<Rightarrow>
          (case parse_generated_message_ex (Some repaired) False
             \<lparr>pm_content = None, pm_reasoning = None, pm_calls = empty_tool_calls\<rparr> of
             (ok, pm) \<Rightarrow> if ok \<and> tcs_v (pm_calls pm) \<noteq> [] then Some repaired else None))"

section \<open>What a response reports\<close>

definition tool_parse_failure_recovery_finish :: "string option \<Rightarrow> string" where
  "tool_parse_failure_recovery_finish finish =
     (if finish = Some ''length'' then ''length'' else ''stop'')"

text \<open>
  \<open>parse_generated_message_for_response\<close>: the out-parameters of the parse, and the finish
  reason, the error text and the recovered flag it leaves.
\<close>

record response_parse =
  rp_ok :: bool
  rp_msg :: parsed_message
  rp_finish :: "string option"
  rp_err :: "string option"
  rp_recovered :: bool

definition drop_unauthorized_calls :: "parsed_message \<Rightarrow> parsed_message" where
  "drop_unauthorized_calls pm =
     \<lparr>pm_content =
        (if \<not> nonempty_opt (pm_content pm) \<and> nonempty_opt (pm_reasoning pm)
         then pm_reasoning pm else pm_content pm),
      pm_reasoning = None, pm_calls = empty_tool_calls\<rparr>"

definition parse_generated_message_for_response ::
  "string option \<Rightarrow> bool \<Rightarrow> bool \<Rightarrow> bool \<Rightarrow> string option \<Rightarrow> string option \<Rightarrow> parsed_message
   \<Rightarrow> response_parse" where
  "parse_generated_message_for_response txt has_tools saw_tool_start require_thinking_closed
     finish err pm0 =
     (case parse_generated_message_ex txt require_thinking_closed pm0 of
        (True, pm) \<Rightarrow>
          (let unauthorized = (\<not> has_tools \<and> tcs_v (pm_calls pm) \<noteq> []) in
           \<lparr>rp_ok = True,
            rp_msg = (if unauthorized then drop_unauthorized_calls pm else pm),
            rp_finish = (if unauthorized \<and> finish = Some ''tool_calls'' then Some ''stop'' else finish),
            rp_err = err, rp_recovered = False\<rparr>)
      | (False, pm) \<Rightarrow>
          (let fin = (case finish of None \<Rightarrow> ''stop'' | Some f \<Rightarrow> f);
               recover = (has_tools \<and> saw_tool_start \<and> fin \<noteq> ''error'') in
           \<lparr>rp_ok = False,
            rp_msg = \<lparr>pm_content = Some (str_or_empty txt), pm_reasoning = None,
                      pm_calls = empty_tool_calls\<rparr>,
            rp_finish =
              (if recover then Some (tool_parse_failure_recovery_finish (Some fin)) else finish),
            rp_err = (if recover then Some ''invalid tool call'' else err),
            rp_recovered = recover\<rparr>))"

section \<open>Calls as JSON\<close>

definition append_json_object_string :: "string option \<Rightarrow> string" where
  "append_json_object_string json = json_escape (append_json_object_or_empty json)"

text \<open>\<open>snprintf\<close> into the 128 bytes of \<open>idbuf\<close> keeps 127.\<close>

definition generated_call_id :: "string \<Rightarrow> nat \<Rightarrow> string" where
  "generated_call_id id_prefix i = take 127 (id_prefix @ ''_tool_'' @ dec_str i)"

definition json_key :: "string \<Rightarrow> string" where
  "json_key k = DQ @ k @ DQ @ '':''"

definition tool_call_function_json :: "string \<Rightarrow> nat \<Rightarrow> tool_call \<Rightarrow> string" where
  "tool_call_function_json id_prefix i tc =
     json_key ''id''
     @ json_escape (case tc_id tc of Some x \<Rightarrow> x | None \<Rightarrow> generated_call_id id_prefix i)
     @ '','' @ json_key ''type'' @ DQ @ ''function'' @ DQ @ '','' @ json_key ''function'' @ ''{''
     @ json_key ''name'' @ json_escape (str_or_empty (tc_name tc))
     @ '','' @ json_key ''arguments'' @ append_json_object_string (tc_arguments tc) @ ''}}''"

definition append_tool_calls_json :: "tool_calls \<Rightarrow> string \<Rightarrow> string" where
  "append_tool_calls_json calls id_prefix =
     ''['' @ comma_join (map (\<lambda>i. ''{'' @ tool_call_function_json id_prefix i (tcs_v calls ! i))
       [0..<length (tcs_v calls)]) @ '']''"

definition append_tool_call_deltas_json :: "tool_calls \<Rightarrow> string \<Rightarrow> string" where
  "append_tool_call_deltas_json calls id_prefix =
     ''['' @ comma_join (map (\<lambda>i. ''{'' @ json_key ''index'' @ dec_str i @ '',''
         @ tool_call_function_json id_prefix i (tcs_v calls ! i))
       [0..<length (tcs_v calls)]) @ '']''"

section \<open>Tags do not straddle\<close>

text \<open>
  Every tag begins with the one byte \<open><\<close> it holds, so no tag begins inside a text and ends
  in a tag appended to it.
\<close>

definition lt_tag :: "string \<Rightarrow> bool" where
  "lt_tag lit \<longleftrightarrow> lit \<noteq> [] \<and> hd lit = CHR ''<'' \<and> CHR ''<'' \<notin> set (tl lit)"

definition tag_start :: "string \<Rightarrow> bool" where
  "tag_start x \<longleftrightarrow> x = [] \<or> hd x = CHR ''<''"

lemma prefix_straddle:
  assumes "lt_tag lit" "tag_start x" "s \<noteq> []"
  shows "prefix lit (s @ x) \<longleftrightarrow> prefix lit s"
proof
  assume p: "prefix lit (s @ x)"
  show "prefix lit s"
  proof (rule ccontr)
    assume n: "\<not> prefix lit s"
    then obtain y where y: "lit = s @ y" "y \<noteq> []"
      using p by (auto simp: prefix_append)
    then have "prefix y x" using p by (auto simp: prefix_append)
    then have "hd y = CHR ''<''" using y(2) assms(2) by (cases y; cases x) (auto simp: tag_start_def)
    moreover have "hd y \<in> set (tl lit)" using y assms(3) by (cases s; cases y) auto
    ultimately show False using assms(1) by (simp add: lt_tag_def)
  qed
qed (rule prefix_appendI)

lemma strstr_append_tag:
  assumes "lt_tag lit" "tag_start x"
  shows "strstr (s @ x) lit =
    (case strstr s lit of Some i \<Rightarrow> Some i | None \<Rightarrow> map_option (\<lambda>i. length s + i) (strstr x lit))"
proof (induction s)
  case Nil
  show ?case
    using assms(1) by (cases "strstr x lit") (simp_all add: strstr_Nil lt_tag_def)
next
  case (Cons c s)
  then show ?case
    using prefix_straddle [OF assms, of "c # s"]
    by (cases "strstr x lit") (auto simp: strstr_Cons split: option.splits)
qed

lemma strstr_behind_tag:
  assumes "lt_tag t" "lt_tag lit" "\<not> prefix lit (t @ y)"
  shows "strstr (t @ y) lit = map_option (\<lambda>i. length t + i) (strstr y lit)"
proof -
  have "\<not> prefix lit (drop q (t @ y))" if "q < length t" for q
  proof (cases q)
    case (Suc k)
    have "drop q (t @ y) = t ! q # drop (Suc q) (t @ y)"
      using that by (subst Cons_nth_drop_Suc [symmetric]) (auto simp: nth_append)
    moreover have "t ! q \<noteq> CHR ''<''"
    proof -
      have "t ! q \<in> set (tl t)" using that Suc by (cases t) auto
      with assms(1) show ?thesis by (auto simp: lt_tag_def)
    qed
    ultimately show ?thesis using assms(2) by (cases lit) (auto simp: lt_tag_def)
  qed (use assms(3) in simp)
  then show ?thesis using strstr_skip [of "length t" lit "t @ y"] by simp
qed

lemma strstr_replicate_tag:
  assumes "lt_tag t" "lt_tag lit" "\<And>y. \<not> prefix lit (t @ y)" "strstr y lit = None"
  shows "strstr (concat (replicate n t) @ y) lit = None"
  using assms(4) by (induction n) (simp_all add: strstr_behind_tag assms(1-3))

lemma find_last_substr_eqI:
  assumes "needle \<noteq> []" "prefix needle (drop b s)" "\<And>i. i > b \<Longrightarrow> \<not> prefix needle (drop i s)"
  shows "find_last_substr s needle = Some b"
proof (cases "find_last_substr s needle")
  case None
  then have "\<forall>i\<le>length s. \<not> prefix needle (drop i s)"
    by (simp add: find_last_substr_None [OF assms(1)] strstr_None_iff)
  moreover have "b \<le> length s" using assms(1,2) by (cases "b \<le> length s") auto
  ultimately show ?thesis using assms(2) by blast
next
  case (Some c)
  then show ?thesis
    using find_last_substr_Some [OF Some] assms(2,3) by (metis linorder_neqE_nat)
qed

lemma find_last_substr_append_tag:
  assumes "lt_tag lit" "tag_start x" "strstr x lit = None"
  shows "find_last_substr (s @ x) lit = find_last_substr s lit"
proof (cases "find_last_substr s lit")
  case None
  have "lit \<noteq> []" using assms(1) by (simp add: lt_tag_def)
  note iff = find_last_substr_None [OF this]
  have "find_last_substr (s @ x) lit = None"
    using None assms(3) unfolding iff by (simp add: strstr_append_tag [OF assms(1,2)])
  with None show ?thesis by simp
next
  case (Some b)
  have ne: "lit \<noteq> []" using assms(1) by (simp add: lt_tag_def)
  note b = find_last_substr_Some [OF Some]
  then have l: "b \<le> length s" using ne by (cases "b \<le> length s") auto
  show ?thesis unfolding Some
  proof (rule find_last_substr_eqI [OF ne])
    show "prefix lit (drop b (s @ x))" using b l by (simp add: prefix_appendI)
    fix i assume i: "i > b"
    show "\<not> prefix lit (drop i (s @ x))"
    proof (cases "i < length s")
      case True
      then show ?thesis using b i prefix_straddle [OF assms(1,2), of "drop i s"] by simp
    next
      case False
      have "\<not> prefix lit (drop (i - length s) x)"
      proof (cases "i - length s \<le> length x")
        case True
        then show ?thesis using assms(3) by (simp add: strstr_None_iff)
      qed (use ne in simp)
      with False show ?thesis by simp
    qed
  qed
qed

lemma find_cong: "(\<And>x. x \<in> set xs \<Longrightarrow> P x = Q x) \<Longrightarrow> find P xs = find Q xs"
  by (induction xs) auto

lemma tag_at_append:
  assumes "\<forall>t\<in>set tags. lt_tag t" "tag_start x" "s \<noteq> []"
  shows "tag_at tags (s @ x) = tag_at tags s"
  unfolding tag_at_def
  using assms by (intro find_cong) (auto simp: prefix_straddle)

lemma tag_at_SomeD:
  "tag_at tags p = Some i \<Longrightarrow> i < length tags \<and> tags ! i \<noteq> [] \<and> prefix (tags ! i) p"
  by (auto simp: tag_at_def dest!: find_SomeD)

lemma count_tags_append:
  assumes "\<forall>t\<in>set tags. lt_tag t" "tag_start x"
  shows "count_tags tags (s @ x) n = count_tags tags x (count_tags tags s n)"
  using assms
proof (induction tags s n rule: count_tags.induct)
  case (1 tags s n)
  show ?case
  proof (cases s)
    case Nil
    then show ?thesis by (simp add: count_tags.simps [of tags "[]"])
  next
    case (Cons c q)
    have eq: "tag_at tags (s @ x) = tag_at tags s"
      using 1(3,4) Cons by (intro tag_at_append) auto
    show ?thesis
    proof (cases "tag_at tags s")
      case None
      with 1(1) [OF Cons None 1(3,4)] Cons eq show ?thesis
        by (simp add: count_tags.simps [of tags "c # _"])
    next
      case (Some i)
      have "length (tags ! i) \<le> length s"
        using tag_at_SomeD [OF Some] by (simp add: prefix_length_le)
      then have "drop (length (tags ! i)) (s @ x) = drop (length (tags ! i)) s @ x" by simp
      moreover have "count_tags tags (c # r) n
          = count_tags tags (drop (length (tags ! i)) (c # r)) (n[i := n ! i + 1])"
        if "tag_at tags (c # r) = Some i" for r
        using that by (subst count_tags.simps) simp
      ultimately show ?thesis using 1(2) [OF Cons Some 1(3,4)] Cons Some eq by simp
    qed
  qed
qed

lemma count_tags_length [simp]: "length (count_tags tags p n) = length n"
proof (induction tags p n rule: count_tags.induct)
  case (1 tags p n)
  then show ?case by (subst count_tags.simps) (auto split: list.splits option.splits)
qed

lemma count_tags_replicate:
  assumes "\<And>y. tag_at tags (t @ y) = Some j" "tags ! j = t" "j < length n"
  shows "count_tags tags (concat (replicate k t) @ y) n = count_tags tags y (n[j := n ! j + k])"
  using assms(3)
proof (induction k arbitrary: n)
  case (Suc k)
  have "t \<noteq> []" using tag_at_SomeD [OF assms(1) [of "[]"]] assms(2) by auto
  then obtain c q where t: "t = c # q" by (cases t) auto
  have "count_tags tags (t @ concat (replicate k t) @ y) n
      = count_tags tags (concat (replicate k t) @ y) (n[j := n ! j + 1])"
    using assms(1) [of "concat (replicate k t) @ y"] assms(2)
    by (subst count_tags.simps) (simp add: t)
  with Suc show ?case by simp
qed simp

section \<open>The repair is complete\<close>

lemma syntax_cases:
  assumes "syn \<in> set dsml_syntaxes"
  obtains "syn = dsml_full" | "syn = dsml_short" | "syn = dsml_plain"
  using assms by (auto simp: dsml_syntaxes_def)

lemma syntax_tags_lt:
  "syn \<in> set dsml_syntaxes \<Longrightarrow> \<forall>t\<in>set (syntax_tags syn). lt_tag t"
  by (erule syntax_cases) (simp_all add: syntax_tags_def lt_tag_def tag_defs)

lemma syntax_start_lt: "syn \<in> set dsml_syntaxes \<Longrightarrow> lt_tag (tool_calls_start syn)"
  by (drule syntax_tags_lt) (simp add: syntax_tags_def)

lemma closing_tag_at:
  assumes "syn \<in> set dsml_syntaxes"
  shows "tag_at (syntax_tags syn) (param_end syn @ y) = Some 5"
    "tag_at (syntax_tags syn) (invoke_end syn @ y) = Some 3"
    "tag_at (syntax_tags syn) (tool_calls_end syn @ y) = Some 1"
  using assms
  by (atomize (full), elim syntax_cases)
    (simp_all add: tag_at_def syntax_tags_def tag_defs upt_rec)

lemma tag_start_repair_suffix:
  assumes "syn \<in> set dsml_syntaxes"
  shows "tag_start (repair_suffix syn a b c)"
proof -
  have h: "tag_start (concat (replicate n t) @ y)" if "lt_tag t" "tag_start y" for n t y
    using that by (cases n; cases t) (auto simp: tag_start_def lt_tag_def)
  have "lt_tag (param_end syn)" "lt_tag (invoke_end syn)" "lt_tag (tool_calls_end syn)"
    using syntax_tags_lt [OF assms] by (simp_all add: syntax_tags_def)
  moreover from this have "tag_start (concat (replicate c (tool_calls_end syn)))"
    using h [of "tool_calls_end syn" "[]" c] by (simp add: tag_start_def [of "[]"])
  ultimately show ?thesis unfolding repair_suffix_def by (intro h)
qed

lemma strstr_repair_suffix:
  assumes "syn \<in> set dsml_syntaxes"
    and "lt_tag lit" "\<And>t y. t \<in> {param_end syn, invoke_end syn, tool_calls_end syn} \<Longrightarrow> \<not> prefix lit (t @ y)"
  shows "strstr (repair_suffix syn a b c) lit = None"
proof -
  have t: "lt_tag (param_end syn)" "lt_tag (invoke_end syn)" "lt_tag (tool_calls_end syn)"
    using syntax_tags_lt [OF assms(1)] by (simp_all add: syntax_tags_def)
  have "strstr [] lit = None" using assms(2) by (simp add: strstr_Nil lt_tag_def)
  then have "strstr (concat (replicate c (tool_calls_end syn)) @ []) lit = None"
    by (intro strstr_replicate_tag) (use assms t in auto)
  then show ?thesis
    unfolding repair_suffix_def append_Nil2
    by (intro strstr_replicate_tag) (use assms t in auto)
qed

lemma think_not_in_suffix:
  "syn \<in> set dsml_syntaxes \<Longrightarrow> strstr (repair_suffix syn a b c) ''</think>'' = None"
  by (rule strstr_repair_suffix, assumption)
    (auto simp: lt_tag_def elim!: syntax_cases, simp_all add: tag_defs)

lemma start_not_in_suffix:
  "syn \<in> set dsml_syntaxes \<Longrightarrow> syn' \<in> set dsml_syntaxes
   \<Longrightarrow> strstr (repair_suffix syn a b c) (tool_calls_start syn') = None"
  by (rule strstr_repair_suffix, assumption, erule syntax_start_lt)
    (auto elim!: syntax_cases, simp_all add: tag_defs)

lemma repair_counts_append:
  assumes "repair_counts s = Some (syn, n)"
  shows "syn \<in> set dsml_syntaxes" "length n = 6"
    "repair_counts (s @ repair_suffix syn a b c)
     = Some (syn, n[5 := n ! 5 + a, 3 := n ! 3 + b, 1 := n ! 1 + c])"
proof -
  let ?x = "repair_suffix syn a b c"
  from assms have st: "repair_style (repair_scan s) = Some syn"
    and n: "n = count_tags (syntax_tags syn) (repair_scan s) [0, 0, 0, 0, 0, 0]"
    by (auto simp: repair_counts_def split: option.splits)
  show syn: "syn \<in> set dsml_syntaxes"
    using st by (auto simp: repair_style_def dest!: find_SomeD)
  show l: "length n = 6" by (simp add: n)
  have ts: "tag_start ?x" by (rule tag_start_repair_suffix [OF syn])
  have "find_last_substr (s @ ?x) ''</think>'' = find_last_substr s ''</think>''"
    by (rule find_last_substr_append_tag)
      (simp_all add: lt_tag_def ts think_not_in_suffix [OF syn])
  moreover have "i + 8 \<le> length s" if "find_last_substr s ''</think>'' = Some i" for i
  proof -
    have "length ''</think>'' \<le> length (drop i s)"
      using find_last_substr_Some [OF that] prefix_length_le by blast
    then show ?thesis by simp
  qed
  ultimately have scan: "repair_scan (s @ ?x) = repair_scan s @ ?x"
    by (auto simp: repair_scan_def split: option.splits)
  have "strstr (repair_scan s @ ?x) (tool_calls_start syn') \<noteq> None
      \<longleftrightarrow> strstr (repair_scan s) (tool_calls_start syn') \<noteq> None" if "syn' \<in> set dsml_syntaxes" for syn'
    using start_not_in_suffix [OF syn that] syntax_start_lt [OF that] ts
    by (simp add: strstr_append_tag split: option.splits)
  then have "repair_style (repair_scan s @ ?x) = Some syn"
    using st find_cong [of dsml_syntaxes
        "\<lambda>syn'. strstr (repair_scan s @ ?x) (tool_calls_start syn') \<noteq> None"
        "\<lambda>syn'. strstr (repair_scan s) (tool_calls_start syn') \<noteq> None"]
    by (simp add: repair_style_def)
  moreover have "count_tags (syntax_tags syn) ?x n = n[5 := n ! 5 + a, 3 := n ! 3 + b, 1 := n ! 1 + c]"
  proof -
    have e: "concat (replicate c (tool_calls_end syn)) = concat (replicate c (tool_calls_end syn)) @ []"
      by simp
    have nil: "count_tags (syntax_tags syn) [] m = m" for m by (simp add: count_tags.simps)
    have tg: "syntax_tags syn ! 5 = param_end syn" "syntax_tags syn ! 3 = invoke_end syn"
      "syntax_tags syn ! 1 = tool_calls_end syn" by (simp_all add: syntax_tags_def)
    show ?thesis
      unfolding repair_suffix_def
      by (subst e) (simp add: count_tags_replicate [OF closing_tag_at(1) [OF syn] tg(1)]
        count_tags_replicate [OF closing_tag_at(2) [OF syn] tg(2)]
        count_tags_replicate [OF closing_tag_at(3) [OF syn] tg(3)] l nil del: append_Nil2)
  qed
  ultimately show "repair_counts (s @ ?x)
      = Some (syn, n[5 := n ! 5 + a, 3 := n ! 3 + b, 1 := n ! 1 + c])"
    by (simp add: repair_counts_def scan count_tags_append [OF syntax_tags_lt [OF syn] ts] n)
qed

text \<open>C26. Repairing a truncated tool block completes it: the text is kept and only closing tags are
  appended, afterwards the block has as many closing as opening tags of every kind, and a second
  repair has nothing to do.  The unsigned differences of the code never wrap.\<close>

theorem try_repair_dsml_balances:
  assumes "try_repair_dsml s = Some out"
  shows "\<exists>syn n a b c. repair_counts s = Some (syn, n) \<and> out = s @ repair_suffix syn a b c
    \<and> a \<le> n ! 4 \<and> b \<le> n ! 2 \<and> c \<le> n ! 0
    \<and> repair_counts out = Some (syn, [n ! 0, n ! 0, n ! 2, n ! 2, n ! 4, n ! 4])
    \<and> try_repair_dsml out = None"
proof -
  from assms obtain syn n where n: "repair_counts s = Some (syn, n)"
    "\<not> (n ! 1 > n ! 0 \<or> n ! 3 > n ! 2 \<or> n ! 5 > n ! 4)"
    "out = s @ repair_suffix syn (n ! 4 - n ! 5) (n ! 2 - n ! 3) (n ! 0 - n ! 1)"
    by (auto simp: try_repair_dsml_def split: if_splits option.splits)
  obtain n0 n1 n2 n3 n4 n5 where l: "n = [n0, n1, n2, n3, n4, n5]"
    using repair_counts_append(2) [OF n(1)]
    by (auto simp: numeral_eq_Suc length_Suc_conv)
  have r: "repair_counts out = Some (syn, [n0, n0, n2, n2, n4, n4])"
    using repair_counts_append(3) [OF n(1), of "n4 - n5" "n2 - n3" "n0 - n1"] n(2,3) l by simp
  then have "try_repair_dsml out = None" by (simp add: try_repair_dsml_def)
  with n r l show ?thesis
    by (intro exI [of _ syn] exI [of _ n] exI [of _ "n4 - n5"] exI [of _ "n2 - n3"]
        exI [of _ "n0 - n1"]) simp
qed

theorem try_repair_dsml_balances_witness:
  "\<exists>syn n a b c. repair_counts ''<tool_calls><invoke'' = Some (syn, n)
    \<and> ''<tool_calls><invoke</invoke></tool_calls>'' = ''<tool_calls><invoke'' @ repair_suffix syn a b c
    \<and> a \<le> n ! 4 \<and> b \<le> n ! 2 \<and> c \<le> n ! 0
    \<and> repair_counts ''<tool_calls><invoke</invoke></tool_calls>''
      = Some (syn, [n ! 0, n ! 0, n ! 2, n ! 2, n ! 4, n ! 4])
    \<and> try_repair_dsml ''<tool_calls><invoke</invoke></tool_calls>'' = None"
  by (rule try_repair_dsml_balances) code_simp

section \<open>Calls come from a block\<close>

lemma suffix_skip_ascii_ws: "suffix (skip_ascii_ws p) p"
  by (simp add: skip_ascii_ws_def suffix_dropWhile)

lemma suffix_read_tag: "read_tag p = Some (tag, q) \<Longrightarrow> suffix q p"
  by (auto simp: read_tag_def suffix_drop split: option.splits)

lemma suffix_read_param_value:
  "read_param_value syn name ty p args = Some (args', q) \<Longrightarrow> suffix q p"
  by (auto simp: read_param_value_def Let_def suffix_drop split: option.splits)

lemma suffix_leaf_param:
  "dsml_parse_leaf_param_json syn p out = Some (out', q) \<Longrightarrow> suffix q p"
  by (auto simp: dsml_parse_leaf_param_json_def split: if_splits option.splits
      dest!: suffix_read_tag suffix_read_param_value intro: suffix_order.trans)

lemma suffix_nested_params_loop:
  "nested_params_loop syn p members any = Some (m, a, q) \<Longrightarrow> suffix q p"
proof (induction syn p members any rule: nested_params_loop.induct)
  case (1 syn p members any)
  show ?case
  proof (cases "prefix (param_start syn) (skip_ascii_ws p)")
    case True
    with 1(2) obtain members' r where
      r: "dsml_parse_leaf_param_json syn (skip_ascii_ws p) members = Some (members', r)"
        "nested_params_loop syn r members' True = Some (m, a, q)"
      by (subst (asm) nested_params_loop.simps) (auto simp: Let_def split: option.splits)
    have "suffix q r" using 1(1) [OF refl _ r(1) refl r(2)] True by simp
    with suffix_leaf_param [OF r(1)] suffix_skip_ascii_ws [of p] show ?thesis
      by (blast intro: suffix_order.trans)
  next
    case False
    with 1(2) suffix_skip_ascii_ws [of p] show ?thesis
      by (subst (asm) nested_params_loop.simps) (auto simp: Let_def)
  qed
qed

lemma suffix_nested_params:
  "dsml_parse_nested_params_object syn p = Some (x, q) \<Longrightarrow> suffix q p"
  by (auto simp: dsml_parse_nested_params_object_def split: option.splits if_splits
      dest!: suffix_nested_params_loop)

lemma suffix_parse_param: "parse_param syn p args = Some (args', q) \<Longrightarrow> suffix q p"
proof -
  assume a: "parse_param syn p args = Some (args', q)"
  then obtain tag r name where r: "read_tag p = Some (tag, r)" "dsml_attr tag ''name'' = Some name"
    by (auto simp: parse_param_def split: option.splits)
  have d: "suffix (if prefix e (skip_ascii_ws x) then drop (length e) (skip_ascii_ws x)
      else skip_ascii_ws x) x" for x e
    using suffix_skip_ascii_ws [of x] by (auto intro: suffix_order.trans [OF suffix_drop])
  have "suffix q r"
  proof (cases "dsml_attr tag ''string'' = None \<and> prefix (param_start syn) (skip_ascii_ws r)")
    case True
    with a r have e: "(case dsml_parse_nested_params_object syn r of
        None \<Rightarrow> None
      | Some (nested, q0) \<Rightarrow>
          (let q = skip_ascii_ws q0 in
           Some (tool_call_json_args_add args (Some name) (Some nested) (Some ''false''),
                 if prefix (param_end syn) q then drop (length (param_end syn)) q else q)))
      = Some (args', q)"
      unfolding parse_param_def by (simp only: option.simps prod.case if_True simp_thms)
    obtain x y where y: "dsml_parse_nested_params_object syn r = Some (x, y)"
      using e by (cases "dsml_parse_nested_params_object syn r") auto
    have "q = (if prefix (param_end syn) (skip_ascii_ws y)
        then drop (length (param_end syn)) (skip_ascii_ws y) else skip_ascii_ws y)"
      using e unfolding y Let_def by (simp only: option.simps prod.case prod.inject)
    then have "suffix q y" using d [where x = y and e = "param_end syn"] by simp
    then show ?thesis using suffix_nested_params [OF y] by (rule suffix_order.trans)
  next
    case False
    then have "read_param_value syn name (dsml_attr tag ''string'') r args = Some (args', q)"
      using a r by (auto simp: parse_param_def)
    then show ?thesis by (rule suffix_read_param_value)
  qed
  with suffix_read_tag [OF r(1)] show ?thesis by (blast intro: suffix_order.trans)
qed

lemma suffix_parse_params: "parse_params syn p args = Some (args', q) \<Longrightarrow> suffix q p"
proof (induction syn p args rule: parse_params.induct)
  case (1 syn p args)
  show ?case
  proof (cases "prefix (invoke_end syn) (skip_ascii_ws p)")
    case True
    with 1(2) suffix_skip_ascii_ws [of p] show ?thesis
      by (subst (asm) parse_params.simps)
        (auto simp: Let_def intro: suffix_order.trans [OF suffix_drop])
  next
    case False
    with 1(2) obtain args1 r where r: "prefix (param_start syn) (skip_ascii_ws p)"
      "parse_param syn (skip_ascii_ws p) args = Some (args1, r)"
      "parse_params syn r args1 = Some (args', q)"
      by (subst (asm) parse_params.simps) (auto simp: Let_def split: option.splits if_splits)
    have "suffix q r" using 1(1) [OF refl False _ r(2) refl r(3)] r(1) by simp
    with suffix_parse_param [OF r(2)] suffix_skip_ascii_ws [of p] show ?thesis
      by (blast intro: suffix_order.trans)
  qed
qed

lemma suffix_skip_tool_starts: "suffix (skip_tool_starts syn p) p"
proof (induction syn p rule: skip_tool_starts.induct)
  case (1 syn p)
  show ?case
  proof (cases "skip_ascii_ws p")
    case (Cons c q)
    have c: "suffix (c # q) p" using suffix_skip_ascii_ws [of p] Cons by simp
    have "suffix (drop n q) (c # q)" for n
      using suffix_drop [of "Suc n" "c # q"] by simp
    with 1 [OF Cons] c Cons show ?thesis
      by (subst skip_tool_starts.simps) (auto intro: suffix_order.trans)
  qed (simp add: skip_tool_starts.simps)
qed

lemma parse_invokes_block:
  "parse_invokes syn p calls = (calls', Some r) \<Longrightarrow> \<exists>u. p = u @ tool_calls_end syn @ r"
proof (induction syn p calls rule: parse_invokes.induct)
  case (1 syn p calls)
  let ?p = "skip_tool_starts syn p"
  show ?case
  proof (cases "prefix (tool_calls_end syn) ?p")
    case True
    with 1(2) have "?p = tool_calls_end syn @ r"
      by (subst (asm) parse_invokes.simps) (auto simp: Let_def prefix_def)
    with suffix_skip_tool_starts [of syn p] show ?thesis by (auto simp: suffix_def)
  next
    case False
    with 1(2) obtain tag q name args r1 where k: "prefix (invoke_start syn) ?p"
      "read_tag ?p = Some (tag, q)" "dsml_attr tag ''name'' = Some name"
      "parse_params syn q [] = Some (args, r1)"
      "parse_invokes syn r1 (push_generated_call calls name args) = (calls', Some r)"
      by (subst (asm) parse_invokes.simps)
        (auto simp: Let_def split: option.splits if_splits)
    obtain u where u: "r1 = u @ tool_calls_end syn @ r"
      using 1(1) [OF refl False _ k(2) refl k(3,4) refl k(5)] k(1) by auto
    have "suffix r1 p"
      using suffix_parse_params [OF k(4)] suffix_read_tag [OF k(2)] suffix_skip_tool_starts [of syn p]
      by (blast intro: suffix_order.trans)
    then show ?thesis using u by (auto simp: suffix_def)
  qed
qed

lemma parse_invokes_ok:
  "parse_invokes syn p calls = (calls', r) \<Longrightarrow> tool_calls_ok calls \<Longrightarrow> tool_calls_ok calls'"
proof (induction syn p calls rule: parse_invokes.induct)
  case (1 syn p calls)
  have "tool_calls_ok (push_generated_call calls name args)" for name args
    using 1(3) by (simp add: push_generated_call_def tool_calls_push_def tool_calls_ok_def)
  with 1 show ?case
    by (subst (asm) parse_invokes.simps [of syn p calls])
      (auto simp: Let_def split: if_splits option.splits prod.splits)
qed

lemma first_match_SomeD:
  "first_match s ls = Some (i, x) \<Longrightarrow> \<exists>lit. (lit, x) \<in> set ls \<and> strstr s lit = Some i"
  by (induction s ls rule: first_match.induct) (auto split: option.splits)

lemma generated_tool_start_style:
  "generated_tool_start s = Some (i, syn) \<Longrightarrow> syn \<in> set dsml_syntaxes"
  unfolding generated_tool_start_def
  by (drule first_match_SomeD) (auto simp: dsml_syntaxes_def)

lemma parse_tool_block_ok:
  assumes "parse_tool_block txt start syn pm = (True, pm')" "start \<le> length txt"
    and "tool_calls_ok (pm_calls pm)"
  obtains raw post where "txt = take start txt @ raw @ post"
    "tcs_raw_dsml (pm_calls pm') = Some raw" "strstr raw (tool_calls_start syn) \<noteq> None"
    "suffix (tool_calls_end syn) raw" "tool_calls_ok (pm_calls pm')"
proof -
  let ?block = "drop start txt"
  from assms(1) obtain i calls r where k: "strstr ?block (tool_calls_start syn) = Some i"
    "parse_invokes syn (drop (i + length (tool_calls_start syn)) ?block) (pm_calls pm) = (calls, Some r)"
    "pm_calls pm' = calls\<lparr>tcs_raw_dsml := Some (take (length ?block - length r) ?block)\<rparr>"
    by (auto simp: parse_tool_block_def Let_def pm_split_def split: option.splits prod.splits)
  obtain u where u: "drop (i + length (tool_calls_start syn)) ?block = u @ tool_calls_end syn @ r"
    using parse_invokes_block [OF k(2)] by blast
  define raw where "raw = take (i + length (tool_calls_start syn)) ?block @ u @ tool_calls_end syn"
  have b: "?block = raw @ r" unfolding raw_def using u by (metis append.assoc append_take_drop_id)
  have ii: "i + length (tool_calls_start syn) \<le> length ?block" "prefix (tool_calls_start syn) (drop i ?block)"
    using strstr_SomeD [OF k(1)] k(1) by (auto simp: strstr_Some_iff)
  have "prefix (tool_calls_start syn) (drop i raw)"
    using ii b unfolding raw_def by (metis (no_types, lifting) add_diff_cancel_left' append.assoc
        drop_append drop_take le_add1 prefix_def prefix_take_iff take_drop append_take_drop_id)
  then have "strstr raw (tool_calls_start syn) \<noteq> None"
    by (cases "i \<le> length raw") (auto simp: strstr_None_iff raw_def)
  moreover have "tool_calls_ok (pm_calls pm')"
    using parse_invokes_ok [OF k(2) assms(3)] k(3) by (simp add: tool_calls_ok_def)
  moreover have "take (length ?block - length r) ?block = raw" using b by simp
  moreover have "txt = take start txt @ raw @ r" using b by (metis append_take_drop_id)
  ultimately show ?thesis using k(3) by (intro that [of raw r]) (auto simp: raw_def suffix_def)
qed

lemma first_match_bound: "first_match s ls = Some (i, x) \<Longrightarrow> i \<le> length s"
  by (drule first_match_SomeD) (auto simp: strstr_Some_iff)

lemma parse_generated_calls:
  assumes "parse_generated_message_ex (Some txt) req pm = (True, pm')" "tcs_v (pm_calls pm) = []"
    and "tcs_v (pm_calls pm') \<noteq> []"
  obtains pre raw post syn where "txt = pre @ raw @ post" "syn \<in> set dsml_syntaxes"
    "tcs_raw_dsml (pm_calls pm') = Some raw" "strstr raw (tool_calls_start syn) \<noteq> None"
    "suffix (tool_calls_end syn) raw" "tool_calls_ok (pm_calls pm')"
    "req \<Longrightarrow> \<exists>j. find_last_substr txt ''</think>'' = Some j \<and> j + 8 \<le> length pre"
proof -
  let ?think_end = "find_last_substr txt ''</think>''"
  define base where "base = (if req then (case ?think_end of Some i \<Rightarrow> i + 8 | None \<Rightarrow> 0) else 0)"
  have not_plain: "pm' \<noteq> pm_split txt (length txt) (pm_calls pm)"
    using assms(2,3) by (auto simp: pm_split_def split: prod.splits)
  have parsed: "parse_generated_message_ex (Some txt) req pm =
    (if req \<and> ?think_end = None then (True, pm_split txt (length txt) (pm_calls pm))
     else case generated_tool_start (drop base txt) of
       None \<Rightarrow> (True, pm_split txt (length txt) (pm_calls pm))
     | Some (i, syn) \<Rightarrow> parse_tool_block txt (base + i) syn pm)"
    unfolding parse_generated_message_ex_def base_def by (simp add: Let_def)
  have open_: "\<not> (req \<and> ?think_end = None)"
  proof
    assume "req \<and> ?think_end = None"
    then have "parse_generated_message_ex (Some txt) req pm = (True, pm_split txt (length txt) (pm_calls pm))"
      unfolding parsed by (simp only: if_True simp_thms)
    then show False using assms(1) not_plain by simp
  qed
  with parsed assms(1) not_plain obtain i syn where
    g: "generated_tool_start (drop base txt) = Some (i, syn)"
      "parse_tool_block txt (base + i) syn pm = (True, pm')"
    by (auto split: option.splits)
  have "base \<le> length txt"
  proof (cases "req")
    case True
    with open_ obtain j where j: "?think_end = Some j" by auto
    have "length ''</think>'' \<le> length (drop j txt)"
      using find_last_substr_Some [OF j] prefix_length_le by blast
    with True j show ?thesis by (simp add: base_def)
  qed (simp add: base_def)
  moreover have "i \<le> length (drop base txt)"
    using g(1) unfolding generated_tool_start_def by (rule first_match_bound)
  ultimately have len: "base + i \<le> length txt" by simp
  have ok: "tool_calls_ok (pm_calls pm)" using assms(2) by (simp add: tool_calls_ok_def)
  obtain raw post where b: "txt = take (base + i) txt @ raw @ post"
    "tcs_raw_dsml (pm_calls pm') = Some raw" "strstr raw (tool_calls_start syn) \<noteq> None"
    "suffix (tool_calls_end syn) raw" "tool_calls_ok (pm_calls pm')"
    by (rule parse_tool_block_ok [OF g(2) len ok])
  have "\<exists>j. ?think_end = Some j \<and> j + 8 \<le> length (take (base + i) txt)" if req
    using that open_ len by (auto simp: base_def)
  then show ?thesis by (rule that [OF b(1) generated_tool_start_style [OF g(1)] b(2-5)])
qed

text \<open>C21. A response reports tool calls only when it may: the request offered tools, the message
  parsed, the calls stand in one block of the text that opens with a known tag and ends with its
  closing tag, and where thinking was on the block lies behind the last \<open></think>\<close>.  Every call
  has a name and arguments.\<close>

theorem response_calls_authorized:
  assumes "rp = parse_generated_message_for_response (Some txt) has_tools saw req finish err pm"
    and "tcs_v (pm_calls pm) = []" "tcs_v (pm_calls (rp_msg rp)) \<noteq> []"
  shows "has_tools \<and> rp_ok rp \<and> tool_calls_ok (pm_calls (rp_msg rp))
    \<and> (\<exists>pre raw post syn. txt = pre @ raw @ post \<and> syn \<in> set dsml_syntaxes
         \<and> tcs_raw_dsml (pm_calls (rp_msg rp)) = Some raw
         \<and> strstr raw (tool_calls_start syn) \<noteq> None \<and> suffix (tool_calls_end syn) raw
         \<and> (req \<longrightarrow> (\<exists>j. find_last_substr txt ''</think>'' = Some j \<and> j + 8 \<le> length pre)))"
proof -
  obtain ok pm' where p: "parse_generated_message_ex (Some txt) req pm = (ok, pm')"
    by (cases "parse_generated_message_ex (Some txt) req pm")
  have ok: "ok" using assms p
    by (cases ok) (auto simp: parse_generated_message_for_response_def Let_def empty_tool_calls_def)
  with assms p have t: "has_tools" and m: "rp_msg rp = pm'" and r: "rp_ok rp"
    by (auto simp: parse_generated_message_for_response_def drop_unauthorized_calls_def
        empty_tool_calls_def Let_def split: if_splits)
  obtain pre raw post syn where "txt = pre @ raw @ post" "syn \<in> set dsml_syntaxes"
    "tcs_raw_dsml (pm_calls pm') = Some raw" "strstr raw (tool_calls_start syn) \<noteq> None"
    "suffix (tool_calls_end syn) raw" "tool_calls_ok (pm_calls pm')"
    "req \<Longrightarrow> \<exists>j. find_last_substr txt ''</think>'' = Some j \<and> j + 8 \<le> length pre"
    using parse_generated_calls [of "txt" req pm pm'] p ok assms(2,3) m by metis
  with t m r show ?thesis by blast
qed

definition no_message :: parsed_message where
  "no_message = \<lparr>pm_content = None, pm_reasoning = None, pm_calls = empty_tool_calls\<rparr>"

text \<open>A block with one call without parameters, behind a closed reasoning.\<close>

definition example_generated :: string where
  "example_generated =
     ''a</think>b<tool_calls><invoke name='' @ DQ @ ''f'' @ DQ @ ''></invoke></tool_calls>''"

theorem response_calls_authorized_witness:
  "let rp = parse_generated_message_for_response (Some example_generated) True True True
       (Some ''tool_calls'') None no_message in
   True \<and> rp_ok rp \<and> tool_calls_ok (pm_calls (rp_msg rp))
    \<and> (\<exists>pre raw post syn. example_generated = pre @ raw @ post \<and> syn \<in> set dsml_syntaxes
         \<and> tcs_raw_dsml (pm_calls (rp_msg rp)) = Some raw
         \<and> strstr raw (tool_calls_start syn) \<noteq> None \<and> suffix (tool_calls_end syn) raw
         \<and> (True \<longrightarrow> (\<exists>j. find_last_substr example_generated ''</think>'' = Some j \<and> j + 8 \<le> length pre)))"
  unfolding Let_def
  by (rule response_calls_authorized [OF refl, of no_message]) code_simp+

end
