(* ===== verification/DsmlRound.thy ===== *)
theory DsmlRound
  imports DsmlParse
begin

text \<open>
  Rendering and reading agree: the reader of generated messages (\<open>DsmlParse\<close>) applied to
  what the prompt renderer writes (\<open>Dsml\<close>) gives back the reasoning, the content and the
  calls.  Here stand the lemmas about each level of the block, from attributes to the message.
\<close>

section \<open>Attributes in tags\<close>

lemma no_quot_split:
  assumes "QUOT \<notin> set u" "QUOT \<notin> set w"
  shows "prefix (w @ DQ) (u @ DQ @ x) \<longleftrightarrow> u = w"
  using assms
proof (induction u arbitrary: w)
  case Nil
  then show ?case by (cases w) auto
next
  case (Cons c u)
  then show ?case by (cases w) auto
qed

lemma strstr_quoted:
  assumes "QUOT \<notin> set u" "QUOT \<notin> set w" "\<not> suffix w u"
  shows "strstr (u @ DQ @ x) (w @ DQ)
    = map_option (\<lambda>i. length u + 1 + i) (strstr x (w @ DQ))"
proof -
  have "\<not> prefix (w @ DQ) (drop q (u @ DQ @ x))" if "q < length u + 1" for q
  proof -
    have "QUOT \<notin> set (drop q u)" using assms(1) by (auto dest: in_set_dropD)
    moreover have "drop q u \<noteq> w" using assms(3) suffix_drop by metis
    ultimately show ?thesis
      using no_quot_split [of "drop q u" w x] assms(2) that by simp
  qed
  then show ?thesis
    using strstr_skip [of "length u + 1" "w @ DQ" "u @ DQ @ x"] by simp
qed

lemma escape_suffix:
  assumes "set w \<inter> set ''&<>;'' = {}" "suffix w (append_dsml_attr_escaped (Some k))"
  shows "suffix w k"
  using assms
proof (induction k arbitrary: w rule: rev_induct)
  case Nil
  then show ?case by (simp add: append_dsml_attr_escaped_def)
next
  case (snoc c k)
  show ?case
  proof (cases w rule: rev_cases)
    case w: (snoc w' d)
    have e: "suffix (w' @ [d]) (append_dsml_attr_escaped (Some k) @ dsml_escape_char c)"
      using snoc.prems(2) w by (simp add: append_dsml_attr_escaped_def)
    show ?thesis
    proof (cases "dsml_escape_char c = [c]")
      case True
      with e have "d = c" "suffix w' (append_dsml_attr_escaped (Some k))" by auto
      with snoc.IH [of w'] snoc.prems(1) w show ?thesis by auto
    next
      case False
      then obtain y where "dsml_escape_char c = y @ '';''"
        by (auto simp: dsml_escape_char_def split: if_splits)
      with e have "d = CHR '';''" by (auto simp: suffix_def)
      with snoc.prems(1) w show ?thesis by auto
    qed
  qed simp
qed

text \<open>The opening tags the renderer writes.\<close>

definition param_tag :: "string \<Rightarrow> string" where
  "param_tag k = param_start dsml_full @ '' name='' @ DQ @ append_dsml_attr_escaped (Some k) @ DQ
     @ '' string='' @ DQ @ ''true'' @ DQ @ ''>''"

definition invoke_tag :: "string \<Rightarrow> string" where
  "invoke_tag n = invoke_start dsml_full @ '' name='' @ DQ @ append_dsml_attr_escaped (Some n) @ DQ
     @ ''>''"

lemma param_tag_name: "dsml_attr (param_tag k) ''name'' = Some k"
proof -
  let ?t = "''name'' @ ''='' @ DQ @ append_dsml_attr_escaped (Some k) @ DQ
    @ '' string='' @ DQ @ ''true'' @ DQ @ ''>''"
  have s: "strstr ((param_start dsml_full @ '' '') @ ?t) (''name'' @ ''='' @ DQ)
      = Some (length (param_start dsml_full @ '' ''))"
    by (simp add: tag_defs strstr_Cons)
  show ?thesis
    using dsml_attr_at [OF s] by (simp add: param_tag_def)
qed

lemma invoke_tag_name: "dsml_attr (invoke_tag n) ''name'' = Some n"
proof -
  let ?t = "''name'' @ ''='' @ DQ @ append_dsml_attr_escaped (Some n) @ DQ @ ''>''"
  have s: "strstr ((invoke_start dsml_full @ '' '') @ ?t) (''name'' @ ''='' @ DQ)
      = Some (length (invoke_start dsml_full @ '' ''))"
    by (simp add: tag_defs strstr_Cons)
  show ?thesis
    using dsml_attr_at [OF s] by (simp add: invoke_tag_def)
qed

lemma param_tag_string:
  assumes "\<not> suffix ''string='' k"
  shows "dsml_attr (param_tag k) ''string'' = Some ''true''"
proof -
  let ?e = "append_dsml_attr_escaped (Some k)"
  let ?pat = "''string='' @ DQ"
  have a: "\<not> suffix ''string='' (param_start dsml_full @ '' name='')"
    "QUOT \<notin> set (param_start dsml_full @ '' name='')"
    by (simp_all add: tag_defs suffix_def append_eq_Cons_conv Cons_eq_append_conv)
  have b: "\<not> suffix ''string='' ?e" using escape_suffix [of "''string=''" k] assms by auto
  have c: "strstr ('' string='' @ DQ @ ''true'' @ DQ @ ''>'') ?pat = Some 1"
    by (simp add: strstr_Cons)
  let ?pre = "(param_start dsml_full @ '' name='') @ DQ @ ?e @ DQ @ '' ''"
  have "strstr ((param_start dsml_full @ '' name='') @ DQ @ ?e @ DQ @ '' string='' @ DQ @ ''true'' @ DQ @ ''>'')
      ?pat = Some (length ?pre)"
    using strstr_quoted [OF a(2) _ a(1)] strstr_quoted [OF quot_not_escaped _ b] c by simp
  then have "strstr (?pre @ ''string'' @ ''='' @ DQ @ append_dsml_attr_escaped (Some ''true'') @ DQ @ ''>'')
      (''string'' @ ''='' @ DQ) = Some (length ?pre)"
    by (simp add: append_dsml_attr_escaped_def dsml_escape_char_def)
  from dsml_attr_at [OF this] show ?thesis
    by (simp add: param_tag_def append_dsml_attr_escaped_def dsml_escape_char_def)
qed

lemma read_tag_at:
  assumes "CHR ''>'' \<notin> set u"
  shows "read_tag ((u @ ''>'') @ t) = Some (u @ ''>'', t)"
  using strchr_skip [OF assms, of t] by (simp add: read_tag_def)

lemma read_param_tag: "read_tag (param_tag k @ t) = Some (param_tag k, t)"
proof -
  have "CHR ''>'' \<notin> set (param_start dsml_full @ '' name='' @ DQ @ append_dsml_attr_escaped (Some k)
      @ DQ @ '' string='' @ DQ @ ''true'' @ DQ)"
    using gt_not_escaped [of "Some k"] by (simp add: tag_defs)
  from read_tag_at [OF this, of t] show ?thesis by (simp add: param_tag_def)
qed

lemma read_invoke_tag: "read_tag (invoke_tag n @ t) = Some (invoke_tag n, t)"
proof -
  have "CHR ''>'' \<notin> set (invoke_start dsml_full @ '' name='' @ DQ @ append_dsml_attr_escaped (Some n)
      @ DQ)"
    using gt_not_escaped [of "Some n"] by (simp add: tag_defs)
  from read_tag_at [OF this, of t] show ?thesis by (simp add: invoke_tag_def)
qed

section \<open>Parameters and calls\<close>

text \<open>A text without the five entities that the reader decodes; a bare \<open>&\<close> is no entity.\<close>

definition no_entity :: "string \<Rightarrow> bool" where
  "no_entity v \<longleftrightarrow> list_all (\<lambda>e. strstr v (fst e) = None) dsml_entities"

lemma no_entity_Cons:
  "no_entity (c # v) \<longleftrightarrow> no_entity v \<and> list_all (\<lambda>e. \<not> prefix (fst e) (c # v)) dsml_entities"
  by (auto simp: no_entity_def list_all_iff strstr_Cons)

text \<open>Protecting the closing tag makes no new entity.\<close>

lemma entity_of_protected:
  assumes "e \<in> set dsml_entities" "prefix (fst e) (CHR ''&'' # append_dsml_parameter_text (Some v))"
  shows "prefix (fst e) (CHR ''&'' # v)"
proof -
  obtain l where l: "fst e = CHR ''&'' # l" "CHR ''<'' \<notin> set l" "CHR ''&'' \<notin> set l"
    using assms(1) by (auto simp: dsml_entities_def)
  then have "prefix l (protect (param_end dsml_full) ''&lt;'' v @ param_end dsml_full @ [])"
    using assms(2) by (auto simp: append_dsml_parameter_text_def intro: prefix_appendI)
  then have "prefix l v"
    by (rule param_text.prefix_protect [rotated 2]) (use l in \<open>simp_all add: tag_defs\<close>)
  then show ?thesis using l(1) by simp
qed

lemma unescape_protect:
  assumes "no_entity v"
  shows "dsml_unescape_text (append_dsml_parameter_text (Some v)) = v"
  using assms
proof (induction v)
  case Nil
  show ?case by (simp add: append_dsml_parameter_text_def)
next
  case (Cons c v)
  have v: "no_entity v" "list_all (\<lambda>e. \<not> prefix (fst e) (c # v)) dsml_entities"
    using Cons.prems by (simp_all add: no_entity_Cons)
  show ?case
  proof (cases "prefix (param_end dsml_full) (c # v)")
    case True
    then have "c = CHR ''<''" by (simp add: tag_defs)
    with True Cons.IH v(1) show ?thesis
      using dsml_unescape_entity [of "CHR ''<''"]
      by (simp add: append_dsml_parameter_text_def dsml_escape_char_def del: dsml_unescape_text.simps)
  next
    case False
    then have eq: "append_dsml_parameter_text (Some (c # v)) = c # append_dsml_parameter_text (Some v)"
      by (simp add: append_dsml_parameter_text_def)
    show ?thesis
    proof (cases "c = CHR ''&''")
      case True
      have "\<not> prefix (fst e) (c # append_dsml_parameter_text (Some v))" if "e \<in> set dsml_entities" for e
        using v(2) entity_of_protected [OF that] that True by (auto simp: list_all_iff)
      then have "find (\<lambda>e. prefix (fst e) (c # append_dsml_parameter_text (Some v))) dsml_entities = None"
        by (fastforce simp: find_None_iff)
      then show ?thesis using Cons.IH v(1) unfolding eq using True by simp
    next
      case False
      then show ?thesis using Cons.IH v(1) by (simp add: eq)
    qed
  qed
qed

text \<open>An argument that comes back: a string without entities under a key the reader can tell apart.\<close>

definition plain_arg :: "json_arg \<Rightarrow> bool" where
  "plain_arg a \<longleftrightarrow> ja_is_string a \<and> \<not> ja_used a \<and> no_entity (ja_value a)
     \<and> \<not> suffix ''string='' (ja_key a)"

definition add_arg :: "string \<Rightarrow> json_arg \<Rightarrow> string" where
  "add_arg s a = tool_call_json_args_add s (Some (ja_key a)) (Some (ja_value a)) (Some ''true'')"

lemma append_dsml_arg_plain:
  "plain_arg a \<Longrightarrow> append_dsml_arg a =
     param_tag (ja_key a) @ append_dsml_parameter_text (Some (ja_value a)) @ param_end dsml_full @ NL"
  by (simp add: append_dsml_arg_def param_tag_def plain_arg_def)

lemma parse_param_plain:
  assumes "plain_arg a"
  shows "parse_param dsml_full (append_dsml_arg a @ t) s = Some (add_arg s a, NL @ t)"
proof -
  let ?v = "append_dsml_parameter_text (Some (ja_value a))"
  have "strstr (?v @ param_end dsml_full @ NL @ t) (param_end dsml_full) = Some (length ?v)"
    unfolding append_dsml_parameter_text_def by (rule param_text.first_close)
  then show ?thesis
    using assms read_param_tag [of "ja_key a" "?v @ param_end dsml_full @ NL @ t"]
    by (simp add: append_dsml_arg_plain parse_param_def param_tag_name param_tag_string plain_arg_def
        read_param_value_def Let_def unescape_protect add_arg_def)
qed

lemma full_starts:
  "param_start dsml_full = CHR ''<'' # tl (param_start dsml_full)"
  "invoke_start dsml_full = CHR ''<'' # tl (invoke_start dsml_full)"
  "invoke_end dsml_full = CHR ''<'' # tl (invoke_end dsml_full)"
  "tool_calls_end dsml_full = CHR ''<'' # tl (tool_calls_end dsml_full)"
  by (simp_all add: tag_defs)

lemma skip_ws_tag:
  assumes "\<forall>c\<in>set w. isspace c" "hd s = CHR ''<''" "s \<noteq> []"
  shows "skip_ascii_ws (w @ s) = s"
  using assms by (cases s) (simp_all add: skip_ascii_ws_def dropWhile_append2 isspace_def byte_def)

lemma hd_arg: "hd (append_dsml_arg a @ t) = CHR ''<''" "append_dsml_arg a \<noteq> []"
  by (simp_all add: append_dsml_arg_def tag_defs)

lemma hd_tag_end:
  "hd (invoke_end dsml_full @ t) = CHR ''<''" "invoke_end dsml_full \<noteq> []"
  "hd (tool_calls_end dsml_full @ t) = CHR ''<''" "tool_calls_end dsml_full \<noteq> []"
  by (simp_all add: tag_defs)

lemma arg_prefixes:
  "prefix (param_start dsml_full) (append_dsml_arg a @ t)"
  "\<not> prefix (invoke_end dsml_full) (append_dsml_arg a @ t)"
  by (simp_all add: append_dsml_arg_def tag_defs)

lemma parse_params_plain:
  assumes "\<forall>a\<in>set args. plain_arg a" "\<forall>c\<in>set w. isspace c"
  shows "parse_params dsml_full (w @ concat (map append_dsml_arg args) @ invoke_end dsml_full @ t) s
    = Some (foldl add_arg s args, t)"
  using assms
proof (induction args arbitrary: s w)
  case Nil
  then show ?case
    using skip_ws_tag [of w "invoke_end dsml_full @ t"] hd_tag_end
    by (subst parse_params.simps) (simp add: Let_def)
next
  case (Cons a args)
  let ?rest = "concat (map append_dsml_arg args) @ invoke_end dsml_full @ t"
  have ws: "\<forall>c\<in>set NL. isspace c" by (simp add: isspace_def byte_def)
  have "skip_ascii_ws (w @ append_dsml_arg a @ ?rest) = append_dsml_arg a @ ?rest"
    using Cons.prems(2) hd_arg by (intro skip_ws_tag) auto
  moreover have "parse_params dsml_full (NL @ ?rest) (add_arg s a) = Some (foldl add_arg (add_arg s a) args, t)"
    using Cons.IH [of NL "add_arg s a"] Cons.prems(1) ws by simp
  moreover have "parse_param dsml_full (append_dsml_arg a @ ?rest) s = Some (add_arg s a, NL @ ?rest)"
    using Cons.prems(1) by (intro parse_param_plain) simp
  ultimately have "parse_params dsml_full (w @ append_dsml_arg a @ ?rest) s
      = Some (foldl add_arg (add_arg s a) args, t)"
    by (subst parse_params.simps) (simp add: Let_def arg_prefixes)
  then show ?case by simp
qed

section \<open>The arguments as JSON\<close>

definition arg_json :: "json_arg \<Rightarrow> string" where
  "arg_json a = json_escape (ja_key a) @ '': '' @ json_escape (ja_value a)"

definition args_json :: "json_arg list \<Rightarrow> string" where
  "args_json args = foldl add_arg [] args"

lemma add_arg_Nil: "add_arg [] a = arg_json a"
  by (simp add: add_arg_def tool_call_json_args_add_def arg_json_def)

lemma add_arg_more: "s \<noteq> [] \<Longrightarrow> add_arg s a = s @ '', '' @ arg_json a"
  by (simp add: add_arg_def tool_call_json_args_add_def arg_json_def)

lemma foldl_add_arg:
  "s \<noteq> [] \<Longrightarrow> foldl add_arg s args = s @ concat (map (\<lambda>a. '', '' @ arg_json a) args)"
  by (induction args arbitrary: s) (simp_all add: add_arg_more)

lemma args_json_Cons:
  "args_json (a # args) = arg_json a @ concat (map (\<lambda>b. '', '' @ arg_json b) args)"
proof -
  have "arg_json a \<noteq> []" by (simp add: arg_json_def json_escape_def)
  then show ?thesis by (simp add: args_json_def add_arg_Nil foldl_add_arg)
qed

text \<open>Arguments that came out of a JSON object: unused, and C strings.\<close>

definition arg_read :: "json_arg \<Rightarrow> bool" where
  "arg_read a \<longleftrightarrow> \<not> ja_used a \<and> (ja_is_string a \<longrightarrow> nul_free (ja_value a))"

lemma json_string_nul_free: "json_string s = Some (v, r) \<Longrightarrow> nul_free v"
  by (auto simp: json_string_def split: list.splits if_splits)

lemma json_args_parse_read:
  assumes "json_args_parse json = Some args"
  shows "\<forall>a\<in>set args. arg_read a"
proof -
  from assms obtain t r where "json_object_loop json_arg_member [] t = Some (args, r)"
    by (auto simp: json_args_parse_def split: list.splits if_splits)
  then show ?thesis
  proof (rule json_arg.object_loop_inv [where P = "\<lambda>args. \<forall>a\<in>set args. arg_read a", rotated])
    fix key as s b u
    assume "\<forall>a\<in>set as. arg_read a" "json_arg_member key as s = Some (b, u)"
    then show "\<forall>a\<in>set b. arg_read a"
      by (auto simp: json_arg_member_def json_args_push_def arg_read_def Let_def
          split: if_splits option.splits dest!: json_string_nul_free)
  qed simp
qed

definition members_text :: "json_arg list \<Rightarrow> string" where
  "members_text args = args_json args @ ''}''"

lemma json_ws_char: "\<not> isspace c \<Longrightarrow> json_ws (c # s) = c # s"
  by (simp add: json_ws_def)

lemma json_escape_head: "json_escape s @ t = QUOT # (json_escape_fragment s @ DQ @ t)"
  by (simp add: json_escape_def)

lemma isspace_ascii [simp]:
  "\<not> isspace QUOT" "\<not> isspace (CHR '':'')" "\<not> isspace (CHR '','')" "\<not> isspace (CHR ''}'')"
  "\<not> isspace (CHR ''{'')" "isspace (CHR '' '')"
  by (simp_all add: isspace_def byte_def)

lemma json_sep_members:
  "json_sep (concat (map (\<lambda>b. '', '' @ arg_json b) args) @ ''}'') = members_text args"
proof (cases args)
  case Nil
  then show ?thesis by (simp add: json_sep_def members_text_def args_json_def json_ws_char)
next
  case (Cons a as)
  have "json_ws ('' '' @ arg_json a @ t) = arg_json a @ t" for t
    by (simp add: arg_json_def json_escape_head json_ws_def)
  with Cons show ?thesis
    by (simp add: json_sep_def json_ws_char members_text_def args_json_Cons)
qed

lemma json_object_loop_members:
  assumes "\<forall>a\<in>set args. ja_is_string a \<and> \<not> ja_used a \<and> nul_free (ja_key a) \<and> nul_free (ja_value a)"
  shows "json_object_loop json_arg_member acc (members_text args) = Some (acc @ args, [])"
  using assms
proof (induction args arbitrary: acc)
  case Nil
  show ?case
    by (subst json_arg.object_loop_unfold) (simp add: members_text_def args_json_def)
next
  case (Cons a args)
  let ?rest = "concat (map (\<lambda>b. '', '' @ arg_json b) args) @ ''}''"
  have m: "members_text (a # args)
      = json_escape (ja_key a) @ CHR '':'' # CHR '' '' # json_escape (ja_value a) @ ?rest"
    by (simp add: members_text_def args_json_Cons arg_json_def)
  have h: "json_arg_member (ja_key a) acc (CHR '' '' # json_escape (ja_value a) @ ?rest)
      = Some (acc @ [a], ?rest)"
    using Cons.prems json_string_escape [of "ja_value a" ?rest]
    by (cases a) (simp add: json_arg_member_def json_ws_def json_escape_head json_args_push_def Let_def)
  have k: "json_string (members_text (a # args))
      = Some (ja_key a, CHR '':'' # CHR '' '' # json_escape (ja_value a) @ ?rest)"
    using Cons.prems json_string_escape [of "ja_key a"] unfolding m by simp
  have "json_object_loop json_arg_member acc (members_text (a # args))
      = json_object_loop json_arg_member (acc @ [a]) (json_sep ?rest)"
    by (subst json_arg.object_loop_unfold)
      (use k h in \<open>simp add: m json_escape_head json_ws_char\<close>)
  with Cons show ?case unfolding json_sep_members by simp
qed

lemma json_args_parse_args_json:
  assumes "\<forall>a\<in>set args. ja_is_string a \<and> \<not> ja_used a \<and> nul_free (ja_key a) \<and> nul_free (ja_value a)"
  shows "json_args_parse (Some (''{'' @ args_json args @ ''}'')) = Some args"
proof -
  have "json_ws (members_text args) = members_text args"
  proof (cases args)
    case Nil
    then show ?thesis by (simp add: members_text_def args_json_def json_ws_char)
  next
    case (Cons a as)
    then show ?thesis
      by (simp add: members_text_def args_json_Cons arg_json_def json_escape_head json_ws_char)
  qed
  then show ?thesis
    using json_object_loop_members [OF assms, of "[]"]
    by (simp add: json_args_parse_def json_ws_char members_text_def)
qed

section \<open>The block\<close>

text \<open>A call that comes back.\<close>

definition call_args :: "tool_call \<Rightarrow> json_arg list" where
  "call_args tc = (case json_args_parse (tc_arguments tc) of Some args \<Rightarrow> args | None \<Rightarrow> [])"

definition plain_call :: "tool_call \<Rightarrow> bool" where
  "plain_call tc \<longleftrightarrow> tc_name tc \<noteq> None \<and> json_args_parse (tc_arguments tc) \<noteq> None
     \<and> (\<forall>a\<in>set (call_args tc). plain_arg a \<and> nul_free (ja_key a))"

definition read_back :: "tool_call \<Rightarrow> tool_call" where
  "read_back tc =
     \<lparr>tc_id = None, tc_name = tc_name tc,
      tc_arguments = Some (''{'' @ args_json (call_args tc) @ ''}'')\<rparr>"

lemma read_back_args:
  assumes "plain_call tc"
  shows "json_args_parse (tc_arguments (read_back tc)) = json_args_parse (tc_arguments tc)"
proof -
  obtain args where a: "json_args_parse (tc_arguments tc) = Some args"
    using assms by (auto simp: plain_call_def)
  then have "\<forall>a\<in>set args. ja_is_string a \<and> \<not> ja_used a \<and> nul_free (ja_key a) \<and> nul_free (ja_value a)"
    using assms json_args_parse_read [OF a] by (simp add: plain_call_def call_args_def plain_arg_def arg_read_def)
  from json_args_parse_args_json [OF this] a show ?thesis
    by (simp add: read_back_def call_args_def)
qed

lemma dsml_invoke_text_plain:
  assumes "plain_call tc" "tc_name tc = Some n"
  shows "dsml_invoke_text tc = invoke_tag n @ NL
    @ concat (map append_dsml_arg (call_args tc)) @ invoke_end dsml_full @ NL"
proof -
  obtain args where a: "json_args_parse (tc_arguments tc) = Some args"
    using assms(1) by (auto simp: plain_call_def)
  have "filter (\<lambda>a. \<not> ja_used a) args = args"
    using json_args_parse_read [OF a] by (simp add: arg_read_def)
  with a show ?thesis
    using assms(2)
    by (simp add: dsml_invoke_text_def invoke_tag_def append_dsml_arguments_from_json_def call_args_def)
qed

lemma invoke_tag_head:
  "hd (invoke_tag n @ t) = CHR ''<''" "invoke_tag n \<noteq> []"
  "prefix (invoke_start dsml_full) (invoke_tag n @ t)"
  "\<not> prefix (tool_calls_end dsml_full) (invoke_tag n @ t)"
  "\<not> prefix (tool_calls_start dsml_full) (invoke_tag n @ t)"
  "\<not> prefix (tool_calls_start dsml_full) (tool_calls_end dsml_full @ t)"
  by (simp_all add: invoke_tag_def tag_defs)

lemma skip_tool_starts_tag:
  assumes "\<forall>c\<in>set w. isspace c" "hd s = CHR ''<''" "s \<noteq> []"
    "\<not> prefix (tool_calls_start dsml_full) s"
  shows "skip_tool_starts dsml_full (w @ s) = s"
  using skip_ws_tag [OF assms(1-3)] assms(3,4)
  by (subst skip_tool_starts.simps) (cases s, auto)

lemma parse_invokes_plain:
  assumes "\<forall>tc\<in>set tcs. plain_call tc" "\<forall>c\<in>set w. isspace c"
  shows "parse_invokes dsml_full (w @ concat (map dsml_invoke_text tcs) @ tool_calls_end dsml_full @ t) calls
    = (calls\<lparr>tcs_v := tcs_v calls @ map read_back tcs\<rparr>, Some t)"
  using assms
proof (induction tcs arbitrary: calls w)
  case Nil
  have "skip_tool_starts dsml_full (w @ tool_calls_end dsml_full @ t) = tool_calls_end dsml_full @ t"
    by (rule skip_tool_starts_tag)
      (use Nil hd_tag_end(3) [of t] hd_tag_end(4) invoke_tag_head(6) in auto)
  then show ?case by (subst parse_invokes.simps) (simp add: Let_def)
next
  case (Cons tc tcs)
  let ?rest = "concat (map dsml_invoke_text tcs) @ tool_calls_end dsml_full @ t"
  let ?args = "concat (map append_dsml_arg (call_args tc)) @ invoke_end dsml_full @ NL @ ?rest"
  obtain n where n: "tc_name tc = Some n" using Cons.prems(1) by (auto simp: plain_call_def)
  have ws: "\<forall>c\<in>set NL. isspace c" by (simp add: isspace_def byte_def)
  have i: "dsml_invoke_text tc @ ?rest = invoke_tag n @ NL @ ?args"
    using Cons.prems(1) n by (simp add: dsml_invoke_text_plain)
  have s: "skip_tool_starts dsml_full (w @ invoke_tag n @ NL @ ?args) = invoke_tag n @ NL @ ?args"
    by (rule skip_tool_starts_tag [OF Cons.prems(2) invoke_tag_head(1) _ invoke_tag_head(5)])
      (simp add: invoke_tag_head(2))
  have p: "parse_params dsml_full (NL @ ?args) [] = Some (args_json (call_args tc), NL @ ?rest)"
    unfolding args_json_def
    by (rule parse_params_plain [OF _ ws]) (use Cons.prems(1) in \<open>simp add: plain_call_def\<close>)
  have "parse_invokes dsml_full (w @ invoke_tag n @ NL @ ?args) calls
      = parse_invokes dsml_full (NL @ ?rest) (push_generated_call calls n (args_json (call_args tc)))"
    using p by (subst parse_invokes.simps)
      (simp only: s Let_def invoke_tag_head if_False if_True not_True_eq_False option.simps
        prod.case read_invoke_tag invoke_tag_name p)
  also have "\<dots> = (calls\<lparr>tcs_v := tcs_v calls @ map read_back (tc # tcs)\<rparr>, Some t)"
    using Cons.IH [OF _ ws] Cons.prems(1) n
    by (simp add: push_generated_call_def tool_calls_push_def read_back_def)
  finally show ?case using i by simp
qed

section \<open>The closing think tag in a block\<close>

definition no_think :: "string \<Rightarrow> bool" where
  "no_think s \<longleftrightarrow> strstr s ''</think>'' = None"

lemma no_think_plain: "CHR ''<'' \<notin> set s \<Longrightarrow> no_think (s @ x) \<longleftrightarrow> no_think x"
  by (induction s) (auto simp: no_think_def strstr_Cons)

lemma no_think_tag:
  assumes "lt_tag t" "\<not> prefix ''</think>'' (t @ x)"
  shows "no_think (t @ x) \<longleftrightarrow> no_think x"
  using strstr_behind_tag [OF assms(1) _ assms(2)] by (simp add: no_think_def lt_tag_def)

lemma no_think_append: "tag_start x \<Longrightarrow> no_think s \<Longrightarrow> no_think x \<Longrightarrow> no_think (s @ x)"
  by (simp add: no_think_def strstr_append_tag lt_tag_def)

lemma no_think_protect:
  "no_think v \<Longrightarrow> no_think (append_dsml_parameter_text (Some v))"
proof (induction v)
  case Nil
  then show ?case by (simp add: append_dsml_parameter_text_def)
next
  case (Cons c v)
  let ?p = "append_dsml_parameter_text (Some v)"
  have c: "\<not> prefix ''</think>'' (c # v)" "no_think v"
    using Cons.prems by (auto simp: no_think_def strstr_Cons split: if_splits)
  show ?case
  proof (cases "prefix (param_end dsml_full) (c # v)")
    case True
    then have "append_dsml_parameter_text (Some (c # v)) = ''&lt;'' @ ?p"
      by (simp add: append_dsml_parameter_text_def)
    with Cons.IH c(2) show ?thesis using no_think_plain [of "''&lt;''" ?p] by simp
  next
    case False
    have "\<not> prefix ''</think>'' (c # ?p)"
    proof
      assume p: "prefix ''</think>'' (c # ?p)"
      then have "prefix ''/think>'' (?p @ param_end dsml_full @ [])" by (simp add: prefix_appendI)
      then have "prefix ''/think>'' v"
        unfolding append_dsml_parameter_text_def str_or_empty_simps
        by (rule param_text.prefix_protect [rotated 2]) (simp_all add: tag_defs)
      with p c(1) show False by simp
    qed
    with False Cons.IH c(2) show ?thesis
      by (simp add: append_dsml_parameter_text_def no_think_def strstr_Cons)
  qed
qed

lemma lt_tags:
  "lt_tag (param_tag k)" "lt_tag (invoke_tag n)" "lt_tag (param_end dsml_full)"
  "lt_tag (invoke_end dsml_full)" "lt_tag (tool_calls_end dsml_full)"
  "lt_tag (tool_calls_start dsml_full)"
  using lt_not_escaped [of "Some k"] lt_not_escaped [of "Some n"]
  by (simp_all add: lt_tag_def param_tag_def invoke_tag_def tag_defs)

lemma not_think_tags:
  "\<not> prefix ''</think>'' (param_tag k @ x)" "\<not> prefix ''</think>'' (invoke_tag n @ x)"
  "\<not> prefix ''</think>'' (param_end dsml_full @ x)" "\<not> prefix ''</think>'' (invoke_end dsml_full @ x)"
  "\<not> prefix ''</think>'' (tool_calls_end dsml_full @ x)"
  "\<not> prefix ''</think>'' (tool_calls_start dsml_full @ x)"
  by (simp_all add: param_tag_def invoke_tag_def tag_defs)

lemma no_think_tags:
  "no_think (param_tag k @ x) \<longleftrightarrow> no_think x" "no_think (invoke_tag n @ x) \<longleftrightarrow> no_think x"
  "no_think (param_end dsml_full @ x) \<longleftrightarrow> no_think x"
  "no_think (invoke_end dsml_full @ x) \<longleftrightarrow> no_think x"
  "no_think (tool_calls_end dsml_full @ x) \<longleftrightarrow> no_think x"
  "no_think (tool_calls_start dsml_full @ x) \<longleftrightarrow> no_think x"
  by (intro no_think_tag lt_tags not_think_tags)+

lemma no_think_NL: "no_think (NL @ x) \<longleftrightarrow> no_think x"
  by (rule no_think_plain) simp

lemma no_think_args:
  assumes "\<forall>a\<in>set args. plain_arg a \<and> no_think (ja_value a)" "no_think x"
  shows "no_think (concat (map append_dsml_arg args) @ x)"
  using assms(1)
proof (induction args)
  case (Cons a args)
  let ?x = "concat (map append_dsml_arg args) @ x"
  have "no_think (param_end dsml_full @ NL @ ?x)"
    unfolding no_think_tags no_think_NL using Cons by simp
  moreover have "tag_start (param_end dsml_full @ NL @ ?x)" by (simp add: tag_start_def tag_defs)
  moreover have "no_think (append_dsml_parameter_text (Some (ja_value a)))"
    using Cons.prems by (simp add: no_think_protect)
  ultimately have "no_think (append_dsml_parameter_text (Some (ja_value a)) @ param_end dsml_full @ NL @ ?x)"
    using no_think_append by metis
  then have "no_think (param_tag (ja_key a) @ append_dsml_parameter_text (Some (ja_value a))
      @ param_end dsml_full @ NL @ ?x)"
    unfolding no_think_tags .
  then show ?case using Cons.prems by (simp add: append_dsml_arg_plain)
qed (use assms(2) in simp)

definition quiet_call :: "tool_call \<Rightarrow> bool" where
  "quiet_call tc \<longleftrightarrow> (\<forall>a\<in>set (call_args tc). no_think (ja_value a))"

lemma no_think_invokes:
  assumes "\<forall>tc\<in>set tcs. plain_call tc \<and> quiet_call tc" "no_think x"
  shows "no_think (concat (map dsml_invoke_text tcs) @ x)"
  using assms(1)
proof (induction tcs)
  case (Cons tc tcs)
  let ?x = "concat (map dsml_invoke_text tcs) @ x"
  obtain n where n: "tc_name tc = Some n" using Cons.prems by (auto simp: plain_call_def)
  have "no_think (invoke_end dsml_full @ NL @ ?x)"
    unfolding no_think_tags no_think_NL using Cons by simp
  then have "no_think (concat (map append_dsml_arg (call_args tc)) @ invoke_end dsml_full @ NL @ ?x)"
    by (rule no_think_args [rotated]) (use Cons.prems in \<open>auto simp: plain_call_def quiet_call_def\<close>)
  then have "no_think (invoke_tag n @ NL @ concat (map append_dsml_arg (call_args tc))
      @ invoke_end dsml_full @ NL @ ?x)"
    unfolding no_think_tags no_think_NL .
  then show ?case using Cons.prems n by (simp add: dsml_invoke_text_plain)
qed (use assms(2) in simp)

section \<open>The message\<close>

lemma strstr_None_all:
  assumes "lit \<noteq> []"
  shows "strstr s lit = None \<longleftrightarrow> (\<forall>i. \<not> prefix lit (drop i s))"
proof -
  have "\<not> prefix lit (drop i s)" if "\<not> i \<le> length s" for i
    using that assms by simp
  then show ?thesis unfolding strstr_None_iff by blast
qed

lemma find_last_think:
  assumes "CHR ''<'' \<notin> set c" "no_think x"
  shows "find_last_substr (r @ ''</think>'' @ c @ x) ''</think>'' = Some (length r)"
proof (rule find_last_substr_eqI)
  fix i assume i: "i > length r"
  have "no_think ((''/think>'' @ c) @ x)" using assms by (subst no_think_plain) simp_all
  then have "\<forall>j. \<not> prefix ''</think>'' (drop j (''/think>'' @ c @ x))"
    using strstr_None_all [of "''</think>''" "''/think>'' @ c @ x"] by (simp add: no_think_def)
  then have "\<not> prefix ''</think>'' (drop (i - length r - 1) (''/think>'' @ c @ x))" by blast
  moreover have "drop i (r @ ''</think>'' @ c @ x) = drop (i - length r - 1) (''/think>'' @ c @ x)"
    using i by (simp add: drop_Cons') 
  ultimately show "\<not> prefix ''</think>'' (drop i (r @ ''</think>'' @ c @ x))" by simp
qed simp_all

lemma generated_start_behind:
  assumes "CHR ''<'' \<notin> set c"
  shows "generated_tool_start (c @ NL @ NL @ tool_calls_start dsml_full @ x) = Some (length c, dsml_full)"
proof -
  let ?t = "c @ NL @ NL @ tool_calls_start dsml_full @ x"
  let ?pat = "NL @ NL @ tool_calls_start dsml_full"
  have "\<not> prefix ?pat (drop q ?t)" if "q < length c" for q
  proof
    assume "prefix ?pat (drop q ?t)"
    then obtain z where z: "drop q ?t = ?pat @ z" by (auto simp: prefix_def)
    have "?t ! (q + 2) = drop q ?t ! 2" by (rule nth_drop [symmetric]) (use that in simp)
    also have "\<dots> = CHR ''<''" unfolding z by (simp add: tag_defs)
    finally have "?t ! (q + 2) = CHR ''<''" .
    moreover have "?t ! (q + 2) \<noteq> CHR ''<''"
    proof (cases "q + 2 < length c")
      case True
      then have "?t ! (q + 2) \<in> set c" by (simp add: nth_append)
      with assms show ?thesis by metis
    next
      case False
      with that have "q + 2 = length c \<or> q + 2 = length c + 1" by linarith
      then show ?thesis by (auto simp: nth_append)
    qed
    ultimately show False by simp
  qed
  then have "strstr ?t ?pat = Some (length c)"
    using strstr_Some_iff [of ?t ?pat "length c"] by simp
  then show ?thesis by (simp add: generated_tool_start_def)
qed

lemma split_at_think:
  assumes "CHR ''<'' \<notin> set r"
  shows "pm_split (r @ ''</think>'' @ c @ x) (length r + 8 + length c) calls
    = \<lparr>pm_content = Some c, pm_reasoning = Some r, pm_calls = calls\<rparr>"
proof -
  have "\<not> prefix ''<think>'' (r @ ''</think>'' @ c)" using assms by (cases r) auto
  moreover have "strstr (r @ ''</think>'' @ c) ''</think>'' = Some (length r)"
    using assms by (induction r) (auto simp: strstr_Cons)
  moreover have "take (length r + 8 + length c) (r @ ''</think>'' @ c @ x) = r @ ''</think>'' @ c"
  proof -
    have "length r + 8 + length c = length (r @ ''</think>'' @ c)" by simp
    then show ?thesis by (metis append.assoc append_eq_conv_conj)
  qed
  moreover have "drop (length r + 8) (r @ ''</think>'' @ c) = c" by simp
  ultimately show ?thesis
    unfolding pm_split_def split_reasoning_content_def Let_def by simp
qed

lemma parse_rendered_block:
  assumes "\<forall>tc\<in>set tcs. plain_call tc" "CHR ''<'' \<notin> set r" "c = [] \<or> \<not> isspace (last c)"
    and block: "block = NL @ NL @ tool_calls_start dsml_full @ NL @ concat (map dsml_invoke_text tcs)
      @ tool_calls_end dsml_full"
  shows "parse_tool_block (r @ ''</think>'' @ c @ block) (length r + 8 + length c) dsml_full no_message
    = (True, \<lparr>pm_content = Some c, pm_reasoning = Some r,
        pm_calls = \<lparr>tcs_v = map read_back tcs, tcs_raw_dsml = Some block\<rparr>\<rparr>)"
proof -
  let ?inner = "NL @ concat (map dsml_invoke_text tcs) @ tool_calls_end dsml_full"
  let ?txt = "r @ ''</think>'' @ c @ block"
  have last: "?txt ! (length r + 8 + length c - 1) = (if c = [] then CHR ''>'' else last c)"
    by (cases c rule: rev_cases) (simp_all add: nth_append)
  have "\<not> isspace (?txt ! (length r + 8 + length c - 1))"
    using assms(3) unfolding last by (auto simp: isspace_def byte_def)
  then have trim: "trim_tool_separator_ws ?txt 0 (length r + 8 + length c) = length r + 8 + length c"
    by (subst trim_tool_separator_ws.simps) (simp only: simp_thms if_False)
  have "drop (length c) (drop (length r + 8) ?txt) = block" by simp
  then have d: "drop (length r + 8 + length c) ?txt = block"
    unfolding drop_drop by (simp only: add.commute)
  have s: "strstr block (tool_calls_start dsml_full) = Some 2"
    by (simp add: block strstr_Cons tag_defs)
  have inner: "drop (2 + length (tool_calls_start dsml_full)) block = ?inner" by (simp add: block)
  have ws: "\<forall>c\<in>set NL. isspace c" by (simp add: isspace_def byte_def)
  have p: "parse_invokes dsml_full ?inner empty_tool_calls
      = (empty_tool_calls\<lparr>tcs_v := map read_back tcs\<rparr>, Some [])"
    using parse_invokes_plain [OF assms(1) ws, of "[]" empty_tool_calls]
    by (simp add: empty_tool_calls_def)
  show ?thesis
    unfolding parse_tool_block_def Let_def d s option.simps inner trim
    using p split_at_think [OF assms(2)] by (simp add: no_message_def empty_tool_calls_def)
qed

text \<open>C6. What the renderer writes, the reader reads back: a generated turn with thinking on that consists
  of a reasoning, a content and at least one rendered tool call is read as exactly that reasoning, that
  content and the same calls (the arguments are the same JSON members in the same order), and the kept
  raw block renders to the same bytes again.  The limits, outside of which the code does lose the value or
  the call: no raw block was kept for the calls; every call has a name, and arguments that parse as a
  JSON object of strings; a value holds none of the five entities the reader decodes and no \<open></think>\<close>,
  but may hold quotes, control characters, \<open>&\<close> and the DSML closing tags; a key holds no NUL and does not end
  in \<open>string=\<close>; reasoning and content hold no \<open><\<close>, and the content does not end in white space.\<close>

theorem rendered_message_reads_back:
  assumes "tcs_v calls \<noteq> []" "tcs_raw_dsml calls = None"
    and "\<forall>tc\<in>set (tcs_v calls). plain_call tc \<and> quiet_call tc"
    and "CHR ''<'' \<notin> set r" "CHR ''<'' \<notin> set c" "c = [] \<or> \<not> isspace (last c)"
  shows "\<exists>calls'. parse_generated_message_ex
       (Some (r @ ''</think>'' @ c @ append_dsml_tool_calls_text calls)) True no_message
     = (True, \<lparr>pm_content = Some c, pm_reasoning = Some r, pm_calls = calls'\<rparr>)
     \<and> list_all2 (\<lambda>tc tc'. tc_name tc' = tc_name tc
          \<and> json_args_parse (tc_arguments tc') = json_args_parse (tc_arguments tc))
        (tcs_v calls) (tcs_v calls')
     \<and> append_dsml_tool_calls_text calls' = append_dsml_tool_calls_text calls"
proof -
  let ?tail = "concat (map dsml_invoke_text (tcs_v calls)) @ tool_calls_end dsml_full"
  define block where "block = NL @ NL @ tool_calls_start dsml_full @ NL @ ?tail"
  let ?calls' = "\<lparr>tcs_v = map read_back (tcs_v calls), tcs_raw_dsml = Some block\<rparr>"
  have b: "append_dsml_tool_calls_text calls = block"
    using assms(1,2) by (simp add: append_dsml_tool_calls_text_def nonempty_opt_def block_def)
  have "no_think (tool_calls_end dsml_full)"
    using no_think_tags(5) [of "[]"] by (simp add: no_think_def strstr_Nil)
  then have "no_think block"
    unfolding block_def no_think_NL no_think_tags by (rule no_think_invokes [OF assms(3)])
  then have t: "find_last_substr (r @ ''</think>'' @ c @ block) ''</think>'' = Some (length r)"
    by (rule find_last_think [OF assms(5)])
  have d: "drop (length r + 8) (r @ ''</think>'' @ c @ block) = c @ block" by simp
  have g: "generated_tool_start (c @ block) = Some (length c, dsml_full)"
    unfolding block_def by (rule generated_start_behind [OF assms(5)])
  have pt: "parse_tool_block (r @ ''</think>'' @ c @ block) (length r + 8 + length c) dsml_full no_message
      = (True, \<lparr>pm_content = Some c, pm_reasoning = Some r, pm_calls = ?calls'\<rparr>)"
    by (rule parse_rendered_block [OF _ assms(4,6)]) (use assms(3) block_def in auto)
  have "parse_generated_message_ex (Some (r @ ''</think>'' @ c @ block)) True no_message
      = (True, \<lparr>pm_content = Some c, pm_reasoning = Some r, pm_calls = ?calls'\<rparr>)"
    unfolding parse_generated_message_ex_def Let_def str_or_empty_simps t option.simps if_True
      simp_thms if_False d g prod.case pt by simp
  moreover have "list_all2 (\<lambda>tc tc'. tc_name tc' = tc_name tc
      \<and> json_args_parse (tc_arguments tc') = json_args_parse (tc_arguments tc))
      (tcs_v calls) (tcs_v ?calls')"
    using assms(3) read_back_args by (auto simp: list_all2_map2 list_all2_same read_back_def)
  moreover have "append_dsml_tool_calls_text ?calls' = block"
    using assms(1) by (simp add: append_dsml_tool_calls_text_def nonempty_opt_def block_def)
  ultimately show ?thesis unfolding b by blast
qed

definition example_calls :: "string \<Rightarrow> tool_calls" where
  "example_calls v =
     \<lparr>tcs_v = [\<lparr>tc_id = Some ''c1'', tc_name = Some ''f'',
        tc_arguments = Some (''{'' @ DQ @ ''a'' @ DQ @ '':'' @ DQ @ v @ DQ @ ''}'')\<rparr>],
      tcs_raw_dsml = None\<rparr>"

theorem rendered_message_reads_back_witness:
  "\<exists>calls'. parse_generated_message_ex
       (Some (''r'' @ ''</think>'' @ ''hi'' @ append_dsml_tool_calls_text (example_calls ''x<y && z''))) True no_message
     = (True, \<lparr>pm_content = Some ''hi'', pm_reasoning = Some ''r'', pm_calls = calls'\<rparr>)
     \<and> list_all2 (\<lambda>tc tc'. tc_name tc' = tc_name tc
          \<and> json_args_parse (tc_arguments tc') = json_args_parse (tc_arguments tc))
        (tcs_v (example_calls ''x<y && z'')) (tcs_v calls')
     \<and> append_dsml_tool_calls_text calls' = append_dsml_tool_calls_text (example_calls ''x<y && z'')"
  by (rule rendered_message_reads_back) code_simp+

text \<open>Where the round trip ends: an argument that holds \<open></think>\<close> loses the call, an entity
  in an argument is decoded, and a parameter name that ends in \<open>string=\<close> spoils the type.\<close>

lemma think_in_argument_loses_call:
  "pm_calls (snd (parse_generated_message_ex
     (Some (''r</think>'' @ append_dsml_tool_calls_text (example_calls ''</think>''))) True no_message))
   = empty_tool_calls"
  by code_simp

lemma entity_in_argument_decoded:
  "append_dsml_parameter_text (Some ''&lt;'') = ''&lt;''
   \<and> dsml_unescape_text (append_dsml_parameter_text (Some ''&lt;'')) = ''<''"
  by code_simp

lemma attr_name_confused:
  "dsml_attr (''<parameter name='' @ DQ @ ''string='' @ DQ @ '' string='' @ DQ @ ''true'' @ DQ @ ''>'')
     ''string'' = Some '' string=''"
  by code_simp

end
