(* ===== verification/DsmlTrack.thy ===== *)
theory DsmlTrack
  imports DsmlParse
begin

text \<open>
  The incremental recognizer of tool calls of \<open>ds4_server.c\<close> (lines 5820 to 5935 and 6071 to
  6236): after every generated piece it says whether the next token belongs to protocol syntax
  or to a payload, which chooses the sampling of the decode loop.  One call scans from where
  the last one stopped; \<open>tracker_step\<close> is one iteration of its loops, \<open>Inr\<close> to go on and
  \<open>Inl\<close> to return.
\<close>

section \<open>Bounded literals\<close>

definition raw_full_lit :: "string \<Rightarrow> nat \<Rightarrow> string \<Rightarrow> bool" where
  "raw_full_lit raw pos lit \<longleftrightarrow>
     pos \<le> length raw \<and> length raw - pos \<ge> length lit \<and> take (length lit) (drop pos raw) = lit"

definition raw_partial_lit_min :: "string \<Rightarrow> nat \<Rightarrow> string \<Rightarrow> nat \<Rightarrow> bool" where
  "raw_partial_lit_min raw pos lit min_len \<longleftrightarrow>
     \<not> (pos > length raw \<or> length raw - pos \<ge> length lit)
     \<and> length raw - pos \<ge> min_len \<and> drop pos raw = take (length raw - pos) lit"

definition find_lit_bounded :: "string \<Rightarrow> string \<Rightarrow> nat option" where
  "find_lit_bounded s lit =
     (if length lit = 0 then Some 0
      else if length s < length lit then None
      else find (\<lambda>i. take (length lit) (drop i s) = lit) [0..<Suc (length s - length lit)])"

text \<open>The first opening tag of any syntax, the position behind it, and its syntax.\<close>

definition earliest_start ::
  "string \<Rightarrow> (nat \<times> dsml_syntax) option \<Rightarrow> dsml_syntax \<Rightarrow> (nat \<times> dsml_syntax) option" where
  "earliest_start raw best syn =
     (case find_lit_bounded raw (tool_calls_start syn) of
        None \<Rightarrow> best
      | Some p \<Rightarrow> (case best of None \<Rightarrow> Some (p, syn)
                   | Some (b, _) \<Rightarrow> if p < b then Some (p, syn) else best))"

definition dsml_find_tool_start :: "string \<Rightarrow> (nat \<times> dsml_syntax) option" where
  "dsml_find_tool_start raw =
     (case foldl (earliest_start raw) None dsml_syntaxes of
        None \<Rightarrow> None
      | Some (b, syn) \<Rightarrow> Some (b + length (tool_calls_start syn), syn))"

definition dsml_find_tool_start_from :: "string \<Rightarrow> nat \<Rightarrow> (nat \<times> dsml_syntax) option" where
  "dsml_find_tool_start_from raw start =
     (if start > length raw then None
      else
        (case dsml_find_tool_start (drop start raw) of
           None \<Rightarrow> None
         | Some (rel, syn) \<Rightarrow> Some (start + rel, syn)))"

definition dsml_max_tool_start_len :: nat where
  "dsml_max_tool_start_len =
     foldl (\<lambda>m syn. if length (tool_calls_start syn) > m then length (tool_calls_start syn) else m)
       0 dsml_syntaxes"

definition dsml_attr_is_string_true :: "string \<Rightarrow> nat \<Rightarrow> nat \<Rightarrow> bool" where
  "dsml_attr_is_string_true raw tag_pos tag_end =
     (if tag_end \<le> tag_pos \<or> tag_end > length raw then False
      else dsml_attr (slice tag_pos tag_end raw) ''string'' = Some ''true'')"

section \<open>The tracker\<close>

datatype dsml_decode_state =
    DSML_DECODE_OUTSIDE
  | DSML_DECODE_STRUCTURAL
  | DSML_DECODE_STRING_BODY
  | DSML_DECODE_JSON_STRUCTURAL
  | DSML_DECODE_JSON_STRING

datatype dsml_track_mode =
    DSML_TRACK_SEARCH
  | DSML_TRACK_STRUCTURAL
  | DSML_TRACK_STRING_BODY
  | DSML_TRACK_JSON_PARAM
  | DSML_TRACK_DONE

record dsml_decode_tracker =
  dt_mode :: dsml_track_mode
  dt_decode :: dsml_decode_state
  dt_syn :: dsml_syntax
  dt_pos :: nat
  dt_json_in_string :: bool
  dt_json_escaped :: bool

definition dsml_decode_state_is_tool :: "dsml_decode_state \<Rightarrow> bool" where
  "dsml_decode_state_is_tool state \<longleftrightarrow> state \<noteq> DSML_DECODE_OUTSIDE"

definition dsml_decode_state_uses_payload_sampling :: "dsml_decode_state \<Rightarrow> bool" where
  "dsml_decode_state_uses_payload_sampling state \<longleftrightarrow>
     state = DSML_DECODE_STRING_BODY \<or> state = DSML_DECODE_JSON_STRING"

definition dsml_tokens_since_start :: "int \<Rightarrow> int \<Rightarrow> int" where
  "dsml_tokens_since_start completion start_completion =
     (if start_completion < 0 \<or> completion < start_completion then 0
      else completion - start_completion)"

text \<open>The syntax pointer is NULL until a start is found; no step reads it before that.\<close>

definition dsml_decode_tracker_init :: dsml_decode_tracker where
  "dsml_decode_tracker_init =
     \<lparr>dt_mode = DSML_TRACK_SEARCH, dt_decode = DSML_DECODE_OUTSIDE, dt_syn = syntax_of [],
      dt_pos = 0, dt_json_in_string = False, dt_json_escaped = False\<rparr>"

definition track_return :: "dsml_decode_tracker \<Rightarrow> dsml_decode_state \<Rightarrow>
    dsml_decode_tracker + dsml_decode_tracker" where
  "track_return dt state = Inl (dt\<lparr>dt_decode := state\<rparr>)"

definition track_param_end :: "dsml_decode_tracker \<Rightarrow> dsml_decode_tracker" where
  "track_param_end dt =
     dt\<lparr>dt_pos := dt_pos dt + length (param_end (dt_syn dt)),
        dt_mode := DSML_TRACK_STRUCTURAL, dt_decode := DSML_DECODE_STRUCTURAL\<rparr>"

definition track_search ::
  "string \<Rightarrow> dsml_decode_tracker \<Rightarrow> dsml_decode_tracker + dsml_decode_tracker" where
  "track_search raw dt =
     (case dsml_find_tool_start_from raw (dt_pos dt) of
        None \<Rightarrow>
          (let hold = dsml_max_tool_start_len in
           track_return
             (dt\<lparr>dt_pos := if length raw > hold then length raw - hold else 0\<rparr>) DSML_DECODE_OUTSIDE)
      | Some (pos, syn) \<Rightarrow>
          Inr (dt\<lparr>dt_syn := syn, dt_pos := pos, dt_mode := DSML_TRACK_STRUCTURAL,
                  dt_decode := DSML_DECODE_STRUCTURAL\<rparr>))"

definition track_string_body ::
  "string \<Rightarrow> dsml_decode_tracker \<Rightarrow> dsml_decode_tracker + dsml_decode_tracker" where
  "track_string_body raw dt =
     (if dt_pos dt < length raw then
        if raw_full_lit raw (dt_pos dt) (param_end (dt_syn dt)) then Inr (track_param_end dt)
        else if raw_partial_lit_min raw (dt_pos dt) (param_end (dt_syn dt)) 2
        then track_return dt DSML_DECODE_STRUCTURAL
        else Inr (dt\<lparr>dt_pos := dt_pos dt + 1\<rparr>)
      else track_return dt DSML_DECODE_STRING_BODY)"

text \<open>One character of a JSON value.\<close>

definition track_json_char :: "char \<Rightarrow> dsml_decode_tracker \<Rightarrow> dsml_decode_tracker" where
  "track_json_char c dt =
     (if dt_json_in_string dt then
        if dt_json_escaped dt then dt\<lparr>dt_json_escaped := False\<rparr>
        else if c = BSL then dt\<lparr>dt_json_escaped := True\<rparr>
        else if c = QUOT then dt\<lparr>dt_json_in_string := False\<rparr>
        else dt
      else if c = QUOT then dt\<lparr>dt_json_in_string := True\<rparr>
      else dt)"

definition track_json_param ::
  "string \<Rightarrow> dsml_decode_tracker \<Rightarrow> dsml_decode_tracker + dsml_decode_tracker" where
  "track_json_param raw dt =
     (if dt_pos dt < length raw then
        if \<not> dt_json_in_string dt \<and> raw_full_lit raw (dt_pos dt) (param_end (dt_syn dt))
        then Inr (track_param_end dt)
        else if \<not> dt_json_in_string dt \<and> raw_partial_lit_min raw (dt_pos dt) (param_end (dt_syn dt)) 2
        then track_return dt DSML_DECODE_STRUCTURAL
        else Inr (track_json_char (raw ! dt_pos dt) (dt\<lparr>dt_pos := dt_pos dt + 1\<rparr>))
      else
        track_return dt
          (if dt_json_in_string dt then DSML_DECODE_JSON_STRING else DSML_DECODE_JSON_STRUCTURAL))"

text \<open>Behind the opening tag of a parameter.\<close>

definition track_param_start ::
  "string \<Rightarrow> nat \<Rightarrow> dsml_decode_tracker \<Rightarrow> dsml_decode_tracker" where
  "track_param_start raw tag_after dt =
     (if dsml_attr_is_string_true raw (dt_pos dt) tag_after
      then dt\<lparr>dt_pos := tag_after, dt_mode := DSML_TRACK_STRING_BODY,
              dt_decode := DSML_DECODE_STRING_BODY\<rparr>
      else dt\<lparr>dt_pos := tag_after, dt_mode := DSML_TRACK_JSON_PARAM, dt_json_in_string := False,
              dt_json_escaped := False, dt_decode := DSML_DECODE_JSON_STRUCTURAL\<rparr>)"

text \<open>Incomplete and unknown tags both return with the structural state.\<close>

definition track_structural ::
  "string \<Rightarrow> dsml_decode_tracker \<Rightarrow> dsml_decode_tracker + dsml_decode_tracker" where
  "track_structural raw dt =
     (let pos = dt_pos dt; syn = dt_syn dt in
      if pos < length raw \<and> isspace (raw ! pos) then Inr (dt\<lparr>dt_pos := pos + 1\<rparr>)
      else if pos \<ge> length raw then track_return dt DSML_DECODE_STRUCTURAL
      else if raw_full_lit raw pos (tool_calls_end syn) then
        track_return (dt\<lparr>dt_mode := DSML_TRACK_DONE, dt_pos := pos + length (tool_calls_end syn)\<rparr>)
          DSML_DECODE_OUTSIDE
      else if raw_full_lit raw pos (invoke_end syn) then
        Inr (dt\<lparr>dt_pos := pos + length (invoke_end syn)\<rparr>)
      else if raw_full_lit raw pos (invoke_start syn) then
        (case strchr (drop pos raw) (CHR ''>'') of
           None \<Rightarrow> track_return dt DSML_DECODE_STRUCTURAL
         | Some i \<Rightarrow> Inr (dt\<lparr>dt_pos := pos + i + 1\<rparr>))
      else if raw_full_lit raw pos (param_start syn) then
        (case strchr (drop pos raw) (CHR ''>'') of
           None \<Rightarrow> track_return dt DSML_DECODE_STRUCTURAL
         | Some i \<Rightarrow> Inr (track_param_start raw (pos + i + 1) dt))
      else track_return dt DSML_DECODE_STRUCTURAL)"

definition tracker_step ::
  "string \<Rightarrow> dsml_decode_tracker \<Rightarrow> dsml_decode_tracker + dsml_decode_tracker" where
  "tracker_step raw dt =
     (case dt_mode dt of
        DSML_TRACK_DONE \<Rightarrow> track_return dt DSML_DECODE_OUTSIDE
      | DSML_TRACK_SEARCH \<Rightarrow> track_search raw dt
      | DSML_TRACK_STRING_BODY \<Rightarrow> track_string_body raw dt
      | DSML_TRACK_JSON_PARAM \<Rightarrow> track_json_param raw dt
      | DSML_TRACK_STRUCTURAL \<Rightarrow> track_structural raw dt)"

text \<open>
  The loop, with one unit of fuel per byte left and one more: every continued step moves the
  position forward inside the text (\<open>tracker_step_progress\<close> below), so the fuel never runs
  out.
\<close>

fun tracker_run :: "nat \<Rightarrow> string \<Rightarrow> dsml_decode_tracker \<Rightarrow> dsml_decode_tracker option" where
  "tracker_run 0 raw dt = None"
| "tracker_run (Suc fuel) raw dt =
     (case tracker_step raw dt of
        Inl dt' \<Rightarrow> Some dt'
      | Inr dt' \<Rightarrow> tracker_run fuel raw dt')"

definition dsml_decode_tracker_update ::
  "string \<Rightarrow> dsml_decode_tracker \<Rightarrow> dsml_decode_tracker option" where
  "dsml_decode_tracker_update raw dt = tracker_run (Suc (length raw)) raw dt"

section \<open>Literals in a growing text\<close>

lemma raw_full_lit_prefix:
  assumes "lit \<noteq> []"
  shows "raw_full_lit raw pos lit \<longleftrightarrow> prefix lit (drop pos raw)"
proof
  assume p: "prefix lit (drop pos raw)"
  then have "length lit \<le> length raw - pos" using prefix_length_le by fastforce
  moreover have "0 < length lit" using assms by simp
  ultimately have "pos \<le> length raw" by linarith
  with p \<open>length lit \<le> length raw - pos\<close> show "raw_full_lit raw pos lit"
    by (simp add: raw_full_lit_def prefix_take_iff)
qed (simp add: raw_full_lit_def prefix_take_iff)

lemma raw_full_lit_append:
  "lit \<noteq> [] \<Longrightarrow> raw_full_lit raw pos lit \<Longrightarrow> raw_full_lit (raw @ x) pos lit"
  by (simp add: raw_full_lit_prefix prefix_appendI)

lemma prefix_append_cases: "prefix lit (a @ x) \<Longrightarrow> prefix lit a \<or> prefix a lit"
  by (metis prefix_def prefix_same_cases)

text \<open>A literal that is neither there nor begun at least two bytes long does not appear later.\<close>

lemma no_full_lit_append:
  assumes "lt_tag lit" "\<not> raw_full_lit raw pos lit" "\<not> raw_partial_lit_min raw pos lit 2"
    "pos < length raw" "last raw \<noteq> CHR ''<''"
  shows "\<not> raw_full_lit (raw @ x) pos lit"
proof
  have ne: "lit \<noteq> []" using assms(1) by (simp add: lt_tag_def)
  assume "raw_full_lit (raw @ x) pos lit"
  then have "prefix lit (drop pos raw @ x)"
    using ne assms(4) by (simp add: raw_full_lit_prefix)
  then have p: "prefix (drop pos raw) lit" "drop pos raw \<noteq> lit"
    using assms(2) ne prefix_append_cases by (auto simp: raw_full_lit_prefix)
  then have eq: "drop pos raw = take (length raw - pos) lit"
    by (simp add: prefix_take_iff)
  have less: "length raw - pos < length lit"
  proof (rule ccontr)
    assume "\<not> length raw - pos < length lit"
    with eq have "drop pos raw = lit" by simp
    with p(2) show False by simp
  qed
  show False
  proof (cases "length raw - pos \<ge> 2")
    case True
    with eq less assms(3,4) show False by (simp add: raw_partial_lit_min_def)
  next
    case False
    with assms(4) have "pos = length raw - 1" by simp
    then have "drop pos raw = [last raw]"
      using assms(4) by (cases raw rule: rev_cases) auto
    with p(1) assms(1,5) show False by (cases lit) (auto simp: lt_tag_def)
  qed
qed

lemma no_partial_lit_append:
  assumes "lt_tag lit" "\<not> raw_full_lit raw pos lit" "\<not> raw_partial_lit_min raw pos lit 2"
    "pos < length raw" "last raw \<noteq> CHR ''<''"
  shows "\<not> raw_partial_lit_min (raw @ x) pos lit 2"
proof
  assume a: "raw_partial_lit_min (raw @ x) pos lit 2"
  define y where "y = drop (length raw + length x - pos) lit"
  have "prefix lit (drop pos (raw @ x @ y))"
  proof -
    have "drop pos (raw @ x) = take (length raw + length x - pos) lit"
      using a by (simp add: raw_partial_lit_min_def)
    then have "drop pos (raw @ x) @ y = lit" by (simp add: y_def)
    then show ?thesis using assms(4) by simp
  qed
  then have "raw_full_lit (raw @ x @ y) pos lit"
    using assms(1) by (simp add: raw_full_lit_prefix lt_tag_def)
  with no_full_lit_append [OF assms] show False by blast
qed

lemma find_lit_bounded_strstr:
  assumes "lit \<noteq> []"
  shows "find_lit_bounded s lit = strstr s lit"
proof (cases "length s < length lit")
  case True
  then have "strstr s lit = None"
    unfolding strstr_None_iff by (metis le_trans length_drop diff_le_self not_less prefix_length_le)
  with True assms show ?thesis by (simp add: find_lit_bounded_def)
next
  case False
  have iff: "find_lit_bounded s lit = Some i \<longleftrightarrow> strstr s lit = Some i" for i
  proof -
    have "find_lit_bounded s lit = Some i \<longleftrightarrow>
        i < Suc (length s - length lit) \<and> prefix lit (drop i s) \<and> (\<forall>j\<in>{0..<i}. \<not> prefix lit (drop j s))"
    proof -
      have e: "find_lit_bounded s lit =
          find (\<lambda>i. take (length lit) (drop i s) = lit) [0..<Suc (length s - length lit)]"
        using False assms by (simp add: find_lit_bounded_def del: upt_Suc)
      show ?thesis unfolding e find_upt_iff prefix_take_iff by auto
    qed
    moreover have "i \<le> length s - length lit" if "prefix lit (drop i s)"
    proof -
      have "0 < length lit" "length lit \<le> length s - i"
        using assms prefix_length_le [OF that] by simp_all
      then show ?thesis by arith
    qed
    ultimately show ?thesis using False by (auto simp: strstr_Some_iff)
  qed
  show ?thesis
    by (cases "strstr s lit"; cases "find_lit_bounded s lit") (use iff in auto)
qed

section \<open>The first opening tag\<close>

definition start_at :: "string \<Rightarrow> nat \<Rightarrow> dsml_syntax \<Rightarrow> bool" where
  "start_at raw i syn \<longleftrightarrow> syn \<in> set dsml_syntaxes \<and> prefix (tool_calls_start syn) (drop i raw)"

lemma start_at_unique: "start_at raw i syn \<Longrightarrow> start_at raw i syn' \<Longrightarrow> syn = syn'"
  unfolding start_at_def
  by (elim conjE syntax_cases; cases "drop i raw"; cases "tl (drop i raw)")
    (simp_all add: tag_defs)

lemma syntax_start_ne: "syn \<in> set dsml_syntaxes \<Longrightarrow> tool_calls_start syn \<noteq> []"
  using syntax_start_lt by (auto simp: lt_tag_def)

lemma start_at_bound: "start_at raw i syn \<Longrightarrow> i + length (tool_calls_start syn) \<le> length raw"
proof -
  assume a: "start_at raw i syn"
  then have "length (tool_calls_start syn) \<le> length raw - i"
    unfolding start_at_def using prefix_length_le by fastforce
  moreover have "0 < length (tool_calls_start syn)"
    using a syntax_start_ne by (auto simp: start_at_def)
  ultimately show ?thesis by linarith
qed

lemma earliest_fold:
  assumes "set xs \<subseteq> set dsml_syntaxes"
  shows "(case foldl (earliest_start raw) None xs of
      None \<Rightarrow> \<forall>syn\<in>set xs. \<forall>j. \<not> start_at raw j syn
    | Some (i, syn) \<Rightarrow> syn \<in> set xs \<and> start_at raw i syn
        \<and> (\<forall>syn'\<in>set xs. \<forall>j<i. \<not> start_at raw j syn'))"
  using assms
proof (induction xs rule: rev_induct)
  case (snoc syn xs)
  let ?lit = "tool_calls_start syn"
  have syn: "syn \<in> set dsml_syntaxes" using snoc.prems by simp
  have ne: "?lit \<noteq> []" by (rule syntax_start_ne [OF syn])
  have none: "\<forall>j. \<not> start_at raw j syn" if "strstr raw ?lit = None"
  proof (intro allI notI)
    fix j assume "start_at raw j syn"
    with start_at_bound [OF this] that show False by (auto simp: start_at_def strstr_None_iff)
  qed
  have some: "start_at raw p syn \<and> (\<forall>j<p. \<not> start_at raw j syn)" if "strstr raw ?lit = Some p" for p
    using that syn by (auto simp: start_at_def strstr_Some_iff)
  show ?case
    using snoc none some
    by (auto simp: earliest_start_def find_lit_bounded_strstr [OF ne] split: option.splits)
qed simp

lemma dsml_find_tool_start_None:
  "dsml_find_tool_start raw = None \<longleftrightarrow> (\<forall>i syn. \<not> start_at raw i syn)"
  using earliest_fold [of dsml_syntaxes raw]
  by (auto simp: dsml_find_tool_start_def start_at_def split: option.splits)

lemma dsml_find_tool_start_Some:
  "dsml_find_tool_start raw = Some (q, syn) \<longleftrightarrow>
     (\<exists>i. q = i + length (tool_calls_start syn) \<and> start_at raw i syn
        \<and> (\<forall>j<i. \<forall>syn'. \<not> start_at raw j syn'))"
proof -
  obtain r where r: "foldl (earliest_start raw) None dsml_syntaxes = r" by blast
  show ?thesis
  proof (cases r)
    case None
    then have n: "dsml_find_tool_start raw = None" using r by (simp add: dsml_find_tool_start_def)
    then have "\<forall>i syn. \<not> start_at raw i syn" using dsml_find_tool_start_None by blast
    then show ?thesis unfolding n by auto
  next
    case (Some b)
    obtain i0 syn0 where b: "b = (i0, syn0)" by (cases b)
    have m: "start_at raw i0 syn0" "\<forall>j<i0. \<forall>syn'. \<not> start_at raw j syn'"
      using earliest_fold [of dsml_syntaxes raw] r Some b by (auto simp: start_at_def)
    have "i = i0 \<and> syn = syn0" if "start_at raw i syn" "\<forall>j<i. \<forall>syn'. \<not> start_at raw j syn'" for i
      using that m start_at_unique by (metis linorder_neqE_nat)
    with m show ?thesis using r Some b by (auto simp: dsml_find_tool_start_def)
  qed
qed

lemma start_at_append: "start_at raw i syn \<Longrightarrow> start_at (raw @ x) i syn"
  using start_at_bound [of raw i syn] by (auto simp: start_at_def prefix_appendI)

text \<open>A tag that begins before another one cannot be cut off by the end of the text behind it.\<close>

lemma start_at_append_before:
  assumes "start_at (raw @ x) j syn'" "start_at raw i syn" "j < i"
  shows "start_at raw j syn'"
proof -
  let ?l = "tool_calls_start syn'"
  have lt: "lt_tag ?l" "lt_tag (tool_calls_start syn)"
    using assms(1,2) syntax_start_lt by (auto simp: start_at_def)
  have i: "i + length (tool_calls_start syn) \<le> length raw" by (rule start_at_bound [OF assms(2)])
  have len: "0 < length (tool_calls_start syn)" using lt(2) by (simp add: lt_tag_def)
  have "raw ! i = CHR ''<''"
  proof -
    obtain z where "drop i raw = tool_calls_start syn @ z"
      using assms(2) by (auto simp: start_at_def prefix_def)
    then have "drop i raw ! 0 = hd (tool_calls_start syn)"
      using len by (simp add: nth_append hd_conv_nth)
    with i len lt(2) show ?thesis by (simp add: lt_tag_def)
  qed
  have "j + length ?l \<le> i"
  proof (rule ccontr)
    assume "\<not> j + length ?l \<le> i"
    then have k: "i - j < length ?l" "0 < i - j" using assms(3) by auto
    obtain z where "drop j (raw @ x) = ?l @ z" using assms(1) by (auto simp: start_at_def prefix_def)
    then have "?l ! (i - j) = drop j (raw @ x) ! (i - j)" using k(1) by (simp add: nth_append)
    also have "\<dots> = (raw @ x) ! i" using assms(3) i len by (subst nth_drop) auto
    also have "\<dots> = CHR ''<''"
    proof -
      have "i < length raw" using i len by linarith
      then show ?thesis using \<open>raw ! i = CHR ''<''\<close> by (simp add: nth_append)
    qed
    finally have "CHR ''<'' = ?l ! (i - j)" ..
    moreover have "?l ! (i - j) \<in> set (tl ?l)" using k by (cases ?l) auto
    ultimately show False using lt(1) by (simp add: lt_tag_def)
  qed
  moreover have "prefix ?l (drop j raw @ x)" using assms(1,3) i by (simp add: start_at_def)
  ultimately show ?thesis
    using assms(1) i by (auto simp: start_at_def prefix_append_long)
qed

lemma drop_start_at: "start_at (drop k raw) i syn \<longleftrightarrow> start_at raw (k + i) syn"
  by (simp add: start_at_def add.commute)

lemma find_from_append:
  assumes "dsml_find_tool_start_from raw p = Some (q, syn)"
  shows "dsml_find_tool_start_from (raw @ x) p = Some (q, syn)" "p < q" "q \<le> length raw"
    "syn \<in> set dsml_syntaxes"
proof -
  from assms obtain i where i: "p \<le> length raw" "q = p + (i + length (tool_calls_start syn))"
    "start_at (drop p raw) i syn" "\<forall>j<i. \<forall>syn'. \<not> start_at (drop p raw) j syn'"
    by (auto simp: dsml_find_tool_start_from_def dsml_find_tool_start_Some split: if_splits option.splits)
  have "\<forall>j<i. \<forall>syn'. \<not> start_at (drop p raw @ x) j syn'"
    using i(3,4) start_at_append_before by blast
  with i show "dsml_find_tool_start_from (raw @ x) p = Some (q, syn)"
    using start_at_append [OF i(3)] dsml_find_tool_start_Some
      [of "drop p raw @ x" "i + length (tool_calls_start syn)" syn]
    by (auto simp: dsml_find_tool_start_from_def)
  show s: "syn \<in> set dsml_syntaxes" using i(3) by (simp add: start_at_def)
  show "p < q" using i(2) syntax_start_ne [OF s] by simp
  show "q \<le> length raw" using i(1,2) start_at_bound [OF i(3)] by simp
qed

text \<open>When no tag is complete, one that completes later begins in the held-back tail.\<close>

lemma max_start_len: "syn \<in> set dsml_syntaxes \<Longrightarrow> length (tool_calls_start syn) \<le> dsml_max_tool_start_len"
  by (erule syntax_cases) (simp_all add: dsml_max_tool_start_len_def dsml_syntaxes_def tag_defs)

lemma find_from_hold:
  assumes "dsml_find_tool_start_from raw p = None" "p \<le> length raw"
    and "h \<le> length raw - dsml_max_tool_start_len" "p \<le> h"
  shows "dsml_find_tool_start_from (raw @ x) p = dsml_find_tool_start_from (raw @ x) h"
proof -
  have none: "\<not> start_at raw (p + i) syn" for i syn
    using assms(1,2) by (auto simp: dsml_find_tool_start_from_def dsml_find_tool_start_None
        drop_start_at split: option.splits)
  have before: "\<not> start_at (raw @ x) j syn" if "p \<le> j" "j < h" for j syn
  proof
    assume a: "start_at (raw @ x) j syn"
    then have "length (tool_calls_start syn) \<le> dsml_max_tool_start_len"
      by (intro max_start_len) (simp add: start_at_def)
    with that assms(3) have "j + length (tool_calls_start syn) \<le> length raw" by linarith
    with a have "start_at raw j syn" by (auto simp: start_at_def prefix_append_long)
    with none [of "j - p" syn] that show False by simp
  qed
  have shift: "start_at (raw @ x) (p + i) syn \<longleftrightarrow> h - p \<le> i \<and> start_at (raw @ x) (h + (i - (h - p))) syn"
    for i syn
  proof (cases "h - p \<le> i")
    case True
    then have "p + i = h + (i - (h - p))" using assms(4) by simp
    with True show ?thesis by simp
  next
    case False
    with before [of "p + i" syn] show ?thesis by simp
  qed
  have ph: "p \<le> length (raw @ x)" "h \<le> length (raw @ x)" using assms(2-4) by auto
  show ?thesis
  proof (cases "dsml_find_tool_start (drop h (raw @ x))")
    case None
    then have "\<not> start_at (raw @ x) (h + i) syn" for i syn
      unfolding dsml_find_tool_start_None drop_start_at by blast
    then have "dsml_find_tool_start (drop p (raw @ x)) = None"
      unfolding dsml_find_tool_start_None drop_start_at shift by blast
    with None ph show ?thesis by (simp add: dsml_find_tool_start_from_def)
  next
    case (Some qs)
    obtain q syn where qs: "qs = (q, syn)" by (cases qs)
    have "dsml_find_tool_start (drop h (raw @ x)) = Some (q, syn)" using Some qs by simp
    from this [unfolded dsml_find_tool_start_Some drop_start_at] obtain i where i: "q = i + length (tool_calls_start syn)" "start_at (raw @ x) (h + i) syn"
      "\<forall>j<i. \<forall>syn'. \<not> start_at (raw @ x) (h + j) syn'"
      by blast
    have "dsml_find_tool_start (drop p (raw @ x)) = Some (h - p + q, syn)"
      unfolding dsml_find_tool_start_Some drop_start_at
    proof (intro exI [of _ "h - p + i"] conjI allI impI)
      fix j syn' assume j: "j < h - p + i"
      show "\<not> start_at (raw @ x) (p + j) syn'"
      proof
        assume "start_at (raw @ x) (p + j) syn'"
        then have k: "h - p \<le> j" "start_at (raw @ x) (h + (j - (h - p))) syn'"
          unfolding shift by blast+
        have "j - (h - p) < i" using j k(1) by linarith
        with i(3) k(2) show False by blast
      qed
    qed (use i assms(4) in auto)
    with Some qs ph assms(4) show ?thesis by (simp add: dsml_find_tool_start_from_def)
  qed
qed

section \<open>Steps in a growing text\<close>

definition tracker_ok :: "nat \<Rightarrow> dsml_decode_tracker \<Rightarrow> bool" where
  "tracker_ok n dt \<longleftrightarrow> dt_syn dt \<in> set dsml_syntaxes
     \<and> dt_pos dt \<le> (if dt_mode dt = DSML_TRACK_SEARCH then n - dsml_max_tool_start_len else n)"

lemma tracker_ok_pos: "tracker_ok n dt \<Longrightarrow> dt_pos dt \<le> n"
  by (auto simp: tracker_ok_def split: if_splits)

lemma tracker_ok_mono: "tracker_ok n dt \<Longrightarrow> n \<le> m \<Longrightarrow> tracker_ok m dt"
  by (auto simp: tracker_ok_def split: if_splits)

lemma tracker_ok_init: "tracker_ok n dsml_decode_tracker_init"
  by (simp add: tracker_ok_def dsml_decode_tracker_init_def dsml_syntaxes_def dsml_plain_def)

lemma syntax_lt:
  assumes "syn \<in> set dsml_syntaxes"
  shows "lt_tag (tool_calls_end syn)" "lt_tag (invoke_start syn)" "lt_tag (invoke_end syn)"
    "lt_tag (param_start syn)" "lt_tag (param_end syn)"
  using syntax_tags_lt [OF assms] by (simp_all add: syntax_tags_def)

lemma syntax_ne:
  assumes "syn \<in> set dsml_syntaxes"
  shows "tool_calls_end syn \<noteq> []" "invoke_start syn \<noteq> []" "invoke_end syn \<noteq> []"
    "param_start syn \<noteq> []" "param_end syn \<noteq> []"
  using syntax_lt [OF assms] by (simp_all add: lt_tag_def)

text \<open>The tags of one syntax exclude each other at a position.\<close>

lemma syntax_exclusive:
  assumes "syn \<in> set dsml_syntaxes"
  shows "prefix (invoke_end syn) s \<Longrightarrow> \<not> prefix (tool_calls_end syn) s"
    "prefix (invoke_start syn) s \<Longrightarrow> \<not> prefix (tool_calls_end syn) s \<and> \<not> prefix (invoke_end syn) s"
    "prefix (param_start syn) s \<Longrightarrow> \<not> prefix (tool_calls_end syn) s \<and> \<not> prefix (invoke_end syn) s
       \<and> \<not> prefix (invoke_start syn) s"
  using assms by (auto elim!: syntax_cases simp: prefix_def tag_defs)

lemma full_lit_length: "raw_full_lit raw pos lit \<Longrightarrow> pos + length lit \<le> length raw"
  by (auto simp: raw_full_lit_def)

lemma strchr_less: "strchr s c = Some i \<Longrightarrow> i < length s"
  by (simp add: strchr_Some_iff)

lemma slice_append: "b \<le> length s \<Longrightarrow> slice a b (s @ x) = slice a b s"
  by (simp add: slice_def)

lemma is_string_true_append:
  "b \<le> length raw \<Longrightarrow> dsml_attr_is_string_true (raw @ x) a b = dsml_attr_is_string_true raw a b"
  by (simp add: dsml_attr_is_string_true_def slice_append)

lemma track_search_Inr:
  assumes "tracker_ok (length raw) dt" "track_search raw dt = Inr dt'"
  shows "track_search (raw @ x) dt = Inr dt' \<and> tracker_ok (length raw) dt' \<and> dt_pos dt < dt_pos dt'"
proof -
  obtain q syn where q: "dsml_find_tool_start_from raw (dt_pos dt) = Some (q, syn)"
    using assms(2)
    by (cases "dsml_find_tool_start_from raw (dt_pos dt)") (auto simp: track_search_def track_return_def Let_def)
  with assms find_from_append(1) [OF q, of x] find_from_append(2-4) [OF q] show ?thesis
    by (auto simp: track_search_def tracker_ok_def)
qed

lemma track_param_end_ok:
  assumes "tracker_ok n dt" "dt_pos dt + length (param_end (dt_syn dt)) \<le> n"
  shows "tracker_ok n (track_param_end dt) \<and> dt_pos dt < dt_pos (track_param_end dt)"
  using assms syntax_ne(5) [of "dt_syn dt"] by (auto simp: tracker_ok_def track_param_end_def)

lemma track_string_body_Inr:
  assumes ok: "tracker_ok (length raw) dt" and m: "dt_mode dt = DSML_TRACK_STRING_BODY"
    and s: "track_string_body raw dt = Inr dt'" and l: "last raw \<noteq> CHR ''<''"
  shows "track_string_body (raw @ x) dt = Inr dt' \<and> tracker_ok (length raw) dt' \<and> dt_pos dt < dt_pos dt'"
proof -
  let ?lit = "param_end (dt_syn dt)"
  have syn: "dt_syn dt \<in> set dsml_syntaxes" using ok by (simp add: tracker_ok_def)
  have p: "dt_pos dt < length raw" using s by (auto simp: track_string_body_def track_return_def split: if_splits)
  show ?thesis
  proof (cases "raw_full_lit raw (dt_pos dt) ?lit")
    case True
    then have "dt' = track_param_end dt" using s p by (auto simp: track_string_body_def)
    moreover have "raw_full_lit (raw @ x) (dt_pos dt) ?lit"
      using raw_full_lit_append [OF syntax_ne(5) [OF syn] True] .
    ultimately show ?thesis
      using p track_param_end_ok [OF ok full_lit_length [OF True]] by (simp add: track_string_body_def)
  next
    case False
    with s p have n: "\<not> raw_partial_lit_min raw (dt_pos dt) ?lit 2" "dt' = dt\<lparr>dt_pos := dt_pos dt + 1\<rparr>"
      by (auto simp: track_string_body_def track_return_def split: if_splits)
    have "\<not> raw_full_lit (raw @ x) (dt_pos dt) ?lit"
      by (rule no_full_lit_append [OF syntax_lt(5) [OF syn] False n(1) p l])
    moreover have "\<not> raw_partial_lit_min (raw @ x) (dt_pos dt) ?lit 2"
      by (rule no_partial_lit_append [OF syntax_lt(5) [OF syn] False n(1) p l])
    ultimately show ?thesis using n(2) p ok m by (auto simp: track_string_body_def tracker_ok_def)
  qed
qed

lemma track_json_char_simps [simp]:
  "dt_pos (track_json_char c dt) = dt_pos dt" "dt_mode (track_json_char c dt) = dt_mode dt"
  "dt_syn (track_json_char c dt) = dt_syn dt"
  by (simp_all add: track_json_char_def)

lemma track_json_param_Inr:
  assumes ok: "tracker_ok (length raw) dt" and m: "dt_mode dt = DSML_TRACK_JSON_PARAM"
    and s: "track_json_param raw dt = Inr dt'" and l: "last raw \<noteq> CHR ''<''"
  shows "track_json_param (raw @ x) dt = Inr dt' \<and> tracker_ok (length raw) dt' \<and> dt_pos dt < dt_pos dt'"
proof -
  let ?lit = "param_end (dt_syn dt)"
  have syn: "dt_syn dt \<in> set dsml_syntaxes" using ok by (simp add: tracker_ok_def)
  have p: "dt_pos dt < length raw" using s by (auto simp: track_json_param_def track_return_def split: if_splits)
  have nth: "(raw @ x) ! dt_pos dt = raw ! dt_pos dt" using p by (simp add: nth_append)
  show ?thesis
  proof (cases "\<not> dt_json_in_string dt \<and> raw_full_lit raw (dt_pos dt) ?lit")
    case True
    then have "dt' = track_param_end dt" using s p by (auto simp: track_json_param_def)
    moreover have "raw_full_lit (raw @ x) (dt_pos dt) ?lit"
      using raw_full_lit_append [OF syntax_ne(5) [OF syn]] True by blast
    ultimately show ?thesis
      using p True track_param_end_ok [OF ok full_lit_length] by (auto simp: track_json_param_def)
  next
    case False
    with s p have n: "dt_json_in_string dt \<or> \<not> raw_partial_lit_min raw (dt_pos dt) ?lit 2"
      "dt' = track_json_char (raw ! dt_pos dt) (dt\<lparr>dt_pos := dt_pos dt + 1\<rparr>)"
      by (auto simp: track_json_param_def track_return_def split: if_splits)
    have "dt_json_in_string dt \<or> \<not> raw_full_lit (raw @ x) (dt_pos dt) ?lit
        \<and> \<not> raw_partial_lit_min (raw @ x) (dt_pos dt) ?lit 2"
      using no_full_lit_append [OF syntax_lt(5) [OF syn] _ _ p l]
        no_partial_lit_append [OF syntax_lt(5) [OF syn] _ _ p l] False n(1) by blast
    then show ?thesis using n(2) p ok m nth by (auto simp: track_json_param_def tracker_ok_def)
  qed
qed

lemma track_param_start_ok:
  assumes "tracker_ok n dt" "dt_pos dt < q" "q \<le> n"
  shows "tracker_ok n (track_param_start raw q dt) \<and> dt_pos dt < dt_pos (track_param_start raw q dt)"
  using assms by (auto simp: tracker_ok_def track_param_start_def)

lemma track_structural_Inr:
  assumes ok: "tracker_ok (length raw) dt" and m: "dt_mode dt = DSML_TRACK_STRUCTURAL"
    and s: "track_structural raw dt = Inr dt'"
  shows "track_structural (raw @ x) dt = Inr dt' \<and> tracker_ok (length raw) dt' \<and> dt_pos dt < dt_pos dt'"
proof -
  let ?p = "dt_pos dt" and ?syn = "dt_syn dt" and ?s = "drop (dt_pos dt) raw"
  have syn: "?syn \<in> set dsml_syntaxes" using ok by (simp add: tracker_ok_def)
  note ne = syntax_ne [OF syn]
  note lit = raw_full_lit_prefix [OF ne(1)] raw_full_lit_prefix [OF ne(2)]
    raw_full_lit_prefix [OF ne(3)] raw_full_lit_prefix [OF ne(4)]
  have p: "?p < length raw"
    using s by (auto simp: track_structural_def Let_def track_return_def split: if_splits)
  have nth: "(raw @ x) ! ?p = raw ! ?p" and dr: "drop ?p (raw @ x) = ?s @ x"
    using p by (simp_all add: nth_append)
  have gt: "strchr (?s @ x) (CHR ''>'') = Some i" if "strchr ?s (CHR ''>'') = Some i" for i
    using that by (simp add: strchr_append)
  show ?thesis
  proof (cases "isspace (raw ! ?p)")
    case True
    with s p ok m nth show ?thesis by (auto simp: track_structural_def Let_def tracker_ok_def)
  next
    case sp: False
    consider (ie) "prefix (invoke_end ?syn) ?s" | (iv) "prefix (invoke_start ?syn) ?s"
      | (ps) "prefix (param_start ?syn) ?s"
      using s p sp by (auto simp: track_structural_def Let_def track_return_def lit split: if_splits)
    then show ?thesis
    proof cases
      case ie
      note e = syntax_exclusive(1) [OF syn ie] syntax_exclusive(1) [OF syn prefix_appendI [OF ie, of x]]
      have "?p + length (invoke_end ?syn) \<le> length raw"
        using ie full_lit_length lit(3) by blast
      with s p sp ie e ok m nth ne(3) prefix_appendI [OF ie, of x] show ?thesis
        by (auto simp: track_structural_def Let_def lit dr tracker_ok_def)
    next
      case iv
      note e = syntax_exclusive(2) [OF syn iv] syntax_exclusive(2) [OF syn prefix_appendI [OF iv, of x]]
      from s p sp iv e obtain i where i: "strchr ?s (CHR ''>'') = Some i"
        by (auto simp: track_structural_def Let_def lit track_return_def split: option.splits)
      with s p sp iv e ok m nth prefix_appendI [OF iv, of x] gt [OF i] strchr_less [OF i] show ?thesis
        by (auto simp: track_structural_def Let_def lit dr tracker_ok_def)
    next
      case ps
      note e = syntax_exclusive(3) [OF syn ps] syntax_exclusive(3) [OF syn prefix_appendI [OF ps, of x]]
      from s p sp ps e obtain i where i: "strchr ?s (CHR ''>'') = Some i"
        by (auto simp: track_structural_def Let_def lit track_return_def split: option.splits)
      have b: "?p + i + 1 \<le> length raw" using strchr_less [OF i] by simp
      have d: "dt' = track_param_start raw (?p + i + 1) dt"
        using s p sp ps e i by (auto simp: track_structural_def Let_def lit)
      have "track_param_start (raw @ x) (?p + i + 1) dt = dt'"
        unfolding d track_param_start_def is_string_true_append [OF b] ..
      then have "track_structural (raw @ x) dt = Inr dt'"
        using p sp e nth prefix_appendI [OF ps, of x] gt [OF i]
        by (auto simp: track_structural_def Let_def lit dr)
      with track_param_start_ok [OF ok _ b, of raw] d show ?thesis by auto
    qed
  qed
qed

text \<open>A step that goes on goes on alike in a longer text, forward and inside the text.\<close>

lemma tracker_step_progress:
  assumes "tracker_ok (length raw) dt" "tracker_step raw dt = Inr dt'" "last raw \<noteq> CHR ''<''"
  shows "tracker_step (raw @ x) dt = Inr dt' \<and> tracker_ok (length raw) dt' \<and> dt_pos dt < dt_pos dt'"
  using assms track_search_Inr [OF assms(1), of dt' x] track_string_body_Inr [OF assms(1), of dt' x]
    track_json_param_Inr [OF assms(1), of dt' x] track_structural_Inr [OF assms(1), of dt' x]
  by (cases "dt_mode dt") (simp_all add: tracker_step_def track_return_def)

definition undecoded :: "dsml_decode_tracker \<Rightarrow> dsml_decode_tracker" where
  "undecoded dt = dt\<lparr>dt_decode := DSML_DECODE_OUTSIDE\<rparr>"

text \<open>No step reads the decode state, and a step that returns sets it.\<close>

lemma tracker_step_undecoded:
  assumes "undecoded dt = undecoded dt2"
  shows "(case tracker_step raw dt of
      Inl a \<Rightarrow> tracker_step raw dt2 = Inl a
    | Inr b \<Rightarrow> \<exists>b2. tracker_step raw dt2 = Inr b2 \<and> undecoded b = undecoded b2)"
proof -
  obtain d where d: "dt2 = dt\<lparr>dt_decode := d\<rparr>"
    using assms by (cases dt; cases dt2) (auto simp: undecoded_def)
  show ?thesis
    unfolding d
    by (cases "dt_mode dt")
      (auto simp: tracker_step_def track_return_def track_search_def track_string_body_def
        track_json_param_def track_json_char_def track_structural_def track_param_end_def
        track_param_start_def undecoded_def Let_def split: option.splits)
qed

lemma tracker_run_undecoded:
  "undecoded dt = undecoded dt2 \<Longrightarrow> tracker_run n raw dt = tracker_run n raw dt2"
proof (induction n arbitrary: dt dt2)
  case (Suc n)
  show ?case
  proof (cases "tracker_step raw dt")
    case (Inl a)
    with tracker_step_undecoded [OF Suc.prems, of raw] show ?thesis by simp
  next
    case (Inr b)
    with tracker_step_undecoded [OF Suc.prems, of raw] obtain b2 where
      "tracker_step raw dt2 = Inr b2" "undecoded b = undecoded b2" by auto
    with Inr Suc.IH [of b b2] show ?thesis by simp
  qed
qed simp

lemma undecoded_simps:
  "dt_syn (undecoded dt) = dt_syn dt" "dt_mode (undecoded dt) = dt_mode dt"
  "dt_pos (undecoded dt) = dt_pos dt"
  by (simp_all add: undecoded_def)

lemma tracker_ok_undecoded:
  "undecoded dt1 = undecoded dt \<Longrightarrow> tracker_ok n dt \<Longrightarrow> tracker_ok n dt1"
  unfolding tracker_ok_def by (metis undecoded_simps)

lemma tracker_step_return:
  assumes "tracker_ok (length raw) dt" "tracker_step raw dt = Inl dt1"
  shows "tracker_ok (length raw) dt1 \<and> tracker_run n (raw @ x) dt1 = tracker_run n (raw @ x) dt"
proof (cases "dt_mode dt")
  case DSML_TRACK_SEARCH
  then have f: "dsml_find_tool_start_from raw (dt_pos dt) = None"
    using assms(2) by (auto simp: tracker_step_def track_search_def split: option.splits)
  let ?h = "length raw - dsml_max_tool_start_len"
  have d: "dt1 = dt\<lparr>dt_pos := ?h, dt_decode := DSML_DECODE_OUTSIDE\<rparr>"
    using assms(2) DSML_TRACK_SEARCH f
    by (auto simp: tracker_step_def track_search_def track_return_def Let_def)
  have "dt_pos dt \<le> ?h" using assms(1) DSML_TRACK_SEARCH by (simp add: tracker_ok_def)
  then have "dsml_find_tool_start_from (raw @ x) (dt_pos dt) = dsml_find_tool_start_from (raw @ x) ?h"
    using find_from_hold [OF f, of ?h x] by simp
  then have "tracker_step (raw @ x) dt1 = tracker_step (raw @ x) dt"
    unfolding d tracker_step_def using DSML_TRACK_SEARCH
    by (simp add: track_search_def track_return_def Let_def split: option.splits)
  then have "tracker_run n (raw @ x) dt1 = tracker_run n (raw @ x) dt"
    by (cases n) simp_all
  with assms(1) d DSML_TRACK_SEARCH show ?thesis by (simp add: tracker_ok_def)
next
  case DSML_TRACK_STRUCTURAL
  show ?thesis
  proof (cases "dt_mode dt1 = DSML_TRACK_DONE")
    case True
    let ?l = "tool_calls_end (dt_syn dt)"
    have syn: "dt_syn dt \<in> set dsml_syntaxes" using assms(1) by (simp add: tracker_ok_def)
    have k: "dt_pos dt < length raw" "\<not> isspace (raw ! dt_pos dt)" "raw_full_lit raw (dt_pos dt) ?l"
      "dt1 = dt\<lparr>dt_mode := DSML_TRACK_DONE, dt_pos := dt_pos dt + length ?l,
         dt_decode := DSML_DECODE_OUTSIDE\<rparr>"
      using assms(2) True DSML_TRACK_STRUCTURAL
      by (auto simp: tracker_step_def track_structural_def track_return_def Let_def
          split: if_splits option.splits)
    have f: "raw_full_lit (raw @ x) (dt_pos dt) ?l"
      by (rule raw_full_lit_append [OF syntax_ne(1) [OF syn] k(3)])
    have "tracker_step (raw @ x) dt = Inl dt1"
      using k(1,2,4) f DSML_TRACK_STRUCTURAL
      by (simp add: tracker_step_def track_structural_def track_return_def Let_def nth_append)
    moreover have "tracker_step (raw @ x) dt1 = Inl dt1"
      using k(4) by (simp add: tracker_step_def track_return_def)
    ultimately have "tracker_run n (raw @ x) dt1 = tracker_run n (raw @ x) dt"
      by (cases n) simp_all
    with syn k(4) full_lit_length [OF k(3)] show ?thesis by (simp add: tracker_ok_def)
  next
    case False
    then have "undecoded dt1 = undecoded dt"
      using assms(2) DSML_TRACK_STRUCTURAL
      by (auto simp: tracker_step_def track_structural_def track_return_def undecoded_def Let_def
          split: if_splits option.splits)
    then show ?thesis using assms(1) tracker_run_undecoded tracker_ok_undecoded by blast
  qed
next
  case DSML_TRACK_STRING_BODY
  then have "undecoded dt1 = undecoded dt"
    using assms(2) by (auto simp: tracker_step_def track_string_body_def track_return_def undecoded_def
        split: if_splits)
  then show ?thesis using assms(1) tracker_run_undecoded tracker_ok_undecoded by blast
next
  case DSML_TRACK_JSON_PARAM
  then have "undecoded dt1 = undecoded dt"
    using assms(2) by (auto simp: tracker_step_def track_json_param_def track_return_def undecoded_def
        split: if_splits)
  then show ?thesis using assms(1) tracker_run_undecoded tracker_ok_undecoded by blast
next
  case DSML_TRACK_DONE
  then have "undecoded dt1 = undecoded dt"
    using assms(2) by (auto simp: tracker_step_def track_return_def undecoded_def)
  then show ?thesis using assms(1) tracker_run_undecoded tracker_ok_undecoded by blast
qed

section \<open>Scanning in pieces\<close>

lemma tracker_run_more: "tracker_run n raw dt = Some d \<Longrightarrow> tracker_run (n + k) raw dt = Some d"
  by (induction n arbitrary: dt) (auto split: sum.splits)

lemma tracker_run_unique: "tracker_run n raw dt = Some d \<Longrightarrow> tracker_run m raw dt = Some e \<Longrightarrow> d = e"
  using tracker_run_more [of n raw dt d m] tracker_run_more [of m raw dt e n]
  by (simp add: add.commute)

text \<open>The fuel of an update is enough, for any text (the last byte matters only for longer texts).\<close>

lemma tracker_step_forward:
  assumes "tracker_ok (length raw) dt" "tracker_step raw dt = Inr dt'"
  shows "tracker_ok (length raw) dt' \<and> dt_pos dt < dt_pos dt'"
proof (cases "dt_mode dt")
  case DSML_TRACK_SEARCH
  with assms track_search_Inr [OF assms(1), of dt'] show ?thesis by (simp add: tracker_step_def)
next
  case DSML_TRACK_STRUCTURAL
  with assms track_structural_Inr [OF assms(1), of dt'] show ?thesis by (simp add: tracker_step_def)
next
  case DSML_TRACK_STRING_BODY
  with assms track_param_end_ok [OF assms(1) full_lit_length] show ?thesis
    by (auto simp: tracker_step_def track_string_body_def track_return_def tracker_ok_def split: if_splits)
next
  case DSML_TRACK_JSON_PARAM
  with assms track_param_end_ok [OF assms(1) full_lit_length] show ?thesis
    by (auto simp: tracker_step_def track_json_param_def track_return_def tracker_ok_def split: if_splits)
qed (use assms in \<open>simp add: tracker_step_def track_return_def\<close>)

lemma tracker_run_enough:
  "tracker_ok (length raw) dt \<Longrightarrow> length raw - dt_pos dt < n
   \<Longrightarrow> \<exists>d. tracker_run n raw dt = Some d \<and> tracker_ok (length raw) d"
proof (induction n arbitrary: dt)
  case (Suc n)
  show ?case
  proof (cases "tracker_step raw dt")
    case (Inl a)
    with tracker_step_return [OF Suc.prems(1) Inl, of 0 "[]"] show ?thesis by simp
  next
    case (Inr b)
    note f = tracker_step_forward [OF Suc.prems(1) Inr]
    then have "length raw - dt_pos b < n"
      using Suc.prems(2) tracker_ok_pos [of "length raw" b] by linarith
    with Suc.IH [of b] f Inr show ?thesis by simp
  qed
qed simp

lemma tracker_update_total:
  assumes "tracker_ok (length raw) dt"
  obtains d where "dsml_decode_tracker_update raw dt = Some d" "tracker_ok (length raw) d"
proof -
  have "length raw - dt_pos dt < Suc (length raw)" by arith
  then show ?thesis
    using tracker_run_enough [OF assms] that unfolding dsml_decode_tracker_update_def by blast
qed

lemma tracker_run_resume:
  assumes "last raw \<noteq> CHR ''<''"
  shows "tracker_run n raw dt = Some dt1 \<Longrightarrow> tracker_ok (length raw) dt
    \<Longrightarrow> tracker_run m (raw @ x) dt1 = Some d \<Longrightarrow> \<exists>k. tracker_run k (raw @ x) dt = Some d"
proof (induction n arbitrary: dt)
  case (Suc n)
  show ?case
  proof (cases "tracker_step raw dt")
    case (Inl a)
    with Suc.prems have "tracker_run m (raw @ x) dt = Some d"
      using tracker_step_return [OF Suc.prems(2), of a m x] by simp
    then show ?thesis ..
  next
    case (Inr b)
    note f = tracker_step_progress [OF Suc.prems(2) Inr assms, of x]
    with Suc.prems Inr obtain k where "tracker_run k (raw @ x) b = Some d"
      using Suc.IH [of b] by auto
    with f have "tracker_run (Suc k) (raw @ x) dt = Some d" by simp
    then show ?thesis ..
  qed
qed simp

lemma tracker_update_resume:
  assumes "tracker_ok (length raw) dt" "last raw \<noteq> CHR ''<''"
    and "dsml_decode_tracker_update raw dt = Some dt1"
  shows "dsml_decode_tracker_update (raw @ x) dt1 = dsml_decode_tracker_update (raw @ x) dt"
proof -
  have ok: "tracker_ok (length (raw @ x)) dt" using assms(1) by (rule tracker_ok_mono) simp
  have "tracker_ok (length raw) dt1"
    using tracker_update_total [OF assms(1)] assms(3) by auto
  then have ok1: "tracker_ok (length (raw @ x)) dt1" by (rule tracker_ok_mono) simp
  obtain d where d: "dsml_decode_tracker_update (raw @ x) dt1 = Some d"
    by (rule tracker_update_total [OF ok1])
  obtain e where e: "dsml_decode_tracker_update (raw @ x) dt = Some e"
    by (rule tracker_update_total [OF ok])
  obtain k where "tracker_run k (raw @ x) dt = Some d"
    using tracker_run_resume [OF assms(2) _ assms(1)] assms(3) d
    unfolding dsml_decode_tracker_update_def by blast
  then have "d = e"
    using e tracker_run_unique unfolding dsml_decode_tracker_update_def by blast
  with d e show ?thesis by simp
qed

text \<open>Generation: every piece is appended to the text and the tracker is updated.\<close>

definition tracker_feed ::
  "string \<times> dsml_decode_tracker option \<Rightarrow> string \<Rightarrow> string \<times> dsml_decode_tracker option" where
  "tracker_feed st piece =
     (let raw = fst st @ piece in
      (raw, Option.bind (snd st) (dsml_decode_tracker_update raw)))"

definition tracker_feed_all :: "string list \<Rightarrow> dsml_decode_tracker option" where
  "tracker_feed_all pieces = snd (foldl tracker_feed ([], Some dsml_decode_tracker_init) pieces)"

lemma tracker_feed_text: "fst (foldl tracker_feed (t, s) ps) = t @ concat ps"
  by (induction ps arbitrary: t s) (simp_all add: tracker_feed_def Let_def)

lemma tracker_feed_all_snoc:
  "tracker_feed_all (ps @ [p])
   = Option.bind (tracker_feed_all ps) (dsml_decode_tracker_update (concat ps @ p))"
  by (simp add: tracker_feed_all_def tracker_feed_def Let_def tracker_feed_text)

text \<open>C39. The incremental recognizer agrees with a single scan: however the generated text is cut into
  pieces, as long as no piece but the last ends with a lone \<open><\<close>, the state after the last piece
  is the one that a single update on the whole text computes, so the sampling policy does not
  depend on the tokenization.  The scan always returns.\<close>

theorem dsml_tracker_chunking:
  assumes "ps \<noteq> []" "\<forall>p\<in>set (butlast ps). p \<noteq> [] \<and> last p \<noteq> CHR ''<''"
  shows "tracker_feed_all ps = dsml_decode_tracker_update (concat ps) dsml_decode_tracker_init
    \<and> tracker_feed_all ps \<noteq> None"
  using assms
proof (induction ps rule: rev_induct)
  case (snoc p ps)
  have total: "dsml_decode_tracker_update (concat (ps @ [p])) dsml_decode_tracker_init \<noteq> None"
    by (rule tracker_update_total [OF tracker_ok_init, of "concat (ps @ [p])"]) simp
  show ?case
  proof (cases "ps = []")
    case True
    then show ?thesis
      using total tracker_feed_all_snoc [of "[]" p] by (simp add: tracker_feed_all_def)
  next
    case False
    have pieces: "\<forall>q\<in>set ps. q \<noteq> [] \<and> last q \<noteq> CHR ''<''" using snoc.prems(2) by simp
    then have "last (concat ps) \<noteq> CHR ''<''"
      using False by (cases ps rule: rev_cases) auto
    moreover have "tracker_feed_all ps = dsml_decode_tracker_update (concat ps) dsml_decode_tracker_init"
      using snoc.IH [OF False] pieces by (auto dest: in_set_butlastD)
    moreover obtain dt1 where
      "dsml_decode_tracker_update (concat ps) dsml_decode_tracker_init = Some dt1"
      by (rule tracker_update_total [OF tracker_ok_init, of "concat ps"])
    ultimately show ?thesis
      using total tracker_feed_all_snoc [of ps p]
        tracker_update_resume [OF tracker_ok_init, of "concat ps" dt1 p] by simp
  qed
qed simp

theorem dsml_tracker_chunking_witness:
  "tracker_feed_all [''<tool_calls><inv'', ''oke name=x><parameter>{'', ''}</parameter>'']
   = dsml_decode_tracker_update
       (concat [''<tool_calls><inv'', ''oke name=x><parameter>{'', ''}</parameter>''])
       dsml_decode_tracker_init
   \<and> tracker_feed_all [''<tool_calls><inv'', ''oke name=x><parameter>{'', ''}</parameter>''] \<noteq> None"
  by (rule dsml_tracker_chunking) simp_all

text \<open>
  The side condition is needed: the tests for a begun closing tag ask for two bytes, so a piece
  that ends with the \<open><\<close> of the closing tag moves the scan past it, and the parameter never
  ends.
\<close>

definition lone_lt_pieces :: "string list" where
  "lone_lt_pieces = [''<tool_calls><parameter>1<'', ''/parameter>'']"

lemma lone_lt_missed:
  "map_option dt_mode (tracker_feed_all lone_lt_pieces) = Some DSML_TRACK_JSON_PARAM"
  "map_option dt_mode (tracker_feed_all [concat lone_lt_pieces]) = Some DSML_TRACK_STRUCTURAL"
  by code_simp+

end
