(* ===== verification/DsmlStream.thy ===== *)
theory DsmlStream
  imports DsmlTrack Streaming
begin

text \<open>
  How much of a generated text a structured stream of \<open>ds4_server.c\<close> may release: visible
  text in front of a tool call (\<open>text_stream_safe_limit\<close>, lines 8065 to 8104) and the value
  of a tool parameter (lines 6239 to 6271).  A position is an index into the generated text.
\<close>

section \<open>Limits\<close>

text \<open>The loop \<open>for (i = limit; i > scan; i--)\<close> up to the first \<open>i\<close> with \<open>raw[i - 1] == c\<close>.\<close>

definition scan_back :: "string \<Rightarrow> char \<Rightarrow> nat \<Rightarrow> nat \<Rightarrow> nat option" where
  "scan_back raw c scan limit =
     map_option (\<lambda>i. i - 1) (find (\<lambda>i. raw ! (i - 1) = c) (rev [Suc scan..<Suc limit]))"

definition stream_entities :: "string list" where
  "stream_entities = [''&amp;'', ''&lt;'', ''&gt;'', ''&quot;'', ''&apos;'']"

definition dsml_entity_stream_safe_len :: "string \<Rightarrow> nat \<Rightarrow> nat \<Rightarrow> nat" where
  "dsml_entity_stream_safe_len raw start limit =
     (let max_ent = 6;
          scan = (if limit > start + max_ent then limit - max_ent else start) in
      case scan_back raw (CHR ''&'') scan limit of
        None \<Rightarrow> limit
      | Some amp \<Rightarrow>
          (let tail = limit - amp in
           if \<exists>ent\<in>set stream_entities. tail < length ent \<and> slice amp limit raw = take tail ent
           then amp else limit))"

definition tool_param_value_stream_safe_len :: "string \<Rightarrow> nat \<Rightarrow> string \<Rightarrow> bool \<Rightarrow> nat" where
  "tool_param_value_stream_safe_len raw start param_close is_string =
     (let raw_len = length raw;
          end_len = length param_close;
          scan = (if raw_len > start + end_len then raw_len - end_len else start);
          limit1 =
            (case scan_back raw (CHR ''<'') scan raw_len of
               None \<Rightarrow> raw_len
             | Some marker \<Rightarrow>
                 (let tail = raw_len - marker in
                  if tail < end_len \<and> drop marker raw = take tail param_close then marker
                  else raw_len));
          limit = (if is_string then dsml_entity_stream_safe_len raw start limit1 else limit1) in
      utf8_stream_safe_len raw start limit False)"

definition text_stream_safe_limit :: "string \<Rightarrow> nat \<Rightarrow> bool \<Rightarrow> bool \<Rightarrow> nat" where
  "text_stream_safe_limit raw start has_tools final =
     (let raw_len = length raw in
      if raw_len \<le> start then raw_len
      else if has_tools then
        (case find_any_tool_start (drop start raw) of
           Some tool \<Rightarrow>
             utf8_stream_safe_len raw start (trim_tool_separator_ws raw start (start + tool)) True
         | None \<Rightarrow>
             if final then utf8_stream_safe_len raw start raw_len final
             else
               (let limit1 = trim_tool_separator_ws raw start raw_len;
                    max_marker = 80;
                    scan = (if raw_len - start > max_marker then raw_len - max_marker else start);
                    limit2 =
                      (case scan_back raw (CHR ''<'') scan raw_len of
                         None \<Rightarrow> limit1
                       | Some marker \<Rightarrow> if marker < limit1 then marker else limit1) in
                utf8_stream_safe_len raw start (trim_tool_separator_ws raw start limit2) final))
      else utf8_stream_safe_len raw start raw_len final)"

section \<open>Scanning backwards\<close>

lemma find_rev_upt:
  "find P (rev [a..<b]) = Some i \<longleftrightarrow> a \<le> i \<and> i < b \<and> P i \<and> (\<forall>j. i < j \<and> j < b \<longrightarrow> \<not> P j)"
proof (induction b)
  case (Suc b)
  then show ?case by (auto simp: less_Suc_eq)
qed simp

lemma scan_back_Some:
  "scan_back raw c scan limit = Some m \<longleftrightarrow>
     scan \<le> m \<and> m < limit \<and> raw ! m = c \<and> (\<forall>j. m < j \<and> j < limit \<longrightarrow> raw ! j \<noteq> c)"
proof -
  have "scan_back raw c scan limit = Some m \<longleftrightarrow>
      find (\<lambda>i. raw ! (i - 1) = c) (rev [Suc scan..<Suc limit]) = Some (Suc m)"
    using find_rev_upt [of "\<lambda>i. raw ! (i - 1) = c" "Suc scan" "Suc limit"]
    by (cases "find (\<lambda>i. raw ! (i - 1) = c) (rev [Suc scan..<Suc limit])")
      (auto simp: scan_back_def simp del: upt_Suc)
  also have "\<dots> \<longleftrightarrow> scan \<le> m \<and> m < limit \<and> raw ! m = c \<and> (\<forall>j. m < j \<and> j < limit \<longrightarrow> raw ! j \<noteq> c)"
    unfolding find_rev_upt by (auto simp: less_Suc_eq_0_disj)
  finally show ?thesis .
qed

lemma scan_back_None:
  "scan_back raw c scan limit = None \<Longrightarrow> scan \<le> j \<Longrightarrow> j < limit \<Longrightarrow> raw ! j \<noteq> c"
  by (auto simp: scan_back_def find_None_iff simp del: upt_Suc dest: spec [of _ "Suc j"])

section \<open>Visible text\<close>

lemma trim_le: "trim_tool_separator_ws raw s l \<le> l"
proof (induction raw s l rule: trim_tool_separator_ws.induct)
  case (1 raw s l)
  then show ?case by (subst trim_tool_separator_ws.simps) (auto intro: le_trans diff_le_self)
qed

lemma trim_ge: "s \<le> l \<Longrightarrow> s \<le> trim_tool_separator_ws raw s l"
proof (induction raw s l rule: trim_tool_separator_ws.induct)
  case (1 raw s l)
  then show ?case by (subst trim_tool_separator_ws.simps) auto
qed

lemma trim_append: "l \<le> length raw \<Longrightarrow> trim_tool_separator_ws (raw @ x) s l = trim_tool_separator_ws raw s l"
proof (induction raw s l rule: trim_tool_separator_ws.induct)
  case (1 raw s l)
  then show ?case
    by (subst (1 2) trim_tool_separator_ws.simps) (auto simp: nth_append)
qed

lemma trim_mono: "l \<le> l' \<Longrightarrow> trim_tool_separator_ws raw s l \<le> trim_tool_separator_ws raw s l'"
proof (induction raw s l' rule: trim_tool_separator_ws.induct)
  case (1 raw s l')
  show ?case
  proof (cases "l = l' \<or> \<not> (l' > s \<and> isspace (raw ! (l' - 1)))")
    case True
    then show ?thesis
    proof
      assume "l = l'"
      then show ?thesis by simp
    next
      assume "\<not> (l' > s \<and> isspace (raw ! (l' - 1)))"
      then show ?thesis
        using trim_le [of raw s l] 1(2) by (subst (2) trim_tool_separator_ws.simps) auto
    qed
  next
    case False
    then have "l \<le> l' - 1" using 1(2) by linarith
    with 1(1) False show ?thesis by (subst (2) trim_tool_separator_ws.simps) simp
  qed
qed

lemma find_any_tool_start_fold:
  "find_any_tool_start s = map_option fst (foldl (earliest_start s) None dsml_syntaxes)"
proof -
  have p: "''<tool_calls>'' = tool_calls_start dsml_plain" by (simp add: tag_defs)
  have "find_lit_bounded s (tool_calls_start syn) = strstr s (tool_calls_start syn)"
    if "syn \<in> set dsml_syntaxes" for syn
    by (rule find_lit_bounded_strstr [OF syntax_start_ne [OF that]])
  then have f: "find_lit_bounded s (tool_calls_start dsml_full) = strstr s (tool_calls_start dsml_full)"
    "find_lit_bounded s (tool_calls_start dsml_short) = strstr s (tool_calls_start dsml_short)"
    "find_lit_bounded s (tool_calls_start dsml_plain) = strstr s (tool_calls_start dsml_plain)"
    by (simp_all add: dsml_syntaxes_def)
  show ?thesis
    by (simp add: find_any_tool_start_def first_of_def dsml_syntaxes_def earliest_start_def p f
        split: option.splits)
qed

lemma find_any_tool_start_Some:
  assumes "find_any_tool_start s = Some p"
  obtains syn where "start_at s p syn" "\<forall>j<p. \<forall>syn'. \<not> start_at s j syn'"
  using assms earliest_fold [of dsml_syntaxes s] that
  by (auto simp: find_any_tool_start_fold start_at_def split: option.splits)

lemma find_any_tool_start_None: "find_any_tool_start s = None \<Longrightarrow> \<not> start_at s i syn"
  using earliest_fold [of dsml_syntaxes s]
  by (auto simp: find_any_tool_start_fold start_at_def split: option.splits)

lemma start_len: "syn \<in> set dsml_syntaxes \<Longrightarrow> length (tool_calls_start syn) \<le> 80"
  by (erule syntax_cases) (simp_all add: tag_defs)

text \<open>A tag that the text ends inside of begins at the last \<open><\<close> of the text.\<close>

lemma cut_tag_scan:
  assumes "lt_tag lit" "prefix lit (drop p (raw @ x))" "p < length raw" "length raw < p + length lit"
  shows "raw ! p = CHR ''<''" "p < j \<Longrightarrow> j < length raw \<Longrightarrow> raw ! j \<noteq> CHR ''<''"
    "drop p raw = take (length raw - p) lit"
proof -
  obtain z where z: "drop p raw @ x = lit @ z" using assms(2,3) by (auto simp: prefix_def)
  then have t: "drop p raw = take (length raw - p) (lit @ z)"
    by (metis append_eq_conv_conj length_drop)
  then show d: "drop p raw = take (length raw - p) lit" using assms(3,4) by simp
  have nth: "raw ! (p + k) = lit ! k" if "p + k < length raw" for k
  proof -
    have "raw ! (p + k) = drop p raw ! k" using that assms(3) by simp
    also have "\<dots> = lit ! k" unfolding d using that by simp
    finally show ?thesis .
  qed
  show "raw ! p = CHR ''<''"
    using nth [of 0] assms(1,3) by (cases lit) (auto simp: lt_tag_def)
  show "raw ! j \<noteq> CHR ''<''" if "p < j" "j < length raw"
  proof -
    have "raw ! j = lit ! (j - p)" using nth [of "j - p"] that by simp
    moreover have "lit ! (j - p) \<in> set (tl lit)"
      using that assms(4) by (cases lit) (auto simp: nth_Cons' less_diff_conv2)
    ultimately show ?thesis using assms(1) by (auto simp: lt_tag_def)
  qed
qed

text \<open>C38. Text that is streamed to a client never turns out to be protocol: while the generation goes on, the
  released part ends before every tool call that the finished text contains, and before the
  white space in front of it, however the text continues.\<close>

theorem streamed_text_is_not_protocol:
  assumes "start \<le> length raw" "find_any_tool_start (drop start (raw @ x)) = Some p"
  shows "text_stream_safe_limit raw start True False
    \<le> trim_tool_separator_ws (raw @ x) start (start + p)"
proof (cases "length raw = start")
  case True
  then show ?thesis using trim_ge [of start "start + p"] by (simp add: text_stream_safe_limit_def)
next
  case False
  with assms(1) have len: "\<not> length raw \<le> start" by simp
  obtain syn where syn: "start_at (drop start raw @ x) p syn"
    "\<forall>j<p. \<forall>syn'. \<not> start_at (drop start raw @ x) j syn'"
    by (rule find_any_tool_start_Some [of "drop start raw @ x" p]) (use assms in simp)
  have lt: "lt_tag (tool_calls_start syn)" and sd: "syn \<in> set dsml_syntaxes"
    using syn(1) syntax_start_lt by (auto simp: start_at_def)
  show ?thesis
  proof (cases "find_any_tool_start (drop start raw)")
    case (Some t)
    obtain syn2 where s2: "start_at (drop start raw) t syn2"
      by (rule find_any_tool_start_Some [OF Some])
    have "\<not> t < p" using syn(2) start_at_append [OF s2, of x] by blast
    moreover have "\<not> p < t"
    proof
      assume "p < t"
      then have "start_at (drop start raw) p syn" using start_at_append_before [OF syn(1) s2] by simp
      moreover obtain s3 where "\<forall>j<t. \<forall>syn'. \<not> start_at (drop start raw) j syn'"
        using find_any_tool_start_Some [OF Some] by metis
      ultimately show False using \<open>p < t\<close> by blast
    qed
    ultimately have "t = p" by simp
    moreover have "start + t \<le> length raw" using start_at_bound [OF s2] assms(1) by simp
    ultimately show ?thesis
      using len Some utf8_stream_safe_len_le [of raw start "trim_tool_separator_ws raw start (start + p)" True]
      by (simp add: text_stream_safe_limit_def Let_def trim_append)
  next
    case None
    define limit1 where "limit1 = trim_tool_separator_ws raw start (length raw)"
    define scan where "scan = (if length raw - start > 80 then length raw - 80 else start)"
    define limit2 where "limit2 = (case scan_back raw (CHR ''<'') scan (length raw) of
        None \<Rightarrow> limit1 | Some marker \<Rightarrow> if marker < limit1 then marker else limit1)"
    have e: "text_stream_safe_limit raw start True False
        = utf8_stream_safe_len raw start (trim_tool_separator_ws raw start limit2) False"
      using len None unfolding text_stream_safe_limit_def limit1_def scan_def limit2_def
      by (simp add: Let_def)
    have l1: "limit1 \<le> length raw" unfolding limit1_def by (rule trim_le)
    then have l2: "limit2 \<le> length raw" unfolding limit2_def by (auto split: option.splits)
    have r: "text_stream_safe_limit raw start True False \<le> trim_tool_separator_ws (raw @ x) start limit2"
      unfolding e trim_append [OF l2] by (rule utf8_stream_safe_len_le)
    show ?thesis
    proof (cases "start + p < length raw")
      case True
      have pre: "prefix (tool_calls_start syn) (drop (start + p) (raw @ x))"
        using syn(1) assms(1) by (simp add: start_at_def add.commute)
      have cutoff: "length raw < start + p + length (tool_calls_start syn)"
      proof (rule ccontr)
        assume "\<not> length raw < start + p + length (tool_calls_start syn)"
        then have "start_at (drop start raw) p syn"
          using syn(1) sd assms(1) by (auto simp: start_at_def prefix_append_long)
        with find_any_tool_start_None [OF None] show False by blast
      qed
      note c = cut_tag_scan [OF lt pre True cutoff]
      have "scan \<le> start + p" using cutoff start_len [OF sd] by (auto simp: scan_def)
      with c True have "scan_back raw (CHR ''<'') scan (length raw) = Some (start + p)"
        by (simp add: scan_back_Some)
      then have "limit2 \<le> start + p" by (auto simp: limit2_def)
      then show ?thesis using r trim_mono [of limit2 "start + p" "raw @ x" start] by simp
    next
      case False
      then have "limit2 \<le> start + p" using l2 by simp
      then show ?thesis using r trim_mono [of limit2 "start + p" "raw @ x" start] by simp
    qed
  qed
qed

theorem streamed_text_is_not_protocol_witness:
  "text_stream_safe_limit ''hi <tool'' 0 True False
    \<le> trim_tool_separator_ws (''hi <tool'' @ ''_calls>'') 0 (0 + 3)"
  by (rule streamed_text_is_not_protocol) code_simp+

section \<open>Parameter values\<close>

lemma entity_lits: "set (map fst dsml_entities) = set stream_entities"
  by (simp add: dsml_entities_def stream_entities_def)

text \<open>An entity holds one \<open>&\<close>, at its head, and otherwise letters and a semicolon.\<close>

lemma entity_shape:
  assumes "ent \<in> set stream_entities"
  shows "ent = CHR ''&'' # tl ent" "CHR ''&'' \<notin> set (tl ent)" "length ent \<le> 6"
    "c \<in> set ent \<Longrightarrow> byte c < 128" "CHR ''<'' \<notin> set ent"
  using assms by (auto simp: stream_entities_def byte_def)

lemma find_entity_append:
  assumes "\<forall>ent\<in>set stream_entities. prefix ent (u @ b) \<longrightarrow> prefix ent u"
  shows "find (\<lambda>e. prefix (fst e) (u @ b)) dsml_entities = find (\<lambda>e. prefix (fst e) u) dsml_entities"
proof (rule find_cong)
  fix e assume "e \<in> set dsml_entities"
  then have "fst e \<in> set stream_entities" using entity_lits by (metis image_eqI set_map)
  with assms show "prefix (fst e) (u @ b) = prefix (fst e) u" using prefix_appendI by blast
qed

text \<open>Decoding splits where no entity is cut.\<close>

lemma unescape_append:
  assumes "\<forall>u. suffix u a \<and> u \<noteq> [] \<longrightarrow> (\<forall>ent\<in>set stream_entities. prefix ent (u @ b) \<longrightarrow> prefix ent u)"
  shows "dsml_unescape_text (a @ b) = dsml_unescape_text a @ dsml_unescape_text b"
  using assms
proof (induction a rule: dsml_unescape_text.induct)
  case (2 c s)
  have sub: "\<forall>u. suffix u v \<and> u \<noteq> [] \<longrightarrow> (\<forall>ent\<in>set stream_entities. prefix ent (u @ b) \<longrightarrow> prefix ent u)"
    if "suffix v (c # s)" for v
    using 2(4) that suffix_order.trans by blast
  have ss: "suffix s (c # s)" by (simp add: suffix_ConsI)
  have f: "find (\<lambda>e. prefix (fst e) (c # s @ b)) dsml_entities
      = find (\<lambda>e. prefix (fst e) (c # s)) dsml_entities"
    using find_entity_append [of "c # s" b] 2(4) by simp
  show ?case
  proof (cases "c = CHR ''&''")
    case False
    from 2(1) [OF False sub [OF ss]] False show ?thesis by simp
  next
    case True
    show ?thesis
    proof (cases "find (\<lambda>e. prefix (fst e) (c # s)) dsml_entities")
      case None
      have nn: "\<not> c \<noteq> CHR ''&''" using True by simp
      from 2(2) [OF nn None sub [OF ss]] True None f show ?thesis by simp
    next
      case (Some e)
      obtain ent d where e: "e = (ent, d)" by (cases e)
      have "prefix ent (c # s)" using find_SomeD [OF Some] e by simp
      then have len: "length ent - 1 \<le> length s" using prefix_length_le by fastforce
      have sd: "suffix (drop (length ent - 1) s) (c # s)" using suffix_drop suffix_ConsI by metis
      have nn: "\<not> c \<noteq> CHR ''&''" using True by simp
      from 2(3) [OF nn Some e [symmetric] sub [OF sd]] True Some e f len show ?thesis by simp
    qed
  qed
qed simp

lemma partial_entity:
  assumes "ent \<in> set stream_entities" "prefix ent (u @ b)" "\<not> prefix ent u" "u \<noteq> []"
  shows "hd u = CHR ''&''" "CHR ''&'' \<notin> set (tl u)" "u = take (length u) ent" "length u < length ent"
    "b \<noteq> []" "hd b \<noteq> CHR ''&''" "byte (hd b) < 128"
proof -
  obtain y where y: "ent = u @ y" "y \<noteq> []" "prefix y b"
    using assms(2,3) by (auto simp: prefix_append)
  show "u = take (length u) ent" "length u < length ent" using y by simp_all
  obtain c u' where u: "u = c # u'" using assms(4) by (cases u) auto
  obtain d y' where d: "y = d # y'" using y(2) by (cases y) auto
  note s = entity_shape [OF assms(1)]
  have h: "c = CHR ''&''" "CHR ''&'' \<notin> set (u' @ y)" using s(1,2) y(1) u by auto
  then show "hd u = CHR ''&''" "CHR ''&'' \<notin> set (tl u)" using u by auto
  have b: "b \<noteq> []" "hd b = d" using y(3) d by (cases b; auto)+
  then show "b \<noteq> []" by simp
  show "hd b \<noteq> CHR ''&''" using b h(2) d by auto
  show "byte (hd b) < 128" using s(4) [of d] y(1) d b by auto
qed

lemma slice_nth: "b \<le> length xs \<Longrightarrow> j < b - a \<Longrightarrow> slice a b xs ! j = xs ! (a + j)"
  by (simp add: slice_def)

text \<open>The cut of the code, and every cut in front of a byte outside ASCII, is such a place.\<close>

lemma entity_cut:
  assumes "start \<le> limit" "limit \<le> length raw"
  defines "k \<equiv> dsml_entity_stream_safe_len raw start limit"
  shows "start \<le> k" "k \<le> limit"
    "dsml_unescape_text (slice start k raw @ slice k limit raw @ x)
     = dsml_unescape_text (slice start k raw) @ dsml_unescape_text (slice k limit raw @ x)"
proof -
  define scan where "scan = (if limit > start + 6 then limit - 6 else start)"
  have k: "k = (case scan_back raw (CHR ''&'') scan limit of
        None \<Rightarrow> limit
      | Some amp \<Rightarrow>
          (if \<exists>ent\<in>set stream_entities. limit - amp < length ent
              \<and> slice amp limit raw = take (limit - amp) ent
           then amp else limit))"
    unfolding k_def dsml_entity_stream_safe_len_def scan_def Let_def by (rule refl)
  have scan: "start \<le> scan" "scan \<le> limit" using assms(1) by (auto simp: scan_def)
  show b: "start \<le> k" "k \<le> limit"
    using scan scan_back_Some [of raw "CHR ''&''" scan limit]
    by (auto simp: k split: option.splits)
  show "dsml_unescape_text (slice start k raw @ slice k limit raw @ x)
     = dsml_unescape_text (slice start k raw) @ dsml_unescape_text (slice k limit raw @ x)"
  proof (rule unescape_append, intro allI impI ballI, elim conjE, rule ccontr)
    fix u ent
    assume u: "suffix u (slice start k raw)" "u \<noteq> []" and ent: "ent \<in> set stream_entities"
      and p: "prefix ent (u @ slice k limit raw @ x)" "\<not> prefix ent u"
    note pe = partial_entity [OF ent p(1) p(2) u(2)]
    show False
    proof (cases "k = limit")
      case False
      then obtain amp where "scan_back raw (CHR ''&'') scan limit = Some amp" "k = amp"
        using k by (auto split: option.splits if_splits)
      then have amp: "raw ! k = CHR ''&''" "k < limit" by (simp_all add: scan_back_Some)
      have "slice k limit raw = raw ! k # slice (Suc k) limit raw"
        using amp(2) assms(2) by (simp add: slice_def Cons_nth_drop_Suc [symmetric] take_Cons')
      with pe(6) amp(1) show False by simp
    next
      case True
      define a where "a = limit - length u"
      have ul: "length u \<le> limit - start" "length u \<le> 5" "0 < length u"
        using suffix_length_le [OF u(1)] True assms(2) pe(4) entity_shape(3) [OF ent] u(2)
        by (auto simp: slice_def)
      have us: "u = slice a limit raw"
      proof -
        have "u = drop (length (slice start limit raw) - length u) (slice start limit raw)"
          using u(1) True by (auto simp: suffix_def)
        then show ?thesis
          using ul assms by (simp add: slice_def a_def drop_take)
      qed
      have al: "start \<le> a" "a < limit" "scan \<le> a"
        using ul assms(1) unfolding a_def scan_def by (arith, arith, auto)
      have nth: "u ! j = raw ! (a + j)" if "j < length u" for j
      proof -
        have "j < limit - a" using that ul by (simp add: a_def)
        then show ?thesis by (subst us) (rule slice_nth [OF assms(2)])
      qed
      have "raw ! a = CHR ''&''" using nth [of 0] pe(1) ul(3) by (simp add: hd_conv_nth)
      moreover have "raw ! j \<noteq> CHR ''&''" if "a < j" "j < limit" for j
      proof -
        have j: "0 < j - a" "j - a < length u" using that ul by (auto simp: a_def)
        then have "u ! (j - a) \<in> set (tl u)" by (cases u) (auto simp: nth_Cons')
        with pe(2) nth [OF j(2)] that show ?thesis by auto
      qed
      ultimately have "scan_back raw (CHR ''&'') scan limit = Some a"
        using al by (simp add: scan_back_Some)
      moreover have "limit - a = length u" using ul by (simp add: a_def)
      ultimately have "k = a"
        unfolding k using ent pe(3,4) us by auto
      with True al show False by simp
    qed
  qed
qed

lemma utf8_cut:
  assumes "start \<le> limit" "r = utf8_stream_safe_len s start limit False"
  shows "r = limit \<or> r = start \<or> r < limit \<and> byte (s ! r) \<ge> 128"
proof -
  have big: "byte c \<ge> 128" if "utf8_expected_len c > 1" for c
    using that by (auto simp: utf8_expected_len_def split: if_splits)
  define p where "p = utf8_back s start 4 limit"
  have b: "start \<le> p" "p \<le> limit" using utf8_back_bounds [OF assms(1), of s 4] by (auto simp: p_def)
  have r: "r = (if limit \<le> start then limit
      else if p = limit then (if utf8_expected_len (s ! (limit - 1)) > 1 then limit - 1 else limit)
      else if p = start \<and> utf8_cont (s ! p) then start
      else if limit - (p - 1) < utf8_expected_len (s ! (p - 1)) then p - 1 else limit)"
    unfolding assms(2) utf8_stream_safe_len_def Let_def p_def [symmetric] by simp
  show ?thesis
  proof (cases "limit \<le> start \<or> p = limit \<or> p = start \<and> utf8_cont (s ! p)")
    case True
    then show ?thesis using r big by (auto simp: not_le)
  next
    case False
    then have "p < limit" using b by simp
    then have "limit - (p - 1) > 1 \<or> p = 0" by auto
    with False \<open>p < limit\<close> show ?thesis
      using r big [of "s ! (p - 1)"] by (cases "p = 0") (auto simp: not_le)
  qed
qed

lemma param_marker:
  assumes "lt_tag close" "start \<le> length raw" "strstr (drop start raw) close = None"
  defines "l1 \<equiv> (case scan_back raw (CHR ''<'')
        (if length raw > start + length close then length raw - length close else start) (length raw) of
      None \<Rightarrow> length raw
    | Some marker \<Rightarrow>
        if length raw - marker < length close \<and> drop marker raw = take (length raw - marker) close
        then marker else length raw)"
  shows "start \<le> l1 \<and> l1 \<le> length raw"
    "strstr (drop start (raw @ x)) close = Some p \<Longrightarrow> l1 \<le> start + p"
proof -
  define scan where "scan = (if length raw > start + length close then length raw - length close else start)"
  have s: "start \<le> scan" by (auto simp: scan_def)
  have l1: "l1 = (case scan_back raw (CHR ''<'') scan (length raw) of
      None \<Rightarrow> length raw
    | Some marker \<Rightarrow>
        if length raw - marker < length close \<and> drop marker raw = take (length raw - marker) close
        then marker else length raw)"
    unfolding l1_def scan_def ..
  show b: "start \<le> l1 \<and> l1 \<le> length raw"
    using s assms(2) scan_back_Some [of raw "CHR ''<''" scan "length raw"]
    unfolding l1 by (auto split: option.splits)
  assume a: "strstr (drop start (raw @ x)) close = Some p"
  show "l1 \<le> start + p"
  proof (cases "start + p < length raw")
    case True
    have pre: "prefix close (drop (start + p) (raw @ x))"
    proof -
      have "prefix close (drop p (drop start (raw @ x)))"
        using a by (simp only: strstr_Some_iff simp_thms)
      then show ?thesis unfolding drop_drop by (simp only: add.commute)
    qed
    have "\<not> prefix close (drop (start + p) raw)"
    proof
      assume "prefix close (drop (start + p) raw)"
      then have "prefix close (drop p (drop start raw))" by (simp add: add.commute)
      with assms(3) True show False by (auto simp: strstr_None_iff)
    qed
    then have "length raw < start + p + length close"
      using pre True by (auto simp: prefix_append_long not_le intro: ccontr)
    note c = cut_tag_scan [OF assms(1) pre True this] and len = this
    have "scan \<le> start + p" using len True by (auto simp: scan_def)
    with c True have "scan_back raw (CHR ''<'') scan (length raw) = Some (start + p)"
      by (simp add: scan_back_Some)
    moreover have "length raw - (start + p) < length close" using len True by arith
    ultimately show ?thesis using c(3) unfolding l1 by simp
  next
    case False
    with b show ?thesis by simp
  qed
qed

text \<open>The value of a tool parameter can be streamed piecewise: what is released never reaches into the
  closing tag, however the text continues, and for a string the decoded pieces concatenate to the
  decoded value, because no entity and no UTF-8 character is cut.\<close>

theorem tool_param_value_pieces:
  assumes "syn \<in> set dsml_syntaxes" "start \<le> length raw"
    and "strstr (drop start raw) (param_end syn) = None"
    and "k = tool_param_value_stream_safe_len raw start (param_end syn) is_string"
  shows "start \<le> k \<and> k \<le> length raw
    \<and> (\<forall>x p. strstr (drop start (raw @ x)) (param_end syn) = Some p \<longrightarrow> k \<le> start + p)
    \<and> (is_string \<longrightarrow> (\<forall>x. dsml_unescape_text (drop start raw @ x)
          = dsml_unescape_text (slice start k raw) @ dsml_unescape_text (drop k raw @ x)))"
proof -
  have lt: "lt_tag (param_end syn)" by (rule syntax_lt(5) [OF assms(1)])
  define l1 where "l1 = (case scan_back raw (CHR ''<'')
        (if length raw > start + length (param_end syn) then length raw - length (param_end syn)
         else start) (length raw) of
      None \<Rightarrow> length raw
    | Some marker \<Rightarrow>
        if length raw - marker < length (param_end syn)
           \<and> drop marker raw = take (length raw - marker) (param_end syn)
        then marker else length raw)"
  define l2 where "l2 = (if is_string then dsml_entity_stream_safe_len raw start l1 else l1)"
  have k: "k = utf8_stream_safe_len raw start l2 False"
    unfolding assms(4) tool_param_value_stream_safe_len_def l2_def l1_def Let_def ..
  note m = param_marker [OF lt assms(2,3), folded l1_def]
  have l2: "start \<le> l2" "l2 \<le> l1"
    using m(1) entity_cut(1,2) [of start l1 raw] by (auto simp: l2_def)
  have b: "start \<le> k" "k \<le> l2"
    unfolding k using utf8_stream_safe_len_ge [OF l2(1)] utf8_stream_safe_len_le by auto
  have split: "drop start raw @ x = slice start j raw @ drop j raw @ x" if "start \<le> j" "j \<le> length raw" for j x
  proof -
    have "drop j raw = drop (j - start) (drop start raw)" using that by simp
    then show ?thesis unfolding slice_def by (metis append.assoc append_take_drop_id)
  qed
  have "dsml_unescape_text (drop start raw @ x)
      = dsml_unescape_text (slice start k raw) @ dsml_unescape_text (drop k raw @ x)" if is_string for x
  proof -
    consider "k = l2" | "k = start" | "k < l2" "byte (raw ! k) \<ge> 128"
      using utf8_cut [OF l2(1) k] by auto
    then show ?thesis
    proof cases
      case 1
      have k2: "k = dsml_entity_stream_safe_len raw start l1" using 1 that by (simp add: l2_def)
      have eq: "slice k l1 raw @ drop l1 raw @ x = drop k raw @ x"
      proof -
        have "drop l1 raw = drop (l1 - k) (drop k raw)" using b l2 by simp
        then show ?thesis unfolding slice_def by (metis append.assoc append_take_drop_id)
      qed
      have "dsml_unescape_text (slice start k raw @ slice k l1 raw @ drop l1 raw @ x)
          = dsml_unescape_text (slice start k raw) @ dsml_unescape_text (slice k l1 raw @ drop l1 raw @ x)"
        unfolding k2 by (rule entity_cut(3)) (use m(1) in auto)
      moreover have "drop start raw @ x = slice start k raw @ drop k raw @ x"
        using split [of k x] b l2 m(1) by simp
      ultimately show ?thesis unfolding eq by simp
    next
      case 2
      then show ?thesis by (simp add: slice_def)
    next
      case 3
      have kl: "k < length raw" using 3(1) l2 m(1) by simp
      have hd: "hd (drop k raw @ x) = raw ! k" using kl by (simp add: hd_append hd_drop_conv_nth)
      have "dsml_unescape_text (slice start k raw @ drop k raw @ x)
          = dsml_unescape_text (slice start k raw) @ dsml_unescape_text (drop k raw @ x)"
      proof (rule unescape_append, intro allI impI ballI, elim conjE, rule ccontr)
        fix u ent
        assume "suffix u (slice start k raw)" "u \<noteq> []" "ent \<in> set stream_entities"
          "prefix ent (u @ drop k raw @ x)" "\<not> prefix ent u"
        then have "byte (hd (drop k raw @ x)) < 128" using partial_entity(7) by blast
        with hd 3(2) show False by simp
      qed
      then show ?thesis using split [of k x] b(1) kl by simp
    qed
  qed
  with b l2 m show ?thesis by force
qed

theorem tool_param_value_pieces_witness:
  "strstr (drop 0 (''a&l'' @ ''t;</parameter>'')) (param_end dsml_plain) = Some 5 \<and> (1::nat) \<le> 0 + 5
    \<and> dsml_unescape_text (drop 0 ''a&l'' @ ''t;'')
        = dsml_unescape_text (slice 0 1 ''a&l'') @ dsml_unescape_text (drop 1 ''a&l'' @ ''t;'')"
proof -
  have "0 \<le> (1::nat) \<and> 1 \<le> length ''a&l''
    \<and> (\<forall>x p. strstr (drop 0 (''a&l'' @ x)) (param_end dsml_plain) = Some p \<longrightarrow> 1 \<le> 0 + p)
    \<and> (True \<longrightarrow> (\<forall>x. dsml_unescape_text (drop 0 ''a&l'' @ x)
          = dsml_unescape_text (slice 0 1 ''a&l'') @ dsml_unescape_text (drop 1 ''a&l'' @ x)))"
    by (rule tool_param_value_pieces) code_simp+
  moreover have "strstr (drop 0 (''a&l'' @ ''t;</parameter>'')) (param_end dsml_plain) = Some 5"
    by code_simp
  ultimately show ?thesis by blast
qed

end
