(* ===== verification/Sha1.thy ===== *)
theory Sha1
  imports Prelude
begin

text \<open>
  The SHA-1 that names the cache files of \<open>ds4_kvstore.c\<close> (lines 227 to 355), as the code has
  it: a context with a 64-byte block buffer that is fed in pieces.  The reference is the
  algorithm on a whole message, padded and cut into blocks.
\<close>

section \<open>The compression function\<close>

definition rol32 :: "u32 \<Rightarrow> nat \<Rightarrow> u32" where
  "rol32 v n = (push_bit n v OR drop_bit (32 - n) v)"

definition be32 :: "bytes \<Rightarrow> nat \<Rightarrow> u32" where
  "be32 block i =
     push_bit 24 (ucast (block ! (i * 4))) OR push_bit 16 (ucast (block ! (i * 4 + 1)))
     OR push_bit 8 (ucast (block ! (i * 4 + 2))) OR ucast (block ! (i * 4 + 3))"

definition sha1_extend :: "u32 list \<Rightarrow> nat \<Rightarrow> u32 list" where
  "sha1_extend w i = w @ [rol32 (w ! (i - 3) XOR w ! (i - 8) XOR w ! (i - 14) XOR w ! (i - 16)) 1]"

definition sha1_schedule :: "bytes \<Rightarrow> u32 list" where
  "sha1_schedule block = foldl sha1_extend (map (be32 block) [0..<16]) [16..<80]"

definition sha1_round ::
  "u32 list \<Rightarrow> u32 \<times> u32 \<times> u32 \<times> u32 \<times> u32 \<Rightarrow> nat \<Rightarrow> u32 \<times> u32 \<times> u32 \<times> u32 \<times> u32" where
  "sha1_round w st i =
     (case st of (a, b, cc, d, e) \<Rightarrow>
        let (f, k) =
          (if i < 20 then ((b AND cc) OR ((NOT b) AND d), 0x5a827999)
           else if i < 40 then (b XOR cc XOR d, 0x6ed9eba1)
           else if i < 60 then ((b AND cc) OR (b AND d) OR (cc AND d), 0x8f1bbcdc)
           else (b XOR cc XOR d, 0xca62c1d6));
            tmp = rol32 a 5 + f + e + k + w ! i
        in (tmp, a, rol32 b 30, cc, d))"

record sha1_ctx =
  sha_h :: "u32 \<times> u32 \<times> u32 \<times> u32 \<times> u32"
  sha_bytes :: u64
  sha_block :: bytes
  sha_used :: nat

definition sha1_compress ::
  "u32 \<times> u32 \<times> u32 \<times> u32 \<times> u32 \<Rightarrow> bytes \<Rightarrow> u32 \<times> u32 \<times> u32 \<times> u32 \<times> u32" where
  "sha1_compress h block =
     (case (h, foldl (sha1_round (sha1_schedule block)) h [0..<80]) of
        ((h0, h1, h2, h3, h4), (a, b, cc, d, e)) \<Rightarrow> (h0 + a, h1 + b, h2 + cc, h3 + d, h4 + e))"

definition sha1_transform :: "sha1_ctx \<Rightarrow> bytes \<Rightarrow> sha1_ctx" where
  "sha1_transform c block = c\<lparr>sha_h := sha1_compress (sha_h c) block\<rparr>"

section \<open>The context\<close>

definition sha1_iv :: "u32 \<times> u32 \<times> u32 \<times> u32 \<times> u32" where
  "sha1_iv = (0x67452301, 0xefcdab89, 0x98badcfe, 0x10325476, 0xc3d2e1f0)"

text \<open>The block buffer is not initialised by the code; its contents do not matter.\<close>

definition sha1_init :: "bytes \<Rightarrow> sha1_ctx" where
  "sha1_init garbage = \<lparr>sha_h = sha1_iv, sha_bytes = 0, sha_block = garbage, sha_used = 0\<rparr>"

text \<open>The loop makes progress only while \<open>used\<close> is below 64, which every context satisfies
  (\<open>sha1_absorbed\<close> below); the guard stands for the loop that would never end otherwise.\<close>

function sha1_update_loop :: "sha1_ctx \<Rightarrow> bytes \<Rightarrow> sha1_ctx" where
  "sha1_update_loop c p =
     (if p = [] \<or> \<not> sha_used c < 64 then c
      else
        let n = min (64 - sha_used c) (length p);
            c1 = c\<lparr>sha_block := take (sha_used c) (sha_block c) @ take n p
                                @ drop (sha_used c + n) (sha_block c),
                   sha_used := sha_used c + n\<rparr>;
            c2 = (if sha_used c1 = 64 then (sha1_transform c1 (sha_block c1))\<lparr>sha_used := 0\<rparr> else c1)
        in sha1_update_loop c2 (drop n p))"
  by pat_completeness auto

termination
  by (relation "measure (\<lambda>(c, p). length p)") auto

declare sha1_update_loop.simps [simp del]

definition sha1_update :: "sha1_ctx \<Rightarrow> bytes \<Rightarrow> sha1_ctx" where
  "sha1_update c p = sha1_update_loop (c\<lparr>sha_bytes := sha_bytes c + of_nat (length p)\<rparr>) p"

text \<open>\<open>while (c->used != 56)\<close>: at most 63 zero bytes are needed, so the fuel of 64 is enough.\<close>

fun sha1_pad_zeros :: "nat \<Rightarrow> sha1_ctx \<Rightarrow> sha1_ctx" where
  "sha1_pad_zeros 0 c = c"
| "sha1_pad_zeros (Suc fuel) c = (if sha_used c = 56 then c else sha1_pad_zeros fuel (sha1_update c [0]))"

definition be64_bytes :: "u64 \<Rightarrow> bytes" where
  "be64_bytes v = map (\<lambda>i. ucast (drop_bit (8 * (7 - i)) v)) [0..<8]"

definition be32_bytes :: "u32 \<Rightarrow> bytes" where
  "be32_bytes v = [ucast (drop_bit 24 v), ucast (drop_bit 16 v), ucast (drop_bit 8 v), ucast v]"

definition sha1_digest :: "u32 \<times> u32 \<times> u32 \<times> u32 \<times> u32 \<Rightarrow> bytes" where
  "sha1_digest h = (case h of (h0, h1, h2, h3, h4) \<Rightarrow>
     be32_bytes h0 @ be32_bytes h1 @ be32_bytes h2 @ be32_bytes h3 @ be32_bytes h4)"

definition sha1_final :: "sha1_ctx \<Rightarrow> bytes" where
  "sha1_final c =
     (let bits = sha_bytes c * 8;
          c1 = sha1_pad_zeros 64 (sha1_update c [0x80]);
          c2 = sha1_update c1 (be64_bytes bits)
      in sha1_digest (sha_h c2))"

definition hex_char :: "nat \<Rightarrow> char" where
  "hex_char n = ''0123456789abcdef'' ! n"

definition hex20 :: "bytes \<Rightarrow> string" where
  "hex20 inp = concat (map (\<lambda>b. [hex_char (unat (drop_bit 4 b)), hex_char (unat (b AND 15))]) inp)"

definition sha1_bytes_hex :: "bytes \<Rightarrow> string" where
  "sha1_bytes_hex s = hex20 (sha1_final (sha1_update (sha1_init (replicate 64 0)) s))"

section \<open>The algorithm on a whole message\<close>

function sha1_blocks :: "u32 \<times> u32 \<times> u32 \<times> u32 \<times> u32 \<Rightarrow> bytes \<Rightarrow> u32 \<times> u32 \<times> u32 \<times> u32 \<times> u32" where
  "sha1_blocks h m = (if length m < 64 then h else sha1_blocks (sha1_compress h (take 64 m)) (drop 64 m))"
  by pat_completeness auto

termination
  by (relation "measure (\<lambda>(h, m). length m)") auto

declare sha1_blocks.simps [simp del]

definition sha1_padding :: "nat \<Rightarrow> bytes" where
  "sha1_padding n = 0x80 # replicate ((119 - n mod 64) mod 64) 0 @ be64_bytes (of_nat n * 8)"

definition sha1_spec :: "bytes \<Rightarrow> bytes" where
  "sha1_spec m = sha1_digest (sha1_blocks sha1_iv (m @ sha1_padding (length m)))"

section \<open>The context computes the algorithm\<close>

text \<open>What a context has absorbed: all full blocks are compressed and the rest is in the buffer.\<close>

definition sha1_absorbed :: "sha1_ctx \<Rightarrow> bytes \<Rightarrow> bool" where
  "sha1_absorbed c m \<longleftrightarrow>
     sha_used c = length m mod 64 \<and> length (sha_block c) = 64
     \<and> take (sha_used c) (sha_block c) = drop (length m - length m mod 64) m
     \<and> sha_h c = sha1_blocks sha1_iv m"

lemma sha1_blocks_append:
  "length a mod 64 = 0 \<Longrightarrow> sha1_blocks h (a @ b) = sha1_blocks (sha1_blocks h a) b"
proof (induction h a rule: sha1_blocks.induct)
  case (1 h a)
  show ?case
  proof (cases "length a < 64")
    case True
    with 1(2) have "a = []" by simp
    then show ?thesis by (simp add: sha1_blocks.simps [of h "[]"])
  next
    case False
    then have "length (drop 64 a) mod 64 = 0" using 1(2) by (simp add: le_mod_geq)
    with 1(1) False show ?thesis
      by (simp add: sha1_blocks.simps [of h a] sha1_blocks.simps [of h "a @ b"])
  qed
qed

lemma sha1_blocks_short: "length m < 64 \<Longrightarrow> sha1_blocks h m = h"
  by (simp add: sha1_blocks.simps)

lemma sha1_blocks_full: "length m = 64 \<Longrightarrow> sha1_blocks h m = sha1_compress h m"
  by (simp add: sha1_blocks.simps [of h m] sha1_blocks_short)

text \<open>The full blocks of a message and the rest.\<close>

lemma sha1_blocks_split:
  "sha1_blocks h m = sha1_blocks h (take (length m - length m mod 64) m)"
proof -
  have m: "m = take (length m - length m mod 64) m @ drop (length m - length m mod 64) m" by simp
  have "length (take (length m - length m mod 64) m) mod 64 = 0"
    by (simp add: min_absorb2 minus_mod_eq_mult_div)
  then have "sha1_blocks h m = sha1_blocks (sha1_blocks h (take (length m - length m mod 64) m))
      (drop (length m - length m mod 64) m)"
    using m sha1_blocks_append by metis
  then show ?thesis by (simp add: sha1_blocks_short)
qed


lemma sha1_absorbed_step:
  assumes "sha1_absorbed c m" "n = min (64 - sha_used c) (length p)" "p \<noteq> []"
    "c1 = c\<lparr>sha_block := take (sha_used c) (sha_block c) @ take n p @ drop (sha_used c + n) (sha_block c),
            sha_used := sha_used c + n\<rparr>"
  shows "sha1_absorbed (if sha_used c1 = 64 then (sha1_transform c1 (sha_block c1))\<lparr>sha_used := 0\<rparr> else c1)
    (m @ take n p)"
proof -
  define A where "A = take (length m - length m mod 64) m"
  define T where "T = drop (length m - length m mod 64) m"
  define u where "u = length m mod 64"
  have m: "m = A @ T" by (simp add: A_def T_def)
  have lenT: "length T = u" by (simp add: T_def u_def)
  have A0: "length A mod 64 = 0"
    unfolding A_def by (simp add: min_absorb2 minus_mod_eq_mult_div)
  have u: "u < 64" "sha_used c = u" "take u (sha_block c) = T" "length (sha_block c) = 64"
    using assms(1) by (auto simp: sha1_absorbed_def u_def T_def)
  have h: "sha_h c = sha1_blocks sha1_iv A"
    using assms(1) sha1_blocks_append [OF A0, of sha1_iv T] lenT u(1)
    by (simp add: sha1_absorbed_def m sha1_blocks_short)
  have n: "u + n \<le> 64" "length (take n p) = n" using assms(2) u by auto
  have b: "sha_block c1 = T @ take n p @ drop (u + n) (sha_block c)" "sha_used c1 = u + n" "sha_h c1 = sha_h c"
    using assms(4) u by simp_all
  have len: "length (m @ take n p) = length A + (u + n)" using lenT n by (simp add: m)
  have bl: "sha1_blocks sha1_iv (m @ take n p) = sha1_blocks (sha_h c) (T @ take n p)"
    using sha1_blocks_append [OF A0, of sha1_iv "T @ take n p"] by (simp add: m h)
  show ?thesis
  proof (cases "u + n = 64")
    case True
    have "drop 64 (sha_block c) = []" using u(4) by simp
    then have full: "sha_block c1 = T @ take n p" using b(1) True by simp
    have mod0: "length (m @ take n p) mod 64 = 0" using len True A0 by (simp add: mod_add_left_eq)
    have "sha1_blocks sha1_iv (m @ take n p) = sha1_compress (sha_h c) (T @ take n p)"
      using bl True n lenT by (simp add: sha1_blocks_full)
    then show ?thesis
      using True b full mod0 lenT n
      unfolding sha1_absorbed_def by (simp add: sha1_transform_def)
  next
    case False
    then have lt: "u + n < 64" using n by simp
    have mod: "length (m @ take n p) mod 64 = u + n"
      using len A0 lt by (metis add_0 mod_add_left_eq mod_less)
    have "drop (length (m @ take n p) - (u + n)) (m @ take n p) = T @ take n p"
      using len by (simp add: m)
    moreover have "take (u + n) (sha_block c1) = T @ take n p"
      using b(1) lenT n(2) by simp
    moreover have "length (sha_block c1) = 64" using b(1) lenT n u(4) by simp
    moreover have "sha_h c1 = sha1_blocks sha1_iv (m @ take n p)"
      using bl b(3) lt lenT n(2) by (simp add: sha1_blocks_short)
    ultimately show ?thesis using False b(2) mod by (simp add: sha1_absorbed_def)
  qed
qed

lemma sha1_update_loop_absorbed:
  "sha1_absorbed c m \<Longrightarrow> sha1_absorbed (sha1_update_loop c p) (m @ p)"
proof (induction c p arbitrary: m rule: sha1_update_loop.induct)
  case (1 c p)
  show ?case
  proof (cases "p = []")
    case True
    with 1(2) show ?thesis by (simp add: sha1_update_loop.simps)
  next
    case False
    have "sha_used c < 64" using 1(2) by (simp add: sha1_absorbed_def)
    then have g: "\<not> (p = [] \<or> \<not> sha_used c < 64)" using False by simp
    let ?n = "min (64 - sha_used c) (length p)"
    show ?thesis
      unfolding sha1_update_loop.simps [of c p] if_not_P [OF g] Let_def
      using 1(1) [OF g refl refl refl sha1_absorbed_step [OF 1(2) refl False refl]]
      by (simp only: append_assoc append_take_drop_id)
  qed
qed

lemma sha1_absorbed_bytes [simp]: "sha1_absorbed (c\<lparr>sha_bytes := b\<rparr>) m = sha1_absorbed c m"
  by (simp add: sha1_absorbed_def)

lemma sha1_update_absorbed: "sha1_absorbed c m \<Longrightarrow> sha1_absorbed (sha1_update c p) (m @ p)"
  by (simp add: sha1_update_def sha1_update_loop_absorbed)

lemma sha1_init_absorbed: "length garbage = 64 \<Longrightarrow> sha1_absorbed (sha1_init garbage) []"
  by (simp add: sha1_absorbed_def sha1_init_def sha1_blocks_short)

lemma sha1_update_loop_bytes: "sha_bytes (sha1_update_loop c p) = sha_bytes c"
proof (induction c p rule: sha1_update_loop.induct)
  case (1 c p)
  show ?case
  proof (cases "p = [] \<or> \<not> sha_used c < 64")
    case True
    then show ?thesis by (simp add: sha1_update_loop.simps)
  next
    case False
    show ?thesis
      unfolding sha1_update_loop.simps [of c p] if_not_P [OF False] Let_def
      using 1 [OF False refl refl refl] by (simp add: sha1_transform_def)
  qed
qed

lemma sha1_update_bytes: "sha_bytes (sha1_update c p) = sha_bytes c + of_nat (length p)"
  by (simp add: sha1_update_def sha1_update_loop_bytes)

lemma pad_count:
  assumes "x < 64" "x \<noteq> (56::nat)"
  shows "(120 - x) mod 64 = Suc ((120 - Suc x mod 64) mod 64)"
proof -
  consider "x < 56" | "56 < x" "x < 63" | "x = 63" using assms by linarith
  then show ?thesis
  proof cases
    case 1
    then show ?thesis by (simp add: le_mod_geq Suc_diff_le)
  next
    case 2
    then show ?thesis by simp
  qed simp
qed

text \<open>The fuel is enough: from any context the zero padding ends at 56 used bytes.\<close>

lemma sha1_pad_zeros_absorbed:
  "sha1_absorbed c m \<Longrightarrow> (120 - length m mod 64) mod 64 \<le> fuel \<Longrightarrow>
   sha1_absorbed (sha1_pad_zeros fuel c) (m @ replicate ((120 - length m mod 64) mod 64) 0)"
proof (induction fuel arbitrary: c m)
  case 0
  then show ?case by simp
next
  case (Suc fuel)
  have used: "sha_used c = length m mod 64" using Suc.prems by (simp add: sha1_absorbed_def)
  show ?case
  proof (cases "sha_used c = 56")
    case True
    with Suc.prems used show ?thesis by simp
  next
    case False
    have lt: "length m mod 64 < 64" by simp
    have k: "(120 - length m mod 64) mod 64 = Suc ((120 - length (m @ [0::u8]) mod 64) mod 64)"
      using pad_count [OF lt] False used by (simp add: mod_Suc_eq)
    have "sha1_absorbed (sha1_update c [0]) (m @ [0])" by (rule sha1_update_absorbed [OF Suc.prems(1)])
    from Suc.IH [OF this] Suc.prems(2) k False show ?thesis by simp
  qed
qed

lemma be64_bytes_length: "length (be64_bytes v) = 8"
  by (simp add: be64_bytes_def)

lemma sha1_final_absorbed:
  assumes "sha1_absorbed c m" "sha_bytes c = of_nat (length m)"
  shows "sha1_final c = sha1_spec m"
proof -
  let ?m1 = "m @ [0x80]"
  have "sha1_absorbed (sha1_update c [0x80]) ?m1" by (rule sha1_update_absorbed [OF assms(1)])
  moreover have "(120 - length ?m1 mod 64) mod 64 \<le> 64"
    by (meson less_imp_le mod_less_divisor zero_less_numeral)
  ultimately have "sha1_absorbed (sha1_pad_zeros 64 (sha1_update c [0x80]))
      (?m1 @ replicate ((120 - length ?m1 mod 64) mod 64) 0)"
    by (rule sha1_pad_zeros_absorbed)
  from sha1_update_absorbed [OF this, of "be64_bytes (sha_bytes c * 8)"]
  have h: "sha_h (sha1_update (sha1_pad_zeros 64 (sha1_update c [0x80])) (be64_bytes (sha_bytes c * 8)))
    = sha1_blocks sha1_iv ((?m1 @ replicate ((120 - length ?m1 mod 64) mod 64) 0) @ be64_bytes (sha_bytes c * 8))"
    by (simp add: sha1_absorbed_def)
  have "(120 - length ?m1 mod 64) mod 64 = (119 - length m mod 64) mod 64"
    by (simp add: mod_Suc)
  then show ?thesis
    using h assms(2) by (simp add: sha1_final_def Let_def sha1_spec_def sha1_padding_def)
qed

lemma sha1_bytes_hex_spec: "sha1_bytes_hex s = hex20 (sha1_spec s)"
proof -
  have "sha1_absorbed (sha1_update (sha1_init (replicate 64 0)) s) ([] @ s)"
    by (intro sha1_update_absorbed sha1_init_absorbed) simp
  then show ?thesis
    by (simp add: sha1_bytes_hex_def sha1_final_absorbed sha1_update_bytes sha1_init_def)
qed

text \<open>C34. The buffered SHA-1 is the algorithm: whatever bytes were in the uninitialised block
  buffer and however the message is cut into pieces, feeding the pieces and finishing gives the
  digest of the padded whole.\<close>

theorem sha1_streaming_correct:
  assumes "length garbage = 64"
  shows "sha1_final (foldl sha1_update (sha1_init garbage) pieces) = sha1_spec (concat pieces)"
proof -
  have "sha1_absorbed (foldl sha1_update c pieces) (m @ concat pieces)
      \<and> sha_bytes (foldl sha1_update c pieces) = of_nat (length (m @ concat pieces))"
    if "sha1_absorbed c m" "sha_bytes c = of_nat (length m)" for c m
    using that
  proof (induction pieces arbitrary: c m)
    case (Cons p pieces)
    from Cons.IH [OF sha1_update_absorbed [OF Cons.prems(1), of p]] Cons.prems(2)
    show ?case by (simp add: sha1_update_bytes add.assoc)
  qed simp
  from this [OF sha1_init_absorbed [OF assms]] show ?thesis
    by (simp add: sha1_final_absorbed sha1_init_def)
qed

theorem sha1_streaming_correct_witness:
  "sha1_final (foldl sha1_update (sha1_init (replicate 64 7)) [[1], [2, 3]]) = sha1_spec [1, 2, 3]"
  using sha1_streaming_correct [of "replicate 64 7" "[[1], [2, 3]]"] by simp

lemma hex20_length: "length (hex20 ds) = 2 * length ds"
  by (induction ds) (simp_all add: hex20_def)

lemma sha1_spec_length: "length (sha1_spec m) = 20"
  by (simp add: sha1_spec_def sha1_digest_def be32_bytes_def split: prod.splits)

lemma sha1_bytes_hex_length: "length (sha1_bytes_hex s) = 40"
  by (simp add: sha1_bytes_hex_spec hex20_length sha1_spec_length)


end
