(* ===== verification/KvFile.thy ===== *)
theory KvFile
  imports Complex_Main Sha1
begin

text \<open>
  The durable format and the pure decisions of the disk cache of \<open>ds4_kvstore.c\<close>: options and
  reason codes (lines 163 to 190), little-endian codecs (lines 192 to 214), file names (lines
  347 to 374), the 48-byte header and its reader (lines 397 to 446), the positions at which
  checkpoints are stored (lines 689 to 770) and the size arithmetic (lines 772 to 820).
  Buffers, texts and files are byte lists; names and paths are character lists.
\<close>

section \<open>Options, reasons and flags\<close>

record kv_options =
  min_tokens :: int
  cold_max_tokens :: int
  continued_interval_tokens :: int
  boundary_trim_tokens :: int
  boundary_align_tokens :: int

definition kvstore_default_options :: kv_options where
  "kvstore_default_options =
     \<lparr>min_tokens = 512, cold_max_tokens = 30000, continued_interval_tokens = 10000,
      boundary_trim_tokens = 32, boundary_align_tokens = 2048\<rparr>"

definition kvstore_reason_code :: "string option \<Rightarrow> u8" where
  "kvstore_reason_code reason =
     (if reason = Some ''cold'' then 1
      else if reason = Some ''continued'' then 2
      else if reason = Some ''evict'' then 3
      else if reason = Some ''shutdown'' then 4
      else if reason = Some ''agent-system'' then 5
      else if reason = Some ''agent-session'' then 6
      else 0)"

definition kvstore_key_kind :: "u8 \<Rightarrow> string" where
  "kvstore_key_kind ext_flags =
     (if ext_flags AND 2 \<noteq> 0 then ''responses-visible''
      else if ext_flags AND 4 \<noteq> 0 then ''thinking-visible''
      else ''token-text'')"

section \<open>Little-endian integers\<close>

definition le_put32 :: "u32 \<Rightarrow> bytes" where
  "le_put32 v = [ucast v, ucast (drop_bit 8 v), ucast (drop_bit 16 v), ucast (drop_bit 24 v)]"

definition le_put64 :: "u64 \<Rightarrow> bytes" where
  "le_put64 v = map (\<lambda>i. ucast (drop_bit (8 * i) v)) [0..<8]"

definition le_get32 :: "bytes \<Rightarrow> u32" where
  "le_get32 p = ucast (p ! 0) OR push_bit 8 (ucast (p ! 1)) OR push_bit 16 (ucast (p ! 2))
     OR push_bit 24 (ucast (p ! 3))"

definition le_get64 :: "bytes \<Rightarrow> u64" where
  "le_get64 p = foldl (\<lambda>v i. push_bit 8 v OR ucast (p ! i)) 0 (rev [0..<8])"

lemma le_get32_put32 [codec_simps]: "le_get32 (le_put32 v) = v"
proof (rule bit_word_eqI)
  fix n assume "n < LENGTH(32)"
  then have "n < 8 \<or> 8 \<le> n \<and> n < 16 \<or> 16 \<le> n \<and> n < 24 \<or> 24 \<le> n \<and> n < 32" by auto
  then show "bit (le_get32 (le_put32 v)) n = bit v n"
    by (elim disjE; auto simp: le_get32_def le_put32_def bit_simps)
qed

lemma le_get64_put64 [codec_simps]: "le_get64 (le_put64 v) = v"
proof (rule bit_word_eqI)
  fix n assume "n < LENGTH(64)"
  then have "n < 8 \<or> 8 \<le> n \<and> n < 16 \<or> 16 \<le> n \<and> n < 24 \<or> 24 \<le> n \<and> n < 32
      \<or> 32 \<le> n \<and> n < 40 \<or> 40 \<le> n \<and> n < 48 \<or> 48 \<le> n \<and> n < 56 \<or> 56 \<le> n \<and> n < 64" by auto
  then show "bit (le_get64 (le_put64 v)) n = bit v n"
    by (elim disjE; auto simp: le_get64_def le_put64_def upt_rec bit_simps)
qed

lemma le_put_length [simp]: "length (le_put32 v) = 4" "length (le_put64 w) = 8"
  by (simp_all add: le_put32_def le_put64_def)

section \<open>File names\<close>

definition kvstore_sha_hex_name :: "string \<Rightarrow> string option" where
  "kvstore_sha_hex_name name =
     (if length name \<noteq> 43 \<or> drop 40 name \<noteq> ''.kv'' then None
      else if list_all isxdigit (take 40 name) then Some (map tolower (take 40 name))
      else None)"

definition kvstore_path_join :: "string \<Rightarrow> string \<Rightarrow> string" where
  "kvstore_path_join dir name =
     dir @ (if dir = [] \<or> last dir \<noteq> CHR ''/'' then ''/'' else []) @ name"

definition kvstore_path_for_sha :: "string \<Rightarrow> string \<Rightarrow> string" where
  "kvstore_path_for_sha dir sha = kvstore_path_join dir (take 40 sha @ ''.kv'')"

lemma kvstore_path_join_inject [simp]:
  "kvstore_path_join dir a = kvstore_path_join dir b \<longleftrightarrow> a = b"
  by (simp add: kvstore_path_join_def)

lemma hex_char_lower: "n < 16 \<Longrightarrow> isxdigit (hex_char n) \<and> tolower (hex_char n) = hex_char n"
proof -
  have "\<forall>n<16. isxdigit (hex_char n) \<and> tolower (hex_char n) = hex_char n"
    unfolding Ball_def [symmetric] by code_simp
  then show "n < 16 \<Longrightarrow> ?thesis" by blast
qed

lemma hex20_lower:
  "list_all isxdigit (hex20 ds) \<and> map tolower (hex20 ds) = hex20 ds"
proof -
  have "unat (drop_bit 4 (b::u8)) < 16" "unat (b AND 15) < 16" for b
  proof -
    show "unat (drop_bit 4 b) < 16"
    proof -
      have "unat b < 2 ^ LENGTH(8)" by (rule unsigned_less)
      moreover have "unat (drop_bit 4 b) = unat b div 16"
        by (simp only: unat_drop_bit_eq) (simp add: drop_bit_eq_div)
      ultimately show ?thesis by simp
    qed
    have "unat (b AND 15) = unat b mod 16"
      using unat_and_mask [of b 4] by (simp add: mask_eq_exp_minus_1)
    then show "unat (b AND 15) < 16" by simp
  qed
  then show ?thesis
    by (induction ds) (simp_all add: hex20_def hex_char_lower)
qed


section \<open>Headers and entries\<close>

record kv_entry =
  e_sha :: string
  e_path :: string
  e_quant_bits :: u8
  e_model_id :: u8
  e_reason :: u8
  e_tokens :: u32
  e_hits :: u32
  e_ctx_size :: u32
  e_ext_flags :: u8
  e_created_at :: u64
  e_last_used :: u64
  e_payload_bytes :: u64
  e_text_bytes :: u64
  e_file_size :: u64

definition kv_entry_zero :: kv_entry where
  "kv_entry_zero = \<lparr>e_sha = [], e_path = [], e_quant_bits = 0, e_model_id = 0, e_reason = 0,
     e_tokens = 0, e_hits = 0, e_ctx_size = 0, e_ext_flags = 0, e_created_at = 0, e_last_used = 0,
     e_payload_bytes = 0, e_text_bytes = 0, e_file_size = 0\<rparr>"

definition kvstore_fill_header ::
  "u8 \<Rightarrow> u8 \<Rightarrow> u8 \<Rightarrow> u8 \<Rightarrow> u32 \<Rightarrow> u32 \<Rightarrow> u32 \<Rightarrow> u64 \<Rightarrow> u64 \<Rightarrow> u64 \<Rightarrow> bytes" where
  "kvstore_fill_header model_id quant_bits reason ext_flags tokens hits ctx_size created_at last_used payload_bytes =
     [0x4B, 0x56, 0x43, 1, quant_bits, reason, ext_flags, model_id]
     @ le_put32 tokens @ le_put32 hits @ le_put32 ctx_size
     @ [4, 0, 0, 0] @ le_put64 created_at @ le_put64 last_used @ le_put64 payload_bytes"

definition kvstore_read_header :: "bytes \<Rightarrow> (kv_entry \<times> u32) option" where
  "kvstore_read_header f =
     (if length f < 48 then None
      else if f ! 0 \<noteq> 0x4B \<or> f ! 1 \<noteq> 0x56 \<or> f ! 2 \<noteq> 0x43 \<or> f ! 3 \<noteq> 1 then None
      else if f ! 20 \<noteq> 4 then None
      else if length f < 52 then None
      else
        let text_bytes = le_get32 (drop 48 f);
            e = kv_entry_zero
              \<lparr>e_quant_bits := f ! 4,
               e_reason := (if f ! 5 \<le> 6 then f ! 5 else 0),
               e_ext_flags := f ! 6,
               e_model_id := f ! 7,
               e_tokens := le_get32 (drop 8 f),
               e_hits := le_get32 (drop 12 f),
               e_ctx_size := le_get32 (drop 16 f),
               e_created_at := le_get64 (drop 24 f),
               e_last_used := le_get64 (drop 32 f),
               e_payload_bytes := le_get64 (drop 40 f),
               e_text_bytes := ucast text_bytes\<rparr>
        in if e_tokens e \<noteq> 0 \<and> (e_quant_bits e = 2 \<or> e_quant_bits e = 4) then Some (e, text_bytes)
           else None)"

lemma le_get32_append: "length a = 4 \<Longrightarrow> le_get32 (a @ r) = le_get32 a"
  by (simp add: le_get32_def nth_append)

lemma le_get64_append: "length a = 8 \<Longrightarrow> le_get64 (a @ r) = le_get64 a"
  by (simp add: le_get64_def nth_append upt_rec)

lemma fill_header_length [simp]:
  "length (kvstore_fill_header model_id quant_bits reason ext_flags tokens hits ctx_size created_at
     last_used payload_bytes) = 48"
  by (simp add: kvstore_fill_header_def)

lemma read_header_fill:
  "kvstore_read_header
     (kvstore_fill_header model_id quant_bits reason ext_flags tokens hits ctx_size created_at
        last_used payload_bytes @ le_put32 text_bytes @ rest)
   = (if tokens \<noteq> 0 \<and> (quant_bits = 2 \<or> quant_bits = 4) then
        Some (kv_entry_zero
          \<lparr>e_quant_bits := quant_bits, e_reason := if reason \<le> 6 then reason else 0,
           e_ext_flags := ext_flags, e_model_id := model_id, e_tokens := tokens, e_hits := hits,
           e_ctx_size := ctx_size, e_created_at := created_at, e_last_used := last_used,
           e_payload_bytes := payload_bytes, e_text_bytes := ucast text_bytes\<rparr>, text_bytes)
      else None)"
  by (simp add: kvstore_read_header_def kvstore_fill_header_def Let_def nth_append
      le_get32_append le_get64_append codec_simps)

text \<open>A header that is written and read back gives every field again: kind, sizes, times,
  flags and counters, whatever follows it in the file; an empty or wrongly quantised checkpoint
  is refused.\<close>

theorem kvstore_header_roundtrip:
  "kvstore_read_header
     (kvstore_fill_header model_id quant_bits reason ext_flags tokens hits ctx_size created_at
        last_used payload_bytes @ le_put32 text_bytes @ rest)
   = (if tokens \<noteq> 0 \<and> (quant_bits = 2 \<or> quant_bits = 4) then
        Some (\<lparr>e_sha = [], e_path = [], e_quant_bits = quant_bits, e_model_id = model_id,
           e_reason = (if reason \<le> 6 then reason else 0), e_tokens = tokens, e_hits = hits,
           e_ctx_size = ctx_size, e_ext_flags = ext_flags, e_created_at = created_at,
           e_last_used = last_used, e_payload_bytes = payload_bytes,
           e_text_bytes = ucast text_bytes, e_file_size = 0\<rparr>, text_bytes)
      else None)"
  by (simp add: read_header_fill kv_entry_zero_def)


section \<open>Where checkpoints are stored\<close>

definition kvstore_store_len :: "kv_options \<Rightarrow> int \<Rightarrow> int" where
  "kvstore_store_len opt tokens =
     (let trim = boundary_trim_tokens opt; align = boundary_align_tokens opt in
      if tokens > min_tokens opt + trim then
        let stable = tokens - trim;
            stable' = (if align > 0 then stable - stable smod align else stable)
        in if stable' \<ge> min_tokens opt then stable' else tokens
      else tokens)"

text \<open>A stored prefix is never longer than the prompt; when it is shorter it has the minimal
  length, is aligned, and keeps the trimmed tail outside, and less than one alignment step is
  given up beyond that.\<close>

theorem kvstore_store_len_bounds:
  assumes "0 \<le> boundary_trim_tokens opt" "0 \<le> min_tokens opt"
  shows "kvstore_store_len opt tokens = tokens
    \<or> (min_tokens opt \<le> kvstore_store_len opt tokens
       \<and> kvstore_store_len opt tokens + boundary_trim_tokens opt \<le> tokens
       \<and> (0 < boundary_align_tokens opt \<longrightarrow>
            boundary_align_tokens opt dvd kvstore_store_len opt tokens
            \<and> tokens < kvstore_store_len opt tokens + boundary_trim_tokens opt + boundary_align_tokens opt))"
proof (cases "tokens > min_tokens opt + boundary_trim_tokens opt")
  case True
  define s where "s = tokens - boundary_trim_tokens opt"
  have s: "s \<ge> 0" using True assms by (simp add: s_def)
  show ?thesis
  proof (cases "boundary_align_tokens opt > 0")
    case align: True
    let ?a = "boundary_align_tokens opt"
    have m: "s smod ?a = s mod ?a"
      using s align by (cases "s = 0") (auto simp: signed_modulo_int_def sgn_if)
    have "0 \<le> s mod ?a" "s mod ?a < ?a" using align by simp_all
    moreover have "?a dvd s - s mod ?a" by (simp add: mod_eq_dvd_iff [symmetric])
    ultimately show ?thesis
      using True align m by (auto simp: kvstore_store_len_def Let_def s_def [symmetric])
        (auto simp: s_def)
  next
    case False
    then show ?thesis using True by (auto simp: kvstore_store_len_def Let_def)
  qed
qed (simp add: kvstore_store_len_def)

theorem kvstore_store_len_bounds_witness:
  "kvstore_store_len kvstore_default_options 5000 = 4096
   \<and> (kvstore_store_len kvstore_default_options 5000 = 5000 \<or> 2048 dvd (4096::int))"
  using kvstore_store_len_bounds [of kvstore_default_options 5000]
  by (simp add: kvstore_default_options_def kvstore_store_len_def Let_def signed_modulo_int_def)

definition kvstore_chat_anchor_pos :: "kv_options \<Rightarrow> int list \<Rightarrow> int \<Rightarrow> int \<Rightarrow> int" where
  "kvstore_chat_anchor_pos opt prompt user_token_id assistant_token_id =
     (if user_token_id < 0 \<or> assistant_token_id < 0 then -1
      else
        let last_user = foldl (\<lambda>last i. if prompt ! i = user_token_id then int i else last)
                          (-1) [0..<length prompt]
        in if last_user \<ge> min_tokens opt then last_user else -1)"

lemma last_index_fold:
  "foldl (\<lambda>last i. if xs ! i = t then int i else last) (-1) [0..<n] = int k
   \<longleftrightarrow> k < n \<and> xs ! k = t \<and> (\<forall>j. k < j \<longrightarrow> j < n \<longrightarrow> xs ! j \<noteq> t)"
  by (induction n) (auto simp: less_Suc_eq)

text \<open>The anchor of a chat prompt is the position of the last user marker, and is used only when
  that position leaves at least the minimal prefix in front of it.\<close>

theorem kvstore_chat_anchor_pos_iff:
  assumes "0 \<le> user" "0 \<le> assistant"
  shows "kvstore_chat_anchor_pos opt prompt user assistant = int k
    \<longleftrightarrow> k < length prompt \<and> prompt ! k = user \<and> user \<notin> set (drop (Suc k) prompt)
        \<and> min_tokens opt \<le> int k"
proof -
  have "user \<notin> set (drop (Suc k) prompt) \<longleftrightarrow> (\<forall>j. k < j \<longrightarrow> j < length prompt \<longrightarrow> prompt ! j \<noteq> user)"
  proof
    assume a: "user \<notin> set (drop (Suc k) prompt)"
    show "\<forall>j. k < j \<longrightarrow> j < length prompt \<longrightarrow> prompt ! j \<noteq> user"
    proof (intro allI impI)
      fix j assume "k < j" "j < length prompt"
      then have "drop (Suc k) prompt ! (j - Suc k) = prompt ! j" "j - Suc k < length (drop (Suc k) prompt)"
        by auto
      with a show "prompt ! j \<noteq> user" by (metis nth_mem)
    qed
  qed (auto simp: in_set_conv_nth)
  then show ?thesis
    using assms last_index_fold [of prompt user "length prompt" k]
    by (auto simp: kvstore_chat_anchor_pos_def Let_def)
qed

theorem kvstore_chat_anchor_pos_witness:
  "kvstore_chat_anchor_pos (kvstore_default_options\<lparr>min_tokens := 1\<rparr>) [7, 1, 9, 1, 5] 1 2 = 3"
  using kvstore_chat_anchor_pos_iff [of 1 2 "kvstore_default_options\<lparr>min_tokens := 1\<rparr>" "[7, 1, 9, 1, 5]" 3]
  by (simp add: kvstore_default_options_def)

section \<open>Sizes against the budget\<close>

definition FIXED :: u64 where
  "FIXED = 52"

definition kv_cache_file_size_bytes :: "u64 \<Rightarrow> u64 \<Rightarrow> u64 \<Rightarrow> u64 option" where
  "kv_cache_file_size_bytes text_bytes payload_bytes trailer_bytes =
     (if - 1 - FIXED < text_bytes \<or> - 1 - FIXED - text_bytes < payload_bytes
         \<or> - 1 - FIXED - text_bytes - payload_bytes < trailer_bytes then None
      else Some (FIXED + text_bytes + payload_bytes + trailer_bytes))"

definition kv_cache_budget_required :: "u64 \<Rightarrow> u64 option" where
  "kv_cache_budget_required file_bytes =
     (let slack = file_bytes div 100 + (if file_bytes mod 100 \<noteq> 0 then 1 else 0) in
      if - 1 - file_bytes < slack then None else Some (file_bytes + slack))"

definition kvstore_file_size_fits :: "u64 \<Rightarrow> u64 \<Rightarrow> u64 \<Rightarrow> u64 \<Rightarrow> bool" where
  "kvstore_file_size_fits budget text_bytes payload_bytes trailer_bytes =
     (case kv_cache_file_size_bytes text_bytes payload_bytes trailer_bytes of
        None \<Rightarrow> False
      | Some file_bytes \<Rightarrow>
          if budget = 0 then True
          else (case kv_cache_budget_required file_bytes of
                  None \<Rightarrow> False | Some required \<Rightarrow> required \<le> budget))"

lemma minus_one_minus: "unat (- 1 - (x::u64)) = 2 ^ 64 - 1 - unat x"
proof -
  have "unat (- 1 - x) = unat (- 1 :: u64) - unat x"
    by (rule unat_sub) simp
  then show ?thesis by (simp add: unsigned_minus_1_eq_mask mask_eq_exp_minus_1)
qed

lemma wrap_iff: "- 1 - x < y \<longleftrightarrow> 2 ^ 64 \<le> unat x + unat (y::u64)"
proof -
  have "unat x < 2 ^ LENGTH(64)" by (rule unsigned_less)
  then show ?thesis
    by (simp add: word_less_nat_alt minus_one_minus) arith
qed

lemma add_no_wrap: "unat x + unat y < 2 ^ 64 \<Longrightarrow> unat (x + y) = unat x + unat (y::u64)"
  using unat_add_lem [of x y] by simp

lemma unat_FIXED: "unat FIXED = 52"
  by (simp add: FIXED_def)

lemma file_size_exact:
  "kv_cache_file_size_bytes t p r
   = (if 52 + unat t + unat p + unat r < 2 ^ 64 then Some (FIXED + t + p + r) else None)"
proof -
  have "- 1 - FIXED - t = - 1 - (FIXED + t)" "- 1 - FIXED - t - p = - 1 - (FIXED + t + p)" by simp_all
  then have e: "kv_cache_file_size_bytes t p r =
      (if 2 ^ 64 \<le> 52 + unat t \<or> 2 ^ 64 \<le> unat (FIXED + t) + unat p
          \<or> 2 ^ 64 \<le> unat (FIXED + t + p) + unat r then None else Some (FIXED + t + p + r))"
    unfolding kv_cache_file_size_bytes_def by (simp only: wrap_iff unat_FIXED)
  show ?thesis
  proof (cases "52 + unat t + unat p < 2 ^ 64")
    case True
    then have "unat (FIXED + t) = 52 + unat t" by (simp add: add_no_wrap unat_FIXED)
    with True have "unat (FIXED + t + p) = 52 + unat t + unat p" by (simp add: add_no_wrap)
    with True \<open>unat (FIXED + t) = 52 + unat t\<close> show ?thesis unfolding e by auto
  next
    case False
    show ?thesis
    proof (cases "52 + unat t < 2 ^ 64")
      case True
      then have "unat (FIXED + t) = 52 + unat t" by (simp add: add_no_wrap unat_FIXED)
      with False show ?thesis unfolding e by auto
    next
      case f: False
      then show ?thesis unfolding e by auto
    qed
  qed
qed

lemma file_size_unat:
  "52 + unat t + unat p + unat r < 2 ^ 64 \<Longrightarrow> unat (FIXED + t + p + r) = 52 + unat t + unat p + unat r"
  by (simp add: add_no_wrap unat_FIXED)

definition ceil100 :: "nat \<Rightarrow> nat" where
  "ceil100 n = (n + 99) div 100"

lemma ceil100_eq: "ceil100 n = n div 100 + (if n mod 100 \<noteq> 0 then 1 else 0)"
proof -
  define q r where "q = n div 100" and "r = n mod 100"
  have n: "n = 100 * q + r" "r < 100" by (simp_all add: q_def r_def)
  have "(n + 99) div 100 = q + (r + 99) div 100"
    using div_mult_self4 [of 100 q "r + 99"] n by (simp add: add.assoc)
  moreover have "(r + 99) div 100 = (if r \<noteq> 0 then 1 else 0)"
    using n(2) by (cases "r = 0") (auto intro: div_nat_eqI)
  ultimately show ?thesis by (simp add: ceil100_def q_def r_def)
qed

lemma slack_unat:
  "unat ((b::u64) div 100 + (if b mod 100 \<noteq> 0 then 1 else 0)) = ceil100 (unat b)"
proof -
  have d: "unat (b div 100) = unat b div 100" "unat (b mod 100) = unat b mod 100"
    by (simp_all add: unat_div unat_mod)
  have "b mod 100 \<noteq> 0 \<longleftrightarrow> unat b mod 100 \<noteq> 0"
    using d(2) by (metis unat_eq_zero)
  moreover have "unat b < 2 ^ LENGTH(64)" by (rule unsigned_less)
  then have "unat b div 100 + 1 < 2 ^ 64" by simp
  ultimately show ?thesis
    by (simp add: ceil100_eq add_no_wrap d)
qed

text \<open>The fit test is the integer inequality it stands for, with no wrap-around: a file fits
  when header, text, payload and trailer together with one percent of headroom, rounded up, are
  at most the budget, and a size that does not fit in 64 bits is refused.\<close>

theorem kvstore_file_size_fits_iff:
  "kvstore_file_size_fits budget t p r \<longleftrightarrow>
     (let size = 52 + unat t + unat p + unat r in
      size < 2 ^ 64 \<and> (budget \<noteq> 0 \<longrightarrow> size + ceil100 size \<le> unat budget))"
proof (cases "52 + unat t + unat p + unat r < 2 ^ 64")
  case True
  let ?b = "FIXED + t + p + r"
  have b: "unat ?b = 52 + unat t + unat p + unat r" using True by (rule file_size_unat)
  have B: "unat budget < 2 ^ LENGTH(64)" by (rule unsigned_less)
  show ?thesis
  proof (cases "2 ^ 64 \<le> unat ?b + ceil100 (unat ?b)")
    case w: True
    then have "kv_cache_budget_required ?b = None"
      by (simp only: kv_cache_budget_required_def Let_def wrap_iff slack_unat if_True)
    with True b w B show ?thesis
      by (auto simp: kvstore_file_size_fits_def file_size_exact Let_def)
  next
    case False
    let ?s = "?b div 100 + (if ?b mod 100 \<noteq> 0 then 1 else 0)"
    have r: "kv_cache_budget_required ?b = Some (?b + ?s)"
      using False by (simp only: kv_cache_budget_required_def Let_def wrap_iff slack_unat if_False)
    have "unat (?b + ?s) = unat ?b + ceil100 (unat ?b)"
      using False by (subst add_no_wrap) (simp_all only: slack_unat not_le)
    then show ?thesis
      using True b r by (simp add: kvstore_file_size_fits_def file_size_exact Let_def word_le_nat_alt)
  qed
qed (simp add: kvstore_file_size_fits_def file_size_exact Let_def)

theorem kvstore_file_size_fits_witness:
  "kvstore_file_size_fits 1000 100 700 10 \<and> \<not> kvstore_file_size_fits 1000 100 840 10
   \<and> \<not> kvstore_file_size_fits 0 100 (- 1) 10"
  by (simp add: kvstore_file_size_fits_iff Let_def ceil100_def unsigned_minus_1_eq_mask mask_eq_exp_minus_1)


section \<open>Continued checkpoints\<close>

record kvstore =
  kc_enabled :: bool
  kc_dir :: string
  kc_budget_bytes :: u64
  kc_reject_different_quant :: bool
  kc_opt :: kv_options
  kc_continued_last_store_tokens :: int
  kc_entry :: "kv_entry list"

definition kv_cache_continued_step :: "kvstore \<Rightarrow> int" where
  "kv_cache_continued_step kc =
     (if \<not> kc_enabled kc \<or> continued_interval_tokens (kc_opt kc) \<le> 0 then 0
      else
        let step = continued_interval_tokens (kc_opt kc);
            align = boundary_align_tokens (kc_opt kc) in
        if align > 0 then
          let step' = ((step + align - 1) sdiv align) * align
          in if step' \<le> 0 then align else step'
        else step)"

definition kvstore_continued_store_target :: "kvstore \<Rightarrow> int \<Rightarrow> int" where
  "kvstore_continued_store_target kc live_tokens =
     (let step = kv_cache_continued_step kc in
      if step \<le> 0 then 0
      else if live_tokens < min_tokens (kc_opt kc) then 0
      else if live_tokens smod step \<noteq> 0 then 0
      else if live_tokens \<le> kc_continued_last_store_tokens kc then 0
      else live_tokens)"

definition kvstore_note_store :: "kvstore \<Rightarrow> int \<Rightarrow> kvstore" where
  "kvstore_note_store kc tokens =
     (if tokens > kc_continued_last_store_tokens kc
      then kc\<lparr>kc_continued_last_store_tokens := tokens\<rparr> else kc)"

definition kvstore_suppress_continued_store :: "kvstore \<Rightarrow> int \<Rightarrow> int \<times> kvstore" where
  "kvstore_suppress_continued_store kc tokens =
     (if kvstore_continued_store_target kc tokens \<noteq> tokens then (-1, kc)
      else (kc_continued_last_store_tokens kc, kvstore_note_store kc tokens))"

definition kvstore_restore_suppressed_continued :: "kvstore \<Rightarrow> int \<Rightarrow> int \<Rightarrow> kvstore" where
  "kvstore_restore_suppressed_continued kc old_tokens suppressed_tokens =
     (if old_tokens \<ge> 0 \<and> kc_continued_last_store_tokens kc = suppressed_tokens
      then kc\<lparr>kc_continued_last_store_tokens := old_tokens\<rparr> else kc)"

lemma continued_step_covers:
  assumes "kc_enabled kc" "0 < continued_interval_tokens (kc_opt kc)"
  shows "continued_interval_tokens (kc_opt kc) \<le> kv_cache_continued_step kc
    \<and> (0 < boundary_align_tokens (kc_opt kc) \<longrightarrow>
         boundary_align_tokens (kc_opt kc) dvd kv_cache_continued_step kc
         \<and> kv_cache_continued_step kc < continued_interval_tokens (kc_opt kc) + boundary_align_tokens (kc_opt kc))"
proof (cases "boundary_align_tokens (kc_opt kc) > 0")
  case True
  define a i where "a = boundary_align_tokens (kc_opt kc)" and "i = continued_interval_tokens (kc_opt kc)"
  have p: "a > 0" "i > 0" using True assms by (simp_all add: a_def i_def)
  have d: "(i + a - 1) sdiv a = (i + a - 1) div a"
    using p by (simp add: signed_divide_int_def sgn_if)
  have "(i + a - 1) div a * a = i + a - 1 - (i + a - 1) mod a" by (simp add: minus_mod_eq_div_mult)
  moreover have "0 \<le> (i + a - 1) mod a" "(i + a - 1) mod a < a" using p by simp_all
  ultimately have b: "i \<le> (i + a - 1) div a * a" "(i + a - 1) div a * a < i + a" by linarith+
  have "kv_cache_continued_step kc = (i + a - 1) div a * a"
    using assms True p b d by (simp add: kv_cache_continued_step_def Let_def a_def [symmetric] i_def [symmetric])
  with b show ?thesis by (simp add: a_def [symmetric] i_def [symmetric])
qed (use assms in \<open>simp add: kv_cache_continued_step_def Let_def\<close>)

text \<open>Continued checkpoints are taken on a grid: a nonzero target is the current position, is a
  multiple of the interval rounded up to the alignment, is past the last checkpoint, and is not
  asked for again once it is noted.\<close>

theorem kvstore_continued_store_target_grid:
  assumes "kvstore_continued_store_target kc live = t" "t \<noteq> 0"
  shows "t = live \<and> kc_enabled kc \<and> kv_cache_continued_step kc dvd t
    \<and> min_tokens (kc_opt kc) \<le> t \<and> kc_continued_last_store_tokens kc < t
    \<and> kvstore_continued_store_target (kvstore_note_store kc t) t = 0"
proof -
  have "live smod s = 0 \<Longrightarrow> s dvd live" for s :: int
    by (metis dvd_refl smod_int_alt_def mult_sgn_dvd_iff dvd_diff_right_iff signed_modulo_int_def
        abs_dvd_iff dvd_0_right dvd_abs_iff mod_0_imp_dvd mod_eq_0_iff_dvd mult_eq_0_iff sgn_0_0 dvd_mult_cancel_left)
  then show ?thesis
    using assms
    by (auto simp: kvstore_continued_store_target_def kvstore_note_store_def Let_def
        kv_cache_continued_step_def split: if_splits)
qed

text \<open>Suppressing a continued checkpoint and restoring it afterwards leaves the store as it
  was.\<close>

theorem kvstore_suppress_restore:
  assumes "0 \<le> kc_continued_last_store_tokens kc"
  shows "(case kvstore_suppress_continued_store kc tokens of
            (old, kc') \<Rightarrow> kvstore_restore_suppressed_continued kc' old tokens) = kc"
  using assms
  by (auto simp: kvstore_suppress_continued_store_def kvstore_restore_suppressed_continued_def
      kvstore_note_store_def kvstore_continued_store_target_def Let_def split: if_splits)


definition example_store :: kvstore where
  "example_store = \<lparr>kc_enabled = True, kc_dir = ''kv'', kc_budget_bytes = 4096,
     kc_reject_different_quant = False, kc_opt = kvstore_default_options,
     kc_continued_last_store_tokens = 0, kc_entry = []\<rparr>"

theorem kvstore_continued_store_target_witness:
  "kvstore_continued_store_target (kvstore_note_store example_store 20480) 20480 = 0"
  using kvstore_continued_store_target_grid [of example_store 20480 20480]
  by (simp add: example_store_def kvstore_continued_store_target_def kv_cache_continued_step_def
      kvstore_default_options_def Let_def signed_divide_int_def signed_modulo_int_def sgn_if)

theorem kvstore_suppress_restore_witness:
  "kvstore_suppress_continued_store example_store 10240 = (0, example_store\<lparr>kc_continued_last_store_tokens := 10240\<rparr>)
   \<and> kvstore_restore_suppressed_continued (example_store\<lparr>kc_continued_last_store_tokens := 10240\<rparr>) 0 10240 = example_store"
  using kvstore_suppress_restore [of example_store 10240]
  by (simp add: example_store_def kvstore_suppress_continued_store_def kvstore_note_store_def
      kvstore_continued_store_target_def kv_cache_continued_step_def
      kvstore_restore_suppressed_continued_def
      kvstore_default_options_def Let_def signed_divide_int_def signed_modulo_int_def sgn_if)

end
