(* ===== verification/KvCache.thy ===== *)
theory KvCache
  imports KvFile
begin

text \<open>
  The disk cache of \<open>ds4_kvstore.c\<close> on a file system: reading entries, the directory scan,
  touching a file (lines 448 to 515), eviction (lines 517 to 622), the best text prefix (lines
  1222 to 1250), storing and loading checkpoints (lines 822 to 1213 and 1252 to 1386).

  The file system is an association list of paths and contents, in directory order.  What can
  fail outside the program (opening, unlinking, writing, syncing) is decided by the environment,
  which also gives the time and the C library's \<open>exp2\<close>.
\<close>

section \<open>Files\<close>

type_synonym fs = "(string \<times> bytes) list"

record kv_env =
  env_can_open :: "string \<Rightarrow> bool"
  env_can_unlink :: "string \<Rightarrow> bool"
  env_now :: u64
  env_exp2 :: "real \<Rightarrow> real"

definition fs_read :: "kv_env \<Rightarrow> fs \<Rightarrow> string \<Rightarrow> bytes option" where
  "fs_read env fs path = (if env_can_open env path then map_of fs path else None)"

definition fs_unlink :: "kv_env \<Rightarrow> fs \<Rightarrow> string \<Rightarrow> bool \<times> fs" where
  "fs_unlink env fs path =
     (if map_of fs path \<noteq> None \<and> env_can_unlink env path
      then (True, filter (\<lambda>(p, b). p \<noteq> path) fs) else (False, fs))"

definition fs_write :: "fs \<Rightarrow> string \<Rightarrow> bytes \<Rightarrow> fs" where
  "fs_write fs path b =
     (if map_of fs path = None then fs @ [(path, b)]
      else map (\<lambda>(p, c). if p = path then (p, b) else (p, c)) fs)"

text \<open>The names \<open>readdir\<close> gives for a directory.\<close>

definition fs_listing :: "fs \<Rightarrow> string \<Rightarrow> string list" where
  "fs_listing fs dir =
     (let base = kvstore_path_join dir [] in
      filter (\<lambda>n. CHR ''/'' \<notin> set n)
        (map (\<lambda>p. drop (length base) p) (filter (\<lambda>p. prefix base p) (map fst fs))))"

section \<open>Reading entries\<close>

definition kvstore_read_entry_file ::
  "kv_env \<Rightarrow> fs \<Rightarrow> string \<Rightarrow> string \<Rightarrow> kv_entry option" where
  "kvstore_read_entry_file env fs path sha =
     (case map_of fs path of
        None \<Rightarrow> None
      | Some st \<Rightarrow>
          if length st < 52 then None
          else
            (case fs_read env fs path of
               None \<Rightarrow> None
             | Some f \<Rightarrow>
                 (case kvstore_read_header f of
                    None \<Rightarrow> None
                  | Some (e, text_bytes) \<Rightarrow>
                      if - 1 - FIXED < ucast text_bytes
                         \<or> - 1 - FIXED - ucast text_bytes < e_payload_bytes e then None
                      else if of_nat (length st) < FIXED + ucast text_bytes + e_payload_bytes e then None
                      else Some (e\<lparr>e_sha := sha, e_path := path,
                                  e_file_size := of_nat (length st)\<rparr>))))"

text \<open>A directory that cannot be opened gives an empty index.\<close>

definition kv_cache_scan :: "kv_env \<Rightarrow> fs \<Rightarrow> string \<Rightarrow> kv_entry list" where
  "kv_cache_scan env fs dir =
     (if \<not> env_can_open env dir then []
      else List.map_filter
       (\<lambda>name. case kvstore_sha_hex_name name of
                 None \<Rightarrow> None
               | Some sha \<Rightarrow> kvstore_read_entry_file env fs (kvstore_path_join dir name) sha)
       (fs_listing fs dir))"

definition kv_cache_refresh :: "kv_env \<Rightarrow> fs \<Rightarrow> kvstore \<Rightarrow> kvstore" where
  "kv_cache_refresh env fs kc =
     (if \<not> kc_enabled kc then kc else kc\<lparr>kc_entry := kv_cache_scan env fs (kc_dir kc)\<rparr>)"

definition kvstore_touch_file :: "kv_env \<Rightarrow> fs \<Rightarrow> string \<Rightarrow> u32 \<Rightarrow> bool \<times> fs" where
  "kvstore_touch_file env fs path hits =
     (case fs_read env fs path of
        None \<Rightarrow> (False, fs)
      | Some f \<Rightarrow>
          (case kvstore_read_header f of
             None \<Rightarrow> (False, fs)
           | Some (e, text_bytes) \<Rightarrow>
               (True, fs_write fs path
                  (kvstore_fill_header (e_model_id e) (e_quant_bits e) (e_reason e) (e_ext_flags e)
                     (e_tokens e) hits (e_ctx_size e) (e_created_at e) (env_now env)
                     (e_payload_bytes e) @ drop 48 f))))"

section \<open>Eviction\<close>

record kv_incoming =
  in_text :: bytes
  in_model_id :: u8
  in_quant_bits :: u8
  in_ctx_size :: u32
  in_reject_different_quant :: bool

definition kv_cache_incoming_supersedes_continued :: "kv_entry \<Rightarrow> kv_incoming option \<Rightarrow> bool" where
  "kv_cache_incoming_supersedes_continued e incoming =
     (case incoming of
        None \<Rightarrow> False
      | Some inc \<Rightarrow>
          if e_reason e \<noteq> 2 then False
          else if e_text_bytes e = 0 then False
          else if unat (e_text_bytes e) \<ge> length (in_text inc) then False
          else if e_model_id e \<noteq> in_model_id inc then False
          else if in_reject_different_quant inc \<and> e_quant_bits e \<noteq> in_quant_bits inc then False
          else if in_ctx_size inc > e_ctx_size e then False
          else sha1_bytes_hex (take (unat (e_text_bytes e)) (in_text inc)) = e_sha e)"

definition kv_cache_reason_is_anchor :: "u8 \<Rightarrow> bool" where
  "kv_cache_reason_is_anchor reason \<longleftrightarrow> reason = 1 \<or> reason = 3 \<or> reason = 4"

definition effective_hits :: "(real \<Rightarrow> real) \<Rightarrow> kv_entry \<Rightarrow> u64 \<Rightarrow> real" where
  "effective_hits exp2 e now =
     (let hits = real (unat (e_hits e));
          used_at = (if e_last_used e \<noteq> 0 then e_last_used e else e_created_at e) in
      if used_at = 0 then 0
      else if now > used_at then
        let elapsed = real (unat (now - used_at));
            h = hits * exp2 (- elapsed / 21600)
        in if h < 1 / 100 then 0 else h
      else hits)"

definition kvstore_entry_eviction_score ::
  "(real \<Rightarrow> real) \<Rightarrow> kv_entry \<Rightarrow> u64 \<Rightarrow> kv_incoming option \<Rightarrow> real" where
  "kvstore_entry_eviction_score exp2 e now incoming =
     (if e_file_size e = 0 then 0
      else
        let eff = effective_hits exp2 e now;
            score = (eff + 1) * real (unat (e_tokens e)) / real (unat (e_file_size e));
            score' = (if kv_cache_reason_is_anchor (e_reason e) then score * 2 else score)
        in if kv_cache_incoming_supersedes_continued e incoming then
             let h = (if eff > 0 then eff / (eff + 1) else 0)
             in score' * (5 / 100 + 45 / 100 * h)
           else score')"

text \<open>The victim: the smallest score, and of equal scores the least recently used.\<close>

definition kv_victim :: "(kv_entry \<Rightarrow> real) \<Rightarrow> kv_entry list \<Rightarrow> nat" where
  "kv_victim score es =
     fst (foldl (\<lambda>(victim, victim_score) i.
            let s = score (es ! i) in
            if s < victim_score \<or> (s = victim_score \<and> e_last_used (es ! i) < e_last_used (es ! victim))
            then (i, s) else (victim, victim_score))
          (0, score (es ! 0)) [1..<length es])"

lemma kv_victim_less: "es \<noteq> [] \<Longrightarrow> kv_victim score es < length es"
proof -
  let ?f = "\<lambda>(victim, victim_score) i.
            let s = score (es ! i) in
            if s < victim_score \<or> (s = victim_score \<and> e_last_used (es ! i) < e_last_used (es ! victim))
            then (i, s) else (victim, victim_score)"
  assume ne: "es \<noteq> []"
  have "fst (foldl ?f (0, score (es ! 0)) [1..<n]) < length es" if "n \<le> length es" for n
    using that ne
  proof (induction n)
    case (Suc n)
    then show ?case
      by (cases "n = 0") (auto simp: Let_def split: prod.splits if_splits)
  qed simp
  then show ?thesis unfolding kv_victim_def by simp
qed

lemma kv_victim_removed:
  "es \<noteq> [] \<Longrightarrow>
     length (take (kv_victim score es) es @ drop (Suc (kv_victim score es)) es) < length es"
  using kv_victim_less [of es score] by simp

function kv_evict_loop ::
  "kv_env \<Rightarrow> (kv_entry \<Rightarrow> real) \<Rightarrow> u64 \<Rightarrow> u64 \<Rightarrow> kv_entry list \<Rightarrow> fs \<Rightarrow> kv_entry list \<times> fs" where
  "kv_evict_loop env score target held es fs =
     (if held > target \<and> es \<noteq> [] then
        let victim = kv_victim score es;
            e = es ! victim;
            (ok, fs') = fs_unlink env fs (e_path e);
            held' = (if ok then (if held \<ge> e_file_size e then held - e_file_size e else 0) else 0)
        in kv_evict_loop env score target held' (take victim es @ drop (Suc victim) es) fs'
      else (es, fs))"
  by pat_completeness auto

termination
  by (relation "measure (\<lambda>(env, score, target, held, es, fs). length es)")
    (simp, simp only: in_measure split_conv, rule kv_victim_removed, simp)

declare kv_evict_loop.simps [simp del]

definition kvstore_evict ::
  "kv_env \<Rightarrow> u64 \<Rightarrow> kv_incoming option \<Rightarrow> kvstore \<times> fs \<Rightarrow> kvstore \<times> fs" where
  "kvstore_evict env extra_bytes incoming st =
     (case st of (kc, fs) \<Rightarrow>
        if \<not> kc_enabled kc \<or> kc_budget_bytes kc = 0 then (kc, fs)
        else if extra_bytes > kc_budget_bytes kc then (kc, fs)
        else
          let kc1 = kv_cache_refresh env fs kc;
              held = sum_list (map e_file_size (kc_entry kc1));
              score = (\<lambda>e. kvstore_entry_eviction_score (env_exp2 env) e (env_now env) incoming);
              (es, fs') = kv_evict_loop env score (kc_budget_bytes kc - extra_bytes) held
                            (kc_entry kc1) fs
          in (kc1\<lparr>kc_entry := es\<rparr>, fs'))"


subsection \<open>The victim\<close>

definition score_le :: "(kv_entry \<Rightarrow> real) \<Rightarrow> kv_entry \<Rightarrow> kv_entry \<Rightarrow> bool" where
  "score_le score a b \<longleftrightarrow>
     score a < score b \<or> (score a = score b \<and> e_last_used a \<le> e_last_used b)"

lemma score_le_trans: "score_le score a b \<Longrightarrow> score_le score b c \<Longrightarrow> score_le score a c"
  by (auto simp: score_le_def)

lemma kv_victim_fold:
  assumes "1 \<le> n" "n \<le> length es"
  shows "case foldl (\<lambda>(victim, victim_score) i.
            let s = score (es ! i) in
            if s < victim_score \<or> (s = victim_score \<and> e_last_used (es ! i) < e_last_used (es ! victim))
            then (i, s) else (victim, victim_score))
          (0, score (es ! 0)) [1..<n] of
      (v, vs) \<Rightarrow> v < n \<and> vs = score (es ! v) \<and> (\<forall>i<n. score_le score (es ! v) (es ! i))"
  using assms
proof (induction n rule: nat_induct_at_least)
  case base
  then show ?case by (simp add: score_le_def)
next
  case (Suc n)
  then show ?case
    by (auto simp: Let_def score_le_def less_Suc_eq split: prod.splits if_splits)
qed

lemma kv_victim_min:
  "es \<noteq> [] \<Longrightarrow> e \<in> set es \<Longrightarrow> score_le score (es ! kv_victim score es) e"
  using kv_victim_fold [of "length es" es score]
  by (auto simp: kv_victim_def in_set_conv_nth Suc_le_eq split: prod.splits)

subsection \<open>What an eviction removes\<close>

lemma remove_nth_filter:
  "distinct (map f xs) \<Longrightarrow> v < length xs \<Longrightarrow>
     take v xs @ drop (Suc v) xs = filter (\<lambda>x. f x \<noteq> f (xs ! v)) xs"
proof (induction xs arbitrary: v)
  case (Cons x xs)
  show ?case
  proof (cases v)
    case 0
    have "filter (\<lambda>y. f y \<noteq> f x) xs = xs"
      using Cons.prems(1) by (auto simp: filter_id_conv) (metis image_eqI)
    with 0 show ?thesis by simp
  next
    case (Suc k)
    then show ?thesis using Cons by auto
  qed
qed simp

definition evictable :: "kv_env \<Rightarrow> fs \<Rightarrow> kv_entry list \<Rightarrow> bool" where
  "evictable env fs es \<longleftrightarrow>
     (\<forall>e\<in>set es. map_of fs (e_path e) \<noteq> None \<and> env_can_unlink env (e_path e))"

definition without :: "string set \<Rightarrow> fs \<Rightarrow> fs" where
  "without R fs = filter (\<lambda>(p, b). p \<notin> R) fs"

lemma map_of_without [simp]: "map_of (without R fs) p = (if p \<in> R then None else map_of fs p)"
  by (induction fs) (auto simp: without_def)

lemma without_without: "without R (without S fs) = without (R \<union> S) fs"
  by (auto simp: without_def intro: filter_cong)

lemma without_empty [simp]: "without {} fs = fs"
  by (auto simp: without_def filter_id_conv)

lemma fs_unlink_cases:
  "fs_unlink env fs p = (True, without {p} fs) \<or> (fs_unlink env fs p = (False, fs)
     \<and> \<not> (map_of fs p \<noteq> None \<and> env_can_unlink env p))"
  by (auto simp: fs_unlink_def without_def)

text \<open>The loop removes some of the entries, and deletes only their files.\<close>

lemma kv_evict_loop_removes:
  assumes "distinct (map e_path es)" "kv_evict_loop env score target held es fs = (es', fs')"
  shows "\<exists>R U. U \<subseteq> R \<and> R \<subseteq> e_path ` set es \<and> es' = filter (\<lambda>e. e_path e \<notin> R) es
    \<and> fs' = without U fs \<and> (evictable env fs es \<longrightarrow> U = R)"
  using assms
proof (induction env score target held es fs rule: kv_evict_loop.induct)
  case (1 env score target held es fs)
  show ?case
  proof (cases "held > target \<and> es \<noteq> []")
    case False
    then have "kv_evict_loop env score target held es fs = (es, fs)"
      by (subst kv_evict_loop.simps) (simp only: if_False)
    with 1(3) show ?thesis by (intro exI [of _ "{}"]) simp
  next
    case True
    define v where "v = kv_victim score es"
    define e where "e = es ! v"
    obtain ok fs1 where u: "fs_unlink env fs (e_path e) = (ok, fs1)"
      by (cases "fs_unlink env fs (e_path e)")
    define held' where "held' = (if ok then (if held \<ge> e_file_size e then held - e_file_size e else 0) else 0)"
    have v: "v < length es" using True kv_victim_less by (simp add: v_def)
    let ?es = "filter (\<lambda>x. e_path x \<noteq> e_path e) es"
    have es: "take v es @ drop (Suc v) es = ?es"
      unfolding e_def by (rule remove_nth_filter [OF 1(2) v])
    have step: "kv_evict_loop env score target held es fs = kv_evict_loop env score target held' ?es fs1"
      by (subst kv_evict_loop.simps)
        (use True u in \<open>simp add: v_def [symmetric] e_def [symmetric] es held'_def Let_def\<close>)
    have d: "distinct (map e_path ?es)" using 1(2) by (simp add: distinct_map_filter)
    have "\<exists>R U. U \<subseteq> R \<and> R \<subseteq> e_path ` set ?es \<and> es' = filter (\<lambda>x. e_path x \<notin> R) ?es
        \<and> fs' = without U fs1 \<and> (evictable env fs1 ?es \<longrightarrow> U = R)"
      using 1(1) [OF True v_def e_def refl u [symmetric] held'_def] d 1(3) step unfolding es by simp
    then obtain R U where k: "U \<subseteq> R" "R \<subseteq> e_path ` set ?es" "es' = filter (\<lambda>x. e_path x \<notin> R) ?es"
      "fs' = without U fs1" "evictable env fs1 ?es \<longrightarrow> U = R" by blast
    have e_in: "e \<in> set es" using v by (simp add: e_def)
    have es': "es' = filter (\<lambda>x. e_path x \<notin> insert (e_path e) R) es"
      using k(3) by (auto simp: conj_commute intro: filter_cong)
    have sub: "insert (e_path e) R \<subseteq> e_path ` set es" using k(2) e_in by auto
    from fs_unlink_cases [of env fs "e_path e"] show ?thesis
    proof
      assume "fs_unlink env fs (e_path e) = (True, without {e_path e} fs)"
      with u have fs1: "fs1 = without {e_path e} fs" by simp
      have "evictable env fs es \<Longrightarrow> evictable env fs1 ?es" by (auto simp: evictable_def fs1)
      then show ?thesis
        using k(1,4,5) es' sub fs1
        by (intro exI [of _ "insert (e_path e) R"] exI [of _ "insert (e_path e) U"])
          (auto simp: without_without)
    next
      assume a: "fs_unlink env fs (e_path e) = (False, fs)
          \<and> \<not> (map_of fs (e_path e) \<noteq> None \<and> env_can_unlink env (e_path e))"
      then have "fs1 = fs" "\<not> evictable env fs es" using u e_in by (auto simp: evictable_def)
      then show ?thesis
        using k(1,4) es' sub by (intro exI [of _ "insert (e_path e) R"] exI [of _ U]) auto
    qed
  qed
qed


subsection \<open>The budget\<close>

definition sizes :: "kv_entry list \<Rightarrow> nat" where
  "sizes es = sum_list (map (\<lambda>e. unat (e_file_size e)) es)"

lemma sizes_remove:
  assumes "v < length es"
  shows "sizes es = unat (e_file_size (es ! v)) + sizes (take v es @ drop (Suc v) es)"
proof -
  have "sizes es = sizes (take v es @ es ! v # drop (Suc v) es)"
    using id_take_nth_drop [OF assms] by simp
  then show ?thesis by (simp add: sizes_def)
qed

lemma kv_evict_loop_budget:
  assumes "distinct (map e_path es)" "evictable env fs es" "unat held = sizes es"
    "kv_evict_loop env score target held es fs = (es', fs')"
  shows "sizes es' \<le> unat target"
  using assms
proof (induction env score target held es fs rule: kv_evict_loop.induct)
  case (1 env score target held es fs)
  show ?case
  proof (cases "held > target \<and> es \<noteq> []")
    case False
    then have "kv_evict_loop env score target held es fs = (es, fs)"
      by (subst kv_evict_loop.simps) (simp only: if_False)
    with 1(5) have es': "es' = es" by simp
    from False consider "held \<le> target" | "es = []" by fastforce
    then show ?thesis
    proof cases
      case 1
      then show ?thesis using \<open>unat held = sizes es\<close> es' by (simp add: word_le_nat_alt)
    next
      case 2
      then show ?thesis using es' by (simp add: sizes_def)
    qed
  next
    case True
    define v where "v = kv_victim score es"
    define e where "e = es ! v"
    have v: "v < length es" using True kv_victim_less by (simp add: v_def)
    let ?es = "take v es @ drop (Suc v) es"
    have es: "?es = filter (\<lambda>x. e_path x \<noteq> e_path e) es"
      unfolding e_def by (rule remove_nth_filter [OF 1(2) v])
    have e_in: "e \<in> set es" using v by (simp add: e_def)
    have u: "fs_unlink env fs (e_path e) = (True, without {e_path e} fs)"
      using fs_unlink_cases [of env fs "e_path e"] 1(3) e_in by (auto simp: evictable_def)
    have sz: "sizes es = unat (e_file_size e) + sizes ?es"
      unfolding e_def by (rule sizes_remove [OF v])
    have le: "e_file_size e \<le> held" using sz 1(4) by (simp add: word_le_nat_alt)
    have held': "unat (held - e_file_size e) = sizes ?es"
      using sz 1(4) by (simp add: unat_sub [OF le])
    have step: "kv_evict_loop env score target held es fs
        = kv_evict_loop env score target (held - e_file_size e) ?es (without {e_path e} fs)"
      by (subst kv_evict_loop.simps)
        (use True u le in \<open>simp add: v_def [symmetric] e_def [symmetric] Let_def\<close>)
    have d: "distinct (map e_path ?es)" unfolding es using 1(2) by (simp add: distinct_map_filter)
    have ev: "evictable env (without {e_path e} fs) ?es"
      unfolding es using 1(3) by (auto simp: evictable_def)
    show ?thesis
      using 1(1) [OF True v_def e_def refl u [symmetric] refl] d ev held' 1(5) step le by simp
  qed
qed

subsection \<open>The directory after an eviction\<close>

definition fs_ok :: "fs \<Rightarrow> bool" where
  "fs_ok fs \<longleftrightarrow> distinct (map fst fs)"

definition cache_file :: "string \<Rightarrow> string \<Rightarrow> bool" where
  "cache_file dir p \<longleftrightarrow> (\<exists>name. p = kvstore_path_join dir name \<and> kvstore_sha_hex_name name \<noteq> None)"

lemma path_join_split: "kvstore_path_join dir name = kvstore_path_join dir [] @ name"
  by (simp add: kvstore_path_join_def)

lemma prefix_drop: "prefix a p \<Longrightarrow> a @ drop (length a) p = p"
  by (auto simp: prefix_def)

definition listing_paths :: "fs \<Rightarrow> string \<Rightarrow> string list" where
  "listing_paths fs dir = filter (\<lambda>p. prefix (kvstore_path_join dir []) p
     \<and> CHR ''/'' \<notin> set (drop (length (kvstore_path_join dir [])) p)) (map fst fs)"

lemma fs_listing_paths: "map (kvstore_path_join dir) (fs_listing fs dir) = listing_paths fs dir"
proof -
  let ?b = "kvstore_path_join dir []"
  have "fs_listing fs dir = map (drop (length ?b)) (listing_paths fs dir)"
    by (simp add: fs_listing_def listing_paths_def filter_map comp_def Let_def conj_commute)
  moreover have "map (\<lambda>p. kvstore_path_join dir (drop (length ?b) p)) (listing_paths fs dir)
      = map id (listing_paths fs dir)"
    by (intro map_cong refl) (auto simp: listing_paths_def path_join_split [of dir "drop _ _"] prefix_drop)
  ultimately show ?thesis by (simp add: comp_def)
qed

lemma listing_without: "listing_paths (without R fs) dir = filter (\<lambda>p. p \<notin> R) (listing_paths fs dir)"
  by (simp add: listing_paths_def without_def filter_map comp_def case_prod_unfold conj_commute)

definition scan_path :: "kv_env \<Rightarrow> fs \<Rightarrow> string \<Rightarrow> string \<Rightarrow> kv_entry option" where
  "scan_path env fs dir p =
     (case kvstore_sha_hex_name (drop (length (kvstore_path_join dir [])) p) of
        None \<Rightarrow> None | Some sha \<Rightarrow> kvstore_read_entry_file env fs p sha)"

lemma map_filter_map: "List.map_filter f (map g xs) = List.map_filter (\<lambda>x. f (g x)) xs"
  by (induction xs) (simp_all add: List.map_filter_simps split: option.splits)

lemma kv_cache_scan_paths:
  "kv_cache_scan env fs dir =
     (if env_can_open env dir then List.map_filter (scan_path env fs dir) (listing_paths fs dir) else [])"
proof -
  have "scan_path env fs dir (kvstore_path_join dir name)
      = (case kvstore_sha_hex_name name of None \<Rightarrow> None
         | Some sha \<Rightarrow> kvstore_read_entry_file env fs (kvstore_path_join dir name) sha)" for name
    unfolding scan_path_def path_join_split [of dir name] by simp
  then show ?thesis
    unfolding fs_listing_paths [symmetric] map_filter_map kv_cache_scan_def by simp
qed

lemma read_entry_path: "kvstore_read_entry_file env fs p sha = Some e \<Longrightarrow> e_path e = p \<and> map_of fs p \<noteq> None"
  by (auto simp: kvstore_read_entry_file_def split: option.splits if_splits prod.splits)

lemma read_entry_cong: "map_of fs p = map_of fs' p \<Longrightarrow> kvstore_read_entry_file env fs p sha = kvstore_read_entry_file env fs' p sha"
proof -
  assume "map_of fs p = map_of fs' p"
  then show ?thesis unfolding kvstore_read_entry_file_def fs_read_def by (rule ssubst) (rule refl)
qed

lemma scan_path_Some: "scan_path env fs dir p = Some e \<Longrightarrow> e_path e = p \<and> map_of fs p \<noteq> None"
  by (auto simp: scan_path_def split: option.splits dest: read_entry_path)

lemma map_filter_filter:
  assumes "\<And>x y. x \<in> set xs \<Longrightarrow> f x = Some y \<Longrightarrow> k y = x"
    "\<And>x. x \<in> set xs \<Longrightarrow> x \<notin> R \<Longrightarrow> g x = f x"
  shows "List.map_filter g (filter (\<lambda>x. x \<notin> R) xs) = filter (\<lambda>y. k y \<notin> R) (List.map_filter f xs)"
  using assms
proof (induction xs)
  case (Cons x xs)
  then have "List.map_filter g (filter (\<lambda>x. x \<notin> R) xs) = filter (\<lambda>y. k y \<notin> R) (List.map_filter f xs)" by simp
  moreover have "f x = Some y \<Longrightarrow> k y = x" for y using Cons.prems(1) by simp
  moreover have "x \<notin> R \<Longrightarrow> g x = f x" using Cons.prems(2) by simp
  ultimately show ?case
    by (cases "f x"; cases "x \<in> R") (simp_all add: List.map_filter_simps)
qed (simp add: List.map_filter_simps)

lemma kv_cache_scan_without:
  "kv_cache_scan env (without R fs) dir = filter (\<lambda>e. e_path e \<notin> R) (kv_cache_scan env fs dir)"
proof -
  have "List.map_filter (scan_path env (without R fs) dir) (filter (\<lambda>p. p \<notin> R) (listing_paths fs dir))
      = filter (\<lambda>e. e_path e \<notin> R) (List.map_filter (scan_path env fs dir) (listing_paths fs dir))"
    by (rule map_filter_filter)
      (auto simp: scan_path_def dest: read_entry_path intro!: read_entry_cong split: option.splits)
  then show ?thesis by (simp add: kv_cache_scan_paths listing_without)
qed

lemma set_map_filter_Some: "e \<in> set (List.map_filter f xs) \<longleftrightarrow> (\<exists>x\<in>set xs. f x = Some e)"
  by (induction xs) (auto simp: List.map_filter_simps split: option.splits)

lemma distinct_map_filter_key:
  assumes "distinct xs" "\<And>x y. f x = Some y \<Longrightarrow> k y = x"
  shows "distinct (map k (List.map_filter f xs))"
  using assms(1)
  by (induction xs) (auto simp: List.map_filter_simps set_map_filter_Some assms(2) split: option.splits)

lemma kv_cache_scan_distinct: "fs_ok fs \<Longrightarrow> distinct (map e_path (kv_cache_scan env fs dir))"
  using distinct_map_filter_key [of "listing_paths fs dir" "scan_path env fs dir" e_path]
  by (auto simp: kv_cache_scan_paths listing_paths_def fs_ok_def dest: scan_path_Some)

lemma kv_cache_scan_present: "e \<in> set (kv_cache_scan env fs dir) \<Longrightarrow> map_of fs (e_path e) \<noteq> None"
  by (auto simp: kv_cache_scan_paths set_map_filter_Some dest: scan_path_Some split: if_splits)

lemma kv_cache_scan_cache_file:
  "e \<in> set (kv_cache_scan env fs dir) \<Longrightarrow> cache_file dir (e_path e)"
proof -
  assume "e \<in> set (kv_cache_scan env fs dir)"
  then obtain p where p: "p \<in> set (listing_paths fs dir)" "scan_path env fs dir p = Some e"
    by (auto simp: kv_cache_scan_paths set_map_filter_Some split: if_splits)
  let ?n = "drop (length (kvstore_path_join dir [])) p"
  have "p = kvstore_path_join dir ?n"
    using p(1) by (simp add: listing_paths_def path_join_split [of dir "drop _ _"] prefix_drop)
  moreover have "kvstore_sha_hex_name ?n \<noteq> None"
    using p(2) by (auto simp: scan_path_def split: option.splits)
  ultimately show ?thesis using scan_path_Some [OF p(2)] by (auto simp: cache_file_def)
qed


lemma sizes_no_wrap:
  "sizes es < 2 ^ 64 \<Longrightarrow> unat (sum_list (map e_file_size es)) = sizes es"
proof (induction es)
  case (Cons e es)
  then have "unat (sum_list (map e_file_size es)) = sizes es" by (simp add: sizes_def)
  with Cons.prems show ?case by (simp add: sizes_def add_no_wrap)
qed (simp add: sizes_def)

lemma kvstore_evict_facts:
  assumes "fs_ok fs" "kvstore_evict env extra incoming (kc, fs) = (kc', fs')"
  shows "\<exists>U. (\<forall>p\<in>U. cache_file (kc_dir kc) p) \<and> fs' = without U fs
    \<and> (kc_enabled kc \<and> kc_budget_bytes kc \<noteq> 0 \<and> extra \<le> kc_budget_bytes kc
       \<and> sizes (kv_cache_scan env fs (kc_dir kc)) < 2 ^ 64 \<and> (\<forall>p. env_can_unlink env p)
       \<longrightarrow> kc_entry kc' = kv_cache_scan env fs' (kc_dir kc)
         \<and> sizes (kc_entry kc') + unat extra \<le> unat (kc_budget_bytes kc))"
proof (cases "\<not> kc_enabled kc \<or> kc_budget_bytes kc = 0 \<or> extra > kc_budget_bytes kc")
  case True
  then have "kvstore_evict env extra incoming (kc, fs) = (kc, fs)" by (auto simp: kvstore_evict_def)
  then have "fs' = fs" using assms(2) by simp
  with True show ?thesis by (intro exI [of _ "{}"]) auto
next
  case False
  define es where "es = kv_cache_scan env fs (kc_dir kc)"
  define score where "score = (\<lambda>e. kvstore_entry_eviction_score (env_exp2 env) e (env_now env) incoming)"
  obtain es' fs1 where loop: "kv_evict_loop env score (kc_budget_bytes kc - extra)
      (sum_list (map e_file_size es)) es fs = (es', fs1)"
    by (cases "kv_evict_loop env score (kc_budget_bytes kc - extra) (sum_list (map e_file_size es)) es fs")
  have r: "kc_entry kc' = es'" "fs' = fs1"
    using assms(2) False loop
    by (auto simp: kvstore_evict_def kv_cache_refresh_def Let_def es_def [symmetric] score_def [symmetric])
  have d: "distinct (map e_path es)" unfolding es_def by (rule kv_cache_scan_distinct [OF assms(1)])
  from kv_evict_loop_removes [OF d loop] obtain R U where k: "U \<subseteq> R" "R \<subseteq> e_path ` set es"
    "es' = filter (\<lambda>e. e_path e \<notin> R) es" "fs1 = without U fs" "evictable env fs es \<longrightarrow> U = R" by blast
  have cf: "\<forall>p\<in>U. cache_file (kc_dir kc) p"
    using k(1,2) kv_cache_scan_cache_file unfolding es_def by blast
  have "kc_entry kc' = kv_cache_scan env fs' (kc_dir kc)
         \<and> sizes (kc_entry kc') + unat extra \<le> unat (kc_budget_bytes kc)"
    if "sizes es < 2 ^ 64" "\<forall>p. env_can_unlink env p"
  proof -
    have ev: "evictable env fs es"
      using that(2) kv_cache_scan_present unfolding evictable_def es_def by blast
    with k(5) have "U = R" by blast
    then have "kv_cache_scan env fs' (kc_dir kc) = es'"
      using k(3,4) r(2) by (simp add: kv_cache_scan_without es_def)
    moreover have "sizes es' \<le> unat (kc_budget_bytes kc - extra)"
      using kv_evict_loop_budget [OF d ev _ loop] sizes_no_wrap [OF that(1)] by blast
    moreover have "unat (kc_budget_bytes kc - extra) = unat (kc_budget_bytes kc) - unat extra"
      using False by (intro unat_sub) (simp add: not_less)
    moreover have "unat extra \<le> unat (kc_budget_bytes kc)"
      using False by (simp add: word_le_nat_alt not_less)
    ultimately show ?thesis using r(1) by simp
  qed
  with cf k(4) r(2) show ?thesis unfolding es_def by blast
qed

text \<open>C28. After an eviction the cache fits: when files can be deleted and the recorded sizes do not
  overflow 64 bits, the entries left on disk and the file about to be stored are within the
  budget together, and the in-memory index is what a scan of the directory finds.\<close>

theorem kvstore_evict_fits_budget:
  assumes "fs_ok fs" "kvstore_evict env extra incoming (kc, fs) = (kc', fs')"
    "kc_enabled kc" "kc_budget_bytes kc \<noteq> 0" "extra \<le> kc_budget_bytes kc"
    "sizes (kv_cache_scan env fs (kc_dir kc)) < 2 ^ 64" "\<forall>p. env_can_unlink env p"
  shows "kc_entry kc' = kv_cache_scan env fs' (kc_dir kc)
    \<and> sizes (kv_cache_scan env fs' (kc_dir kc)) + unat extra \<le> unat (kc_budget_bytes kc)"
  using kvstore_evict_facts [OF assms(1,2)] assms(3-) by auto

text \<open>Eviction deletes nothing but cache files: whatever fails, every other file, and every
  file kept, has its contents unchanged.\<close>

theorem kvstore_evict_frame:
  assumes "fs_ok fs" "kvstore_evict env extra incoming (kc, fs) = (kc', fs')"
  shows "fs_ok fs' \<and> (\<forall>p. map_of fs' p = map_of fs p \<or> (map_of fs' p = None \<and> cache_file (kc_dir kc) p))"
proof -
  from kvstore_evict_facts [OF assms] obtain U where U: "\<forall>p\<in>U. cache_file (kc_dir kc) p" "fs' = without U fs"
    by blast
  moreover have "fs_ok fs'"
    using assms(1) by (simp add: U(2) fs_ok_def without_def distinct_map_filter)
  ultimately show ?thesis by auto
qed


definition example_env :: kv_env where
  "example_env = \<lparr>env_can_open = (\<lambda>_. True), env_can_unlink = (\<lambda>_. True), env_now = 7,
     env_exp2 = (\<lambda>x. 2 powr x)\<rparr>"

definition example_fs :: fs where
  "example_fs =
     [(''kv/'' @ replicate 40 (CHR ''a'') @ ''.kv'',
       kvstore_fill_header 0 2 1 0 600 0 4096 5 5 3 @ le_put32 1 @ [65, 1, 2, 3]),
      (''kv/notes.txt'', [1, 2, 3])]"

lemma example_scan_size: "sizes (kv_cache_scan example_env example_fs ''kv'') = 56"
  by code_simp

theorem kvstore_evict_fits_budget_witness:
  "sizes (kv_cache_scan example_env
      (snd (kvstore_evict example_env 20 None (example_store\<lparr>kc_budget_bytes := 60\<rparr>, example_fs))) ''kv'') + 20 \<le> 60"
  using kvstore_evict_fits_budget [of example_fs example_env 20 None "example_store\<lparr>kc_budget_bytes := 60\<rparr>"
    "fst (kvstore_evict example_env 20 None (example_store\<lparr>kc_budget_bytes := 60\<rparr>, example_fs))"
    "snd (kvstore_evict example_env 20 None (example_store\<lparr>kc_budget_bytes := 60\<rparr>, example_fs))"]
  by (simp add: example_store_def example_env_def fs_ok_def example_scan_size [unfolded example_env_def])
    (simp add: example_fs_def)

theorem kvstore_evict_frame_witness:
  "map_of (snd (kvstore_evict example_env 20 None (example_store\<lparr>kc_budget_bytes := 60\<rparr>, example_fs))) ''kv/notes.txt''
   = Some [1, 2, 3]"
proof -
  let ?r = "kvstore_evict example_env 20 None (example_store\<lparr>kc_budget_bytes := 60\<rparr>, example_fs)"
  have "fs_ok example_fs" by (simp add: fs_ok_def example_fs_def)
  moreover have "kvstore_evict example_env 20 None (example_store\<lparr>kc_budget_bytes := 60\<rparr>, example_fs)
      = (fst ?r, snd ?r)" by (simp only: prod.collapse)
  ultimately have "\<forall>p. map_of (snd ?r) p = map_of example_fs p
      \<or> (map_of (snd ?r) p = None \<and> cache_file (kc_dir (example_store\<lparr>kc_budget_bytes := 60\<rparr>)) p)"
    using kvstore_evict_frame by blast
  moreover have "kc_dir (example_store\<lparr>kc_budget_bytes := 60\<rparr>) = ''kv''" by (simp add: example_store_def)
  ultimately have "map_of (snd ?r) ''kv/notes.txt'' = map_of example_fs ''kv/notes.txt''
     \<or> cache_file ''kv'' ''kv/notes.txt''" by metis
  moreover have "\<not> cache_file ''kv'' ''kv/notes.txt''"
    by (auto simp: cache_file_def kvstore_path_join_def kvstore_sha_hex_name_def)
  ultimately show ?thesis by (simp add: example_fs_def)
qed

end
