(* ===== verification/KvStore.thy ===== *)
theory KvStore
  imports KvCache
begin

text \<open>
  Finding, storing and loading checkpoints in \<open>ds4_kvstore.c\<close>: the longest cached text in
  front of a prompt (lines 1222 to 1250), storing the live session under the hash of its text
  with a temporary file and a rename (lines 822 to 1221), and loading a checkpoint for a prompt
  (lines 1252 to 1386).  The engine, the session and the trailer hooks are interfaces the code
  only calls; they are records of functions here.
\<close>

section \<open>The longest cached prefix\<close>

definition kv_prefix_candidate :: "kvstore \<Rightarrow> bytes \<Rightarrow> int \<Rightarrow> int \<Rightarrow> int \<Rightarrow> kv_entry \<Rightarrow> bool" where
  "kv_prefix_candidate kc prompt_text model_id quant_bits ctx_size e =
     (if unat (e_text_bytes e) > length prompt_text then False
      else if sint (e_tokens e) < min_tokens (kc_opt kc) then False
      else if e_model_id e \<noteq> word_of_int model_id then False
      else if word_of_int ctx_size < e_ctx_size e then False
      else if kc_reject_different_quant kc \<and> e_quant_bits e \<noteq> word_of_int quant_bits then False
      else True)"

definition kv_prefix_better :: "kv_entry \<Rightarrow> kv_entry \<Rightarrow> bool" where
  "kv_prefix_better e b =
     (if e_text_bytes e < e_text_bytes b then False
      else if e_text_bytes e = e_text_bytes b \<and> e_tokens e \<le> e_tokens b then False
      else True)"

definition kv_prefix_hash_ok :: "bytes \<Rightarrow> kv_entry \<Rightarrow> bool" where
  "kv_prefix_hash_ok prompt_text e \<longleftrightarrow>
     sha1_bytes_hex (take (unat (e_text_bytes e)) prompt_text) = e_sha e"

definition kv_best_prefix :: "kvstore \<Rightarrow> bytes \<Rightarrow> int \<Rightarrow> int \<Rightarrow> int \<Rightarrow> nat option" where
  "kv_best_prefix kc prompt_text model_id quant_bits ctx_size =
     foldl (\<lambda>best i.
         let e = kc_entry kc ! i in
         if \<not> kv_prefix_candidate kc prompt_text model_id quant_bits ctx_size e then best
         else if (case best of None \<Rightarrow> False | Some b \<Rightarrow> \<not> kv_prefix_better e (kc_entry kc ! b)) then best
         else if kv_prefix_hash_ok prompt_text e then Some i else best)
       None [0..<length (kc_entry kc)]"

definition kvstore_find_text_prefix ::
  "kv_env \<Rightarrow> fs \<Rightarrow> kvstore \<Rightarrow> bytes \<Rightarrow> int \<Rightarrow> int \<Rightarrow> int \<Rightarrow> kvstore \<times> nat option" where
  "kvstore_find_text_prefix env fs kc prompt_text model_id quant_bits ctx_size =
     (let kc1 = kv_cache_refresh env fs kc
      in (kc1, kv_best_prefix kc1 prompt_text model_id quant_bits ctx_size))"

definition kv_prefix_match :: "kvstore \<Rightarrow> bytes \<Rightarrow> int \<Rightarrow> int \<Rightarrow> int \<Rightarrow> kv_entry \<Rightarrow> bool" where
  "kv_prefix_match kc prompt_text model_id quant_bits ctx_size e \<longleftrightarrow>
     kv_prefix_candidate kc prompt_text model_id quant_bits ctx_size e \<and> kv_prefix_hash_ok prompt_text e"

lemma kv_best_prefix_fold:
  "n \<le> length (kc_entry kc) \<Longrightarrow>
   (case foldl (\<lambda>best i.
         let e = kc_entry kc ! i in
         if \<not> kv_prefix_candidate kc prompt_text model_id quant_bits ctx_size e then best
         else if (case best of None \<Rightarrow> False | Some b \<Rightarrow> \<not> kv_prefix_better e (kc_entry kc ! b)) then best
         else if kv_prefix_hash_ok prompt_text e then Some i else best)
       None [0..<n] of
      None \<Rightarrow> \<forall>i<n. \<not> kv_prefix_match kc prompt_text model_id quant_bits ctx_size (kc_entry kc ! i)
    | Some b \<Rightarrow> b < n \<and> kv_prefix_match kc prompt_text model_id quant_bits ctx_size (kc_entry kc ! b)
        \<and> (\<forall>i<n. kv_prefix_match kc prompt_text model_id quant_bits ctx_size (kc_entry kc ! i) \<longrightarrow>
              \<not> kv_prefix_better (kc_entry kc ! i) (kc_entry kc ! b)))"
proof (induction n)
  case (Suc n)
  have tr: "\<not> kv_prefix_better a c" if "\<not> kv_prefix_better a b" "kv_prefix_better c b" for a b c
    using that by (auto simp: kv_prefix_better_def split: if_splits)
  have ir: "\<not> kv_prefix_better a a" for a by (simp add: kv_prefix_better_def)
  from Suc show ?case
    by (auto simp: Let_def kv_prefix_match_def less_Suc_eq ir split: option.splits if_splits)
      (metis tr)+
qed simp

text \<open>The lookup is exact: it finds an entry when some cached text of a compatible checkpoint has
  the hash of the prompt's first bytes, and then the longest such text, with the most tokens
  among texts of equal length.\<close>

theorem kv_best_prefix_correct:
  "(case kv_best_prefix kc prompt_text model_id quant_bits ctx_size of
      None \<Rightarrow> \<forall>e\<in>set (kc_entry kc). \<not> kv_prefix_match kc prompt_text model_id quant_bits ctx_size e
    | Some b \<Rightarrow> b < length (kc_entry kc)
        \<and> kv_prefix_match kc prompt_text model_id quant_bits ctx_size (kc_entry kc ! b)
        \<and> (\<forall>e\<in>set (kc_entry kc). kv_prefix_match kc prompt_text model_id quant_bits ctx_size e \<longrightarrow>
             e_text_bytes e < e_text_bytes (kc_entry kc ! b)
             \<or> (e_text_bytes e = e_text_bytes (kc_entry kc ! b)
                 \<and> e_tokens e \<le> e_tokens (kc_entry kc ! b))))"
  using kv_best_prefix_fold [of "length (kc_entry kc)" kc prompt_text model_id quant_bits ctx_size]
  unfolding kv_best_prefix_def
  by (auto simp: all_set_conv_all_nth kv_prefix_better_def split: option.splits if_splits)

section \<open>The interfaces the store calls\<close>

text \<open>\<open>ke_token_text\<close> is \<open>ds4_token_text\<close>, \<open>ke_tokenize\<close> is \<open>ds4_tokenize_rendered_chat\<close>.\<close>

record kv_engine =
  ke_routed_quant_bits :: int
  ke_model_id :: int
  ke_token_text :: "int \<Rightarrow> bytes"
  ke_tokenize :: "bytes \<Rightarrow> int list"

text \<open>\<open>ks_stage\<close> is the staged payload, if staging succeeds; \<open>ks_load\<close> gets the file after the
  text and the payload size and gives, when it succeeds, the tokens of the session afterwards.\<close>

record kv_session =
  ks_tokens :: "int list option"
  ks_ctx :: int
  ks_stage :: "bytes option"
  ks_load :: "bytes \<Rightarrow> u64 \<Rightarrow> int list option option"

record kv_hooks =
  kh_ext_flag :: u8
  kh_serialized_size :: "(bytes \<Rightarrow> u64 option) option"
  kh_write :: "(bytes \<Rightarrow> bool \<times> bytes) option"

text \<open>What the operating system answers while a checkpoint is written: creating the temporary
  file, writing and flushing, syncing and closing, the rename, and syncing the directory.  After
  a failed write, \<open>io_partial\<close> bytes are in the temporary file.\<close>

record kv_io =
  io_create :: bool
  io_write :: bool
  io_sync :: bool
  io_rename :: bool
  io_dir_sync :: bool
  io_partial :: nat
  io_pid :: int

definition kvstore_render_tokens_text :: "kv_engine \<Rightarrow> int list \<Rightarrow> bytes" where
  "kvstore_render_tokens_text engine tokens = concat (map (ke_token_text engine) tokens)"

definition kvstore_byte_prefix_match :: "bytes \<Rightarrow> bytes \<Rightarrow> bool" where
  "kvstore_byte_prefix_match s p \<longleftrightarrow> length p \<le> length s \<and> (length p = 0 \<or> take (length p) s = p)"

definition kvstore_tokens_copy_prefix :: "int list \<Rightarrow> int \<Rightarrow> int list" where
  "kvstore_tokens_copy_prefix src n = take (nat n) src"

definition kvstore_build_prompt :: "kv_engine \<Rightarrow> int list \<Rightarrow> bytes \<Rightarrow> int list" where
  "kvstore_build_prompt engine exact_prefix suffix_text = exact_prefix @ ke_tokenize engine suffix_text"

section \<open>An existing file for the same text\<close>

definition kv_cache_file_text_matches :: "kv_env \<Rightarrow> fs \<Rightarrow> string \<Rightarrow> string \<Rightarrow> bytes \<Rightarrow> bool" where
  "kv_cache_file_text_matches env fs path sha txt =
     (if length txt > 2 ^ 32 - 1 then False
      else
        (case fs_read env fs path of
           None \<Rightarrow> False
         | Some f \<Rightarrow>
             (case kvstore_read_header f of
                None \<Rightarrow> False
              | Some (hdr, text_bytes) \<Rightarrow>
                  if text_bytes \<noteq> of_nat (length txt) then False
                  else
                    let stored = take (unat text_bytes) (drop 52 f) in
                    if length stored \<noteq> unat text_bytes then False
                    else sha1_bytes_hex stored = sha \<and> (txt = [] \<or> stored = txt))))"

definition kv_cache_existing_compatible ::
  "kv_env \<Rightarrow> fs \<Rightarrow> kvstore \<Rightarrow> string \<Rightarrow> string \<Rightarrow> bytes \<Rightarrow> int \<Rightarrow> int \<Rightarrow> int \<Rightarrow> bool \<times> fs" where
  "kv_cache_existing_compatible env fs kc path sha txt model_id quant_bits ctx_size =
     (if map_of fs path = None then (False, fs)
      else
        (case kvstore_read_entry_file env fs path sha of
           None \<Rightarrow> (False, fs)
         | Some e \<Rightarrow>
             if e_model_id e = word_of_int model_id
                \<and> (\<not> kc_reject_different_quant kc \<or> e_quant_bits e = word_of_int quant_bits)
                \<and> e_ctx_size e \<le> word_of_int ctx_size
                \<and> kv_cache_file_text_matches env fs path sha txt
             then (True, fs)
             else (False, snd (fs_unlink env fs path))))"

definition kv_trailer_serialized_size :: "kv_hooks option \<Rightarrow> bytes \<Rightarrow> u64 option" where
  "kv_trailer_serialized_size hooks txt =
     (case hooks of
        None \<Rightarrow> Some 0
      | Some h \<Rightarrow> (case kh_serialized_size h of None \<Rightarrow> Some 0 | Some measured \<Rightarrow> measured txt))"

definition kv_trailer_write :: "kv_hooks option \<Rightarrow> bytes \<Rightarrow> bool \<times> bytes" where
  "kv_trailer_write hooks txt =
     (case hooks of
        None \<Rightarrow> (True, [])
      | Some h \<Rightarrow> (case kh_write h of None \<Rightarrow> (True, []) | Some write \<Rightarrow> write txt))"

definition kv_cache_rewrite_trailer ::
  "kv_env \<Rightarrow> fs \<Rightarrow> string \<Rightarrow> bytes \<Rightarrow> kv_hooks option \<Rightarrow> fs" where
  "kv_cache_rewrite_trailer env fs path txt hooks =
     (case hooks of
        None \<Rightarrow> fs
      | Some h \<Rightarrow>
          if kh_write h = None \<or> kh_serialized_size h = None
             \<or> kv_trailer_serialized_size hooks txt \<in> {None, Some 0} then fs
          else
            (case fs_read env fs path of
               None \<Rightarrow> fs
             | Some f \<Rightarrow>
                 (case kvstore_read_header f of
                    None \<Rightarrow> fs
                  | Some (hdr, text_bytes) \<Rightarrow>
                      let fin = FIXED + ucast text_bytes + e_payload_bytes hdr in
                      if fin > 2 ^ 63 - 1 then fs
                      else
                        let base = take (unat fin) (f @ replicate (unat fin - length f) 0);
                            (ok, trailer) = kv_trailer_write hooks txt
                        in if ok \<and> trailer \<noteq> [] then
                             fs_write fs path
                               (kvstore_fill_header (e_model_id hdr) (e_quant_bits hdr) (e_reason hdr)
                                  (e_ext_flags hdr OR kh_ext_flag h) (e_tokens hdr) (e_hits hdr)
                                  (e_ctx_size hdr) (e_created_at hdr) (env_now env) (e_payload_bytes hdr)
                                @ drop 48 (base @ trailer))
                           else fs_write fs path (base @ trailer))))"

section \<open>Storing the live session\<close>

text \<open>Renaming moves what the file holds at that moment.\<close>

definition fs_rename :: "fs \<Rightarrow> string \<Rightarrow> string \<Rightarrow> fs" where
  "fs_rename fs from_path to_path =
     (case map_of fs from_path of
        None \<Rightarrow> fs
      | Some b \<Rightarrow> fs_write (without {from_path} fs) to_path b)"

text \<open>
  Lines 1059 to 1190.  A failing write leaves a part of the file, and a failing \<open>fsync\<close> or
  \<open>fclose\<close> does not promise more than a part either; \<open>io_partial\<close> is its length.
\<close>

definition kv_publish ::
  "kv_env \<Rightarrow> kv_io \<Rightarrow> fs \<Rightarrow> kvstore \<Rightarrow> string \<Rightarrow> bytes \<Rightarrow> bytes \<Rightarrow> bytes \<Rightarrow> kv_hooks option \<Rightarrow> bool \<times> fs" where
  "kv_publish env io fs kc path h txt payload hooks =
     (let tmp = path @ ''.tmp.'' @ dec_int (io_pid io) in
      if \<not> io_create io then (False, fs)
      else
        let (trailer_ok, trailer) = kv_trailer_write hooks txt;
            content = h @ le_put32 (of_nat (length txt)) @ txt @ payload @ trailer;
            written = (io_write io \<and> trailer_ok);
            fs1 = fs_write fs tmp (if written \<and> io_sync io then content else take (io_partial io) content);
            ok = (written \<and> io_sync io);
            ok = (ok \<and> kvstore_file_size_fits (kc_budget_bytes kc) (of_nat (length txt))
                    (of_nat (length payload)) (of_nat (length trailer)));
            (ok, fs2) = (if ok \<and> io_rename io then (True, fs_rename fs1 tmp path) else (False, fs1));
            ok = (ok \<and> io_dir_sync io)
        in if ok then (True, fs2) else (False, snd (fs_unlink env fs2 tmp)))"

definition kv_store_prefix_live ::
  "kvstore \<Rightarrow> kv_session \<Rightarrow> int list \<Rightarrow> int \<Rightarrow> bool" where
  "kv_store_prefix_live kc session tokens store_len \<longleftrightarrow>
     ks_tokens session = Some (kvstore_tokens_copy_prefix tokens store_len)"

definition kvstore_store_live_prefix_text ::
  "kv_env \<Rightarrow> kv_io \<Rightarrow> kv_engine \<Rightarrow> kv_session \<Rightarrow> int list \<Rightarrow> int \<Rightarrow> string \<Rightarrow> bytes option \<Rightarrow> u8
   \<Rightarrow> kv_hooks option \<Rightarrow> kvstore \<times> fs \<Rightarrow> bool \<times> kvstore \<times> fs" where
  "kvstore_store_live_prefix_text env io engine session tokens store_len reason text_override text_ext hooks st =
     (case st of (kc, fs) \<Rightarrow>
        if \<not> kc_enabled kc then (False, kc, fs)
        else if store_len < min_tokens (kc_opt kc) then (False, kc, fs)
        else
          let store_tokens = kvstore_tokens_copy_prefix tokens store_len;
              quant_bits = ke_routed_quant_bits engine;
              model_id = ke_model_id engine in
          if quant_bits \<noteq> 2 \<and> quant_bits \<noteq> 4 then (False, kc, fs)
          else if \<not> kv_store_prefix_live kc session tokens store_len then (False, kc, fs)
          else
            let has_override = text_override \<noteq> None \<and> text_override \<noteq> Some [];
                txt = (if has_override then the text_override
                       else kvstore_render_tokens_text engine store_tokens) in
            if length txt > 2 ^ 32 - 1 then (False, kc, fs)
            else
              (case kv_trailer_serialized_size hooks txt of
                 None \<Rightarrow> (False, kc, fs)
               | Some trailer_est \<Rightarrow>
                   let sha = sha1_bytes_hex txt;
                       path = kvstore_path_for_sha (kc_dir kc) sha;
                       (compatible, fs1) = kv_cache_existing_compatible env fs kc path sha txt
                                             model_id quant_bits (ks_ctx session)
                   in if compatible then (True, kc, kv_cache_rewrite_trailer env fs1 path txt hooks)
                      else
                        (case ks_stage session of
                           None \<Rightarrow> (False, kc, fs1)
                         | Some payload \<Rightarrow>
                             if \<not> kvstore_file_size_fits (kc_budget_bytes kc) (of_nat (length txt))
                                   (of_nat (length payload)) trailer_est
                             then (False, kc, fs1)
                             else
                               let est = FIXED + of_nat (length txt) + of_nat (length payload) + trailer_est;
                                   incoming = \<lparr>in_text = txt, in_model_id = word_of_int model_id,
                                      in_quant_bits = word_of_int quant_bits,
                                      in_ctx_size = word_of_int (ks_ctx session),
                                      in_reject_different_quant = kc_reject_different_quant kc\<rparr>;
                                   (kc1, fs2) = kvstore_evict env est (Some incoming) (kc, fs1);
                                   ext = (if trailer_est > 0 then
                                            (case hooks of None \<Rightarrow> 0 | Some h \<Rightarrow> kh_ext_flag h) else 0)
                                         OR (if has_override then text_ext else 0);
                                   h = kvstore_fill_header (word_of_int model_id) (word_of_int quant_bits)
                                         (kvstore_reason_code (Some reason)) ext
                                         (of_nat (length store_tokens)) 0 (word_of_int (ks_ctx session))
                                         (env_now env) (env_now env) (of_nat (length payload));
                                   (ok, fs3) = kv_publish env io fs2 kc1 path h txt payload hooks
                               in (ok, kc1, fs3))))"

definition kvstore_maybe_store_continued ::
  "kv_env \<Rightarrow> kv_io \<Rightarrow> kv_engine \<Rightarrow> kv_session \<Rightarrow> kv_hooks option \<Rightarrow> kvstore \<times> fs \<Rightarrow> bool \<times> kvstore \<times> fs" where
  "kvstore_maybe_store_continued env io engine session hooks st =
     (case (ks_tokens session, st) of
        (None, (kc, fs)) \<Rightarrow> (False, kc, fs)
      | (Some tokens, (kc, fs)) \<Rightarrow>
          let target = kvstore_continued_store_target kc (int (length tokens)) in
          if target = 0 then (False, kc, fs)
          else
            (case kvstore_store_live_prefix_text env io engine session tokens target ''continued''
                    None 0 hooks (kc, fs) of
               (True, kc1, fs1) \<Rightarrow> (True, kvstore_note_store kc1 target, fs1)
             | (False, kc1, fs1) \<Rightarrow> (False, kc1, fs1)))"


section \<open>Loading a checkpoint for a prompt\<close>

datatype kv_fail = BadHeader | WrongModel | TextTooLong | TruncatedText | HashMismatch | PrefixMismatch

text \<open>What happens to the session: nothing, the payload's tokens, or the session is invalidated.\<close>

datatype kv_session_change = SessionKept | SessionLoaded "int list" | SessionInvalid

record kv_loaded =
  ld_tokens :: int
  ld_effective_prompt :: "int list"
  ld_session :: kv_session_change
  ld_text_bytes :: u32
  ld_ext_flags :: u8
  ld_consumed :: bool
  ld_path :: "string option"

definition kv_not_loaded :: "kv_session_change \<Rightarrow> kv_loaded" where
  "kv_not_loaded change = \<lparr>ld_tokens = 0, ld_effective_prompt = [], ld_session = change,
     ld_text_bytes = 0, ld_ext_flags = 0, ld_consumed = False, ld_path = None\<rparr>"

definition kv_check_cached_text ::
  "bytes \<Rightarrow> string \<Rightarrow> int \<Rightarrow> bytes \<Rightarrow> kv_fail + (kv_entry \<times> u32)" where
  "kv_check_cached_text f sha model_id prompt_text =
     (case kvstore_read_header f of
        None \<Rightarrow> Inl BadHeader
      | Some (hdr, text_bytes) \<Rightarrow>
          if e_model_id hdr \<noteq> word_of_int model_id then Inl WrongModel
          else if unat text_bytes > length prompt_text then Inl TextTooLong
          else
            let cached_text = take (unat text_bytes) (drop 52 f) in
            if length cached_text \<noteq> unat text_bytes then Inl TruncatedText
            else if sha1_bytes_hex cached_text \<noteq> sha then Inl HashMismatch
            else if \<not> kvstore_byte_prefix_match prompt_text cached_text then Inl PrefixMismatch
            else Inr (hdr, text_bytes))"

definition kvstore_try_load_text ::
  "kv_env \<Rightarrow> kv_engine \<Rightarrow> kv_session \<Rightarrow> bytes \<Rightarrow> kvstore \<times> fs \<Rightarrow> kv_loaded \<times> kvstore \<times> fs" where
  "kvstore_try_load_text env engine session prompt_text st =
     (case st of (kc, fs) \<Rightarrow>
        let quant_bits = ke_routed_quant_bits engine; model_id = ke_model_id engine in
        if \<not> kc_enabled kc then (kv_not_loaded SessionKept, kc, fs)
        else if quant_bits \<noteq> 2 \<and> quant_bits \<noteq> 4 then (kv_not_loaded SessionKept, kc, fs)
        else
          (case kvstore_find_text_prefix env fs kc prompt_text model_id quant_bits (ks_ctx session) of
             (kc1, None) \<Rightarrow> (kv_not_loaded SessionKept, kc1, fs)
           | (kc1, Some idx) \<Rightarrow>
               let e = kc_entry kc1 ! idx; path = e_path e in
               (case fs_read env fs path of
                  None \<Rightarrow> (kv_not_loaded SessionKept, kc1, fs)
                | Some f \<Rightarrow>
                    (case kv_check_cached_text f (e_sha e) model_id prompt_text of
                       Inl fail \<Rightarrow> (kv_not_loaded SessionKept, kc1, fs)
                     | Inr (hdr, text_bytes) \<Rightarrow>
                         (case ks_load session (drop (52 + unat text_bytes) f) (e_payload_bytes hdr) of
                            None \<Rightarrow> (kv_not_loaded SessionInvalid, kc1, fs)
                          | Some loaded_tokens \<Rightarrow>
                              (case loaded_tokens of
                                 None \<Rightarrow> (kv_not_loaded SessionInvalid, kc1, snd (fs_unlink env fs path))
                               | Some toks \<Rightarrow>
                                   if int (length toks) \<noteq> sint (e_tokens hdr) then
                                     (kv_not_loaded SessionInvalid, kc1, snd (fs_unlink env fs path))
                                   else
                                     let loaded = sint (e_tokens hdr);
                                         prompt = kvstore_build_prompt engine toks
                                                    (drop (unat text_bytes) prompt_text);
                                         kc2 = kc1\<lparr>kc_continued_last_store_tokens := loaded\<rparr>;
                                         consume = cold_max_tokens (kc_opt kc) > 0
                                                   \<and> loaded > cold_max_tokens (kc_opt kc);
                                         fs' = (if consume then snd (fs_unlink env fs path)
                                                else snd (kvstore_touch_file env fs path (e_hits hdr + 1)))
                                     in if loaded > 0 then
                                          (\<lparr>ld_tokens = loaded, ld_effective_prompt = prompt,
                                            ld_session = SessionLoaded toks, ld_text_bytes = text_bytes,
                                            ld_ext_flags = e_ext_flags hdr, ld_consumed = consume,
                                            ld_path = Some path\<rparr>, kc2, fs')
                                        else
                                          ((kv_not_loaded (SessionLoaded toks))
                                             \<lparr>ld_effective_prompt := prompt\<rparr>, kc1, fs)))))))"

lemma kv_check_cached_text_Inr:
  "kv_check_cached_text f sha model_id prompt_text = Inr (hdr, tb) \<Longrightarrow>
     kvstore_read_header f = Some (hdr, tb) \<and> unat tb \<le> length prompt_text
     \<and> take (unat tb) (drop 52 f) = take (unat tb) prompt_text
     \<and> sha1_bytes_hex (take (unat tb) prompt_text) = sha"
  by (auto simp: kv_check_cached_text_def Let_def kvstore_byte_prefix_match_def min_def
      split: option.splits if_splits)

text \<open>C40. A load never trusts the hash alone: when tokens are loaded, the cached file's text really
  is the beginning of the prompt, the session holds as many tokens as the header says, and the
  effective prompt is those tokens followed by the tokens of the rest of the text.\<close>

theorem kvstore_try_load_text_safe:
  assumes "kvstore_try_load_text env engine session prompt_text (kc, fs) = (res, kc', fs')"
    "ld_tokens res \<noteq> 0"
  shows "\<exists>path f hdr tb toks.
     ld_path res = Some path \<and> map_of fs path = Some f \<and> kvstore_read_header f = Some (hdr, tb)
     \<and> take (unat tb) (drop 52 f) = take (unat tb) prompt_text \<and> unat tb \<le> length prompt_text
     \<and> ks_load session (drop (52 + unat tb) f) (e_payload_bytes hdr) = Some (Some toks)
     \<and> ld_session res = SessionLoaded toks \<and> int (length toks) = ld_tokens res
     \<and> ld_effective_prompt res = toks @ ke_tokenize engine (drop (unat tb) prompt_text)
     \<and> kc_continued_last_store_tokens kc' = int (length toks)"
  using assms
  by (auto simp: kvstore_try_load_text_def Let_def kv_not_loaded_def fs_read_def kvstore_build_prompt_def
      split: if_splits option.splits prod.splits sum.splits
      dest!: kv_check_cached_text_Inr)


section \<open>Publishing is atomic\<close>

lemma map_of_fs_write [simp]: "map_of (fs_write fs p b) q = (if q = p then Some b else map_of fs q)"
proof (cases "map_of fs p")
  case None
  then show ?thesis by (auto simp: fs_write_def map_add_def split: option.splits)
next
  case (Some c)
  have "map_of (map (\<lambda>(x, c). if x = p then (x, b) else (x, c)) fs) q
      = (if q = p then map_option (\<lambda>_. b) (map_of fs q) else map_of fs q)"
    by (induction fs) auto
  with Some show ?thesis by (simp add: fs_write_def)
qed

lemma map_of_fs_unlink: "map_of (snd (fs_unlink env fs p)) q = map_of fs q \<or> q = p"
  using fs_unlink_cases [of env fs p] by auto

lemma map_of_fs_rename:
  "map_of fs a = Some b \<Longrightarrow> map_of (fs_rename fs a c) q = (if q = c then Some b else if q = a then None else map_of fs q)"
  by (simp add: fs_rename_def)

definition checkpoint_bytes :: "bytes \<Rightarrow> bytes \<Rightarrow> bytes \<Rightarrow> bytes \<Rightarrow> bytes" where
  "checkpoint_bytes h txt payload trailer =
     h @ le_put32 (of_nat (length txt)) @ txt @ payload @ trailer"

lemma kv_publish_cases:
  assumes "kv_publish env io fs kc path h txt payload hooks = (ok, fs')"
  shows "(\<forall>q. q \<noteq> path \<longrightarrow> q \<noteq> path @ ''.tmp.'' @ dec_int (io_pid io) \<longrightarrow> map_of fs' q = map_of fs q)
    \<and> (map_of fs' path = map_of fs path \<and> \<not> ok
       \<or> map_of fs' path = Some (checkpoint_bytes h txt payload (snd (kv_trailer_write hooks txt)))
         \<and> kvstore_file_size_fits (kc_budget_bytes kc) (of_nat (length txt)) (of_nat (length payload))
             (of_nat (length (snd (kv_trailer_write hooks txt)))))"
proof -
  let ?tmp = "path @ ''.tmp.'' @ dec_int (io_pid io)"
  have ne: "path \<noteq> ?tmp" by simp
  obtain tok trailer where t: "kv_trailer_write hooks txt = (tok, trailer)"
    by (cases "kv_trailer_write hooks txt")
  have u: "q \<noteq> ?tmp \<Longrightarrow> map_of (snd (fs_unlink env g ?tmp)) q = map_of g q" for g q
    using map_of_fs_unlink by blast
  show ?thesis
    using assms ne u
    by (auto simp: kv_publish_def t Let_def checkpoint_bytes_def map_of_fs_rename split: if_splits)
qed

text \<open>C33. Whatever fails while a checkpoint is written, its name holds either what it held before or
  the complete new file, never a part of it; success means the new file; and no other file
  changes except the temporary one.\<close>

theorem kv_publish_atomic:
  assumes "kv_publish env io fs kc path h txt payload hooks = (ok, fs')"
  shows "map_of fs' path \<in> {map_of fs path,
      Some (checkpoint_bytes h txt payload (snd (kv_trailer_write hooks txt)))}
    \<and> (ok \<longrightarrow> map_of fs' path = Some (checkpoint_bytes h txt payload (snd (kv_trailer_write hooks txt))))
    \<and> (\<forall>q. q \<notin> {path, path @ ''.tmp.'' @ dec_int (io_pid io)} \<longrightarrow> map_of fs' q = map_of fs q)"
  using kv_publish_cases [OF assms] by auto

theorem kv_publish_atomic_witness:
  "let r = kv_publish example_env \<lparr>io_create = True, io_write = False, io_sync = True, io_rename = True,
             io_dir_sync = True, io_partial = 3, io_pid = 12\<rparr> [] example_store ''kv/a'' [1] [2] [3] None
   in map_of (snd r) ''kv/a'' = None"
proof -
  let ?io = "\<lparr>io_create = True, io_write = False, io_sync = True, io_rename = True,
             io_dir_sync = True, io_partial = 3, io_pid = 12\<rparr>"
  let ?r = "kv_publish example_env ?io [] example_store ''kv/a'' [1] [2] [3] None"
  have "fst ?r = False" by (simp add: kv_publish_def Let_def kv_trailer_write_def)
  then have r: "?r = (False, snd ?r)" by (metis prod.collapse)
  have "snd ?r = []"
    by (simp add: kv_publish_def Let_def kv_trailer_write_def fs_write_def fs_unlink_def example_env_def)
  then show ?thesis
    using kv_publish_atomic [OF r] by (simp only: Let_def map_of.simps)
qed

section \<open>A stored checkpoint is found\<close>

lemma sha_name_valid: "kvstore_sha_hex_name (take 40 (sha1_bytes_hex txt) @ ''.kv'') = Some (sha1_bytes_hex txt)"
proof -
  have "length (sha1_bytes_hex txt) = 40" by (rule sha1_bytes_hex_length)
  moreover have "list_all isxdigit (sha1_bytes_hex txt) \<and> map tolower (sha1_bytes_hex txt) = sha1_bytes_hex txt"
    unfolding sha1_bytes_hex_spec by (rule hex20_lower)
  ultimately show ?thesis by (simp add: kvstore_sha_hex_name_def)
qed

lemma sha_no_slash: "CHR ''/'' \<notin> set (sha1_bytes_hex txt)"
proof -
  have "\<not> isxdigit CHR ''/''" by code_simp
  then show ?thesis
    using hex20_lower [of "sha1_spec txt"] by (auto simp: sha1_bytes_hex_spec list_all_iff)
qed

lemma path_listed:
  "map_of fs (kvstore_path_for_sha dir (sha1_bytes_hex txt)) \<noteq> None \<Longrightarrow>
     kvstore_path_for_sha dir (sha1_bytes_hex txt) \<in> set (listing_paths fs dir)"
proof -
  assume "map_of fs (kvstore_path_for_sha dir (sha1_bytes_hex txt)) \<noteq> None"
  then have "kvstore_path_for_sha dir (sha1_bytes_hex txt) \<in> set (map fst fs)"
    by (simp add: map_of_eq_None_iff)
  then show ?thesis
    unfolding listing_paths_def kvstore_path_for_sha_def path_join_split [of dir "take _ _ @ _"]
    using sha_no_slash by (auto dest: in_set_takeD)
qed

lemma scan_stored:
  assumes "map_of fs (kvstore_path_for_sha dir (sha1_bytes_hex txt)) \<noteq> None"
    "kvstore_read_entry_file env fs (kvstore_path_for_sha dir (sha1_bytes_hex txt)) (sha1_bytes_hex txt) = Some e"
    "env_can_open env dir"
  shows "e \<in> set (kv_cache_scan env fs dir)"
proof -
  let ?p = "kvstore_path_for_sha dir (sha1_bytes_hex txt)"
  have "drop (length (kvstore_path_join dir [])) ?p = take 40 (sha1_bytes_hex txt) @ ''.kv''"
    unfolding kvstore_path_for_sha_def path_join_split [of dir "take _ _ @ _"] by simp
  then have "scan_path env fs dir ?p = Some e"
    using assms(2) by (simp only: scan_path_def sha_name_valid option.case)
  then show ?thesis
    using path_listed [OF assms(1)] assms(3) by (auto simp: kv_cache_scan_paths set_map_filter_Some)
qed

lemma unat_of_nat_32: "n \<le> 2 ^ 32 - 1 \<Longrightarrow> unat (of_nat n :: u32) = n"
  by (simp add: unat_of_nat take_bit_nat_eq_self)

lemma unat_of_nat_64: "n < 2 ^ 64 \<Longrightarrow> unat (of_nat n :: u64) = n"
  by (simp add: unat_of_nat take_bit_nat_eq_self)

lemma unat_ucast_32_64: "unat (ucast (x :: u32) :: u64) = unat x"
proof -
  have "unat x < 2 ^ LENGTH(32)" by (rule unsigned_less)
  then show ?thesis by (simp add: unsigned_ucast_eq take_bit_nat_eq_self)
qed

lemma read_checkpoint:
  assumes "map_of fs path = Some (checkpoint_bytes h txt payload trailer)"
    "h = kvstore_fill_header model quant reason ext tokens hits ctx created used (of_nat (length payload))"
    "env_can_open env path" "tokens \<noteq> 0" "quant = 2 \<or> quant = 4" "length txt \<le> 2 ^ 32 - 1"
    "52 + length txt + length payload + length trailer < 2 ^ 64"
  shows "\<exists>e. kvstore_read_entry_file env fs path sha = Some e \<and> e_sha e = sha
    \<and> e_text_bytes e = of_nat (length txt) \<and> e_tokens e = tokens \<and> e_model_id e = model
    \<and> e_quant_bits e = quant \<and> e_ctx_size e = ctx"
proof -
  let ?t = "of_nat (length txt) :: u32"
  let ?f = "checkpoint_bytes h txt payload trailer"
  have len: "length ?f = 52 + length txt + length payload + length trailer"
    by (simp add: checkpoint_bytes_def assms(2))
  have hd: "kvstore_read_header ?f = Some (kv_entry_zero
          \<lparr>e_quant_bits := quant, e_reason := if reason \<le> 6 then reason else 0,
           e_ext_flags := ext, e_model_id := model, e_tokens := tokens, e_hits := hits,
           e_ctx_size := ctx, e_created_at := created, e_last_used := used,
           e_payload_bytes := of_nat (length payload), e_text_bytes := ucast ?t\<rparr>, ?t)"
    unfolding checkpoint_bytes_def assms(2) by (subst read_header_fill) (use assms(4,5) in simp)
  have t: "unat (ucast ?t :: u64) = length txt"
    using unat_of_nat_32 [OF assms(6)] by (simp only: unat_ucast_32_64)
  have pl: "unat (of_nat (length payload) :: u64) = length payload"
    using assms(7) by (intro unat_of_nat_64) simp
  have ft: "unat (FIXED + ucast ?t) = 52 + length txt"
    using assms(7) t by (subst add_no_wrap) (simp_all add: unat_FIXED)
  have ftp: "unat (FIXED + ucast ?t + of_nat (length payload)) = 52 + length txt + length payload"
    using assms(7) ft pl by (subst add_no_wrap) simp_all
  have w1: "\<not> - 1 - FIXED < ucast ?t"
    using assms(7) t by (simp only: wrap_iff unat_FIXED)
  have w2: "\<not> - 1 - FIXED - ucast ?t < of_nat (length payload)"
  proof -
    have "- 1 - FIXED - ucast ?t = - 1 - (FIXED + ucast ?t)" by simp
    then show ?thesis using assms(7) ft pl by (simp only: wrap_iff)
  qed
  have w3: "\<not> (of_nat (length ?f) :: u64) < FIXED + ucast ?t + of_nat (length payload)"
    using assms(7) ftp len by (simp only: word_less_nat_alt unat_of_nat_64)
  have t64: "(ucast ?t :: u64) = of_nat (length txt)"
    using t assms(6) by (simp add: word_unat_eq_iff unat_of_nat_64)
  show ?thesis
    using assms(1,3) hd w1 w2 w3 len t64
    by (simp add: kvstore_read_entry_file_def fs_read_def)
qed


lemma read_entry_unopened:
  "map_of fs path = None \<Longrightarrow> kv_cache_existing_compatible env fs kc path sha txt m q c = (False, fs)"
  by (simp add: kv_cache_existing_compatible_def)

lemma file_fits_size: "kvstore_file_size_fits b t p r \<Longrightarrow> 52 + unat t + unat p + unat r < 2 ^ 64"
  by (auto simp: kvstore_file_size_fits_def file_size_exact split: if_splits)

lemma find_best_of:
  assumes "kc_enabled kc" "e \<in> set (kv_cache_scan env fs (kc_dir kc))"
    "kv_prefix_match kc prompt_text m q c e"
  shows "\<exists>kc1 b. kvstore_find_text_prefix env fs kc prompt_text m q c = (kc1, Some b)
    \<and> b < length (kc_entry kc1) \<and> e_text_bytes e \<le> e_text_bytes (kc_entry kc1 ! b)"
proof -
  let ?kc1 = "kv_cache_refresh env fs kc"
  have e: "kc_entry ?kc1 = kv_cache_scan env fs (kc_dir kc)" "kc_opt ?kc1 = kc_opt kc"
    "kc_reject_different_quant ?kc1 = kc_reject_different_quant kc"
    using assms(1) by (simp_all add: kv_cache_refresh_def)
  have m: "kv_prefix_match ?kc1 prompt_text m q c x = kv_prefix_match kc prompt_text m q c x" for x
    by (simp add: kv_prefix_match_def kv_prefix_candidate_def e)
  let ?n = "length (kc_entry ?kc1)"
  obtain i where i: "i < ?n" "kc_entry ?kc1 ! i = e" using assms(2) e(1) by (auto simp: in_set_conv_nth)
  from kv_best_prefix_fold [of ?n ?kc1 prompt_text m q c, folded kv_best_prefix_def]
  obtain b where b: "kv_best_prefix ?kc1 prompt_text m q c = Some b" "b < ?n"
    "\<not> kv_prefix_better e (kc_entry ?kc1 ! b)"
    using i assms(3) m by (auto split: option.splits)
  then have "e_text_bytes e \<le> e_text_bytes (kc_entry ?kc1 ! b)"
    by (auto simp: kv_prefix_better_def split: if_splits)
  with b show ?thesis by (simp add: kvstore_find_text_prefix_def Let_def)
qed

lemma store_new_file:
  assumes "kvstore_store_live_prefix_text env io engine session tokens store_len reason ov ext hooks (kc, fs)
      = (True, kc', fs')"
    and tx: "txt = (if ov \<noteq> None \<and> ov \<noteq> Some [] then the ov
       else kvstore_render_tokens_text engine (kvstore_tokens_copy_prefix tokens store_len))"
    and path: "path = kvstore_path_for_sha (kc_dir kc) (sha1_bytes_hex txt)"
    and new: "map_of fs path = None"
  shows "kc_enabled kc \<and> min_tokens (kc_opt kc) \<le> store_len \<and> length txt \<le> 2 ^ 32 - 1
    \<and> (ke_routed_quant_bits engine = 2 \<or> ke_routed_quant_bits engine = 4)
    \<and> (\<exists>payload ex. ks_stage session = Some payload
        \<and> kvstore_file_size_fits (kc_budget_bytes kc') (of_nat (length txt)) (of_nat (length payload))
            (of_nat (length (snd (kv_trailer_write hooks txt))))
        \<and> map_of fs' path = Some (checkpoint_bytes
            (kvstore_fill_header (word_of_int (ke_model_id engine))
               (word_of_int (ke_routed_quant_bits engine)) (kvstore_reason_code (Some reason)) ex
               (of_nat (length (kvstore_tokens_copy_prefix tokens store_len))) 0
               (word_of_int (ks_ctx session)) (env_now env) (env_now env) (of_nat (length payload)))
            txt payload (snd (kv_trailer_write hooks txt))))
    \<and> kc_dir kc' = kc_dir kc \<and> kc_enabled kc' = kc_enabled kc \<and> kc_opt kc' = kc_opt kc
    \<and> kc_reject_different_quant kc' = kc_reject_different_quant kc"
proof -
  have ev: "kc_dir k = kc_dir kc \<and> kc_enabled k = kc_enabled kc \<and> kc_opt k = kc_opt kc
      \<and> kc_reject_different_quant k = kc_reject_different_quant kc"
    if "kvstore_evict env x y (kc, g) = (k, g')" for x y g k g'
    using that by (auto simp: kvstore_evict_def kv_cache_refresh_def Let_def split: if_splits prod.splits)
  show ?thesis
    using assms(1) read_entry_unopened [OF new, of env kc "sha1_bytes_hex txt"]
    unfolding kvstore_store_live_prefix_text_def prod.case Let_def tx [symmetric] path [symmetric]
    by (auto split: if_splits option.splits prod.splits dest!: ev dest: kv_publish_cases)
qed


lemma sint_of_nat_32: "n < 2 ^ 31 \<Longrightarrow> sint (of_nat n :: u32) = int n"
  by (simp add: signed_of_nat signed_take_bit_int_eq_self)

lemma stored_then_found:
  assumes "kvstore_store_live_prefix_text env io engine session tokens store_len reason ov ext hooks (kc, fs)
      = (True, kc', fs')"
    and tx: "txt = (if ov \<noteq> None \<and> ov \<noteq> Some [] then the ov
       else kvstore_render_tokens_text engine (kvstore_tokens_copy_prefix tokens store_len))"
    and new: "map_of fs (kvstore_path_for_sha (kc_dir kc) (sha1_bytes_hex txt)) = None"
    and "\<And>p. env_can_open env p"
    and n: "1 \<le> min_tokens (kc_opt kc)" "store_len \<le> int (length tokens)" "length tokens < 2 ^ 31"
    and sz: "\<And>p. ks_stage session = Some p \<Longrightarrow> length p < 2 ^ 63"
      "length (snd (kv_trailer_write hooks txt)) < 2 ^ 63"
    and "prefix txt prompt_text"
  shows "\<exists>kc1 b. kvstore_find_text_prefix env fs' kc' prompt_text (ke_model_id engine)
           (ke_routed_quant_bits engine) (ks_ctx session) = (kc1, Some b)
    \<and> b < length (kc_entry kc1) \<and> length txt \<le> unat (e_text_bytes (kc_entry kc1 ! b))"
proof -
  let ?path = "kvstore_path_for_sha (kc_dir kc) (sha1_bytes_hex txt)"
  let ?n = "length (kvstore_tokens_copy_prefix tokens store_len)"
  from store_new_file [OF assms(1) tx refl new] obtain payload ex where k:
    "kc_enabled kc" "min_tokens (kc_opt kc) \<le> store_len" "length txt \<le> 2 ^ 32 - 1"
    "ke_routed_quant_bits engine = 2 \<or> ke_routed_quant_bits engine = 4"
    "ks_stage session = Some payload"
    "kvstore_file_size_fits (kc_budget_bytes kc') (of_nat (length txt)) (of_nat (length payload))
            (of_nat (length (snd (kv_trailer_write hooks txt))))"
    "map_of fs' ?path = Some (checkpoint_bytes
            (kvstore_fill_header (word_of_int (ke_model_id engine))
               (word_of_int (ke_routed_quant_bits engine)) (kvstore_reason_code (Some reason)) ex
               (of_nat ?n) 0
               (word_of_int (ks_ctx session)) (env_now env) (env_now env) (of_nat (length payload)))
            txt payload (snd (kv_trailer_write hooks txt)))"
    "kc_dir kc' = kc_dir kc" "kc_enabled kc' = kc_enabled kc" "kc_opt kc' = kc_opt kc"
    "kc_reject_different_quant kc' = kc_reject_different_quant kc" by blast
  have tn: "int ?n = store_len" "?n < 2 ^ 31"
    using n k(2) by (simp_all add: kvstore_tokens_copy_prefix_def min_def) arith
  have s: "sint (of_nat ?n :: u32) = store_len" using sint_of_nat_32 [OF tn(2)] tn(1) by simp
  have nz: "(of_nat ?n :: u32) \<noteq> 0" using s n(1) k(2) by force
  have q: "(word_of_int (ke_routed_quant_bits engine) :: u8) = 2
      \<or> (word_of_int (ke_routed_quant_bits engine) :: u8) = 4" using k(4) by auto
  have len: "52 + length txt + length payload + length (snd (kv_trailer_write hooks txt)) < 2 ^ 64"
  proof -
    have "length payload < 2 ^ 64" "length (snd (kv_trailer_write hooks txt)) < 2 ^ 64" "length txt < 2 ^ 64"
      using sz k(3,5) by fastforce+
    then show ?thesis using file_fits_size [OF k(6)] by (simp add: unat_of_nat_64)
  qed
  from read_checkpoint [OF k(7) refl assms(4) nz q k(3) len, of "sha1_bytes_hex txt"] obtain e where e:
    "kvstore_read_entry_file env fs' ?path (sha1_bytes_hex txt) = Some e" "e_sha e = sha1_bytes_hex txt"
    "e_text_bytes e = of_nat (length txt)" "e_tokens e = of_nat ?n"
    "e_model_id e = word_of_int (ke_model_id engine)"
    "e_quant_bits e = word_of_int (ke_routed_quant_bits engine)" "e_ctx_size e = word_of_int (ks_ctx session)"
    by blast
  have ut: "unat (e_text_bytes e) = length txt" using k(3) e(3) by (simp add: unat_of_nat_64)
  have "e \<in> set (kv_cache_scan env fs' (kc_dir kc'))"
    unfolding k(8) using k(7) e(1) assms(4) by (intro scan_stored) simp_all
  moreover have "kv_prefix_match kc' prompt_text (ke_model_id engine) (ke_routed_quant_bits engine) (ks_ctx session) e"
    using \<open>prefix txt prompt_text\<close> e ut s k(2,10,11)
    by (auto simp: kv_prefix_match_def kv_prefix_candidate_def kv_prefix_hash_ok_def prefix_def)
  ultimately obtain kc1 b where b:
    "kvstore_find_text_prefix env fs' kc' prompt_text (ke_model_id engine)
           (ke_routed_quant_bits engine) (ks_ctx session) = (kc1, Some b)"
    "b < length (kc_entry kc1)" "e_text_bytes e \<le> e_text_bytes (kc_entry kc1 ! b)"
    using find_best_of [of kc' e env fs'] k(1,9) by metis
  then show ?thesis using ut by (simp add: word_le_nat_alt)
qed

text \<open>C7. A checkpoint stored under a new name is found again: every later prompt that begins with its
  text, for the same model, quantisation and context, gets a cached prefix at least as long.\<close>

theorem kvstore_store_then_find:
  assumes "kvstore_store_live_prefix_text env io engine session tokens store_len reason None 0 hooks (kc, fs)
      = (True, kc', fs')"
    and "txt = kvstore_render_tokens_text engine (kvstore_tokens_copy_prefix tokens store_len)"
    and "map_of fs (kvstore_path_for_sha (kc_dir kc) (sha1_bytes_hex txt)) = None"
    and "\<forall>p. env_can_open env p"
    and "1 \<le> min_tokens (kc_opt kc)" "store_len \<le> int (length tokens)" "length tokens < 2 ^ 31"
    and "\<forall>p. ks_stage session = Some p \<longrightarrow> length p < 2 ^ 63"
    and "length (snd (kv_trailer_write hooks txt)) < 2 ^ 63"
  shows "\<exists>kc1 b. kvstore_find_text_prefix env fs' kc' (txt @ rest) (ke_model_id engine)
           (ke_routed_quant_bits engine) (ks_ctx session) = (kc1, Some b)
    \<and> b < length (kc_entry kc1) \<and> length txt \<le> unat (e_text_bytes (kc_entry kc1 ! b))"
  using assms by (intro stored_then_found [where ov = None and ext = 0]) auto

definition example_engine :: kv_engine where
  "example_engine = \<lparr>ke_routed_quant_bits = 2, ke_model_id = 0, ke_token_text = (\<lambda>t. [word_of_int t]),
     ke_tokenize = map (\<lambda>b. uint b)\<rparr>"

definition example_session :: kv_session where
  "example_session = \<lparr>ks_tokens = Some [65, 66], ks_ctx = 4096, ks_stage = Some [1, 2, 3],
     ks_load = (\<lambda>f n. Some (Some [65, 66]))\<rparr>"

definition example_io :: kv_io where
  "example_io = \<lparr>io_create = True, io_write = True, io_sync = True, io_rename = True,
     io_dir_sync = True, io_partial = 0, io_pid = 12\<rparr>"

definition example_cache :: kvstore where
  "example_cache = example_store\<lparr>kc_opt := kvstore_default_options\<lparr>min_tokens := 2\<rparr>\<rparr>"

lemma example_store_succeeds:
  "fst (kvstore_store_live_prefix_text example_env example_io example_engine example_session [65, 66, 67] 2
     ''cold'' None 0 None (example_cache, []))"
proof -
  have fit: "kvstore_file_size_fits 4096 2 3 0"
    by (simp add: kvstore_file_size_fits_def file_size_exact kv_cache_budget_required_def Let_def FIXED_def)
  have ev: "kvstore_evict env x y (kc, []) = (kc, [])" if "kc_entry kc = []" for env x y kc
    using that
    by (simp add: kvstore_evict_def kv_cache_refresh_def Let_def
        kv_cache_scan_def fs_listing_def List.map_filter_simps kv_evict_loop.simps [of _ _ _ _ "[]"])
  show ?thesis
    using fit
    by (simp add: kvstore_store_live_prefix_text_def kv_cache_existing_compatible_def kv_store_prefix_live_def
        kvstore_tokens_copy_prefix_def kv_trailer_serialized_size_def example_engine_def example_session_def
        kvstore_render_tokens_text_def ev example_cache_def example_store_def kvstore_default_options_def)
      (simp add: kv_publish_def kv_trailer_write_def example_io_def Let_def)
qed

theorem kvstore_store_then_find_witness:
  "\<exists>kc' fs' kc1 b. kvstore_store_live_prefix_text example_env example_io example_engine example_session
      [65, 66, 67] 2 ''cold'' None 0 None (example_cache, []) = (True, kc', fs')
   \<and> kvstore_find_text_prefix example_env fs' kc' [65, 66, 90] 0 2 4096 = (kc1, Some b)
   \<and> 2 \<le> unat (e_text_bytes (kc_entry kc1 ! b))"
proof -
  obtain kc' fs' where s: "kvstore_store_live_prefix_text example_env example_io example_engine
      example_session [65, 66, 67] 2 ''cold'' None 0 None (example_cache, []) = (True, kc', fs')"
    using example_store_succeeds by (metis (full_types) prod.collapse)
  have t: "[65, 66] = kvstore_render_tokens_text example_engine (kvstore_tokens_copy_prefix [65, 66, 67] 2)"
    by (simp add: kvstore_render_tokens_text_def example_engine_def kvstore_tokens_copy_prefix_def)
  from kvstore_store_then_find [OF s t, of "[90]"] s show ?thesis
    by (auto simp: example_env_def example_cache_def example_session_def example_engine_def
        kv_trailer_write_def)
qed


section \<open>Examples of lookup and load\<close>

text \<open>A directory with one checkpoint: the text A, loaded by a session that gives one token back.\<close>

definition example_file :: bytes where
  "example_file = checkpoint_bytes (kvstore_fill_header 0 2 1 0 2 0 4096 5 5 3) [65, 66] [1, 2, 3] []"

definition example_path :: string where
  "example_path = kvstore_path_for_sha ''kv'' (sha1_bytes_hex [65, 66])"

lemma example_scan:
  "\<exists>e. kv_cache_scan example_env [(example_path, example_file)] ''kv'' = [e]
    \<and> e_path e = example_path \<and> e_sha e = sha1_bytes_hex [65, 66] \<and> e_text_bytes e = 2 \<and> e_tokens e = 2
    \<and> e_model_id e = 0 \<and> e_quant_bits e = 2 \<and> e_ctx_size e = 4096"
proof -
  let ?fs = "[(example_path, example_file)]"
  let ?h = "kvstore_fill_header 0 2 1 0 2 0 4096 5 5 (of_nat (length [1::u8, 2, 3]))"
  have f: "example_file = checkpoint_bytes ?h [65, 66] [1, 2, 3] []" by (simp add: example_file_def)
  have c: "map_of ?fs example_path = Some (checkpoint_bytes ?h [65, 66] [1, 2, 3] [])"
    unfolding f by simp
  have "\<exists>e. kvstore_read_entry_file example_env ?fs example_path (sha1_bytes_hex [65, 66]) = Some e
      \<and> e_sha e = sha1_bytes_hex [65, 66] \<and> e_text_bytes e = of_nat (length [65::u8, 66]) \<and> e_tokens e = 2
      \<and> e_model_id e = 0 \<and> e_quant_bits e = 2 \<and> e_ctx_size e = 4096"
    by (rule read_checkpoint [OF c refl]) (simp_all add: example_env_def)
  then obtain e where e:
    "kvstore_read_entry_file example_env ?fs example_path (sha1_bytes_hex [65, 66]) = Some e"
    "e_sha e = sha1_bytes_hex [65, 66]" "e_text_bytes e = of_nat (length [65::u8, 66])" "e_tokens e = 2"
    "e_model_id e = 0" "e_quant_bits e = 2" "e_ctx_size e = 4096" by blast
  have e2: "e_text_bytes e = 2" using e(3) by simp
  have l: "listing_paths ?fs ''kv'' = [example_path]"
    using path_listed [of ?fs "''kv''" "[65, 66]"] by (auto simp: example_path_def listing_paths_def split: if_splits)
  have "e \<in> set (kv_cache_scan example_env ?fs ''kv'')"
    by (rule scan_stored) (use e(1) in \<open>simp_all add: example_path_def example_env_def\<close>)
  then have "kv_cache_scan example_env ?fs ''kv'' = [e]"
    unfolding kv_cache_scan_paths l by (auto simp: List.map_filter_simps split: option.splits)
  with e(2,4-) e2 read_entry_path [OF e(1)] show ?thesis by blast
qed

theorem kv_best_prefix_correct_witness:
  "\<exists>e. kv_cache_scan example_env [(example_path, example_file)] ''kv'' = [e]
    \<and> kv_best_prefix (example_cache\<lparr>kc_entry := [e]\<rparr>) [65, 66, 67] 0 2 4096 = Some 0"
proof -
  obtain e where e: "kv_cache_scan example_env [(example_path, example_file)] ''kv'' = [e]"
    "e_sha e = sha1_bytes_hex [65, 66]" "e_text_bytes e = 2" "e_tokens e = 2"
    "e_model_id e = 0" "e_quant_bits e = 2" "e_ctx_size e = 4096"
    using example_scan by blast
  let ?kc = "example_cache\<lparr>kc_entry := [e]\<rparr>"
  have "kv_prefix_match ?kc [65, 66, 67] 0 2 4096 e"
    using e by (simp add: kv_prefix_match_def kv_prefix_candidate_def kv_prefix_hash_ok_def example_cache_def
        example_store_def)
  then have "kv_best_prefix ?kc [65, 66, 67] 0 2 4096 = Some 0"
    using kv_best_prefix_correct [of ?kc "[65, 66, 67]" 0 2 4096] by (auto split: option.splits)
  with e(1) show ?thesis by blast
qed

theorem kvstore_try_load_text_safe_witness:
  "\<exists>res kc' fs' tb f. kvstore_try_load_text example_env example_engine example_session [65, 66, 67]
      (example_cache, [(example_path, example_file)]) = (res, kc', fs')
    \<and> ld_tokens res = 2 \<and> take (unat (tb::u32)) (drop 52 f) = take (unat tb) [65, 66, 67::u8]"
proof -
  let ?fs = "[(example_path, example_file)]"
  obtain e where e: "kv_cache_scan example_env ?fs ''kv'' = [e]"
    "e_path e = example_path" "e_sha e = sha1_bytes_hex [65, 66]" "e_text_bytes e = 2" "e_tokens e = 2"
    "e_model_id e = 0" "e_quant_bits e = 2" "e_ctx_size e = 4096"
    using example_scan by blast
  let ?kc = "example_cache\<lparr>kc_entry := [e]\<rparr>"
  have r: "kv_cache_refresh example_env ?fs example_cache = ?kc"
    using e(1) by (simp add: kv_cache_refresh_def example_cache_def example_store_def)
  have best: "kv_best_prefix ?kc [65, 66, 67] 0 2 4096 = Some 0"
    using e by (simp add: kv_best_prefix_def Let_def kv_prefix_candidate_def kv_prefix_hash_ok_def
        example_cache_def example_store_def)
  have hd: "kvstore_read_header example_file = Some (kv_entry_zero
          \<lparr>e_quant_bits := 2, e_reason := 1, e_ext_flags := 0, e_model_id := 0, e_tokens := 2, e_hits := 0,
           e_ctx_size := 4096, e_created_at := 5, e_last_used := 5,
           e_payload_bytes := 3, e_text_bytes := 2\<rparr>, 2)"
    using read_header_fill [of 0 2 1 0 2 0 4096 5 5 3 2 "[65, 66, 1, 2, 3]"]
    by (simp add: example_file_def checkpoint_bytes_def)
  have d: "drop 52 example_file = [65, 66, 1, 2, 3]"
    by (simp add: example_file_def checkpoint_bytes_def kvstore_fill_header_def le_put32_def le_put64_def upt_rec)
  obtain res kc' fs' where run: "kvstore_try_load_text example_env example_engine example_session [65, 66, 67]
      (example_cache, ?fs) = (res, kc', fs')"
    by (metis prod.collapse)
  have "ld_tokens res = 2"
    using run hd d e best r
    by (auto simp: kvstore_try_load_text_def kvstore_find_text_prefix_def kv_check_cached_text_def Let_def
        example_engine_def example_session_def fs_read_def example_env_def kvstore_byte_prefix_match_def
        kv_not_loaded_def split: if_splits prod.splits)
      (simp_all add: example_cache_def example_store_def)
  with kvstore_try_load_text_safe [OF run] run show ?thesis by fastforce
qed

end
