(* ===== verification/DSpark.thy ===== *)
theory DSpark
  imports Prelude Complex_Main
begin

text \<open>
  The DSpark draft runtime (\<open>ds4_dspark_runtime.c\<close>) and the controllers of the draft length in
  \<open>ds4.c\<close>: the kind of the draft head, the confidence schedule, the adaptive block size
  (\<open>ds4_session_dspark_draft_cap\<close>, \<open>ds4_session_note_dspark_commit\<close>) and the cost-adaptive
  cascade depth.  C floats and doubles are modelled as reals: rounding, NaN and infinities are
  not part of the model.
\<close>

section \<open>Draft heads\<close>

datatype ds4_mtp_draft_kind =
    DS4_MTP_DRAFT_NONE
  | DS4_MTP_DRAFT_LEGACY
  | DS4_MTP_DRAFT_DSPARK
  | DS4_MTP_DRAFT_DSPARK_NONSEQ

datatype ds4_dspark_spec_gate =
    DS4_DSPARK_SPEC_DISABLED
  | DS4_DSPARK_SPEC_LEGACY_MTP
  | DS4_DSPARK_SPEC_DSPARK_ENABLED
  | DS4_DSPARK_SPEC_DSPARK_NOT_READY
  | DS4_DSPARK_SPEC_DSPARK_NONSEQ_NOT_READY

record ds4_dspark_config =
  dc_n_mtp_layers :: u32
  dc_block_size :: u32
  dc_noise_token_id :: u32
  dc_markov_rank :: u32
  dc_target_layer_ids :: "u32 list"

definition ds4_dspark_config_init_defaults :: ds4_dspark_config where
  "ds4_dspark_config_init_defaults =
     \<lparr>dc_n_mtp_layers = 3, dc_block_size = 5, dc_noise_token_id = 128799, dc_markov_rank = 256,
      dc_target_layer_ids = [40, 41, 42]\<rparr>"

definition ds4_mtp_draft_kind_name :: "ds4_mtp_draft_kind \<Rightarrow> string" where
  "ds4_mtp_draft_kind_name kind =
     (case kind of
        DS4_MTP_DRAFT_LEGACY \<Rightarrow> ''legacy-mtp''
      | DS4_MTP_DRAFT_DSPARK \<Rightarrow> ''dspark''
      | DS4_MTP_DRAFT_DSPARK_NONSEQ \<Rightarrow> ''dspark-nonseq''
      | DS4_MTP_DRAFT_NONE \<Rightarrow> ''none'')"

definition ds4_mtp_draft_kind_guess_ex ::
  "bool \<Rightarrow> bool \<Rightarrow> bool \<Rightarrow> bool \<Rightarrow> u32 \<Rightarrow> ds4_mtp_draft_kind" where
  "ds4_mtp_draft_kind_guess_ex has_e_proj has_main_proj has_markov_w1 markov_rank_set markov_rank =
     (if has_main_proj \<and> has_markov_w1 then DS4_MTP_DRAFT_DSPARK
      else if has_main_proj \<and> markov_rank_set \<and> markov_rank = 0 then DS4_MTP_DRAFT_DSPARK_NONSEQ
      else if has_e_proj then DS4_MTP_DRAFT_LEGACY
      else DS4_MTP_DRAFT_NONE)"

definition ds4_mtp_draft_kind_guess :: "bool \<Rightarrow> bool \<Rightarrow> bool \<Rightarrow> ds4_mtp_draft_kind" where
  "ds4_mtp_draft_kind_guess has_e_proj has_main_proj has_markov_w1 =
     ds4_mtp_draft_kind_guess_ex has_e_proj has_main_proj has_markov_w1 False 0"

definition ds4_dspark_bf16_to_f32 :: "u16 \<Rightarrow> u32" where
  "ds4_dspark_bf16_to_f32 h = push_bit 16 (ucast h)"

definition ds4_dspark_speculative_gate ::
  "ds4_mtp_draft_kind \<Rightarrow> bool \<Rightarrow> int \<Rightarrow> ds4_dspark_spec_gate" where
  "ds4_dspark_speculative_gate kind mtp_ready mtp_draft_tokens =
     (if \<not> mtp_ready \<or> mtp_draft_tokens \<le> 1 then DS4_DSPARK_SPEC_DISABLED
      else if kind = DS4_MTP_DRAFT_LEGACY then DS4_DSPARK_SPEC_LEGACY_MTP
      else if kind = DS4_MTP_DRAFT_DSPARK then DS4_DSPARK_SPEC_DSPARK_ENABLED
      else if kind = DS4_MTP_DRAFT_DSPARK_NONSEQ then DS4_DSPARK_SPEC_DSPARK_NONSEQ_NOT_READY
      else DS4_DSPARK_SPEC_DISABLED)"

definition ds4_mtp_speculative_draft_ready :: "ds4_mtp_draft_kind \<Rightarrow> bool" where
  "ds4_mtp_speculative_draft_ready kind \<longleftrightarrow>
     kind = DS4_MTP_DRAFT_LEGACY \<or> kind = DS4_MTP_DRAFT_DSPARK \<or> kind = DS4_MTP_DRAFT_DSPARK_NONSEQ"

definition ds4_mtp_draft_runtime_supported :: "bool \<Rightarrow> ds4_mtp_draft_kind \<Rightarrow> bool" where
  "ds4_mtp_draft_runtime_supported backend_cpu kind =
     (if backend_cpu then False else ds4_mtp_speculative_draft_ready kind)"

section \<open>Draft lengths\<close>

text \<open>The number of drafts up to and including the first end-of-sequence token.\<close>

fun draft_len_from :: "int list \<Rightarrow> int \<Rightarrow> int \<Rightarrow> int \<Rightarrow> int" where
  "draft_len_from [] i draft_n eos_token = draft_n"
| "draft_len_from (d # ds) i draft_n eos_token =
     (if i \<ge> draft_n then draft_n
      else if d = eos_token then i + 1
      else draft_len_from ds (i + 1) draft_n eos_token)"

definition ds4_dspark_draft_len_until_eos :: "int list \<Rightarrow> int \<Rightarrow> int \<Rightarrow> int" where
  "ds4_dspark_draft_len_until_eos drafts draft_n eos_token =
     (if draft_n \<le> 0 then 0 else draft_len_from drafts 0 draft_n eos_token)"

definition ds4_dspark_prefix_slot_for_accept :: "int \<Rightarrow> int \<Rightarrow> int" where
  "ds4_dspark_prefix_slot_for_accept accepted draft_n =
     (if accepted \<le> 0 \<or> draft_n \<le> 1 \<or> accepted \<ge> draft_n then -1 else accepted - 1)"

definition ds4_dspark_prefix_slot_count :: "ds4_mtp_draft_kind \<Rightarrow> int \<Rightarrow> int \<Rightarrow> int" where
  "ds4_dspark_prefix_slot_count kind block_size max_slots =
     (if max_slots \<le> 0 then 0
      else if kind \<noteq> DS4_MTP_DRAFT_LEGACY \<and> kind \<noteq> DS4_MTP_DRAFT_DSPARK
              \<and> kind \<noteq> DS4_MTP_DRAFT_DSPARK_NONSEQ then 0
      else
        (let slots = (if kind = DS4_MTP_DRAFT_DSPARK \<or> kind = DS4_MTP_DRAFT_DSPARK_NONSEQ
                      then if block_size > 1 then block_size - 1 else 1
                      else 1) in
         if slots > max_slots then max_slots else slots))"

text \<open>The chance that a draft survives, from the logit of the confidence head.\<close>

definition draft_survival :: "real \<Rightarrow> real" where
  "draft_survival c =
     (if c \<ge> 16 then 1 else if c \<le> -16 then 0 else 1 / (1 + exp (- c)))"

fun schedule_from :: "real list \<Rightarrow> int \<Rightarrow> int \<Rightarrow> real \<Rightarrow> int" where
  "schedule_from [] i max_prefix min_survival = max_prefix"
| "schedule_from (c # cs) i max_prefix min_survival =
     (if i \<ge> max_prefix then max_prefix
      else if draft_survival c < min_survival then i
      else schedule_from cs (i + 1) max_prefix min_survival)"

definition ds4_dspark_confidence_schedule_prefix ::
  "real list \<Rightarrow> int \<Rightarrow> int \<Rightarrow> real \<Rightarrow> int" where
  "ds4_dspark_confidence_schedule_prefix confidence block_size max_prefix min_survival =
     (if block_size \<le> 0 \<or> max_prefix \<le> 0 then 0
      else schedule_from confidence 0
             (if max_prefix > block_size then block_size else max_prefix)
             (if \<not> (min_survival > 0 \<and> min_survival \<le> 1) then 1 / 2 else min_survival))"

lemma draft_survival_half: "draft_survival c < 1 / 2 \<longleftrightarrow> c < 0"
proof -
  have "1 / (1 + exp (- c)) < 1 / 2 \<longleftrightarrow> (1::real) < exp (- c)"
    by (simp add: field_simps add_pos_pos)
  then show ?thesis by (auto simp: draft_survival_def)
qed

lemma schedule_from_length:
  assumes "0 \<le> i" "i + int (length cs) = n"
  shows "schedule_from cs i n m = i + int (length (takeWhile (\<lambda>c. \<not> draft_survival c < m) cs))"
  using assms by (induction cs arbitrary: i) auto

text \<open>With the production threshold one half, the schedule keeps exactly the leading drafts
  whose confidence is not negative.\<close>

lemma schedule_half:
  assumes "cs \<noteq> []"
  shows "ds4_dspark_confidence_schedule_prefix cs (int (length cs)) (int (length cs)) (1 / 2)
    = int (length (takeWhile (\<lambda>c. 0 \<le> c) cs))"
proof -
  have "(\<lambda>c. \<not> draft_survival c < 1 / 2) = (\<lambda>c. 0 \<le> c)"
    unfolding draft_survival_half by (auto simp: not_less)
  with assms schedule_from_length [of 0 cs "int (length cs)" "1 / 2"] show ?thesis
    by (simp add: ds4_dspark_confidence_schedule_prefix_def del: divide_less_eq_numeral1)
qed

section \<open>Engine, environment and controllers\<close>

record spec_engine =
  en_quality :: bool
  en_mtp_ready :: bool
  en_mtp_spec_ready :: bool
  en_dspark_ready :: bool
  en_kind :: ds4_mtp_draft_kind
  en_mtp_draft_tokens :: int
  en_dspark_draft_tokens :: int
  en_dspark_block_size :: int
  en_markov_rank :: nat
  en_confidence_floor :: real
  en_mtp_margin :: real
  en_prefill_cap :: nat
  en_raw_window :: nat
  en_ctx_size :: int
  en_backend_name :: string

text \<open>Environment variables; \<open>DS4_DSPARK_VERIFY_MAX\<close> and \<open>DS4_MTP_MIN_MARGIN\<close> by the number they start
  with, if any.\<close>

record spec_env =
  ev_strict :: bool
  ev_spec_disable :: bool
  ev_dspark_adaptive :: bool
  ev_verify_max :: "int option"
  ev_no_cost_adaptive :: bool
  ev_force_schedule_all :: bool
  ev_no_cascade :: bool
  ev_cascade_adaptive :: bool
  ev_min_margin :: "real option"
  ev_batch_verify :: bool
  ev_exact_replay :: bool
  ev_force_snapshot :: bool

record dspark_adaptive =
  da_adaptive :: bool
  da_inited :: bool
  da_stage :: int
  da_full_streak :: int
  da_confidence :: real
  da_confidence_valid :: bool

record spec_cascade =
  cs_adaptive :: bool
  cs_inited :: bool
  cs_cap :: int
  cs_probe_n :: int
  cs_since_probe :: int
  cs_samples :: int
  cs_ewma_p0 :: real
  cs_ewma_p1 :: real
  cs_ms_n2 :: real
  cs_ms_n3 :: real

definition at_most :: "int \<Rightarrow> int \<Rightarrow> int" where
  "at_most bound n = (if n > bound then bound else n)"

lemma at_most_min: "at_most b n = min n b"
  by (simp add: at_most_def min_def)

text \<open>\<open>ds4_session_dspark_draft_cap\<close>: the block size follows the last confidence.\<close>

definition adaptive_start :: "spec_env \<Rightarrow> dspark_adaptive \<Rightarrow> dspark_adaptive" where
  "adaptive_start ev a =
     (if da_inited a then a
      else a\<lparr>da_adaptive := ev_dspark_adaptive ev, da_stage := 0, da_full_streak := 0,
             da_inited := True\<rparr>)"

definition adaptive_stage :: "real \<Rightarrow> real \<Rightarrow> dspark_adaptive \<Rightarrow> dspark_adaptive" where
  "adaptive_stage low high a =
     (if da_confidence_valid a then
        if da_confidence a \<ge> high then a\<lparr>da_stage := 2\<rparr>
        else if da_confidence a \<ge> low then (if da_stage a < 1 then a\<lparr>da_stage := 1\<rparr> else a)
        else a\<lparr>da_stage := 0\<rparr>
      else a)"

definition ds4_session_dspark_draft_cap ::
  "spec_engine \<Rightarrow> spec_env \<Rightarrow> dspark_adaptive \<Rightarrow> dspark_adaptive \<times> int" where
  "ds4_session_dspark_draft_cap e ev a =
     (let cap = (if en_dspark_draft_tokens e > 0 then en_dspark_draft_tokens e else 2) in
      if \<not> en_dspark_ready e then (a, cap)
      else
        (let a = adaptive_start ev a in
         if \<not> da_adaptive a then (a, cap)
         else
           (let a = adaptive_stage (en_confidence_floor e) (en_confidence_floor e + 1) a in
            if cap < 2 then (a, 2)
            else if da_stage a \<le> 0 then (a, 2)
            else if da_stage a = 1 then (a, if cap < 3 then cap else 3)
            else (a, en_dspark_block_size e))))"

definition ds4_session_note_dspark_commit ::
  "spec_engine \<Rightarrow> int \<Rightarrow> dspark_adaptive \<Rightarrow> dspark_adaptive" where
  "ds4_session_note_dspark_commit e commit a =
     (if \<not> en_dspark_ready e \<or> \<not> da_adaptive a then a
      else
        (let a = adaptive_stage 0 1 a in
         if commit \<ge> 1 then
           (if da_stage a = 0 then a\<lparr>da_stage := 1, da_full_streak := 0\<rparr>
            else if da_stage a = 1 then a\<lparr>da_stage := 2, da_full_streak := 0\<rparr>
            else a\<lparr>da_full_streak := da_full_streak a + 1\<rparr>)
         else a\<lparr>da_full_streak := 0, da_stage := 0\<rparr>))"

text \<open>The controller of the cascade depth (lines 32493 to 32521).\<close>

definition cascade_start ::
  "spec_env \<Rightarrow> real list \<Rightarrow> int \<Rightarrow> spec_cascade \<Rightarrow> spec_cascade" where
  "cascade_start ev confidence drafted c =
     (if cs_inited c then c
      else c\<lparr>cs_adaptive := \<not> ev_no_cost_adaptive ev, cs_inited := True, cs_cap := 2, cs_probe_n := 4,
             cs_ewma_p0 := (if confidence ! 0 \<ge> 0 then 1 else 1 / 2),
             cs_ewma_p1 := (if drafted > 1 \<and> confidence ! 1 \<ge> 0 then 1 else 1 / 2)\<rparr>)"

definition cascade_retune :: "spec_cascade \<Rightarrow> spec_cascade" where
  "cascade_retune c =
     (if cs_ms_n2 c > 0 \<and> cs_ms_n3 c > 0 then
        (let n2_rate = (1 + cs_ewma_p0 c) / cs_ms_n2 c;
             n3_rate = (1 + cs_ewma_p0 c + cs_ewma_p0 c * cs_ewma_p1 c) / cs_ms_n3 c in
         if cs_cap c = 2 \<and> n3_rate < n2_rate * (97 / 100) then c\<lparr>cs_cap := 1\<rparr>
         else if cs_cap c = 1 \<and> n3_rate > n2_rate * (103 / 100) then c\<lparr>cs_cap := 2\<rparr>
         else c)
      else c)"

definition cascade_schedule :: "int \<Rightarrow> int \<Rightarrow> spec_cascade \<Rightarrow> spec_cascade \<times> int" where
  "cascade_schedule drafted scheduled c =
     (if cs_adaptive c \<and> drafted \<ge> 2 then
        if cs_samples c < 4 then (c, 2)
        else if cs_samples c < 6 then (c, 1)
        else
          (let c = cascade_retune c in
           (c, if cs_since_probe c \<ge> 32 then 2 else cs_cap c))
      else (c, scheduled))"

definition ewma_cost :: "real \<Rightarrow> real \<Rightarrow> real" where
  "ewma_cost cost ms = (if cost > 0 then 3 / 4 * cost + 1 / 4 * ms else ms)"

text \<open>After a miss of the first draft (lines 32532 to 32548), and after a commit (32625 to 32643).\<close>

definition cascade_probed :: "int \<Rightarrow> spec_cascade \<Rightarrow> spec_cascade" where
  "cascade_probed scheduled c =
     (if scheduled \<ge> 2 then
        c\<lparr>cs_probe_n := (if cs_probe_n c > 0 then cs_probe_n c - 1 else cs_probe_n c),
          cs_since_probe := 0\<rparr>
      else c\<lparr>cs_since_probe := cs_since_probe c + 1\<rparr>)"

definition cascade_miss :: "int \<Rightarrow> real \<Rightarrow> spec_cascade \<Rightarrow> spec_cascade" where
  "cascade_miss scheduled miss_ms c =
     (let c = c\<lparr>cs_ewma_p0 := cs_ewma_p0 c * (3 / 4), cs_samples := cs_samples c + 1\<rparr>;
          c = (if scheduled = 1 then c\<lparr>cs_ms_n2 := ewma_cost (cs_ms_n2 c) miss_ms\<rparr>
               else c\<lparr>cs_ms_n3 := ewma_cost (cs_ms_n3 c) miss_ms\<rparr>) in
      cascade_probed scheduled c)"

definition cascade_commit :: "int \<Rightarrow> int \<Rightarrow> real \<Rightarrow> spec_cascade \<Rightarrow> spec_cascade" where
  "cascade_commit scheduled commit iter_ms c =
     (if cs_adaptive c then
        (let c = c\<lparr>cs_ewma_p0 := 3 / 4 * cs_ewma_p0 c + 1 / 4\<rparr>;
             c = (if scheduled \<ge> 2 then
                    c\<lparr>cs_ewma_p1 := 3 / 4 * cs_ewma_p1 c + 1 / 4 * (if commit \<ge> 2 then 1 else 0),
                      cs_ms_n3 := ewma_cost (cs_ms_n3 c) iter_ms\<rparr>
                  else c\<lparr>cs_ms_n2 := ewma_cost (cs_ms_n2 c) iter_ms\<rparr>);
             c = cascade_probed scheduled c in
         c\<lparr>cs_samples := cs_samples c + 1\<rparr>)
      else c)"

text \<open>What the controllers keep: the chances stay between zero and one, the depth is one or two.\<close>

definition cascade_ok :: "spec_cascade \<Rightarrow> bool" where
  "cascade_ok c \<longleftrightarrow>
     0 \<le> cs_ewma_p0 c \<and> cs_ewma_p0 c \<le> 1 \<and> 0 \<le> cs_ewma_p1 c \<and> cs_ewma_p1 c \<le> 1
     \<and> 0 \<le> cs_probe_n c \<and> 0 \<le> cs_since_probe c
     \<and> (cs_inited c \<longrightarrow> cs_cap c = 1 \<or> cs_cap c = 2)"

lemma cascade_start_ok: "cascade_ok c \<Longrightarrow> cascade_ok (cascade_start ev conf n c) \<and> cs_inited (cascade_start ev conf n c)"
  by (simp add: cascade_ok_def cascade_start_def)

lemma cascade_retune_ok: "cascade_ok c \<Longrightarrow> cascade_ok (cascade_retune c) \<and> cs_inited (cascade_retune c) = cs_inited c"
  by (simp add: cascade_ok_def cascade_retune_def Let_def)

lemma cascade_schedule_ok:
  assumes "cascade_ok c" "cs_inited c" "cascade_schedule drafted n c = (c', k)"
  shows "cascade_ok c'" "cs_inited c'" "k = n \<or> k = 1 \<or> k = 2"
proof -
  note r = cascade_retune_ok [OF assms(1)]
  then have "cs_cap (cascade_retune c) = 1 \<or> cs_cap (cascade_retune c) = 2"
    using assms(2) by (simp add: cascade_ok_def)
  then show "cascade_ok c'" "cs_inited c'" "k = n \<or> k = 1 \<or> k = 2"
    using assms r by (auto simp: cascade_schedule_def Let_def split: if_splits)
qed

lemma cascade_probed_ok:
  "cascade_ok c \<Longrightarrow> cascade_ok (cascade_probed k c)"
  "cs_inited (cascade_probed k c) = cs_inited c"
  by (simp_all add: cascade_ok_def cascade_probed_def)

lemma cascade_miss_ok: "cascade_ok c \<Longrightarrow> cascade_ok (cascade_miss k ms c)"
proof -
  assume "cascade_ok c"
  then have "cascade_ok (c\<lparr>cs_ewma_p0 := cs_ewma_p0 c * (3 / 4), cs_samples := x\<rparr>)" for x
    by (auto simp: cascade_ok_def)
  then show ?thesis
    by (auto simp: cascade_miss_def Let_def intro!: cascade_probed_ok) (simp_all add: cascade_ok_def)
qed

lemma cascade_commit_ok: "cascade_ok c \<Longrightarrow> cascade_ok (cascade_commit k m ms c)"
proof -
  assume c: "cascade_ok c"
  define c1 where "c1 = (if k \<ge> 2
    then c\<lparr>cs_ewma_p0 := 3 / 4 * cs_ewma_p0 c + 1 / 4,
           cs_ewma_p1 := 3 / 4 * cs_ewma_p1 c + 1 / 4 * (if m \<ge> 2 then 1 else 0),
           cs_ms_n3 := ewma_cost (cs_ms_n3 c) ms\<rparr>
    else c\<lparr>cs_ewma_p0 := 3 / 4 * cs_ewma_p0 c + 1 / 4, cs_ms_n2 := ewma_cost (cs_ms_n2 c) ms\<rparr>)"
  have "cascade_ok c1" using c by (auto simp: cascade_ok_def c1_def)
  then have "cascade_ok (cascade_probed k c1)" by (rule cascade_probed_ok)
  then have "cascade_ok ((cascade_probed k c1)\<lparr>cs_samples := x\<rparr>)" for x
    by (simp add: cascade_ok_def)
  moreover have "cascade_commit k m ms c = (if cs_adaptive c
      then (cascade_probed k c1)\<lparr>cs_samples := cs_samples (cascade_probed k c1) + 1\<rparr> else c)"
    unfolding cascade_commit_def c1_def Let_def by (cases "k \<ge> 2") simp_all
  ultimately show ?thesis using c by simp
qed

end
