(* ===== verification/Speculative.thy ===== *)
theory Speculative
  imports DSpark
begin

text \<open>
  Speculative greedy decoding of \<open>ds4.c\<close>: a cheap draft head proposes a few tokens, one batched
  forward pass of the target model verifies them, and only the verified prefix is committed.
  Modelled are the evaluation of one token (\<open>ds4_session_eval_internal\<close>), the verifier with its
  captured prefixes and the rollback, the DSpark round and the older chained loop
  (\<open>ds4_session_eval_speculative_argmax_seq\<close>) and the combined round of the legacy head
  (\<open>ds4_session_eval_speculative_argmax_combined\<close>).  The canonical path, the dispatcher and the decode
  loop are in \<open>SpecCanonical\<close>.

  The forward pass of the model is the parameter \<open>spec_model\<close>: the row of logits after a token
  sequence, by the one-token path and by the batched path, whose kernels differ.  The key/value
  caches and the compressor frontier of the device are modelled by the token sequence they stand
  for.  \<open>spec_io\<close> says for one call which device operations succeed, what the draft heads
  propose and what the clock reads.
\<close>

section \<open>Logits and the device graph\<close>

type_synonym logits = "real list"

fun argmax_from :: "int \<Rightarrow> int \<Rightarrow> real \<Rightarrow> logits \<Rightarrow> int" where
  "argmax_from i best best_v [] = best"
| "argmax_from i best best_v (v # vs) =
     (if v > best_v then argmax_from (i + 1) i v vs else argmax_from (i + 1) best best_v vs)"

definition sample_argmax :: "logits \<Rightarrow> int" where
  "sample_argmax logits = argmax_from 0 0 (- (10 ^ 30)) logits"

record spec_model =
  sm_target :: "int list \<Rightarrow> logits"
  sm_batch :: "int list \<Rightarrow> logits"

record spec_io =
  io_eval :: bool
  io_probe :: "int option"
  io_block :: "(nat \<Rightarrow> int) option"
  io_conf :: "nat \<Rightarrow> real"
  io_mtp :: "nat \<Rightarrow> int option"
  io_top :: "nat \<Rightarrow> bool"
  io_verify :: bool
  io_rollback :: bool
  io_read :: bool
  io_snapshot :: bool
  io_mtp_margin :: real
  io_head_conf :: "real option"
  io_frontier :: bool
  io_restore :: "nat \<Rightarrow> bool"
  io_torn :: "int list"
  io_decode2 :: bool
  io_replay :: "nat \<Rightarrow> bool"
  io_verify_again :: bool
  io_read_again :: bool
  io_seq :: "nat \<Rightarrow> bool"
  io_seq_read :: bool
  io_t0 :: real
  io_target_done :: real
  io_draft_done :: real
  io_verify_done :: real
  io_rollback_done :: real
  io_readback_done :: real

record spec_graph =
  gr_frontier :: "int list"
  gr_prefix1 :: "int list"
  gr_prefix2 :: "int list"
  gr_rows :: "logits list"
  gr_batch_hc :: "int list list"
  gr_cur_hc :: "int list"
  gr_has_prev_hc :: bool
  gr_prev_hc :: "int list"
  gr_mtp_n_raw :: nat

fun batch_rows :: "(int list \<Rightarrow> logits) \<Rightarrow> int list \<Rightarrow> int list \<Rightarrow> logits list" where
  "batch_rows f ctx [] = []"
| "batch_rows f ctx (t # ts) = f (ctx @ [t]) # batch_rows f (ctx @ [t]) ts"

fun batch_prefixes :: "int list \<Rightarrow> int list \<Rightarrow> int list list" where
  "batch_prefixes ctx [] = []"
| "batch_prefixes ctx (t # ts) = (ctx @ [t]) # batch_prefixes (ctx @ [t]) ts"

text \<open>
  The verifier runs \<open>n_tokens\<close> of the prompt from \<open>start\<close> in one pass.  It saves the frontier
  behind the first and behind the second row, each only when a row follows that could be
  rejected.  A failing pass may leave the device anywhere; the callers then invalidate the
  checkpoint.
\<close>

definition metal_graph_verify_suffix_tops ::
  "spec_model \<Rightarrow> spec_engine \<Rightarrow> bool \<Rightarrow> spec_graph \<Rightarrow> int list \<Rightarrow> nat \<Rightarrow> nat \<Rightarrow> bool
   \<Rightarrow> (spec_graph \<times> int list) option" where
  "metal_graph_verify_suffix_tops m e device g prompt start n_tokens capture_prefix1 =
     (if n_tokens = 0 \<or> n_tokens > en_prefill_cap e then None
      else if start > length prompt \<or> n_tokens > length prompt - start then None
      else if \<not> device then None
      else
        (let toks = take n_tokens (drop start prompt);
             base = gr_frontier g;
             rows = batch_rows (sm_batch m) base toks in
         Some
           (g\<lparr>gr_frontier := base @ toks,
              gr_prefix1 := (if capture_prefix1 \<and> n_tokens \<ge> 2 then base @ take 1 toks
                             else gr_prefix1 g),
              gr_prefix2 := (if capture_prefix1 \<and> n_tokens \<ge> 3 then base @ take 2 toks
                             else gr_prefix2 g),
              gr_rows := rows,
              gr_batch_hc := batch_prefixes base toks\<rparr>,
            map sample_argmax (butlast rows))))"

definition spec_frontier_commit_prefix1 :: "bool \<Rightarrow> spec_graph \<Rightarrow> spec_graph option" where
  "spec_frontier_commit_prefix1 device g =
     (if device then Some (g\<lparr>gr_frontier := gr_prefix1 g\<rparr>) else None)"

definition spec_frontier_commit_prefix2 :: "bool \<Rightarrow> spec_graph \<Rightarrow> spec_graph option" where
  "spec_frontier_commit_prefix2 device g =
     (if device then Some (g\<lparr>gr_frontier := gr_prefix2 g\<rparr>) else None)"

definition metal_graph_read_spec_logits_row ::
  "spec_engine \<Rightarrow> bool \<Rightarrow> spec_graph \<Rightarrow> nat \<Rightarrow> logits option" where
  "metal_graph_read_spec_logits_row e device g row =
     (if row \<ge> en_prefill_cap e \<or> \<not> device then None else Some (gr_rows g ! row))"

text \<open>One call of the legacy draft head.  The block is bound for the legacy kind only
  (\<open>mtp_weights_bind\<close>), so it fails for every other kind.\<close>

definition metal_graph_eval_mtp_draft_from_hc ::
  "spec_engine \<Rightarrow> int option \<Rightarrow> spec_graph \<Rightarrow> (spec_graph \<times> int) option" where
  "metal_graph_eval_mtp_draft_from_hc e device g =
     (if en_kind e \<noteq> DS4_MTP_DRAFT_LEGACY then None
      else
        (case device of
           None \<Rightarrow> None
         | Some mtp_top \<Rightarrow>
             Some (g\<lparr>gr_mtp_n_raw := (if gr_mtp_n_raw g < en_raw_window e then gr_mtp_n_raw g + 1
                                       else gr_mtp_n_raw g)\<rparr>, mtp_top)))"

text \<open>The chain of draft calls behind the first draft, at most \<open>left\<close> more.\<close>

fun draft_chain :: "spec_engine \<Rightarrow> spec_io \<Rightarrow> int \<Rightarrow> nat \<Rightarrow> nat \<Rightarrow> spec_graph \<Rightarrow> int list
    \<Rightarrow> spec_graph \<times> int list" where
  "draft_chain e io eos_token i 0 g drafts = (g, drafts)"
| "draft_chain e io eos_token i (Suc left) g drafts =
     (case metal_graph_eval_mtp_draft_from_hc e (io_mtp io i) g of
        None \<Rightarrow> (g, drafts)
      | Some (g, mtp_top) \<Rightarrow>
          if mtp_top = eos_token then (g, drafts @ [mtp_top])
          else draft_chain e io eos_token (i + 1) left g (drafts @ [mtp_top]))"

definition metal_graph_eval_mtp_draft_n_from_hc ::
  "spec_engine \<Rightarrow> spec_io \<Rightarrow> int \<Rightarrow> nat \<Rightarrow> int \<Rightarrow> spec_graph \<Rightarrow> spec_graph \<times> int list" where
  "metal_graph_eval_mtp_draft_n_from_hc e io draft0 n eos_token g =
     draft_chain e io eos_token 1 (n - 1) g [draft0]"

section \<open>The session\<close>

record spec_stats =
  st_attempts :: u64
  st_n2 :: u64
  st_n3 :: u64
  st_fallbacks :: u64
  st_drafted :: u64
  st_committed :: u64
  st_commit_hist :: "u64 list"
  st_ms :: real
  st_target_ms :: real
  st_draft_ms :: real
  st_verify_ms :: real
  st_readback_ms :: real
  st_rollback_ms :: real

record spec_session =
  ss_checkpoint :: "int list"
  ss_checkpoint_valid :: bool
  ss_logits :: logits
  ss_graph :: spec_graph
  ss_mtp_draft_token :: int
  ss_mtp_draft_valid :: bool
  ss_prev_hc_valid :: bool
  ss_cascade :: spec_cascade
  ss_adaptive :: dspark_adaptive
  ss_stats :: spec_stats

text \<open>\<open>SpecGap\<close> is the return value \<open>-2\<close>, \<open>SpecError\<close> is \<open>-1\<close> with its message, and
  \<open>SpecAccepted\<close> the count of accepted tokens with the array itself.\<close>

datatype spec_rc =
    SpecGap
  | SpecError string
  | SpecAccepted "int list"

definition spec_fail :: "spec_engine \<Rightarrow> string \<Rightarrow> spec_session \<Rightarrow> spec_session \<times> spec_rc" where
  "spec_fail e msg s = (s\<lparr>ss_checkpoint_valid := False\<rparr>, SpecError (en_backend_name e @ msg))"

text \<open>One token through the target model.  The draft probe is skipped when \<open>probe_mtp\<close> is off;
  its diagnostics are not modelled.\<close>

definition eval_probe :: "spec_engine \<Rightarrow> spec_io \<Rightarrow> bool \<Rightarrow> spec_session \<Rightarrow> spec_session" where
  "eval_probe e io probe_mtp s =
     (if probe_mtp \<and> en_mtp_ready e \<and> en_mtp_draft_tokens e > 1 then
        (case metal_graph_eval_mtp_draft_from_hc e (io_probe io) (ss_graph s) of
           None \<Rightarrow> s
         | Some (g, mtp_top) \<Rightarrow>
             s\<lparr>ss_graph := g, ss_mtp_draft_token := mtp_top, ss_mtp_draft_valid := True\<rparr>)
      else s)"

definition ds4_session_eval_internal ::
  "spec_model \<Rightarrow> spec_engine \<Rightarrow> bool \<Rightarrow> spec_io \<Rightarrow> spec_session \<Rightarrow> int \<Rightarrow> bool
   \<Rightarrow> (spec_session \<times> spec_rc) + spec_session" where
  "ds4_session_eval_internal m e batch_decode io s token probe_mtp =
     (let s = (if probe_mtp \<and> ss_mtp_draft_valid s then s\<lparr>ss_mtp_draft_valid := False\<rparr> else s);
          ckpt = ss_checkpoint s; g = ss_graph s in
      if batch_decode \<and> length ckpt \<ge> 1 \<and> int (length ckpt) + 1 < en_ctx_size e then
        (case metal_graph_verify_suffix_tops m e (io_eval io) g (ckpt @ [token]) (length ckpt) 1 False of
           None \<Rightarrow> Inl (spec_fail e '' batch decode failed'' s)
         | Some (g, _) \<Rightarrow>
             (case metal_graph_read_spec_logits_row e (io_read io) g 0 of
                None \<Rightarrow> Inl (spec_fail e '' batch decode failed'' s)
              | Some row \<Rightarrow>
                  Inr (eval_probe e io probe_mtp
                    (s\<lparr>ss_checkpoint := ckpt @ [token], ss_logits := row,
                       ss_graph := g\<lparr>gr_cur_hc := hd (gr_batch_hc g)\<rparr>\<rparr>))))
      else if \<not> io_eval io then Inl (spec_fail e '' decode failed'' s)
      else
        (let fr = gr_frontier g @ [token] in
         Inr (eval_probe e io probe_mtp
           (s\<lparr>ss_checkpoint := ckpt @ [token], ss_logits := sm_target m fr,
              ss_graph := g\<lparr>gr_frontier := fr, gr_cur_hc := fr\<rparr>\<rparr>))))"

text \<open>Saving the hidden state behind the last committed token for the next draft.\<close>

definition spec_argmax_snapshot_combined_prev_hc ::
  "spec_engine \<Rightarrow> spec_io \<Rightarrow> nat \<Rightarrow> spec_session \<Rightarrow> spec_session" where
  "spec_argmax_snapshot_combined_prev_hc e io row s =
     (if \<not> en_mtp_ready e \<or> \<not> gr_has_prev_hc (ss_graph s) then s
      else if io_snapshot io then
        s\<lparr>ss_graph := (ss_graph s)\<lparr>gr_prev_hc := gr_batch_hc (ss_graph s) ! row\<rparr>, ss_prev_hc_valid := True\<rparr>
      else s\<lparr>ss_prev_hc_valid := False\<rparr>)"

definition spec_argmax_bootstrap_combined_prev_hc ::
  "spec_engine \<Rightarrow> spec_io \<Rightarrow> spec_session \<Rightarrow> spec_session" where
  "spec_argmax_bootstrap_combined_prev_hc e io s =
     (if \<not> en_mtp_ready e \<or> \<not> gr_has_prev_hc (ss_graph s) then s
      else if io_snapshot io then
        s\<lparr>ss_graph := (ss_graph s)\<lparr>gr_prev_hc := gr_cur_hc (ss_graph s)\<rparr>, ss_prev_hc_valid := True\<rparr>
      else s\<lparr>ss_prev_hc_valid := False\<rparr>)"

text \<open>How many rows agree with the draft behind them.\<close>

fun matching :: "int list \<Rightarrow> int list \<Rightarrow> nat" where
  "matching (t # ts) (d # ds) = (if t = d then Suc (matching ts ds) else 0)"
| "matching _ _ = 0"

text \<open>Copying the committed drafts to the caller, up to its capacity and the end of the sequence.\<close>

fun append_accepted :: "int \<Rightarrow> nat \<Rightarrow> int list \<Rightarrow> int list" where
  "append_accepted eos_token 0 ds = []"
| "append_accepted eos_token (Suc room) [] = []"
| "append_accepted eos_token (Suc room) (d # ds) =
     d # (if d = eos_token then [] else append_accepted eos_token room ds)"

definition bump_hist :: "nat \<Rightarrow> u64 list \<Rightarrow> u64 list" where
  "bump_hist commit h = (if commit \<le> 2 then h[commit := h ! commit + 1] else h)"

section \<open>The DSpark round\<close>

definition dspark_verify_cap :: "spec_engine \<Rightarrow> spec_env \<Rightarrow> int" where
  "dspark_verify_cap e ev =
     (let cap = at_most 5 (if en_mtp_draft_tokens e > 0 then en_mtp_draft_tokens e else 2) in
      case ev_verify_max ev of
        None \<Rightarrow> cap
      | Some v \<Rightarrow> if v \<ge> 1 \<and> v \<le> 5 then v else cap)"

definition spec_budget :: "spec_engine \<Rightarrow> spec_session \<Rightarrow> int \<Rightarrow> int \<Rightarrow> int \<Rightarrow> int" where
  "spec_budget e s max_tokens accepted_cap draft_cap =
     at_most (en_ctx_size e - int (length (ss_checkpoint s)) - 1)
       (at_most (accepted_cap - 1) (at_most (max_tokens - 1) draft_cap))"

definition metal_graph_eval_dspark_draft_block ::
  "spec_engine \<Rightarrow> spec_io \<Rightarrow> int \<Rightarrow> int list" where
  "metal_graph_eval_dspark_draft_block e io max_drafts =
     (if en_kind e \<noteq> DS4_MTP_DRAFT_DSPARK \<or> max_drafts \<le> 0 then []
      else if en_dspark_block_size e = 0 \<or> en_dspark_block_size e > 5 \<or> en_markov_rank e = 0 then []
      else
        (case io_block io of
           None \<Rightarrow> []
         | Some ids \<Rightarrow> map ids [0..<nat (at_most (en_dspark_block_size e) max_drafts)]))"

definition dspark_miss ::
  "spec_engine \<Rightarrow> spec_io \<Rightarrow> int \<Rightarrow> spec_session \<Rightarrow> spec_session" where
  "dspark_miss e io scheduled s =
     (let miss_ms = (io_draft_done io - io_t0 io) * 1000; st = ss_stats s in
      s\<lparr>ss_checkpoint_valid := True, ss_mtp_draft_valid := False,
        ss_adaptive := ds4_session_note_dspark_commit e 0
          ((ss_adaptive s)\<lparr>da_confidence := -1, da_confidence_valid := True\<rparr>),
        ss_cascade := cascade_miss scheduled miss_ms (ss_cascade s),
        ss_stats := st\<lparr>st_fallbacks := st_fallbacks st + 1,
          st_commit_hist := bump_hist 0 (st_commit_hist st),
          st_drafted := st_drafted st + word_of_int scheduled,
          st_n2 := (if scheduled = 1 then st_n2 st + 1 else st_n2 st),
          st_n3 := (if scheduled = 1 then st_n3 st else st_n3 st + 1),
          st_draft_ms := st_draft_ms st + (io_draft_done io - io_target_done io) * 1000,
          st_target_ms := st_target_ms st + (io_target_done io - io_t0 io) * 1000,
          st_ms := st_ms st + miss_ms\<rparr>\<rparr>)"

definition dspark_commit_stats ::
  "spec_engine \<Rightarrow> spec_io \<Rightarrow> nat \<Rightarrow> nat \<Rightarrow> spec_session \<Rightarrow> spec_session" where
  "dspark_commit_stats e io scheduled commit s =
     (let iter_ms = (io_readback_done io - io_t0 io) * 1000; st = ss_stats s in
      s\<lparr>ss_checkpoint_valid := True, ss_mtp_draft_valid := False,
        ss_adaptive := ds4_session_note_dspark_commit e (int commit) (ss_adaptive s),
        ss_stats := st\<lparr>st_drafted := st_drafted st + of_nat scheduled,
          st_committed := st_committed st + of_nat commit,
          st_ms := st_ms st + iter_ms,
          st_target_ms := st_target_ms st + (io_target_done io - io_t0 io) * 1000,
          st_draft_ms := st_draft_ms st + (io_draft_done io - io_target_done io) * 1000,
          st_verify_ms := st_verify_ms st + (io_verify_done io - io_draft_done io) * 1000,
          st_rollback_ms := st_rollback_ms st + (io_rollback_done io - io_verify_done io) * 1000,
          st_readback_ms := st_readback_ms st + (io_readback_done io - io_rollback_done io) * 1000,
          st_n2 := (if scheduled = 1 then st_n2 st + 1 else st_n2 st),
          st_n3 := (if scheduled = 1 then st_n3 st else st_n3 st + 1),
          st_commit_hist := bump_hist commit (st_commit_hist st)\<rparr>,
        ss_cascade := cascade_commit (int scheduled) (int commit) iter_ms (ss_cascade s)\<rparr>)"

text \<open>Taking the frontier back to the committed prefix; no prefix behind the second is saved.\<close>

definition dspark_rollback :: "spec_io \<Rightarrow> nat \<Rightarrow> nat \<Rightarrow> spec_graph \<Rightarrow> spec_graph option" where
  "dspark_rollback io commit scheduled g =
     (if commit < scheduled then
        if commit = 1 then spec_frontier_commit_prefix1 (io_rollback io) g
        else if commit = 2 then spec_frontier_commit_prefix2 (io_rollback io) g
        else None
      else Some g)"

definition dspark_commit :: "int list \<Rightarrow> int list \<Rightarrow> nat \<Rightarrow> nat" where
  "dspark_commit row_tops drafts scheduled =
     (let commit = 1 + matching row_tops (tl (take scheduled drafts)) in
      if commit < scheduled \<and> commit > 2 then 2 else commit)"

definition dspark_verify ::
  "spec_model \<Rightarrow> spec_engine \<Rightarrow> spec_io \<Rightarrow> spec_session \<Rightarrow> int \<Rightarrow> int list \<Rightarrow> nat \<Rightarrow> int \<Rightarrow> int
   \<Rightarrow> spec_session \<times> spec_rc" where
  "dspark_verify m e io s first_token drafts scheduled accepted_cap eos_token =
     (let start = length (ss_checkpoint s);
          pushed = ss_checkpoint s @ take scheduled drafts in
      case metal_graph_verify_suffix_tops m e (io_verify io) (ss_graph s) pushed start scheduled True of
        None \<Rightarrow> spec_fail e '' DSpark verify failed'' s
      | Some (g, row_tops) \<Rightarrow>
          (let commit = dspark_commit row_tops drafts scheduled;
               s = s\<lparr>ss_graph := g, ss_checkpoint := take (start + commit) pushed\<rparr> in
           case dspark_rollback io commit scheduled g of
             None \<Rightarrow> spec_fail e '' DSpark prefix rollback failed'' s
           | Some g \<Rightarrow>
               (let s = s\<lparr>ss_graph := g\<rparr> in
                case metal_graph_read_spec_logits_row e (io_read io) g (commit - 1) of
                  None \<Rightarrow> spec_fail e '' DSpark logits readback failed'' s
                | Some row \<Rightarrow>
                    (dspark_commit_stats e io scheduled commit
                       (spec_argmax_snapshot_combined_prev_hc e io (commit - 1)
                         (s\<lparr>ss_logits := row\<rparr>)),
                     SpecAccepted (first_token #
                       append_accepted eos_token (nat (accepted_cap - 1)) (take commit drafts))))))"

definition dspark_drafted ::
  "spec_model \<Rightarrow> spec_engine \<Rightarrow> spec_env \<Rightarrow> spec_io \<Rightarrow> spec_session \<Rightarrow> int \<Rightarrow> int list \<Rightarrow> int \<Rightarrow> int
   \<Rightarrow> spec_session \<times> spec_rc" where
  "dspark_drafted m e ev io s first_token drafts accepted_cap eos_token =
     (let drafted = int (length drafts);
          confidence = map (io_conf io) [0..<length drafts];
          s = s\<lparr>ss_adaptive := (ss_adaptive s)\<lparr>da_confidence := confidence ! 0,
                                              da_confidence_valid := True\<rparr>\<rparr>;
          scheduled0 = ds4_dspark_confidence_schedule_prefix confidence drafted drafted (1 / 2) in
      if scheduled0 \<le> 0 then (s, SpecAccepted [first_token])
      else
        (let (c, scheduled1) =
               cascade_schedule drafted scheduled0
                 (cascade_start ev confidence drafted (ss_cascade s));
             scheduled2 = (if ev_force_schedule_all ev \<and> length (ss_checkpoint s) < 32768
                           then drafted else scheduled1);
             scheduled = at_most 5 (at_most drafted scheduled2);
             s = s\<lparr>ss_cascade := c\<rparr> in
         if sample_argmax (ss_logits s) \<noteq> hd drafts
         then (dspark_miss e io scheduled s, SpecAccepted [first_token])
         else dspark_verify m e io s first_token drafts (nat scheduled) accepted_cap eos_token))"

definition argmax_seq_dspark ::
  "spec_model \<Rightarrow> spec_engine \<Rightarrow> spec_env \<Rightarrow> bool \<Rightarrow> spec_io \<Rightarrow> spec_session \<Rightarrow> int \<Rightarrow> int \<Rightarrow> int \<Rightarrow> int
   \<Rightarrow> spec_session \<times> spec_rc" where
  "argmax_seq_dspark m e ev batch_decode io s first_token max_tokens eos_token accepted_cap =
     (let (a, cap) = ds4_session_dspark_draft_cap e ev (ss_adaptive s);
          s = s\<lparr>ss_stats := (ss_stats s)\<lparr>st_attempts := st_attempts (ss_stats s) + 1\<rparr>,
                ss_adaptive := a\<rparr>;
          draft_cap = spec_budget e s max_tokens accepted_cap (at_most (dspark_verify_cap e ev) cap) in
      if draft_cap \<le> 0 then (s, SpecGap)
      else
        (case ds4_session_eval_internal m e batch_decode io s first_token False of
           Inl failed \<Rightarrow> failed
         | Inr s \<Rightarrow>
             if first_token = eos_token \<or> max_tokens = 1 \<or> accepted_cap \<le> 1
             then (s, SpecAccepted [first_token])
             else
               (let drafts = metal_graph_eval_dspark_draft_block e io draft_cap in
                if drafts = [] then (s, SpecAccepted [first_token])
                else dspark_drafted m e ev io s first_token drafts accepted_cap eos_token)))"

section \<open>The chained loop of the other heads\<close>

text \<open>
  \<open>metal_graph_eval_token_raw_swa_top\<close> returns true on success; the device has then absorbed the
  token.  The loop at lines 32676 to 32740 tests the result for being nonzero and takes that as
  a failure; a failed call leaves the top token at -1 (a failure behind the read-back of the top
  token is not modelled).
\<close>

definition metal_graph_eval_token_raw_swa_top ::
  "spec_model \<Rightarrow> bool \<Rightarrow> int \<Rightarrow> spec_graph \<Rightarrow> (spec_graph \<times> int \<times> logits) option" where
  "metal_graph_eval_token_raw_swa_top m device token g =
     (if device then
        (let fr = gr_frontier g @ [token] in
         Some (g\<lparr>gr_frontier := fr, gr_cur_hc := fr\<rparr>, sample_argmax (sm_target m fr), sm_target m fr))
      else None)"

fun argmax_seq_loop ::
  "spec_model \<Rightarrow> spec_engine \<Rightarrow> spec_io \<Rightarrow> int \<Rightarrow> int \<Rightarrow> nat \<Rightarrow> nat \<Rightarrow> spec_session \<Rightarrow> int list
   \<Rightarrow> spec_session \<times> spec_rc" where
  "argmax_seq_loop m e io eos_token accepted_cap i 0 s accepted =
     (s\<lparr>ss_checkpoint_valid := True, ss_mtp_draft_valid := False\<rparr>, SpecAccepted accepted)"
| "argmax_seq_loop m e io eos_token accepted_cap i (Suc left) s accepted =
     (case metal_graph_eval_mtp_draft_from_hc e (io_mtp io i) (ss_graph s) of
        None \<Rightarrow>
          if i = 0 then (s, SpecGap)
          else (s\<lparr>ss_checkpoint_valid := True, ss_mtp_draft_valid := False\<rparr>, SpecAccepted accepted)
      | Some (g, draft_top) \<Rightarrow>
          (let s = s\<lparr>ss_graph := g\<rparr> in
           case metal_graph_eval_token_raw_swa_top m (io_top io i) draft_top g of
             Some (g, target_top, row) \<Rightarrow>
               spec_fail e '' decode failed'' (s\<lparr>ss_graph := g, ss_logits := row\<rparr>)
           | None \<Rightarrow>
               (let target_top = -1;
                    s = s\<lparr>ss_checkpoint_valid := True, ss_mtp_draft_valid := False\<rparr> in
                if target_top \<noteq> draft_top then
                  (s\<lparr>ss_checkpoint := ss_checkpoint s @ [target_top]\<rparr>,
                   SpecAccepted (accepted @ [target_top]))
                else
                  (let s = s\<lparr>ss_checkpoint := ss_checkpoint s @ [draft_top]\<rparr>;
                       accepted = accepted @ [draft_top] in
                   if draft_top = eos_token \<or> int (length accepted) \<ge> accepted_cap
                   then (s, SpecAccepted accepted)
                   else argmax_seq_loop m e io eos_token accepted_cap (i + 1) left s accepted))))"

definition argmax_seq_chained ::
  "spec_model \<Rightarrow> spec_engine \<Rightarrow> spec_env \<Rightarrow> bool \<Rightarrow> spec_io \<Rightarrow> spec_session \<Rightarrow> int \<Rightarrow> int \<Rightarrow> int \<Rightarrow> int
   \<Rightarrow> spec_session \<times> spec_rc" where
  "argmax_seq_chained m e ev batch_decode io s first_token max_tokens eos_token accepted_cap =
     (let (a, cap) = (if en_dspark_ready e then ds4_session_dspark_draft_cap e ev (ss_adaptive s)
                      else (ss_adaptive s, en_mtp_draft_tokens e));
          s = s\<lparr>ss_adaptive := a\<rparr>;
          draft_cap = spec_budget e s max_tokens accepted_cap cap in
      if cap \<le> 1 \<or> draft_cap \<le> 0 then (s, SpecGap)
      else
        (case ds4_session_eval_internal m e batch_decode io s first_token True of
           Inl failed \<Rightarrow> failed
         | Inr s \<Rightarrow>
             (let s = spec_argmax_bootstrap_combined_prev_hc e io s in
              if first_token = eos_token \<or> max_tokens = 1 \<or> accepted_cap \<le> 1
              then (s, SpecAccepted [first_token])
              else
                argmax_seq_loop m e io eos_token accepted_cap 0 (nat draft_cap) s [first_token])))"

definition ds4_session_eval_speculative_argmax_seq ::
  "spec_model \<Rightarrow> spec_engine \<Rightarrow> spec_env \<Rightarrow> bool \<Rightarrow> spec_io \<Rightarrow> spec_session \<Rightarrow> int \<Rightarrow> int \<Rightarrow> int \<Rightarrow> int
   \<Rightarrow> spec_session \<times> spec_rc" where
  "ds4_session_eval_speculative_argmax_seq m e ev batch_decode io s first_token max_tokens eos_token accepted_cap =
     (if en_dspark_ready e \<and> en_kind e = DS4_MTP_DRAFT_DSPARK
      then argmax_seq_dspark m e ev batch_decode io s first_token max_tokens eos_token accepted_cap
      else argmax_seq_chained m e ev batch_decode io s first_token max_tokens eos_token accepted_cap)"

section \<open>The combined round of the legacy head\<close>

text \<open>
  One batched pass over the normal token and one or two drafts.  The depth controller
  (lines 31056 to 31102) and its bookkeeping (lines 31259 to 31283).
\<close>

definition combined_start :: "spec_env \<Rightarrow> spec_cascade \<Rightarrow> spec_cascade" where
  "combined_start ev c =
     (if cs_inited c then c
      else c\<lparr>cs_adaptive := ev_cascade_adaptive ev \<or> ev_dspark_adaptive ev, cs_cap := 2,
             cs_ewma_p0 := 1, cs_ewma_p1 := 1, cs_probe_n := 4, cs_since_probe := 0,
             cs_inited := True\<rparr>)"

definition combined_retune :: "spec_cascade \<Rightarrow> spec_cascade" where
  "combined_retune c =
     (if cs_ms_n2 c > 0 \<and> cs_ms_n3 c > 0 then
        (let n2_rate = (1 + cs_ewma_p0 c) / cs_ms_n2 c;
             n3_rate = (1 + cs_ewma_p0 c + cs_ewma_p0 c * cs_ewma_p1 c) / cs_ms_n3 c in
         if cs_cap c = 2 then (if n3_rate < n2_rate * (97 / 100) then c\<lparr>cs_cap := 1\<rparr> else c)
         else if n3_rate > n2_rate * (103 / 100) then c\<lparr>cs_cap := 2\<rparr>
         else c)
      else c)"

definition combined_depth :: "spec_env \<Rightarrow> spec_cascade \<Rightarrow> spec_cascade \<times> int" where
  "combined_depth ev c =
     (if ev_no_cascade ev then (c, 1)
      else
        (let c = combined_start ev c in
         if cs_adaptive c then
           (let c = combined_retune c in
            if cs_probe_n c > 0 \<or> cs_since_probe c \<ge> 32 then (c, 2) else (c, cs_cap c))
         else (c, 2)))"

definition combined_observe :: "nat \<Rightarrow> nat \<Rightarrow> real \<Rightarrow> spec_cascade \<Rightarrow> spec_cascade" where
  "combined_observe draft_n commit combined_ms c =
     (if cs_adaptive c then
        (let c = c\<lparr>cs_ewma_p0 := 3 / 4 * cs_ewma_p0 c + 1 / 4 * (if commit \<ge> 1 then 1 else 0)\<rparr>;
             c = (if draft_n \<ge> 2 \<and> commit \<ge> 1
                  then c\<lparr>cs_ewma_p1 := 3 / 4 * cs_ewma_p1 c + 1 / 4 * (if commit \<ge> 2 then 1 else 0)\<rparr>
                  else c);
             c = (if draft_n \<ge> 2 then c\<lparr>cs_ms_n3 := ewma_cost (cs_ms_n3 c) combined_ms\<rparr>
                  else c\<lparr>cs_ms_n2 := ewma_cost (cs_ms_n2 c) combined_ms\<rparr>);
             c = c\<lparr>cs_samples := cs_samples c + 1\<rparr> in
         cascade_probed (int draft_n) c)
      else c)"

text \<open>The clock of the draft phase is read before the start of the round (lines 31103 and 31114),
  so \<open>io_draft_done\<close> is the earlier of the two here.\<close>

definition combined_stats ::
  "spec_engine \<Rightarrow> spec_io \<Rightarrow> nat \<Rightarrow> nat \<Rightarrow> nat \<Rightarrow> spec_session \<Rightarrow> spec_session" where
  "combined_stats e io mtp_base_raw draft_n commit s =
     (let combined_ms = (io_readback_done io - io_t0 io) * 1000; st = ss_stats s in
      s\<lparr>ss_adaptive := ds4_session_note_dspark_commit e (int commit) (ss_adaptive s),
        ss_stats := st\<lparr>st_drafted := st_drafted st + of_nat draft_n,
          st_committed := st_committed st + of_nat commit,
          st_ms := st_ms st + combined_ms,
          st_draft_ms := st_draft_ms st + (io_draft_done io - io_t0 io) * 1000,
          st_verify_ms := st_verify_ms st + (io_verify_done io - io_draft_done io) * 1000,
          st_rollback_ms := st_rollback_ms st + (io_rollback_done io - io_verify_done io) * 1000,
          st_readback_ms := st_readback_ms st + (io_readback_done io - io_rollback_done io) * 1000,
          st_n2 := (if draft_n = 1 then st_n2 st + 1 else st_n2 st),
          st_n3 := (if draft_n = 1 then st_n3 st else st_n3 st + 1),
          st_commit_hist := bump_hist commit (st_commit_hist st)\<rparr>,
        ss_checkpoint_valid := True,
        ss_graph := (ss_graph s)\<lparr>gr_mtp_n_raw :=
          (if mtp_base_raw + commit > en_raw_window e then en_raw_window e
           else mtp_base_raw + commit)\<rparr>,
        ss_cascade := combined_observe draft_n commit combined_ms (ss_cascade s)\<rparr>)"

definition combined_rollback :: "spec_io \<Rightarrow> nat \<Rightarrow> nat \<Rightarrow> spec_graph \<Rightarrow> spec_graph option" where
  "combined_rollback io commit draft_n g =
     (if commit < draft_n then
        if commit = 0 then spec_frontier_commit_prefix1 (io_rollback io) g
        else if commit = 1 then spec_frontier_commit_prefix2 (io_rollback io) g
        else None
      else Some g)"

definition combined_verify ::
  "spec_model \<Rightarrow> spec_engine \<Rightarrow> spec_io \<Rightarrow> spec_session \<Rightarrow> int \<Rightarrow> int list \<Rightarrow> nat \<Rightarrow> int \<Rightarrow> int
   \<Rightarrow> spec_session \<times> spec_rc" where
  "combined_verify m e io s first_token drafts mtp_base_raw accepted_cap eos_token =
     (let draft_n = length drafts;
          start = length (ss_checkpoint s);
          pushed = ss_checkpoint s @ first_token # drafts in
      case metal_graph_verify_suffix_tops m e (io_verify io) (ss_graph s) pushed start (draft_n + 1) True of
        None \<Rightarrow> spec_fail e '' combined-forward failed'' s
      | Some (g, row_tops) \<Rightarrow>
          (let commit = matching row_tops drafts;
               s = s\<lparr>ss_graph := g, ss_checkpoint := take (start + 1 + commit) pushed\<rparr> in
           case combined_rollback io commit draft_n g of
             None \<Rightarrow> spec_fail e '' prefix commit failed'' s
           | Some g \<Rightarrow>
               (let s = s\<lparr>ss_graph := g\<rparr> in
                case metal_graph_read_spec_logits_row e (io_read io) g commit of
                  None \<Rightarrow> spec_fail e '' combined logits readback failed'' s
                | Some row \<Rightarrow>
                    (combined_stats e io mtp_base_raw draft_n commit
                       (spec_argmax_snapshot_combined_prev_hc e io commit (s\<lparr>ss_logits := row\<rparr>)),
                     SpecAccepted (first_token #
                       append_accepted eos_token (nat (accepted_cap - 1)) (take commit drafts))))))"

definition ds4_session_eval_speculative_argmax_combined ::
  "spec_model \<Rightarrow> spec_engine \<Rightarrow> spec_env \<Rightarrow> spec_io \<Rightarrow> spec_session \<Rightarrow> int \<Rightarrow> int \<Rightarrow> int \<Rightarrow> int
   \<Rightarrow> spec_session \<times> spec_rc" where
  "ds4_session_eval_speculative_argmax_combined m e ev io s first_token max_tokens eos_token accepted_cap =
     (if \<not> ss_prev_hc_valid s \<or> \<not> gr_has_prev_hc (ss_graph s) then (s, SpecGap)
      else
        (let (c, depth) = combined_depth ev (ss_cascade s);
             s = s\<lparr>ss_cascade := c\<rparr>;
             draft_cap = spec_budget e s max_tokens accepted_cap depth;
             mtp_base_raw = gr_mtp_n_raw (ss_graph s) in
         if draft_cap < 1 then (s, SpecGap)
         else
           (case metal_graph_eval_mtp_draft_from_hc e (io_mtp io 0) (ss_graph s) of
              None \<Rightarrow> (s, SpecGap)
            | Some (g, draft0) \<Rightarrow>
                if draft0 < 0 then (s\<lparr>ss_graph := g\<rparr>, SpecGap)
                else
                  (let (g, drafts) =
                         (if draft_cap > 1
                          then metal_graph_eval_mtp_draft_n_from_hc e io draft0 (nat draft_cap) eos_token g
                          else (g, [draft0]));
                       s = s\<lparr>ss_graph := g, ss_prev_hc_valid := False, ss_mtp_draft_valid := False\<rparr> in
                   combined_verify m e io s first_token drafts mtp_base_raw accepted_cap eos_token))))"

end
