(* ===== verification/SpecCanonical.thy ===== *)
theory SpecCanonical
  imports Speculative
begin

text \<open>
  The canonical path of \<open>ds4_session_eval_speculative_argmax\<close> of \<open>ds4.c\<close>: the normal token, the drafts
  of the legacy head behind it, and the verifiers of the drafts: the margin skip, the exact verifier of
  strict mode, the batched verifier with its replays, and the sequential fallback.  Then the dispatcher
  over all rounds and the decode loop of \<open>ds4_cli.c\<close>.
\<close>

section \<open>The frontier of the device\<close>

text \<open>
  \<open>spec_frontier_snapshot\<close> keeps the state a restore needs.  A failing restore has copied a part
  of it: the device is then anywhere, \<open>io_torn\<close>.
\<close>

definition spec_frontier_snapshot :: "spec_io \<Rightarrow> spec_graph \<Rightarrow> (int list \<times> nat) option" where
  "spec_frontier_snapshot io g =
     (if io_frontier io then Some (gr_frontier g, gr_mtp_n_raw g) else None)"

definition spec_frontier_restore ::
  "spec_io \<Rightarrow> nat \<Rightarrow> int list \<times> nat \<Rightarrow> spec_graph \<Rightarrow> spec_graph \<times> bool" where
  "spec_frontier_restore io k f g =
     (g\<lparr>gr_frontier := (if io_restore io k then fst f else io_torn io), gr_mtp_n_raw := snd f\<rparr>,
      io_restore io k)"

definition keep_accepted :: "spec_engine \<Rightarrow> nat \<Rightarrow> nat \<Rightarrow> spec_session \<Rightarrow> spec_session" where
  "keep_accepted e mtp_base_raw n s =
     (let keep = mtp_base_raw + n in
      s\<lparr>ss_graph := (ss_graph s)\<lparr>gr_mtp_n_raw :=
          (if keep > en_raw_window e then en_raw_window e else keep)\<rparr>\<rparr>)"

text \<open>The end of every verifier that commits \<open>ds\<close> with the logits \<open>row\<close> behind them.\<close>

definition canonical_commit ::
  "spec_engine \<Rightarrow> nat \<Rightarrow> nat \<Rightarrow> int list \<Rightarrow> logits \<Rightarrow> spec_session \<Rightarrow> spec_session" where
  "canonical_commit e mtp_base_raw start ds row s =
     keep_accepted e mtp_base_raw (length ds)
       (s\<lparr>ss_checkpoint := take start (ss_checkpoint s) @ ds, ss_logits := row,
          ss_checkpoint_valid := True, ss_mtp_draft_valid := False\<rparr>)"

text \<open>One token by the kernels of the one-token path, without reading the logits.\<close>

definition feed_token :: "int \<Rightarrow> spec_session \<Rightarrow> spec_session" where
  "feed_token token s =
     (let fr = gr_frontier (ss_graph s) @ [token] in
      s\<lparr>ss_graph := (ss_graph s)\<lparr>gr_frontier := fr, gr_cur_hc := fr\<rparr>\<rparr>)"

section \<open>The sequential fallback\<close>

text \<open>The result: the session, the top token, the accepted drafts, or \<open>None\<close> for a failed evaluation.\<close>

fun sequential_loop ::
  "spec_model \<Rightarrow> spec_io \<Rightarrow> int \<Rightarrow> nat \<Rightarrow> nat \<Rightarrow> int \<Rightarrow> int list \<Rightarrow> spec_session
   \<Rightarrow> spec_session \<times> int list option" where
  "sequential_loop m io eos_token i 0 target_top ds s = (s, Some [])"
| "sequential_loop m io eos_token i (Suc room) target_top [] s = (s, Some [])"
| "sequential_loop m io eos_token i (Suc room) target_top (d # ds) s =
     (if target_top \<noteq> d then (s, Some [])
      else if \<not> io_seq io i then (s, None)
      else
        (let s = feed_token d s;
             s = s\<lparr>ss_checkpoint := ss_checkpoint s @ [d]\<rparr> in
         if d = eos_token then (s, Some [d])
         else
           (case sequential_loop m io eos_token (i + 1) room
                   (sample_argmax (sm_target m (gr_frontier (ss_graph s)))) ds s of
              (s, rest) \<Rightarrow> (s, map_option (\<lambda>ds. d # ds) rest))))"

definition canonical_sequential ::
  "spec_model \<Rightarrow> spec_engine \<Rightarrow> spec_io \<Rightarrow> spec_session \<Rightarrow> int \<Rightarrow> int list \<Rightarrow> nat \<Rightarrow> int \<Rightarrow> int
   \<Rightarrow> spec_session \<times> spec_rc" where
  "canonical_sequential m e io s first_token drafts mtp_base_raw accepted_cap eos_token =
     (case sequential_loop m io eos_token 0 (nat (accepted_cap - 1)) (sample_argmax (ss_logits s)) drafts s of
        (s, None) \<Rightarrow> spec_fail e '' decode failed'' s
      | (s, Some verified) \<Rightarrow>
          if verified \<noteq> [] \<and> \<not> io_seq_read io then spec_fail e '' logits readback failed'' s
          else
            (let s = (if verified \<noteq> []
                      then s\<lparr>ss_logits := sm_target m (gr_frontier (ss_graph s))\<rparr> else s);
                 s = keep_accepted e mtp_base_raw (length verified) s in
             (s\<lparr>ss_adaptive := ds4_session_note_dspark_commit e (int (length verified)) (ss_adaptive s)\<rparr>,
              SpecAccepted (first_token # verified))))"

section \<open>The margin skip and the exact verifier\<close>

definition canonical_margin_skip ::
  "spec_model \<Rightarrow> spec_engine \<Rightarrow> spec_io \<Rightarrow> spec_session \<Rightarrow> int \<Rightarrow> int list \<Rightarrow> nat \<Rightarrow> spec_session \<times> spec_rc" where
  "canonical_margin_skip m e io s first_token drafts mtp_base_raw =
     (if \<not> io_seq io 0 then spec_fail e '' decode failed'' s
      else
        (let start = length (ss_checkpoint s); s = feed_token (hd drafts) s in
         (canonical_commit e mtp_base_raw start [hd drafts] (sm_target m (gr_frontier (ss_graph s))) s,
          SpecAccepted [first_token, hd drafts])))"

text \<open>
  Two drafts through the kernels of the one-token path, with the frontier behind the first captured;
  the hidden rows it leaves are not read.
\<close>

definition metal_graph_verify_decode2_exact ::
  "spec_model \<Rightarrow> bool \<Rightarrow> int \<Rightarrow> int \<Rightarrow> spec_graph \<Rightarrow> (spec_graph \<times> logits \<times> logits) option" where
  "metal_graph_verify_decode2_exact m device token0 token1 g =
     (if device then
        (let fr0 = gr_frontier g @ [token0]; fr1 = fr0 @ [token1] in
         Some (g\<lparr>gr_frontier := fr1, gr_prefix1 := fr0\<rparr>, sm_target m fr0, sm_target m fr1))
      else None)"

definition canonical_decode2 ::
  "spec_model \<Rightarrow> spec_engine \<Rightarrow> spec_io \<Rightarrow> spec_session \<Rightarrow> int \<Rightarrow> int list \<Rightarrow> nat \<Rightarrow> int \<Rightarrow> int
   \<Rightarrow> spec_session \<times> spec_rc" where
  "canonical_decode2 m e io s first_token drafts mtp_base_raw accepted_cap eos_token =
     (let d0 = drafts ! 0; d1 = drafts ! 1; start = length (ss_checkpoint s);
          fall_back = (\<lambda>s. canonical_sequential m e io s first_token drafts mtp_base_raw accepted_cap eos_token) in
      case spec_frontier_snapshot io (ss_graph s) of
        None \<Rightarrow> fall_back s
      | Some f \<Rightarrow>
          (let restore = (\<lambda>s. s\<lparr>ss_graph := fst (spec_frontier_restore io 2 f (ss_graph s))\<rparr>) in
           case metal_graph_verify_decode2_exact m (io_decode2 io) d0 d1 (ss_graph s) of
             None \<Rightarrow> fall_back (restore s)
           | Some (g, row0, row1) \<Rightarrow>
               if sample_argmax row0 = d1 then
                 (canonical_commit e mtp_base_raw start [d0, d1] row1 (s\<lparr>ss_graph := g\<rparr>),
                  SpecAccepted ([first_token, d0] @ (if 2 < accepted_cap then [d1] else [])))
               else
                 (case spec_frontier_commit_prefix1 (io_rollback io) g of
                    Some g \<Rightarrow>
                      (canonical_commit e mtp_base_raw start [d0] row0 (s\<lparr>ss_graph := g\<rparr>),
                       SpecAccepted [first_token, d0])
                  | None \<Rightarrow> fall_back (restore (s\<lparr>ss_graph := g\<rparr>)))))"

section \<open>The batched verifier\<close>

text \<open>Replaying the committed drafts one by one, for \<open>DS4_MTP_EXACT_REPLAY\<close>; the flag tells whether all
  of them succeeded.\<close>

fun replay_loop :: "spec_io \<Rightarrow> nat \<Rightarrow> int list \<Rightarrow> spec_session \<Rightarrow> spec_session \<times> bool" where
  "replay_loop io i [] s = (s, True)"
| "replay_loop io i (d # ds) s =
     (if \<not> io_replay io i then (s, False)
      else
        (let s = feed_token d s in
         replay_loop io (i + 1) ds (s\<lparr>ss_checkpoint := ss_checkpoint s @ [d]\<rparr>)))"

definition accepted_drafts :: "int \<Rightarrow> int \<Rightarrow> int \<Rightarrow> int list \<Rightarrow> spec_rc" where
  "accepted_drafts first_token accepted_cap eos_token ds =
     SpecAccepted (first_token # append_accepted eos_token (nat (accepted_cap - 1)) ds)"

text \<open>The end of a failed batched verifier: the checkpoint is cut, the device restored when its frontier
  was saved, and the drafts are verified one by one; else the call fails.\<close>

definition micro_failed ::
  "spec_model \<Rightarrow> spec_engine \<Rightarrow> spec_io \<Rightarrow> spec_session \<Rightarrow> int \<Rightarrow> int list \<Rightarrow> nat \<Rightarrow> nat \<Rightarrow> int \<Rightarrow> int
   \<Rightarrow> (int list \<times> nat) option \<Rightarrow> spec_session \<times> spec_rc" where
  "micro_failed m e io s first_token drafts start mtp_base_raw accepted_cap eos_token saved =
     (let s = s\<lparr>ss_checkpoint := take start (ss_checkpoint s)\<rparr> in
      case saved of
        None \<Rightarrow>
          (keep_accepted e mtp_base_raw 0 (s\<lparr>ss_checkpoint_valid := False\<rparr>), SpecError ''MTP verifier failed'')
      | Some f \<Rightarrow>
          canonical_sequential m e io
            (s\<lparr>ss_graph := fst (spec_frontier_restore io 2 f (ss_graph s))\<rparr>)
            first_token drafts mtp_base_raw accepted_cap eos_token)"

text \<open>A part of the drafts is kept: two drafts take the captured prefix, more restore the frontier and run
  the kept ones through the batched pass again.  The replay of one token at lines 32064 to 32096 stands
  behind a branch that has already returned or failed, and is never reached.\<close>

definition micro_partial ::
  "spec_model \<Rightarrow> spec_engine \<Rightarrow> spec_io \<Rightarrow> spec_session \<Rightarrow> int \<Rightarrow> int list \<Rightarrow> nat \<Rightarrow> nat \<Rightarrow> nat \<Rightarrow> int \<Rightarrow> int
   \<Rightarrow> (int list \<times> nat) option \<Rightarrow> spec_session \<times> spec_rc" where
  "micro_partial m e io s first_token drafts commit start mtp_base_raw accepted_cap eos_token saved =
     (let failed = (\<lambda>s. micro_failed m e io s first_token drafts start mtp_base_raw accepted_cap eos_token saved);
          s = s\<lparr>ss_checkpoint := take start (ss_checkpoint s)\<rparr> in
      if length drafts = 2 \<and> commit = 1 then
        (case spec_frontier_commit_prefix1 (io_rollback io) (ss_graph s) of
           None \<Rightarrow> failed s
         | Some g \<Rightarrow>
             (let s = s\<lparr>ss_graph := g\<rparr> in
              case metal_graph_read_spec_logits_row e (io_read io) g 0 of
                None \<Rightarrow> failed s
              | Some row \<Rightarrow>
                  (spec_argmax_snapshot_combined_prev_hc e io 0
                     (canonical_commit e mtp_base_raw start [hd drafts] row s),
                   SpecAccepted [first_token, hd drafts])))
      else
        (case saved of
           None \<Rightarrow> failed s
         | Some f \<Rightarrow>
             (let (g, ok) = spec_frontier_restore io 1 f (ss_graph s); s = s\<lparr>ss_graph := g\<rparr>;
                  kept = take commit drafts; pushed = ss_checkpoint s @ kept in
              if \<not> ok then failed s
              else
                (case metal_graph_verify_suffix_tops m e (io_verify_again io) g pushed start commit False of
                   None \<Rightarrow> failed (s\<lparr>ss_checkpoint := pushed\<rparr>)
                 | Some (g, _) \<Rightarrow>
                     (let s = s\<lparr>ss_graph := g, ss_checkpoint := pushed\<rparr> in
                      case metal_graph_read_spec_logits_row e (io_read_again io) g (commit - 1) of
                        None \<Rightarrow> failed s
                      | Some row \<Rightarrow>
                          (canonical_commit e mtp_base_raw start kept row s,
                           accepted_drafts first_token accepted_cap eos_token kept))))))"

text \<open>Behind the batched pass and the replay of the debug switch.  A full acceptance whose row cannot be
  read goes on as a partial one.\<close>

definition micro_verified ::
  "spec_model \<Rightarrow> spec_engine \<Rightarrow> spec_io \<Rightarrow> spec_session \<Rightarrow> int \<Rightarrow> int list \<Rightarrow> nat \<Rightarrow> nat \<Rightarrow> nat \<Rightarrow> int \<Rightarrow> int
   \<Rightarrow> (int list \<times> nat) option \<Rightarrow> spec_session \<times> spec_rc" where
  "micro_verified m e io s first_token drafts commit start mtp_base_raw accepted_cap eos_token saved =
     (case (if commit = length drafts
            then metal_graph_read_spec_logits_row e (io_read io) (ss_graph s) (length drafts - 1) else None) of
        Some row \<Rightarrow>
          (spec_argmax_snapshot_combined_prev_hc e io (length drafts - 1)
             (keep_accepted e mtp_base_raw (length drafts)
               (s\<lparr>ss_logits := row, ss_checkpoint_valid := True, ss_mtp_draft_valid := False\<rparr>)),
           accepted_drafts first_token accepted_cap eos_token drafts)
      | None \<Rightarrow>
          micro_partial m e io s first_token drafts commit start mtp_base_raw accepted_cap eos_token saved)"

definition canonical_micro ::
  "spec_model \<Rightarrow> spec_engine \<Rightarrow> spec_env \<Rightarrow> spec_io \<Rightarrow> spec_session \<Rightarrow> int \<Rightarrow> int list \<Rightarrow> nat \<Rightarrow> int \<Rightarrow> int
   \<Rightarrow> spec_session \<times> spec_rc" where
  "canonical_micro m e ev io s first_token drafts mtp_base_raw accepted_cap eos_token =
     (let draft_n = length drafts; start = length (ss_checkpoint s);
          snapshot_required = (draft_n > 2 \<or> draft_n = 2 \<and> ev_exact_replay ev \<or> ev_force_snapshot ev);
          saved = (if snapshot_required then spec_frontier_snapshot io (ss_graph s) else None);
          pushed = ss_checkpoint s @ drafts in
      if snapshot_required \<and> saved = None then
        canonical_sequential m e io s first_token drafts mtp_base_raw accepted_cap eos_token
      else
        (case metal_graph_verify_suffix_tops m e (io_verify io) (ss_graph s) pushed start draft_n (draft_n = 2) of
           None \<Rightarrow>
             micro_failed m e io (s\<lparr>ss_checkpoint := pushed\<rparr>) first_token drafts start mtp_base_raw
               accepted_cap eos_token saved
         | Some (g, row_tops) \<Rightarrow>
             (let commit = 1 + matching row_tops (tl drafts);
                  s = s\<lparr>ss_graph := g, ss_checkpoint := pushed\<rparr>;
                  go_on = (\<lambda>s. micro_verified m e io s first_token drafts commit start mtp_base_raw
                                 accepted_cap eos_token saved) in
              case (if ev_exact_replay ev then saved else None) of
                None \<Rightarrow> go_on s
              | Some f \<Rightarrow>
                  (let (g, ok) = spec_frontier_restore io 0 f g;
                       s = s\<lparr>ss_graph := g, ss_checkpoint := take start pushed\<rparr> in
                   if \<not> ok then go_on s
                   else
                     (let (s, ok) = replay_loop io 0 (take commit drafts) s in
                      if \<not> ok then go_on s
                      else
                        (canonical_commit e mtp_base_raw start (take commit drafts)
                           (sm_target m (gr_frontier (ss_graph s))) s,
                         accepted_drafts first_token accepted_cap eos_token (take commit drafts)))))))"

section \<open>The canonical path\<close>

text \<open>The margin between the two best logits.\<close>

fun top2_from :: "real \<Rightarrow> real \<Rightarrow> logits \<Rightarrow> real \<times> real" where
  "top2_from v0 v1 [] = (v0, v1)"
| "top2_from v0 v1 (v # vs) =
     (if v > v0 then top2_from v v0 vs else if v > v1 then top2_from v0 v vs else top2_from v0 v1 vs)"

definition logits_margin :: "logits \<Rightarrow> real" where
  "logits_margin logits = (case top2_from (- (10 ^ 30)) (- (10 ^ 30)) logits of (v0, v1) \<Rightarrow> v0 - v1)"

definition margin_threshold :: "spec_engine \<Rightarrow> spec_env \<Rightarrow> real" where
  "margin_threshold e ev =
     (case ev_min_margin ev of
        Some v \<Rightarrow> if v \<ge> 0 then v else en_mtp_margin e
      | None \<Rightarrow> en_mtp_margin e)"

definition strict_mode :: "spec_engine \<Rightarrow> spec_env \<Rightarrow> bool" where
  "strict_mode e ev \<longleftrightarrow> en_quality e \<or> ev_strict ev"

text \<open>The number of drafts behind the normal token; \<open>confidence\<close> is the margin of a DSpark head.\<close>

definition canonical_draft_cap ::
  "spec_engine \<Rightarrow> spec_env \<Rightarrow> real option \<Rightarrow> spec_session \<Rightarrow> int \<Rightarrow> int \<Rightarrow> int" where
  "canonical_draft_cap e ev confidence s max_tokens accepted_cap =
     (let cap = at_most (en_ctx_size e - int (length (ss_checkpoint s)) - 1)
                  (at_most (accepted_cap - 1) (at_most (max_tokens - 1) (en_mtp_draft_tokens e))) in
      case confidence of
        None \<Rightarrow> cap
      | Some c \<Rightarrow>
          if \<not> en_dspark_ready e \<or> c < 0 then cap
          else if c \<ge> 2 * margin_threshold e ev then en_dspark_block_size e
          else if c \<ge> margin_threshold e ev \<and> cap < 3 then 3
          else cap)"

definition canonical_drafted ::
  "spec_model \<Rightarrow> spec_engine \<Rightarrow> spec_env \<Rightarrow> spec_io \<Rightarrow> spec_session \<Rightarrow> int \<Rightarrow> int \<Rightarrow> int \<Rightarrow> int
   \<Rightarrow> spec_session \<times> spec_rc" where
  "canonical_drafted m e ev io s first_token draft_cap accepted_cap eos_token =
     (let d0 = ss_mtp_draft_token s; s = s\<lparr>ss_mtp_draft_valid := False\<rparr> in
      if sample_argmax (ss_logits s) \<noteq> d0 then (s, SpecAccepted [first_token])
      else
        (let draft_cap = (if d0 = eos_token then 1 else draft_cap);
             mtp_base_raw = gr_mtp_n_raw (ss_graph s);
             (g, drafts) = metal_graph_eval_mtp_draft_n_from_hc e io d0 (nat draft_cap) eos_token (ss_graph s);
             s = s\<lparr>ss_graph := g\<rparr> in
         if int (length drafts) < draft_cap \<and> last drafts \<noteq> eos_token then (s, SpecAccepted [first_token])
         else
           (let s = (case io_head_conf io of
                       Some c \<Rightarrow>
                         if en_dspark_ready e
                         then s\<lparr>ss_adaptive := (ss_adaptive s)\<lparr>da_confidence := c, da_confidence_valid := True\<rparr>\<rparr>
                         else s
                     | None \<Rightarrow> s) in
            if \<not> strict_mode e ev \<and> length drafts = 2 \<and> margin_threshold e ev > 0
               \<and> io_mtp_margin io < margin_threshold e ev
            then canonical_margin_skip m e io s first_token drafts mtp_base_raw
            else if length drafts = 2 \<and> strict_mode e ev \<and> \<not> ev_batch_verify ev
            then canonical_decode2 m e io s first_token drafts mtp_base_raw accepted_cap eos_token
            else canonical_micro m e ev io s first_token drafts mtp_base_raw accepted_cap eos_token)))"

definition spec_canonical ::
  "spec_model \<Rightarrow> spec_engine \<Rightarrow> spec_env \<Rightarrow> bool \<Rightarrow> spec_io \<Rightarrow> spec_session \<Rightarrow> int \<Rightarrow> int \<Rightarrow> int \<Rightarrow> int
   \<Rightarrow> spec_session \<times> spec_rc" where
  "spec_canonical m e ev batch_decode io s first_token max_tokens eos_token accepted_cap =
     (case ds4_session_eval_internal m e batch_decode io s first_token True of
        Inl failed \<Rightarrow> failed
      | Inr s \<Rightarrow>
          (let s = spec_argmax_bootstrap_combined_prev_hc e io s;
               threshold = margin_threshold e ev;
               confidence = (if \<not> strict_mode e ev \<and> en_dspark_ready e \<and> threshold > 0
                             then Some (logits_margin (ss_logits s)) else None);
               draft_cap = canonical_draft_cap e ev confidence s max_tokens accepted_cap in
           if first_token = eos_token \<or> max_tokens = 1 \<or> accepted_cap \<le> 1
           then (s, SpecAccepted [first_token])
           else if (case confidence of Some c \<Rightarrow> c < threshold | None \<Rightarrow> False)
           then (s, SpecAccepted [first_token])
           else if \<not> en_mtp_ready e \<or> \<not> ss_mtp_draft_valid s \<or> en_mtp_draft_tokens e \<le> 1
           then (s, SpecAccepted [first_token])
           else if draft_cap \<le> 0 then (s, SpecAccepted [first_token])
           else canonical_drafted m e ev io s first_token draft_cap accepted_cap eos_token))"

section \<open>The dispatcher\<close>

text \<open>
  \<open>ds4_session_eval_speculative_argmax\<close> for a local session on a device.  A gap of a faster round falls
  through to the canonical path.
\<close>

definition ds4_session_eval_speculative_argmax ::
  "spec_model \<Rightarrow> spec_engine \<Rightarrow> spec_env \<Rightarrow> bool \<Rightarrow> spec_io
   \<Rightarrow> spec_session \<Rightarrow> int \<Rightarrow> int \<Rightarrow> int \<Rightarrow> int \<Rightarrow> spec_session \<times> spec_rc" where
  "ds4_session_eval_speculative_argmax m e ev batch_decode io s first_token max_tokens eos_token accepted_cap =
     (if max_tokens \<le> 0 \<or> accepted_cap \<le> 0 then (s, SpecAccepted [])
      else
        (let strict_mtp = (en_quality e \<or> ev_strict ev);
             try_combined =
               (\<not> strict_mtp \<and> en_mtp_ready e \<and> en_mtp_spec_ready e \<and> \<not> en_dspark_ready e
                \<and> en_mtp_draft_tokens e = 2 \<and> \<not> ev_spec_disable ev
                \<and> max_tokens \<ge> 2 \<and> accepted_cap \<ge> 2 \<and> first_token \<noteq> eos_token
                \<and> int (length (ss_checkpoint s)) + 3 \<le> en_ctx_size e);
             (s, rc) =
               (if try_combined
                then ds4_session_eval_speculative_argmax_combined m e ev io s first_token max_tokens
                       eos_token accepted_cap
                else (s, SpecGap));
             (s, rc) =
               (if rc \<noteq> SpecGap then (s, rc)
                else if en_dspark_ready e \<and> en_mtp_spec_ready e \<or> en_mtp_draft_tokens e > 4
                then ds4_session_eval_speculative_argmax_seq m e ev batch_decode io s first_token
                       max_tokens eos_token accepted_cap
                else (s, SpecGap)) in
         if rc \<noteq> SpecGap then (s, rc)
         else spec_canonical m e ev batch_decode io s first_token max_tokens eos_token
                accepted_cap))"

section \<open>The decode loop of the command line\<close>

text \<open>
  The loop of \<open>ds4_cli.c\<close> at lines 477 to 548 for temperature zero, one \<open>spec_io\<close> per round.
  The tokens of a round are printed until the end of the sequence or the budget.  \<open>None\<close> stands
  for a decode error, and for a list of rounds that is too short; interrupts are not modelled.
\<close>

definition ds4_engine_spec_draft_tokens :: "spec_engine \<Rightarrow> int" where
  "ds4_engine_spec_draft_tokens e =
     (if \<not> en_mtp_spec_ready e then 0
      else if en_dspark_ready e then en_dspark_draft_tokens e
      else if en_mtp_ready e then en_mtp_draft_tokens e
      else 0)"

definition cli_step ::
  "spec_model \<Rightarrow> spec_engine \<Rightarrow> spec_env \<Rightarrow> bool \<Rightarrow> int
   \<Rightarrow> spec_io \<Rightarrow> spec_session \<Rightarrow> int \<Rightarrow> nat \<Rightarrow> spec_session \<times> spec_rc" where
  "cli_step m e ev batch_decode eos io s token left =
     (if ds4_engine_spec_draft_tokens e > 1 \<and> \<not> ev_spec_disable ev then
        ds4_session_eval_speculative_argmax m e ev batch_decode io s token (int left) eos 17
      else
        (case ds4_session_eval_internal m e batch_decode io s token True of
           Inl failed \<Rightarrow> failed
         | Inr s \<Rightarrow> (s, SpecAccepted [token])))"

fun cli_emit :: "int \<Rightarrow> nat \<Rightarrow> int list \<Rightarrow> int list \<times> bool" where
  "cli_emit eos left [] = ([], False)"
| "cli_emit eos left (t # ts) =
     (if t = eos then ([], True)
      else if left \<le> 1 then ([t], False)
      else (let (out, stop) = cli_emit eos (left - 1) ts in (t # out, stop)))"

fun cli_generate ::
  "('io \<Rightarrow> 's \<Rightarrow> int \<Rightarrow> nat \<Rightarrow> 's \<times> spec_rc) \<Rightarrow> ('s \<Rightarrow> int) \<Rightarrow> int \<Rightarrow> 'io list \<Rightarrow> 's \<Rightarrow> nat
   \<Rightarrow> int list option" where
  "cli_generate step sample eos ios s 0 = Some []"
| "cli_generate step sample eos [] s (Suc left) = None"
| "cli_generate step sample eos (io # ios) s (Suc left) =
     (let token = sample s in
      if token = eos then Some []
      else
        (case step io s token (Suc left) of
           (s, SpecAccepted toks) \<Rightarrow>
             (let (out, stop) = cli_emit eos (Suc left) toks in
              if stop then Some out
              else map_option (\<lambda>rest. out @ rest)
                     (cli_generate step sample eos ios s (Suc left - length out)))
         | (_, _) \<Rightarrow> None))"

end
