(* ===== verification/SpecGreedy.thy ===== *)
theory SpecGreedy
  imports SpecCanonical
begin

text \<open>
  Correctness of speculative decoding: a round commits only tokens that the target model has chosen
  behind exactly the tokens in front of them, and leaves checkpoint, device frontier and logits in step,
  whatever the draft heads propose.

  The kernels of the one-token path, of the batched path and of the prefill round differently, and so do
  the caches they leave; nothing here assumes that they agree.  \<open>R c\<close> is the set of the rows of logits
  that are computed behind the tokens \<open>c\<close> in a run, by whichever kernels; a token is the target's when it
  is the greedy token of one of them.  With one row per context this is the greedy stream.
\<close>

section \<open>Streams of the target\<close>

fun target_run :: "(int list \<Rightarrow> logits set) \<Rightarrow> int list \<Rightarrow> int list \<Rightarrow> bool" where
  "target_run R ctx [] \<longleftrightarrow> True"
| "target_run R ctx (t # ts) \<longleftrightarrow> t \<in> sample_argmax ` R ctx \<and> target_run R (ctx @ [t]) ts"

text \<open>What at most \<open>n\<close> tokens behind \<open>ctx\<close> may be: each one chosen by the target, and an early end only where
  the target chose the end of the sequence.\<close>

fun target_stream :: "(int list \<Rightarrow> logits set) \<Rightarrow> int \<Rightarrow> nat \<Rightarrow> int list \<Rightarrow> int list \<Rightarrow> bool" where
  "target_stream R eos 0 ctx out \<longleftrightarrow> out = []"
| "target_stream R eos (Suc n) ctx [] \<longleftrightarrow> eos \<in> sample_argmax ` R ctx"
| "target_stream R eos (Suc n) ctx (t # ts) \<longleftrightarrow>
     t \<noteq> eos \<and> t \<in> sample_argmax ` R ctx \<and> target_stream R eos n (ctx @ [t]) ts"

fun greedy_run :: "(int list \<Rightarrow> logits) \<Rightarrow> int list \<Rightarrow> int list \<Rightarrow> bool" where
  "greedy_run f ctx [] \<longleftrightarrow> True"
| "greedy_run f ctx (t # ts) \<longleftrightarrow> t = sample_argmax (f ctx) \<and> greedy_run f (ctx @ [t]) ts"

fun plain_greedy :: "(int list \<Rightarrow> logits) \<Rightarrow> int \<Rightarrow> nat \<Rightarrow> int list \<Rightarrow> int list" where
  "plain_greedy f eos 0 ctx = []"
| "plain_greedy f eos (Suc n) ctx =
     (let t = sample_argmax (f ctx) in
      if t = eos then [] else t # plain_greedy f eos n (ctx @ [t]))"

lemma target_run_single: "target_run (\<lambda>c. {f c}) ctx ts = greedy_run f ctx ts"
  by (induction ts arbitrary: ctx) auto

text \<open>The rows agree with \<open>f\<close> on the greedy token wherever the stream \<open>out\<close> has been.\<close>

definition rows_agree :: "(int list \<Rightarrow> logits set) \<Rightarrow> (int list \<Rightarrow> logits) \<Rightarrow> int list \<Rightarrow> int list \<Rightarrow> bool" where
  "rows_agree R f ctx out \<longleftrightarrow>
     (\<forall>i\<le>length out. \<forall>row\<in>R (ctx @ take i out). sample_argmax row = sample_argmax (f (ctx @ take i out)))"

lemma rows_agree_step:
  assumes "rows_agree R f ctx (t # ts)"
  shows "\<And>row. row \<in> R ctx \<Longrightarrow> sample_argmax row = sample_argmax (f ctx)" "rows_agree R f (ctx @ [t]) ts"
proof -
  show "sample_argmax row = sample_argmax (f ctx)" if "row \<in> R ctx" for row
    using assms that by (auto simp: rows_agree_def dest: spec [of _ 0])
  show "rows_agree R f (ctx @ [t]) ts"
    unfolding rows_agree_def
  proof (intro allI impI ballI)
    fix i row assume "i \<le> length ts" "row \<in> R ((ctx @ [t]) @ take i ts)"
    then show "sample_argmax row = sample_argmax (f ((ctx @ [t]) @ take i ts))"
      using assms [unfolded rows_agree_def, rule_format, of "Suc i" row] by simp
  qed
qed

text \<open>Where the kernels agree along the stream, there is only one.\<close>

lemma target_stream_unique:
  "target_stream R eos n ctx out \<Longrightarrow> rows_agree R f ctx out \<Longrightarrow> out = plain_greedy f eos n ctx"
proof (induction R eos n ctx out rule: target_stream.induct)
  case (2 R eos n ctx)
  then have "eos = sample_argmax (f ctx)" by (auto simp: rows_agree_def)
  then show ?case by simp
next
  case (3 R eos n ctx t ts)
  note step = rows_agree_step [OF "3.prems"(2)]
  have "t = sample_argmax (f ctx)" "t \<noteq> eos" using "3.prems"(1) step(1) by auto
  moreover have "ts = plain_greedy f eos n (ctx @ [t])" using 3 step(2) by simp
  ultimately show ?case by (simp add: Let_def)
qed simp

text \<open>The rows of a round's model are among \<open>R\<close>.\<close>

definition computes :: "(int list \<Rightarrow> logits set) \<Rightarrow> spec_model \<Rightarrow> bool" where
  "computes R m \<longleftrightarrow> (\<forall>c. sm_target m c \<in> R c \<and> sm_batch m c \<in> R c)"

text \<open>Checkpoint, device and logits are in step.\<close>

definition spec_ready :: "(int list \<Rightarrow> logits set) \<Rightarrow> spec_session \<Rightarrow> bool" where
  "spec_ready R s \<longleftrightarrow>
     ss_checkpoint_valid s \<and> gr_frontier (ss_graph s) = ss_checkpoint s
     \<and> ss_logits s \<in> R (ss_checkpoint s) \<and> cascade_ok (ss_cascade s)"

text \<open>What a round may add: the budget of the caller and of the context, behind one token.\<close>

definition spec_room :: "spec_engine \<Rightarrow> spec_session \<Rightarrow> int \<Rightarrow> int \<Rightarrow> int" where
  "spec_room e s max_tokens accepted_cap =
     min (min (max_tokens - 1) (accepted_cap - 1)) (en_ctx_size e - int (length (ss_checkpoint s)) - 1)"

definition spec_commits ::
  "(int list \<Rightarrow> logits set) \<Rightarrow> spec_engine \<Rightarrow> int \<Rightarrow> int \<Rightarrow> int \<Rightarrow> spec_session \<Rightarrow> int \<Rightarrow> spec_session
   \<Rightarrow> int list \<Rightarrow> bool"
  where
  "spec_commits R e eos max_tokens accepted_cap s first_token s' accepted \<longleftrightarrow>
     (\<exists>ext. accepted = first_token # append_accepted eos (nat (accepted_cap - 1)) ext
        \<and> (ext = [] \<or> first_token \<noteq> eos \<and> int (length ext) \<le> spec_room e s max_tokens accepted_cap)
        \<and> target_run R (ss_checkpoint s @ [first_token]) ext
        \<and> ss_checkpoint s' = ss_checkpoint s @ first_token # ext
        \<and> spec_ready R s')"

lemma spec_commits_one:
  assumes "ss_checkpoint s' = ss_checkpoint s @ [t]" "spec_ready R s'"
  shows "spec_commits R e eos mx cap s t s' [t]"
  unfolding spec_commits_def
  by (rule exI [of _ "[]"], cases "nat (cap - 1)") (use assms in auto)

lemma target_run_take: "target_run R ctx ts \<Longrightarrow> target_run R ctx (take n ts)"
proof (induction ts arbitrary: ctx n)
  case (Cons t ts)
  then show ?case by (cases n) auto
qed simp

lemma length_batch_rows [simp]: "length (batch_rows f ctx ts) = length ts"
  by (induction ts arbitrary: ctx) auto

lemma batch_rows_nth: "i < length ts \<Longrightarrow> batch_rows f ctx ts ! i = f (ctx @ take (Suc i) ts)"
proof (induction ts arbitrary: ctx i)
  case (Cons t ts)
  then show ?case by (cases i) auto
qed simp

lemma matching_le: "matching ts ds \<le> length ds"
  by (induction ts ds rule: matching.induct) auto

text \<open>The verified drafts are greedy tokens of the batched rows.\<close>

lemma matching_target:
  assumes "\<And>c. f c \<in> R c"
  shows "target_run R (ctx @ [t])
     (take (matching (map sample_argmax (butlast (batch_rows f ctx (t # ds)))) ds) ds)"
proof (induction ds arbitrary: ctx t)
  case (Cons d ds)
  have "butlast (batch_rows f ctx (t # d # ds))
      = f (ctx @ [t]) # butlast (batch_rows f (ctx @ [t]) (d # ds))" by simp
  then show ?case using Cons.IH [of "ctx @ [t]" d] assms [of "ctx @ [t]"] by (auto simp del: batch_rows.simps)
qed simp

section \<open>One token\<close>

lemma eval_probe_simps [simp]:
  "ss_checkpoint (eval_probe e io p s) = ss_checkpoint s"
  "ss_checkpoint_valid (eval_probe e io p s) = ss_checkpoint_valid s"
  "ss_logits (eval_probe e io p s) = ss_logits s"
  "gr_frontier (ss_graph (eval_probe e io p s)) = gr_frontier (ss_graph s)"
  "ss_cascade (eval_probe e io p s) = ss_cascade s"
  by (auto simp: eval_probe_def metal_graph_eval_mtp_draft_from_hc_def split: option.splits)

lemma bootstrap_simps [simp]:
  "ss_checkpoint (spec_argmax_bootstrap_combined_prev_hc e io s) = ss_checkpoint s"
  "ss_checkpoint_valid (spec_argmax_bootstrap_combined_prev_hc e io s) = ss_checkpoint_valid s"
  "ss_logits (spec_argmax_bootstrap_combined_prev_hc e io s) = ss_logits s"
  "gr_frontier (ss_graph (spec_argmax_bootstrap_combined_prev_hc e io s)) = gr_frontier (ss_graph s)"
  "ss_cascade (spec_argmax_bootstrap_combined_prev_hc e io s) = ss_cascade s"
  "ss_mtp_draft_valid (spec_argmax_bootstrap_combined_prev_hc e io s) = ss_mtp_draft_valid s"
  by (auto simp: spec_argmax_bootstrap_combined_prev_hc_def)

lemma snapshot_simps [simp]:
  "ss_checkpoint (spec_argmax_snapshot_combined_prev_hc e io r s) = ss_checkpoint s"
  "ss_checkpoint_valid (spec_argmax_snapshot_combined_prev_hc e io r s) = ss_checkpoint_valid s"
  "ss_logits (spec_argmax_snapshot_combined_prev_hc e io r s) = ss_logits s"
  "gr_frontier (ss_graph (spec_argmax_snapshot_combined_prev_hc e io r s)) = gr_frontier (ss_graph s)"
  "ss_cascade (spec_argmax_snapshot_combined_prev_hc e io r s) = ss_cascade s"
  by (auto simp: spec_argmax_snapshot_combined_prev_hc_def)

text \<open>A verifying pass that succeeds.\<close>

lemma verify_suffix_Some:
  assumes "metal_graph_verify_suffix_tops m e dev g (ckpt @ toks) (length ckpt) (length toks) capture
    = Some (g', tops)"
  shows "gr_frontier g' = gr_frontier g @ toks"
    "gr_rows g' = batch_rows (sm_batch m) (gr_frontier g) toks"
    "capture \<Longrightarrow> length toks \<ge> 2 \<Longrightarrow> gr_prefix1 g' = gr_frontier g @ take 1 toks"
    "capture \<Longrightarrow> length toks \<ge> 3 \<Longrightarrow> gr_prefix2 g' = gr_frontier g @ take 2 toks"
    "tops = map sample_argmax (butlast (batch_rows (sm_batch m) (gr_frontier g) toks))"
  using assms by (auto simp: metal_graph_verify_suffix_tops_def Let_def split: if_splits)

lemma verify_suffix_total:
  assumes "toks \<noteq> []" "length toks \<le> en_prefill_cap e"
  shows "metal_graph_verify_suffix_tops m e True g (ckpt @ toks) (length ckpt) (length toks) c \<noteq> None"
  using assms by (simp add: metal_graph_verify_suffix_tops_def Let_def)

lemma read_row_Some:
  "metal_graph_read_spec_logits_row e dev g r = Some row \<Longrightarrow> row = gr_rows g ! r"
  by (simp add: metal_graph_read_spec_logits_row_def split: if_splits)

lemma eval_step_rows:
  assumes "\<And>c. sm_target m c \<in> R c" "\<And>c. bd \<Longrightarrow> sm_batch m c \<in> R c" "spec_ready R s"
    "ds4_session_eval_internal m e bd io s token p = Inr s'"
  shows "ss_checkpoint s' = ss_checkpoint s @ [token]" "spec_ready R s'"
proof -
  have "ss_checkpoint s' = ss_checkpoint s @ [token] \<and> spec_ready R s'"
    using assms
    by (auto simp: ds4_session_eval_internal_def metal_graph_verify_suffix_tops_def
        metal_graph_read_spec_logits_row_def spec_ready_def Let_def
        split: if_splits option.splits prod.splits)
  then show "ss_checkpoint s' = ss_checkpoint s @ [token]" "spec_ready R s'" by auto
qed

lemma eval_step:
  assumes "computes R m" "spec_ready R s"
    "ds4_session_eval_internal m e bd io s token p = Inr s'"
  shows "ss_checkpoint s' = ss_checkpoint s @ [token]" "spec_ready R s'"
  using eval_step_rows [OF _ _ assms(2,3)] assms(1) by (auto simp: computes_def)

lemma eval_total:
  assumes "io_eval io" "io_read io" "en_prefill_cap e \<ge> 1"
  shows "\<exists>s'. ds4_session_eval_internal m e bd io s token p = Inr s'"
  using assms
  by (auto simp: ds4_session_eval_internal_def metal_graph_verify_suffix_tops_def
      metal_graph_read_spec_logits_row_def Let_def split: option.splits)

section \<open>The DSpark round\<close>

lemma dspark_commit_bounds:
  assumes "1 \<le> sch" "sch \<le> length drafts"
  shows "1 \<le> dspark_commit tops drafts sch" "dspark_commit tops drafts sch \<le> sch"
    "dspark_commit tops drafts sch < sch \<Longrightarrow> dspark_commit tops drafts sch = 1 \<or> dspark_commit tops drafts sch = 2"
    "dspark_commit tops drafts sch \<le> Suc (matching tops (tl (take sch drafts)))"
  using matching_le [of tops "tl (take sch drafts)"] assms
  by (auto simp: dspark_commit_def Let_def)

text \<open>The drafts that are kept are greedy, and the frontier goes back to exactly them.\<close>

lemma dspark_commit_greedy:
  assumes "1 \<le> sch" "sch \<le> length drafts" "hd drafts \<in> sample_argmax ` R ctx" "\<And>c. f c \<in> R c"
    and "tops = map sample_argmax (butlast (batch_rows f ctx (take sch drafts)))"
  shows "target_run R ctx (take (dspark_commit tops drafts sch) drafts)"
proof -
  obtain d ds where d: "drafts = d # ds" using assms(1,2) by (cases drafts) auto
  then obtain n where n: "sch = Suc n" "n \<le> length ds" using assms(1,2) by (cases sch) auto
  define k where "k = matching tops (take n ds)"
  have "target_run R (ctx @ [d]) (take k (take n ds))"
    unfolding k_def assms(5) using matching_target [of f R ctx d "take n ds", OF assms(4)] d n by simp
  then have "target_run R ctx (take (Suc k) (take sch drafts))"
    using assms(3) d n by simp
  then have "target_run R ctx (take (dspark_commit tops drafts sch) (take (Suc k) (take sch drafts)))"
    by (rule target_run_take)
  moreover have "dspark_commit tops drafts sch \<le> Suc k" "dspark_commit tops drafts sch \<le> sch"
    using dspark_commit_bounds [OF assms(1,2), of tops] d n by (simp_all add: k_def)
  then have "take (dspark_commit tops drafts sch) (take (Suc k) (take sch drafts))
      = take (dspark_commit tops drafts sch) drafts" by (auto simp: min_def)
  ultimately show ?thesis by simp
qed

lemma dspark_rollback_frontier:
  assumes "metal_graph_verify_suffix_tops m e dev g (ckpt @ toks) (length ckpt) (length toks) True
      = Some (g1, tops)"
    and "dspark_rollback io commit (length toks) g1 = Some g2" "commit \<le> length toks"
  shows "gr_frontier g2 = gr_frontier g @ take commit toks" "gr_rows g2 = gr_rows g1"
  using assms(2,3) verify_suffix_Some [OF assms(1)]
  by (auto simp: dspark_rollback_def spec_frontier_commit_prefix1_def spec_frontier_commit_prefix2_def
      split: if_splits)

lemma dspark_commit_stats_simps [simp]:
  "ss_checkpoint (dspark_commit_stats e io n c s) = ss_checkpoint s"
  "ss_checkpoint_valid (dspark_commit_stats e io n c s)"
  "ss_logits (dspark_commit_stats e io n c s) = ss_logits s"
  "ss_graph (dspark_commit_stats e io n c s) = ss_graph s"
  "cascade_ok (ss_cascade s) \<Longrightarrow> cascade_ok (ss_cascade (dspark_commit_stats e io n c s))"
  by (simp_all add: dspark_commit_stats_def Let_def cascade_commit_ok)

lemma dspark_verify_step:
  assumes m: "computes R m" and s: "spec_ready R s"
    and sch: "1 \<le> sch" "sch \<le> length drafts" "hd drafts = sample_argmax (ss_logits s)"
    and r: "dspark_verify m e io s t drafts sch cap eos = (s', SpecAccepted acc)"
  shows "\<exists>ext. acc = t # append_accepted eos (nat (cap - 1)) ext \<and> ext \<noteq> [] \<and> length ext \<le> sch
    \<and> target_run R (ss_checkpoint s) ext
    \<and> ss_checkpoint s' = ss_checkpoint s @ ext \<and> spec_ready R s'"
proof -
  let ?ck = "ss_checkpoint s" and ?toks = "take sch drafts"
  have len: "length ?toks = sch" using sch(2) by simp
  have fr: "gr_frontier (ss_graph s) = ?ck" using s by (simp add: spec_ready_def)
  obtain g1 tops where v: "metal_graph_verify_suffix_tops m e (io_verify io) (ss_graph s) (?ck @ ?toks)
      (length ?ck) sch True = Some (g1, tops)"
    using r by (auto simp: dspark_verify_def spec_fail_def Let_def split: option.splits)
  have v': "metal_graph_verify_suffix_tops m e (io_verify io) (ss_graph s) (?ck @ ?toks)
      (length ?ck) (length ?toks) True = Some (g1, tops)"
    using v unfolding len .
  define c where "c = dspark_commit tops drafts sch"
  note cb = dspark_commit_bounds [OF sch(1,2), of tops, folded c_def]
  obtain g2 where rb: "dspark_rollback io c sch g1 = Some g2"
    using r v by (auto simp: dspark_verify_def spec_fail_def Let_def c_def split: option.splits)
  obtain row where row: "metal_graph_read_spec_logits_row e (io_read io) g2 (c - 1) = Some row"
    using r v rb by (auto simp: dspark_verify_def spec_fail_def Let_def c_def split: option.splits)
  have "dspark_rollback io c (length ?toks) g1 = Some g2" "c \<le> length ?toks"
    using rb cb(2) unfolding len by auto
  note g2 = dspark_rollback_frontier [OF v' this]
  have res: "acc = t # append_accepted eos (nat (cap - 1)) (take c drafts)"
    "s' = dspark_commit_stats e io sch c (spec_argmax_snapshot_combined_prev_hc e io (c - 1)
      (s\<lparr>ss_checkpoint := take (length ?ck + c) (?ck @ ?toks), ss_graph := g2, ss_logits := row\<rparr>))"
    using r v rb row by (auto simp: dspark_verify_def Let_def c_def)
  have ck: "take (length ?ck + c) (?ck @ ?toks) = ?ck @ take c drafts" using cb(2) by (simp add: min_def)
  have greedy: "target_run R ?ck (take c drafts)"
    unfolding c_def
    by (rule dspark_commit_greedy [OF sch(1,2), where f = "sm_batch m"])
      (use m s sch(3) verify_suffix_Some(5) [OF v'] fr in \<open>auto simp: spec_ready_def computes_def\<close>)
  have front: "gr_frontier g2 = ?ck @ take c drafts"
    using g2(1) cb(2) fr by (simp add: min_absorb1)
  have "row = sm_batch m (?ck @ take c drafts)"
    using read_row_Some [OF row] g2(2) cb(1,2) len fr verify_suffix_Some(2) [OF v']
      batch_rows_nth [of "c - 1" ?toks] by (simp add: min_absorb1)
  then have logits: "row \<in> R (?ck @ take c drafts)"
    using m by (simp add: computes_def)
  have "spec_ready R s'"
    using s front logits ck unfolding res(2) by (simp add: spec_ready_def)
  moreover have "take c drafts \<noteq> []" using cb(1) sch by (cases drafts) auto
  ultimately show ?thesis using res ck cb(2) greedy by (intro exI [of _ "take c drafts"]) simp
qed

lemma dspark_verify_total:
  assumes "io_verify io" "io_rollback io" "io_read io" "1 \<le> sch" "sch \<le> length drafts"
    "sch \<le> en_prefill_cap e"
  shows "\<exists>s' acc. dspark_verify m e io s t drafts sch cap eos = (s', SpecAccepted acc)"
proof -
  let ?toks = "take sch drafts"
  have len: "length ?toks = sch" "?toks \<noteq> []" using assms(4,5) by auto
  obtain g1 tops where v: "metal_graph_verify_suffix_tops m e True (ss_graph s)
      (ss_checkpoint s @ ?toks) (length (ss_checkpoint s)) sch True = Some (g1, tops)"
    using verify_suffix_total [OF len(2), of e m "ss_graph s" "ss_checkpoint s" True] assms(6) len by auto
  note cb = dspark_commit_bounds [OF assms(4,5), of tops]
  have "dspark_commit tops drafts sch = sch \<or> dspark_commit tops drafts sch = 1
      \<or> dspark_commit tops drafts sch = 2"
    using cb(2,3) by linarith
  then obtain g2 where rb: "dspark_rollback io (dspark_commit tops drafts sch) sch g1 = Some g2"
    using assms(2)
    by (fastforce simp: dspark_rollback_def spec_frontier_commit_prefix1_def spec_frontier_commit_prefix2_def)
  have "dspark_commit tops drafts sch - 1 < en_prefill_cap e" using cb(1,2) assms(6) by linarith
  then obtain row where
    "metal_graph_read_spec_logits_row e True g2 (dspark_commit tops drafts sch - 1) = Some row"
    by (simp add: metal_graph_read_spec_logits_row_def)
  with v rb assms(1,3) show ?thesis by (simp add: dspark_verify_def Let_def)
qed

lemma at_most_le: "at_most b n \<le> n" "at_most b n \<le> b"
  by (simp_all add: at_most_def)

lemma spec_budget_le:
  "spec_budget e s mx cap k \<le> k" "spec_budget e s mx cap k \<le> mx - 1"
  "spec_budget e s mx cap k \<le> cap - 1"
  "spec_budget e s mx cap k \<le> en_ctx_size e - int (length (ss_checkpoint s)) - 1"
  by (auto simp: spec_budget_def at_most_def)

lemma spec_budget_room: "spec_budget e s mx cap k \<le> spec_room e s mx cap"
  using spec_budget_le [of e s mx cap k] by (simp add: spec_room_def)

lemma spec_room_cong: "ss_checkpoint s' = ss_checkpoint s \<Longrightarrow> spec_room e s' mx cap = spec_room e s mx cap"
  by (simp add: spec_room_def)

lemma schedule_from_le: "0 \<le> i \<Longrightarrow> i \<le> n \<Longrightarrow> schedule_from cs i n x \<le> n"
  by (induction cs arbitrary: i) auto

text \<open>The schedule of a round: at least one draft, at most five, at most what was drafted.\<close>

lemma dspark_drafted_cases:
  assumes "cascade_ok (ss_cascade s)" "drafts \<noteq> []"
  obtains (skip) s' where "dspark_drafted m e ev io s t drafts cap eos = (s', SpecAccepted [t])"
      "ss_checkpoint s' = ss_checkpoint s" "spec_ready R s \<Longrightarrow> spec_ready R s'"
  | (go) s1 sch where "dspark_drafted m e ev io s t drafts cap eos
        = dspark_verify m e io s1 t drafts sch cap eos"
      "ss_checkpoint s1 = ss_checkpoint s" "ss_logits s1 = ss_logits s" "spec_ready R s \<Longrightarrow> spec_ready R s1"
      "1 \<le> sch" "sch \<le> length drafts" "sch \<le> 5" "hd drafts = sample_argmax (ss_logits s)"
proof -
  define conf where "conf = map (io_conf io) [0..<length drafts]"
  define n where "n = int (length drafts)"
  define s0 where "s0 = s\<lparr>ss_adaptive := (ss_adaptive s)\<lparr>da_confidence := conf ! 0, da_confidence_valid := True\<rparr>\<rparr>"
  define k0 where "k0 = ds4_dspark_confidence_schedule_prefix conf n n (1 / 2)"
  obtain c k1 where ck: "cascade_schedule n k0 (cascade_start ev conf n (ss_cascade s)) = (c, k1)"
    by (meson surj_pair)
  define k where "k = at_most 5 (at_most n (if ev_force_schedule_all ev \<and> length (ss_checkpoint s) < 32768 then n else k1))"
  define s1 where "s1 = s0\<lparr>ss_cascade := c\<rparr>"
  have d: "dspark_drafted m e ev io s t drafts cap eos =
      (if k0 \<le> 0 then (s0, SpecAccepted [t])
       else if sample_argmax (ss_logits s) \<noteq> hd drafts
       then (dspark_miss e io k s1, SpecAccepted [t])
       else dspark_verify m e io s1 t drafts (nat k) cap eos)"
    using ck by (simp add: dspark_drafted_def Let_def conf_def n_def s0_def k0_def k_def s1_def)
  note st = cascade_start_ok [OF assms(1), of ev conf n]
  note co = cascade_schedule_ok [OF conjunct1 [OF st] conjunct2 [OF st] ck]
  have r1: "spec_ready R s \<Longrightarrow> spec_ready R s1" "ss_checkpoint s1 = ss_checkpoint s"
    "ss_logits s1 = ss_logits s"
    using co(1) by (simp_all add: spec_ready_def s1_def s0_def)
  consider "k0 \<le> 0" | "k0 > 0" "sample_argmax (ss_logits s) \<noteq> hd drafts"
    | "k0 > 0" "sample_argmax (ss_logits s) = hd drafts" by fastforce
  then show ?thesis
  proof cases
    case 1
    then show ?thesis by (intro skip [of s0]) (simp_all add: d s0_def spec_ready_def)
  next
    case 2
    then show ?thesis
      using r1 by (intro skip [of "dspark_miss e io k s1"])
        (simp_all add: d dspark_miss_def Let_def spec_ready_def cascade_miss_ok)
  next
    case 3
    have n: "1 \<le> n" using assms(2) by (cases drafts) (simp_all add: n_def)
    then have "1 \<le> k" "k \<le> n" "k \<le> 5" using co(3) 3 by (auto simp: k_def at_most_min)
    then show ?thesis using 3 r1 n by (intro go [of s1 "nat k"]) (simp_all add: d n_def)
  qed
qed

lemma dspark_block_length:
  "length (metal_graph_eval_dspark_draft_block e io n) \<le> 5"
  "0 \<le> n \<Longrightarrow> int (length (metal_graph_eval_dspark_draft_block e io n)) \<le> n"
  by (auto simp: metal_graph_eval_dspark_draft_block_def at_most_min split: option.splits)

lemma spec_commits_extend:
  assumes "ss_checkpoint s1 = ss_checkpoint s @ [t]" "t \<noteq> eos"
    and "acc = t # append_accepted eos (nat (cap - 1)) ext" "int (length ext) \<le> spec_room e s mx cap"
    and "target_run R (ss_checkpoint s1) ext"
    and "ss_checkpoint s' = ss_checkpoint s1 @ ext" "spec_ready R s'"
  shows "spec_commits R e eos mx cap s t s' acc"
  unfolding spec_commits_def using assms by (intro exI [of _ ext]) auto

lemma eval_failed:
  "ds4_session_eval_internal m e bd io s t p = Inl f \<Longrightarrow> \<exists>s' msg. f = (s', SpecError msg)"
  by (auto simp: ds4_session_eval_internal_def spec_fail_def Let_def
      split: if_splits option.splits prod.splits)

text \<open>The first part of a round: the controllers, the budget and the normal token.\<close>

lemma argmax_seq_dspark_cases:
  assumes "spec_ready R s"
  obtains s0 k where "spec_ready R s0" "ss_checkpoint s0 = ss_checkpoint s"
    "k \<le> spec_room e s mx cap"
    "argmax_seq_dspark m e ev bd io s t mx eos cap =
      (if k \<le> 0 then (s0, SpecGap)
       else case ds4_session_eval_internal m e bd io s0 t False of
         Inl failed \<Rightarrow> failed
       | Inr s1 \<Rightarrow>
           if t = eos \<or> mx = 1 \<or> cap \<le> 1 \<or> metal_graph_eval_dspark_draft_block e io k = []
           then (s1, SpecAccepted [t])
           else dspark_drafted m e ev io s1 t (metal_graph_eval_dspark_draft_block e io k) cap eos)"
proof -
  obtain a c where ac: "ds4_session_dspark_draft_cap e ev (ss_adaptive s) = (a, c)" by (meson surj_pair)
  define s0 where "s0 = s\<lparr>ss_stats := (ss_stats s)\<lparr>st_attempts := st_attempts (ss_stats s) + 1\<rparr>, ss_adaptive := a\<rparr>"
  define k where "k = spec_budget e s0 mx cap (at_most (dspark_verify_cap e ev) c)"
  show ?thesis
  proof (rule that [of s0 k])
    show "spec_ready R s0" "ss_checkpoint s0 = ss_checkpoint s"
      using assms by (simp_all add: s0_def spec_ready_def)
    then have "spec_room e s0 mx cap = spec_room e s mx cap" by (intro spec_room_cong)
    then show "k \<le> spec_room e s mx cap" unfolding k_def using spec_budget_room by metis
  qed (use ac in \<open>simp add: argmax_seq_dspark_def Let_def s0_def k_def split: sum.split\<close>)
qed

lemma argmax_seq_dspark_step:
  assumes m: "computes R m" and s: "spec_ready R s"
    and r: "argmax_seq_dspark m e ev bd io s t mx eos cap = (s', SpecAccepted acc)"
  shows "spec_commits R e eos mx cap s t s' acc"
proof -
  obtain s0 k where s0: "spec_ready R s0" "ss_checkpoint s0 = ss_checkpoint s"
    and room: "k \<le> spec_room e s mx cap"
    and eq: "argmax_seq_dspark m e ev bd io s t mx eos cap =
      (if k \<le> 0 then (s0, SpecGap)
       else case ds4_session_eval_internal m e bd io s0 t False of
         Inl failed \<Rightarrow> failed
       | Inr s1 \<Rightarrow>
           if t = eos \<or> mx = 1 \<or> cap \<le> 1 \<or> metal_graph_eval_dspark_draft_block e io k = []
           then (s1, SpecAccepted [t])
           else dspark_drafted m e ev io s1 t (metal_graph_eval_dspark_draft_block e io k) cap eos)"
    by (rule argmax_seq_dspark_cases [OF s])
  have k: "(k \<le> 0) = False" using r unfolding eq by auto
  obtain s1 where s1: "ds4_session_eval_internal m e bd io s0 t False = Inr s1"
    using r eval_failed unfolding eq by (fastforce split: if_splits sum.splits)
  have r1: "(s', SpecAccepted acc) =
      (if t = eos \<or> mx = 1 \<or> cap \<le> 1 \<or> metal_graph_eval_dspark_draft_block e io k = []
       then (s1, SpecAccepted [t])
       else dspark_drafted m e ev io s1 t (metal_graph_eval_dspark_draft_block e io k) cap eos)"
    using r k unfolding eq s1 sum.case by (simp only: if_False)
  note e1 = eval_step [OF m s0(1) s1]
  show ?thesis
  proof (cases "t = eos \<or> mx = 1 \<or> cap \<le> 1 \<or> metal_graph_eval_dspark_draft_block e io k = []")
    case True
    then have "s' = s1" "acc = [t]" using r1 by (auto split: if_splits)
    then show ?thesis using e1 s0(2) by (simp add: spec_commits_one)
  next
    case False
    define ds where "ds = metal_graph_eval_dspark_draft_block e io k"
    from False have r2: "dspark_drafted m e ev io s1 t ds cap eos = (s', SpecAccepted acc)" "t \<noteq> eos" "ds \<noteq> []"
      using r1 by (auto simp: ds_def)
    have ok: "cascade_ok (ss_cascade s1)" using e1 by (simp add: spec_ready_def)
    show ?thesis
    proof (cases rule: dspark_drafted_cases [where R = R and m = m and e = e and ev = ev and io = io and t = t and cap = cap and eos = eos, OF ok r2(3), case_names skip go])
      case (skip s2)
      then show ?thesis using r2(1) e1 s0(2) by (simp add: spec_commits_one)
    next
      case (go s2 sch)
      have "dspark_verify m e io s2 t ds sch cap eos = (s', SpecAccepted acc)" using go(1) r2(1) by simp
      from dspark_verify_step [OF m go(4) [OF e1(2)] go(5,6) _ this]
      obtain ext where ext: "acc = t # append_accepted eos (nat (cap - 1)) ext" "length ext \<le> sch"
        "target_run R (ss_checkpoint s2) ext" "ss_checkpoint s' = ss_checkpoint s2 @ ext"
        "spec_ready R s'" using go(3,8) by auto
      have "int (length ds) \<le> k" using dspark_block_length(2) [of k e io] k by (simp add: ds_def)
      then have "int (length ext) \<le> spec_room e s mx cap" using ext(2) go(6) room by linarith
      then show ?thesis
        by (intro spec_commits_extend [where ?s1.0 = s1 and ext = ext]) (use ext e1 s0 go r2 in simp_all)
    qed
  qed
qed

lemma argmax_seq_dspark_total:
  assumes s: "computes R m" "spec_ready R s"
    and io: "io_eval io" "io_verify io" "io_rollback io" "io_read io" "en_prefill_cap e \<ge> 5"
  shows "\<exists>s' rc. argmax_seq_dspark m e ev bd io s t mx eos cap = (s', rc)
    \<and> (rc = SpecGap \<and> spec_ready R s' \<and> ss_checkpoint s' = ss_checkpoint s \<or> (\<exists>acc. rc = SpecAccepted acc))"
proof -
  obtain s0 k where s0: "spec_ready R s0" "ss_checkpoint s0 = ss_checkpoint s"
    and room: "k \<le> spec_room e s mx cap"
    and eq: "argmax_seq_dspark m e ev bd io s t mx eos cap =
      (if k \<le> 0 then (s0, SpecGap)
       else case ds4_session_eval_internal m e bd io s0 t False of
         Inl failed \<Rightarrow> failed
       | Inr s1 \<Rightarrow>
           if t = eos \<or> mx = 1 \<or> cap \<le> 1 \<or> metal_graph_eval_dspark_draft_block e io k = []
           then (s1, SpecAccepted [t])
           else dspark_drafted m e ev io s1 t (metal_graph_eval_dspark_draft_block e io k) cap eos)"
    by (rule argmax_seq_dspark_cases [OF s(2)])
  obtain s1 where s1: "ds4_session_eval_internal m e bd io s0 t False = Inr s1"
    using eval_total [OF io(1,4)] io(5) by fastforce
  define ds where "ds = metal_graph_eval_dspark_draft_block e io k"
  have "\<exists>s' acc. dspark_drafted m e ev io s1 t ds cap eos = (s', SpecAccepted acc)" if "ds \<noteq> []"
  proof -
    have ok: "cascade_ok (ss_cascade s1)" using eval_step [OF s(1) s0(1) s1] by (simp add: spec_ready_def)
    show ?thesis
    proof (cases rule: dspark_drafted_cases [where R = R and m = m and e = e and ev = ev and io = io and t = t and cap = cap and eos = eos, OF ok that, case_names skip go])
      case (go s2 sch)
      have "\<exists>s' acc. dspark_verify m e io s2 t ds sch cap eos = (s', SpecAccepted acc)"
        by (rule dspark_verify_total) (use go io in simp_all)
      then show ?thesis using go(1) by simp
    qed blast
  qed
  then show ?thesis using s0 unfolding eq s1 ds_def [symmetric] by auto
qed

section \<open>The combined round\<close>

lemma combined_start_ok:
  "cascade_ok c \<Longrightarrow> cascade_ok (combined_start ev c) \<and> cs_inited (combined_start ev c)"
  by (simp add: cascade_ok_def combined_start_def)

lemma combined_retune_ok:
  "cascade_ok c \<Longrightarrow> cascade_ok (combined_retune c) \<and> cs_inited (combined_retune c) = cs_inited c"
  by (auto simp: cascade_ok_def combined_retune_def Let_def)

lemma combined_depth_ok:
  assumes "cascade_ok c" "combined_depth ev c = (c', k)"
  shows "cascade_ok c'" "k = 1 \<or> k = 2"
proof -
  note st = combined_start_ok [OF assms(1), of ev]
  note r = combined_retune_ok [OF conjunct1 [OF st]]
  then have "cs_cap (combined_retune (combined_start ev c)) = 1
      \<or> cs_cap (combined_retune (combined_start ev c)) = 2"
    using st by (simp add: cascade_ok_def)
  then show "cascade_ok c'" "k = 1 \<or> k = 2"
    using assms st r by (auto simp: combined_depth_def Let_def split: if_splits)
qed

lemma combined_observe_ok:
  assumes "cascade_ok c"
  shows "cascade_ok (combined_observe n k ms c)"
proof -
  define c1 where "c1 = c\<lparr>cs_ewma_p0 := 3 / 4 * cs_ewma_p0 c + 1 / 4 * (if k \<ge> 1 then 1 else 0)\<rparr>"
  define c2 where "c2 = (if n \<ge> 2 \<and> k \<ge> 1
    then c1\<lparr>cs_ewma_p1 := 3 / 4 * cs_ewma_p1 c1 + 1 / 4 * (if k \<ge> 2 then 1 else 0)\<rparr> else c1)"
  define c3 where "c3 = (if n \<ge> 2 then c2\<lparr>cs_ms_n3 := ewma_cost (cs_ms_n3 c2) ms\<rparr>
    else c2\<lparr>cs_ms_n2 := ewma_cost (cs_ms_n2 c2) ms\<rparr>)"
  have "cascade_ok c1" using assms by (simp add: cascade_ok_def c1_def)
  then have "cascade_ok c2" by (simp add: cascade_ok_def c2_def)
  then have "cascade_ok c3" by (simp add: cascade_ok_def c3_def)
  then have "cascade_ok (c3\<lparr>cs_samples := cs_samples c3 + 1\<rparr>)" by (simp add: cascade_ok_def)
  then have "cascade_ok (cascade_probed (int n) (c3\<lparr>cs_samples := cs_samples c3 + 1\<rparr>))"
    by (rule cascade_probed_ok)
  moreover have "combined_observe n k ms c = (if cs_adaptive c
      then cascade_probed (int n) (c3\<lparr>cs_samples := cs_samples c3 + 1\<rparr>) else c)"
    unfolding combined_observe_def Let_def c1_def [symmetric] c2_def [symmetric] c3_def [symmetric]
    by (rule refl)
  ultimately show ?thesis using assms by simp
qed

lemma combined_stats_simps [simp]:
  "ss_checkpoint (combined_stats e io b n k s) = ss_checkpoint s"
  "ss_checkpoint_valid (combined_stats e io b n k s)"
  "ss_logits (combined_stats e io b n k s) = ss_logits s"
  "gr_frontier (ss_graph (combined_stats e io b n k s)) = gr_frontier (ss_graph s)"
  "cascade_ok (ss_cascade s) \<Longrightarrow> cascade_ok (ss_cascade (combined_stats e io b n k s))"
  by (simp_all add: combined_stats_def Let_def combined_observe_ok)

lemma combined_rollback_frontier:
  assumes "metal_graph_verify_suffix_tops m e dev g (ckpt @ t # drafts) (length ckpt) (length drafts + 1) True
      = Some (g1, tops)"
    and "combined_rollback io k (length drafts) g1 = Some g2" "k \<le> length drafts"
  shows "gr_frontier g2 = gr_frontier g @ t # take k drafts" "gr_rows g2 = gr_rows g1"
proof -
  have v: "metal_graph_verify_suffix_tops m e dev g (ckpt @ (t # drafts)) (length ckpt)
      (length (t # drafts)) True = Some (g1, tops)"
    using assms(1) by simp
  have f: "gr_frontier g1 = gr_frontier g @ t # drafts" by (rule verify_suffix_Some(1) [OF v])
  have p1: "drafts \<noteq> [] \<Longrightarrow> gr_prefix1 g1 = gr_frontier g @ [t]"
    using verify_suffix_Some(3) [OF v TrueI] by (cases drafts) auto
  have p2: "length drafts \<ge> 2 \<Longrightarrow> gr_prefix2 g1 = gr_frontier g @ t # take 1 drafts"
    using verify_suffix_Some(4) [OF v TrueI] by simp
  show "gr_frontier g2 = gr_frontier g @ t # take k drafts" "gr_rows g2 = gr_rows g1"
    using assms(2,3) f p1 p2
    by (auto simp: combined_rollback_def spec_frontier_commit_prefix1_def
        spec_frontier_commit_prefix2_def split: if_splits)
qed

lemma combined_verify_step:
  assumes m: "\<And>c. sm_batch m c \<in> R c"
    and s: "gr_frontier (ss_graph s) = ss_checkpoint s" "cascade_ok (ss_cascade s)"
    and t: "t \<noteq> eos" "int (length drafts) \<le> spec_room e s mx cap"
    and r: "combined_verify m e io s t drafts b cap eos = (s', SpecAccepted acc)"
  shows "spec_commits R e eos mx cap s t s' acc"
proof -
  let ?ck = "ss_checkpoint s"
  obtain g1 tops where v: "metal_graph_verify_suffix_tops m e (io_verify io) (ss_graph s)
      (?ck @ t # drafts) (length ?ck) (length drafts + 1) True = Some (g1, tops)"
    using r by (auto simp: combined_verify_def spec_fail_def Let_def split: option.splits)
  define k where "k = matching tops drafts"
  have k: "k \<le> length drafts" by (simp add: k_def matching_le)
  obtain g2 where rb: "combined_rollback io k (length drafts) g1 = Some g2"
    using r v by (auto simp: combined_verify_def spec_fail_def Let_def k_def split: option.splits)
  obtain row where row: "metal_graph_read_spec_logits_row e (io_read io) g2 k = Some row"
    using r v rb by (auto simp: combined_verify_def spec_fail_def Let_def k_def split: option.splits)
  have res: "acc = t # append_accepted eos (nat (cap - 1)) (take k drafts)"
    "s' = combined_stats e io b (length drafts) k (spec_argmax_snapshot_combined_prev_hc e io k
      (s\<lparr>ss_checkpoint := take (length ?ck + 1 + k) (?ck @ t # drafts), ss_graph := g2, ss_logits := row\<rparr>))"
    using r v rb row by (auto simp: combined_verify_def Let_def k_def)
  have v': "metal_graph_verify_suffix_tops m e (io_verify io) (ss_graph s)
      (?ck @ (t # drafts)) (length ?ck) (length (t # drafts)) True = Some (g1, tops)" using v by simp
  note vs = verify_suffix_Some [OF v']
  have greedy: "target_run R (?ck @ [t]) (take k drafts)"
    using matching_target [of "sm_batch m" R ?ck t drafts, OF m] s(1) unfolding k_def vs(5) by simp
  have front: "gr_frontier g2 = ?ck @ t # take k drafts" "gr_rows g2 = gr_rows g1"
    using combined_rollback_frontier [OF v rb k] s(1) by simp_all
  have "row = sm_batch m (?ck @ t # take k drafts)"
    using read_row_Some [OF row] front(2) k s(1) vs(2) batch_rows_nth [of k "t # drafts"] by simp
  then have "row \<in> R (?ck @ t # take k drafts)" using m by simp
  then have "spec_ready R s'" using s front unfolding res(2) by (simp add: spec_ready_def)
  moreover have "ss_checkpoint s' = ?ck @ t # take k drafts" unfolding res(2) by simp
  ultimately show ?thesis
    unfolding spec_commits_def using res(1) greedy t k by (intro exI [of _ "take k drafts"]) simp
qed

lemma draft_chain_simps:
  "gr_frontier (fst (draft_chain e io eos i n g ds)) = gr_frontier g"
  "length (snd (draft_chain e io eos i n g ds)) \<le> length ds + n"
proof (induction n arbitrary: i g ds)
  case (Suc n)
  { case 1 show ?case
      using Suc.IH(1) by (auto simp: metal_graph_eval_mtp_draft_from_hc_def split: option.splits) }
  { case 2 show ?case
      using Suc.IH(2) by (auto simp: metal_graph_eval_mtp_draft_from_hc_def split: option.splits
          intro: le_trans [OF Suc.IH(2)]) }
qed simp_all

lemma draft_from_hc_frontier:
  "metal_graph_eval_mtp_draft_from_hc e dev g = Some (g', t) \<Longrightarrow> gr_frontier g' = gr_frontier g"
  by (auto simp: metal_graph_eval_mtp_draft_from_hc_def split: if_splits option.splits)

text \<open>The first part of a combined round: the depth controller, the budget and the drafts.\<close>

lemma combined_cases:
  assumes "gr_frontier (ss_graph s) = ss_checkpoint s" "cascade_ok (ss_cascade s)" "t \<noteq> eos"
  obtains (gap) s1 where "ds4_session_eval_speculative_argmax_combined m e ev io s t mx eos cap = (s1, SpecGap)"
      "ss_checkpoint s1 = ss_checkpoint s" "ss_logits s1 = ss_logits s"
      "gr_frontier (ss_graph s1) = ss_checkpoint s1" "cascade_ok (ss_cascade s1)"
      "ss_checkpoint_valid s1 = ss_checkpoint_valid s"
  | (verify) s1 ds b where "ds4_session_eval_speculative_argmax_combined m e ev io s t mx eos cap
        = combined_verify m e io s1 t ds b cap eos"
      "ss_checkpoint s1 = ss_checkpoint s" "gr_frontier (ss_graph s1) = ss_checkpoint s1"
      "cascade_ok (ss_cascade s1)" "int (length ds) \<le> spec_room e s1 mx cap" "length ds \<le> 2"
proof -
  obtain c k where ck: "combined_depth ev (ss_cascade s) = (c, k)" by (meson surj_pair)
  note dep = combined_depth_ok [OF assms(2) ck]
  define s0 where "s0 = s\<lparr>ss_cascade := c\<rparr>"
  define n where "n = spec_budget e s0 mx cap k"
  have s0: "ss_checkpoint s0 = ss_checkpoint s" "ss_logits s0 = ss_logits s" "ss_graph s0 = ss_graph s"
    "ss_cascade s0 = c" "ss_checkpoint_valid s0 = ss_checkpoint_valid s" by (simp_all add: s0_def)
  have n: "n \<le> spec_room e s mx cap" "n \<le> 2"
    using spec_budget_room [of e s0 mx cap k] spec_room_cong [of s0 s] spec_budget_le(1) [of e s0 mx cap k] dep(2)
    by (auto simp: n_def s0)
  show thesis
  proof (cases "\<not> ss_prev_hc_valid s \<or> \<not> gr_has_prev_hc (ss_graph s) \<or> n < 1
      \<or> metal_graph_eval_mtp_draft_from_hc e (io_mtp io 0) (ss_graph s) = None")
    case True
    then have "ds4_session_eval_speculative_argmax_combined m e ev io s t mx eos cap = (s, SpecGap)
        \<or> ds4_session_eval_speculative_argmax_combined m e ev io s t mx eos cap = (s0, SpecGap)"
      using ck by (auto simp: ds4_session_eval_speculative_argmax_combined_def Let_def s0_def n_def)
    then show thesis
    proof
      assume "ds4_session_eval_speculative_argmax_combined m e ev io s t mx eos cap = (s, SpecGap)"
      from gap [OF this] assms show thesis by simp
    next
      assume "ds4_session_eval_speculative_argmax_combined m e ev io s t mx eos cap = (s0, SpecGap)"
      from gap [OF this] assms dep(1) s0 show thesis by simp
    qed
  next
    case False
    then obtain g d where g: "metal_graph_eval_mtp_draft_from_hc e (io_mtp io 0) (ss_graph s) = Some (g, d)" by auto
    obtain g1 ds where ds: "(if n > 1 then metal_graph_eval_mtp_draft_n_from_hc e io d (nat n) eos g
        else (g, [d])) = (g1, ds)" by (meson surj_pair)
    define s1 where "s1 = s0\<lparr>ss_graph := g1, ss_prev_hc_valid := False, ss_mtp_draft_valid := False\<rparr>"
    have eq: "ds4_session_eval_speculative_argmax_combined m e ev io s t mx eos cap =
        (if d < 0 then (s0\<lparr>ss_graph := g\<rparr>, SpecGap)
         else combined_verify m e io s1 t ds (gr_mtp_n_raw (ss_graph s)) cap eos)"
      using ck g ds False
      by (simp add: ds4_session_eval_speculative_argmax_combined_def Let_def s1_def s0_def n_def split: if_splits)
    have fr: "gr_frontier g = ss_checkpoint s" using draft_from_hc_frontier [OF g] assms(1) by simp
    have "int (length ds) \<le> n" "gr_frontier g1 = gr_frontier g"
      using ds draft_chain_simps [of e io eos 1 "nat n - 1" g "[d]"] False
      by (auto simp: metal_graph_eval_mtp_draft_n_from_hc_def split: if_splits)
    then show thesis
      using eq fr dep(1) n s0 spec_room_cong [of s1 s]
      by (cases "d < 0") (auto simp: s1_def intro: gap verify)
  qed
qed

text \<open>C25. A combined round of the legacy draft head: for every proposal of the head, an accepted round
  returns the normal token followed by the greedy continuation that the one batched pass itself has
  computed, up to the capacity of the caller and the end of the sequence; afterwards checkpoint and device
  hold exactly these tokens, and the logits are the row of that pass behind them.  Nothing is said of the
  kernels of the one-token path.\<close>

theorem combined_round_commits_batched_rows:
  assumes "gr_frontier (ss_graph s) = ss_checkpoint s" "cascade_ok (ss_cascade s)" "first_token \<noteq> eos_token"
    and "ds4_session_eval_speculative_argmax_combined m e ev io s first_token max_tokens eos_token
           accepted_cap = (s', SpecAccepted accepted)"
  shows "\<exists>ext. accepted = first_token # append_accepted eos_token (nat (accepted_cap - 1)) ext
    \<and> greedy_run (sm_batch m) (ss_checkpoint s @ [first_token]) ext
    \<and> ss_checkpoint s' = ss_checkpoint s @ first_token # ext \<and> gr_frontier (ss_graph s') = ss_checkpoint s'
    \<and> ss_logits s' = sm_batch m (ss_checkpoint s') \<and> ss_checkpoint_valid s'"
  using assms(1-3)
proof (cases rule: combined_cases [where m = m and e = e and ev = ev and io = io and mx = max_tokens and cap = accepted_cap])
  case (verify s1 ds b)
  have "spec_commits (\<lambda>c. {sm_batch m c}) e eos_token max_tokens accepted_cap s1 first_token s' accepted"
    by (rule combined_verify_step [OF _ verify(3,4) assms(3) verify(5)]) (use verify(1) assms(4) in auto)
  then show ?thesis using verify(2) by (auto simp: spec_commits_def target_run_single spec_ready_def)
qed (use assms(4) in auto)

lemma combined_step:
  assumes m: "computes R m" and s: "spec_ready R s" and t: "t \<noteq> eos"
    and io: "io_verify io" "io_rollback io" "io_read io" "en_prefill_cap e \<ge> 5"
    and r: "ds4_session_eval_speculative_argmax_combined m e ev io s t mx eos cap = (s', rc)"
  shows "rc = SpecGap \<and> ss_checkpoint s' = ss_checkpoint s \<and> spec_ready R s'
    \<or> (\<exists>acc. rc = SpecAccepted acc \<and> spec_commits R e eos mx cap s t s' acc)"
proof -
  have f: "gr_frontier (ss_graph s) = ss_checkpoint s" "cascade_ok (ss_cascade s)" using s by (simp_all add: spec_ready_def)
  show ?thesis
    using f t
  proof (cases rule: combined_cases [where m = m and e = e and ev = ev and io = io and mx = mx and cap = cap])
    case (gap s1)
    then show ?thesis using r s by (auto simp: spec_ready_def)
  next
    case (verify s1 ds b)
    have "\<exists>acc. rc = SpecAccepted acc"
    proof -
      obtain g tops where v: "metal_graph_verify_suffix_tops m e True (ss_graph s1)
          (ss_checkpoint s1 @ t # ds) (length (ss_checkpoint s1)) (length ds + 1) True = Some (g, tops)"
        using verify_suffix_total [of "t # ds" e m "ss_graph s1" "ss_checkpoint s1" True] io(4) verify(6) by auto
      have k: "matching tops ds \<le> length ds" by (rule matching_le)
      then have "matching tops ds = length ds \<or> matching tops ds = 0 \<or> matching tops ds = 1"
        using verify(6) by linarith
      then obtain g2 where "combined_rollback io (matching tops ds) (length ds) g = Some g2"
        using io(2) by (fastforce simp: combined_rollback_def spec_frontier_commit_prefix1_def
            spec_frontier_commit_prefix2_def)
      moreover have "\<not> en_prefill_cap e \<le> matching tops ds" using k verify(6) io(4) by linarith
      ultimately show ?thesis
        using v io r verify(1) by (auto simp: combined_verify_def Let_def metal_graph_read_spec_logits_row_def)
    qed
    then obtain acc where acc: "rc = SpecAccepted acc" by blast
    have "spec_commits R e eos mx cap s1 t s' acc"
      by (rule combined_verify_step [OF _ verify(3,4) t verify(5)])
        (use verify(1) r acc m in \<open>auto simp: computes_def\<close>)
    then show ?thesis using acc verify(2) spec_room_cong [OF verify(2)] by (auto simp: spec_commits_def)
  qed
qed

section \<open>The dispatcher with a DSpark head\<close>

definition dspark_engine :: "spec_engine \<Rightarrow> bool" where
  "dspark_engine e \<longleftrightarrow>
     en_kind e = DS4_MTP_DRAFT_DSPARK \<and> en_dspark_ready e \<and> en_mtp_spec_ready e
     \<and> en_prefill_cap e \<ge> 5"

definition device_works :: "spec_io \<Rightarrow> bool" where
  "device_works io \<longleftrightarrow>
     io_eval io \<and> io_verify io \<and> io_rollback io \<and> io_read io \<and> io_frontier io \<and> (\<forall>k. io_restore io k)
     \<and> io_decode2 io \<and> (\<forall>k. io_replay io k) \<and> io_verify_again io \<and> io_read_again io
     \<and> (\<forall>k. io_seq io k) \<and> io_seq_read io"

text \<open>The legacy head is not bound, so the canonical path returns the token alone.\<close>

lemma eval_no_draft:
  assumes "en_kind e \<noteq> DS4_MTP_DRAFT_LEGACY" "ds4_session_eval_internal m e bd io s t True = Inr s'"
  shows "\<not> ss_mtp_draft_valid s'"
  using assms
  by (auto simp: ds4_session_eval_internal_def eval_probe_def metal_graph_eval_mtp_draft_from_hc_def Let_def
      split: if_splits option.splits prod.splits)

lemma spec_canonical_dspark:
  assumes "computes R m" "spec_ready R s" "en_kind e \<noteq> DS4_MTP_DRAFT_LEGACY"
    and "ds4_session_eval_internal m e bd io s t True = Inr s1"
  shows "\<exists>s'. spec_canonical m e ev bd io s t mx eos cap = (s', SpecAccepted [t])
    \<and> ss_checkpoint s' = ss_checkpoint s @ [t] \<and> spec_ready R s'"
  using eval_step [OF assms(1,2,4)] eval_no_draft [OF assms(3,4)] assms(4)
  by (auto simp: spec_canonical_def Let_def spec_ready_def split: option.splits)

lemma dispatch_dspark:
  assumes "en_kind e = DS4_MTP_DRAFT_DSPARK" "en_dspark_ready e" "en_mtp_spec_ready e" "0 < mx" "0 < cap"
    and r: "argmax_seq_dspark m e ev bd io s t mx eos cap = (s1, rc)"
  shows "ds4_session_eval_speculative_argmax m e ev bd io s t mx eos cap =
    (if rc \<noteq> SpecGap then (s1, rc) else spec_canonical m e ev bd io s1 t mx eos cap)"
proof -
  have k: "en_dspark_ready e = True" "en_mtp_spec_ready e = True" "en_kind e = DS4_MTP_DRAFT_DSPARK"
    "(mx \<le> 0) = False" "(cap \<le> 0) = False"
    using assms by simp_all
  show ?thesis
    unfolding ds4_session_eval_speculative_argmax_def ds4_session_eval_speculative_argmax_seq_def Let_def
    by (simp only: k r simp_thms if_True if_False prod.case)
qed

lemma speculative_argmax_dspark:
  assumes m: "computes R m" and e: "dspark_engine e" and io: "device_works io"
    and s: "spec_ready R s" and n: "0 < mx" "0 < cap"
  shows "\<exists>s' acc. ds4_session_eval_speculative_argmax m e ev bd io s t mx eos cap
      = (s', SpecAccepted acc) \<and> spec_commits R e eos mx cap s t s' acc"
proof -
  have io': "io_eval io" "io_verify io" "io_rollback io" "io_read io" "en_prefill_cap e \<ge> 5"
    using io e by (simp_all add: device_works_def dspark_engine_def)
  obtain s1 rc where r: "argmax_seq_dspark m e ev bd io s t mx eos cap = (s1, rc)"
    "rc = SpecGap \<and> spec_ready R s1 \<and> ss_checkpoint s1 = ss_checkpoint s \<or> (\<exists>acc. rc = SpecAccepted acc)"
    using argmax_seq_dspark_total [OF m s io', where ev = ev and bd = bd and t = t and mx = mx
        and eos = eos and cap = cap] by (elim exE conjE)
  have d: "ds4_session_eval_speculative_argmax m e ev bd io s t mx eos cap =
      (if rc \<noteq> SpecGap then (s1, rc) else spec_canonical m e ev bd io s1 t mx eos cap)"
    using e n by (intro dispatch_dspark [OF _ _ _ _ _ r(1)]) (simp_all add: dspark_engine_def)
  from r(2) show ?thesis
  proof (elim disjE exE conjE)
    fix acc assume "rc = SpecAccepted acc"
    then show ?thesis using r(1) argmax_seq_dspark_step [OF m s] by (simp add: d)
  next
    assume g: "rc = SpecGap" "spec_ready R s1" "ss_checkpoint s1 = ss_checkpoint s"
    obtain s2 where "ds4_session_eval_internal m e bd io s1 t True = Inr s2"
      using eval_total [OF io'(1,4)] io'(5) by fastforce
    from spec_canonical_dspark [OF m g(2) _ this] e
    obtain s' where "spec_canonical m e ev bd io s1 t mx eos cap = (s', SpecAccepted [t])"
      "ss_checkpoint s' = ss_checkpoint s1 @ [t]" "spec_ready R s'"
      by (fastforce simp: dspark_engine_def)
    then show ?thesis using g by (simp add: d spec_commits_one)
  qed
qed

end
