(* ===== verification/SessionSync.thy ===== *)
theory SessionSync
  imports SpecGreedy
begin

text \<open>
  Bringing a session to a prompt: \<open>ds4_session_sync\<close> of \<open>ds4.c\<close> with the prefill loops it calls
  (\<open>metal_graph_prefill_chunked_range\<close>, \<open>metal_graph_prefill_raw_swa\<close>,
  \<open>metal_graph_prefill_decode_streaming_range\<close>), the progress callback that advances the live
  checkpoint after each chunk, cancellation, and the rewrite of the live tail
  (\<open>ds4_session_rewrite_from_common\<close>).

  The session and its device are those of \<open>Speculative\<close>: the caches stand for the token sequence
  they have absorbed.  \<open>sync_io\<close> says for one call which device operations succeed and what the
  cancel callback answers; the layer-major prefill is a third path through the model, with its own
  logits \<open>sy_prefill\<close>.  The state counts the cancel queries and records what the progress
  callback of the caller sees.  Sessions are neither distributed nor compiled without a GPU.
\<close>

section \<open>Chunk sizes\<close>

text \<open>
  \<open>DS4_METAL_PREFILL_CHUNK\<close> and \<open>DS4_METAL_RESUME_PREFILL_MIN\<close>: \<open>None\<close> when unset or empty,
  else what \<open>strtol\<close> reads, which is \<open>None\<close> when the value does not begin with a number.
\<close>

definition ds4_prefill_cap_for_prompt ::
  "bool \<Rightarrow> int option option \<Rightarrow> int \<Rightarrow> u32 \<Rightarrow> u32" where
  "ds4_prefill_cap_for_prompt pro env prompt_len requested_chunk =
     (let whole = (word_of_int prompt_len :: u32);
          clamp = (\<lambda>cap. let cap = (if cap = 0 then 1 else cap) in if cap > whole then whole else cap)
      in
      if prompt_len \<le> 0 then 1
      else if requested_chunk \<noteq> 0 then clamp requested_chunk
      else
        (case env of
           Some None \<Rightarrow> clamp whole
         | Some (Some v) \<Rightarrow> if v \<le> 0 then whole else clamp (word_of_int v)
         | None \<Rightarrow>
             if prompt_len > 4096 then clamp (if pro then 8192 else 4096) else clamp whole))"

definition metal_graph_resume_prefill_min_tokens :: "int option option \<Rightarrow> u32" where
  "metal_graph_resume_prefill_min_tokens env =
     (case env of
        Some (Some v) \<Rightarrow> if v \<le> 0 then - 1 else word_of_int v
      | _ \<Rightarrow> 4)"

text \<open>The largest range the decode-style prefill takes.  \<open>wide\<close>: the first layer's experts are
  all of type Q4_K and the variant is Flash.\<close>

datatype ds4_variant = DS4_VARIANT_FLASH | DS4_VARIANT_PRO | DS4_VARIANT_OTHER

definition metal_graph_streaming_decode_prefill_max_tokens ::
  "ds4_variant \<Rightarrow> bool \<Rightarrow> bool \<Rightarrow> int option option \<Rightarrow> u32" where
  "metal_graph_streaming_decode_prefill_max_tokens variant q4k disabled env =
     (let default =
            (if variant \<noteq> DS4_VARIANT_PRO \<and> variant \<noteq> DS4_VARIANT_FLASH then 0
             else if variant = DS4_VARIANT_FLASH \<and> q4k then 64 else 18)
      in
      if disabled then 0
      else
        (case env of
           Some (Some v) \<Rightarrow>
             if v \<le> 0 then 0
             else if v > int (unat (- 1 :: u32)) then - 1 else word_of_int v
         | _ \<Rightarrow> default))"

section \<open>The call and its state\<close>

record sync_io =
  sy_cpu :: bool
  sy_prefill :: "int list \<Rightarrow> logits"
  sy_ssd_streaming :: bool
  sy_streaming_max :: u32
  sy_cold_disabled :: bool
  sy_resume_min :: u32
  sy_raw_cap :: nat
  sy_cancel :: "nat \<Rightarrow> bool"
  sy_device :: "nat \<Rightarrow> bool"
  sy_reset :: bool

record sync_state =
  sy_session :: spec_session
  sy_queries :: nat
  sy_events :: "(nat \<times> spec_session) list"

datatype prefill_rc = PrefillDone | PrefillCancelled | PrefillFailed

datatype sync_rc = SyncOk | SyncError string | SyncInterrupted

definition ds4_session_cancelled :: "sync_io \<Rightarrow> sync_state \<Rightarrow> bool \<times> sync_state" where
  "ds4_session_cancelled io st =
     (sy_cancel io (sy_queries st), st\<lparr>sy_queries := sy_queries st + 1\<rparr>)"

definition on_session :: "(spec_session \<Rightarrow> spec_session) \<Rightarrow> sync_state \<Rightarrow> sync_state" where
  "on_session f st = st\<lparr>sy_session := f (sy_session st)\<rparr>"

definition user_progress :: "nat \<Rightarrow> sync_state \<Rightarrow> sync_state" where
  "user_progress current st = st\<lparr>sy_events := sy_events st @ [(current, sy_session st)]\<rparr>"

definition ds4_session_note_prefill_progress ::
  "int list \<Rightarrow> nat \<Rightarrow> sync_state \<Rightarrow> sync_state" where
  "ds4_session_note_prefill_progress prompt current st =
     user_progress current
       (if current > 0 \<and> current \<le> length prompt then
          on_session (\<lambda>s. s\<lparr>ss_checkpoint := take current prompt, ss_checkpoint_valid := True,
                            ss_mtp_draft_valid := False\<rparr>) st
        else st)"

definition note_progress :: "bool \<Rightarrow> int list \<Rightarrow> nat \<Rightarrow> sync_state \<Rightarrow> sync_state" where
  "note_progress progress prompt current st =
     (if progress then ds4_session_note_prefill_progress prompt current st else st)"

section \<open>Prefill\<close>

definition metal_graph_use_streaming_decode_prefill ::
  "spec_engine \<Rightarrow> sync_io \<Rightarrow> nat \<Rightarrow> bool" where
  "metal_graph_use_streaming_decode_prefill e io n_tokens \<longleftrightarrow>
     sy_ssd_streaming io \<and> \<not> en_quality e
     \<and> n_tokens \<noteq> 0 \<and> sy_streaming_max io \<noteq> 0 \<and> n_tokens \<le> unat (sy_streaming_max io)"

definition metal_graph_use_streaming_decode_prefill_range ::
  "spec_engine \<Rightarrow> sync_io \<Rightarrow> nat \<Rightarrow> nat \<Rightarrow> bool" where
  "metal_graph_use_streaming_decode_prefill_range e io start n_tokens \<longleftrightarrow>
     \<not> (start = 0 \<and> sy_cold_disabled io)
     \<and> metal_graph_use_streaming_decode_prefill e io n_tokens"

text \<open>One token through the device; the logits are read when asked for.\<close>

definition absorb_token :: "spec_model \<Rightarrow> int \<Rightarrow> bool \<Rightarrow> spec_session \<Rightarrow> spec_session" where
  "absorb_token m token read s =
     (let fr = gr_frontier (ss_graph s) @ [token] in
      s\<lparr>ss_graph := (ss_graph s)\<lparr>gr_frontier := fr, gr_cur_hc := fr\<rparr>,
        ss_logits := (if read then sm_target m fr else ss_logits s)\<rparr>)"

text \<open>The decode-style prefill: token by token, the callback told at both ends only.\<close>

fun decode_streaming_loop ::
  "spec_model \<Rightarrow> sync_io \<Rightarrow> int list \<Rightarrow> bool \<Rightarrow> nat \<Rightarrow> nat \<Rightarrow> sync_state \<Rightarrow> sync_state \<times> prefill_rc"
where
  "decode_streaming_loop m io prompt progress pos 0 st = (st, PrefillDone)"
| "decode_streaming_loop m io prompt progress pos (Suc left) st =
     (let (cancelled, st) = ds4_session_cancelled io st in
      if cancelled then (st, PrefillCancelled)
      else if \<not> sy_device io pos then (st, PrefillFailed)
      else
        (let st = on_session (absorb_token m (prompt ! pos) (left = 0)) st;
             st = (if left = 0 then note_progress progress prompt (pos + 1) st else st);
             (cancelled, st) = ds4_session_cancelled io st in
         if cancelled then (st, PrefillCancelled)
         else decode_streaming_loop m io prompt progress (pos + 1) left st))"

definition metal_graph_prefill_decode_streaming_range ::
  "spec_model \<Rightarrow> spec_engine \<Rightarrow> sync_io \<Rightarrow> int list \<Rightarrow> bool \<Rightarrow> nat \<Rightarrow> nat \<Rightarrow> sync_state
   \<Rightarrow> sync_state \<times> prefill_rc" where
  "metal_graph_prefill_decode_streaming_range m e io prompt progress start n_tokens st =
     (if \<not> metal_graph_use_streaming_decode_prefill e io n_tokens then (st, PrefillFailed)
      else if start > length prompt \<or> n_tokens > length prompt - start then (st, PrefillFailed)
      else decode_streaming_loop m io prompt progress start n_tokens
             (note_progress progress prompt start st))"

text \<open>The layer-major prefill of one chunk.\<close>

definition metal_graph_prefill_layer_major ::
  "sync_io \<Rightarrow> nat \<Rightarrow> int list \<Rightarrow> nat \<Rightarrow> nat \<Rightarrow> bool \<Rightarrow> spec_session \<Rightarrow> spec_session option" where
  "metal_graph_prefill_layer_major io prefill_cap prompt start n_tokens read s =
     (if n_tokens = 0 \<or> n_tokens > prefill_cap then None
      else if start > length prompt then None
      else if n_tokens > length prompt - start then None
      else if sy_device io start then
        (let fr = gr_frontier (ss_graph s) @ take n_tokens (drop start prompt) in
         Some (s\<lparr>ss_graph := (ss_graph s)\<lparr>gr_frontier := fr\<rparr>,
                 ss_logits := (if read then sy_prefill io fr else ss_logits s)\<rparr>))
      else None)"

definition prefill_chunk_len :: "nat \<Rightarrow> nat \<Rightarrow> nat \<Rightarrow> nat \<Rightarrow> nat \<Rightarrow> nat" where
  "prefill_chunk_len prefill_cap chunk_cap start pos0 end_pos =
     (let local_cap =
            (if start \<noteq> 0 \<and> prefill_cap \<noteq> 0 \<and> pos0 mod prefill_cap \<noteq> 0
             then min (prefill_cap - pos0 mod prefill_cap) chunk_cap else chunk_cap)
      in min (end_pos - pos0) local_cap)"

partial_function (option) prefill_chunk_loop ::
  "sync_io \<Rightarrow> int list \<Rightarrow> bool \<Rightarrow> nat \<Rightarrow> nat \<Rightarrow> nat \<Rightarrow> nat \<Rightarrow> nat \<Rightarrow> sync_state
   \<Rightarrow> (sync_state \<times> prefill_rc) option" where
  "prefill_chunk_loop io prompt progress prefill_cap chunk_cap start end_pos pos0 st =
     (if pos0 < end_pos then
        (let cancelled = fst (ds4_session_cancelled io st); st = snd (ds4_session_cancelled io st) in
         if cancelled then Some (st, PrefillCancelled)
         else
           (let chunk = prefill_chunk_len prefill_cap chunk_cap start pos0 end_pos;
                chunk_end = pos0 + chunk in
            case metal_graph_prefill_layer_major io prefill_cap prompt pos0 chunk
                   (progress \<or> chunk_end = end_pos) (sy_session st) of
              None \<Rightarrow> Some (st, PrefillFailed)
            | Some s \<Rightarrow>
                (let st = note_progress progress prompt chunk_end (st\<lparr>sy_session := s\<rparr>);
                     cancelled = fst (ds4_session_cancelled io st);
                     st = snd (ds4_session_cancelled io st) in
                 if cancelled then Some (st, PrefillCancelled)
                 else prefill_chunk_loop io prompt progress prefill_cap chunk_cap start end_pos
                        chunk_end st)))
      else Some (st, PrefillDone))"

definition metal_graph_prefill_chunked_range ::
  "spec_model \<Rightarrow> spec_engine \<Rightarrow> sync_io \<Rightarrow> int list \<Rightarrow> bool \<Rightarrow> nat \<Rightarrow> nat \<Rightarrow> sync_state
   \<Rightarrow> (sync_state \<times> prefill_rc) option" where
  "metal_graph_prefill_chunked_range m e io prompt progress start n_tokens st =
     (if n_tokens = 0 \<or> en_prefill_cap e = 0 then Some (st, PrefillFailed)
      else if start > length prompt then Some (st, PrefillFailed)
      else if n_tokens > length prompt - start then Some (st, PrefillFailed)
      else if metal_graph_use_streaming_decode_prefill_range e io start n_tokens then
        Some (metal_graph_prefill_decode_streaming_range m e io prompt progress start n_tokens st)
      else
        (let chunk_cap = (if start \<noteq> 0 \<and> en_prefill_cap e > sy_raw_cap io then sy_raw_cap io
                          else en_prefill_cap e) in
         if chunk_cap = 0 then Some (st, PrefillFailed)
         else
           prefill_chunk_loop io prompt progress (en_prefill_cap e) chunk_cap start
             (start + n_tokens) start (note_progress progress prompt start st)))"

definition metal_graph_prefill_chunked ::
  "spec_model \<Rightarrow> spec_engine \<Rightarrow> sync_io \<Rightarrow> int list \<Rightarrow> bool \<Rightarrow> nat \<Rightarrow> sync_state
   \<Rightarrow> (sync_state \<times> prefill_rc) option" where
  "metal_graph_prefill_chunked m e io prompt progress n_tokens st =
     (if n_tokens = 0 then Some (st, PrefillFailed)
      else metal_graph_prefill_chunked_range m e io prompt progress 0 n_tokens st)"

definition metal_graph_prefill_raw_swa ::
  "spec_model \<Rightarrow> spec_engine \<Rightarrow> sync_io \<Rightarrow> int list \<Rightarrow> nat \<Rightarrow> sync_state \<Rightarrow> sync_state \<times> prefill_rc"
where
  "metal_graph_prefill_raw_swa m e io prompt n_tokens st =
     (if n_tokens = 0 \<or> n_tokens > length prompt then (st, PrefillFailed)
      else if n_tokens > en_prefill_cap e then (st, PrefillFailed)
      else if metal_graph_use_streaming_decode_prefill_range e io 0 n_tokens then
        metal_graph_prefill_decode_streaming_range m e io prompt False 0 n_tokens st
      else
        (case metal_graph_prefill_layer_major io (en_prefill_cap e) prompt 0 n_tokens True (sy_session st) of
           None \<Rightarrow> (st, PrefillFailed)
         | Some s \<Rightarrow> (st\<lparr>sy_session := s\<rparr>, PrefillDone)))"

definition metal_graph_reset_prefill_state :: "sync_io \<Rightarrow> spec_graph \<Rightarrow> spec_graph option" where
  "metal_graph_reset_prefill_state io g =
     (if sy_reset io then Some (g\<lparr>gr_frontier := [], gr_mtp_n_raw := 0\<rparr>) else None)"

section \<open>Synchronization\<close>

definition extends_checkpoint :: "spec_session \<Rightarrow> int list \<Rightarrow> bool" where
  "extends_checkpoint s prompt \<longleftrightarrow>
     ss_checkpoint_valid s \<and> length prompt \<ge> length (ss_checkpoint s) \<and> prefix (ss_checkpoint s) prompt"

definition sync_interrupted :: "sync_state \<Rightarrow> sync_state \<times> sync_rc" where
  "sync_interrupted st =
     (on_session (\<lambda>s. s\<lparr>ss_checkpoint_valid := True, ss_mtp_draft_valid := False\<rparr>) st, SyncInterrupted)"

definition sync_fail :: "string \<Rightarrow> sync_state \<Rightarrow> sync_state \<times> sync_rc" where
  "sync_fail msg st = (on_session (\<lambda>s. s\<lparr>ss_checkpoint_valid := False\<rparr>) st, SyncError msg)"

text \<open>The short suffix, one token at a time: on the CPU and on the device.\<close>

fun sync_decode_cpu ::
  "spec_model \<Rightarrow> sync_io \<Rightarrow> nat \<Rightarrow> int list \<Rightarrow> sync_state \<Rightarrow> sync_state \<times> sync_rc" where
  "sync_decode_cpu m io i [] st =
     (on_session (\<lambda>s. s\<lparr>ss_checkpoint_valid := True\<rparr>) st, SyncOk)"
| "sync_decode_cpu m io i (t # ts) st =
     (let (cancelled, st) = ds4_session_cancelled io st in
      if cancelled then sync_interrupted st
      else
        sync_decode_cpu m io (i + 1) ts
          (user_progress (i + 1)
            (on_session (\<lambda>s. (absorb_token m t True s)\<lparr>ss_checkpoint := ss_checkpoint s @ [t]\<rparr>) st)))"

fun sync_decode_graph ::
  "spec_model \<Rightarrow> spec_engine \<Rightarrow> sync_io \<Rightarrow> nat \<Rightarrow> int list \<Rightarrow> sync_state \<Rightarrow> sync_state \<times> sync_rc"
where
  "sync_decode_graph m e io i [] st = (st, SyncOk)"
| "sync_decode_graph m e io i (t # ts) st =
     (let (cancelled, st) = ds4_session_cancelled io st in
      if cancelled then sync_interrupted st
      else if \<not> sy_device io i then
        sync_fail (en_backend_name e @ '' decode failed while extending checkpoint'') st
      else
        sync_decode_graph m e io (i + 1) ts
          (on_session (\<lambda>s. (absorb_token m t True s)\<lparr>ss_checkpoint := ss_checkpoint s @ [t]\<rparr>) st))"

definition sync_cpu ::
  "spec_model \<Rightarrow> sync_io \<Rightarrow> int list \<Rightarrow> sync_state \<Rightarrow> sync_state \<times> sync_rc" where
  "sync_cpu m io prompt st =
     (let s = sy_session st; ck = ss_checkpoint s in
      if extends_checkpoint s prompt then
        sync_decode_cpu m io (length ck) (drop (length ck) prompt)
          (on_session (\<lambda>s. s\<lparr>ss_mtp_draft_valid := False\<rparr>) st)
      else
        (user_progress (length prompt)
          (on_session
            (\<lambda>s. s\<lparr>ss_graph := (ss_graph s)\<lparr>gr_frontier := prompt\<rparr>, ss_logits := sy_prefill io prompt,
                   ss_checkpoint := prompt, ss_checkpoint_valid := True, ss_mtp_draft_valid := False\<rparr>)
            st), SyncOk))"

definition sync_extend ::
  "spec_model \<Rightarrow> spec_engine \<Rightarrow> sync_io \<Rightarrow> int list \<Rightarrow> sync_state \<Rightarrow> (sync_state \<times> sync_rc) option"
where
  "sync_extend m e io prompt st =
     (let st = on_session (\<lambda>s. s\<lparr>ss_mtp_draft_valid := False\<rparr>) st;
          ck = ss_checkpoint (sy_session st);
          suffix = length prompt - length ck in
      if suffix > 0 \<and> suffix \<ge> unat (sy_resume_min io) then
        (case metal_graph_prefill_chunked_range m e io prompt True (length ck) suffix st of
           None \<Rightarrow> None
         | Some (st, PrefillCancelled) \<Rightarrow> Some (sync_interrupted st)
         | Some (st, PrefillFailed) \<Rightarrow>
             Some (sync_fail (en_backend_name e
               @ '' resumed prefill failed while extending checkpoint'') st)
         | Some (st, PrefillDone) \<Rightarrow>
             Some (on_session (\<lambda>s. s\<lparr>ss_checkpoint := prompt, ss_checkpoint_valid := True\<rparr>) st, SyncOk))
      else Some (sync_decode_graph m e io (length ck) (drop (length ck) prompt) st))"

definition sync_finish ::
  "spec_engine \<Rightarrow> int list \<Rightarrow> sync_state \<times> prefill_rc \<Rightarrow> sync_state \<times> sync_rc" where
  "sync_finish e prompt r =
     (case r of
        (st, PrefillFailed) \<Rightarrow> sync_fail (en_backend_name e @ '' prefill failed'') st
      | (st, _) \<Rightarrow>
          (on_session (\<lambda>s. s\<lparr>ss_checkpoint := prompt, ss_checkpoint_valid := True,
                             ss_mtp_draft_valid := False,
                             ss_graph := (ss_graph s)\<lparr>gr_mtp_n_raw := 0\<rparr>\<rparr>) st, SyncOk))"

definition sync_restart ::
  "spec_model \<Rightarrow> spec_engine \<Rightarrow> sync_io \<Rightarrow> int list \<Rightarrow> sync_state \<Rightarrow> (sync_state \<times> sync_rc) option"
where
  "sync_restart m e io prompt st =
     (let st = on_session (\<lambda>s. s\<lparr>ss_checkpoint_valid := False, ss_checkpoint := [],
                                ss_mtp_draft_valid := False\<rparr>) st in
      case metal_graph_reset_prefill_state io (ss_graph (sy_session st)) of
        None \<Rightarrow> Some (st, SyncError (en_backend_name e @ '' prefill state reset failed''))
      | Some g \<Rightarrow>
          (let st = on_session (\<lambda>s. s\<lparr>ss_graph := g\<rparr>) st in
           if en_prefill_cap e < length prompt then
             (case metal_graph_prefill_chunked m e io prompt True (length prompt) st of
                None \<Rightarrow> None
              | Some (st, PrefillCancelled) \<Rightarrow>
                  Some (on_session (\<lambda>s. s\<lparr>ss_checkpoint_valid := ss_checkpoint s \<noteq> [],
                                         ss_mtp_draft_valid := False\<rparr>) st, SyncInterrupted)
              | Some r \<Rightarrow> Some (sync_finish e prompt r))
           else
             (case metal_graph_prefill_raw_swa m e io prompt (length prompt) st of
                (st, PrefillCancelled) \<Rightarrow> Some (st, SyncInterrupted)
              | r \<Rightarrow> Some (sync_finish e prompt r))))"

definition ds4_session_sync ::
  "spec_model \<Rightarrow> spec_engine \<Rightarrow> sync_io \<Rightarrow> int list \<Rightarrow> sync_state \<Rightarrow> (sync_state \<times> sync_rc) option"
where
  "ds4_session_sync m e io prompt st =
     (if prompt = [] \<or> int (length prompt) \<ge> en_ctx_size e
      then Some (st, SyncError ''prompt exceeds context'')
      else
        (let (cancelled, st) = ds4_session_cancelled io st in
         if cancelled then Some (st, SyncInterrupted)
         else if sy_cpu io then Some (sync_cpu m io prompt st)
         else if extends_checkpoint (sy_session st) prompt then sync_extend m e io prompt st
         else sync_restart m e io prompt st))"

section \<open>Rewriting the live tail\<close>

datatype ds4_session_rewrite_result =
    DS4_SESSION_REWRITE_OK
  | DS4_SESSION_REWRITE_REBUILD_NEEDED
  | DS4_SESSION_REWRITE_ERROR string

definition ds4_session_rewrite_requires_rebuild :: "int \<Rightarrow> int \<Rightarrow> int \<Rightarrow> bool" where
  "ds4_session_rewrite_requires_rebuild live_len canonical_len common \<longleftrightarrow>
     (if live_len < 0 \<or> canonical_len < 0 \<or> common < 0 then True
      else if common > live_len \<or> common > canonical_len then True
      else common < live_len)"

definition ds4_session_rewrite_from_common ::
  "spec_model \<Rightarrow> spec_engine \<Rightarrow> sync_io \<Rightarrow> int list \<Rightarrow> int \<Rightarrow> sync_state
   \<Rightarrow> (sync_state \<times> ds4_session_rewrite_result) option" where
  "ds4_session_rewrite_from_common m e io prompt common st =
     (let ck = ss_checkpoint (sy_session st) in
      if prompt = [] \<or> int (length prompt) \<ge> en_ctx_size e
      then Some (st, DS4_SESSION_REWRITE_ERROR ''prompt exceeds context'')
      else if \<not> ss_checkpoint_valid (sy_session st)
      then Some (st, DS4_SESSION_REWRITE_ERROR ''session has no valid checkpoint'')
      else if common < 0 \<or> common > int (length ck) \<or> common > int (length prompt)
      then Some (st, DS4_SESSION_REWRITE_ERROR ''invalid rewrite prefix'')
      else if take (nat common) ck \<noteq> take (nat common) prompt
      then Some (st, DS4_SESSION_REWRITE_ERROR ''rewrite prefix does not match live checkpoint'')
      else if common = int (length ck) then
        (case ds4_session_sync m e io prompt st of
           None \<Rightarrow> None
         | Some (st, SyncOk) \<Rightarrow> Some (st, DS4_SESSION_REWRITE_OK)
         | Some (st, SyncError msg) \<Rightarrow> Some (st, DS4_SESSION_REWRITE_ERROR msg)
         | Some (st, SyncInterrupted) \<Rightarrow> Some (st, DS4_SESSION_REWRITE_ERROR ''interrupted''))
      else if ds4_session_rewrite_requires_rebuild (int (length ck)) (int (length prompt)) common
      then Some (st, DS4_SESSION_REWRITE_REBUILD_NEEDED)
      else Some (st, DS4_SESSION_REWRITE_ERROR ''unexpected canonical rewrite state''))"

fun common_prefix :: "int list \<Rightarrow> int list \<Rightarrow> nat" where
  "common_prefix (a # as) (b # bs) = (if a = b then Suc (common_prefix as bs) else 0)"
| "common_prefix _ _ = 0"

definition ds4_session_common_prefix :: "spec_session \<Rightarrow> int list \<Rightarrow> nat" where
  "ds4_session_common_prefix s prompt =
     (if \<not> ss_checkpoint_valid s then 0 else common_prefix (ss_checkpoint s) prompt)"

definition ds4_session_invalidate :: "spec_session \<Rightarrow> spec_session" where
  "ds4_session_invalidate s =
     s\<lparr>ss_checkpoint_valid := False, ss_checkpoint := [], ss_mtp_draft_valid := False\<rparr>"

end
