(* ===== verification/SyncResult.thy ===== *)
theory SyncResult
  imports SessionSync
begin

text \<open>
  How \<open>ds4_session_sync\<close> ends: each prefill loop returns, keeps the checkpoint, the device and the
  logits in step at every point where the session is visible, and reaches its end when nothing
  cancels and the device works; the chunks of a resumed prefill end at absolute boundaries.
\<close>

section \<open>Correctness\<close>

text \<open>
  \<open>live\<close>: the device has absorbed exactly the checkpoint, and the logits are those behind it, by
  one of the three paths through the model.  \<open>part\<close> is the state behind \<open>p\<close> tokens of the prompt.
\<close>


definition logits_of :: "spec_model \<Rightarrow> sync_io \<Rightarrow> int list \<Rightarrow> logits set" where
  "logits_of m io ctx = {sm_target m ctx, sm_batch m ctx, sy_prefill io ctx}"

definition live :: "spec_model \<Rightarrow> sync_io \<Rightarrow> spec_session \<Rightarrow> bool" where
  "live m io s \<longleftrightarrow>
     gr_frontier (ss_graph s) = ss_checkpoint s \<and> ss_logits s \<in> logits_of m io (ss_checkpoint s)"

definition sync_inv :: "spec_model \<Rightarrow> sync_io \<Rightarrow> sync_state \<Rightarrow> bool" where
  "sync_inv m io st \<longleftrightarrow> (ss_checkpoint_valid (sy_session st) \<longrightarrow> live m io (sy_session st))"

definition event_ok :: "spec_model \<Rightarrow> sync_io \<Rightarrow> int list \<Rightarrow> nat \<times> spec_session \<Rightarrow> bool" where
  "event_ok m io prompt ev \<longleftrightarrow>
     (ss_checkpoint_valid (snd ev) \<longrightarrow>
        live m io (snd ev) \<and> ss_checkpoint (snd ev) = take (fst ev) prompt)"

definition events_ok :: "spec_model \<Rightarrow> sync_io \<Rightarrow> int list \<Rightarrow> sync_state \<Rightarrow> bool" where
  "events_ok m io prompt st \<longleftrightarrow> list_all (event_ok m io prompt) (sy_events st)"

definition part :: "spec_model \<Rightarrow> sync_io \<Rightarrow> int list \<Rightarrow> bool \<Rightarrow> nat \<Rightarrow> spec_session \<Rightarrow> bool" where
  "part m io prompt v p s \<longleftrightarrow>
     gr_frontier (ss_graph s) = take p prompt \<and> ss_checkpoint s = take p prompt
     \<and> (p > 0 \<or> v \<longrightarrow> ss_checkpoint_valid s)
     \<and> (ss_checkpoint_valid s \<longrightarrow> ss_logits s \<in> logits_of m io (take p prompt))"

lemma cancelled_session [simp]:
  "sy_session (snd (ds4_session_cancelled io st)) = sy_session st"
  "sy_events (snd (ds4_session_cancelled io st)) = sy_events st"
  "events_ok m io' prompt (snd (ds4_session_cancelled io st)) = events_ok m io' prompt st"
  by (simp_all add: ds4_session_cancelled_def events_ok_def)

lemma on_session_simps [simp]:
  "sy_session (on_session f st) = f (sy_session st)" "sy_events (on_session f st) = sy_events st"
  "events_ok m io prompt (on_session f st) = events_ok m io prompt st"
  by (simp_all add: on_session_def events_ok_def)

lemma user_progress_simps [simp]:
  "sy_session (user_progress n st) = sy_session st"
  "sy_events (user_progress n st) = sy_events st @ [(n, sy_session st)]"
  "events_ok m io prompt (user_progress n st) \<longleftrightarrow>
     events_ok m io prompt st \<and> event_ok m io prompt (n, sy_session st)"
  by (simp_all add: user_progress_def events_ok_def)

lemma absorb_token_simps [simp]:
  "gr_frontier (ss_graph (absorb_token m t r s)) = gr_frontier (ss_graph s) @ [t]"
  "ss_checkpoint (absorb_token m t r s) = ss_checkpoint s"
  "ss_checkpoint_valid (absorb_token m t r s) = ss_checkpoint_valid s"
  "ss_logits (absorb_token m t r s) =
     (if r then sm_target m (gr_frontier (ss_graph s) @ [t]) else ss_logits s)"
  "ss_cascade (absorb_token m t r s) = ss_cascade s"
  by (simp_all add: absorb_token_def Let_def)

lemma part_live: "part m io prompt v p s \<Longrightarrow> ss_checkpoint_valid s \<Longrightarrow> live m io s"
  by (simp add: part_def live_def)

lemma part_event: "part m io prompt v p s \<Longrightarrow> event_ok m io prompt (p, s)"
  by (simp add: part_def event_ok_def live_def)

lemma note_progress_part:
  assumes "gr_frontier (ss_graph (sy_session st)) = take p prompt" "0 < p" "p \<le> length prompt"
    and "ss_logits (sy_session st) \<in> logits_of m io (take p prompt)" "events_ok m io prompt st"
  shows "part m io prompt v p (sy_session (note_progress True prompt p st))"
    and "events_ok m io prompt (note_progress True prompt p st)"
  using assms
  by (simp_all add: note_progress_def ds4_session_note_prefill_progress_def part_def event_ok_def live_def)

lemma note_progress_start:
  assumes "part m io prompt v p (sy_session st)" "p \<le> length prompt" "events_ok m io prompt st"
  shows "part m io prompt v p (sy_session (note_progress True prompt p st))
    \<and> events_ok m io prompt (note_progress True prompt p st)"
proof (cases "p = 0")
  case True
  then show ?thesis
    using assms part_event[OF assms(1)]
    by (simp add: note_progress_def ds4_session_note_prefill_progress_def)
next
  case False
  then show ?thesis
    using assms note_progress_part(1)[of st p prompt m io v] note_progress_part(2)[of st p prompt m io]
    by (simp add: part_def)
qed

lemma note_progress_cascade [simp]:
  "ss_cascade (sy_session (note_progress b prompt p st)) = ss_cascade (sy_session st)"
  by (simp add: note_progress_def ds4_session_note_prefill_progress_def)

lemma note_progress_False [simp]: "note_progress False prompt p st = st"
  by (simp add: note_progress_def)

lemma prefill_chunk_len_bounds:
  assumes "pos0 < end_pos" "0 < chunk_cap"
  shows "0 < prefill_chunk_len cap chunk_cap start pos0 end_pos"
    and "pos0 + prefill_chunk_len cap chunk_cap start pos0 end_pos \<le> end_pos"
    and "prefill_chunk_len cap chunk_cap start pos0 end_pos \<le> chunk_cap"
  using assms by (auto simp: prefill_chunk_len_def Let_def)

lemma prefill_layer_major_Some:
  assumes "metal_graph_prefill_layer_major io cap prompt p n True s = Some s'"
    and "gr_frontier (ss_graph s) = take p prompt"
  shows "gr_frontier (ss_graph s') = take (p + n) prompt"
    and "ss_logits s' = sy_prefill io (take (p + n) prompt)" "ss_cascade s' = ss_cascade s"
    and "ss_checkpoint s' = ss_checkpoint s" "ss_checkpoint_valid s' = ss_checkpoint_valid s"
  using assms by (auto simp: metal_graph_prefill_layer_major_def Let_def take_add split: if_splits)

definition sync_post :: "spec_model \<Rightarrow> sync_io \<Rightarrow> int list \<Rightarrow> bool \<Rightarrow> nat \<Rightarrow> nat \<Rightarrow> sync_state
    \<Rightarrow> sync_state \<times> prefill_rc \<Rightarrow> bool" where
  "sync_post m io prompt v lo hi st r \<longleftrightarrow>
     (let s' = sy_session (fst r) in
      events_ok m io prompt (fst r) \<and> ss_cascade s' = ss_cascade (sy_session st)
      \<and> (snd r = PrefillDone \<longrightarrow> part m io prompt v hi s')
      \<and> (snd r = PrefillCancelled \<longrightarrow> (\<exists>p. lo \<le> p \<and> p \<le> hi \<and> part m io prompt v p s')))"

lemma prefill_chunk_loop_post:
  assumes "0 < chunk_cap \<and> chunk_cap \<le> cap" "pos0 \<le> end_pos" "end_pos \<le> length prompt"
    and "part m io prompt v pos0 (sy_session st)" "events_ok m io prompt st"
  shows "\<exists>r. prefill_chunk_loop io prompt True cap chunk_cap start end_pos pos0 st = Some r
    \<and> sync_post m io prompt v pos0 end_pos st r"
  using assms
proof (induction "end_pos - pos0" arbitrary: pos0 st rule: less_induct)
  case less
  let ?n = "prefill_chunk_len cap chunk_cap start pos0 end_pos"
  let ?c = "ds4_session_cancelled io st"
  show ?case
  proof (cases "pos0 < end_pos \<and> \<not> fst ?c \<and> sy_device io pos0")
    case False
    then show ?thesis
      using less.prems
      by (subst prefill_chunk_loop.simps)
        (auto simp: Let_def sync_post_def metal_graph_prefill_layer_major_def not_less)
  next
    case True
    have b: "0 < ?n" "pos0 + ?n \<le> end_pos" "?n \<le> chunk_cap"
      using prefill_chunk_len_bounds[of pos0 end_pos chunk_cap] True less.prems(1) by blast+
    obtain s where s: "metal_graph_prefill_layer_major io cap prompt pos0 ?n True (sy_session st) = Some s"
      using True b less.prems(1,3) by (fastforce simp: metal_graph_prefill_layer_major_def Let_def)
    define st1 where "st1 = note_progress True prompt (pos0 + ?n) ((snd ?c)\<lparr>sy_session := s\<rparr>)"
    define st2 where "st2 = snd (ds4_session_cancelled io st1)"
    note f = prefill_layer_major_Some[OF s]
    have fr: "gr_frontier (ss_graph (sy_session st)) = take pos0 prompt"
      using less.prems(4) by (simp add: part_def)
    have ev: "events_ok m io prompt ((snd ?c)\<lparr>sy_session := s\<rparr>)"
      using less.prems(5) by (simp add: events_ok_def)
    have p1: "part m io prompt v (pos0 + ?n) (sy_session st1)" and e1: "events_ok m io prompt st1"
      unfolding st1_def
      by (rule note_progress_part; use f(1,2)[OF fr] b less.prems(3) ev in \<open>simp add: logits_of_def\<close>)+
    have c1: "ss_cascade (sy_session st1) = ss_cascade (sy_session st)"
      using f(3)[OF fr] by (simp add: st1_def)
    have step: "prefill_chunk_loop io prompt True cap chunk_cap start end_pos pos0 st =
        (if fst (ds4_session_cancelled io st1) then Some (st2, PrefillCancelled)
         else prefill_chunk_loop io prompt True cap chunk_cap start end_pos (pos0 + ?n) st2)"
      using True s by (subst prefill_chunk_loop.simps) (simp add: Let_def st1_def st2_def)
    show ?thesis
    proof (cases "fst (ds4_session_cancelled io st1)")
      case True
      have "pos0 \<le> pos0 + ?n" by simp
      then show ?thesis
        using p1 e1 c1 b step True by (auto simp: sync_post_def st2_def intro!: exI[of _ "pos0 + ?n"])
    next
      case False
      have "\<exists>r. prefill_chunk_loop io prompt True cap chunk_cap start end_pos (pos0 + ?n) st2 = Some r
          \<and> sync_post m io prompt v (pos0 + ?n) end_pos st2 r"
        using less.prems(1,3) b p1 e1 by (intro less.hyps) (auto simp: st2_def)
      then obtain r where r: "prefill_chunk_loop io prompt True cap chunk_cap start end_pos (pos0 + ?n) st2 = Some r"
        "sync_post m io prompt v (pos0 + ?n) end_pos st2 r" by blast
      have "sync_post m io prompt v pos0 end_pos st r"
        using r(2) c1 unfolding sync_post_def Let_def st2_def by (auto intro: add_leD1)
      then show ?thesis using r(1) step False by simp
    qed
  qed
qed

lemma take_Suc_prompt: "p < length prompt \<Longrightarrow> take p prompt @ [prompt ! p] = take (Suc p) prompt"
  by (simp add: take_Suc_conv_app_nth)

definition streaming_post :: "spec_model \<Rightarrow> sync_io \<Rightarrow> int list \<Rightarrow> bool \<Rightarrow> bool \<Rightarrow> nat \<Rightarrow> sync_state
    \<Rightarrow> sync_state \<times> prefill_rc \<Rightarrow> bool" where
  "streaming_post m io prompt v progress hi st r \<longleftrightarrow>
     (let s = sy_session st; s' = sy_session (fst r);
          same = (ss_checkpoint s' = ss_checkpoint s \<and> ss_checkpoint_valid s' = ss_checkpoint_valid s) in
      events_ok m io prompt (fst r) \<and> ss_cascade s' = ss_cascade s
      \<and> (snd r = PrefillDone \<longrightarrow>
           (if progress then part m io prompt v hi s'
            else gr_frontier (ss_graph s') = take hi prompt
              \<and> ss_logits s' \<in> logits_of m io (take hi prompt) \<and> same))
      \<and> (snd r = PrefillCancelled \<longrightarrow> same \<or> progress \<and> part m io prompt v hi s'))"

lemma streaming_post_from:
  assumes "streaming_post m io prompt v progress hi st1 r"
    and "ss_cascade (sy_session st1) = ss_cascade (sy_session st)"
    and "ss_checkpoint (sy_session st1) = ss_checkpoint (sy_session st)"
    and "ss_checkpoint_valid (sy_session st1) = ss_checkpoint_valid (sy_session st)"
  shows "streaming_post m io prompt v progress hi st r"
  using assms unfolding streaming_post_def Let_def by simp

lemma decode_streaming_loop_post:
  assumes "pos + n \<le> length prompt" "0 < n" "events_ok m io prompt st"
    and "gr_frontier (ss_graph (sy_session st)) = take pos prompt"
  shows "streaming_post m io prompt v progress (pos + n) st
    (decode_streaming_loop m io prompt progress pos n st)"
  using assms
proof (induction n arbitrary: pos st)
  case 0
  then show ?case by simp
next
  case (Suc left)
  let ?c = "ds4_session_cancelled io st"
  define st1 where "st1 = on_session (absorb_token m (prompt ! pos) (left = 0)) (snd ?c)"
  define st2 where "st2 = (if left = 0 then note_progress progress prompt (pos + 1) st1 else st1)"
  define st3 where "st3 = snd (ds4_session_cancelled io st2)"
  have step: "decode_streaming_loop m io prompt progress pos (Suc left) st =
      (if fst ?c then (snd ?c, PrefillCancelled)
       else if \<not> sy_device io pos then (snd ?c, PrefillFailed)
       else if fst (ds4_session_cancelled io st2) then (st3, PrefillCancelled)
       else decode_streaming_loop m io prompt progress (pos + 1) left st3)"
    by (simp add: st1_def st2_def st3_def Let_def split_beta)
  have p: "take pos prompt @ [prompt ! pos] = take (pos + 1) prompt" "0 < pos + 1" "pos + 1 \<le> length prompt"
    using Suc.prems by (simp_all add: take_Suc_prompt)
  have s1: "gr_frontier (ss_graph (sy_session st1)) = take (pos + 1) prompt" "events_ok m io prompt st1"
      "ss_cascade (sy_session st1) = ss_cascade (sy_session st)"
      "ss_checkpoint (sy_session st1) = ss_checkpoint (sy_session st)"
      "ss_checkpoint_valid (sy_session st1) = ss_checkpoint_valid (sy_session st)"
    using Suc.prems p(1) by (simp_all add: st1_def)
  show ?case
  proof (cases "left = 0")
    case True
    have l: "ss_logits (sy_session st1) \<in> logits_of m io (take (pos + 1) prompt)"
      using True Suc.prems(4) p(1) by (simp add: st1_def logits_of_def)
    note n = note_progress_part[OF s1(1) p(2,3) l s1(2)]
    show ?thesis
      using True s1 l n unfolding step streaming_post_def
      by (cases progress) (simp_all add: st2_def st3_def Let_def Suc.prems)
  next
    case False
    have "streaming_post m io prompt v progress (pos + Suc left) st3
        (decode_streaming_loop m io prompt progress (pos + 1) left st3)"
      using Suc.IH[of "pos + 1" st3] Suc.prems False s1 by (simp add: st3_def st2_def)
    then have "streaming_post m io prompt v progress (pos + Suc left) st
        (decode_streaming_loop m io prompt progress (pos + 1) left st3)"
      by (rule streaming_post_from) (use False s1 in \<open>simp_all add: st3_def st2_def\<close>)
    then show ?thesis
      using False s1 Suc.prems unfolding step by (simp add: streaming_post_def st3_def st2_def)
  qed
qed

lemma streaming_range [dest]:
  "metal_graph_use_streaming_decode_prefill_range e io start n
    \<Longrightarrow> metal_graph_use_streaming_decode_prefill e io n"
  by (simp add: metal_graph_use_streaming_decode_prefill_range_def)

definition range_post :: "spec_model \<Rightarrow> sync_io \<Rightarrow> int list \<Rightarrow> bool \<Rightarrow> nat \<Rightarrow> nat \<Rightarrow> sync_state
    \<Rightarrow> sync_state \<times> prefill_rc \<Rightarrow> bool" where
  "range_post m io prompt v start hi st r \<longleftrightarrow>
     (let s' = sy_session (fst r) in
      events_ok m io prompt (fst r) \<and> ss_cascade s' = ss_cascade (sy_session st)
      \<and> (snd r = PrefillDone \<longrightarrow> part m io prompt v hi s')
      \<and> (snd r = PrefillCancelled \<longrightarrow>
           (\<exists>p. start \<le> p \<and> p \<le> hi \<and> part m io prompt v p s')
           \<or> sy_ssd_streaming io \<and> ss_checkpoint s' = take start prompt))"

lemma prefill_chunked_range_post:
  assumes "part m io prompt v start (sy_session st)" "events_ok m io prompt st"
  shows "\<exists>r. metal_graph_prefill_chunked_range m e io prompt True start n st = Some r
    \<and> range_post m io prompt v start (start + n) st r"
proof (cases "n = 0 \<or> en_prefill_cap e = 0 \<or> start > length prompt \<or> n > length prompt - start
    \<or> \<not> metal_graph_use_streaming_decode_prefill_range e io start n \<and> start \<noteq> 0 \<and> sy_raw_cap io = 0")
  case True
  then show ?thesis
    using assms by (auto simp: metal_graph_prefill_chunked_range_def Let_def range_post_def)
next
  case False
  let ?st = "note_progress True prompt start st"
  have le: "start + n \<le> length prompt" "0 < n" "start \<le> length prompt" using False by auto
  have st: "part m io prompt v start (sy_session ?st)" "events_ok m io prompt ?st"
    using note_progress_start[OF assms(1) le(3) assms(2)] by auto
  show ?thesis
  proof (cases "metal_graph_use_streaming_decode_prefill_range e io start n")
    case True
    have ss: "sy_ssd_streaming io" using True by (simp add: metal_graph_use_streaming_decode_prefill_range_def metal_graph_use_streaming_decode_prefill_def)
    let ?r = "decode_streaming_loop m io prompt True start n ?st"
    have "streaming_post m io prompt v True (start + n) ?st ?r"
      using le st by (intro decode_streaming_loop_post) (auto simp: part_def)
    moreover have ck: "ss_checkpoint (sy_session ?st) = take start prompt" using st(1) by (simp add: part_def)
    ultimately have "range_post m io prompt v start (start + n) st ?r"
      using ss ck unfolding streaming_post_def range_post_def Let_def
      by (metis note_progress_cascade le_add1 order_refl)
    moreover have "metal_graph_prefill_chunked_range m e io prompt True start n st = Some ?r"
      using True False le
      by (auto simp: metal_graph_prefill_chunked_range_def metal_graph_prefill_decode_streaming_range_def)
    ultimately show ?thesis by blast
  next
    case nostream: False
    define cap where "cap = (if start \<noteq> 0 \<and> en_prefill_cap e > sy_raw_cap io then sy_raw_cap io else en_prefill_cap e)"
    have "0 < cap" using False nostream by (auto simp: cap_def)
    then have capped: "0 < cap \<and> cap \<le> en_prefill_cap e" by (auto simp: cap_def)
    obtain r where r: "prefill_chunk_loop io prompt True (en_prefill_cap e) cap start (start + n) start ?st = Some r"
      and post: "sync_post m io prompt v start (start + n) ?st r"
      using prefill_chunk_loop_post[OF capped le_add1 le(1) st, of start] by blast
    have "metal_graph_prefill_chunked_range m e io prompt True start n st = Some r"
      using False nostream r \<open>0 < cap\<close> by (auto simp: metal_graph_prefill_chunked_range_def Let_def cap_def)
    then show ?thesis
      using post by (auto simp: sync_post_def range_post_def Let_def)
  qed
qed

text \<open>What a call of \<open>ds4_session_sync\<close> past its argument check leaves behind.\<close>

definition sync_result ::
  "spec_model \<Rightarrow> sync_io \<Rightarrow> int list \<Rightarrow> sync_state \<Rightarrow> sync_state \<times> sync_rc \<Rightarrow> bool" where
  "sync_result m io prompt st r \<longleftrightarrow>
     (let s' = sy_session (fst r) in
      events_ok m io prompt (fst r) \<and> ss_cascade s' = ss_cascade (sy_session st)
      \<and> (case snd r of
           SyncOk \<Rightarrow> ss_checkpoint_valid s' \<and> ss_checkpoint s' = prompt \<and> live m io s'
         | SyncError _ \<Rightarrow> \<not> ss_checkpoint_valid s'
         | SyncInterrupted \<Rightarrow> ss_checkpoint_valid s' \<longrightarrow> prefix (ss_checkpoint s') prompt
             \<and> (live m io s' \<or> sy_ssd_streaming io \<and> ss_checkpoint s' = ss_checkpoint (sy_session st))))"

lemma sync_failI:
  assumes "events_ok m io prompt st'" "ss_cascade (sy_session st') = ss_cascade (sy_session st)"
  shows "sync_result m io prompt st (sync_fail msg st')"
  using assms by (simp add: sync_result_def sync_fail_def)

lemma sync_interruptedI:
  assumes "events_ok m io prompt st'" "ss_cascade (sy_session st') = ss_cascade (sy_session st)"
    and "prefix (ss_checkpoint (sy_session st')) prompt"
    and "live m io (sy_session st')
      \<or> sy_ssd_streaming io \<and> ss_checkpoint (sy_session st') = ss_checkpoint (sy_session st)"
  shows "sync_result m io prompt st (sync_interrupted st')"
  using assms by (auto simp: sync_result_def sync_interrupted_def live_def)

definition on_the_way :: "spec_model \<Rightarrow> sync_io \<Rightarrow> int list \<Rightarrow> int list \<Rightarrow> sync_state \<Rightarrow> bool" where
  "on_the_way m io prompt ts st \<longleftrightarrow>
     events_ok m io prompt st \<and> live m io (sy_session st) \<and> ss_checkpoint_valid (sy_session st)
     \<and> ss_checkpoint (sy_session st) @ ts = prompt"

lemma on_the_way_cancelled [simp]:
  "on_the_way m io' prompt ts (snd (ds4_session_cancelled io st)) = on_the_way m io' prompt ts st"
  by (simp add: on_the_way_def)

lemma on_the_way_interrupted:
  assumes "on_the_way m io prompt ts st" "ss_cascade (sy_session st) = ss_cascade (sy_session st0)"
  shows "sync_result m io prompt st0 (sync_interrupted (snd (ds4_session_cancelled io' st)))"
  using assms by (intro sync_interruptedI) (auto simp: on_the_way_def)

lemma on_the_way_step:
  assumes "on_the_way m io prompt (t # ts) st"
  shows "on_the_way m io prompt ts
    (on_session (\<lambda>s. (absorb_token m t True s)\<lparr>ss_checkpoint := ss_checkpoint s @ [t]\<rparr>) st)"
  using assms by (auto simp: on_the_way_def live_def logits_of_def)

lemma on_the_way_event:
  assumes "on_the_way m io prompt ts st" "n = length (ss_checkpoint (sy_session st))"
  shows "on_the_way m io prompt ts (user_progress n st)"
  using assms by (auto simp: on_the_way_def event_ok_def)

lemma sync_decode_graph_result:
  assumes "on_the_way m io prompt ts st" "ss_cascade (sy_session st) = ss_cascade (sy_session st0)"
  shows "sync_result m io prompt st0 (sync_decode_graph m e io i ts st)"
  using assms
proof (induction ts arbitrary: i st)
  case Nil
  then show ?case by (auto simp: sync_result_def on_the_way_def)
next
  case (Cons t ts)
  let ?st = "snd (ds4_session_cancelled io st)"
  have "sync_result m io prompt st0 (sync_decode_graph m e io (i + 1) ts
      (on_session (\<lambda>s. (absorb_token m t True s)\<lparr>ss_checkpoint := ss_checkpoint s @ [t]\<rparr>) ?st))"
    using Cons.prems by (intro Cons.IH on_the_way_step) simp_all
  moreover have "sync_result m io prompt st0 (sync_fail msg ?st)" for msg
    using Cons.prems by (intro sync_failI) (simp_all add: on_the_way_def)
  ultimately show ?case
    using on_the_way_interrupted[OF Cons.prems] by (simp add: Let_def split_beta)
qed

lemma sync_decode_cpu_result:
  assumes "on_the_way m io prompt ts st" "ss_cascade (sy_session st) = ss_cascade (sy_session st0)"
    and "i = length (ss_checkpoint (sy_session st))"
  shows "sync_result m io prompt st0 (sync_decode_cpu m io i ts st)"
  using assms
proof (induction ts arbitrary: i st)
  case Nil
  then show ?case by (auto simp: sync_result_def on_the_way_def live_def)
next
  case (Cons t ts)
  let ?st = "snd (ds4_session_cancelled io st)"
  have "sync_result m io prompt st0 (sync_decode_cpu m io (i + 1) ts (user_progress (i + 1)
      (on_session (\<lambda>s. (absorb_token m t True s)\<lparr>ss_checkpoint := ss_checkpoint s @ [t]\<rparr>) ?st)))"
    using Cons.prems by (intro Cons.IH on_the_way_event on_the_way_step) simp_all
  then show ?case
    using on_the_way_interrupted[OF Cons.prems(1,2)] by (simp add: Let_def split_beta)
qed

lemma on_the_way_start:
  assumes "sync_inv m io st" "events_ok m io prompt st" "extends_checkpoint (sy_session st) prompt"
  shows "on_the_way m io prompt (drop (length (ss_checkpoint (sy_session st))) prompt)
    (on_session (\<lambda>s. s\<lparr>ss_mtp_draft_valid := False\<rparr>) st)"
  using assms by (auto simp: on_the_way_def sync_inv_def extends_checkpoint_def live_def prefix_def)

lemma sync_cpu_result:
  assumes "sync_inv m io st" "events_ok m io prompt st"
  shows "sync_result m io prompt st (sync_cpu m io prompt st)"
proof (cases "extends_checkpoint (sy_session st) prompt")
  case True
  then show ?thesis
    using sync_decode_cpu_result[OF on_the_way_start[OF assms True], of st] by (simp add: sync_cpu_def Let_def)
next
  case False
  then show ?thesis
    using assms(2)
    by (simp add: sync_cpu_def Let_def sync_result_def live_def logits_of_def event_ok_def)
qed

lemma sync_extend_result:
  assumes "sync_inv m io st" "events_ok m io prompt st" "extends_checkpoint (sy_session st) prompt"
  shows "\<exists>r. sync_extend m e io prompt st = Some r \<and> sync_result m io prompt st r"
proof -
  let ?st = "on_session (\<lambda>s. s\<lparr>ss_mtp_draft_valid := False\<rparr>) st"
  let ?ck = "ss_checkpoint (sy_session st)"
  let ?n = "length prompt - length ?ck"
  have ck: "?ck = take (length ?ck) prompt" "length ?ck + ?n = length prompt"
    using assms(3) by (auto simp: extends_checkpoint_def prefix_def)
  have "part m io prompt True (length ?ck) (sy_session ?st)" "events_ok m io prompt ?st"
    using assms ck by (auto simp: part_def sync_inv_def extends_checkpoint_def live_def)
  from prefill_chunked_range_post[OF this, of e ?n]
  obtain st' rc where r: "metal_graph_prefill_chunked_range m e io prompt True (length ?ck) ?n ?st = Some (st', rc)"
    "range_post m io prompt True (length ?ck) (length prompt) ?st (st', rc)"
    using ck(2) by auto
  show ?thesis
  proof (cases "?n > 0 \<and> ?n \<ge> unat (sy_resume_min io)")
    case False
    have "sync_result m io prompt st (sync_decode_graph m e io (length ?ck) (drop (length ?ck) prompt) ?st)"
      by (intro sync_decode_graph_result on_the_way_start assms) simp
    moreover have "sync_extend m e io prompt st
        = Some (sync_decode_graph m e io (length ?ck) (drop (length ?ck) prompt) ?st)"
      using False by (auto simp: sync_extend_def Let_def)
    ultimately show ?thesis by blast
  next
    case True
    have pre: "prefix (take p prompt) prompt" "prefix ?ck prompt" for p
      using assms(3) by (simp_all add: take_is_prefix extends_checkpoint_def)
    show ?thesis
    proof (cases rc)
      case PrefillDone
      then show ?thesis
        using True r by (auto simp: sync_extend_def Let_def range_post_def sync_result_def part_def live_def)
    next
      case PrefillCancelled
      have "sync_result m io prompt st (sync_interrupted st')"
        using r(2) PrefillCancelled ck(1) pre
        by (intro sync_interruptedI) (auto simp: range_post_def Let_def part_def live_def)
      then show ?thesis using True r(1) PrefillCancelled by (auto simp: sync_extend_def Let_def)
    next
      case PrefillFailed
      have "sync_result m io prompt st (sync_fail msg st')" for msg
        using r(2) by (intro sync_failI) (auto simp: range_post_def Let_def)
      then show ?thesis using True r(1) PrefillFailed by (auto simp: sync_extend_def Let_def)
    qed
  qed
qed

lemma prefill_raw_swa_post:
  assumes "gr_frontier (ss_graph (sy_session st)) = []" "events_ok m io prompt st"
  shows "streaming_post m io prompt True False (length prompt) st
    (metal_graph_prefill_raw_swa m e io prompt (length prompt) st)"
proof (cases "metal_graph_use_streaming_decode_prefill_range e io 0 (length prompt)")
  case True
  have "streaming_post m io prompt True False (0 + length prompt) st
      (decode_streaming_loop m io prompt False 0 (length prompt) st)"
    using assms True by (intro decode_streaming_loop_post) (auto simp: metal_graph_use_streaming_decode_prefill_range_def metal_graph_use_streaming_decode_prefill_def)
  moreover have "metal_graph_prefill_raw_swa m e io prompt (length prompt) st =
      (if length prompt > en_prefill_cap e then (st, PrefillFailed)
       else decode_streaming_loop m io prompt False 0 (length prompt) st)"
    using True by (auto simp: metal_graph_prefill_raw_swa_def metal_graph_prefill_decode_streaming_range_def
      metal_graph_use_streaming_decode_prefill_range_def metal_graph_use_streaming_decode_prefill_def)
  moreover have "streaming_post m io prompt True False (length prompt) st (st, PrefillFailed)"
    using assms by (simp add: streaming_post_def Let_def)
  ultimately show ?thesis by simp
next
  case False
  then show ?thesis
    using assms
    by (auto simp: metal_graph_prefill_raw_swa_def metal_graph_prefill_layer_major_def streaming_post_def
      events_ok_def logits_of_def Let_def)
qed

lemma sync_finish_result:
  assumes "events_ok m io prompt (fst r)" "ss_cascade (sy_session (fst r)) = ss_cascade (sy_session st)"
    and "snd r \<noteq> PrefillCancelled"
    and "snd r = PrefillDone \<Longrightarrow> gr_frontier (ss_graph (sy_session (fst r))) = prompt
      \<and> ss_logits (sy_session (fst r)) \<in> logits_of m io prompt"
  shows "sync_result m io prompt st (sync_finish e prompt r)"
  using assms sync_failI[of m io prompt "fst r" st]
  by (auto simp: sync_finish_def sync_result_def live_def split: prod.splits prefill_rc.splits)

lemma sync_restart_result:
  assumes "events_ok m io prompt st"
  shows "\<exists>r. sync_restart m e io prompt st = Some r \<and> sync_result m io prompt st r"
proof -
  define st1 where "st1 = on_session (\<lambda>s. s\<lparr>ss_checkpoint_valid := False, ss_checkpoint := [],
      ss_mtp_draft_valid := False\<rparr>) st"
  have s1: "events_ok m io prompt st1" "\<not> ss_checkpoint_valid (sy_session st1)"
      "ss_cascade (sy_session st1) = ss_cascade (sy_session st)" "ss_checkpoint (sy_session st1) = []"
    using assms by (simp_all add: st1_def)
  show ?thesis
  proof (cases "metal_graph_reset_prefill_state io (ss_graph (sy_session st1))")
    case None
    then show ?thesis
      using s1 unfolding sync_restart_def Let_def st1_def[symmetric] by (auto simp: sync_result_def)
  next
    case (Some g)
    define st2 where "st2 = on_session (\<lambda>s. s\<lparr>ss_graph := g\<rparr>) st1"
    have g: "gr_frontier g = []" using Some by (auto simp: metal_graph_reset_prefill_state_def split: if_splits)
    have s2: "events_ok m io prompt st2" "ss_cascade (sy_session st2) = ss_cascade (sy_session st)"
        "gr_frontier (ss_graph (sy_session st2)) = []" "part m io prompt False 0 (sy_session st2)"
        "\<not> ss_checkpoint_valid (sy_session st2)"
      using s1 g by (simp_all add: st2_def part_def)
    note step = sync_restart_def[of m e io prompt st, unfolded Let_def, folded st1_def, unfolded Some,
      simplified option.case, folded st2_def]
    show ?thesis
    proof (cases "en_prefill_cap e < length prompt")
      case True
      then have ne: "length prompt \<noteq> 0" by auto
      from prefill_chunked_range_post[OF s2(4,1), of e "length prompt"]
      obtain st' rc where r: "metal_graph_prefill_chunked m e io prompt True (length prompt) st2 = Some (st', rc)"
        "range_post m io prompt False 0 (length prompt) st2 (st', rc)"
        using ne by (auto simp: metal_graph_prefill_chunked_def)
      show ?thesis
      proof (cases "rc = PrefillCancelled")
        case True
        have "sync_result m io prompt st (on_session (\<lambda>s. s\<lparr>ss_checkpoint_valid := ss_checkpoint s \<noteq> [],
            ss_mtp_draft_valid := False\<rparr>) st', SyncInterrupted)"
          using r(2) s2 True by (auto simp: range_post_def sync_result_def Let_def part_def live_def take_is_prefix)
        then show ?thesis using step \<open>en_prefill_cap e < length prompt\<close> r(1) True by simp
      next
        case False
        have "sync_result m io prompt st (sync_finish e prompt (st', rc))"
          using r(2) s2(2) False by (intro sync_finish_result) (use ne in \<open>auto simp: range_post_def Let_def part_def\<close>)
        then show ?thesis using step \<open>en_prefill_cap e < length prompt\<close> r(1) False by (cases rc) simp_all
      qed
    next
      case False
      obtain st' rc where r: "metal_graph_prefill_raw_swa m e io prompt (length prompt) st2 = (st', rc)"
        by (meson surj_pair)
      have p: "streaming_post m io prompt True False (length prompt) st2 (st', rc)"
        using prefill_raw_swa_post[OF s2(3,1), of e] r by simp
      show ?thesis
      proof (cases "rc = PrefillCancelled")
        case True
        then show ?thesis
          using step False r p s2 by (auto simp: streaming_post_def sync_result_def Let_def)
      next
        case nc: False
        have "sync_result m io prompt st (sync_finish e prompt (st', rc))"
          using p s2(2) nc by (intro sync_finish_result) (auto simp: streaming_post_def Let_def)
        then show ?thesis using step False r nc by (cases rc) simp_all
      qed
    qed
  qed
qed

lemma ex_pair_snd: "(\<exists>a. r = (a, c)) \<longleftrightarrow> snd r = c"
  by (cases r) auto

lemma ex_pair: "(\<exists>a b. r = (a, b) \<and> P (a, b)) \<longleftrightarrow> P r"
  by (cases r) auto

lemma ds4_session_sync_result:
  assumes "sync_inv m io st" "events_ok m io prompt st"
  obtains "prompt = [] \<or> int (length prompt) \<ge> en_ctx_size e"
      "ds4_session_sync m e io prompt st = Some (st, SyncError ''prompt exceeds context'')"
    | st' where "ds4_session_sync m e io prompt st = Some (st', SyncInterrupted)" "sy_session st' = sy_session st"
      "sy_events st' = sy_events st" "sy_cancel io (sy_queries st)"
    | r where "prompt \<noteq> []" "int (length prompt) < en_ctx_size e" "ds4_session_sync m e io prompt st = Some r"
      "sync_result m io prompt st r"
proof (cases "prompt = [] \<or> int (length prompt) \<ge> en_ctx_size e")
  case True
  then show ?thesis using that(1) by (auto simp: ds4_session_sync_def)
next
  case fits: False
  define st1 where "st1 = snd (ds4_session_cancelled io st)"
  have inv1: "sync_inv m io st1" "events_ok m io prompt st1"
    using assms by (simp_all add: st1_def sync_inv_def)
  have same: "sync_result m io prompt st1 r \<Longrightarrow> sync_result m io prompt st r" for r
    unfolding sync_result_def st1_def cancelled_session by assumption
  have step: "ds4_session_sync m e io prompt st =
      (if sy_cancel io (sy_queries st) then Some (st1, SyncInterrupted)
       else if sy_cpu io then Some (sync_cpu m io prompt st1)
       else if extends_checkpoint (sy_session st1) prompt then sync_extend m e io prompt st1
       else sync_restart m e io prompt st1)"
    using fits by (simp add: ds4_session_sync_def ds4_session_cancelled_def st1_def)
  have "\<exists>r. ds4_session_sync m e io prompt st = Some r \<and> sync_result m io prompt st1 r"
    if "\<not> sy_cancel io (sy_queries st)"
    unfolding step using that sync_cpu_result[OF inv1] sync_extend_result[OF inv1] sync_restart_result[OF inv1(2)]
    by (simp add: ex_pair)
  then show ?thesis
    using that(2)[of st1] that(3) same fits by (cases "sy_cancel io (sy_queries st)") (auto simp: step st1_def)
qed

text \<open>Nothing cancels and every device operation succeeds.\<close>

definition sync_works :: "sync_io \<Rightarrow> bool" where
  "sync_works io \<longleftrightarrow> (\<forall>n. sy_device io n \<and> \<not> sy_cancel io n) \<and> sy_reset io"

lemma works_cancelled: "sync_works io \<Longrightarrow> \<not> fst (ds4_session_cancelled io st)"
  by (simp add: sync_works_def ds4_session_cancelled_def)

lemma works_layer_major:
  "sync_works io \<Longrightarrow> 0 < n \<Longrightarrow> n \<le> cap \<Longrightarrow> p + n \<le> length prompt
    \<Longrightarrow> \<exists>s'. metal_graph_prefill_layer_major io cap prompt p n read s = Some s'"
  by (simp add: sync_works_def metal_graph_prefill_layer_major_def Let_def)

lemma works_streaming_loop:
  "sync_works io \<Longrightarrow> snd (decode_streaming_loop m io prompt progress pos n st) = PrefillDone"
  by (induction n arbitrary: pos st)
    (simp_all add: Let_def split_beta works_cancelled, simp add: sync_works_def)

lemma works_decode_graph: "sync_works io \<Longrightarrow> snd (sync_decode_graph m e io i ts st) = SyncOk"
  by (induction ts arbitrary: i st)
    (simp_all add: Let_def split_beta works_cancelled, simp add: sync_works_def)

lemma works_decode_cpu: "sync_works io \<Longrightarrow> snd (sync_decode_cpu m io i ts st) = SyncOk"
  by (induction ts arbitrary: i st) (simp_all add: Let_def split_beta works_cancelled)

text \<open>The ends of the chunks: the multiples of the chunk size behind the start, and the end.\<close>

definition prefill_boundaries :: "nat \<Rightarrow> nat \<Rightarrow> nat \<Rightarrow> nat list" where
  "prefill_boundaries cap pos0 end_pos = filter (\<lambda>x. cap dvd x \<or> x = end_pos) [Suc pos0..<Suc end_pos]"

lemma filter_first:
  assumes "i < n" "P n" "\<And>x. i < x \<Longrightarrow> x < n \<Longrightarrow> \<not> P x" "n \<le> k"
  shows "filter P [Suc i..<Suc k] = n # filter P [Suc n..<Suc k]"
proof -
  have "[Suc i..<Suc k] = [Suc i..<n] @ n # [Suc n..<Suc k]"
    using upt_add_eq_append[of "Suc i" n "Suc k - n"] assms(1,4) upt_conv_Cons[of n "Suc k"]
    by (simp del: upt_Suc)
  moreover have "filter P [Suc i..<n] = []" using assms(3) by (auto simp: filter_empty_conv)
  ultimately show ?thesis using assms(2) by simp
qed

lemma to_boundary:
  fixes p c :: nat
  assumes "0 < c"
  shows "p + (c - p mod c) = (p div c + 1) * c"
proof -
  have "p mod c < c" using assms by simp
  then have "p + (c - p mod c) = (p - p mod c) + c" by simp
  then show ?thesis by (simp add: minus_mod_eq_div_mult)
qed

lemma next_multiple:
  fixes p c :: nat
  assumes "0 < c" "p < x" "x < p + (c - p mod c)"
  shows "\<not> c dvd x"
proof
  assume "c dvd x"
  then obtain k where k: "x = c * k" ..
  have "p div c < k" using assms(1,2) k by (simp add: div_less_iff_less_mult mult.commute)
  then have "(p div c + 1) * c \<le> k * c" by (intro mult_le_mono1) simp
  then show False using assms(3) to_boundary[OF assms(1)] k by (simp add: mult.commute)
qed

lemma multiple_behind: "0 < c \<Longrightarrow> c dvd p + (c - p mod c)" for p c :: nat
  by (subst to_boundary) simp_all

lemma prefill_boundaries_step:
  assumes "pos0 < end_pos" "0 < cap" "start \<noteq> 0 \<or> cap dvd pos0"
  shows "prefill_boundaries cap pos0 end_pos =
    (let next = pos0 + prefill_chunk_len cap cap start pos0 end_pos in
     next # prefill_boundaries cap next end_pos)"
    and "start \<noteq> 0 \<or> cap dvd pos0 + prefill_chunk_len cap cap start pos0 end_pos
      \<or> pos0 + prefill_chunk_len cap cap start pos0 end_pos = end_pos"
proof -
  have "pos0 mod cap < cap" using assms(2) by simp
  then have len: "prefill_chunk_len cap cap start pos0 end_pos = min (end_pos - pos0) (cap - pos0 mod cap)"
    using assms by (auto simp: prefill_chunk_len_def Let_def dvd_eq_mod_eq_0)
  let ?n = "pos0 + min (end_pos - pos0) (cap - pos0 mod cap)"
  have n: "?n = end_pos \<or> ?n = pos0 + (cap - pos0 mod cap)" "pos0 < ?n" "?n \<le> end_pos"
    using assms(1) \<open>pos0 mod cap < cap\<close> by (auto simp: min_def)
  have d: "cap dvd ?n \<or> ?n = end_pos" using n(1) multiple_behind[OF assms(2), of pos0] by metis
  have "\<not> (cap dvd x \<or> x = end_pos)" if "pos0 < x" "x < ?n" for x
    using next_multiple[OF assms(2) that(1)] that(2) n(3) by (auto simp: min_def split: if_splits)
  from filter_first[of pos0 ?n "\<lambda>x. cap dvd x \<or> x = end_pos" end_pos, OF n(2) d this n(3)]
  show "prefill_boundaries cap pos0 end_pos =
    (let next = pos0 + prefill_chunk_len cap cap start pos0 end_pos in
     next # prefill_boundaries cap next end_pos)"
    unfolding prefill_boundaries_def len Let_def .
  show "start \<noteq> 0 \<or> cap dvd pos0 + prefill_chunk_len cap cap start pos0 end_pos
      \<or> pos0 + prefill_chunk_len cap cap start pos0 end_pos = end_pos"
    using d len by metis
qed

lemma note_progress_events [simp]:
  "map fst (sy_events (note_progress True prompt n st)) = map fst (sy_events st) @ [n]"
  by (simp add: note_progress_def ds4_session_note_prefill_progress_def)

lemma works_chunk_loop:
  assumes "sync_works io" "0 < chunk_cap \<and> chunk_cap \<le> cap" "end_pos \<le> length prompt"
  shows "\<exists>st'. prefill_chunk_loop io prompt True cap chunk_cap start end_pos pos0 st = Some (st', PrefillDone)
    \<and> (chunk_cap = cap \<and> pos0 \<le> end_pos \<and> (start \<noteq> 0 \<or> cap dvd pos0 \<or> pos0 = end_pos) \<longrightarrow>
         map fst (sy_events st') = map fst (sy_events st) @ prefill_boundaries cap pos0 end_pos)"
proof (induction "end_pos - pos0" arbitrary: pos0 st rule: less_induct)
  case less
  show ?case
  proof (cases "pos0 < end_pos")
    case False
    then show ?thesis by (subst prefill_chunk_loop.simps) (simp add: prefill_boundaries_def)
  next
    case True
    let ?n = "prefill_chunk_len cap chunk_cap start pos0 end_pos"
    have "0 < chunk_cap" using assms(2) by simp
    note b = prefill_chunk_len_bounds[OF True this, of cap start]
    obtain s where s: "metal_graph_prefill_layer_major io cap prompt pos0 ?n True (sy_session st) = Some s"
      using works_layer_major[OF assms(1) b(1) le_trans[OF b(3)] le_trans[OF b(2) assms(3)]] assms(2) by blast
    define st1 where "st1 = note_progress True prompt (pos0 + ?n)
        ((snd (ds4_session_cancelled io st))\<lparr>sy_session := s\<rparr>)"
    define st2 where "st2 = snd (ds4_session_cancelled io st1)"
    have step: "prefill_chunk_loop io prompt True cap chunk_cap start end_pos pos0 st =
        prefill_chunk_loop io prompt True cap chunk_cap start end_pos (pos0 + ?n) st2"
      using True s works_cancelled[OF assms(1)]
      by (subst prefill_chunk_loop.simps) (simp add: Let_def st1_def st2_def)
    have "end_pos - (pos0 + ?n) < end_pos - pos0" using b(1) True by simp
    from less[OF this, of st2] obtain st' where
      st': "prefill_chunk_loop io prompt True cap chunk_cap start end_pos (pos0 + ?n) st2 = Some (st', PrefillDone)"
      "chunk_cap = cap \<and> pos0 + ?n \<le> end_pos \<and> (start \<noteq> 0 \<or> cap dvd pos0 + ?n \<or> pos0 + ?n = end_pos) \<longrightarrow>
         map fst (sy_events st') = map fst (sy_events st2) @ prefill_boundaries cap (pos0 + ?n) end_pos" by blast
    have ev: "map fst (sy_events st2) = map fst (sy_events st) @ [pos0 + ?n]"
      unfolding st2_def st1_def by simp
    show ?thesis
    proof (intro exI conjI impI)
      show "prefill_chunk_loop io prompt True cap chunk_cap start end_pos pos0 st = Some (st', PrefillDone)"
        unfolding step by (rule st'(1))
    next
      assume a: "chunk_cap = cap \<and> pos0 \<le> end_pos \<and> (start \<noteq> 0 \<or> cap dvd pos0 \<or> pos0 = end_pos)"
      then have c: "chunk_cap = cap" "start \<noteq> 0 \<or> cap dvd pos0" using True by auto
      note p = prefill_boundaries_step[OF True _ c(2)]
      have "map fst (sy_events st') = map fst (sy_events st2) @ prefill_boundaries cap (pos0 + ?n) end_pos"
        using st'(2) b(2) p(2) assms(2) c(1) by blast
      then show "map fst (sy_events st') = map fst (sy_events st) @ prefill_boundaries cap pos0 end_pos"
        using p(1) assms(2) c(1) ev by (simp add: Let_def)
    qed
  qed
qed

lemma works_chunked_range:
  assumes "sync_works io" "0 < n" "start + n \<le> length prompt" "0 < en_prefill_cap e"
    and "start = 0 \<or> 0 < sy_raw_cap io"
  shows "\<exists>st'. metal_graph_prefill_chunked_range m e io prompt True start n st = Some (st', PrefillDone)
    \<and> (\<not> metal_graph_use_streaming_decode_prefill_range e io start n
         \<and> (start = 0 \<or> en_prefill_cap e \<le> sy_raw_cap io) \<longrightarrow>
         map fst (sy_events st') = map fst (sy_events st) @
           start # prefill_boundaries (en_prefill_cap e) start (start + n))"
proof (cases "metal_graph_use_streaming_decode_prefill_range e io start n")
  case True
  have "snd (decode_streaming_loop m io prompt True start n (note_progress True prompt start st)) = PrefillDone"
    by (rule works_streaming_loop[OF assms(1)])
  moreover have "metal_graph_prefill_chunked_range m e io prompt True start n st =
      Some (decode_streaming_loop m io prompt True start n (note_progress True prompt start st))"
    using True assms by (auto simp: metal_graph_prefill_chunked_range_def
        metal_graph_prefill_decode_streaming_range_def dest: streaming_range)
  ultimately show ?thesis using True by (metis prod.collapse)
next
  case False
  define cap where "cap = (if start \<noteq> 0 \<and> en_prefill_cap e > sy_raw_cap io then sy_raw_cap io else en_prefill_cap e)"
  have "0 < cap" using assms(4,5) by (auto simp: cap_def)
  then have capped: "0 < cap \<and> cap \<le> en_prefill_cap e" by (auto simp: cap_def)
  obtain st' where
    st': "prefill_chunk_loop io prompt True (en_prefill_cap e) cap start (start + n) start
        (note_progress True prompt start st) = Some (st', PrefillDone)"
    and ev: "cap = en_prefill_cap e \<and> start \<le> start + n
        \<and> (start \<noteq> 0 \<or> en_prefill_cap e dvd start \<or> start = start + n) \<longrightarrow>
      map fst (sy_events st') = map fst (sy_events (note_progress True prompt start st))
        @ prefill_boundaries (en_prefill_cap e) start (start + n)"
    using works_chunk_loop[OF assms(1) capped assms(3)] by blast
  have "metal_graph_prefill_chunked_range m e io prompt True start n st = Some (st', PrefillDone)"
    using False assms(2-4) st' \<open>0 < cap\<close>
    by (auto simp: metal_graph_prefill_chunked_range_def Let_def cap_def)
  moreover have "map fst (sy_events st') = map fst (sy_events st) @
      start # prefill_boundaries (en_prefill_cap e) start (start + n)"
    if "start = 0 \<or> en_prefill_cap e \<le> sy_raw_cap io"
    using ev that by (auto simp: cap_def)
  ultimately show ?thesis by blast
qed

lemma works_extend:
  assumes "sync_works io" "extends_checkpoint (sy_session st) prompt" "0 < en_prefill_cap e" "0 < sy_raw_cap io"
  shows "\<exists>st'. sync_extend m e io prompt st = Some (st', SyncOk)"
proof -
  let ?st = "on_session (\<lambda>s. s\<lparr>ss_mtp_draft_valid := False\<rparr>) st"
  let ?k = "length (ss_checkpoint (sy_session st))"
  have le: "?k \<le> length prompt" using assms(2) by (simp add: extends_checkpoint_def)
  show ?thesis
  proof (cases "length prompt - ?k > 0 \<and> length prompt - ?k \<ge> unat (sy_resume_min io)")
    case True
    obtain st' where "metal_graph_prefill_chunked_range m e io prompt True ?k (length prompt - ?k) ?st
        = Some (st', PrefillDone)"
      using works_chunked_range[of io "length prompt - ?k" ?k prompt e m ?st] assms le True by auto
    then show ?thesis using True by (simp add: sync_extend_def Let_def)
  next
    case False
    then show ?thesis
      using works_decode_graph[OF assms(1), of m e ?k "drop ?k prompt" ?st]
      by (auto simp: sync_extend_def Let_def ex_pair_snd)
  qed
qed

lemma works_restart:
  assumes "sync_works io" "prompt \<noteq> []" "0 < en_prefill_cap e"
  shows "\<exists>st'. sync_restart m e io prompt st = Some (st', SyncOk)"
proof -
  define st1 where "st1 = on_session (\<lambda>s. s\<lparr>ss_checkpoint_valid := False, ss_checkpoint := [],
      ss_mtp_draft_valid := False\<rparr>) st"
  obtain g where g: "metal_graph_reset_prefill_state io (ss_graph (sy_session st1)) = Some g"
    using assms(1) by (simp add: sync_works_def metal_graph_reset_prefill_state_def)
  define st2 where "st2 = on_session (\<lambda>s. s\<lparr>ss_graph := g\<rparr>) st1"
  note step = sync_restart_def[of m e io prompt st, unfolded Let_def, folded st1_def, unfolded g,
    simplified option.case, folded st2_def]
  show ?thesis
  proof (cases "en_prefill_cap e < length prompt")
    case True
    obtain st' where "metal_graph_prefill_chunked m e io prompt True (length prompt) st2 = Some (st', PrefillDone)"
      using works_chunked_range[of io "length prompt" 0 prompt e m st2] assms by (auto simp: metal_graph_prefill_chunked_def)
    then show ?thesis using step True by (simp add: sync_finish_def)
  next
    case False
    have "snd (metal_graph_prefill_raw_swa m e io prompt (length prompt) st2) = PrefillDone"
      using False assms works_streaming_loop[OF assms(1), of m prompt False 0 "length prompt" st2]
        works_layer_major[OF assms(1), of "length prompt" "en_prefill_cap e" 0 prompt True "sy_session st2"]
      by (auto simp: metal_graph_prefill_raw_swa_def metal_graph_prefill_decode_streaming_range_def)
    then show ?thesis
      using step False by (cases "metal_graph_prefill_raw_swa m e io prompt (length prompt) st2")
        (simp add: sync_finish_def)
  qed
qed

lemma works_sync:
  assumes "sync_works io" "prompt \<noteq> []" "int (length prompt) < en_ctx_size e" "0 < en_prefill_cap e" "0 < sy_raw_cap io"
  shows "\<exists>st'. ds4_session_sync m e io prompt st = Some (st', SyncOk)"
proof -
  let ?st = "snd (ds4_session_cancelled io st)"
  have "\<exists>st'. sync_cpu m io prompt ?st = (st', SyncOk)"
    using works_decode_cpu[OF assms(1)] by (auto simp: sync_cpu_def Let_def ex_pair_snd)
  moreover have "\<not> sy_cancel io (sy_queries st)" using assms(1) by (simp add: sync_works_def)
  ultimately show ?thesis
    using assms works_extend[OF assms(1), of ?st prompt e m] works_restart[OF assms(1), of prompt e m ?st]
    by (auto simp: ds4_session_sync_def ds4_session_cancelled_def)
qed

text \<open>The chunk size a session allocates is never zero and never exceeds the context.\<close>

lemma ds4_prefill_cap_for_prompt_bounds:
  assumes "0 < ctx_size" "ctx_size < 2 ^ 31"
  shows "0 < unat (ds4_prefill_cap_for_prompt pro env ctx_size requested)"
    and "int (unat (ds4_prefill_cap_for_prompt pro env ctx_size requested)) \<le> ctx_size"
proof -
  have w: "unat (word_of_int ctx_size :: u32) = nat ctx_size"
    using assms by (simp add: unat_eq_nat_uint uint_word_of_int)
  define C where "C cap = (if (if cap = 0 then 1 else cap) > (word_of_int ctx_size :: u32) then word_of_int ctx_size
      else if cap = 0 then 1 else cap)" for cap :: u32
  have clamp: "0 < unat (C cap) \<and> unat (C cap) \<le> nat ctx_size" for cap
    using w assms(1) by (auto simp: C_def word_less_nat_alt unat_gt_0 not_less)
  have "0 < unat (ds4_prefill_cap_for_prompt pro env ctx_size requested)
      \<and> unat (ds4_prefill_cap_for_prompt pro env ctx_size requested) \<le> nat ctx_size"
    using w clamp assms(1) unfolding ds4_prefill_cap_for_prompt_def Let_def C_def[symmetric]
    by (simp split: option.splits)
  note b = this
  show "0 < unat (ds4_prefill_cap_for_prompt pro env ctx_size requested)" using b by blast
  show "int (unat (ds4_prefill_cap_for_prompt pro env ctx_size requested)) \<le> ctx_size"
    using b assms(1) by linarith
qed

end
