(* ===== verification/SpecLegacy.thy ===== *)
theory SpecLegacy
  imports SpecGreedy
begin

text \<open>
  The canonical path on a working device: each of its verifiers commits a beginning of the drafts of the
  legacy head, only the target's choices, and leaves checkpoint, device and logits in step.  Strict mode does
  it with the kernels of the one-token path alone.
\<close>

section \<open>The verifiers of the canonical path\<close>

lemma keep_accepted_simps [simp]:
  "ss_checkpoint (keep_accepted e b n s) = ss_checkpoint s"
  "ss_checkpoint_valid (keep_accepted e b n s) = ss_checkpoint_valid s"
  "ss_logits (keep_accepted e b n s) = ss_logits s"
  "gr_frontier (ss_graph (keep_accepted e b n s)) = gr_frontier (ss_graph s)"
  "gr_rows (ss_graph (keep_accepted e b n s)) = gr_rows (ss_graph s)"
  "ss_cascade (keep_accepted e b n s) = ss_cascade s"
  by (simp_all add: keep_accepted_def Let_def)

lemma canonical_commit_simps [simp]:
  "ss_checkpoint (canonical_commit e b start ds row s) = take start (ss_checkpoint s) @ ds"
  "ss_checkpoint_valid (canonical_commit e b start ds row s)"
  "ss_logits (canonical_commit e b start ds row s) = row"
  "gr_frontier (ss_graph (canonical_commit e b start ds row s)) = gr_frontier (ss_graph s)"
  "ss_cascade (canonical_commit e b start ds row s) = ss_cascade s"
  by (simp_all add: canonical_commit_def)

text \<open>The result of a verifier: a beginning of the drafts is committed, the target's choice in each place.\<close>

definition drafts_committed ::
  "(int list \<Rightarrow> logits set) \<Rightarrow> int \<Rightarrow> int \<Rightarrow> spec_session \<Rightarrow> int \<Rightarrow> int list \<Rightarrow> spec_session \<times> spec_rc \<Rightarrow> bool"
  where
  "drafts_committed R cap eos s t drafts r \<longleftrightarrow>
     (\<exists>s' k. r = (s', accepted_drafts t cap eos (take k drafts)) \<and> 0 < k
        \<and> target_run R (ss_checkpoint s) (take k drafts)
        \<and> ss_checkpoint s' = ss_checkpoint s @ take k drafts \<and> spec_ready R s')"

lemma drafts_committedI:
  assumes "snd r = accepted_drafts t cap eos (take k drafts)" "0 < k"
    "target_run R (ss_checkpoint s) (take k drafts)" "ss_checkpoint (fst r) = ss_checkpoint s @ take k drafts"
    "ss_checkpoint_valid (fst r)" "gr_frontier (ss_graph (fst r)) = ss_checkpoint (fst r)"
    "ss_logits (fst r) \<in> R (ss_checkpoint (fst r))" "cascade_ok (ss_cascade (fst r))"
  shows "drafts_committed R cap eos s t drafts r"
  unfolding drafts_committed_def spec_ready_def
  using assms by (intro exI [of _ "fst r"] exI [of _ k]) (simp add: prod_eq_iff)

lemma append_accepted_room:
  "length ts \<le> n \<Longrightarrow> append_accepted eos n ts = append_accepted eos (length ts) ts"
proof (induction ts arbitrary: n)
  case Nil
  then show ?case by (cases n) auto
next
  case (Cons t ts)
  then obtain k where k: "n = Suc k" "length ts \<le> k" by (cases n) auto
  then show ?case using Cons.IH [OF k(2)] by simp
qed

lemma accepted_one: "2 \<le> cap \<Longrightarrow> accepted_drafts t cap eos [d] = SpecAccepted [t, d]"
  by (simp add: accepted_drafts_def append_accepted_room [of "[d]"])

lemma accepted_two:
  assumes "2 \<le> cap" "d0 \<noteq> eos"
  shows "accepted_drafts t cap eos [d0, d1] = SpecAccepted ([t, d0] @ (if 2 < cap then [d1] else []))"
proof (cases "2 < cap")
  case True
  then show ?thesis using assms by (simp add: accepted_drafts_def append_accepted_room [of "[d0, d1]"])
next
  case False
  then have "nat (cap - 1) = Suc 0" using assms by simp
  then show ?thesis using False assms by (simp add: accepted_drafts_def)
qed

lemma feed_token_simps [simp]:
  "ss_checkpoint (feed_token d s) = ss_checkpoint s"
  "ss_checkpoint_valid (feed_token d s) = ss_checkpoint_valid s"
  "ss_logits (feed_token d s) = ss_logits s"
  "ss_cascade (feed_token d s) = ss_cascade s"
  "gr_frontier (ss_graph (feed_token d s)) = gr_frontier (ss_graph s) @ [d]"
  by (simp_all add: feed_token_def Let_def)

lemma margin_skip_commits:
  assumes t: "\<And>c. sm_target m c \<in> R c" and s: "spec_ready R s" and io: "device_works io"
    and d: "drafts \<noteq> []" "hd drafts = sample_argmax (ss_logits s)" "2 \<le> cap"
  shows "drafts_committed R cap eos s tk drafts (canonical_margin_skip m e io s tk drafts b)"
proof -
  obtain d ds where ds: "drafts = d # ds" using d(1) by (cases drafts) auto
  show ?thesis
    by (rule drafts_committedI [where k = 1])
      (use assms ds in \<open>auto simp: canonical_margin_skip_def device_works_def Let_def accepted_one spec_ready_def\<close>)
qed

lemma decode2_commits:
  assumes t: "\<And>c. sm_target m c \<in> R c" and s: "spec_ready R s" and io: "device_works io"
    and d: "drafts = [d0, d1]" "d0 = sample_argmax (ss_logits s)" "d0 \<noteq> eos" "2 \<le> cap"
  shows "drafts_committed R cap eos s tk drafts (canonical_decode2 m e io s tk drafts b cap eos)"
proof (cases "sample_argmax (sm_target m (ss_checkpoint s @ [d0])) = d1")
  case True
  show ?thesis
    by (rule drafts_committedI [where k = 2])
      (use assms True in \<open>auto simp: canonical_decode2_def spec_frontier_snapshot_def device_works_def Let_def
        metal_graph_verify_decode2_exact_def accepted_two spec_ready_def\<close>)
next
  case False
  show ?thesis
    by (rule drafts_committedI [where k = 1])
      (use assms False in \<open>auto simp: canonical_decode2_def spec_frontier_snapshot_def device_works_def Let_def
        metal_graph_verify_decode2_exact_def accepted_one spec_ready_def spec_frontier_commit_prefix1_def\<close>)
qed

text \<open>The batched verifier: whatever part is kept, whichever way it is reached.\<close>

lemma replay_loop_works:
  assumes "\<And>k. io_replay io k"
  shows "\<exists>s'. replay_loop io i ds s = (s', True) \<and> ss_checkpoint s' = ss_checkpoint s @ ds
    \<and> gr_frontier (ss_graph s') = gr_frontier (ss_graph s) @ ds \<and> ss_cascade s' = ss_cascade s"
proof (induction ds arbitrary: i s)
  case (Cons d ds)
  show ?case
    using Cons.IH [of "i + 1" "(feed_token d s)\<lparr>ss_checkpoint := ss_checkpoint s @ [d]\<rparr>"] assms
    by (auto simp: Let_def)
qed simp

lemma micro_partial_commits:
  assumes b: "\<And>c. sm_batch m c \<in> R c" and io: "device_works io"
    and s: "ss_checkpoint s = ck @ drafts" "cascade_ok (ss_cascade s)"
    and rows: "gr_rows (ss_graph s) = batch_rows (sm_batch m) ck drafts"
    and p: "length drafts = 2 \<Longrightarrow> gr_prefix1 (ss_graph s) = ck @ take 1 drafts"
    and saved: "length drafts = 2 \<and> commit = 1 \<or> saved = Some (ck, n)"
    and c: "1 \<le> commit" "commit \<le> length drafts" "length drafts \<le> en_prefill_cap e" "2 \<le> cap"
    and run: "target_run R ck (take commit drafts)" and s0: "ss_checkpoint s0 = ck"
  shows "drafts_committed R cap eos s0 tk drafts
    (micro_partial m e io s tk drafts commit (length ck) mb cap eos saved)"
proof (cases "length drafts = 2 \<and> commit = 1")
  case True
  then obtain d0 d1 where d: "drafts = [d0, d1]" by (auto simp: numeral_2_eq_2 length_Suc_conv)
  show ?thesis
    by (rule drafts_committedI [where k = 1])
      (use b [of "ck @ [d0]"] io True d s rows p c run s0 in \<open>simp_all add: micro_partial_def Let_def
        device_works_def spec_frontier_commit_prefix1_def metal_graph_read_spec_logits_row_def accepted_one\<close>)
next
  case False
  then have f: "saved = Some (ck, n)" using saved by auto
  let ?k = "take commit drafts"
  define g0 where "g0 = (ss_graph s)\<lparr>gr_frontier := ck, gr_mtp_n_raw := n\<rparr>"
  have len: "length ?k = commit" "?k \<noteq> []" using c by auto
  obtain g tops where v: "metal_graph_verify_suffix_tops m e True g0 (ck @ ?k) (length ck) commit False = Some (g, tops)"
    using verify_suffix_total [OF len(2), of e m g0 ck False] c len by auto
  then have "metal_graph_verify_suffix_tops m e True g0 (ck @ ?k) (length ck) (length ?k) False = Some (g, tops)"
    unfolding len .
  note vs = verify_suffix_Some [OF this]
  have row: "metal_graph_read_spec_logits_row e True g (commit - 1) = Some (sm_batch m (ck @ ?k))"
    using c vs(2) batch_rows_nth [of "commit - 1" ?k] len
    by (simp add: metal_graph_read_spec_logits_row_def g0_def)
  have no_prefix: "(length drafts = 2 \<and> commit = Suc 0) = False" using False by simp
  have eq: "micro_partial m e io s tk drafts commit (length ck) mb cap eos saved =
      (canonical_commit e mb (length ck) ?k (sm_batch m (ck @ ?k)) (s\<lparr>ss_graph := g, ss_checkpoint := ck @ ?k\<rparr>),
       accepted_drafts tk cap eos ?k)"
    using v row s(1) io
    by (simp add: micro_partial_def Let_def no_prefix f spec_frontier_restore_def device_works_def g0_def)
  show ?thesis
    by (rule drafts_committedI [where k = commit])
      (use b s(2) vs(1) run s0 c(1) in \<open>simp_all add: eq g0_def\<close>)
qed

lemma micro_commits:
  assumes m: "computes R m" and s: "spec_ready R s" and io: "device_works io"
    and d: "drafts \<noteq> []" "hd drafts = sample_argmax (ss_logits s)" "length drafts \<le> en_prefill_cap e" "2 \<le> cap"
  shows "drafts_committed R cap eos s tk drafts (canonical_micro m e ev io s tk drafts mb cap eos)"
proof -
  let ?ck = "ss_checkpoint s" and ?n = "length drafts" and ?mr = "gr_mtp_n_raw (ss_graph s)"
  have fr: "gr_frontier (ss_graph s) = ?ck" and ok: "cascade_ok (ss_cascade s)" "ss_logits s \<in> R ?ck"
    using s by (simp_all add: spec_ready_def)
  have t: "\<And>c. sm_target m c \<in> R c" and b: "\<And>c. sm_batch m c \<in> R c" using m by (simp_all add: computes_def)
  define req where "req \<longleftrightarrow> ?n > 2 \<or> ?n = 2 \<and> ev_exact_replay ev \<or> ev_force_snapshot ev"
  define saved where "saved = (if req then Some (?ck, ?mr) else None)"
  obtain g tops where v: "metal_graph_verify_suffix_tops m e True (ss_graph s) (?ck @ drafts) (length ?ck) ?n (?n = 2)
      = Some (g, tops)"
    using verify_suffix_total [OF d(1,3), of m "ss_graph s" ?ck "?n = 2"] by auto
  note vs = verify_suffix_Some [OF v, unfolded fr]
  obtain d0 ds where ds: "drafts = d0 # ds" using d(1) by (cases drafts) auto
  define k where "k = 1 + matching tops ds"
  have k: "1 \<le> k" "k \<le> ?n" using matching_le [of tops ds] ds by (simp_all add: k_def)
  have "target_run R (?ck @ [d0]) (take (matching tops ds) ds)"
    unfolding vs(5) ds by (rule matching_target [OF b])
  then have run: "target_run R ?ck (take k drafts)" using d(2) ok(2) ds by (simp add: k_def)
  let ?s1 = "s\<lparr>ss_graph := g, ss_checkpoint := ?ck @ drafts\<rparr>"
  let ?row = "metal_graph_read_spec_logits_row e True g (?n - 1)"
  have row: "?row = Some (sm_batch m (?ck @ drafts))"
    using d ds vs(2) batch_rows_nth [of "?n - 1" drafts] by (simp add: metal_graph_read_spec_logits_row_def)
  have go: "drafts_committed R cap eos s tk drafts
      (micro_verified m e io ?s1 tk drafts k (length ?ck) mb cap eos saved)"
  proof (cases "k = ?n")
    case True
    show ?thesis
      by (rule drafts_committedI [where k = ?n])
        (use True io row b vs(1) ok run d(1) in \<open>simp_all add: micro_verified_def device_works_def\<close>)
  next
    case False
    then have sv: "?n = 2 \<and> k = 1 \<or> saved = Some (?ck, ?mr)" using k by (auto simp: saved_def req_def)
    show ?thesis
      unfolding micro_verified_def using False
      by (simp add: micro_partial_commits [OF b io _ _ _ _ sv k d(3,4) run refl] ok vs)
  qed
  have eq: "canonical_micro m e ev io s tk drafts mb cap eos =
      (case (if ev_exact_replay ev then saved else None) of
         None \<Rightarrow> micro_verified m e io ?s1 tk drafts k (length ?ck) mb cap eos saved
       | Some f \<Rightarrow>
           (let s2 = fst (replay_loop io 0 (take k drafts)
                (s\<lparr>ss_graph := g\<lparr>gr_frontier := fst f, gr_mtp_n_raw := snd f\<rparr>, ss_checkpoint := ?ck\<rparr>)) in
            (canonical_commit e mb (length ?ck) (take k drafts) (sm_target m (gr_frontier (ss_graph s2))) s2,
             accepted_drafts tk cap eos (take k drafts))))"
    using io v fr replay_loop_works [of io 0 "take k drafts"
        "s\<lparr>ss_graph := g\<lparr>gr_frontier := ?ck, gr_mtp_n_raw := ?mr\<rparr>, ss_checkpoint := ?ck\<rparr>"]
    by (auto simp: canonical_micro_def Let_def device_works_def spec_frontier_snapshot_def
        spec_frontier_restore_def saved_def req_def k_def ds split: option.split prod.split)
  show ?thesis
  proof (cases "if ev_exact_replay ev then saved else None")
    case None
    then show ?thesis using go by (simp add: eq)
  next
    case (Some f)
    then have f: "f = (?ck, ?mr)" by (auto simp: saved_def split: if_splits)
    let ?s2 = "s\<lparr>ss_graph := g\<lparr>gr_frontier := ?ck, gr_mtp_n_raw := ?mr\<rparr>, ss_checkpoint := ?ck\<rparr>"
    obtain s3 where s3: "replay_loop io 0 (take k drafts) ?s2 = (s3, True)"
      "ss_checkpoint s3 = ?ck @ take k drafts" "gr_frontier (ss_graph s3) = ?ck @ take k drafts"
      "ss_cascade s3 = ss_cascade s"
      using replay_loop_works [of io 0 "take k drafts" ?s2] io by (auto simp: device_works_def)
    show ?thesis
      by (rule drafts_committedI [where k = k])
        (use Some f s3 t ok run k(1) in \<open>simp_all add: eq Let_def\<close>)
  qed
qed

section \<open>A round with a legacy head\<close>

lemma draft_chain_from:
  "\<exists>xs. snd (draft_chain e io eos i n g ds) = ds @ xs \<and> length xs \<le> n"
proof (induction n arbitrary: i g ds)
  case (Suc n)
  show ?case
  proof (cases "metal_graph_eval_mtp_draft_from_hc e (io_mtp io i) g")
    case (Some r)
    then obtain g' d where r: "metal_graph_eval_mtp_draft_from_hc e (io_mtp io i) g = Some (g', d)" by (cases r) auto
    obtain xs where "snd (draft_chain e io eos (i + 1) n g' (ds @ [d])) = (ds @ [d]) @ xs" "length xs \<le> n"
      using Suc.IH by blast
    then show ?thesis using r by (cases "d = eos") (auto intro: exI [of _ "[d]"] exI [of _ "d # xs"])
  qed simp
qed simp

lemma draft_n_facts:
  assumes "metal_graph_eval_mtp_draft_n_from_hc e io d n eos g = (g', drafts)" "1 \<le> n"
  shows "drafts \<noteq> []" "hd drafts = d" "length drafts \<le> n" "gr_frontier g' = gr_frontier g"
proof -
  obtain xs where "drafts = [d] @ xs" "length xs \<le> n - 1"
    using assms(1) draft_chain_from [of e io eos 1 "n - 1" g "[d]"]
    by (auto simp: metal_graph_eval_mtp_draft_n_from_hc_def)
  then show "drafts \<noteq> []" "hd drafts = d" "length drafts \<le> n" using assms(2) by auto
  show "gr_frontier g' = gr_frontier g"
    using assms(1) draft_chain_simps(1) [of e io eos 1 "n - 1" g "[d]"]
    by (simp add: metal_graph_eval_mtp_draft_n_from_hc_def)
qed

lemma committed_round:
  assumes "drafts_committed R cap eos s1 t drafts r"
    and "ss_checkpoint s1 = ss_checkpoint s @ [t]" "t \<noteq> eos" "int (length drafts) \<le> spec_room e s mx cap"
  shows "\<exists>s' acc. r = (s', SpecAccepted acc) \<and> spec_commits R e eos mx cap s t s' acc"
proof -
  obtain s' k where r: "r = (s', accepted_drafts t cap eos (take k drafts))"
    "target_run R (ss_checkpoint s1) (take k drafts)" "ss_checkpoint s' = ss_checkpoint s1 @ take k drafts"
    "spec_ready R s'"
    using assms(1) by (auto simp: drafts_committed_def)
  have "int (length (take k drafts)) \<le> spec_room e s mx cap" using assms(4) by simp
  from spec_commits_extend [OF assms(2,3) refl this r(2-4)] show ?thesis
    using r(1) by (auto simp: accepted_drafts_def)
qed

text \<open>The drafts of the legacy head: either none is verified, or one of the verifiers runs on them.\<close>

lemma canonical_drafted_cases:
  assumes "\<not> en_dspark_ready e" "1 \<le> draft_cap"
  obtains (alone) s1 where "canonical_drafted m e ev io s t draft_cap cap eos = (s1, SpecAccepted [t])"
      "ss_checkpoint s1 = ss_checkpoint s" "\<And>R. spec_ready R s \<Longrightarrow> spec_ready R s1"
  | (go) s1 drafts mb where
      "ss_checkpoint s1 = ss_checkpoint s" "ss_logits s1 = ss_logits s" "\<And>R. spec_ready R s \<Longrightarrow> spec_ready R s1"
      "drafts \<noteq> []" "hd drafts = sample_argmax (ss_logits s1)" "int (length drafts) \<le> draft_cap"
      "length drafts = 2 \<Longrightarrow> hd drafts \<noteq> eos"
      "length drafts = 1 \<Longrightarrow> draft_cap = 1 \<or> hd drafts = eos"
      "canonical_drafted m e ev io s t draft_cap cap eos =
        (if \<not> strict_mode e ev \<and> length drafts = 2 \<and> margin_threshold e ev > 0
            \<and> io_mtp_margin io < margin_threshold e ev
         then canonical_margin_skip m e io s1 t drafts mb
         else if length drafts = 2 \<and> strict_mode e ev \<and> \<not> ev_batch_verify ev
         then canonical_decode2 m e io s1 t drafts mb cap eos
         else canonical_micro m e ev io s1 t drafts mb cap eos)"
proof -
  define d0 where "d0 = ss_mtp_draft_token s"
  define s0 where "s0 = s\<lparr>ss_mtp_draft_valid := False\<rparr>"
  define n where "n = (if d0 = eos then 1 else draft_cap)"
  obtain g drafts where g: "metal_graph_eval_mtp_draft_n_from_hc e io d0 (nat n) eos (ss_graph s) = (g, drafts)"
    by (meson surj_pair)
  define s1 where "s1 = s0\<lparr>ss_graph := g\<rparr>"
  have n: "1 \<le> n" "n \<le> draft_cap" using assms(2) by (auto simp: n_def)
  have "1 \<le> nat n" using n by simp
  note dr = draft_n_facts [OF g this]
  have s0: "ss_checkpoint s0 = ss_checkpoint s" "spec_ready R s \<Longrightarrow> spec_ready R s0" for R
    by (simp_all add: s0_def spec_ready_def)
  have s1: "ss_checkpoint s1 = ss_checkpoint s" "ss_logits s1 = ss_logits s" "spec_ready R s \<Longrightarrow> spec_ready R s1" for R
    using dr(4) by (simp_all add: s1_def s0_def spec_ready_def)
  have s0g: "ss_graph s0 = ss_graph s" "ss_logits s0 = ss_logits s" by (simp_all add: s0_def)
  have conf: "(case io_head_conf io of None \<Rightarrow> x | Some c \<Rightarrow> if en_dspark_ready e then f c else x) = x"
    for f :: "real \<Rightarrow> spec_session" and x using assms(1) by (simp split: option.split)
  have eq: "canonical_drafted m e ev io s t draft_cap cap eos =
     (if sample_argmax (ss_logits s) \<noteq> d0 then (s0, SpecAccepted [t])
      else if int (length drafts) < n \<and> last drafts \<noteq> eos then (s1, SpecAccepted [t])
      else if \<not> strict_mode e ev \<and> length drafts = 2 \<and> margin_threshold e ev > 0
            \<and> io_mtp_margin io < margin_threshold e ev
         then canonical_margin_skip m e io s1 t drafts (gr_mtp_n_raw (ss_graph s))
         else if length drafts = 2 \<and> strict_mode e ev \<and> \<not> ev_batch_verify ev
         then canonical_decode2 m e io s1 t drafts (gr_mtp_n_raw (ss_graph s)) cap eos
         else canonical_micro m e ev io s1 t drafts (gr_mtp_n_raw (ss_graph s)) cap eos)"
    unfolding canonical_drafted_def Let_def d0_def [symmetric] s0_def [symmetric] n_def [symmetric] s0g
    by (simp only: g prod.case conf s1_def [symmetric])
  consider "sample_argmax (ss_logits s) \<noteq> d0"
    | "sample_argmax (ss_logits s) = d0" "int (length drafts) < n \<and> last drafts \<noteq> eos"
    | "sample_argmax (ss_logits s) = d0" "\<not> (int (length drafts) < n \<and> last drafts \<noteq> eos)" by blast
  then show ?thesis
  proof cases
    case 1
    show ?thesis by (rule alone [of s0]) (use 1 s0 in \<open>simp_all add: eq\<close>)
  next
    case 2
    show ?thesis by (rule alone [of s1]) (use 2 s1 in \<open>simp_all add: eq\<close>)
  next
    case 3
    have one: "length drafts = 1 \<Longrightarrow> draft_cap = 1 \<or> hd drafts = eos"
    proof -
      assume l: "length drafts = 1"
      then have "drafts = [d0]" using dr(2) by (auto simp: length_Suc_conv)
      then have "\<not> 1 < n \<or> d0 = eos" using 3 by auto
      then show "draft_cap = 1 \<or> hd drafts = eos" using n dr(2) by (cases "d0 = eos") (auto simp: n_def)
    qed
    have two: "length drafts = 2 \<Longrightarrow> hd drafts \<noteq> eos" using dr(2,3) by (auto simp: n_def)
    show ?thesis
      by (rule go [of s1 drafts "gr_mtp_n_raw (ss_graph s)"]) (use 3 s1 dr n one two in \<open>simp_all add: eq\<close>)
  qed
qed


lemma canonical_drafted_commits:
  assumes m: "computes R m" and io: "device_works io" and e: "\<not> en_dspark_ready e" "5 \<le> en_prefill_cap e"
    and s: "ss_checkpoint s1 = ss_checkpoint s @ [t]" "spec_ready R s1" "t \<noteq> eos"
    and n: "1 \<le> draft_cap" "draft_cap \<le> 4" "draft_cap \<le> spec_room e s mx cap" "2 \<le> cap"
  shows "\<exists>s' acc. canonical_drafted m e ev io s1 t draft_cap cap eos = (s', SpecAccepted acc)
    \<and> spec_commits R e eos mx cap s t s' acc"
proof (cases rule: canonical_drafted_cases [OF e(1) n(1), where m = m and ev = ev and io = io and s = s1
    and t = t and cap = cap and eos = eos, case_names alone go])
  case (alone s2)
  then show ?thesis using s spec_commits_one [of s2 s t R e eos mx cap] by simp
next
  case (go s2 drafts mb)
  note r = go(3) [OF s(2)]
  have t: "\<And>c. sm_target m c \<in> R c" using m by (simp add: computes_def)
  have len: "length drafts \<le> en_prefill_cap e" using go(6) n(2) e(2) by linarith
  have ck: "ss_checkpoint s2 = ss_checkpoint s @ [t]" using go(1) s(1) by simp
  have room: "int (length drafts) \<le> spec_room e s mx cap" using go(6) n(3) by linarith
  have "drafts_committed R cap eos s2 t drafts (canonical_decode2 m e io s2 t drafts mb cap eos)"
    if "length drafts = 2"
  proof -
    obtain d0 d1 where d: "drafts = [d0, d1]" using \<open>length drafts = 2\<close> by (auto simp: numeral_2_eq_2 length_Suc_conv)
    show ?thesis by (rule decode2_commits [OF t r io d]) (use go(5,7) that d n(4) in auto)
  qed
  then show ?thesis
    unfolding go(9)
    using margin_skip_commits [OF t r io go(4,5) n(4), of eos t e mb]
      micro_commits [OF m r io go(4,5) len n(4), of eos t ev mb]
    by (intro committed_round [OF _ ck s(3) room]) auto
qed

definition legacy_engine :: "spec_engine \<Rightarrow> bool" where
  "legacy_engine e \<longleftrightarrow>
     en_kind e = DS4_MTP_DRAFT_LEGACY \<and> \<not> en_dspark_ready e \<and> en_mtp_draft_tokens e \<le> 4 \<and> 5 \<le> en_prefill_cap e"

lemma spec_canonical_legacy:
  assumes m: "computes R m" and e: "legacy_engine e" and io: "device_works io" and s: "spec_ready R s"
  shows "\<exists>s' acc. spec_canonical m e ev bd io s t mx eos cap = (s', SpecAccepted acc)
    \<and> spec_commits R e eos mx cap s t s' acc"
proof -
  obtain s1 where s1: "ds4_session_eval_internal m e bd io s t True = Inr s1"
    using eval_total [of io e m bd s t True] io e by (auto simp: device_works_def legacy_engine_def)
  define s2 where "s2 = spec_argmax_bootstrap_combined_prev_hc e io s1"
  have s2: "ss_checkpoint s2 = ss_checkpoint s @ [t]" "spec_ready R s2"
    using eval_step [OF m s s1] by (simp_all add: s2_def spec_ready_def)
  define n where "n = canonical_draft_cap e ev None s2 mx cap"
  have eq: "spec_canonical m e ev bd io s t mx eos cap =
    (if t = eos \<or> mx = 1 \<or> cap \<le> 1 \<or> \<not> en_mtp_ready e \<or> \<not> ss_mtp_draft_valid s2 \<or> en_mtp_draft_tokens e \<le> 1 \<or> n \<le> 0
     then (s2, SpecAccepted [t]) else canonical_drafted m e ev io s2 t n cap eos)"
    using s1 e by (simp add: spec_canonical_def Let_def s2_def n_def legacy_engine_def)
  have n: "n \<le> 4" "n \<le> spec_room e s mx cap"
    using s2(1) e by (auto simp: n_def canonical_draft_cap_def Let_def at_most_min spec_room_def legacy_engine_def)
  show ?thesis
  proof (cases "t = eos \<or> mx = 1 \<or> cap \<le> 1 \<or> \<not> en_mtp_ready e \<or> \<not> ss_mtp_draft_valid s2 \<or> en_mtp_draft_tokens e \<le> 1 \<or> n \<le> 0")
    case True
    then show ?thesis using spec_commits_one [OF s2] by (simp add: eq)
  next
    case False
    then have "t \<noteq> eos" "1 \<le> n" "2 \<le> cap" by auto
    from canonical_drafted_commits [OF m io _ _ s2 this(1,2) n this(3)] e
    obtain s' acc where "canonical_drafted m e ev io s2 t n cap eos = (s', SpecAccepted acc)"
      "spec_commits R e eos mx cap s t s' acc" unfolding legacy_engine_def by blast
    then show ?thesis unfolding eq if_not_P [OF False] by blast
  qed
qed

lemma dispatch_legacy:
  assumes "legacy_engine e" "0 < mx" "0 < cap"
  shows "ds4_session_eval_speculative_argmax m e ev bd io s t mx eos cap =
    (let (s1, rc) =
       (if \<not> strict_mode e ev \<and> en_mtp_ready e \<and> en_mtp_spec_ready e \<and> en_mtp_draft_tokens e = 2 \<and> \<not> ev_spec_disable ev
           \<and> mx \<ge> 2 \<and> cap \<ge> 2 \<and> t \<noteq> eos \<and> int (length (ss_checkpoint s)) + 3 \<le> en_ctx_size e
        then ds4_session_eval_speculative_argmax_combined m e ev io s t mx eos cap else (s, SpecGap)) in
     if rc \<noteq> SpecGap then (s1, rc) else spec_canonical m e ev bd io s1 t mx eos cap)"
  using assms
  by (simp add: ds4_session_eval_speculative_argmax_def Let_def legacy_engine_def strict_mode_def
      split: prod.split)

lemma speculative_argmax_legacy:
  assumes m: "computes R m" and e: "legacy_engine e" and io: "device_works io"
    and s: "spec_ready R s" and n: "0 < mx" "0 < cap"
  shows "\<exists>s' acc. ds4_session_eval_speculative_argmax m e ev bd io s t mx eos cap
      = (s', SpecAccepted acc) \<and> spec_commits R e eos mx cap s t s' acc"
proof -
  let ?c = "\<not> strict_mode e ev \<and> en_mtp_ready e \<and> en_mtp_spec_ready e \<and> en_mtp_draft_tokens e = 2 \<and> \<not> ev_spec_disable ev
           \<and> mx \<ge> 2 \<and> cap \<ge> 2 \<and> t \<noteq> eos \<and> int (length (ss_checkpoint s)) + 3 \<le> en_ctx_size e"
  obtain s1 rc where r: "(if ?c then ds4_session_eval_speculative_argmax_combined m e ev io s t mx eos cap
      else (s, SpecGap)) = (s1, rc)" by (meson surj_pair)
  have "rc = SpecGap \<and> ss_checkpoint s1 = ss_checkpoint s \<and> spec_ready R s1
    \<or> (\<exists>acc. rc = SpecAccepted acc \<and> spec_commits R e eos mx cap s t s1 acc)"
  proof (cases ?c)
    case True
    have w: "io_verify io" "io_rollback io" "io_read io" "5 \<le> en_prefill_cap e"
      using io e by (simp_all add: device_works_def legacy_engine_def)
    have "ds4_session_eval_speculative_argmax_combined m e ev io s t mx eos cap = (s1, rc)"
      using r unfolding if_P [OF True] .
    then show ?thesis using True by (intro combined_step [OF m s _ w]) auto
  next
    case False
    then show ?thesis using r s unfolding if_not_P [OF False] by simp
  qed
  then show ?thesis
  proof (elim disjE conjE exE)
    assume g: "rc = SpecGap" "ss_checkpoint s1 = ss_checkpoint s" "spec_ready R s1"
    have "spec_commits R e eos mx cap s1 t s' acc = spec_commits R e eos mx cap s t s' acc" for s' acc
      using g(2) spec_room_cong [OF g(2)] by (simp add: spec_commits_def)
    then show ?thesis
      using spec_canonical_legacy [OF m e io g(3), of ev bd t mx eos cap] g(1)
      unfolding dispatch_legacy [OF e n] r by simp
  next
    fix acc assume "rc = SpecAccepted acc" "spec_commits R e eos mx cap s t s1 acc"
    then show ?thesis unfolding dispatch_legacy [OF e n] r by simp
  qed
qed

section \<open>Strict mode\<close>

text \<open>
  Two drafts at most, verified by the kernels of the one-token path.  A single draft still goes through the
  batched pass, which leaves its row as the logits; it is taken at the end of the budget and
  for a drafted end of the sequence only.
\<close>

definition strict_engine :: "spec_engine \<Rightarrow> spec_env \<Rightarrow> bool" where
  "strict_engine e ev \<longleftrightarrow>
     legacy_engine e \<and> en_mtp_draft_tokens e \<le> 2 \<and> strict_mode e ev \<and> \<not> ev_batch_verify ev"

lemma spec_commits_ext:
  assumes "spec_commits R e eos mx cap s t s' acc" "0 < cap"
  obtains ext where "acc = t # append_accepted eos (length ext) ext" "target_run R (ss_checkpoint s @ [t]) ext"
    "ss_checkpoint s' = ss_checkpoint s @ t # ext" "spec_ready R s'" "int (length ext) < max 1 mx"
proof -
  obtain ext where ext: "acc = t # append_accepted eos (nat (cap - 1)) ext"
    "ext = [] \<or> int (length ext) \<le> spec_room e s mx cap" "target_run R (ss_checkpoint s @ [t]) ext"
    "ss_checkpoint s' = ss_checkpoint s @ t # ext" "spec_ready R s'"
    using assms(1) by (auto simp: spec_commits_def)
  have l: "length ext \<le> nat (cap - 1)" "int (length ext) < max 1 mx" using ext(2) by (auto simp: spec_room_def)
  show ?thesis
    by (rule that [of ext]) (use ext l append_accepted_room [OF l(1)] in auto)
qed

lemma strict_drafted:
  assumes t: "\<And>c. sm_target m c \<in> R c" and io: "device_works io" and e: "strict_engine e ev"
    and s: "ss_checkpoint s1 = ss_checkpoint s @ [t]" "spec_ready R s1" "t \<noteq> eos"
    and n: "1 \<le> draft_cap" "draft_cap \<le> 2" "draft_cap \<le> spec_room e s mx cap" "2 \<le> cap" "draft_cap = 1 \<Longrightarrow> mx = 2"
  shows "\<exists>s' ext. canonical_drafted m e ev io s1 t draft_cap cap eos
      = (s', SpecAccepted (t # append_accepted eos (length ext) ext))
    \<and> target_run R (ss_checkpoint s @ [t]) ext \<and> ss_checkpoint s' = ss_checkpoint s @ t # ext
    \<and> (spec_ready R s' \<or> mx \<le> 1 + int (length ext) \<or> eos \<in> set ext)"
proof -
  have e': "\<not> en_dspark_ready e" "5 \<le> en_prefill_cap e" "strict_mode e ev" "\<not> ev_batch_verify ev"
    using e by (simp_all add: strict_engine_def legacy_engine_def)
  show ?thesis
  proof (cases rule: canonical_drafted_cases [OF e'(1) n(1), where m = m and ev = ev and io = io and s = s1
      and t = t and cap = cap and eos = eos, case_names alone go])
    case (alone s2)
    then show ?thesis using s by (intro exI [of _ s2] exI [of _ "[]"]) simp
  next
    case (go s2 drafts mb)
    have ck: "ss_checkpoint s2 = ss_checkpoint s @ [t]" using go(1) s(1) by simp
    have room: "int (length drafts) \<le> spec_room e s mx cap" using go(6) n(3) by linarith
    consider (two) "length drafts = 2" | (one) "length drafts = 1"
    proof -
      have "length drafts \<le> 2" "length drafts \<noteq> 0" using go(4,6) n(2) by auto
      then have "length drafts = 2 \<or> length drafts = 1" by linarith
      then show thesis using two one by blast
    qed
    then show ?thesis
    proof cases
      case two
      then obtain d0 d1 where d: "drafts = [d0, d1]" by (auto simp: numeral_2_eq_2 length_Suc_conv)
      have "drafts_committed R cap eos s2 t drafts (canonical_decode2 m e io s2 t drafts mb cap eos)"
        by (rule decode2_commits [OF t go(3) [OF s(2)] io d]) (use go(5,7) two d n(4) in auto)
      from committed_round [OF this ck s(3) room]
      obtain s' acc where r: "canonical_decode2 m e io s2 t drafts mb cap eos = (s', SpecAccepted acc)"
        "spec_commits R e eos mx cap s t s' acc" by blast
      have "0 < cap" using n(4) by simp
      from spec_commits_ext [OF r(2) this] obtain ext where "acc = t # append_accepted eos (length ext) ext"
        "target_run R (ss_checkpoint s @ [t]) ext" "ss_checkpoint s' = ss_checkpoint s @ t # ext" "spec_ready R s'" .
      then show ?thesis using r(1) two e' unfolding go(9) by (intro exI [of _ s'] exI [of _ ext]) simp
    next
      case one
      then obtain d0 where d: "drafts = [d0]" by (auto simp: length_Suc_conv)
      let ?R = "\<lambda>c. R c \<union> {sm_batch m c}"
      have "spec_ready R s2" by (rule go(3) [OF s(2)])
      then have r2: "spec_ready ?R s2" by (simp add: spec_ready_def)
      have "drafts_committed ?R cap eos s2 t drafts (canonical_micro m e ev io s2 t drafts mb cap eos)"
        by (rule micro_commits [OF _ r2 io go(4,5) _ n(4)]) (use t e' one in \<open>auto simp: computes_def\<close>)
      then obtain s' k where r: "canonical_micro m e ev io s2 t drafts mb cap eos
          = (s', accepted_drafts t cap eos (take k drafts))" "ss_checkpoint s' = ss_checkpoint s2 @ take k drafts"
        "spec_ready ?R s'" "0 < k"
        by (auto simp: drafts_committed_def)
      have first: "d0 \<in> sample_argmax ` R (ss_checkpoint s2)"
        using go(5) d \<open>spec_ready R s2\<close> by (auto simp: spec_ready_def)
      have acc: "accepted_drafts t cap eos (take k drafts)
          = SpecAccepted (t # append_accepted eos (length (take k drafts)) (take k drafts))"
        unfolding accepted_drafts_def using n(4) d by (subst append_accepted_room [of "take k drafts"]) auto
      have eq: "canonical_drafted m e ev io s1 t draft_cap cap eos = (s', accepted_drafts t cap eos (take k drafts))"
        unfolding go(9) using e' one r(1) by simp
      have k: "take k drafts = [d0]" using d r(4) by (cases k) auto
      moreover have "mx = 2 \<or> d0 = eos" using go(8) [OF one] n(5) d by auto
      ultimately show ?thesis using eq acc r(2) ck first
        by (intro exI [of _ s'] exI [of _ "[d0]"]) (auto simp: append_accepted_room [of "[d0]"])
    qed
  qed
qed

lemma strict_canonical:
  assumes t: "\<And>c. sm_target m c \<in> R c" and io: "device_works io" and e: "strict_engine e ev"
    and s: "spec_ready R s" "t \<noteq> eos" "0 < mx" "2 < cap" "int (length (ss_checkpoint s)) + mx < en_ctx_size e"
  shows "\<exists>s' ext. spec_canonical m e ev False io s t mx eos cap
      = (s', SpecAccepted (t # append_accepted eos (length ext) ext))
    \<and> target_run R (ss_checkpoint s @ [t]) ext \<and> ss_checkpoint s' = ss_checkpoint s @ t # ext
    \<and> (spec_ready R s' \<or> mx \<le> 1 + int (length ext) \<or> eos \<in> set ext)"
proof -
  have e': "\<not> en_dspark_ready e" "en_mtp_draft_tokens e \<le> 2" "5 \<le> en_prefill_cap e"
    using e by (simp_all add: strict_engine_def legacy_engine_def)
  obtain s1 where s1: "ds4_session_eval_internal m e False io s t True = Inr s1"
    using eval_total [of io e m False s t True] io e' by (auto simp: device_works_def)
  define s2 where "s2 = spec_argmax_bootstrap_combined_prev_hc e io s1"
  have s2: "ss_checkpoint s2 = ss_checkpoint s @ [t]" "spec_ready R s2"
    using eval_step_rows [OF t _ s(1) s1] by (simp_all add: s2_def spec_ready_def)
  define n where "n = canonical_draft_cap e ev None s2 mx cap"
  have eq: "spec_canonical m e ev False io s t mx eos cap =
    (if t = eos \<or> mx = 1 \<or> cap \<le> 1 \<or> \<not> en_mtp_ready e \<or> \<not> ss_mtp_draft_valid s2 \<or> en_mtp_draft_tokens e \<le> 1 \<or> n \<le> 0
     then (s2, SpecAccepted [t]) else canonical_drafted m e ev io s2 t n cap eos)"
    using s1 e' by (simp add: spec_canonical_def Let_def s2_def n_def)
  have n: "n \<le> 2" "n \<le> spec_room e s mx cap"
    using s2(1) e' by (auto simp: n_def canonical_draft_cap_def Let_def at_most_min spec_room_def)
  show ?thesis
  proof (cases "t = eos \<or> mx = 1 \<or> cap \<le> 1 \<or> \<not> en_mtp_ready e \<or> \<not> ss_mtp_draft_valid s2 \<or> en_mtp_draft_tokens e \<le> 1 \<or> n \<le> 0")
    case True
    then show ?thesis using s2 by (intro exI [of _ s2] exI [of _ "[]"]) (simp add: eq)
  next
    case False
    have "1 \<le> n" "2 \<le> cap" "n = 1 \<Longrightarrow> mx = 2"
      using False s(3-5) s2(1) e' by (auto simp: n_def canonical_draft_cap_def Let_def at_most_min)
    from strict_drafted [OF t io e s2 s(2) this(1) n this(2,3)] show ?thesis
      unfolding eq if_not_P [OF False] .
  qed
qed

lemma strict_argmax:
  assumes t: "\<And>c. sm_target m c \<in> R c" and io: "device_works io" and e: "strict_engine e ev"
    and s: "spec_ready R s" "t \<noteq> eos" "0 < mx" "2 < cap" "int (length (ss_checkpoint s)) + mx < en_ctx_size e"
  shows "\<exists>s' ext. ds4_session_eval_speculative_argmax m e ev False io s t mx eos cap
      = (s', SpecAccepted (t # append_accepted eos (length ext) ext))
    \<and> target_run R (ss_checkpoint s @ [t]) ext \<and> ss_checkpoint s' = ss_checkpoint s @ t # ext
    \<and> (spec_ready R s' \<or> mx \<le> 1 + int (length ext) \<or> eos \<in> set ext)"
proof -
  have e': "legacy_engine e" "strict_mode e ev" "0 < cap" using e s(4) by (simp_all add: strict_engine_def)
  have "ds4_session_eval_speculative_argmax m e ev False io s t mx eos cap
      = spec_canonical m e ev False io s t mx eos cap"
    by (simp add: dispatch_legacy [OF e'(1) s(3) e'(3)] e'(2))
  then show ?thesis using strict_canonical [OF assms] by simp
qed

end
