(* ===== verification/SpecLoop.thy ===== *)
theory SpecLoop
  imports SpecLegacy
begin

text \<open>
  The decode loop over any decoder that follows the target: the interface a round promises to the loop,
  what the loop prints then, and the decoders of the program that keep the promise.
\<close>

section \<open>The interface of a round\<close>

text \<open>\<open>ready left s\<close>: the session can go on for \<open>left\<close> tokens.  A round may leave it when the
  generation ends with the round.\<close>

locale target_decoder =
  fixes R :: "int list \<Rightarrow> logits set" and eos :: int
    and step :: "'io \<Rightarrow> 's \<Rightarrow> int \<Rightarrow> nat \<Rightarrow> 's \<times> spec_rc"
    and sample :: "'s \<Rightarrow> int" and ctx :: "'s \<Rightarrow> int list"
    and ready :: "nat \<Rightarrow> 's \<Rightarrow> bool" and works :: "'io \<Rightarrow> bool"
  assumes sample: "ready left s \<Longrightarrow> sample s \<in> sample_argmax ` R (ctx s)"
    and step: "ready left s \<Longrightarrow> works io \<Longrightarrow> 0 < left \<Longrightarrow> sample s \<noteq> eos \<Longrightarrow>
      \<exists>s' ext. step io s (sample s) left
          = (s', SpecAccepted (sample s # append_accepted eos (length ext) ext))
        \<and> target_run R (ctx s @ [sample s]) ext
        \<and> ctx s' = ctx s @ sample s # ext
        \<and> (ready (left - Suc (length ext)) s' \<or> left \<le> Suc (length ext) \<or> eos \<in> set ext)"

text \<open>Printing a piece of the stream: it ends there, or all of it is printed and the stream goes on.\<close>

lemma cli_emit_stream:
  assumes "target_run R c ts" "0 < left" "cli_emit eos left (append_accepted eos (length ts) ts) = (out, stop)"
  shows "(stop \<or> length out = left) \<and> target_stream R eos left c out
    \<or> \<not> stop \<and> out = ts \<and> length ts < left \<and> eos \<notin> set ts
      \<and> (\<forall>rest. target_stream R eos (left - length ts) (c @ ts) rest \<longrightarrow> target_stream R eos left c (ts @ rest))"
  using assms
proof (induction ts arbitrary: c left out stop)
  case (Cons t ts)
  obtain n where n: "left = Suc n" using Cons.prems(2) by (cases left) auto
  have t: "t \<in> sample_argmax ` R c" and run: "target_run R (c @ [t]) ts" using Cons.prems(1) by auto
  show ?case
  proof (cases "t = eos \<or> n = 0")
    case True
    then have "out = (if t = eos then [] else [t]) \<and> stop = (t = eos)"
      using Cons.prems(3) n by (cases "t = eos") simp_all
    then show ?thesis using True n t by (cases "t = eos") simp_all
  next
    case False
    obtain out' where o: "cli_emit eos n (append_accepted eos (length ts) ts) = (out', stop)" "out = t # out'"
      using Cons.prems(3) False n by (auto split: prod.splits)
    from Cons.IH [OF run _ o(1)] False show ?thesis using n t o(2) by auto
  qed
qed simp

context target_decoder
begin

text \<open>Every round prints at least one token or ends the loop, so one round per token is enough.\<close>

lemma generate_stream:
  assumes "ready left s" "\<forall>io\<in>set ios. works io" "left \<le> length ios"
  shows "\<exists>out. cli_generate step sample eos ios s left = Some out \<and> target_stream R eos left (ctx s) out"
  using assms
proof (induction ios arbitrary: s left)
  case (Cons io ios)
  show ?case
  proof (cases "left = 0 \<or> sample s = eos")
    case True
    then show ?thesis
      using sample [OF Cons.prems(1)] by (cases left) (auto simp: Let_def)
  next
    case False
    then obtain n where n: "left = Suc n" by (cases left) auto
    obtain s' ext where st: "step io s (sample s) left
          = (s', SpecAccepted (sample s # append_accepted eos (length ext) ext))"
      "target_run R (ctx s @ [sample s]) ext" "ctx s' = ctx s @ sample s # ext"
      "ready (left - Suc (length ext)) s' \<or> left \<le> Suc (length ext) \<or> eos \<in> set ext"
      using step [OF Cons.prems(1), of io] Cons.prems(2) False n by auto
    obtain out stop where o: "cli_emit eos left (sample s # append_accepted eos (length ext) ext) = (out, stop)"
      by (meson surj_pair)
    have run: "target_run R (ctx s) (sample s # ext)"
      using st(2) sample [OF Cons.prems(1)] by simp
    have acc: "append_accepted eos (length (sample s # ext)) (sample s # ext)
        = sample s # append_accepted eos (length ext) ext" using False by simp
    have eq: "cli_generate step sample eos (io # ios) s left = (if stop then Some out
        else map_option (\<lambda>rest. out @ rest) (cli_generate step sample eos ios s' (left - length out)))"
      using st(1) o False n by (simp add: Let_def del: cli_emit.simps)
    from cli_emit_stream [OF run, of left eos out stop, unfolded acc, OF _ o] n
    consider "stop \<or> length out = left" "target_stream R eos left (ctx s) out"
      | "\<not> stop" "out = sample s # ext" "Suc (length ext) < left" "eos \<notin> set ext"
        "\<And>rest. target_stream R eos (left - Suc (length ext)) (ctx s @ sample s # ext) rest
          \<Longrightarrow> target_stream R eos left (ctx s) (sample s # ext @ rest)"
      by auto
    then show ?thesis
    proof cases
      case 1
      then show ?thesis by (auto simp: eq)
    next
      case 2
      have "ready (left - Suc (length ext)) s'" using st(4) 2 by auto
      moreover have "left - Suc (length ext) \<le> length ios" using Cons.prems(3) n by simp
      ultimately obtain rest where "cli_generate step sample eos ios s' (left - Suc (length ext)) = Some rest"
        "target_stream R eos (left - Suc (length ext)) (ctx s') rest"
        using Cons.IH Cons.prems(2) by fastforce
      then show ?thesis using 2 st(3) by (simp add: eq)
    qed
  qed
qed simp

end

section \<open>The decoders of the program\<close>

text \<open>Without speculation the loop runs on every engine, one token per round.\<close>

definition plain_engine :: "spec_engine \<Rightarrow> spec_env \<Rightarrow> bool" where
  "plain_engine e ev \<longleftrightarrow>
     (ds4_engine_spec_draft_tokens e \<le> 1 \<or> ev_spec_disable ev) \<and> en_prefill_cap e \<ge> 1"

definition speculative_engine :: "spec_engine \<Rightarrow> spec_env \<Rightarrow> bool" where
  "speculative_engine e ev \<longleftrightarrow> dspark_engine e \<or> legacy_engine e \<or> plain_engine e ev"

lemma cli_step_plain:
  assumes m: "\<And>c. sm_target m c \<in> R c" "\<And>c. bd \<Longrightarrow> sm_batch m c \<in> R c"
    and e: "ds4_engine_spec_draft_tokens e \<le> 1 \<or> ev_spec_disable ev" "1 \<le> en_prefill_cap e"
    and s: "spec_ready R s" "device_works io"
  shows "\<exists>s'. cli_step m e ev bd eos io s t left = (s', SpecAccepted [t])
    \<and> ss_checkpoint s' = ss_checkpoint s @ [t] \<and> spec_ready R s'"
proof -
  obtain s' where s': "ds4_session_eval_internal m e bd io s t True = Inr s'"
    using eval_total [of io e m bd s t True] e s(2) by (auto simp: device_works_def)
  have "cli_step m e ev bd eos io s t left = (s', SpecAccepted [t])"
    using e(1) s' by (auto simp: cli_step_def)
  then show ?thesis using eval_step_rows [OF m s(1) s'] by blast
qed

lemma cli_step_follows:
  assumes m: "computes R m" and e: "speculative_engine e ev" and s: "spec_ready R s" and io: "device_works io"
    and n: "0 < left" "cap = (17 :: int)"
  shows "\<exists>s' ext. cli_step m e ev bd eos io s t left
      = (s', SpecAccepted (t # append_accepted eos (length ext) ext))
    \<and> target_run R (ss_checkpoint s @ [t]) ext
    \<and> ss_checkpoint s' = ss_checkpoint s @ t # ext \<and> spec_ready R s'"
proof (cases "ds4_engine_spec_draft_tokens e > 1 \<and> \<not> ev_spec_disable ev")
  case True
  have "0 < int left" "0 < cap" using n by simp_all
  then have "\<exists>s' acc. ds4_session_eval_speculative_argmax m e ev bd io s t (int left) eos cap
      = (s', SpecAccepted acc) \<and> spec_commits R e eos (int left) cap s t s' acc"
    using True e speculative_argmax_dspark [OF m _ io s] speculative_argmax_legacy [OF m _ io s]
    by (auto simp: speculative_engine_def plain_engine_def)
  then obtain s' acc where r: "ds4_session_eval_speculative_argmax m e ev bd io s t (int left) eos cap
      = (s', SpecAccepted acc)" "spec_commits R e eos (int left) cap s t s' acc" by blast
  obtain ext where "acc = t # append_accepted eos (length ext) ext" "target_run R (ss_checkpoint s @ [t]) ext"
    "ss_checkpoint s' = ss_checkpoint s @ t # ext" "spec_ready R s'"
    using spec_commits_ext [OF r(2) \<open>0 < cap\<close>] .
  with True r(1) show ?thesis by (auto simp: cli_step_def n(2))
next
  case False
  have b: "\<And>c. sm_target m c \<in> R c" "\<And>c. bd \<Longrightarrow> sm_batch m c \<in> R c" using m by (simp_all add: computes_def)
  have "ds4_engine_spec_draft_tokens e \<le> 1 \<or> ev_spec_disable ev" "1 \<le> en_prefill_cap e"
    using False e by (auto simp: speculative_engine_def dspark_engine_def legacy_engine_def plain_engine_def)
  from cli_step_plain [OF b this s io] obtain s' where
    "cli_step m e ev bd eos io s t left = (s', SpecAccepted [t])" "ss_checkpoint s' = ss_checkpoint s @ [t]"
    "spec_ready R s'" by blast
  then show ?thesis by (intro exI [of _ s'] exI [of _ "[]"]) simp
qed

text \<open>A round: its model, which rounds as the caches of that moment make it round, and its device.\<close>

type_synonym spec_round = "spec_model \<times> spec_io"

definition cli_round ::
  "spec_engine \<Rightarrow> spec_env \<Rightarrow> bool \<Rightarrow> int \<Rightarrow> spec_round \<Rightarrow> spec_session \<Rightarrow> int \<Rightarrow> nat \<Rightarrow> spec_session \<times> spec_rc" where
  "cli_round e ev bd eos r = cli_step (fst r) e ev bd eos (snd r)"

abbreviation cli_argmax :: "spec_session \<Rightarrow> int" where
  "cli_argmax s \<equiv> sample_argmax (ss_logits s)"

interpretation speculative: target_decoder R eos "cli_round e ev bd eos" cli_argmax ss_checkpoint
  "\<lambda>left s. speculative_engine e ev \<and> spec_ready R s" "\<lambda>r. computes R (fst r) \<and> device_works (snd r)"
  for R eos e ev bd
proof
  fix left :: nat and s assume "speculative_engine e ev \<and> spec_ready R s"
  then show "cli_argmax s \<in> sample_argmax ` R (ss_checkpoint s)" by (auto simp: spec_ready_def)
next
  fix left :: nat and s r
  assume a: "speculative_engine e ev \<and> spec_ready R s" "computes R (fst r) \<and> device_works (snd r)" "0 < left"
    "cli_argmax s \<noteq> eos"
  obtain s' ext where "cli_round e ev bd eos r s (cli_argmax s) left
      = (s', SpecAccepted (cli_argmax s # append_accepted eos (length ext) ext))"
    "target_run R (ss_checkpoint s @ [cli_argmax s]) ext" "ss_checkpoint s' = ss_checkpoint s @ cli_argmax s # ext"
    "spec_ready R s'"
    using cli_step_follows [of R "fst r" e ev s "snd r" left 17 bd eos "cli_argmax s"] a
    by (auto simp: cli_round_def)
  then show "\<exists>s' ext. cli_round e ev bd eos r s (cli_argmax s) left
      = (s', SpecAccepted (cli_argmax s # append_accepted eos (length ext) ext))
    \<and> target_run R (ss_checkpoint s @ [cli_argmax s]) ext \<and> ss_checkpoint s' = ss_checkpoint s @ cli_argmax s # ext
    \<and> ((speculative_engine e ev \<and> spec_ready R s') \<or> left \<le> Suc (length ext) \<or> eos \<in> set ext)"
    using a(1) by blast
qed

text \<open>Strict mode: only the kernels of the one-token path choose tokens.\<close>

interpretation strict: target_decoder "\<lambda>c. {sm_target m c}" eos "cli_step m e ev False eos" cli_argmax ss_checkpoint
  "\<lambda>left s. strict_engine e ev \<and> spec_ready (\<lambda>c. {sm_target m c}) s
     \<and> int (length (ss_checkpoint s)) + int left < en_ctx_size e" device_works
  for m eos e ev
proof
  let ?R = "\<lambda>c. {sm_target m c}"
  fix left :: nat and s
  assume a: "strict_engine e ev \<and> spec_ready ?R s \<and> int (length (ss_checkpoint s)) + int left < en_ctx_size e"
  then show "cli_argmax s \<in> sample_argmax ` ?R (ss_checkpoint s)" by (simp add: spec_ready_def)
  fix io assume b: "device_works io" "0 < left" "cli_argmax s \<noteq> eos"
  have "\<exists>s' ext. cli_step m e ev False eos io s (cli_argmax s) left
      = (s', SpecAccepted (cli_argmax s # append_accepted eos (length ext) ext))
    \<and> target_run ?R (ss_checkpoint s @ [cli_argmax s]) ext \<and> ss_checkpoint s' = ss_checkpoint s @ cli_argmax s # ext
    \<and> (spec_ready ?R s' \<or> left \<le> Suc (length ext) \<or> eos \<in> set ext)"
  proof (cases "ds4_engine_spec_draft_tokens e > 1 \<and> \<not> ev_spec_disable ev")
    case True
    have "\<exists>s' ext. ds4_session_eval_speculative_argmax m e ev False io s (cli_argmax s) (int left) eos 17
        = (s', SpecAccepted (cli_argmax s # append_accepted eos (length ext) ext))
      \<and> target_run ?R (ss_checkpoint s @ [cli_argmax s]) ext \<and> ss_checkpoint s' = ss_checkpoint s @ cli_argmax s # ext
      \<and> (spec_ready ?R s' \<or> int left \<le> 1 + int (length ext) \<or> eos \<in> set ext)"
      by (rule strict_argmax) (use a b in simp_all)
    then show ?thesis using True by (fastforce simp: cli_step_def)
  next
    case False
    obtain s' where "cli_step m e ev False eos io s (cli_argmax s) left = (s', SpecAccepted [cli_argmax s])"
      "ss_checkpoint s' = ss_checkpoint s @ [cli_argmax s]" "spec_ready ?R s'"
      using cli_step_plain [of m ?R False e ev s io eos "cli_argmax s" left] False a b
      by (auto simp: strict_engine_def legacy_engine_def)
    then show ?thesis by (intro exI [of _ s'] exI [of _ "[]"]) simp
  qed
  then obtain s' ext where r: "cli_step m e ev False eos io s (cli_argmax s) left
      = (s', SpecAccepted (cli_argmax s # append_accepted eos (length ext) ext))"
    "target_run ?R (ss_checkpoint s @ [cli_argmax s]) ext" "ss_checkpoint s' = ss_checkpoint s @ cli_argmax s # ext"
    "spec_ready ?R s' \<or> left \<le> Suc (length ext) \<or> eos \<in> set ext" by blast
  have "int (length (ss_checkpoint s')) + int (left - Suc (length ext)) < en_ctx_size e \<or> left \<le> Suc (length ext)"
    using a r(3) by auto
  then show "\<exists>s' ext. cli_step m e ev False eos io s (cli_argmax s) left
      = (s', SpecAccepted (cli_argmax s # append_accepted eos (length ext) ext))
    \<and> target_run ?R (ss_checkpoint s @ [cli_argmax s]) ext \<and> ss_checkpoint s' = ss_checkpoint s @ cli_argmax s # ext
    \<and> ((strict_engine e ev \<and> spec_ready ?R s' \<and> int (length (ss_checkpoint s')) + int (left - Suc (length ext)) < en_ctx_size e)
       \<or> left \<le> Suc (length ext) \<or> eos \<in> set ext)"
    using r a by blast
qed

section \<open>Properties\<close>

text \<open>Checkpoint and device are in step.\<close>

definition in_step :: "spec_session \<Rightarrow> bool" where
  "in_step s \<longleftrightarrow>
     ss_checkpoint_valid s \<and> gr_frontier (ss_graph s) = ss_checkpoint s \<and> cascade_ok (ss_cascade s)"

text \<open>The rows of a generation: the logits it starts with and what its rounds compute.\<close>

definition round_rows :: "spec_session \<Rightarrow> spec_round list \<Rightarrow> int list \<Rightarrow> logits set" where
  "round_rows s rounds c =
     (if c = ss_checkpoint s then {ss_logits s} else {})
     \<union> (\<Union>r\<in>set rounds. {sm_target (fst r) c, sm_batch (fst r) c})"

lemma in_step_ready: "in_step s \<Longrightarrow> ss_logits s \<in> R (ss_checkpoint s) \<Longrightarrow> spec_ready R s"
  by (simp add: in_step_def spec_ready_def)

lemma round_rows_computes: "r \<in> set rounds \<Longrightarrow> computes (round_rows s rounds) (fst r)"
  by (auto simp: computes_def round_rows_def)

text \<open>The budget of \<open>ds4_cli.c\<close> (lines 470 to 473).\<close>

definition cli_max_tokens :: "spec_engine \<Rightarrow> spec_session \<Rightarrow> int \<Rightarrow> nat" where
  "cli_max_tokens e s n_predict =
     (let room = en_ctx_size e - int (length (ss_checkpoint s)) in
      nat (if room \<le> 1 then 0 else if n_predict > room - 1 then room - 1 else n_predict))"

lemma cli_max_tokens_fits: "int (length (ss_checkpoint s)) < en_ctx_size e \<Longrightarrow>
    int (length (ss_checkpoint s)) + int (cli_max_tokens e s n) < en_ctx_size e"
  by (auto simp: cli_max_tokens_def Let_def)

text \<open>C2. Speculative decoding follows the target, whatever the draft head proposes, however confident it
  is and whatever the controllers decide.  With a DSpark head, a legacy head of at most four drafts, or
  without speculation, and a working device, the decode loop of the command line prints a stream in
  which every token, and the early end, is the greedy choice of a row of logits computed behind exactly
  the tokens in front of it.  Every round has its own model, because the kernels of the one-token and of
  the batched path round differently and leave different caches; nothing is assumed about their
  agreement.  Where the rows along the stream do agree on the greedy token, the stream is the greedy one.
  One round per token of the budget is enough.\<close>

theorem speculative_generation_follows_target:
  assumes "speculative_engine e ev" "in_step s" "\<forall>r\<in>set rounds. device_works (snd r)" "n \<le> length rounds"
  shows "\<exists>out. cli_generate (cli_round e ev bd eos) cli_argmax eos rounds s n = Some out
    \<and> target_stream (round_rows s rounds) eos n (ss_checkpoint s) out
    \<and> (\<forall>f. rows_agree (round_rows s rounds) f (ss_checkpoint s) out \<longrightarrow> out = plain_greedy f eos n (ss_checkpoint s))"
proof -
  have "spec_ready (round_rows s rounds) s" by (rule in_step_ready [OF assms(2)]) (simp add: round_rows_def)
  then obtain out where "cli_generate (cli_round e ev bd eos) cli_argmax eos rounds s n = Some out"
    "target_stream (round_rows s rounds) eos n (ss_checkpoint s) out"
    using speculative.generate_stream [of e ev "round_rows s rounds" s rounds n bd eos] assms round_rows_computes
    by blast
  then show ?thesis using target_stream_unique by blast
qed

text \<open>C29. Strict mode is exact: with at most two drafts of a legacy head, the batched verifier not forced
  and no batched decoding, the command line prints exactly the greedy stream of the one-token kernels,
  the same as with speculation switched off, whatever the draft head proposes and whatever rows
  the batched kernels compute.\<close>

theorem strict_generation_is_exact:
  assumes "strict_engine e ev" "in_step s" "ss_logits s = sm_target m (ss_checkpoint s)"
    and "int (length (ss_checkpoint s)) < en_ctx_size e"
    and "\<forall>io\<in>set ios. device_works io" "cli_max_tokens e s n_predict \<le> length ios"
  shows "cli_generate (cli_step m e ev False eos) cli_argmax eos ios s (cli_max_tokens e s n_predict)
      = Some (plain_greedy (sm_target m) eos (cli_max_tokens e s n_predict) (ss_checkpoint s))
    \<and> cli_generate (cli_step m e (ev\<lparr>ev_spec_disable := True\<rparr>) False eos) cli_argmax eos ios s
        (cli_max_tokens e s n_predict)
      = cli_generate (cli_step m e ev False eos) cli_argmax eos ios s (cli_max_tokens e s n_predict)"
proof -
  let ?R = "\<lambda>c. {sm_target m c}" and ?n = "cli_max_tokens e s n_predict"
  have "cli_generate (cli_step m e ev' False eos) cli_argmax eos ios s ?n
      = Some (plain_greedy (sm_target m) eos ?n (ss_checkpoint s))" if "strict_engine e ev'" for ev'
  proof -
    have "spec_ready ?R s" by (rule in_step_ready [OF assms(2)]) (simp add: assms(3))
    then have "strict_engine e ev' \<and> spec_ready ?R s \<and> int (length (ss_checkpoint s)) + int ?n < en_ctx_size e"
      using that cli_max_tokens_fits [OF assms(4)] by simp
    from strict.generate_stream [OF this assms(5,6)]
    obtain out where "cli_generate (cli_step m e ev' False eos) cli_argmax eos ios s ?n = Some out"
      "target_stream ?R eos ?n (ss_checkpoint s) out" by blast
    moreover have "rows_agree ?R (sm_target m) (ss_checkpoint s) out" by (simp add: rows_agree_def)
    ultimately show ?thesis using target_stream_unique by blast
  qed
  moreover have "strict_engine e (ev\<lparr>ev_spec_disable := True\<rparr>)"
    using assms(1) by (simp add: strict_engine_def strict_mode_def)
  ultimately show "cli_generate (cli_step m e ev False eos) cli_argmax eos ios s ?n
      = Some (plain_greedy (sm_target m) eos ?n (ss_checkpoint s))
    \<and> cli_generate (cli_step m e (ev\<lparr>ev_spec_disable := True\<rparr>) False eos) cli_argmax eos ios s ?n
      = cli_generate (cli_step m e ev False eos) cli_argmax eos ios s ?n"
    using assms(1) by simp_all
qed

text \<open>A speculative call never returns more tokens than it was asked for or than fit the array, and
  never lets the checkpoint outgrow the context.\<close>

theorem speculative_round_bounds:
  assumes "dspark_engine e \<or> legacy_engine e" "device_works io" "in_step s"
    and "0 < max_tokens" "0 < accepted_cap" "int (length (ss_checkpoint s)) < en_ctx_size e"
    and "ds4_session_eval_speculative_argmax m e ev bd io s first_token max_tokens eos
           accepted_cap = (s', rc)"
  shows "\<exists>accepted. rc = SpecAccepted accepted \<and> int (length accepted) \<le> max_tokens
    \<and> int (length accepted) \<le> accepted_cap
    \<and> int (length (ss_checkpoint s')) \<le> en_ctx_size e"
proof -
  let ?R = "\<lambda>c. UNIV"
  have r: "computes ?R m" "spec_ready ?R s" using assms(3) by (simp_all add: computes_def in_step_ready)
  obtain acc where rc: "rc = SpecAccepted acc"
    and c: "spec_commits ?R e eos max_tokens accepted_cap s first_token s' acc"
    using speculative_argmax_dspark [OF r(1) _ assms(2) r(2) assms(4,5), of e ev bd first_token eos]
      speculative_argmax_legacy [OF r(1) _ assms(2) r(2) assms(4,5), of e ev bd first_token eos] assms(1,7) by auto
  obtain ext where ext: "acc = first_token # append_accepted eos (nat (accepted_cap - 1)) ext"
    "ext = [] \<or> int (length ext) \<le> spec_room e s max_tokens accepted_cap"
    "ss_checkpoint s' = ss_checkpoint s @ first_token # ext"
    using c by (auto simp: spec_commits_def)
  have "length (append_accepted eos k ts) \<le> length ts" for k ts
    by (induction eos k ts rule: append_accepted.induct) auto
  then have "length acc \<le> Suc (length ext)" using ext(1) by simp
  with ext(2,3) rc assms(4-6) show ?thesis by (auto simp: spec_room_def)
qed

section \<open>A small model\<close>

text \<open>Three tokens, the last one ending the sequence; the stream counts the context modulo three.\<close>

definition spec_example_row :: "nat \<Rightarrow> logits" where
  "spec_example_row n = (if n mod 3 = 0 then [0, 1, 0] else if n mod 3 = 1 then [1, 0, 0] else [0, 0, 1])"

definition spec_example_model :: spec_model where
  "spec_example_model = \<lparr>sm_target = (\<lambda>ctx. spec_example_row (length ctx)), sm_batch = (\<lambda>ctx. spec_example_row (length ctx))\<rparr>"

definition spec_example_engine :: spec_engine where
  "spec_example_engine = \<lparr>en_quality = False, en_mtp_ready = True, en_mtp_spec_ready = True,
     en_dspark_ready = True, en_kind = DS4_MTP_DRAFT_DSPARK, en_mtp_draft_tokens = 2,
     en_dspark_draft_tokens = 2, en_dspark_block_size = 5, en_markov_rank = 256,
     en_confidence_floor = 0, en_mtp_margin = 0, en_prefill_cap = 8, en_raw_window = 128, en_ctx_size = 100,
     en_backend_name = ''CUDA''\<rparr>"

definition spec_example_env :: spec_env where
  "spec_example_env = \<lparr>ev_strict = False, ev_spec_disable = False, ev_dspark_adaptive = False,
     ev_verify_max = None, ev_no_cost_adaptive = False, ev_force_schedule_all = False,
     ev_no_cascade = False, ev_cascade_adaptive = False, ev_min_margin = None,
     ev_batch_verify = False, ev_exact_replay = False, ev_force_snapshot = False\<rparr>"

definition spec_example_round :: spec_io where
  "spec_example_round = \<lparr>io_eval = True, io_probe = None, io_block = Some (\<lambda>i. if i = 0 then 0 else 2),
     io_conf = (\<lambda>i. 20), io_mtp = (\<lambda>i. Some 0), io_top = (\<lambda>i. True), io_verify = True,
     io_rollback = True, io_read = True, io_snapshot = True, io_mtp_margin = 0, io_head_conf = None,
     io_frontier = True, io_restore = (\<lambda>k. True), io_torn = [], io_decode2 = True, io_replay = (\<lambda>k. True),
     io_verify_again = True, io_read_again = True, io_seq = (\<lambda>k. True), io_seq_read = True, io_t0 = 0, io_target_done = 1,
     io_draft_done = 2, io_verify_done = 3, io_rollback_done = 4, io_readback_done = 5\<rparr>"

definition spec_example_session :: spec_session where
  "spec_example_session = \<lparr>ss_checkpoint = [1, 0, 2], ss_checkpoint_valid = True, ss_logits = [0, 1, 0],
     ss_graph = \<lparr>gr_frontier = [1, 0, 2], gr_prefix1 = [], gr_prefix2 = [], gr_rows = [],
       gr_batch_hc = [], gr_cur_hc = [], gr_has_prev_hc = True, gr_prev_hc = [1, 0, 2], gr_mtp_n_raw = 0\<rparr>,
     ss_mtp_draft_token = 0, ss_mtp_draft_valid = False, ss_prev_hc_valid = True,
     ss_cascade = \<lparr>cs_adaptive = False, cs_inited = False, cs_cap = 0, cs_probe_n = 0,
       cs_since_probe = 0, cs_samples = 0, cs_ewma_p0 = 0, cs_ewma_p1 = 0, cs_ms_n2 = 0, cs_ms_n3 = 0\<rparr>,
     ss_adaptive = \<lparr>da_adaptive = False, da_inited = False, da_stage = 0, da_full_streak = 0,
       da_confidence = 0, da_confidence_valid = False\<rparr>,
     ss_stats = \<lparr>st_attempts = 0, st_n2 = 0, st_n3 = 0, st_fallbacks = 0, st_drafted = 0,
       st_committed = 0, st_commit_hist = [0, 0, 0], st_ms = 0, st_target_ms = 0, st_draft_ms = 0,
       st_verify_ms = 0, st_readback_ms = 0, st_rollback_ms = 0\<rparr>\<rparr>"

lemma spec_example_ready:
  "speculative_engine spec_example_engine spec_example_env" "dspark_engine spec_example_engine"
  "device_works spec_example_round" "in_step spec_example_session"
  by (simp_all add: speculative_engine_def dspark_engine_def spec_example_engine_def
      device_works_def spec_example_round_def in_step_def spec_example_session_def cascade_ok_def)

lemma spec_example_argmax:
  "sample_argmax (spec_example_row n) = (if n mod 3 = 0 then 1 else if n mod 3 = 1 then 0 else 2)"
  "sample_argmax [0, 1, 0] = 1"
  by (simp_all add: sample_argmax_def spec_example_row_def)

lemma spec_example_plain:
  "plain_greedy (sm_target spec_example_model) 2 4 (ss_checkpoint spec_example_session) = [1, 0]"
proof -
  have four: "4 = Suc (Suc (Suc (Suc 0)))" by simp
  show ?thesis
    unfolding four
    by (simp add: spec_example_model_def spec_example_session_def spec_example_argmax del: One_nat_def)
qed

theorem speculative_generation_follows_target_witness:
  "cli_generate (cli_round spec_example_engine spec_example_env False 2) cli_argmax 2
     (replicate 4 (spec_example_model, spec_example_round)) spec_example_session 4 = Some [1, 0]"
proof -
  let ?rs = "replicate 4 (spec_example_model, spec_example_round)"
  have "\<forall>r\<in>set ?rs. device_works (snd r)" "4 \<le> length ?rs" using spec_example_ready(3) by simp_all
  from speculative_generation_follows_target [OF spec_example_ready(1,4) this]
  obtain out where out: "cli_generate (cli_round spec_example_engine spec_example_env False 2) cli_argmax 2 ?rs
      spec_example_session 4 = Some out"
    "\<And>f. rows_agree (round_rows spec_example_session ?rs) f (ss_checkpoint spec_example_session) out
      \<Longrightarrow> out = plain_greedy f 2 4 (ss_checkpoint spec_example_session)" by blast
  have "rows_agree (round_rows spec_example_session ?rs) (sm_target spec_example_model)
      (ss_checkpoint spec_example_session) out"
    by (auto simp: rows_agree_def round_rows_def spec_example_model_def spec_example_session_def spec_example_argmax)
  from out(2) [OF this] out(1) show ?thesis by (simp only: spec_example_plain)
qed

theorem speculative_round_bounds_witness:
  "\<exists>accepted. snd (ds4_session_eval_speculative_argmax spec_example_model spec_example_engine spec_example_env False
      spec_example_round spec_example_session 1 3 2 17) = SpecAccepted accepted
    \<and> int (length accepted) \<le> 3 \<and> int (length accepted) \<le> 17
    \<and> int (length (ss_checkpoint (fst (ds4_session_eval_speculative_argmax spec_example_model spec_example_engine
        spec_example_env False spec_example_round spec_example_session 1 3 2 17)))) \<le> 100"
proof -
  obtain s' rc where r: "ds4_session_eval_speculative_argmax spec_example_model spec_example_engine spec_example_env
      False spec_example_round spec_example_session 1 3 2 17 = (s', rc)" by (meson surj_pair)
  have room: "int (length (ss_checkpoint spec_example_session)) < en_ctx_size spec_example_engine"
    "en_ctx_size spec_example_engine = 100"
    by (simp_all add: spec_example_session_def spec_example_engine_def)
  have "\<exists>accepted. rc = SpecAccepted accepted \<and> int (length accepted) \<le> 3 \<and> int (length accepted) \<le> 17
      \<and> int (length (ss_checkpoint s')) \<le> en_ctx_size spec_example_engine"
    by (rule speculative_round_bounds [OF disjI1 [OF spec_example_ready(2)] spec_example_ready(3,4) _ _ room(1) r]) simp_all
  then show ?thesis unfolding r fst_conv snd_conv room(2) .
qed

text \<open>Here the drafts are really used: one round commits both.\<close>

lemma spec_example_round_commits:
  "snd (argmax_seq_dspark spec_example_model spec_example_engine spec_example_env False spec_example_round spec_example_session
     1 10 2 17) = SpecAccepted [1, 0, 2]"
proof -
  have "[0..<2] = [0, Suc 0]" "append_accepted 2 16 [0, 2] = [0, 2]"
    by (simp_all add: upt_rec eval_nat_numeral)
  then show ?thesis
    by (simp add: argmax_seq_dspark_def ds4_session_dspark_draft_cap_def adaptive_start_def spec_budget_def
      at_most_def dspark_verify_cap_def ds4_session_eval_internal_def eval_probe_def
      metal_graph_eval_dspark_draft_block_def dspark_drafted_def cascade_start_def cascade_schedule_def
      ds4_dspark_confidence_schedule_prefix_def draft_survival_def dspark_verify_def
      metal_graph_verify_suffix_tops_def dspark_commit_def dspark_rollback_def
      metal_graph_read_spec_logits_row_def spec_example_model_def spec_example_engine_def spec_example_env_def
      spec_example_round_def spec_example_session_def spec_example_argmax Let_def)
qed

definition spec_example_legacy_engine :: spec_engine where
  "spec_example_legacy_engine = spec_example_engine\<lparr>en_kind := DS4_MTP_DRAFT_LEGACY, en_dspark_ready := False\<rparr>"

lemma spec_example_combined_commits:
  "snd (ds4_session_eval_speculative_argmax_combined spec_example_model spec_example_legacy_engine spec_example_env
     spec_example_round spec_example_session 1 10 2 17) = SpecAccepted [1, 0]"
proof -
  have "append_accepted 2 16 [0] = [0]" by (simp add: eval_nat_numeral)
  then show ?thesis
    by (simp add: ds4_session_eval_speculative_argmax_combined_def combined_depth_def combined_start_def
        spec_budget_def at_most_def metal_graph_eval_mtp_draft_from_hc_def
        metal_graph_eval_mtp_draft_n_from_hc_def combined_verify_def combined_rollback_def
        spec_frontier_commit_prefix2_def metal_graph_verify_suffix_tops_def
        metal_graph_read_spec_logits_row_def spec_example_model_def spec_example_legacy_engine_def
        spec_example_engine_def spec_example_env_def spec_example_round_def spec_example_session_def spec_example_argmax Let_def)
qed

theorem combined_round_commits_batched_rows_witness:
  "\<exists>s' ext. ds4_session_eval_speculative_argmax_combined spec_example_model spec_example_legacy_engine spec_example_env
      spec_example_round spec_example_session 1 10 2 17 = (s', SpecAccepted [1, 0])
    \<and> [1, 0] = 1 # append_accepted 2 (nat (17 - 1)) ext
    \<and> greedy_run (sm_batch spec_example_model) (ss_checkpoint spec_example_session @ [1]) ext
    \<and> ss_checkpoint s' = ss_checkpoint spec_example_session @ 1 # ext
    \<and> ss_logits s' = sm_batch spec_example_model (ss_checkpoint s')"
proof -
  obtain s' where r: "ds4_session_eval_speculative_argmax_combined spec_example_model spec_example_legacy_engine
      spec_example_env spec_example_round spec_example_session 1 10 2 17 = (s', SpecAccepted [1, 0])"
    using spec_example_combined_commits by (metis prod.collapse)
  have "gr_frontier (ss_graph spec_example_session) = ss_checkpoint spec_example_session"
    "cascade_ok (ss_cascade spec_example_session)" "(1 :: int) \<noteq> 2"
    using spec_example_ready(4) by (simp_all add: in_step_def)
  from combined_round_commits_batched_rows [OF this r] r show ?thesis by auto
qed

text \<open>In strict mode, with a legacy head and batched kernels that compute other rows.\<close>

definition spec_example_strict_engine :: spec_engine where
  "spec_example_strict_engine = spec_example_legacy_engine\<lparr>en_quality := True\<rparr>"

definition spec_example_rounding_model :: spec_model where
  "spec_example_rounding_model = spec_example_model\<lparr>sm_batch := (\<lambda>ctx. [1, 0, 0])\<rparr>"

theorem strict_generation_is_exact_witness:
  "cli_generate (cli_step spec_example_rounding_model spec_example_strict_engine spec_example_env False 2) cli_argmax 2
     (replicate 4 spec_example_round) spec_example_session 4 = Some [1, 0]"
proof -
  have n: "cli_max_tokens spec_example_strict_engine spec_example_session 4 = 4"
    by (simp add: cli_max_tokens_def spec_example_strict_engine_def spec_example_legacy_engine_def
        spec_example_engine_def spec_example_session_def)
  have "strict_engine spec_example_strict_engine spec_example_env"
    "ss_logits spec_example_session = sm_target spec_example_rounding_model (ss_checkpoint spec_example_session)"
    "int (length (ss_checkpoint spec_example_session)) < en_ctx_size spec_example_strict_engine"
    by (simp_all add: strict_engine_def legacy_engine_def strict_mode_def spec_example_strict_engine_def
        spec_example_legacy_engine_def spec_example_engine_def spec_example_env_def spec_example_rounding_model_def
        spec_example_model_def spec_example_session_def spec_example_row_def)
  moreover have "\<forall>io\<in>set (replicate 4 spec_example_round). device_works io"
    "cli_max_tokens spec_example_strict_engine spec_example_session 4 \<le> length (replicate 4 spec_example_round)"
    using spec_example_ready(3) by (simp_all add: n)
  moreover have "sm_target spec_example_rounding_model = sm_target spec_example_model"
    by (simp add: spec_example_rounding_model_def)
  ultimately show ?thesis
    using strict_generation_is_exact [of spec_example_strict_engine spec_example_env spec_example_session
        spec_example_rounding_model "replicate 4 spec_example_round" 4 2] spec_example_ready(4)
    by (simp only: n spec_example_plain simp_thms)
qed

section \<open>What does not hold\<close>

text \<open>
  The chained loop takes the success of a target evaluation for its failure: with a legacy head
  that drafts and a device that works, every call with more than four draft tokens ends with a
  decode error and an invalid checkpoint.
\<close>

lemma chained_loop_always_fails:
  assumes "en_kind e = DS4_MTP_DRAFT_LEGACY" "io_mtp io 0 = Some d" "io_top io 0" "0 < left"
  shows "\<exists>s'. argmax_seq_loop m e io eos cap 0 left s acc
      = (s', SpecError (en_backend_name e @ '' decode failed'')) \<and> \<not> ss_checkpoint_valid s'"
  using assms
  by (cases left)
    (auto simp: metal_graph_eval_mtp_draft_from_hc_def metal_graph_eval_token_raw_swa_top_def
      spec_fail_def Let_def)

lemma eval_plain:
  assumes "io_eval io"
  obtains s' where "ds4_session_eval_internal m e False io s t p = Inr s'"
    "ss_checkpoint s' = ss_checkpoint s @ [t]" "gr_frontier (ss_graph s') = gr_frontier (ss_graph s) @ [t]"
  using assms by (simp add: ds4_session_eval_internal_def Let_def)

text \<open>A head whose legacy block is not bound: the chained loop evaluates the token, then reports a gap.\<close>

lemma chained_nonseq:
  assumes "en_kind e = DS4_MTP_DRAFT_DSPARK_NONSEQ" "en_dspark_ready e"
    and "1 < snd (ds4_session_dspark_draft_cap e ev (ss_adaptive s))"
    and "0 < spec_room e s mx cap" "t \<noteq> eos" "io_eval io"
  obtains s' where "argmax_seq_chained m e ev False io s t mx eos cap = (s', SpecGap)"
    "ss_checkpoint s' = ss_checkpoint s @ [t]" "gr_frontier (ss_graph s') = gr_frontier (ss_graph s) @ [t]"
proof -
  obtain a c where ac: "ds4_session_dspark_draft_cap e ev (ss_adaptive s) = (a, c)" by (meson surj_pair)
  define s0 where "s0 = s\<lparr>ss_adaptive := a\<rparr>"
  obtain s1 where s1: "ds4_session_eval_internal m e False io s0 t True = Inr s1"
    "ss_checkpoint s1 = ss_checkpoint s @ [t]" "gr_frontier (ss_graph s1) = gr_frontier (ss_graph s) @ [t]"
    using eval_plain [OF assms(6), of m e s0 t True] by (auto simp: s0_def)
  have "0 < spec_budget e s0 mx cap c"
    using assms(3,4) ac by (simp add: spec_budget_def at_most_min spec_room_def s0_def)
  then obtain k where k: "nat (spec_budget e s0 mx cap c) = Suc k" "\<not> spec_budget e s0 mx cap c \<le> 0"
    by (cases "nat (spec_budget e s0 mx cap c)") auto
  have "argmax_seq_chained m e ev False io s t mx eos cap
      = (spec_argmax_bootstrap_combined_prev_hc e io s1, SpecGap)"
    using assms ac s1(1) k
    by (simp add: argmax_seq_chained_def Let_def s0_def [symmetric] spec_room_def
        metal_graph_eval_mtp_draft_from_hc_def)
  then show ?thesis using s1 by (intro that [of "spec_argmax_bootstrap_combined_prev_hc e io s1"]) simp_all
qed

text \<open>With a nonsequential DSpark head the dispatcher commits the normal token twice: the
  chained loop evaluates it, finds that the legacy block is not bound and reports a gap, and the canonical path
  evaluates it again, so the checkpoint and the device hold the token two times while the
  caller is told of one.\<close>

theorem nonseq_round_doubles_token:
  assumes "en_kind e = DS4_MTP_DRAFT_DSPARK_NONSEQ" "en_dspark_ready e" "en_mtp_spec_ready e"
    and "1 < snd (ds4_session_dspark_draft_cap e ev (ss_adaptive s))"
    and "0 < spec_room e s max_tokens accepted_cap" "first_token \<noteq> eos" "io_eval io"
  shows "\<exists>s'. ds4_session_eval_speculative_argmax m e ev False io s first_token max_tokens eos
        accepted_cap = (s', SpecAccepted [first_token])
      \<and> ss_checkpoint s' = ss_checkpoint s @ [first_token, first_token]
      \<and> gr_frontier (ss_graph s') = gr_frontier (ss_graph s) @ [first_token, first_token]"
proof -
  obtain s1 where s1: "argmax_seq_chained m e ev False io s first_token max_tokens eos accepted_cap
      = (s1, SpecGap)" "ss_checkpoint s1 = ss_checkpoint s @ [first_token]"
    "gr_frontier (ss_graph s1) = gr_frontier (ss_graph s) @ [first_token]"
    by (rule chained_nonseq [OF assms(1,2,4-7)])
  obtain s2 where s2: "ds4_session_eval_internal m e False io s1 first_token True = Inr s2"
    "ss_checkpoint s2 = ss_checkpoint s1 @ [first_token]"
    "gr_frontier (ss_graph s2) = gr_frontier (ss_graph s1) @ [first_token]"
    by (rule eval_plain [OF assms(7)])
  have "\<not> ss_mtp_draft_valid s2" using eval_no_draft [OF _ s2(1)] assms(1) by simp
  then have c: "spec_canonical m e ev False io s1 first_token max_tokens eos accepted_cap
      = (spec_argmax_bootstrap_combined_prev_hc e io s2, SpecAccepted [first_token])"
    using s2(1) by (simp add: spec_canonical_def Let_def split: option.split)
  have k: "en_dspark_ready e = True" "en_mtp_spec_ready e = True" "(max_tokens \<le> 0) = False"
    "(accepted_cap \<le> 0) = False" "(en_kind e = DS4_MTP_DRAFT_DSPARK) = False"
    using assms by (auto simp: spec_room_def)
  have "ds4_session_eval_speculative_argmax m e ev False io s first_token max_tokens eos accepted_cap
      = (spec_argmax_bootstrap_combined_prev_hc e io s2, SpecAccepted [first_token])"
    unfolding ds4_session_eval_speculative_argmax_def ds4_session_eval_speculative_argmax_seq_def Let_def
    by (simp only: k s1(1) c simp_thms if_True if_False prod.case)
  then show ?thesis using s1 s2 by simp
qed

theorem nonseq_round_doubles_token_witness:
  "\<exists>s'. ds4_session_eval_speculative_argmax spec_example_model
        (spec_example_engine\<lparr>en_kind := DS4_MTP_DRAFT_DSPARK_NONSEQ\<rparr>) spec_example_env False
        spec_example_round spec_example_session 1 10 2 17 = (s', SpecAccepted [1])
      \<and> ss_checkpoint s' = ss_checkpoint spec_example_session @ [1, 1]
      \<and> gr_frontier (ss_graph s') = gr_frontier (ss_graph spec_example_session) @ [1, 1]"
  by (rule nonseq_round_doubles_token)
    (simp_all add: spec_example_engine_def spec_example_env_def spec_example_session_def spec_example_round_def spec_room_def
      ds4_session_dspark_draft_cap_def adaptive_start_def)

text \<open>
  The debug replay of the batched verifier: a replay that fails has already cut the checkpoint, but when all
  drafts were verified the call returns them, on a valid session that does not hold them.
\<close>

definition spec_example_drafted :: spec_session where
  "spec_example_drafted = spec_example_session
     \<lparr>ss_checkpoint := [1, 0, 2, 1], ss_logits := [1, 0, 0],
      ss_graph := (ss_graph spec_example_session)\<lparr>gr_frontier := [1, 0, 2, 1]\<rparr>\<rparr>"

lemma failed_replay_loses_drafts:
  "let r = canonical_micro spec_example_model spec_example_legacy_engine (spec_example_env\<lparr>ev_exact_replay := True\<rparr>)
       (spec_example_round\<lparr>io_replay := \<lambda>k. False\<rparr>) spec_example_drafted 1 [0, 2] 0 17 9 in
   snd r = SpecAccepted [1, 0, 2] \<and> ss_checkpoint_valid (fst r) \<and> ss_checkpoint (fst r) = [1, 0, 2, 1]"
proof -
  have a: "append_accepted 9 16 [0, 2] = [0, 2]" by (simp add: append_accepted_room)
  show ?thesis
    by (simp add: canonical_micro_def spec_frontier_snapshot_def spec_frontier_restore_def
        metal_graph_verify_suffix_tops_def micro_verified_def metal_graph_read_spec_logits_row_def
        spec_argmax_snapshot_combined_prev_hc_def keep_accepted_def accepted_drafts_def a
        spec_example_model_def spec_example_legacy_engine_def spec_example_engine_def spec_example_env_def
        spec_example_round_def spec_example_drafted_def spec_example_session_def spec_example_argmax Let_def)
qed

text \<open>A frontier that cannot be restored: the sequential fallback goes on from wherever the device is.\<close>

lemma torn_frontier_is_used:
  "let r = canonical_micro spec_example_model spec_example_legacy_engine (spec_example_env\<lparr>ev_force_snapshot := True\<rparr>)
       (spec_example_round\<lparr>io_verify := False, io_restore := \<lambda>k. False, io_torn := [7, 7]\<rparr>)
       spec_example_drafted 1 [0, 2] 0 3 9 in
   snd r = SpecAccepted [1, 0] \<and> ss_checkpoint_valid (fst r) \<and> ss_checkpoint (fst r) = [1, 0, 2, 1, 0]
   \<and> gr_frontier (ss_graph (fst r)) = [7, 7, 0]"
proof -
  let ?io = "spec_example_round\<lparr>io_verify := False, io_restore := \<lambda>k. False, io_torn := [7, 7]\<rparr>"
  let ?s = "spec_example_drafted\<lparr>ss_graph := (ss_graph spec_example_drafted)\<lparr>gr_frontier := [7, 7], gr_mtp_n_raw := 0\<rparr>\<rparr>"
  have row: "sample_argmax [1, 0, 0] = 0" "sample_argmax (spec_example_row (Suc (Suc (Suc 0)))) = 1"
    by (simp_all add: sample_argmax_def spec_example_row_def)
  have eq: "canonical_micro spec_example_model spec_example_legacy_engine (spec_example_env\<lparr>ev_force_snapshot := True\<rparr>)
       ?io spec_example_drafted 1 [0, 2] 0 3 9
    = canonical_sequential spec_example_model spec_example_legacy_engine ?io ?s 1 [0, 2] 0 3 9"
    by (simp add: canonical_micro_def spec_frontier_snapshot_def spec_frontier_restore_def
      metal_graph_verify_suffix_tops_def micro_failed_def spec_example_env_def
      spec_example_round_def spec_example_drafted_def spec_example_session_def Let_def)
  have two: "nat (3 - 1) = Suc (Suc 0)" by simp
  show ?thesis
    unfolding eq canonical_sequential_def two
    by (simp add: feed_token_def keep_accepted_def row spec_example_model_def
      spec_example_legacy_engine_def spec_example_engine_def spec_example_round_def spec_example_drafted_def
      spec_example_session_def Let_def)
qed

section \<open>Errors\<close>

definition error_invalidates :: "spec_session \<times> spec_rc \<Rightarrow> bool" where
  "error_invalidates r \<longleftrightarrow> (\<forall>msg. snd r = SpecError msg \<longrightarrow> \<not> ss_checkpoint_valid (fst r))"

lemma error_invalidates_simps [simp]:
  "error_invalidates (spec_fail e msg s)" "error_invalidates (s, SpecGap)"
  "error_invalidates (s, SpecAccepted acc)"
  by (simp_all add: error_invalidates_def spec_fail_def)

lemma error_invalidates_if:
  "error_invalidates a \<Longrightarrow> error_invalidates b \<Longrightarrow> error_invalidates (if c then a else b)"
  by simp

lemma eval_error: "ds4_session_eval_internal m e bd io s t p = Inl r \<Longrightarrow> error_invalidates r"
  by (auto simp: ds4_session_eval_internal_def Let_def split: if_splits option.splits prod.splits)

lemma dspark_round_error: "error_invalidates (argmax_seq_dspark m e ev bd io s t mx eos cap)"
  by (auto simp: argmax_seq_dspark_def dspark_drafted_def dspark_verify_def Let_def
      dest: eval_error split: option.split prod.split sum.split)

lemma chained_loop_error: "error_invalidates (argmax_seq_loop m e io eos cap i left s acc)"
  by (induction left arbitrary: i s acc) (auto simp: Let_def split: option.split prod.split)

lemma chained_round_error: "error_invalidates (argmax_seq_chained m e ev bd io s t mx eos cap)"
  by (auto simp: argmax_seq_chained_def Let_def chained_loop_error dest: eval_error
      split: option.split prod.split sum.split)

lemma combined_round_error:
  "error_invalidates (ds4_session_eval_speculative_argmax_combined m e ev io s t mx eos cap)"
  by (auto simp: ds4_session_eval_speculative_argmax_combined_def combined_verify_def Let_def
      split: option.split prod.split)

lemma error_invalidates_option:
  "(r = None \<Longrightarrow> error_invalidates a) \<Longrightarrow> (\<And>x. r = Some x \<Longrightarrow> error_invalidates (b x)) \<Longrightarrow>
    error_invalidates (case r of None \<Rightarrow> a | Some x \<Rightarrow> b x)"
  by (cases r) simp_all

lemma error_invalidates_pair: "(\<And>a b. p = (a, b) \<Longrightarrow> error_invalidates (f a b)) \<Longrightarrow> error_invalidates (case p of (a, b) \<Rightarrow> f a b)"
  by (cases p) simp

lemma accepted_drafts_error [simp]: "error_invalidates (s, accepted_drafts t cap eos ds)"
  by (simp add: accepted_drafts_def)

lemmas error_intros = error_invalidates_if error_invalidates_option error_invalidates_pair error_invalidates_simps
  accepted_drafts_error

lemma sequential_error: "error_invalidates (canonical_sequential m e io s t drafts mb cap eos)"
  unfolding canonical_sequential_def Let_def by (intro error_intros)

lemma margin_skip_error: "error_invalidates (canonical_margin_skip m e io s t drafts mb)"
  unfolding canonical_margin_skip_def Let_def by (intro error_intros)

lemma decode2_error: "error_invalidates (canonical_decode2 m e io s t drafts mb cap eos)"
  unfolding canonical_decode2_def Let_def by (intro error_intros sequential_error)

lemma micro_failed_error: "error_invalidates (micro_failed m e io s t drafts start mb cap eos saved)"
  unfolding micro_failed_def Let_def
  by (intro error_intros sequential_error) (simp add: error_invalidates_def)

lemma micro_partial_error: "error_invalidates (micro_partial m e io s t drafts k start mb cap eos saved)"
  unfolding micro_partial_def Let_def by (intro error_intros micro_failed_error)

lemma micro_error: "error_invalidates (canonical_micro m e ev io s t drafts mb cap eos)"
  unfolding canonical_micro_def micro_verified_def Let_def
  by (intro error_intros sequential_error micro_failed_error micro_partial_error)

lemma drafted_error: "error_invalidates (canonical_drafted m e ev io s t n cap eos)"
  unfolding canonical_drafted_def Let_def
  by (intro error_intros margin_skip_error decode2_error micro_error)

lemma canonical_round_error: "error_invalidates (spec_canonical m e ev bd io s t mx eos cap)"
proof (cases "ds4_session_eval_internal m e bd io s t True")
  case (Inl r)
  then show ?thesis using eval_error [OF Inl] by (simp add: spec_canonical_def)
next
  case (Inr s1)
  show ?thesis
    unfolding spec_canonical_def Inr sum.case Let_def by (intro error_intros drafted_error)
qed

text \<open>C36. Whenever a speculative call on a local device session returns an error, whichever pass, draft,
  verifier, snapshot, replay, rollback or read-back of the device failed, on every path of the dispatcher, the
  checkpoint of the session is marked invalid, so no later request continues from a half-committed state.\<close>

theorem speculative_error_invalidates:
  assumes "ds4_session_eval_speculative_argmax m e ev bd io s first_token max_tokens eos
           accepted_cap = (s', SpecError msg)"
  shows "\<not> ss_checkpoint_valid s'"
proof -
  let ?seq = "\<lambda>s. ds4_session_eval_speculative_argmax_seq m e ev bd io s first_token max_tokens eos accepted_cap"
  have q: "error_invalidates (?seq s)" for s
    by (simp add: ds4_session_eval_speculative_argmax_seq_def dspark_round_error chained_round_error)
  have "error_invalidates (ds4_session_eval_speculative_argmax m e ev bd io s first_token
      max_tokens eos accepted_cap)"
    unfolding ds4_session_eval_speculative_argmax_def Let_def
    by (auto intro!: error_invalidates_if canonical_round_error split: prod.split)
      (metis q combined_round_error error_invalidates_simps(2))+
  then show ?thesis using assms by (simp add: error_invalidates_def)
qed

definition spec_example_failing_round :: spec_io where
  "spec_example_failing_round = spec_example_round\<lparr>io_eval := False\<rparr>"

theorem speculative_error_invalidates_witness:
  "\<not> ss_checkpoint_valid (fst (ds4_session_eval_speculative_argmax spec_example_model spec_example_engine spec_example_env
     False spec_example_failing_round spec_example_session 1 3 2 17))"
proof -
  obtain s1 rc where r: "argmax_seq_dspark spec_example_model spec_example_engine spec_example_env False
      spec_example_failing_round spec_example_session 1 3 2 17 = (s1, rc)" by (meson surj_pair)
  then have "rc = SpecError ''CUDA decode failed''"
    by (simp add: argmax_seq_dspark_def Let_def ds4_session_dspark_draft_cap_def adaptive_start_def
        spec_budget_def at_most_def dspark_verify_cap_def ds4_session_eval_internal_def spec_fail_def
        spec_example_engine_def spec_example_env_def spec_example_session_def spec_example_round_def spec_example_failing_round_def)
  then have "ds4_session_eval_speculative_argmax spec_example_model spec_example_engine spec_example_env False
      spec_example_failing_round spec_example_session 1 3 2 17
      = (s1, SpecError ''CUDA decode failed'')"
    using dispatch_dspark [OF _ _ _ _ _ r] spec_example_ready(2) by (simp add: dspark_engine_def)
  from speculative_error_invalidates [OF this] this show ?thesis by simp
qed

end
