(* ===== verification/Session.thy ===== *)
theory Session
  imports SyncResult SpecLoop
begin

text \<open>
  What the synchronization of a session promises its callers: the server, which saves checkpoints
  from the progress callback, and the decode loops, which generate behind the prompt.
\<close>

section \<open>The outcome of a call\<close>

text \<open>C4. \<open>ds4_session_sync\<close> always returns.  A prompt that is empty or does not fit is refused, with the
  session as it was.  On success the live state stands for exactly the prompt; every other error, of a
  failing device, leaves no valid checkpoint; an interrupted call leaves the session as
  it was, or without a checkpoint, or with a prefix of the prompt, on which the device agrees
  unless the decode-style prefill of a streamed model was interrupted.\<close>

theorem session_sync_outcome:
  assumes "sync_inv m io st" "sy_events st = []"
  shows "case ds4_session_sync m e io prompt st of
      None \<Rightarrow> False
    | Some (st', rc) \<Rightarrow>
        if prompt = [] \<or> int (length prompt) \<ge> en_ctx_size e
        then st' = st \<and> rc = SyncError ''prompt exceeds context''
        else (case rc of
           SyncOk \<Rightarrow> ss_checkpoint_valid (sy_session st') \<and> ss_checkpoint (sy_session st') = prompt
             \<and> live m io (sy_session st')
         | SyncError _ \<Rightarrow> \<not> ss_checkpoint_valid (sy_session st')
         | SyncInterrupted \<Rightarrow> sy_session st' = sy_session st \<or> \<not> ss_checkpoint_valid (sy_session st')
             \<or> prefix (ss_checkpoint (sy_session st')) prompt
               \<and> (live m io (sy_session st')
                  \<or> sy_ssd_streaming io \<and> ss_checkpoint (sy_session st') = ss_checkpoint (sy_session st)))"
proof (cases "prompt = [] \<or> int (length prompt) \<ge> en_ctx_size e")
  case True
  then show ?thesis by (auto simp: ds4_session_sync_def)
next
  case False
  have "events_ok m io prompt st" using assms(2) by (simp add: events_ok_def)
  with assms(1) show ?thesis
    by (cases rule: ds4_session_sync_result[of m io st prompt e])
      (use False in \<open>auto simp: sync_result_def Let_def split: sync_rc.splits prod.splits\<close>)
qed

text \<open>C20. Every checkpoint the progress callback of the caller sees is the prefix of the prompt it is
  told of, in step with the device and the logits; so the server may save it to disk.\<close>

theorem session_sync_progress_consistent:
  assumes "sync_inv m io st" "sy_events st = []"
    and "ds4_session_sync m e io prompt st = Some (st', rc)" "(n, s) \<in> set (sy_events st')"
    and "ss_checkpoint_valid s"
  shows "ss_checkpoint s = take n prompt \<and> gr_frontier (ss_graph s) = take n prompt
    \<and> ss_logits s \<in> logits_of m io (take n prompt)"
proof -
  have ev: "events_ok m io prompt st" using assms(2) by (simp add: events_ok_def)
  have "events_ok m io prompt st'"
    using assms(1) ev
  proof (cases rule: ds4_session_sync_result[of m io st prompt e])
    case (3 r)
    then show ?thesis using assms(3) by (auto simp: sync_result_def Let_def)
  qed (use assms(2,3) ev in \<open>auto simp: events_ok_def\<close>)
  then have "event_ok m io prompt (n, s)" using assms(4) by (auto simp: events_ok_def list_all_iff)
  then show ?thesis
    using assms(5) by (auto simp: event_ok_def live_def)
qed

text \<open>C8. When nothing cancels and the device works, a prompt that fits the context is reached, whatever
  the session held before.\<close>

theorem session_sync_succeeds:
  assumes "sync_works io" "prompt \<noteq> []" "int (length prompt) < en_ctx_size e"
    and "0 < en_prefill_cap e" "0 < sy_raw_cap io"
    and "sync_inv m io st" "sy_events st = []"
  shows "\<exists>st'. ds4_session_sync m e io prompt st = Some (st', SyncOk)
    \<and> ss_checkpoint (sy_session st') = prompt \<and> live m io (sy_session st')"
proof -
  obtain st' where st': "ds4_session_sync m e io prompt st = Some (st', SyncOk)"
    using works_sync[OF assms(1-5)] by blast
  have ev: "events_ok m io prompt st" using assms(7) by (simp add: events_ok_def)
  show ?thesis
    using assms(6) ev
  proof (cases rule: ds4_session_sync_result[of m io st prompt e])
    case (3 r)
    then show ?thesis using st' by (auto simp: sync_result_def Let_def)
  qed (use st' in auto)
qed

lemma filter_swap: "filter P (filter Q xs) = filter Q (filter P xs)"
  by (induction xs) auto

text \<open>C31. A resumed prefill ends its chunks where a cold prefill of the same prompt does, beyond its
  start: at the absolute multiples of the chunk size and at the end of the prompt.\<close>

theorem resumed_prefill_keeps_boundaries:
  assumes "sync_works io" "0 < en_prefill_cap e" "en_prefill_cap e \<le> sy_raw_cap io"
    and "0 < start" "start < length prompt" "\<not> sy_ssd_streaming io"
    and "sy_events st = []" "sy_events st' = []"
  shows "\<exists>cold resumed.
      metal_graph_prefill_chunked m e io prompt True (length prompt) st = Some (cold, PrefillDone)
    \<and> metal_graph_prefill_chunked_range m e io prompt True start (length prompt - start) st'
        = Some (resumed, PrefillDone)
    \<and> map fst (sy_events resumed) = start # filter (\<lambda>x. start < x) (map fst (sy_events cold))"
proof -
  have ns: "\<not> metal_graph_use_streaming_decode_prefill_range e io p n" for p n
    using assms(6) by (simp add: metal_graph_use_streaming_decode_prefill_range_def metal_graph_use_streaming_decode_prefill_def)
  have ne: "prompt \<noteq> []" using assms(5) by auto
  obtain cold where cold: "metal_graph_prefill_chunked_range m e io prompt True 0 (length prompt) st
      = Some (cold, PrefillDone)"
    "map fst (sy_events cold) = 0 # prefill_boundaries (en_prefill_cap e) 0 (length prompt)"
    using works_chunked_range[of io "length prompt" 0 prompt e m st] assms ns ne by auto
  obtain resumed where res: "metal_graph_prefill_chunked_range m e io prompt True start (length prompt - start) st'
      = Some (resumed, PrefillDone)"
    "map fst (sy_events resumed) = start # prefill_boundaries (en_prefill_cap e) start (length prompt)"
    using works_chunked_range[of io "length prompt - start" start prompt e m st'] assms ns by auto
  have "[x\<leftarrow>[Suc 0..<Suc (length prompt)]. start < x] = [Suc start..<Suc (length prompt)]"
  proof -
    have "[Suc 0..<Suc (length prompt)] = [Suc 0..<Suc start] @ [Suc start..<Suc (length prompt)]"
      using upt_add_eq_append[of "Suc 0" "Suc start" "length prompt - start"] assms(5) by simp
    then show ?thesis by (simp del: upt_Suc add: filter_empty_conv)
  qed
  then have "filter (\<lambda>x. start < x) (prefill_boundaries (en_prefill_cap e) 0 (length prompt))
      = prefill_boundaries (en_prefill_cap e) start (length prompt)"
    unfolding prefill_boundaries_def by (subst filter_swap) (simp only:)
  then show ?thesis
    using cold res ne
    by (intro exI[of _ cold] exI[of _ resumed]) (simp add: metal_graph_prefill_chunked_def)
qed

text \<open>C37. Interrupting the decode-style prefill of a streamed model behind its first token: the call
  reports a valid checkpoint that the device has already left.\<close>

theorem session_sync_streaming_interrupt_stale:
  assumes "\<not> sy_cpu io" "extends_checkpoint (sy_session st) prompt" "live m io (sy_session st)"
    and "int (length prompt) < en_ctx_size e" "0 < en_prefill_cap e"
    and "k = length (ss_checkpoint (sy_session st))" "k + 1 < length prompt"
    and "unat (sy_resume_min io) \<le> length prompt - k"
    and "metal_graph_use_streaming_decode_prefill_range e io k (length prompt - k)"
    and "sy_device io k" "\<not> sy_cancel io (sy_queries st)" "\<not> sy_cancel io (sy_queries st + 1)"
    and "sy_cancel io (sy_queries st + 2)"
  shows "\<exists>st'. ds4_session_sync m e io prompt st = Some (st', SyncInterrupted)
    \<and> ss_checkpoint_valid (sy_session st') \<and> ss_checkpoint (sy_session st') = take k prompt
    \<and> gr_frontier (ss_graph (sy_session st')) = take (k + 1) prompt"
proof -
  obtain n where n: "length prompt - k = Suc (Suc n)"
    using assms(7) by (metis Suc_diff_Suc Suc_eq_plus1 add_lessD1)
  have ck: "ss_checkpoint (sy_session st) = take k prompt"
    "gr_frontier (ss_graph (sy_session st)) = take k prompt"
    using assms(2,3,6) by (auto simp: extends_checkpoint_def prefix_def live_def)
  have np: "prompt \<noteq> []" using assms(7) by auto
  show ?thesis
    using assms np n ck take_Suc_prompt[of k prompt] take_Suc_prompt[of 0 prompt] streaming_range[OF assms(9)]
    by (simp add: ds4_session_sync_def ds4_session_cancelled_def sync_extend_def
      metal_graph_prefill_chunked_range_def metal_graph_prefill_decode_streaming_range_def Let_def
      note_progress_def ds4_session_note_prefill_progress_def on_session_def user_progress_def
      sync_interrupted_def absorb_token_def)
qed

section \<open>Rewriting the live tail\<close>

lemma common_prefix_spec:
  "take (common_prefix xs ys) xs = take (common_prefix xs ys) ys"
  "common_prefix xs ys \<le> length xs" "common_prefix xs ys \<le> length ys"
  "common_prefix xs ys < length xs \<Longrightarrow> common_prefix xs ys < length ys
    \<Longrightarrow> xs ! common_prefix xs ys \<noteq> ys ! common_prefix xs ys"
  by (induction xs ys rule: common_prefix.induct) auto

lemma common_prefix_full: "common_prefix xs ys = length xs \<longleftrightarrow> prefix xs ys"
  by (induction xs ys rule: common_prefix.induct) auto

text \<open>C30. A rewrite at the common prefix never replaces a live token: it extends the session when the
  live tokens are a prefix of the new prompt, and otherwise asks for a rebuild and leaves
  everything as it is.\<close>

theorem session_rewrite_never_overwrites:
  assumes "sync_inv m io st" "sy_events st = []" "ss_checkpoint_valid (sy_session st)"
    and "prompt \<noteq> []" "int (length prompt) < en_ctx_size e"
    and "common = int (ds4_session_common_prefix (sy_session st) prompt)"
  shows "case ds4_session_rewrite_from_common m e io prompt common st of
      None \<Rightarrow> False
    | Some (st', DS4_SESSION_REWRITE_OK) \<Rightarrow>
        prefix (ss_checkpoint (sy_session st)) prompt
        \<and> ss_checkpoint (sy_session st') = prompt \<and> live m io (sy_session st')
    | Some (st', DS4_SESSION_REWRITE_REBUILD_NEEDED) \<Rightarrow>
        st' = st \<and> \<not> prefix (ss_checkpoint (sy_session st)) prompt
    | Some (st', DS4_SESSION_REWRITE_ERROR msg) \<Rightarrow> prefix (ss_checkpoint (sy_session st)) prompt"
proof -
  let ?ck = "ss_checkpoint (sy_session st)"
  have c: "common = int (common_prefix ?ck prompt)"
    using assms(3,6) by (simp add: ds4_session_common_prefix_def)
  note cp = common_prefix_spec[of ?ck prompt] and full = common_prefix_full[of ?ck prompt]
  have ev: "events_ok m io prompt st" using assms(2) by (simp add: events_ok_def)
  show ?thesis
  proof (cases "prefix ?ck prompt")
    case False
    then have "common < int (length ?ck)" using c cp(2) full by linarith
    then show ?thesis
      using assms c cp False
      by (simp add: ds4_session_rewrite_from_common_def ds4_session_rewrite_requires_rebuild_def Let_def)
  next
    case True
    have r: "ds4_session_rewrite_from_common m e io prompt common st =
        (case ds4_session_sync m e io prompt st of
           None \<Rightarrow> None
         | Some (st, SyncOk) \<Rightarrow> Some (st, DS4_SESSION_REWRITE_OK)
         | Some (st, SyncError msg) \<Rightarrow> Some (st, DS4_SESSION_REWRITE_ERROR msg)
         | Some (st, SyncInterrupted) \<Rightarrow> Some (st, DS4_SESSION_REWRITE_ERROR ''interrupted''))"
      using assms c cp True full by (simp add: ds4_session_rewrite_from_common_def Let_def)
    show ?thesis
      using assms(1) ev
      by (cases rule: ds4_session_sync_result[of m io st prompt e])
        (auto simp: r True sync_result_def Let_def split: sync_rc.splits prod.splits)
  qed
qed

section \<open>Generating behind a prompt\<close>

text \<open>The rows of a prompt and its generation: of the prefill that synchronized the session, and of the rounds.\<close>

definition prompted_rows :: "spec_model \<Rightarrow> sync_io \<Rightarrow> spec_round list \<Rightarrow> int list \<Rightarrow> logits set" where
  "prompted_rows m io rounds c =
     logits_of m io c \<union> (\<Union>r\<in>set rounds. {sm_target (fst r) c, sm_batch (fst r) c})"

text \<open>C1. Prompt and generation together: after a successful synchronization the decode loop, with a
  DSpark head, a legacy head or without speculation, prints a continuation of the prompt in which every
  token, and the early end, is the greedy choice of a row that was computed behind exactly the prompt and the
  tokens in front of it, whatever prefix of the prompt was cached, however it was prefilled and whatever the
  draft head proposes.  The kernels of the prefill, of the batched and of the one-token path, and of different
  rounds, may all round differently; where their rows along the printed text agree on the greedy token,
  the text is the greedy continuation of the prompt.\<close>

theorem prompted_generation_follows_target:
  assumes "speculative_engine e ev"
    and "sync_inv m io st" "sy_events st = []" "cascade_ok (ss_cascade (sy_session st))"
    and "ds4_session_sync m e io prompt st = Some (st', SyncOk)"
    and "\<forall>r\<in>set rounds. device_works (snd r)" "n \<le> length rounds"
  shows "\<exists>out. cli_generate (cli_round e ev bd eos) cli_argmax eos rounds (sy_session st') n = Some out
    \<and> target_stream (prompted_rows m io rounds) eos n prompt out
    \<and> (\<forall>f. rows_agree (prompted_rows m io rounds) f prompt out \<longrightarrow> out = plain_greedy f eos n prompt)"
proof -
  let ?R = "prompted_rows m io rounds"
  have ev: "events_ok m io prompt st" using assms(3) by (simp add: events_ok_def)
  have r: "spec_ready ?R (sy_session st') \<and> ss_checkpoint (sy_session st') = prompt"
    using assms(2) ev
  proof (cases rule: ds4_session_sync_result[of m io st prompt e])
    case (3 r)
    then show ?thesis
      using assms(4,5) by (auto simp: sync_result_def Let_def spec_ready_def live_def prompted_rows_def)
  qed (use assms(5) in auto)
  have "computes ?R (fst r)" if "r \<in> set rounds" for r using that by (auto simp: computes_def prompted_rows_def)
  then obtain out where "cli_generate (cli_round e ev bd eos) cli_argmax eos rounds (sy_session st') n = Some out"
    "target_stream ?R eos n (ss_checkpoint (sy_session st')) out"
    using speculative.generate_stream [of e ev ?R "sy_session st'" rounds n bd eos] assms(1,6,7) r by blast
  then show ?thesis using r target_stream_unique by blast
qed

section \<open>Examples\<close>

text \<open>The model of three tokens again, with a layer-major prefill that agrees with it.\<close>

definition sync_example_io :: sync_io where
  "sync_example_io = \<lparr>sy_cpu = False, sy_prefill = (\<lambda>ctx. spec_example_row (length ctx)),
     sy_ssd_streaming = False, sy_streaming_max = 18, sy_cold_disabled = False, sy_resume_min = 4,
     sy_raw_cap = 128, sy_cancel = (\<lambda>n. False), sy_device = (\<lambda>p. True), sy_reset = True\<rparr>"

definition sync_example :: sync_state where
  "sync_example = \<lparr>sy_session = spec_example_session, sy_queries = 0, sy_events = []\<rparr>"

lemma sync_example_facts:
  "sync_works sync_example_io" "sy_events sync_example = []" "sync_inv spec_example_model io sync_example"
  "live spec_example_model io spec_example_session"
  "ss_checkpoint (sy_session sync_example) = [1, 0, 2]" "ss_checkpoint_valid (sy_session sync_example)"
  "cascade_ok (ss_cascade (sy_session sync_example))"   "en_ctx_size spec_example_engine = 100" "en_prefill_cap spec_example_engine = 8"
  "sy_raw_cap sync_example_io = 128" "\<not> sy_ssd_streaming sync_example_io"
  by (simp_all add: sync_works_def sync_example_io_def sync_example_def sync_inv_def live_def logits_of_def
      spec_example_session_def spec_example_model_def spec_example_row_def cascade_ok_def
      spec_example_engine_def)

lemma sync_example_reaches:
  assumes "prompt \<noteq> []" "length prompt < 100"
  obtains st' where "ds4_session_sync spec_example_model spec_example_engine sync_example_io prompt sync_example
    = Some (st', SyncOk)"
  using works_sync[OF sync_example_facts(1) assms(1), of spec_example_engine spec_example_model sync_example]
    assms(2) by (auto simp: sync_example_facts)

theorem session_sync_outcome_witness:
  "\<exists>st'. ds4_session_sync spec_example_model spec_example_engine sync_example_io [1, 0, 2, 1, 0] sync_example
      = Some (st', SyncOk)
    \<and> ss_checkpoint (sy_session st') = [1, 0, 2, 1, 0]
    \<and> gr_frontier (ss_graph (sy_session st')) = [1, 0, 2, 1, 0]"
proof -
  obtain st' where r: "ds4_session_sync spec_example_model spec_example_engine sync_example_io [1, 0, 2, 1, 0]
      sync_example = Some (st', SyncOk)"
    by (rule sync_example_reaches[of "[1, 0, 2, 1, 0]"]) simp_all
  show ?thesis
    using session_sync_outcome[where io = sync_example_io and e = spec_example_engine and prompt = "[1, 0, 2, 1, 0]",
        OF sync_example_facts(3,2)] r
    by (simp add: live_def sync_example_facts)
qed

theorem session_sync_progress_consistent_witness:
  "\<exists>st' s. ds4_session_sync spec_example_model spec_example_engine (sync_example_io\<lparr>sy_cpu := True\<rparr>)
      [1, 0, 2, 1] sync_example = Some (st', SyncOk)
    \<and> sy_events st' = [(4, s)] \<and> ss_checkpoint s = take 4 [1, 0, 2, 1]
    \<and> gr_frontier (ss_graph s) = take 4 [1, 0, 2, 1]"
proof -
  obtain st' s where r: "ds4_session_sync spec_example_model spec_example_engine (sync_example_io\<lparr>sy_cpu := True\<rparr>)
      [1, 0, 2, 1] sync_example = Some (st', SyncOk)"
    "sy_events st' = [(4, s)]" "ss_checkpoint_valid s"
    by (simp add: ds4_session_sync_def ds4_session_cancelled_def sync_cpu_def extends_checkpoint_def
      sync_example_io_def sync_example_def spec_example_session_def spec_example_engine_def on_session_def
      user_progress_def absorb_token_def Let_def)
  show ?thesis
    using session_sync_progress_consistent[OF sync_example_facts(3,2) r(1), of 4 s] r by auto
qed

theorem session_sync_succeeds_witness:
  "\<exists>st'. ds4_session_sync spec_example_model spec_example_engine sync_example_io [0, 0] sync_example
      = Some (st', SyncOk)
    \<and> ss_checkpoint (sy_session st') = [0, 0] \<and> live spec_example_model sync_example_io (sy_session st')"
  by (rule session_sync_succeeds[OF sync_example_facts(1)]) (simp_all add: sync_example_facts)

theorem resumed_prefill_keeps_boundaries_witness:
  "\<exists>cold resumed.
      metal_graph_prefill_chunked spec_example_model spec_example_engine sync_example_io (replicate 20 1) True 20
        sync_example = Some (cold, PrefillDone)
    \<and> metal_graph_prefill_chunked_range spec_example_model spec_example_engine sync_example_io (replicate 20 1)
        True 3 17 sync_example = Some (resumed, PrefillDone)
    \<and> map fst (sy_events resumed) = 3 # filter (\<lambda>x. 3 < x) (map fst (sy_events cold))"
  using resumed_prefill_keeps_boundaries[OF sync_example_facts(1), of spec_example_engine 3 "replicate 20 1"
      sync_example sync_example spec_example_model]
  by (simp add: sync_example_facts)

theorem session_sync_streaming_interrupt_stale_witness:
  "\<exists>st'. ds4_session_sync spec_example_model spec_example_engine
      (sync_example_io\<lparr>sy_ssd_streaming := True, sy_cancel := \<lambda>n. n = 2\<rparr>) [1, 0, 2, 1, 0, 2, 1] sync_example
      = Some (st', SyncInterrupted)
    \<and> ss_checkpoint_valid (sy_session st') \<and> ss_checkpoint (sy_session st') = take 3 [1, 0, 2, 1, 0, 2, 1]
    \<and> gr_frontier (ss_graph (sy_session st')) = take (3 + 1) [1, 0, 2, 1, 0, 2, 1]"
  by (rule session_sync_streaming_interrupt_stale)
    (simp_all add: sync_example_io_def sync_example_def spec_example_session_def spec_example_engine_def
      extends_checkpoint_def live_def logits_of_def spec_example_model_def spec_example_row_def
      metal_graph_use_streaming_decode_prefill_range_def metal_graph_use_streaming_decode_prefill_def)

theorem session_rewrite_never_overwrites_witness:
  "case ds4_session_rewrite_from_common spec_example_model spec_example_engine sync_example_io [1, 0, 1, 1] 2
      sync_example of
      None \<Rightarrow> False
    | Some (st', DS4_SESSION_REWRITE_OK) \<Rightarrow>
        prefix (ss_checkpoint (sy_session sync_example)) [1, 0, 1, 1]
        \<and> ss_checkpoint (sy_session st') = [1, 0, 1, 1] \<and> live spec_example_model sync_example_io (sy_session st')
    | Some (st', DS4_SESSION_REWRITE_REBUILD_NEEDED) \<Rightarrow>
        st' = sync_example \<and> \<not> prefix (ss_checkpoint (sy_session sync_example)) [1, 0, 1, 1]
    | Some (st', DS4_SESSION_REWRITE_ERROR msg) \<Rightarrow>
        prefix (ss_checkpoint (sy_session sync_example)) [1, 0, 1, 1]"
  by (rule session_rewrite_never_overwrites[OF sync_example_facts(3,2)])
    (simp_all add: sync_example_facts ds4_session_common_prefix_def)

theorem prompted_generation_follows_target_witness:
  "\<exists>st'. ds4_session_sync spec_example_model spec_example_engine sync_example_io [1, 0, 2, 1, 0, 2] sync_example
      = Some (st', SyncOk)
    \<and> cli_generate (cli_round spec_example_engine spec_example_env False 2) cli_argmax 2
        (replicate 4 (spec_example_model, spec_example_round)) (sy_session st') 4 = Some [1, 0]"
proof -
  let ?rs = "replicate 4 (spec_example_model, spec_example_round)"
  obtain st' where r: "ds4_session_sync spec_example_model spec_example_engine sync_example_io
      [1, 0, 2, 1, 0, 2] sync_example = Some (st', SyncOk)"
    by (rule sync_example_reaches[of "[1, 0, 2, 1, 0, 2]"]) simp_all
  have four: "4 = Suc (Suc (Suc (Suc 0)))" by simp
  have plain: "plain_greedy (sm_target spec_example_model) 2 4 [1, 0, 2, 1, 0, 2] = [1, 0]"
    unfolding four by (simp add: spec_example_model_def spec_example_argmax del: One_nat_def)
  have works: "\<forall>r\<in>set ?rs. device_works (snd r)" "4 \<le> length ?rs" using spec_example_ready(3) by simp_all
  from prompted_generation_follows_target[OF spec_example_ready(1) sync_example_facts(3,2,7) r works]
  obtain out where out: "cli_generate (cli_round spec_example_engine spec_example_env False 2) cli_argmax 2 ?rs
      (sy_session st') 4 = Some out"
    "\<And>f. rows_agree (prompted_rows spec_example_model sync_example_io ?rs) f [1, 0, 2, 1, 0, 2] out
      \<Longrightarrow> out = plain_greedy f 2 4 [1, 0, 2, 1, 0, 2]" by blast
  have "rows_agree (prompted_rows spec_example_model sync_example_io ?rs) (sm_target spec_example_model)
      [1, 0, 2, 1, 0, 2] out"
    by (auto simp: rows_agree_def prompted_rows_def logits_of_def spec_example_model_def sync_example_io_def)
  from out(2)[OF this] out(1) r show ?thesis by (simp only: plain) blast
qed

end
