(* ===== verification/Sampling.thy ===== *)
theory Sampling
  imports Speculative
begin

text \<open>
  Token sampling of \<open>ds4.c\<close>: the generator, the samplers over a row of logits with temperature,
  top-k, top-p and min-p, the variants that exclude token ids, and the arithmetic of speculative
  sampling (truncated distributions, acceptance and the residual draw).

  Floats are real numbers and every logit is finite, so the \<open>isfinite\<close> guards never skip; the
  cutoffs at 0 are kept as the code has them.  \<open>qsort\<close> is a parameter: any ordering by descending
  logit, ties in any order.  The vocabulary is the row itself.
\<close>

section \<open>The generator\<close>

definition sample_rng_next :: "u64 \<Rightarrow> u64 \<times> u64" where
  "sample_rng_next state =
     (let x0 = (if state = 0 then 0x9e3779b97f4a7c15 else state);
          x1 = xor x0 (drop_bit 12 x0);
          x2 = xor x1 (push_bit 25 x1);
          x3 = xor x2 (drop_bit 27 x2)
      in (x3 * 0x2545f4914f6cdd1d, x3))"

definition sample_rng_f32 :: "u64 \<Rightarrow> real \<times> u64" where
  "sample_rng_f32 state =
     (let (x, state) = sample_rng_next state in
      (real (unat (and (drop_bit 40 x) 0xffffff)) / 16777216, state))"

section \<open>Candidates\<close>

text \<open>
  The bounded list of the best candidates, best first: an entry is written behind the last one
  that is not smaller, which drops the last one of a full list; entries not better than the last
  one of a full list are skipped.
\<close>

definition shift_in :: "(real \<times> int) \<Rightarrow> (real \<times> int) list \<Rightarrow> (real \<times> int) list" where
  "shift_in c cs =
     (let smaller = takeWhile (\<lambda>d. fst d < fst c) (rev cs);
          kept = take (length cs - length smaller) cs in
      kept @ [c] @ drop (length kept) cs)"

definition candidate_step :: "nat \<Rightarrow> (real \<times> int) list \<Rightarrow> (real \<times> int) \<Rightarrow> (real \<times> int) list" where
  "candidate_step cap cs c =
     (if length cs = cap \<and> fst c \<le> fst (last cs) then cs
      else shift_in c (if length cs < cap then cs else butlast cs))"

definition top_candidates :: "nat \<Rightarrow> (real \<times> int) list \<Rightarrow> (real \<times> int) list" where
  "top_candidates cap cs = foldl (candidate_step cap) [] cs"

definition with_ids :: "real list \<Rightarrow> (real \<times> int) list" where
  "with_ids vs = zip vs (map int [0..<length vs])"

text \<open>The prefix of the candidates whose share of \<open>sum\<close> reaches \<open>top_p\<close>, cut at \<open>min_prob\<close>.\<close>

fun nucleus :: "real \<Rightarrow> real \<Rightarrow> real \<Rightarrow> bool \<Rightarrow> real \<Rightarrow> (real \<times> int) list \<Rightarrow> (real \<times> int) list \<times> real" where
  "nucleus mass min_prob top_p first filtered_sum [] = ([], filtered_sum)"
| "nucleus mass min_prob top_p first filtered_sum (c # cs) =
     (if \<not> first \<and> fst c / mass < min_prob then ([], filtered_sum)
      else
        (let acc = filtered_sum + fst c in
         if acc / mass \<ge> top_p then ([c], acc)
         else
           (let (kept, total_sum) = nucleus mass min_prob top_p False acc cs in (c # kept, total_sum))))"

fun draw_from :: "int \<Rightarrow> real \<Rightarrow> (real \<times> int) list \<Rightarrow> int" where
  "draw_from otherwise r [] = otherwise"
| "draw_from otherwise r (c # cs) =
     (let r = r - fst c in if r \<le> 0 then snd c else draw_from otherwise r cs)"

definition softmax_weight :: "real \<Rightarrow> real \<Rightarrow> real \<Rightarrow> real" where
  "softmax_weight temperature max_logit v = exp ((v - max_logit) / temperature)"

section \<open>The samplers\<close>

definition max_from :: "logits \<Rightarrow> real" where
  "max_from logits = foldl (\<lambda>m v. if v > m then v else m) (- (10 ^ 30)) logits"

definition sample_full_vocab_exact ::
  "((real \<times> real \<times> int) list \<Rightarrow> (real \<times> real \<times> int) list) \<Rightarrow> logits \<Rightarrow> real \<Rightarrow> real \<Rightarrow> real \<Rightarrow> real
   \<Rightarrow> int \<Rightarrow> u64 \<Rightarrow> int \<times> u64" where
  "sample_full_vocab_exact qsort logits temperature top_p min_p max_logit best rng =
     (let cand = map (\<lambda>(v, i). (v, softmax_weight temperature max_logit v, i)) (with_ids logits);
          mass = sum_list (map (fst \<circ> snd) cand) in
      if mass \<le> 0 then (best, rng)
      else
        (let sorted = map snd (qsort cand);
             min_prob = fst (hd sorted) / mass * (if min_p > 0 then min_p else 0);
             (kept, filtered_sum) = nucleus mass min_prob top_p True 0 sorted in
         if kept = [] then (best, rng)
         else
           (let (u, rng) = sample_rng_f32 rng in
            (draw_from (snd (last kept)) (u * filtered_sum) kept, rng))))"

definition SAMPLE_TOPK :: nat where
  "SAMPLE_TOPK = 1024"

definition sample_full_vocab ::
  "((real \<times> real \<times> int) list \<Rightarrow> (real \<times> real \<times> int) list) \<Rightarrow> logits \<Rightarrow> real \<Rightarrow> real \<Rightarrow> real
   \<Rightarrow> u64 \<Rightarrow> int \<times> u64" where
  "sample_full_vocab qsort logits temperature top_p min_p rng =
     (let max_logit = max_from logits; best = sample_argmax logits;
          weights = map (\<lambda>(v, i). (softmax_weight temperature max_logit v, i)) (with_ids logits);
          min_rel = (if min_p > 0 then min_p else 0) in
      if logits = [] then (sample_argmax logits, rng)
      else if top_p \<ge> 1 then
        (let kept = filter (\<lambda>c. \<not> fst c < min_rel) weights; mass = sum_list (map fst kept) in
         if mass \<le> 0 then (best, rng)
         else (let (u, rng) = sample_rng_f32 rng in (draw_from best (u * mass) kept, rng)))
      else
        (let topk = top_candidates SAMPLE_TOPK weights; mass = sum_list (map fst weights) in
         if mass \<le> 0 \<or> topk = [] then (best, rng)
         else
           (let min_prob = fst (hd topk) / mass * min_rel;
                (kept, filtered_sum) = nucleus mass min_prob top_p True 0 topk in
            if length kept = length topk \<and> filtered_sum / mass < top_p
            then sample_full_vocab_exact qsort logits temperature top_p min_p max_logit best rng
            else if kept = [] then (best, rng)
            else
              (let (u, rng) = sample_rng_f32 rng in
               (draw_from (snd (last kept)) (u * filtered_sum) kept, rng)))))"

text \<open>The common tail of the samplers with a top-k: softmax over the candidates only.\<close>

definition sample_candidates ::
  "(real \<times> int) list \<Rightarrow> real \<Rightarrow> real \<Rightarrow> real \<Rightarrow> u64 \<Rightarrow> int \<times> u64" where
  "sample_candidates vals temperature top_p min_p rng =
     (let max_logit = fst (hd vals);
          probs = map (\<lambda>(v, i). (softmax_weight temperature max_logit v, i)) vals;
          mass = sum_list (map fst probs) in
      if mass \<le> 0 then (snd (hd vals), rng)
      else
        (let min_prob = fst (hd probs) / mass * min_p;
             (kept, filtered_sum) = nucleus mass min_prob top_p True 0 probs in
         if kept = [] then (snd (hd vals), rng)
         else
           (let (u, rng) = sample_rng_f32 rng in
            (draw_from (snd (last kept)) (u * filtered_sum) kept, rng))))"

definition clean_top_p :: "real \<Rightarrow> real" where
  "clean_top_p top_p = (if top_p \<le> 0 \<or> top_p > 1 then 1 else top_p)"

definition clean_top_k :: "int \<Rightarrow> nat \<Rightarrow> nat" where
  "clean_top_k top_k n_vocab =
     (let k = (if top_k > 1024 then 1024 else nat top_k) in if k > n_vocab then n_vocab else k)"

definition sample_top_p_min_p ::
  "((real \<times> real \<times> int) list \<Rightarrow> (real \<times> real \<times> int) list) \<Rightarrow> logits \<Rightarrow> real \<Rightarrow> int \<Rightarrow> real \<Rightarrow> real
   \<Rightarrow> u64 \<Rightarrow> int \<times> u64" where
  "sample_top_p_min_p qsort logits temperature top_k top_p min_p rng =
     (if temperature \<le> 0 then (sample_argmax logits, rng)
      else
        (let top_p = clean_top_p top_p; min_p = (if min_p < 0 then 0 else min_p) in
         if top_k \<le> 0 then sample_full_vocab qsort logits temperature top_p min_p rng
         else
           (let vals = top_candidates (clean_top_k top_k (length logits)) (with_ids logits) in
            if vals = [] then (sample_argmax logits, rng)
            else sample_candidates vals temperature top_p min_p rng)))"

text \<open>The variants that never return an excluded id; \<open>-1\<close> when every id is excluded.\<close>

fun argmax_not_excluded :: "(int \<Rightarrow> bool) \<Rightarrow> int \<Rightarrow> real \<Rightarrow> (real \<times> int) list \<Rightarrow> int" where
  "argmax_not_excluded excluded best best_logit [] = best"
| "argmax_not_excluded excluded best best_logit ((v, i) # cs) =
     (if excluded i then argmax_not_excluded excluded best best_logit cs
      else if best < 0 \<or> v > best_logit then argmax_not_excluded excluded i v cs
      else argmax_not_excluded excluded best best_logit cs)"

definition sample_argmax_excluding :: "logits \<Rightarrow> int \<Rightarrow> int \<Rightarrow> int" where
  "sample_argmax_excluding logits id1 id2 =
     argmax_not_excluded (\<lambda>i. i = id1 \<or> i = id2) (- 1) (- (10 ^ 30)) (with_ids logits)"

definition ds4_session_argmax_excluding :: "spec_session \<Rightarrow> int \<Rightarrow> int" where
  "ds4_session_argmax_excluding s excluded_id =
     argmax_not_excluded (\<lambda>i. i = excluded_id) (- 1) (- (10 ^ 30)) (with_ids (ss_logits s))"

definition ds4_session_argmax_excluding_ids :: "spec_session \<Rightarrow> int list \<Rightarrow> int" where
  "ds4_session_argmax_excluding_ids s excluded_ids =
     argmax_not_excluded (\<lambda>i. i \<in> set excluded_ids) (- 1) (- (10 ^ 30)) (with_ids (ss_logits s))"

definition sample_top_p_min_p_excluding ::
  "logits \<Rightarrow> real \<Rightarrow> int \<Rightarrow> real \<Rightarrow> real \<Rightarrow> u64 \<Rightarrow> int \<Rightarrow> int \<Rightarrow> int \<times> u64" where
  "sample_top_p_min_p_excluding logits temperature top_k top_p min_p rng id1 id2 =
     (if temperature \<le> 0 then (sample_argmax_excluding logits id1 id2, rng)
      else
        (let top_p = clean_top_p top_p; min_p = (if min_p < 0 then 0 else min_p);
             top_k = (if top_k \<le> 0 then int (length logits) else top_k);
             vals = top_candidates (clean_top_k top_k (length logits))
               (filter (\<lambda>c. \<not> (snd c = id1 \<or> snd c = id2)) (with_ids logits)) in
         if vals = [] then (sample_argmax_excluding logits id1 id2, rng)
         else sample_candidates vals temperature top_p min_p rng))"

definition ds4_session_sample_excluding ::
  "((real \<times> real \<times> int) list \<Rightarrow> (real \<times> real \<times> int) list) \<Rightarrow> spec_session \<Rightarrow> real \<Rightarrow> int \<Rightarrow> real \<Rightarrow> real
   \<Rightarrow> u64 \<Rightarrow> int \<Rightarrow> int \<times> u64" where
  "ds4_session_sample_excluding qsort s temperature top_k top_p min_p rng excluded_id =
     (if excluded_id < 0 \<or> excluded_id \<ge> int (length (ss_logits s))
      then sample_top_p_min_p qsort (ss_logits s) temperature top_k top_p min_p rng
      else sample_top_p_min_p_excluding (ss_logits s) temperature top_k top_p min_p rng excluded_id (- 1))"

definition ds4_session_sample_excluding2 ::
  "spec_session \<Rightarrow> real \<Rightarrow> int \<Rightarrow> real \<Rightarrow> real \<Rightarrow> u64 \<Rightarrow> int \<Rightarrow> int \<Rightarrow> int \<times> u64" where
  "ds4_session_sample_excluding2 s temperature top_k top_p min_p rng id1 id2 =
     (let n = int (length (ss_logits s));
          valid1 = (id1 \<ge> 0 \<and> id1 < n); valid2 = (id2 \<ge> 0 \<and> id2 < n \<and> id2 \<noteq> id1) in
      sample_top_p_min_p_excluding (ss_logits s) temperature top_k top_p min_p rng
        (if valid1 then id1 else - 1) (if valid2 then id2 else - 1))"

section \<open>Speculative sampling\<close>

definition DS4_SPEC_NUCLEUS_CAP :: nat where
  "DS4_SPEC_NUCLEUS_CAP = 1024"

definition spec_build_trunc_dist :: "logits \<Rightarrow> real \<Rightarrow> int \<Rightarrow> real \<Rightarrow> real \<Rightarrow> (real \<times> int) list" where
  "spec_build_trunc_dist logits temperature top_k top_p min_p =
     (let temperature = (if temperature \<le> 0 then 1 else temperature);
          top_p = clean_top_p top_p; min_p = (if min_p < 0 then 0 else min_p);
          max_logit = max_from logits;
          weights = map (\<lambda>(v, i). (softmax_weight temperature max_logit v, i)) (with_ids logits);
          topk = top_candidates DS4_SPEC_NUCLEUS_CAP weights;
          mass = sum_list (map fst weights) in
      if max_logit = - (10 ^ 30) then []
      else if mass \<le> 0 \<or> topk = [] then []
      else
        (let candidates = (if top_k > 0 \<and> top_k < int (length topk) then take (nat top_k) topk else topk);
             min_prob = fst (hd topk) / mass * min_p;
             (kept, filtered_sum) = nucleus mass min_prob top_p True 0 candidates in
         if kept = [] \<or> filtered_sum \<le> 0 then [(1, snd (hd topk))]
         else map (\<lambda>(p, i). (p * (1 / filtered_sum), i)) kept))"

definition spec_sample_from_dist :: "(real \<times> int) list \<Rightarrow> u64 \<Rightarrow> int \<times> u64" where
  "spec_sample_from_dist d rng =
     (if d = [] then (- 1, rng)
      else (let (u, rng) = sample_rng_f32 rng in (draw_from (snd (last d)) u d, rng)))"

fun spec_dist_prob :: "(real \<times> int) list \<Rightarrow> int \<Rightarrow> real" where
  "spec_dist_prob [] i = 0"
| "spec_dist_prob (c # cs) i = (if snd c = i then fst c else spec_dist_prob cs i)"

definition spec_residual :: "(real \<times> int) list \<Rightarrow> (real \<times> int) list \<Rightarrow> (real \<times> int) list" where
  "spec_residual p q =
     (let resid = filter (\<lambda>c. fst c > 0) (map (\<lambda>(pr, i). (pr - spec_dist_prob q i, i)) p);
          rsum = sum_list (map fst resid) in
      if resid = [] \<or> rsum \<le> 0 then p
      else map (\<lambda>(d, i). (d * (1 / rsum), i)) resid)"

definition spec_accepts :: "(real \<times> int) list \<Rightarrow> (real \<times> int) list \<Rightarrow> int \<Rightarrow> real \<Rightarrow> bool" where
  "spec_accepts p q draft u \<longleftrightarrow>
     spec_dist_prob q draft \<le> 0 \<or> u * spec_dist_prob q draft \<le> spec_dist_prob p draft"

definition spec_sample_step ::
  "logits \<Rightarrow> (real \<times> int) list \<Rightarrow> int \<Rightarrow> real \<Rightarrow> int \<Rightarrow> real \<Rightarrow> real \<Rightarrow> u64 \<Rightarrow> (int \<times> bool) \<times> u64" where
  "spec_sample_step p_logits q draft temperature top_k top_p min_p rng =
     (let p = spec_build_trunc_dist p_logits temperature top_k top_p min_p in
      if p = [] then (let (tok, rng) = spec_sample_from_dist q rng in ((tok, False), rng))
      else
        (let (u, rng) = sample_rng_f32 rng in
         if spec_accepts p q draft u then ((draft, True), rng)
         else (let (tok, rng) = spec_sample_from_dist (spec_residual p q) rng in ((tok, False), rng))))"

end
