(* ===== verification/SampleLaw.thy ===== *)
theory SampleLaw
  imports Sampling "HOL-Library.Multiset"
begin

text \<open>
  The laws of the samplers: the bounded list holds the best candidates, truncated distributions
  are distributions, a draw follows its distribution up to the grain of the generator, and
  speculative sampling preserves the law of the target.
\<close>

section \<open>The bounded candidate list\<close>

fun insert_desc :: "(real \<times> int) \<Rightarrow> (real \<times> int) list \<Rightarrow> (real \<times> int) list" where
  "insert_desc c [] = [c]"
| "insert_desc c (d # ds) = (if fst c \<le> fst d then d # insert_desc c ds else c # d # ds)"

definition sort_desc :: "(real \<times> int) list \<Rightarrow> (real \<times> int) list" where
  "sort_desc cs = foldl (\<lambda>ds c. insert_desc c ds) [] cs"

abbreviation desc :: "(real \<times> int) list \<Rightarrow> bool" where
  "desc \<equiv> sorted_wrt (\<lambda>a b. fst b \<le> fst a)"

lemma mset_insert_desc [simp]: "mset (insert_desc c ds) = add_mset c (mset ds)"
  by (induction ds) auto

lemma length_insert_desc [simp]: "length (insert_desc c ds) = Suc (length ds)"
  by (induction ds) auto

lemma set_insert_desc [simp]: "set (insert_desc c ds) = insert c (set ds)"
  by (induction ds) (simp_all add: insert_commute)

lemma desc_insert_desc: "desc ds \<Longrightarrow> desc (insert_desc c ds)"
  by (induction ds) (auto intro: order_trans)

lemma insert_desc_snoc_less: "fst d < fst c \<Longrightarrow> insert_desc c (ds @ [d]) = insert_desc c ds @ [d]"
  by (induction ds) auto

lemma insert_desc_append:
  "(\<And>d. d \<in> set ds \<Longrightarrow> fst c \<le> fst d) \<Longrightarrow> insert_desc c (ds @ es) = ds @ insert_desc c es"
  by (induction ds) auto

lemma insert_desc_append_less:
  "d \<in> set ds \<Longrightarrow> fst d < fst c \<Longrightarrow> insert_desc c (ds @ es) = insert_desc c ds @ es"
  by (induction ds) auto

lemma shift_in_desc:
  assumes "desc ds"
  shows "shift_in c ds = insert_desc c ds"
  using assms
proof (induction ds rule: rev_induct)
  case Nil
  then show ?case by (simp add: shift_in_def)
next
  case (snoc d ds)
  then have ds: "desc ds" "\<And>x. x \<in> set ds \<Longrightarrow> fst d \<le> fst x" by (auto simp: sorted_wrt_append)
  show ?case
  proof (cases "fst d < fst c")
    case True
    have "length (takeWhile (\<lambda>d. fst d < fst c) (rev ds)) \<le> length ds"
      using length_takeWhile_le[of _ "rev ds"] by simp
    then have "shift_in c (ds @ [d]) = shift_in c ds @ [d]"
      using True by (simp add: shift_in_def Let_def min_def)
    then show ?thesis using snoc.IH[OF ds(1)] insert_desc_snoc_less[OF True] by simp
  next
    case False
    then have "fst c \<le> fst x" if "x \<in> set (ds @ [d])" for x using ds(2) that by fastforce
    then have "insert_desc c ((ds @ [d]) @ []) = (ds @ [d]) @ insert_desc c []"
      by (rule insert_desc_append)
    then show ?thesis using False by (simp add: shift_in_def)
  qed
qed

lemma desc_take: "desc ds \<Longrightarrow> desc (take n ds)"
  by (metis append_take_drop_id sorted_wrt_append)

lemma candidate_step_take:
  assumes "desc ds" "0 < cap"
  shows "candidate_step cap (take cap ds) c = take cap (insert_desc c ds)"
proof (cases "length ds < cap")
  case True
  then show ?thesis using assms by (simp add: candidate_step_def shift_in_desc)
next
  case False
  define t where "t = take cap ds"
  have t: "ds = t @ drop cap ds" "length t = cap" "desc t" "t \<noteq> []"
    using False assms by (auto simp: t_def desc_take)
  then have tl: "t = butlast t @ [last t]" by simp
  have le: "fst (last t) \<le> fst d" if "d \<in> set t" for d
    using t(3) that by (subst (asm) (1 2) tl) (auto simp: sorted_wrt_append)
  have db: "desc (butlast t)" using t(3) by (subst (asm) tl) (simp add: sorted_wrt_append)
  show ?thesis
  proof (cases "fst c \<le> fst (last t)")
    case True
    have "insert_desc c (t @ drop cap ds) = t @ insert_desc c (drop cap ds)"
      using True le by (intro insert_desc_append) force
    then have "take cap (insert_desc c ds) = t" using t(1,2) by simp
    then show ?thesis using True t(2) unfolding t_def[symmetric] by (simp add: candidate_step_def)
  next
    case False
    have "insert_desc c (t @ drop cap ds) = insert_desc c t @ drop cap ds"
      using False t(4) by (intro insert_desc_append_less[of "last t"]) auto
    moreover have "insert_desc c t = insert_desc c (butlast t) @ [last t]"
      using False insert_desc_snoc_less[of "last t" c "butlast t"] tl by simp
    moreover have "length (insert_desc c (butlast t)) = cap" using t(2) assms(2) by simp
    ultimately have "take cap (insert_desc c ds) = insert_desc c (butlast t)" using t(1) by simp
    then show ?thesis
      using False t(2) shift_in_desc[OF db] unfolding t_def[symmetric] by (simp add: candidate_step_def)
  qed
qed

lemma top_candidates_take:
  assumes "0 < cap"
  shows "top_candidates cap cs = take cap (sort_desc cs)"
proof -
  have "desc ds \<Longrightarrow> foldl (candidate_step cap) (take cap ds) cs = take cap (foldl (\<lambda>ds c. insert_desc c ds) ds cs)"
    for ds
    using assms by (induction cs arbitrary: ds) (simp_all add: candidate_step_take desc_insert_desc)
  from this[of "[]"] show ?thesis by (simp add: top_candidates_def sort_desc_def)
qed

lemma sort_desc_props: "desc (sort_desc cs) \<and> mset (sort_desc cs) = mset cs"
proof -
  have "desc ds \<Longrightarrow> desc (foldl (\<lambda>ds c. insert_desc c ds) ds cs)
    \<and> mset (foldl (\<lambda>ds c. insert_desc c ds) ds cs) = mset ds + mset cs" for ds
    by (induction cs arbitrary: ds) (simp_all add: desc_insert_desc)
  from this[of "[]"] show ?thesis by (simp add: sort_desc_def)
qed

lemma desc_sort_desc [simp]: "desc (sort_desc cs)" and mset_sort_desc [simp]: "mset (sort_desc cs) = mset cs"
  using sort_desc_props by auto

lemma set_sort_desc [simp]: "set (sort_desc cs) = set cs"
  by (metis mset_sort_desc set_mset_mset)

lemma length_sort_desc [simp]: "length (sort_desc cs) = length cs"
  by (metis mset_sort_desc size_mset)

lemma sort_desc_Nil_iff [simp]: "sort_desc cs = [] \<longleftrightarrow> cs = []"
  by (metis length_sort_desc length_0_conv)

section \<open>The nucleus\<close>

lemma nucleus_prefix:
  assumes "nucleus m mp tp first acc cs = (kept, fs)"
  shows "\<exists>rest. cs = kept @ rest" "fs = acc + sum_list (map fst kept)"
    "first \<Longrightarrow> cs \<noteq> [] \<Longrightarrow> kept \<noteq> []"
  using assms
  by (induction m mp tp first acc cs arbitrary: kept fs rule: nucleus.induct)
    (auto simp: Let_def split: if_splits prod.splits)

text \<open>A nucleus found in a prefix of the candidates is the nucleus of all.\<close>

lemma nucleus_append:
  assumes "nucleus m mp tp first acc cs = (kept, fs)" "\<not> (length kept = length cs \<and> fs / m < tp)" "cs \<noteq> []"
  shows "nucleus m mp tp first acc (cs @ ds) = (kept, fs)"
  using assms
proof (induction m mp tp first acc cs arbitrary: kept fs rule: nucleus.induct)
  case (1 m mp tp first acc)
  then show ?case by simp
next
  case (2 m mp tp first acc c cs)
  show ?case
  proof (cases "(\<not> first \<and> fst c / m < mp) \<or> (acc + fst c) / m \<ge> tp")
    case True
    then show ?thesis using 2(2) by (auto simp: Let_def)
  next
    case False
    obtain k s where ks: "nucleus m mp tp False (acc + fst c) cs = (k, s)" by (meson surj_pair)
    with False 2(2) have k: "kept = c # k" "fs = s" by (auto simp: Let_def)
    show ?thesis
    proof (cases "cs = []")
      case True
      then show ?thesis using ks k False 2(3) by auto
    next
      case ne: False
      have "nucleus m mp tp False (acc + fst c) (cs @ ds) = (k, s)"
        using 2(1)[OF _ refl _ ks _ ne] False k 2(3) by auto
      then show ?thesis using False k by (auto simp: Let_def)
    qed
  qed
qed

section \<open>Distributions\<close>

definition is_dist :: "(real \<times> int) list \<Rightarrow> bool" where
  "is_dist d \<longleftrightarrow> (\<forall>c\<in>set d. fst c > 0) \<and> distinct (map snd d) \<and> sum_list (map fst d) = 1"

lemma is_dist_nonempty: "is_dist d \<Longrightarrow> d \<noteq> []"
  by (auto simp: is_dist_def)

lemma spec_dist_prob_eq:
  "distinct (map snd d) \<Longrightarrow> (p, i) \<in> set d \<Longrightarrow> spec_dist_prob d i = p"
  by (induction d) (auto simp: image_iff)

lemma spec_dist_prob_outside: "i \<notin> snd ` set d \<Longrightarrow> spec_dist_prob d i = 0"
  by (induction d) auto

lemma spec_dist_prob_inside: "i \<in> snd ` set d \<Longrightarrow> (spec_dist_prob d i, i) \<in> set d"
  by (induction d) (auto simp: image_iff)

lemma is_dist_prob_pos: "is_dist d \<Longrightarrow> i \<in> snd ` set d \<Longrightarrow> 0 < spec_dist_prob d i"
  using spec_dist_prob_inside[of i d] by (auto simp: is_dist_def)

lemma is_dist_prob_nonneg: "is_dist d \<Longrightarrow> 0 \<le> spec_dist_prob d i"
  using is_dist_prob_pos[of d i] spec_dist_prob_outside[of i d] by fastforce

lemma sum_list_dist:
  assumes "distinct (map snd d)"
  shows "sum_list (map (\<lambda>c. f (fst c) (snd c)) d) = (\<Sum>i\<in>snd ` set d. f (spec_dist_prob d i) i)"
proof -
  have "sum_list (map (\<lambda>c. f (fst c) (snd c)) d) = sum_list (map (\<lambda>i. f (spec_dist_prob d i) i) (map snd d))"
    using spec_dist_prob_eq[OF assms] by (auto intro!: arg_cong[where f = sum_list])
  also have "\<dots> = (\<Sum>i\<in>set (map snd d). f (spec_dist_prob d i) i)"
    by (rule sum_list_distinct_conv_sum_set[OF assms])
  finally show ?thesis by simp
qed

lemma is_dist_sum: "is_dist d \<Longrightarrow> (\<Sum>i\<in>snd ` set d. spec_dist_prob d i) = 1"
  using sum_list_dist[of d "\<lambda>p i. p"] by (simp add: is_dist_def)

lemma is_dist_sum_over:
  assumes "is_dist d" "finite A" "snd ` set d \<subseteq> A"
  shows "(\<Sum>i\<in>A. spec_dist_prob d i) = 1"
  using sum.mono_neutral_left[OF assms(2,3), of "spec_dist_prob d"] is_dist_sum[OF assms(1)]
  by (simp add: spec_dist_prob_outside)

lemma softmax_weight_pos [simp]: "0 < softmax_weight t m v"
  by (simp add: softmax_weight_def)

lemma with_ids_ids [simp]: "map snd (with_ids vs) = map int [0..<length vs]"
  by (simp add: with_ids_def)

lemma with_ids_nonempty [simp]: "with_ids vs = [] \<longleftrightarrow> vs = []"
  by (simp add: with_ids_def)

lemma length_with_ids [simp]: "length (with_ids vs) = length vs"
  by (simp add: with_ids_def)

definition weights_of :: "real \<Rightarrow> logits \<Rightarrow> (real \<times> int) list" where
  "weights_of temperature logits =
     map (\<lambda>(v, i). (softmax_weight temperature (max_from logits) v, i)) (with_ids logits)"

lemma weights_of_props:
  "map snd (weights_of t logits) = map int [0..<length logits]" "length (weights_of t logits) = length logits"
  "c \<in> set (weights_of t logits) \<Longrightarrow> 0 < fst c" "weights_of t logits = [] \<longleftrightarrow> logits = []"
proof -
  have "map snd (map (\<lambda>(v, i). (f v, i)) xs) = map snd xs" for f :: "real \<Rightarrow> real" and xs :: "(real \<times> int) list"
    by (induction xs) auto
  then show "map snd (weights_of t logits) = map int [0..<length logits]"
    unfolding weights_of_def by (simp only: with_ids_ids)
qed (auto simp: weights_of_def)

lemma distinct_ids_sort_desc:
  assumes "distinct (map snd cs)"
  shows "distinct (map snd (sort_desc cs))"
proof -
  have "mset (map snd (sort_desc cs)) = mset (map snd cs)" by simp
  then show ?thesis using assms by (metis mset_eq_imp_distinct_iff)
qed

lemma sum_list_pos: "(\<And>c. c \<in> set cs \<Longrightarrow> 0 < fst c) \<Longrightarrow> cs \<noteq> [] \<Longrightarrow> 0 < sum_list (map fst cs)"
  for cs :: "(real \<times> int) list"
proof (induction cs)
  case (Cons c cs)
  have "0 < fst c" using Cons.prems(1) by simp
  moreover have "cs \<noteq> [] \<Longrightarrow> 0 < sum_list (map fst cs)" using Cons by simp
  ultimately show ?case by (cases "cs = []") (simp_all add: add_pos_pos)
qed simp

lemma normalize_is_dist:
  assumes "\<And>c. c \<in> set kept \<Longrightarrow> 0 < fst c" "distinct (map snd kept)" "kept \<noteq> []"
    and "s = sum_list (map fst kept)"
  shows "is_dist (map (\<lambda>(p, i). (p * (1 / s), i)) kept)"
proof -
  have s: "0 < s" using sum_list_pos[OF assms(1,3)] assms(4) by simp
  have ids: "map snd (map (\<lambda>(p, i). (p * (1 / s), i)) kept) = map snd kept"
    by (auto simp: split_beta)
  have "sum_list (map fst (map (\<lambda>(p, i). (p * (1 / s), i)) xs)) = sum_list (map fst xs) * (1 / s)"
    for xs :: "(real \<times> int) list"
    by (induction xs) (auto simp: add_divide_distrib)
  then have "sum_list (map fst (map (\<lambda>(p, i). (p * (1 / s), i)) kept)) = 1"
    using s assms(4) by simp
  moreover have "0 < fst c" if "c \<in> set (map (\<lambda>(p, i). (p * (1 / s), i)) kept)" for c
    using that assms(1) s by fastforce
  ultimately show ?thesis
    using assms(2) unfolding is_dist_def ids by blast
qed

text \<open>The parts of \<open>spec_build_trunc_dist\<close>, with the bounded list as a prefix of the sorted one.\<close>

lemma spec_build_trunc_dist_cases:
  assumes "spec_build_trunc_dist logits temperature top_k top_p min_p \<noteq> []"
  defines "t \<equiv> (if temperature \<le> 0 then 1 else temperature)"
  defines "cands \<equiv> (let topk = take DS4_SPEC_NUCLEUS_CAP (sort_desc (weights_of t logits)) in
    if top_k > 0 \<and> top_k < int (length topk) then take (nat top_k) topk else topk)"
  obtains kept s mp where "nucleus (sum_list (map fst (weights_of t logits))) mp (clean_top_p top_p) True 0 cands = (kept, s)"
    "kept \<noteq> []" "cands \<noteq> []" "0 < s" "s = sum_list (map fst kept)" "logits \<noteq> []"
    "mp = fst (hd (sort_desc (weights_of t logits))) / sum_list (map fst (weights_of t logits))
      * (if min_p < 0 then 0 else min_p)"
    "\<exists>rest. sort_desc (weights_of t logits) = kept @ rest" "length kept \<le> length cands"
    "spec_build_trunc_dist logits temperature top_k top_p min_p = map (\<lambda>(p, i). (p * (1 / s), i)) kept"
proof -
  define ws where "ws = weights_of t logits"
  define topk where "topk = top_candidates DS4_SPEC_NUCLEUS_CAP ws"
  have topk: "topk = take DS4_SPEC_NUCLEUS_CAP (sort_desc ws)"
    unfolding topk_def by (rule top_candidates_take) (simp add: DS4_SPEC_NUCLEUS_CAP_def)
  define mp where "mp = fst (hd topk) / sum_list (map fst ws) * (if min_p < 0 then 0 else min_p)"
  obtain kept s where n: "nucleus (sum_list (map fst ws)) mp (clean_top_p top_p) True 0 cands = (kept, s)"
    by (meson surj_pair)
  have cands: "cands = (if top_k > 0 \<and> top_k < int (length topk) then take (nat top_k) topk else topk)"
    by (simp add: cands_def Let_def topk ws_def)
  have d: "spec_build_trunc_dist logits temperature top_k top_p min_p =
    (if max_from logits = - (10 ^ 30) then [] else if sum_list (map fst ws) \<le> 0 \<or> topk = [] then []
     else if kept = [] \<or> s \<le> 0 then [(1, snd (hd topk))] else map (\<lambda>(p, i). (p * (1 / s), i)) kept)"
    unfolding spec_build_trunc_dist_def Let_def t_def[symmetric] weights_of_def[symmetric] ws_def[symmetric]
      topk_def[symmetric] cands[symmetric] mp_def[symmetric] n by simp
  have ne: "topk \<noteq> []" using assms(1) d by auto
  then have wne: "ws \<noteq> []" using topk by auto
  have cne: "cands \<noteq> []" using ne by (auto simp: cands)
  have k: "kept \<noteq> []" using nucleus_prefix(3)[OF n] cne by simp
  obtain r1 where r1: "cands = kept @ r1" using nucleus_prefix(1)[OF n] by blast
  have "prefix cands topk" unfolding cands by (auto simp: take_is_prefix)
  moreover have "prefix topk (sort_desc ws)" by (simp add: topk take_is_prefix)
  ultimately have "prefix cands (sort_desc ws)" by (rule prefix_order.trans)
  then obtain r2 where r2: "sort_desc ws = cands @ r2" by (rule prefixE)
  have s: "s = sum_list (map fst kept)" using nucleus_prefix(2)[OF n] by simp
  have "0 < fst c" if "c \<in> set kept" for c
  proof -
    have "c \<in> set (sort_desc ws)" using that r1 r2 by simp
    then show ?thesis using weights_of_props(3)[of c t logits] by (simp add: ws_def)
  qed
  then have sp: "0 < s" unfolding s by (rule sum_list_pos) (use k in auto)
  have eq: "spec_build_trunc_dist logits temperature top_k top_p min_p = map (\<lambda>(p, i). (p * (1 / s), i)) kept"
    using assms(1) d k sp by (auto split: if_splits)
  have hd: "hd topk = hd (sort_desc ws)" using ne by (auto simp: topk DS4_SPEC_NUCLEUS_CAP_def hd_take)
  have mp2: "mp = fst (hd (sort_desc ws)) / sum_list (map fst ws) * (if min_p < 0 then 0 else min_p)"
    by (simp add: mp_def hd)
  have lne: "logits \<noteq> []" using wne weights_of_props(4) by (simp add: ws_def)
  show ?thesis
  proof (rule that[OF n[unfolded ws_def] k cne sp s lne mp2[unfolded ws_def] _ _ eq])
    show "\<exists>rest. sort_desc (weights_of t logits) = kept @ rest" using r1 r2 by (simp add: ws_def)
    show "length kept \<le> length cands" using r1 by simp
  qed
qed

lemma spec_build_trunc_dist_is_dist:
  assumes "spec_build_trunc_dist logits temperature top_k top_p min_p \<noteq> []"
  shows "is_dist (spec_build_trunc_dist logits temperature top_k top_p min_p)"
  using spec_build_trunc_dist_cases[OF assms]
proof cases
  case (1 kept s mp)
  then obtain rest where r: "sort_desc (weights_of (if temperature \<le> 0 then 1 else temperature) logits) = kept @ rest"
    by blast
  have "distinct (map snd (kept @ rest))"
    unfolding r[symmetric] by (rule distinct_ids_sort_desc) (simp add: weights_of_props distinct_map inj_on_def)
  moreover have "0 < fst c" if "c \<in> set kept" for c
  proof -
    have "c \<in> set (kept @ rest)" using that by simp
    then show ?thesis unfolding r[symmetric] using weights_of_props(3) by simp
  qed
  ultimately have "is_dist (map (\<lambda>(p, i). (p * (1 / s), i)) kept)"
    using 1(2,5) by (intro normalize_is_dist) auto
  then show ?thesis using 1(10) by simp
qed

section \<open>Speculative sampling preserves the target\<close>

text \<open>The share of \<open>u\<close> in the unit interval for which a draft is accepted.\<close>

definition accept_share :: "(real \<times> int) list \<Rightarrow> (real \<times> int) list \<Rightarrow> int \<Rightarrow> real" where
  "accept_share p q i =
     (if spec_dist_prob q i \<le> 0 then 1 else min 1 (spec_dist_prob p i / spec_dist_prob q i))"

lemma spec_accepts_share:
  assumes "0 \<le> u" "u \<le> 1"
  shows "spec_accepts p q i u \<longleftrightarrow> u \<le> accept_share p q i"
proof (cases "0 < spec_dist_prob q i \<and> spec_dist_prob q i \<le> spec_dist_prob p i")
  case True
  then have "u * spec_dist_prob q i \<le> spec_dist_prob q i"
    using assms by (intro mult_left_le_one_le) auto
  then have "u * spec_dist_prob q i \<le> spec_dist_prob p i" using True by linarith
  then show ?thesis using True assms by (simp add: spec_accepts_def accept_share_def min_def)
next
  case False
  then show ?thesis using assms by (auto simp: spec_accepts_def accept_share_def min_def field_simps)
qed

text \<open>The law of the committed token when the draft follows \<open>q\<close>.\<close>

definition spec_step_law :: "(real \<times> int) list \<Rightarrow> (real \<times> int) list \<Rightarrow> int \<Rightarrow> real" where
  "spec_step_law p q x =
     (\<Sum>y\<in>snd ` set q. spec_dist_prob q y *
        (accept_share p q y * (if y = x then 1 else 0)
         + (1 - accept_share p q y) * spec_dist_prob (spec_residual p q) x))"

definition overlap :: "(real \<times> int) list \<Rightarrow> (real \<times> int) list \<Rightarrow> int \<Rightarrow> real" where
  "overlap p q i = min (spec_dist_prob p i) (spec_dist_prob q i)"

lemma overlap_accept:
  assumes "is_dist p" "is_dist q" "i \<in> snd ` set q"
  shows "spec_dist_prob q i * accept_share p q i = overlap p q i"
  using is_dist_prob_pos[OF assms(2,3)] is_dist_prob_nonneg[OF assms(1), of i]
  by (auto simp: accept_share_def overlap_def min_def field_simps)

lemma overlap_outside:
  assumes "is_dist p" "is_dist q" "i \<notin> snd ` set p \<or> i \<notin> snd ` set q"
  shows "overlap p q i = 0"
  using assms is_dist_prob_nonneg[of p i] is_dist_prob_nonneg[of q i]
  by (auto simp: overlap_def spec_dist_prob_outside min_def)

lemma spec_dist_prob_filter_map:
  assumes "distinct (map snd p)"
  shows "spec_dist_prob (filter (\<lambda>c. fst c > 0) (map (\<lambda>(pr, i). (pr - g i, i)) p)) x
    = (if x \<in> snd ` set p then max 0 (spec_dist_prob p x - g x) else 0)"
  using assms by (induction p) (auto simp: image_iff spec_dist_prob_outside)

lemma spec_dist_prob_scale:
  "spec_dist_prob (map (\<lambda>(p, i). (p * k, i)) d) x = spec_dist_prob d x * k" for k :: real
  by (induction d) auto

lemma residual_mass:
  assumes "is_dist p" "is_dist q"
  shows "sum_list (map fst (filter (\<lambda>c. fst c > 0) (map (\<lambda>(pr, i). (pr - spec_dist_prob q i, i)) p)))
    = 1 - (\<Sum>i\<in>snd ` set p. overlap p q i)"
proof -
  have "sum_list (map fst (filter (\<lambda>c. fst c > 0) (map (\<lambda>(pr, i). (pr - g i, i)) xs)))
      = sum_list (map (\<lambda>c. max 0 (fst c - g (snd c))) xs)" for g and xs :: "(real \<times> int) list"
    by (induction xs) auto
  also have "sum_list (map (\<lambda>c. max 0 (fst c - spec_dist_prob q (snd c))) p)
      = (\<Sum>i\<in>snd ` set p. max 0 (spec_dist_prob p i - spec_dist_prob q i))"
    using assms(1) sum_list_dist[of p "\<lambda>pr i. max 0 (pr - spec_dist_prob q i)"] by (simp add: is_dist_def)
  also have "\<dots> = (\<Sum>i\<in>snd ` set p. spec_dist_prob p i - overlap p q i)"
    by (intro sum.cong) (auto simp: overlap_def min_def max_def)
  also have "\<dots> = 1 - (\<Sum>i\<in>snd ` set p. overlap p q i)"
    by (simp add: sum_subtractf is_dist_sum[OF assms(1)])
  finally show ?thesis .
qed

lemma overlap_sum:
  assumes "is_dist p" "is_dist q"
  shows "(\<Sum>i\<in>snd ` set p. overlap p q i) = (\<Sum>i\<in>snd ` set q. overlap p q i)"
proof -
  have "(\<Sum>i\<in>snd ` set p. overlap p q i) = (\<Sum>i\<in>snd ` set p \<union> snd ` set q. overlap p q i)"
    by (intro sum.mono_neutral_left) (auto simp: overlap_outside[OF assms])
  also have "\<dots> = (\<Sum>i\<in>snd ` set q. overlap p q i)"
    by (intro sum.mono_neutral_right) (auto simp: overlap_outside[OF assms])
  finally show ?thesis .
qed

lemma spec_residual_prob:
  assumes "is_dist p" "is_dist q"
  shows "(1 - (\<Sum>i\<in>snd ` set q. overlap p q i)) * spec_dist_prob (spec_residual p q) x
    = spec_dist_prob p x - overlap p q x"
proof -
  define resid where "resid = filter (\<lambda>c. fst c > 0) (map (\<lambda>(pr, i). (pr - spec_dist_prob q i, i)) p)"
  define D where "D = sum_list (map fst resid)"
  have D: "D = 1 - (\<Sum>i\<in>snd ` set q. overlap p q i)"
    unfolding D_def resid_def residual_mass[OF assms] overlap_sum[OF assms] ..
  have px: "spec_dist_prob resid x = spec_dist_prob p x - overlap p q x"
    using assms(1) spec_dist_prob_filter_map[of p "spec_dist_prob q" x]
      is_dist_prob_nonneg[OF assms(1), of x] is_dist_prob_nonneg[OF assms(2), of x]
    by (auto simp: resid_def is_dist_def overlap_def spec_dist_prob_outside min_def max_def)
  have pos: "0 < fst c" if "c \<in> set resid" for c using that by (simp add: resid_def)
  show ?thesis
  proof (cases "resid = []")
    case True
    then show ?thesis using px D by (simp add: D_def)
  next
    case False
    then have "0 < D" unfolding D_def by (intro sum_list_pos pos)
    then have r: "spec_residual p q = map (\<lambda>(d, i). (d * (1 / D), i)) resid"
      using False by (simp add: spec_residual_def Let_def resid_def[symmetric] D_def[symmetric])
    show ?thesis unfolding D[symmetric] r spec_dist_prob_scale px using \<open>0 < D\<close> by simp
  qed
qed

lemma spec_step_law_target:
  assumes "is_dist p" "is_dist q"
  shows "spec_step_law p q x = spec_dist_prob p x"
proof -
  let ?r = "spec_dist_prob (spec_residual p q) x"
  have "spec_step_law p q x = (\<Sum>y\<in>snd ` set q. (if y = x then overlap p q x else 0)
      + (spec_dist_prob q y - overlap p q y) * ?r)"
    unfolding spec_step_law_def
  proof (rule sum.cong[OF refl])
    fix y assume y: "y \<in> snd ` set q"
    have "spec_dist_prob q y * (accept_share p q y * (if y = x then 1 else 0) + (1 - accept_share p q y) * ?r)
        = (spec_dist_prob q y * accept_share p q y) * (if y = x then 1 else 0)
          + (spec_dist_prob q y - spec_dist_prob q y * accept_share p q y) * ?r"
      by (simp add: algebra_simps)
    then show "spec_dist_prob q y * (accept_share p q y * (if y = x then 1 else 0) + (1 - accept_share p q y) * ?r)
        = (if y = x then overlap p q x else 0) + (spec_dist_prob q y - overlap p q y) * ?r"
      unfolding overlap_accept[OF assms y] by auto
  qed
  also have "\<dots> = (if x \<in> snd ` set q then overlap p q x else 0)
      + (1 - (\<Sum>y\<in>snd ` set q. overlap p q y)) * ?r"
    by (simp add: sum.distrib sum.delta sum_distrib_right[symmetric] sum_subtractf is_dist_sum[OF assms(2)])
  also have "\<dots> = spec_dist_prob p x"
    unfolding spec_residual_prob[OF assms] using overlap_outside[OF assms, of x] by auto
  finally show ?thesis .
qed

section \<open>Drawing from a distribution\<close>

lemma draw_from_index:
  assumes "d \<noteq> []" "r \<le> sum_list (map fst d)"
  shows "\<exists>i<length d. draw_from otherwise r d = snd (d ! i) \<and> r \<le> sum_list (map fst (take (Suc i) d))
    \<and> (i = 0 \<or> sum_list (map fst (take i d)) < r)"
  using assms
proof (induction d arbitrary: r)
  case (Cons c cs)
  show ?case
  proof (cases "r - fst c \<le> 0")
    case True
    then show ?thesis by (intro exI[of _ 0]) simp
  next
    case False
    then have "cs \<noteq> []" "r - fst c \<le> sum_list (map fst cs)" using Cons.prems by auto
    from Cons.IH[OF this] obtain i where "i < length cs" "draw_from otherwise (r - fst c) cs = snd (cs ! i)"
      "r - fst c \<le> sum_list (map fst (take (Suc i) cs))"
      "i = 0 \<or> sum_list (map fst (take i cs)) < r - fst c" by blast
    then show ?thesis using False by (intro exI[of _ "Suc i"]) auto
  qed
qed simp

lemma sum_take_mono:
  fixes d :: "(real \<times> int) list"
  assumes "\<And>c. c \<in> set d \<Longrightarrow> 0 < fst c" "i \<le> j"
  shows "sum_list (map fst (take i d)) \<le> sum_list (map fst (take j d))"
proof -
  have "take j d = take i d @ take (j - i) (drop i d)" using assms(2) take_add[of i "j - i" d] by simp
  moreover have "0 \<le> sum_list (map fst (take (j - i) (drop i d)))"
    using assms(1) by (intro sum_list_nonneg) (fastforce dest: in_set_takeD in_set_dropD)
  ultimately show ?thesis by simp
qed

lemma draw_from_iff:
  assumes "is_dist d" "i < length d" "r \<le> 1"
  shows "draw_from otherwise r d = snd (d ! i) \<longleftrightarrow>
    r \<le> sum_list (map fst (take (Suc i) d)) \<and> (i = 0 \<or> sum_list (map fst (take i d)) < r)"
proof -
  have pos: "\<And>c. c \<in> set d \<Longrightarrow> 0 < fst c" and dis: "distinct (map snd d)" and one: "sum_list (map fst d) = 1"
    using assms(1) by (auto simp: is_dist_def)
  obtain j where j: "j < length d" "draw_from otherwise r d = snd (d ! j)"
    "r \<le> sum_list (map fst (take (Suc j) d))" "j = 0 \<or> sum_list (map fst (take j d)) < r"
    using draw_from_index[of d r otherwise] is_dist_nonempty[OF assms(1)] assms(3) one by auto
  have inj: "snd (d ! j) = snd (d ! i) \<longleftrightarrow> j = i"
    using dis assms(2) j(1) by (metis length_map nth_eq_iff_index_eq nth_map)
  have "j = i" if "r \<le> sum_list (map fst (take (Suc i) d))" "i = 0 \<or> sum_list (map fst (take i d)) < r"
  proof (rule ccontr)
    assume "j \<noteq> i"
    then consider "Suc i \<le> j" | "Suc j \<le> i" by linarith
    then show False
    proof cases
      case 1
      with sum_take_mono[OF pos, of d "Suc i" j] that(1) j(4) show False by auto
    next
      case 2
      with sum_take_mono[OF pos, of d "Suc j" i] that(2) j(3) show False by auto
    qed
  qed
  then show ?thesis using j inj by metis
qed

lemma nat_floor: "0 \<le> A \<Longrightarrow> real (nat \<lfloor>A\<rfloor>) \<le> A \<and> A < real (nat \<lfloor>A\<rfloor>) + 1" for A :: real
  by simp

lemma card_grid:
  fixes A B :: real
  assumes "0 \<le> A" "A \<le> B" "B \<le> real n"
  shows "\<bar>real (card {k. k < n \<and> A < real k \<and> real k \<le> B}) - (B - A)\<bar> \<le> 1"
proof -
  define a b where "a = nat \<lfloor>A\<rfloor>" and "b = nat \<lfloor>B\<rfloor>"
  have r: "real a \<le> A" "A < real a + 1" "real b \<le> B" "B < real b + 1"
    using nat_floor[of A] nat_floor[of B] assms unfolding a_def b_def by auto
  have "real a < real (Suc b)" "real b \<le> real n" using r assms by auto
  then have ab: "real a \<le> A" "A < real a + 1" "real b \<le> B" "B < real b + 1" "a \<le> b" "b \<le> n"
    using r by auto
  have mem: "(A < real k \<and> real k \<le> B) = (a < k \<and> k \<le> b)" for k
    using r by linarith
  show ?thesis
  proof (cases "b = n")
    case True
    have "{k. k < n \<and> A < real k \<and> real k \<le> B} = {a<..<n}"
      unfolding mem using True by auto
    then have "real (card {k. k < n \<and> A < real k \<and> real k \<le> B}) = real (n - Suc a)" by simp
    moreover have "real n - real a - 1 \<le> real (n - Suc a)" "real (n - Suc a) \<le> real n - real a"
      using ab(5) True by linarith+
    ultimately show ?thesis using r assms True by linarith
  next
    case False
    have "{k. k < n \<and> A < real k \<and> real k \<le> B} = {a<..b}"
      unfolding mem using False ab(6) by auto
    then have "real (card {k. k < n \<and> A < real k \<and> real k \<le> B}) = real b - real a"
      using ab(5) by simp
    then show ?thesis using r by linarith
  qed
qed

lemma card_grid_first:
  fixes B :: real
  assumes "0 \<le> B" "B \<le> real n"
  shows "\<bar>real (card {k. k < n \<and> real k \<le> B}) - B\<bar> \<le> 1"
proof -
  define b where "b = nat \<lfloor>B\<rfloor>"
  have r: "real b \<le> B" "B < real b + 1" using nat_floor[OF assms(1)] by (auto simp: b_def)
  then have "real b \<le> real n" using assms(2) by linarith
  then have b: "real b \<le> B" "B < real b + 1" "b \<le> n" using r by auto
  have mem: "(real k \<le> B) = (k \<le> b)" for k using r by linarith
  show ?thesis
  proof (cases "b = n")
    case True
    have "{k. k < n \<and> real k \<le> B} = {..<n}" unfolding mem using True by auto
    then show ?thesis using b assms True by simp
  next
    case False
    have "{k. k < n \<and> real k \<le> B} = {..b}" unfolding mem using False b(3) by auto
    then show ?thesis using b by simp
  qed
qed

lemma sample_rng_f32_grid: "\<exists>k<16777216. fst (sample_rng_f32 rng) = real k / 16777216"
proof -
  obtain x r where x: "sample_rng_next rng = (x, r)" by (meson surj_pair)
  have "unat (and (drop_bit 40 x) (0xffffff :: u64)) \<le> unat (0xffffff :: u64)"
    by (metis word_and_le1 word_le_nat_alt)
  then have "unat (and (drop_bit 40 x) (0xffffff :: u64)) < 16777216" by simp
  then show ?thesis using x by (auto simp: sample_rng_f32_def)
qed

lemma draw_frequency:
  assumes "is_dist d" "x \<in> snd ` set d"
  shows "\<bar>real (card {k. k < (16777216::nat) \<and> draw_from otherwise (real k / 16777216) d = x})
    - 16777216 * spec_dist_prob d x\<bar> \<le> 1"
proof -
  obtain i where i: "i < length d" "snd (d ! i) = x" using assms(2) by (auto simp: in_set_conv_nth)
  have pos: "\<And>c. c \<in> set d \<Longrightarrow> 0 < fst c" and dis: "distinct (map snd d)" and one: "sum_list (map fst d) = 1"
    using assms(1) by (auto simp: is_dist_def)
  define a b where "a = sum_list (map fst (take i d))" and "b = sum_list (map fst (take (Suc i) d))"
  have p: "spec_dist_prob d x = fst (d ! i)"
    using spec_dist_prob_eq[OF dis, of "fst (d ! i)" x] i by (metis nth_mem prod.collapse)
  have ba: "b = a + fst (d ! i)" using i(1) by (simp add: a_def b_def take_Suc_conv_app_nth)
  have a0: "0 \<le> a" using sum_take_mono[OF pos, of d 0 i] by (simp add: a_def)
  have b1: "b \<le> 1" using sum_take_mono[OF pos, of d "Suc i" "length d"] i(1) one by (simp add: b_def)
  have pi: "0 < fst (d ! i)" using pos i(1) by simp
  have S: "{k. k < (16777216::nat) \<and> draw_from otherwise (real k / 16777216) d = x}
      = {k. k < 16777216 \<and> real k \<le> 16777216 * b \<and> (i = 0 \<or> 16777216 * a < real k)}"
    using draw_from_iff[OF assms(1) i(1)] i(2) by (auto simp: a_def b_def field_simps)
  show ?thesis
  proof (cases "i = 0")
    case True
    then have "a = 0" by (simp add: a_def)
    then show ?thesis
      using card_grid_first[of "16777216 * b" 16777216] True S p ba pi b1 by simp
  next
    case False
    then show ?thesis
      using card_grid[of "16777216 * a" "16777216 * b" 16777216] S p ba pi a0 b1
      by (simp add: conj_commute algebra_simps)
  qed
qed

lemma draw_from_scale:
  assumes "0 < s"
  shows "draw_from otherwise r (map (\<lambda>(p, i). (p * (1 / s), i)) d) = draw_from otherwise (r * s) d"
  using assms by (induction d arbitrary: r) (auto simp: Let_def field_simps)

section \<open>The bounded sampler and the exact one\<close>

definition qsort_ok :: "((real \<times> real \<times> int) list \<Rightarrow> (real \<times> real \<times> int) list) \<Rightarrow> bool" where
  "qsort_ok qsort \<longleftrightarrow>
     (\<forall>cs. mset (qsort cs) = mset cs \<and> sorted_wrt (\<lambda>a b. fst b \<le> fst a) (qsort cs))"

lemma desc_unique:
  assumes "desc xs" "desc ys" "mset xs = mset ys" "distinct (map fst xs)"
  shows "xs = ys"
proof -
  have "sorted (map fst (rev xs))" "sorted (map fst (rev ys))"
    using assms(1,2) by (simp_all add: sorted_wrt_rev sorted_wrt_map)
  moreover have d: "distinct (map fst (rev ys))" "distinct (map fst (rev xs))"
    using assms(3,4) by (metis distinct_rev mset_eq_imp_distinct_iff mset_map rev_map)+
  moreover have s: "set xs = set ys" using assms(3) by (rule mset_eq_setD)
  moreover have "inj_on fst (set (rev xs) \<union> set (rev ys))"
    using assms(4) s by (simp add: distinct_map)
  ultimately have "rev xs = rev ys"
    by (intro map_sorted_distinct_set_unique[of fst]) simp_all
  then show ?thesis by simp
qed

definition exact_candidates :: "real \<Rightarrow> logits \<Rightarrow> (real \<times> real \<times> int) list" where
  "exact_candidates t logits =
     map (\<lambda>(v, i). (v, softmax_weight t (max_from logits) v, i)) (with_ids logits)"

lemma snd_exact_candidates: "map snd (exact_candidates t logits) = weights_of t logits"
  by (simp add: exact_candidates_def weights_of_def split_beta)

lemma softmax_weight_mono: "0 < t \<Longrightarrow> softmax_weight t m a \<le> softmax_weight t m b \<longleftrightarrow> a \<le> b"
  by (simp add: softmax_weight_def divide_le_cancel)

lemma fst_weights_of:
  "map fst (weights_of t logits) = map (softmax_weight t (max_from logits)) logits"
proof -
  have "map fst (map (\<lambda>(v, i). (f v, i)) xs) = map f (map fst xs)" for f :: "real \<Rightarrow> real" and xs :: "(real \<times> int) list"
    by (induction xs) auto
  then show ?thesis unfolding weights_of_def with_ids_def by (simp only: map_fst_zip length_map length_upt diff_zero)
qed

lemma qsort_weights:
  assumes "qsort_ok qsort" "distinct logits" "0 < t"
  shows "map snd (qsort (exact_candidates t logits)) = sort_desc (weights_of t logits)"
proof (rule desc_unique)
  let ?c = "exact_candidates t logits"
  have q: "mset (qsort ?c) = mset ?c" "sorted_wrt (\<lambda>a b. fst b \<le> fst a) (qsort ?c)"
    using assms(1) by (auto simp: qsort_ok_def)
  have "fst (snd c) = softmax_weight t (max_from logits) (fst c)" if "c \<in> set (qsort ?c)" for c
    using that mset_eq_setD[OF q(1)] by (auto simp: exact_candidates_def)
  then have "sorted_wrt (\<lambda>a b. fst (snd b) \<le> fst (snd a)) (qsort ?c)"
    by (intro sorted_wrt_mono_rel[OF _ q(2)]) (simp add: softmax_weight_mono[OF assms(3)])
  then show "desc (map snd (qsort ?c))" by (simp add: sorted_wrt_map)
  have "mset (map snd (qsort ?c)) = mset (map snd ?c)" using q(1) by simp
  then show m: "mset (map snd (qsort ?c)) = mset (sort_desc (weights_of t logits))"
    by (simp add: snd_exact_candidates)
  have "inj_on (softmax_weight t (max_from logits)) (set logits)"
    by (rule inj_onI) (metis antisym order_refl softmax_weight_mono[OF assms(3)])
  then have "distinct (map fst (weights_of t logits))"
    unfolding fst_weights_of using assms(2) by (simp add: distinct_map)
  moreover have "mset (map fst (map snd (qsort ?c))) = mset (map fst (weights_of t logits))"
    using m by (metis mset_map mset_sort_desc)
  ultimately show "distinct (map fst (map snd (qsort ?c)))" by (metis mset_eq_imp_distinct_iff)
qed simp

lemma exact_sum: "sum_list (map (fst \<circ> snd) (exact_candidates t logits)) = sum_list (map fst (weights_of t logits))"
  by (simp add: snd_exact_candidates[symmetric])

text \<open>What the bounded sampler computes when it does not fall back, over the sorted weights.\<close>

lemma sample_full_vocab_bounded:
  fixes t min_p :: real
  assumes "logits \<noteq> []" "top_p < 1"
  defines "ws \<equiv> weights_of t logits"
  defines "mp \<equiv> fst (hd (sort_desc ws)) / sum_list (map fst ws) * (if min_p > 0 then min_p else 0)"
  obtains kept s where "nucleus (sum_list (map fst ws)) mp top_p True 0 (take SAMPLE_TOPK (sort_desc ws)) = (kept, s)"
    "kept \<noteq> []" "0 < s" "s = sum_list (map fst kept)" "0 < sum_list (map fst ws)" "prefix kept (sort_desc ws)"
    "sample_full_vocab qsort logits t top_p min_p rng =
      (if length kept = length (take SAMPLE_TOPK (sort_desc ws)) \<and> s / sum_list (map fst ws) < top_p
       then sample_full_vocab_exact qsort logits t top_p min_p (max_from logits) (sample_argmax logits) rng
       else (let (u, rng) = sample_rng_f32 rng in (draw_from (snd (last kept)) (u * s) kept, rng)))"
proof -
  define topk where "topk = top_candidates SAMPLE_TOPK ws"
  have topk: "topk = take SAMPLE_TOPK (sort_desc ws)"
    unfolding topk_def by (rule top_candidates_take) (simp add: SAMPLE_TOPK_def)
  have ws: "ws \<noteq> []" using assms(1) weights_of_props(4) by (simp add: ws_def)
  have wpos: "\<And>c. c \<in> set ws \<Longrightarrow> 0 < fst c" using weights_of_props(3) by (auto simp: ws_def)
  have pos: "0 < sum_list (map fst ws)" by (rule sum_list_pos) (use ws wpos in auto)
  have ne: "topk \<noteq> []" using ws by (simp add: topk SAMPLE_TOPK_def)
  have hd: "hd topk = hd (sort_desc ws)" using ne by (simp add: topk SAMPLE_TOPK_def hd_take)
  obtain kept s where n: "nucleus (sum_list (map fst ws)) mp top_p True 0 topk = (kept, s)" by (meson surj_pair)
  have k: "kept \<noteq> []" using nucleus_prefix(3)[OF n] ne by simp
  have s: "s = sum_list (map fst kept)" using nucleus_prefix(2)[OF n] by simp
  have "prefix kept topk" using nucleus_prefix(1)[OF n] by (auto simp: prefix_def)
  moreover have "prefix topk (sort_desc ws)" by (simp add: topk take_is_prefix)
  ultimately have pre: "prefix kept (sort_desc ws)" by (rule prefix_order.trans)
  then have "set kept \<subseteq> set ws" using set_mono_prefix[OF pre] by simp
  then have sp: "0 < s" unfolding s using wpos k by (intro sum_list_pos) auto
  have eq: "sample_full_vocab qsort logits t top_p min_p rng =
      (if length kept = length topk \<and> s / sum_list (map fst ws) < top_p
       then sample_full_vocab_exact qsort logits t top_p min_p (max_from logits) (sample_argmax logits) rng
       else (let (u, rng) = sample_rng_f32 rng in (draw_from (snd (last kept)) (u * s) kept, rng)))"
    unfolding sample_full_vocab_def Let_def weights_of_def[symmetric] ws_def[symmetric] topk_def[symmetric]
    using assms(1,2) n k ne pos hd mp_def by simp
  show ?thesis by (rule that[OF n[unfolded topk] k sp s pos pre eq[unfolded topk]])
qed

lemma sample_full_vocab_is_exact:
  assumes "qsort_ok qsort" "distinct logits" "logits \<noteq> []" "0 < t" "top_p < 1"
  shows "sample_full_vocab qsort logits t top_p min_p rng =
    sample_full_vocab_exact qsort logits t top_p min_p (max_from logits) (sample_argmax logits) rng"
proof -
  define ws where "ws = weights_of t logits"
  define mp where "mp = fst (hd (sort_desc ws)) / sum_list (map fst ws) * (if min_p > 0 then min_p else 0)"
  obtain kept s where n: "nucleus (sum_list (map fst ws)) mp top_p True 0 (take SAMPLE_TOPK (sort_desc ws)) = (kept, s)"
    "kept \<noteq> []" "0 < s" "s = sum_list (map fst kept)" "0 < sum_list (map fst ws)" "prefix kept (sort_desc ws)"
    and eq: "sample_full_vocab qsort logits t top_p min_p rng =
      (if length kept = length (take SAMPLE_TOPK (sort_desc ws)) \<and> s / sum_list (map fst ws) < top_p
       then sample_full_vocab_exact qsort logits t top_p min_p (max_from logits) (sample_argmax logits) rng
       else (let (u, rng) = sample_rng_f32 rng in (draw_from (snd (last kept)) (u * s) kept, rng)))"
    using sample_full_vocab_bounded[OF assms(3,5), of t min_p qsort rng] unfolding ws_def mp_def by blast
  show ?thesis
  proof (cases "length kept = length (take SAMPLE_TOPK (sort_desc ws)) \<and> s / sum_list (map fst ws) < top_p")
    case True
    then show ?thesis using eq by simp
  next
    case False
    have ne: "take SAMPLE_TOPK (sort_desc ws) \<noteq> []"
      using assms(3) weights_of_props(4) by (simp add: ws_def SAMPLE_TOPK_def)
    have "nucleus (sum_list (map fst ws)) mp top_p True 0 (sort_desc ws) = (kept, s)"
      using nucleus_append[OF n(1) False ne, of "drop SAMPLE_TOPK (sort_desc ws)"] by simp
    then have "sample_full_vocab_exact qsort logits t top_p min_p (max_from logits) (sample_argmax logits) rng
      = (let (u, rng) = sample_rng_f32 rng in (draw_from (snd (last kept)) (u * s) kept, rng))"
      unfolding sample_full_vocab_exact_def Let_def exact_candidates_def[symmetric] exact_sum
        qsort_weights[OF assms(1,2,4)] ws_def[symmetric]
      using n(2,5) by (simp add: mp_def)
    then show ?thesis using eq False by simp
  qed
qed

text \<open>The plain sampler draws from the truncated distribution that speculative sampling preserves, when
  no top-k is set and the best 1024 candidates reach \<open>top_p\<close>.\<close>

lemma sample_full_vocab_trunc_dist:
  assumes "0 < t" "max_from logits \<noteq> - (10 ^ 30)" "logits \<noteq> []" "0 < top_p" "top_p < 1" "top_k \<le> 0" "0 \<le> min_p"
    and "top_p * sum_list (map fst (weights_of t logits))
      \<le> sum_list (map fst (take 1024 (sort_desc (weights_of t logits))))"
  shows "sample_full_vocab qsort logits t top_p min_p rng =
    spec_sample_from_dist (spec_build_trunc_dist logits t top_k top_p min_p) rng"
proof -
  define ws where "ws = weights_of t logits"
  define mp where "mp = fst (hd (sort_desc ws)) / sum_list (map fst ws) * (if min_p > 0 then min_p else 0)"
  obtain kept s where n: "nucleus (sum_list (map fst ws)) mp top_p True 0 (take SAMPLE_TOPK (sort_desc ws)) = (kept, s)"
    "kept \<noteq> []" "0 < s" "s = sum_list (map fst kept)" "0 < sum_list (map fst ws)" "prefix kept (sort_desc ws)"
    and eq: "sample_full_vocab qsort logits t top_p min_p rng =
      (if length kept = length (take SAMPLE_TOPK (sort_desc ws)) \<and> s / sum_list (map fst ws) < top_p
       then sample_full_vocab_exact qsort logits t top_p min_p (max_from logits) (sample_argmax logits) rng
       else (let (u, rng) = sample_rng_f32 rng in (draw_from (snd (last kept)) (u * s) kept, rng)))"
    using sample_full_vocab_bounded[OF assms(3,5), of t min_p qsort rng] unfolding ws_def mp_def by blast
  have nofall: "\<not> (length kept = length (take SAMPLE_TOPK (sort_desc ws)) \<and> s / sum_list (map fst ws) < top_p)"
  proof
    assume a: "length kept = length (take SAMPLE_TOPK (sort_desc ws)) \<and> s / sum_list (map fst ws) < top_p"
    have "kept = take (length kept) (sort_desc ws)" using n(6) by (auto simp: prefix_def)
    then have "kept = take SAMPLE_TOPK (sort_desc ws)" using a by (metis length_take min.cobounded1 take_all take_take min_def linear)
    then have "top_p * sum_list (map fst ws) \<le> s" using assms(8) n(4) by (simp add: ws_def SAMPLE_TOPK_def)
    then show False using a n(5) by (simp add: field_simps)
  qed
  have cl: "clean_top_p top_p = top_p" using assms(4,5) by (simp add: clean_top_p_def)
  have topk: "top_candidates DS4_SPEC_NUCLEUS_CAP ws = take SAMPLE_TOPK (sort_desc ws)"
    by (subst top_candidates_take) (simp_all add: DS4_SPEC_NUCLEUS_CAP_def SAMPLE_TOPK_def)
  have ne: "take SAMPLE_TOPK (sort_desc ws) \<noteq> []"
    using assms(3) weights_of_props(4) by (simp add: ws_def SAMPLE_TOPK_def)
  have hd: "hd (take SAMPLE_TOPK (sort_desc ws)) = hd (sort_desc ws)" by (simp add: SAMPLE_TOPK_def hd_take)
  have mp: "fst (hd (sort_desc ws)) / sum_list (map fst ws) * min_p = mp" using assms(7) by (simp add: mp_def)
  have trunc: "spec_build_trunc_dist logits t top_k top_p min_p = map (\<lambda>(p, i). (p * (1 / s), i)) kept"
    unfolding spec_build_trunc_dist_def Let_def weights_of_def[symmetric] cl
    using assms(1,2,6,7) ne n(1,2,3,5) hd mp by (simp add: weights_of_def[symmetric] ws_def[symmetric] topk)
  have lst: "snd (last (map (\<lambda>(p, i). (p * (1 / s), i)) kept)) = snd (last kept)"
    using n(2) by (simp add: last_map split_beta)
  have d: "spec_sample_from_dist (spec_build_trunc_dist logits t top_k top_p min_p) rng =
      (let (u, rng) = sample_rng_f32 rng in (draw_from (snd (last kept)) (u * s) kept, rng))"
    unfolding spec_sample_from_dist_def trunc lst draw_from_scale[OF n(3)] using n(2) by simp
  show ?thesis unfolding d eq if_not_P[OF nofall] ..
qed

end
