(* ===== verification/SampleProps.thy ===== *)
theory SampleProps
  imports SampleLaw
begin

text \<open>What the samplers promise the decode loops, and where two of them disagree.\<close>

section \<open>The plain samplers\<close>

text \<open>C23. The bounded top-1024 sampler returns exactly what sorting the whole vocabulary returns, for any
  sorting routine, whenever no two logits are equal.\<close>

theorem bounded_sampler_is_exact:
  assumes "qsort_ok qsort" "distinct logits" "logits \<noteq> []" "0 < temperature" "0 < top_p" "top_p < 1"
  shows "sample_top_p_min_p qsort logits temperature 0 top_p min_p rng =
    sample_full_vocab_exact qsort logits temperature top_p (if min_p < 0 then 0 else min_p)
      (max_from logits) (sample_argmax logits) rng"
  using sample_full_vocab_is_exact[OF assms(1-4,6)] assms(4-6)
  by (simp add: sample_top_p_min_p_def clean_top_p_def)

lemma draw_from_in:
  "draw_from otherwise r d \<in> insert otherwise (snd ` set d)"
proof (induction d arbitrary: r)
  case (Cons c cs)
  then show ?case using Cons.IH[of "r - fst c"] by (auto simp: Let_def)
qed simp

lemma sample_candidates_in:
  assumes "vals \<noteq> []"
  shows "fst (sample_candidates vals temperature top_p min_p rng) \<in> snd ` set vals"
proof -
  define probs where "probs = map (\<lambda>(v, i). (softmax_weight temperature (fst (hd vals)) v, i)) vals"
  obtain kept s where n: "nucleus (sum_list (map fst probs))
      (fst (hd probs) / sum_list (map fst probs) * min_p) top_p True 0 probs = (kept, s)" by (meson surj_pair)
  have "set kept \<subseteq> set probs" using nucleus_prefix(1)[OF n] by auto
  then have ids: "snd ` set kept \<subseteq> snd ` set vals" by (force simp: probs_def)
  have hd: "snd (hd vals) \<in> snd ` set vals" using assms by simp
  have "draw_from (snd (last kept)) r kept \<in> snd ` set kept" if "kept \<noteq> []" for r
    using draw_from_in[of "snd (last kept)" r kept] that by auto
  then show ?thesis
    using hd ids n by (auto simp: sample_candidates_def probs_def[symmetric] Let_def split: prod.splits)
qed

lemma argmax_not_excluded_keeps:
  "argmax_not_excluded excluded best bl cs = best \<or> \<not> excluded (argmax_not_excluded excluded best bl cs)"
proof (induction excluded best bl cs rule: argmax_not_excluded.induct)
  case (2 excluded best bl v i cs)
  then show ?case by (cases "excluded i"; cases "best < 0 \<or> v > bl") (simp_all, metis)
qed simp

lemma argmax_not_excluded_finds:
  "c \<in> set cs \<Longrightarrow> \<not> excluded (snd c) \<Longrightarrow> best < 0
    \<Longrightarrow> \<not> excluded (argmax_not_excluded excluded best bl cs)"
proof (induction cs)
  case (Cons d ds)
  have "\<not> excluded (argmax_not_excluded excluded (snd d) (fst d) ds)" if "\<not> excluded (snd d)"
    using argmax_not_excluded_keeps[of excluded "snd d" "fst d" ds] that by metis
  then show ?case using Cons by (cases d) auto
qed simp

lemma set_take_sort_desc: "set (take n (sort_desc cs)) \<subseteq> set cs"
  using set_take_subset[of n "sort_desc cs"] by simp

text \<open>The excluding samplers never return an excluded token while another one is left.\<close>

theorem excluding_sampler_excludes:
  assumes "i < length logits" "int i \<noteq> id1" "int i \<noteq> id2"
    and "fst (sample_top_p_min_p_excluding logits temperature top_k top_p min_p rng id1 id2) = tok"
  shows "tok \<noteq> id1 \<and> tok \<noteq> id2"
proof -
  have w: "(logits ! i, int i) \<in> set (with_ids logits)"
    using assms(1) by (auto simp: with_ids_def set_zip intro!: exI[of _ i])
  define vals where "vals = top_candidates (clean_top_k (if top_k \<le> 0 then int (length logits) else top_k) (length logits))
      (filter (\<lambda>c. \<not> (snd c = id1 \<or> snd c = id2)) (with_ids logits))"
  have cap: "0 < clean_top_k (if top_k \<le> 0 then int (length logits) else top_k) (length logits)"
    using assms(1) by (auto simp: clean_top_k_def Let_def)
  have "set vals \<subseteq> set (filter (\<lambda>c. \<not> (snd c = id1 \<or> snd c = id2)) (with_ids logits))"
    unfolding vals_def top_candidates_take[OF cap] by (rule set_take_sort_desc)
  then have v: "x \<noteq> id1 \<and> x \<noteq> id2" if "x \<in> snd ` set vals" for x using that by auto
  have "\<not> (sample_argmax_excluding logits id1 id2 = id1 \<or> sample_argmax_excluding logits id1 id2 = id2)"
    unfolding sample_argmax_excluding_def
    using argmax_not_excluded_finds[OF w, of "\<lambda>i. i = id1 \<or> i = id2"] assms(2,3) by simp
  moreover have "vals \<noteq> [] \<Longrightarrow> fst (sample_candidates vals temperature p q rng) \<in> snd ` set vals" for p q
    by (rule sample_candidates_in)
  ultimately show ?thesis
    using v assms(4) unfolding sample_top_p_min_p_excluding_def Let_def vals_def[symmetric]
    by (auto split: if_splits)
qed

section \<open>Speculative sampling\<close>

text \<open>C35. A truncated distribution is one: its probabilities are positive and sum to one, its token ids
  are distinct and from the vocabulary, it is sorted and holds at most 1024 and at most
  \<open>top_k\<close> entries.\<close>

theorem truncated_distribution_well_formed:
  assumes "d = spec_build_trunc_dist logits temperature top_k top_p min_p" "d \<noteq> []"
  shows "is_dist d \<and> desc d \<and> snd ` set d \<subseteq> int ` {..<length logits}
    \<and> length d \<le> 1024 \<and> (top_k > 0 \<longrightarrow> int (length d) \<le> top_k)"
proof -
  have ne: "spec_build_trunc_dist logits temperature top_k top_p min_p \<noteq> []" using assms by simp
  show ?thesis
    using spec_build_trunc_dist_cases[OF ne]
  proof cases
    case (1 kept s mp)
    let ?ws = "weights_of (if temperature \<le> 0 then 1 else temperature) logits"
    obtain rest where r: "sort_desc ?ws = kept @ rest" using 1(8) by blast
    have d: "d = map (\<lambda>(p, i). (p * (1 / s), i)) kept" using 1(10) assms(1) by simp
    have "desc (kept @ rest)" unfolding r[symmetric] by simp
    then have "desc kept" by (simp add: sorted_wrt_append)
    then have "desc d"
      unfolding d sorted_wrt_map by (rule sorted_wrt_mono_rel[rotated]) (use 1(4) in \<open>auto simp: divide_right_mono\<close>)
    moreover have "snd ` set d \<subseteq> int ` {..<length logits}"
    proof -
      have "set kept \<subseteq> set ?ws" using r by (metis set_sort_desc set_append Un_upper1)
      moreover have "snd ` set ?ws = int ` {..<length logits}"
        using weights_of_props(1) by (metis set_map atLeast_upt set_upt list.set_map)
      ultimately show ?thesis unfolding d by force
    qed
    moreover have "length d \<le> 1024" "top_k > 0 \<longrightarrow> int (length d) \<le> top_k"
      using 1(9) by (auto simp: d Let_def DS4_SPEC_NUCLEUS_CAP_def split: if_splits)
    ultimately show ?thesis using spec_build_trunc_dist_is_dist[OF ne] assms(1) by simp
  qed
qed

text \<open>C5. Speculative sampling is lossless: when the draft follows its truncated distribution \<open>q\<close>, the
  token a step commits, the draft with its acceptance share or else a draw from the residual,
  follows the truncated distribution of the target exactly.\<close>

theorem speculative_sampling_preserves_target:
  assumes "p = spec_build_trunc_dist p_logits temperature top_k top_p min_p" "p \<noteq> []"
    and "q = spec_build_trunc_dist q_logits temperature top_k top_p min_p" "q \<noteq> []"
  shows "spec_step_law p q x = spec_dist_prob p x"
  using assms spec_build_trunc_dist_is_dist by (intro spec_step_law_target) auto

text \<open>The step of the code accepts on that share: of the 16777216 values of the generator, the number that
  accepts a draft differs from its acceptance share by at most one.\<close>

theorem acceptance_frequency:
  assumes "p = spec_build_trunc_dist p_logits temperature top_k top_p min_p" "p \<noteq> []"
  shows "\<bar>real (card {k. k < (16777216::nat) \<and> spec_accepts p q draft (real k / 16777216)})
    - 16777216 * accept_share p q draft\<bar> \<le> 1"
proof -
  have "is_dist p" using assms spec_build_trunc_dist_is_dist by auto
  then have "0 \<le> spec_dist_prob p draft" by (rule is_dist_prob_nonneg)
  then have s: "0 \<le> 16777216 * accept_share p q draft" "16777216 * accept_share p q draft \<le> real 16777216"
    by (auto simp: accept_share_def)
  have "spec_accepts p q draft (real k / 16777216) \<longleftrightarrow> real k \<le> 16777216 * accept_share p q draft"
    if "k < 16777216" for k :: nat
    using spec_accepts_share [of "real k / 16777216" p q draft] that by (simp add: field_simps)
  then have "{k. k < (16777216::nat) \<and> spec_accepts p q draft (real k / 16777216)}
      = {k. k < 16777216 \<and> real k \<le> 16777216 * accept_share p q draft}" by auto
  then show ?thesis using card_grid_first [OF s] by simp
qed

text \<open>Of the 16777216 values of the generator, the number that draws a token differs from its share
  by at most one.\<close>

theorem draw_frequency_exact:
  assumes "d = spec_build_trunc_dist logits temperature top_k top_p min_p" "x \<in> snd ` set d"
  shows "\<bar>real (card {k. k < (16777216::nat) \<and> draw_from (snd (last d)) (real k / 16777216) d = x})
    - 16777216 * spec_dist_prob d x\<bar> \<le> 1"
proof -
  have "d \<noteq> []" using assms(2) by auto
  then show ?thesis using assms spec_build_trunc_dist_is_dist by (intro draw_frequency) auto
qed

text \<open>C24. Without a top-k, and when the 1024 best candidates reach \<open>top_p\<close>, plain sampling draws from
  the very distribution that speculative sampling preserves.\<close>

theorem plain_sampling_draws_target:
  assumes "0 < temperature" "max_from logits \<noteq> - (10 ^ 30)" "logits \<noteq> []" "0 < top_p" "top_p < 1" "0 \<le> min_p"
    and "top_p * sum_list (map fst (weights_of temperature logits))
      \<le> sum_list (map fst (take 1024 (sort_desc (weights_of temperature logits))))"
  shows "sample_top_p_min_p qsort logits temperature 0 top_p min_p rng =
    spec_sample_from_dist (spec_build_trunc_dist logits temperature 0 top_p min_p) rng"
proof -
  have cl: "clean_top_p top_p = top_p" using assms(4,5) by (simp add: clean_top_p_def)
  show ?thesis
    using sample_full_vocab_trunc_dist[OF assms(1-5) _ assms(6,7), of 0 qsort rng] assms(1,6)
    by (simp add: sample_top_p_min_p_def cl)
qed

section \<open>Examples\<close>

definition sample_example :: logits where
  "sample_example = [0, ln (3 / 4), ln (3 / 4)]"

lemma sample_example_weights:
  "max_from sample_example = 0" "weights_of 1 sample_example = [(1, 0), (3 / 4, 1), (3 / 4, 2)]"
  "sort_desc [(1, 0), (3 / 4, 1), (3 / 4, 2)] = [(1, 0), (3 / 4, 1), (3 / 4, 2 :: int)]"
  "weights_of 1 sample_example = map (\<lambda>(v, i). (softmax_weight 1 0 v, i)) (with_ids sample_example)"
proof -
  have l: "ln (3 / 4 :: real) \<le> 0" by simp
  show m: "max_from sample_example = 0" using l by (simp add: max_from_def sample_example_def)
  show "weights_of 1 sample_example = [(1, 0), (3 / 4, 1), (3 / 4, 2)]"
    unfolding weights_of_def m by (simp add: softmax_weight_def with_ids_def sample_example_def upt_rec)
  show "weights_of 1 sample_example = map (\<lambda>(v, i). (softmax_weight 1 0 v, i)) (with_ids sample_example)"
    unfolding weights_of_def m ..
  show "sort_desc [(1, 0), (3 / 4, 1), (3 / 4, 2)] = [(1, 0), (3 / 4, 1), (3 / 4, 2 :: int)]"
    by (simp add: sort_desc_def)
qed

text \<open>With a top-k the two nuclei differ: plain sampling measures \<open>top_p\<close> against the candidates,
  the truncated distribution against the whole vocabulary.  Here plain sampling always returns
  the first token, and the target of speculative sampling gives the second one three sevenths.\<close>

theorem truncated_distribution_differs_with_top_k:
  "fst (sample_top_p_min_p qsort sample_example 1 2 (1 / 2) 0 rng) = 0
    \<and> spec_dist_prob (spec_build_trunc_dist sample_example 1 2 (1 / 2) 0) 1 = 3 / 7"
proof -
  have l: "ln (3 / 4 :: real) \<le> 0" "exp (ln (3 / 4 :: real)) = 3 / 4" by simp_all
  have vals: "top_candidates 2 (with_ids sample_example) = [(0, 0), (ln (3 / 4), 1)]"
    using l by (simp add: top_candidates_take sort_desc_def with_ids_def sample_example_def upt_rec numeral_2_eq_2)
  have "fst (sample_candidates [(0, 0), (ln (3 / 4), 1)] 1 (1 / 2) 0 rng) = 0"
    by (simp add: sample_candidates_def softmax_weight_def Let_def split: prod.splits)
  then have "fst (sample_top_p_min_p qsort sample_example 1 2 (1 / 2) 0 rng) = 0"
    by (simp add: sample_top_p_min_p_def clean_top_k_def clean_top_p_def Let_def vals sample_example_def[symmetric])
      (simp add: vals sample_example_def)
  moreover have "spec_build_trunc_dist sample_example 1 2 (1 / 2) 0 = [(4 / 7, 0), (3 / 7, 1)]"
    using sample_example_weights
    by (simp add: spec_build_trunc_dist_def Let_def weights_of_def[symmetric] clean_top_p_def
        top_candidates_take DS4_SPEC_NUCLEUS_CAP_def sample_example_def[symmetric] del: map_map)
      (simp add: sample_example_def)
  ultimately show ?thesis by simp
qed

lemma sample_example_trunc:
  "spec_build_trunc_dist sample_example 1 0 (1 / 2) 0 = [(4 / 7, 0), (3 / 7, 1)]"
  using sample_example_weights
  by (simp add: spec_build_trunc_dist_def Let_def clean_top_p_def top_candidates_take DS4_SPEC_NUCLEUS_CAP_def
      del: map_map) (simp add: sample_example_def)

lemma sample_example_qsort: "qsort_ok (\<lambda>cs. rev (sort_key fst cs))"
  by (simp add: qsort_ok_def sorted_wrt_rev sorted_wrt_map[symmetric, where f = fst] )

theorem bounded_sampler_is_exact_witness:
  "sample_top_p_min_p (\<lambda>cs. rev (sort_key fst cs)) [0, 1] 1 0 (1 / 2) 0 7 =
    sample_full_vocab_exact (\<lambda>cs. rev (sort_key fst cs)) [0, 1] 1 (1 / 2) 0 (max_from [0, 1]) (sample_argmax [0, 1]) 7"
  using bounded_sampler_is_exact[OF sample_example_qsort, of "[0, 1]" 1 "1 / 2" 0 7] by simp

theorem excluding_sampler_excludes_witness:
  "fst (sample_top_p_min_p_excluding sample_example 1 0 1 0 0 0 1) \<noteq> 0
    \<and> fst (sample_top_p_min_p_excluding sample_example 1 0 1 0 0 0 1) \<noteq> 1"
  using excluding_sampler_excludes[of 2 sample_example 0 1 1 0 1 0 0] by (simp add: sample_example_def)

theorem truncated_distribution_well_formed_witness:
  "is_dist (spec_build_trunc_dist sample_example 1 0 (1 / 2) 0)
    \<and> length (spec_build_trunc_dist sample_example 1 0 (1 / 2) 0) \<le> 1024"
  using truncated_distribution_well_formed[OF refl, of sample_example 1 0 "1 / 2" 0]
  by (simp add: sample_example_trunc)

lemma sample_example_draft: "spec_build_trunc_dist [0] 1 0 (1 / 2) 0 = [(1, 0)]"
  by (simp add: spec_build_trunc_dist_def Let_def clean_top_p_def top_candidates_take DS4_SPEC_NUCLEUS_CAP_def
      max_from_def softmax_weight_def with_ids_def sort_desc_def)

theorem speculative_sampling_preserves_target_witness:
  "spec_step_law [(4 / 7, 0), (3 / 7, 1)] [(1, 0)] 1 = 3 / 7"
  using speculative_sampling_preserves_target[OF sample_example_trunc[symmetric] _ sample_example_draft[symmetric], of 1]
  by simp

theorem acceptance_frequency_witness:
  "\<bar>real (card {k. k < (16777216::nat) \<and> spec_accepts [(4 / 7, 0), (3 / 7, 1)] [(1, 1)] 1 (real k / 16777216)})
    - 16777216 * (3 / 7)\<bar> \<le> 1"
  using acceptance_frequency[OF sample_example_trunc[symmetric], of "[(1, 1)]" 1]
  by (simp add: accept_share_def)

theorem draw_frequency_exact_witness:
  "\<bar>real (card {k. k < (16777216::nat) \<and> draw_from 1 (real k / 16777216) [(4 / 7, 0), (3 / 7, 1)] = 1})
    - 16777216 * (3 / 7)\<bar> \<le> 1"
  using draw_frequency_exact[OF sample_example_trunc[symmetric], of 1] by simp

theorem plain_sampling_draws_target_witness:
  "sample_top_p_min_p (\<lambda>cs. rev (sort_key fst cs)) sample_example 1 0 (1 / 2) 0 7 =
    spec_sample_from_dist [(4 / 7, 0), (3 / 7, 1)] 7"
  using plain_sampling_draws_target[of 1 sample_example "1 / 2" 0 "\<lambda>cs. rev (sort_key fst cs)" 7] sample_example_weights(1-3)
  by (simp add: sample_example_trunc) (simp add: sample_example_def)

end
