(* ===== verification/SpecSample.thy ===== *)
theory SpecSample
  imports SpecLoop SampleLaw
begin

text \<open>
  The speculative round at a temperature above zero: the combined round of the legacy head with
  sampled drafts (\<open>ds4_session_eval_speculative_sample_combined\<close>) and its dispatcher
  (\<open>ds4_session_eval_speculative_sample\<close>), for a local session on a device.  The logits of the
  draft head are the parameter \<open>mtp_row\<close>, a function of the tokens it has been fed; the sequential
  round refuses every temperature above zero, and is the parameter \<open>seq\<close> below it.
\<close>

record sample_params =
  sp_temperature :: real
  sp_top_k :: int
  sp_top_p :: real
  sp_min_p :: real

definition trunc_dist :: "sample_params \<Rightarrow> logits \<Rightarrow> (real \<times> int) list" where
  "trunc_dist sp row = spec_build_trunc_dist row (sp_temperature sp) (sp_top_k sp) (sp_top_p sp) (sp_min_p sp)"

text \<open>The chain of sampled drafts, each with the distribution it was drawn from.\<close>

fun sample_drafts ::
  "spec_engine \<Rightarrow> spec_io \<Rightarrow> sample_params \<Rightarrow> (int list \<Rightarrow> logits) \<Rightarrow> int \<Rightarrow> nat \<Rightarrow> nat \<Rightarrow> int list
   \<Rightarrow> spec_graph \<Rightarrow> u64 \<Rightarrow> (spec_graph \<times> u64) \<times> (int \<times> (real \<times> int) list) list" where
  "sample_drafts e io sp mtp_row eos_token i 0 fed g rng = ((g, rng), [])"
| "sample_drafts e io sp mtp_row eos_token i (Suc left) fed g rng =
     (case metal_graph_eval_mtp_draft_from_hc e (io_mtp io i) g of
        None \<Rightarrow> ((g, rng), [])
      | Some (g, _) \<Rightarrow>
          (let q = trunc_dist sp (mtp_row fed) in
           if q = [] then ((g, rng), [])
           else
             (let (draft, rng) = spec_sample_from_dist q rng in
              if draft = eos_token then ((g, rng), [(draft, q)])
              else
                (let (st, drafts) = sample_drafts e io sp mtp_row eos_token (i + 1) left (fed @ [draft]) g rng in
                 (st, (draft, q) # drafts)))))"

text \<open>How many drafts are accepted, and the token drawn in place of the first rejected one.\<close>

fun sample_accept ::
  "sample_params \<Rightarrow> int \<Rightarrow> logits list \<Rightarrow> (int \<times> (real \<times> int) list) list \<Rightarrow> u64
   \<Rightarrow> (nat \<times> int option) \<times> u64" where
  "sample_accept sp eos_token (row # rows) ((draft, q) # ds) rng =
     (let ((tok, acc), rng) =
            spec_sample_step row q draft (sp_temperature sp) (sp_top_k sp) (sp_top_p sp) (sp_min_p sp) rng in
      if \<not> acc then ((0, Some tok), rng)
      else if draft = eos_token then ((1, None), rng)
      else
        (let ((commit, resampled), rng) = sample_accept sp eos_token rows ds rng in
         ((Suc commit, resampled), rng)))"
| "sample_accept sp eos_token rows ds rng = ((0, None), rng)"

definition sample_rollback :: "spec_io \<Rightarrow> nat \<Rightarrow> nat \<Rightarrow> spec_graph \<Rightarrow> spec_graph option" where
  "sample_rollback io commit draft_n g =
     (if commit < draft_n then
        if commit = 0 then spec_frontier_commit_prefix1 (io_rollback io) g
        else if commit = 1 then spec_frontier_commit_prefix2 (io_rollback io) g
        else Some g
      else Some g)"

definition spec_sample_bootstrap_next_mtp_draft ::
  "spec_engine \<Rightarrow> spec_io \<Rightarrow> spec_session \<Rightarrow> spec_session" where
  "spec_sample_bootstrap_next_mtp_draft e io s =
     (if \<not> en_mtp_ready e \<or> \<not> ss_checkpoint_valid s \<or> ss_checkpoint s = []
         \<or> \<not> ss_prev_hc_valid s \<or> \<not> gr_has_prev_hc (ss_graph s)
      then s\<lparr>ss_mtp_draft_valid := False\<rparr>
      else
        (case metal_graph_eval_mtp_draft_from_hc e (io_probe io) (ss_graph s) of
           None \<Rightarrow> s\<lparr>ss_mtp_draft_valid := False\<rparr>
         | Some (g, mtp_top) \<Rightarrow>
             s\<lparr>ss_graph := g, ss_mtp_draft_token := mtp_top, ss_mtp_draft_valid := True\<rparr>))"

definition sample_draft_depth :: "spec_engine \<Rightarrow> spec_env \<Rightarrow> int" where
  "sample_draft_depth e ev =
     (if en_mtp_draft_tokens e \<ge> 2 \<and> en_mtp_draft_tokens e \<le> 4 then en_mtp_draft_tokens e
      else if ev_no_cascade ev then 1 else 2)"

text \<open>The end of the round, behind the accept loop and the rollback.\<close>

definition sample_commit ::
  "spec_model \<Rightarrow> spec_engine \<Rightarrow> spec_io \<Rightarrow> spec_session \<Rightarrow> int \<Rightarrow> int list \<Rightarrow> nat \<Rightarrow> int option \<Rightarrow> nat
   \<Rightarrow> int \<Rightarrow> int \<Rightarrow> spec_session \<times> spec_rc" where
  "sample_commit m e io s first_token drafts commit resampled mtp_base_raw accepted_cap eos_token =
     (let accepted = append_accepted eos_token (nat accepted_cap) (take commit drafts);
          hit_eos = (first_token = eos_token \<or> eos_token \<in> set accepted);
          keep = (if mtp_base_raw + commit > en_raw_window e then en_raw_window e else mtp_base_raw + commit);
          s = s\<lparr>ss_graph := (ss_graph s)\<lparr>gr_mtp_n_raw := keep\<rparr>\<rparr>;
          finish = (\<lambda>s. s\<lparr>ss_adaptive := ds4_session_note_dspark_commit e (int commit) (ss_adaptive s)\<rparr>)
      in
      case resampled of
        Some tok \<Rightarrow>
          if tok \<ge> 0 \<and> \<not> hit_eos \<and> int (length accepted) < accepted_cap then
            if \<not> io_eval io then spec_fail e '' decode failed'' s
            else
              (let fr = gr_frontier (ss_graph s) @ [tok];
                   s = s\<lparr>ss_graph := (ss_graph s)\<lparr>gr_frontier := fr, gr_cur_hc := fr\<rparr>,
                         ss_logits := sm_target m fr, ss_checkpoint := ss_checkpoint s @ [tok]\<rparr>;
                   s = spec_argmax_bootstrap_combined_prev_hc e io s in
               (finish (spec_sample_bootstrap_next_mtp_draft e io (s\<lparr>ss_checkpoint_valid := True\<rparr>)),
                SpecAccepted (accepted @ [tok])))
          else
            (finish (spec_sample_bootstrap_next_mtp_draft e io
               ((spec_argmax_snapshot_combined_prev_hc e io commit
                  (s\<lparr>ss_logits := gr_rows (ss_graph s) ! commit\<rparr>))\<lparr>ss_checkpoint_valid := True\<rparr>)),
             SpecAccepted accepted)
      | None \<Rightarrow>
          (finish (spec_sample_bootstrap_next_mtp_draft e io
             ((spec_argmax_snapshot_combined_prev_hc e io commit
                (s\<lparr>ss_logits := gr_rows (ss_graph s) ! commit\<rparr>))\<lparr>ss_checkpoint_valid := True\<rparr>)),
           SpecAccepted accepted))"

definition sample_verify ::
  "spec_model \<Rightarrow> spec_engine \<Rightarrow> spec_io \<Rightarrow> sample_params \<Rightarrow> spec_session \<Rightarrow> int
   \<Rightarrow> (int \<times> (real \<times> int) list) list \<Rightarrow> nat \<Rightarrow> int \<Rightarrow> int \<Rightarrow> u64 \<Rightarrow> (spec_session \<times> spec_rc) \<times> u64" where
  "sample_verify m e io sp s first_token dqs mtp_base_raw accepted_cap eos_token rng =
     (let drafts = map fst dqs; draft_n = length drafts;
          start = length (ss_checkpoint s);
          pushed = ss_checkpoint s @ first_token # drafts in
      case metal_graph_verify_suffix_tops m e (io_verify io) (ss_graph s) pushed start (draft_n + 1) True of
        None \<Rightarrow> (spec_fail e '' combined-forward failed'' s, rng)
      | Some (g, _) \<Rightarrow>
          (let ((commit, resampled), rng) = sample_accept sp eos_token (gr_rows g) dqs rng;
               s = s\<lparr>ss_graph := g, ss_checkpoint := take (start + 1 + commit) pushed\<rparr> in
           case sample_rollback io commit draft_n g of
             None \<Rightarrow> (spec_fail e '' prefix commit failed'' s, rng)
           | Some g \<Rightarrow>
               (sample_commit m e io (s\<lparr>ss_graph := g\<rparr>) first_token drafts commit resampled mtp_base_raw
                  accepted_cap eos_token, rng)))"

definition ds4_session_eval_speculative_sample_combined ::
  "spec_model \<Rightarrow> spec_engine \<Rightarrow> spec_env \<Rightarrow> spec_io \<Rightarrow> sample_params \<Rightarrow> (int list \<Rightarrow> logits) \<Rightarrow> spec_session
   \<Rightarrow> int \<Rightarrow> int \<Rightarrow> int \<Rightarrow> int \<Rightarrow> u64 \<Rightarrow> (spec_session \<times> spec_rc) \<times> u64" where
  "ds4_session_eval_speculative_sample_combined m e ev io sp mtp_row s first_token max_tokens eos_token
     accepted_cap rng =
     (if \<not> ss_prev_hc_valid s \<or> \<not> gr_has_prev_hc (ss_graph s) then ((s, SpecGap), rng)
      else
        (let draft_cap = spec_budget e s max_tokens accepted_cap (sample_draft_depth e ev);
             mtp_base_raw = gr_mtp_n_raw (ss_graph s) in
         if draft_cap < 1 then ((s, SpecGap), rng)
         else
           (let ((g, rng), dqs) = sample_drafts e io sp mtp_row eos_token 0 (nat draft_cap) [first_token] (ss_graph s) rng;
                s = s\<lparr>ss_graph := g\<rparr> in
            if dqs = [] then ((s, SpecGap), rng)
            else
              sample_verify m e io sp (s\<lparr>ss_prev_hc_valid := False, ss_mtp_draft_valid := False\<rparr>) first_token dqs
                mtp_base_raw accepted_cap eos_token rng)))"

definition ds4_session_eval_speculative_sample ::
  "spec_model \<Rightarrow> spec_engine \<Rightarrow> spec_env \<Rightarrow> bool \<Rightarrow> (spec_session \<Rightarrow> u64 \<Rightarrow> (spec_session \<times> spec_rc) \<times> u64)
   \<Rightarrow> spec_io \<Rightarrow> sample_params \<Rightarrow> (int list \<Rightarrow> logits) \<Rightarrow> spec_session \<Rightarrow> int \<Rightarrow> int \<Rightarrow> int \<Rightarrow> int \<Rightarrow> u64
   \<Rightarrow> (spec_session \<times> spec_rc) \<times> u64" where
  "ds4_session_eval_speculative_sample m e ev batch_decode seq io sp mtp_row s first_token max_tokens eos_token
     accepted_cap rng =
     (if max_tokens \<le> 0 \<or> accepted_cap \<le> 0 then ((s, SpecAccepted []), rng)
      else
        (let strict_mtp = (en_quality e \<or> ev_strict ev);
             try_combined =
               (\<not> strict_mtp \<and> en_mtp_ready e \<and> en_mtp_spec_ready e \<and> \<not> en_dspark_ready e
                \<and> en_mtp_draft_tokens e \<ge> 2 \<and> en_mtp_draft_tokens e \<le> 4 \<and> \<not> ev_spec_disable ev
                \<and> sp_temperature sp > 0 \<and> max_tokens \<ge> 2 \<and> accepted_cap \<ge> 2 \<and> first_token \<noteq> eos_token
                \<and> int (length (ss_checkpoint s)) + en_mtp_draft_tokens e + 1 \<le> en_ctx_size e);
             ((s, rc), rng) =
               (if try_combined
                then ds4_session_eval_speculative_sample_combined m e ev io sp mtp_row s first_token max_tokens
                       eos_token accepted_cap rng
                else ((s, SpecGap), rng));
             ((s, rc), rng) =
               (if rc \<noteq> SpecGap then ((s, rc), rng)
                else if (en_dspark_ready e \<and> en_kind e = DS4_MTP_DRAFT_DSPARK \<or> en_mtp_draft_tokens e > 4)
                     \<and> \<not> sp_temperature sp > 0
                then seq s rng
                else ((s, SpecGap), rng)) in
         if rc \<noteq> SpecGap then ((s, rc), rng)
         else
           (case ds4_session_eval_internal m e batch_decode io s first_token True of
              Inl failed \<Rightarrow> (failed, rng)
            | Inr s \<Rightarrow>
                ((spec_argmax_bootstrap_combined_prev_hc e io s, SpecAccepted [first_token]), rng))))"

section \<open>What a sampled round commits and returns\<close>

lemma mtp_draft_frontier:
  assumes "metal_graph_eval_mtp_draft_from_hc e d g = Some (g', t)"
  shows "gr_frontier g' = gr_frontier g \<and> gr_has_prev_hc g' = gr_has_prev_hc g"
  using assms by (auto simp: metal_graph_eval_mtp_draft_from_hc_def split: if_splits option.splits)

lemma sample_drafts_props:
  assumes "sample_drafts e io sp mtp_row eos i n fed g rng = ((g', rng'), dqs)"
  shows "gr_frontier g' = gr_frontier g \<and> length dqs \<le> n \<and> eos \<notin> set (map fst (butlast dqs))"
  using assms
proof (induction e io sp mtp_row eos i n fed g rng arbitrary: g' rng' dqs rule: sample_drafts.induct)
  case (2 e io sp mtp_row eos i left fed g rng)
  show ?case
  proof (cases "metal_graph_eval_mtp_draft_from_hc e (io_mtp io i) g")
    case None
    then show ?thesis using 2(2) by auto
  next
    case (Some r)
    obtain g1 t where r: "r = (g1, t)" by (cases r)
    have fr: "gr_frontier g1 = gr_frontier g" using mtp_draft_frontier Some r by blast
    obtain d rng1 where d: "spec_sample_from_dist (trunc_dist sp (mtp_row fed)) rng = (d, rng1)" by (meson surj_pair)
    obtain g2 rng2 ds where rec: "sample_drafts e io sp mtp_row eos (i + 1) left (fed @ [d]) g1 rng1 = ((g2, rng2), ds)"
      by (metis surj_pair)
    show ?thesis
    proof (cases "trunc_dist sp (mtp_row fed) = [] \<or> d = eos")
      case True
      then show ?thesis using 2(2) Some r fr d by (auto simp: Let_def split: if_splits)
    next
      case False
      have ih: "gr_frontier g2 = gr_frontier g1 \<and> length ds \<le> left \<and> eos \<notin> set (map fst (butlast ds))"
        using 2(1)[OF Some r[symmetric] refl _ d[symmetric] refl _ rec] False by simp
      have "g' = g2" "dqs = (d, trunc_dist sp (mtp_row fed)) # ds"
        using 2(2) Some r False d rec by (auto simp: Let_def)
      then show ?thesis using ih fr False by (cases ds) auto
    qed
  qed
qed auto

lemma sample_accept_le:
  assumes "sample_accept sp eos rows dqs rng = ((commit, resampled), rng')"
  shows "commit \<le> length dqs"
  using assms
proof (induction sp eos rows dqs rng arbitrary: commit resampled rng' rule: sample_accept.induct)
  case (1 sp eos row rows draft q ds rng)
  obtain tok acc rng1 where st: "spec_sample_step row q draft (sp_temperature sp) (sp_top_k sp) (sp_top_p sp)
      (sp_min_p sp) rng = ((tok, acc), rng1)" by (metis surj_pair)
  obtain c r rng2 where rec: "sample_accept sp eos rows ds rng1 = ((c, r), rng2)" by (metis surj_pair)
  show ?case
  proof (cases "acc \<and> draft \<noteq> eos")
    case True
    then have "c \<le> length ds" using "1.IH"[OF st[symmetric] refl refl _ _ rec] by simp
    then show ?thesis using 1(2) True st rec by auto
  next
    case False
    then show ?thesis using 1(2) st by (auto split: if_splits)
  qed
qed auto

lemma append_accepted_all:
  "length xs \<le> n \<Longrightarrow> eos \<notin> set (butlast xs) \<Longrightarrow> append_accepted eos n xs = xs"
proof (induction eos n xs rule: append_accepted.induct)
  case (3 eos room d ds)
  then show ?case by (cases "ds = []") (auto split: if_splits)
qed auto

lemma take_butlast_subset: "set (butlast (take n xs)) \<subseteq> set (butlast xs)"
proof (cases "n < length xs")
  case True
  then have "butlast (take n xs) = take (n - 1) (butlast xs)" by (simp add: butlast_take butlast_conv_take min_def)
  then show ?thesis by (simp add: set_take_subset)
qed simp

text \<open>The device and the logits behind the verifier and the rollback.\<close>

lemma bootstrap_next_frame:
  "ss_checkpoint (spec_sample_bootstrap_next_mtp_draft e io s) = ss_checkpoint s
    \<and> gr_frontier (ss_graph (spec_sample_bootstrap_next_mtp_draft e io s)) = gr_frontier (ss_graph s)
    \<and> ss_checkpoint_valid (spec_sample_bootstrap_next_mtp_draft e io s) = ss_checkpoint_valid s
    \<and> ss_logits (spec_sample_bootstrap_next_mtp_draft e io s) = ss_logits s"
proof (cases "metal_graph_eval_mtp_draft_from_hc e (io_probe io) (ss_graph s)")
  case None
  then show ?thesis by (simp add: spec_sample_bootstrap_next_mtp_draft_def)
next
  case (Some r)
  then show ?thesis
    using mtp_draft_frontier[of e "io_probe io" "ss_graph s" "fst r" "snd r"]
    by (simp add: spec_sample_bootstrap_next_mtp_draft_def split_beta)
qed

lemma sample_commit_accepted:
  assumes "sample_commit m e io s first_token drafts commit resampled base cap eos = (s', SpecAccepted acc)"
    and "int commit \<le> cap" "commit \<le> length drafts" "eos \<notin> set (butlast drafts)"
  obtains extra where "acc = take commit drafts @ extra"
    "ss_checkpoint s' = ss_checkpoint s @ extra"
    "gr_frontier (ss_graph s') = gr_frontier (ss_graph s) @ extra"
    "ss_checkpoint_valid s'"
    "ss_logits s' = (if extra = [] then gr_rows (ss_graph s) ! commit
       else sm_target m (gr_frontier (ss_graph s) @ extra))"
proof -
  have acc: "append_accepted eos (nat cap) (take commit drafts) = take commit drafts"
    using assms(2-4) take_butlast_subset[of commit drafts] by (intro append_accepted_all) auto
  note boot = bootstrap_next_frame[of e io]
  have snap: "ss_checkpoint (spec_argmax_snapshot_combined_prev_hc e io k x) = ss_checkpoint x
      \<and> gr_frontier (ss_graph (spec_argmax_snapshot_combined_prev_hc e io k x)) = gr_frontier (ss_graph x)
      \<and> ss_logits (spec_argmax_snapshot_combined_prev_hc e io k x) = ss_logits x" for k x
    by (simp add: spec_argmax_snapshot_combined_prev_hc_def)
  have bs: "ss_checkpoint (spec_argmax_bootstrap_combined_prev_hc e io x) = ss_checkpoint x
      \<and> gr_frontier (ss_graph (spec_argmax_bootstrap_combined_prev_hc e io x)) = gr_frontier (ss_graph x)
      \<and> ss_logits (spec_argmax_bootstrap_combined_prev_hc e io x) = ss_logits x" for x
    by (simp add: spec_argmax_bootstrap_combined_prev_hc_def)
  define s0 where "s0 = s\<lparr>ss_graph := (ss_graph s)\<lparr>gr_mtp_n_raw :=
      (if base + commit > en_raw_window e then en_raw_window e else base + commit)\<rparr>\<rparr>"
  define deferred where "deferred = spec_sample_bootstrap_next_mtp_draft e io
      ((spec_argmax_snapshot_combined_prev_hc e io commit
         (s0\<lparr>ss_logits := gr_rows (ss_graph s0) ! commit\<rparr>))\<lparr>ss_checkpoint_valid := True\<rparr>)"
  define corrected where "corrected tok = spec_sample_bootstrap_next_mtp_draft e io
      ((spec_argmax_bootstrap_combined_prev_hc e io
         (s0\<lparr>ss_graph := (ss_graph s0)\<lparr>gr_frontier := gr_frontier (ss_graph s0) @ [tok],
                                        gr_cur_hc := gr_frontier (ss_graph s0) @ [tok]\<rparr>,
             ss_logits := sm_target m (gr_frontier (ss_graph s0) @ [tok]),
             ss_checkpoint := ss_checkpoint s0 @ [tok]\<rparr>))\<lparr>ss_checkpoint_valid := True\<rparr>)" for tok
  have d: "ss_checkpoint deferred = ss_checkpoint s \<and> gr_frontier (ss_graph deferred) = gr_frontier (ss_graph s)
      \<and> ss_checkpoint_valid deferred \<and> ss_logits deferred = gr_rows (ss_graph s) ! commit"
    unfolding deferred_def using boot snap by (simp add: s0_def)
  have c: "ss_checkpoint (corrected tok) = ss_checkpoint s @ [tok]
      \<and> gr_frontier (ss_graph (corrected tok)) = gr_frontier (ss_graph s) @ [tok]
      \<and> ss_checkpoint_valid (corrected tok) \<and> ss_logits (corrected tok) = sm_target m (gr_frontier (ss_graph s) @ [tok])"
    for tok
    unfolding corrected_def using boot bs by (simp add: s0_def)
  have "(\<exists>tok. acc = take commit drafts @ [tok] \<and> ss_checkpoint s' = ss_checkpoint (corrected tok)
        \<and> gr_frontier (ss_graph s') = gr_frontier (ss_graph (corrected tok))
        \<and> ss_checkpoint_valid s' = ss_checkpoint_valid (corrected tok) \<and> ss_logits s' = ss_logits (corrected tok))
      \<or> (acc = take commit drafts \<and> ss_checkpoint s' = ss_checkpoint deferred
        \<and> gr_frontier (ss_graph s') = gr_frontier (ss_graph deferred)
        \<and> ss_checkpoint_valid s' = ss_checkpoint_valid deferred \<and> ss_logits s' = ss_logits deferred)"
    using assms(1)
    unfolding sample_commit_def Let_def acc s0_def[symmetric] deferred_def[symmetric] corrected_def[symmetric]
    by (cases resampled) (auto simp: spec_fail_def split: if_splits)
  then show ?thesis
  proof (elim disjE exE conjE)
    fix tok assume "acc = take commit drafts @ [tok]" "ss_checkpoint s' = ss_checkpoint (corrected tok)"
      "gr_frontier (ss_graph s') = gr_frontier (ss_graph (corrected tok))"
      "ss_checkpoint_valid s' = ss_checkpoint_valid (corrected tok)" "ss_logits s' = ss_logits (corrected tok)"
    then show ?thesis using c[of tok] by (intro that[of "[tok]"]) simp_all
  next
    assume "acc = take commit drafts" "ss_checkpoint s' = ss_checkpoint deferred"
      "gr_frontier (ss_graph s') = gr_frontier (ss_graph deferred)"
      "ss_checkpoint_valid s' = ss_checkpoint_valid deferred" "ss_logits s' = ss_logits deferred"
    then show ?thesis using d by (intro that[of "[]"]) simp_all
  qed
qed

text \<open>The combined sampled round commits the caller's token and the accepted drafts, but the array it
  returns does not hold the caller's token: it begins with the first draft.  With at most two
  drafts the device stays in step with the checkpoint, and the logits are those behind it.\<close>

theorem sampled_round_omits_first_token:
  assumes "ds4_session_eval_speculative_sample_combined m e ev io sp mtp_row s first_token max_tokens eos
      accepted_cap rng = ((s', SpecAccepted acc), rng')"
    and "gr_frontier (ss_graph s) = ss_checkpoint s"
  shows "ss_checkpoint s' = ss_checkpoint s @ first_token # acc \<and> ss_checkpoint_valid s'
    \<and> (sample_draft_depth e ev \<le> 2 \<longrightarrow>
         gr_frontier (ss_graph s') = ss_checkpoint s'
         \<and> ss_logits s' \<in> {sm_target m (ss_checkpoint s'), sm_batch m (ss_checkpoint s')})"
proof -
  define draft_cap where "draft_cap = spec_budget e s max_tokens accepted_cap (sample_draft_depth e ev)"
  obtain g rng1 dqs where dr: "sample_drafts e io sp mtp_row eos 0 (nat draft_cap) [first_token] (ss_graph s) rng
      = ((g, rng1), dqs)" by (metis surj_pair)
  define drafts where "drafts = map fst dqs"
  define s1 where "s1 = s\<lparr>ss_graph := g, ss_prev_hc_valid := False, ss_mtp_draft_valid := False\<rparr>"
  define pushed where "pushed = ss_checkpoint s @ first_token # drafts"
  have res: "sample_verify m e io sp s1 first_token dqs (gr_mtp_n_raw (ss_graph s)) accepted_cap eos rng1
      = ((s', SpecAccepted acc), rng')" and ne: "dqs \<noteq> []" and cap: "1 \<le> draft_cap"
    using assms(1) dr unfolding ds4_session_eval_speculative_sample_combined_def Let_def draft_cap_def[symmetric]
    by (auto simp: s1_def split: if_splits)
  note dp = sample_drafts_props[OF dr]
  have caps: "draft_cap \<le> accepted_cap - 1" "draft_cap \<le> sample_draft_depth e ev"
    by (auto simp: draft_cap_def spec_budget_def at_most_def)
  have len: "int (length drafts) \<le> accepted_cap" "int (length drafts) \<le> sample_draft_depth e ev"
    using dp caps cap unfolding drafts_def by auto
  have eos: "eos \<notin> set (butlast drafts)" using dp by (simp add: drafts_def map_butlast)
  have fr: "gr_frontier g = ss_checkpoint s" using dp assms(2) by simp
  let ?n = "length drafts + 1" and ?start = "length (ss_checkpoint s)"
  obtain g1 tops where v: "metal_graph_verify_suffix_tops m e (io_verify io) g pushed ?start ?n True = Some (g1, tops)"
    using res by (auto simp: sample_verify_def Let_def s1_def drafts_def[symmetric] pushed_def[symmetric] spec_fail_def
      split: option.splits)
  have g1: "gr_frontier g1 = pushed" "gr_prefix1 g1 = ss_checkpoint s @ [first_token]"
    "2 \<le> length drafts \<Longrightarrow> gr_prefix2 g1 = ss_checkpoint s @ [first_token, hd drafts]"
    "gr_rows g1 = batch_rows (sm_batch m) (ss_checkpoint s) (first_token # drafts)"
    using v fr ne unfolding metal_graph_verify_suffix_tops_def drafts_def pushed_def
    by (auto simp: Let_def neq_Nil_conv split: if_splits)
  obtain commit resampled rng2 where ac: "sample_accept sp eos (gr_rows g1) dqs rng1 = ((commit, resampled), rng2)"
    by (metis surj_pair)
  have cle: "commit \<le> length drafts" using sample_accept_le[OF ac] by (simp add: drafts_def)
  define s2 where "s2 = s1\<lparr>ss_graph := g1, ss_checkpoint := take (?start + 1 + commit) pushed\<rparr>"
  obtain g2 where rb: "sample_rollback io commit (length drafts) g1 = Some g2"
    and cm: "sample_commit m e io (s2\<lparr>ss_graph := g2\<rparr>) first_token drafts commit resampled
      (gr_mtp_n_raw (ss_graph s)) accepted_cap eos = (s', SpecAccepted acc)"
    using res v ac
    by (auto simp: sample_verify_def Let_def s1_def s2_def drafts_def[symmetric] pushed_def[symmetric] spec_fail_def
      split: option.splits)
  have ck: "ss_checkpoint s2 = ss_checkpoint s @ first_token # take commit drafts"
    by (simp add: s2_def pushed_def)
  have rows: "gr_rows g2 = gr_rows g1"
    using rb by (auto simp: sample_rollback_def spec_frontier_commit_prefix1_def spec_frontier_commit_prefix2_def
      split: if_splits)
  have front: "gr_frontier g2 = ss_checkpoint s2" if "sample_draft_depth e ev \<le> 2"
  proof -
    have "length drafts \<le> 2" using len(2) that by linarith
    then have "commit = length drafts \<or> commit = 0 \<or> commit = 1 \<and> length drafts = 2" using cle by linarith
    then show ?thesis
      using rb g1(1-3) ne unfolding ck drafts_def[symmetric]
      by (auto simp: sample_rollback_def spec_frontier_commit_prefix1_def spec_frontier_commit_prefix2_def
        pushed_def drafts_def take_Suc hd_map split: if_splits)
  qed
  have cc: "int commit \<le> accepted_cap" using cle len(1) by linarith
  obtain extra where ex: "acc = take commit drafts @ extra"
    "ss_checkpoint s' = ss_checkpoint s2 @ extra"
    "gr_frontier (ss_graph s') = gr_frontier g2 @ extra" "ss_checkpoint_valid s'"
    "ss_logits s' = (if extra = [] then gr_rows g2 ! commit else sm_target m (gr_frontier g2 @ extra))"
    by (rule sample_commit_accepted[OF cm cc cle eos]) simp
  have row: "gr_rows g2 ! commit = sm_batch m (ss_checkpoint s2)"
    unfolding rows g1(4) ck using batch_rows_nth[of commit "first_token # drafts" "sm_batch m" "ss_checkpoint s"] cle
    by (cases commit) simp_all
  show ?thesis using ex ck front row by auto
qed

text \<open>A sampled round on the small model: with \<open>min_p\<close> at one only the best token is left, both drafts
  are accepted, and the round returns them without the token the caller had drawn.\<close>

definition spec_example_sampling :: sample_params where
  "spec_example_sampling = \<lparr>sp_temperature = 1, sp_top_k = 0, sp_top_p = 1, sp_min_p = 1\<rparr>"

lemma spec_example_trunc:
  "trunc_dist spec_example_sampling (spec_example_row n) = [(1, sample_argmax (spec_example_row n))]"
proof -
  define E :: real where "E = exp (- 1)"
  have e: "0 < E" "E < 1" by (simp_all add: E_def)
  have "E * E < E" using mult_strict_left_mono[OF e(2) e(1)] by simp
  then have b: "2 * (E * E) < 1 + E" "\<not> 1 + 2 * E \<le> 0" using e by linarith+
  have "spec_build_trunc_dist row 1 0 1 1 = [(1, sample_argmax row)]"
    if "row = [0, 1, 0] \<or> row = [1, 0, 0] \<or> row = [0, 0, 1]" for row
    using that e b unfolding E_def
    by (auto simp: spec_build_trunc_dist_def clean_top_p_def top_candidates_take DS4_SPEC_NUCLEUS_CAP_def
        max_from_def softmax_weight_def with_ids_def sort_desc_def sample_argmax_def Let_def field_simps)
  then show ?thesis by (simp add: trunc_dist_def spec_example_sampling_def spec_example_row_def)
qed

lemma spec_example_draw: "spec_sample_from_dist [(1, d)] rng = (d, snd (sample_rng_f32 rng))"
  by (simp add: spec_sample_from_dist_def split_beta)

lemma spec_example_accept:
  assumes "d = sample_argmax (spec_example_row n)"
  shows "spec_sample_step (spec_example_row n) [(1, d)] d 1 0 1 1 rng = ((d, True), snd (sample_rng_f32 rng))"
proof -
  obtain k where "k < 16777216" "fst (sample_rng_f32 rng) = real k / 16777216" using sample_rng_f32_grid by blast
  then have u: "fst (sample_rng_f32 rng) \<le> 1" by simp
  have "spec_build_trunc_dist (spec_example_row n) 1 0 1 1 = [(1, sample_argmax (spec_example_row n))]"
    using spec_example_trunc[of n] by (simp add: trunc_dist_def spec_example_sampling_def)
  then show ?thesis using u assms by (simp add: spec_sample_step_def spec_accepts_def split_beta)
qed

lemma spec_example_sampled:
  "snd (fst (ds4_session_eval_speculative_sample_combined spec_example_model spec_example_legacy_engine
     spec_example_env spec_example_round spec_example_sampling (\<lambda>fed. spec_example_row (3 + length fed))
     spec_example_session 1 10 2 17 7)) = SpecAccepted [0, 2]"
proof -
  have app: "append_accepted 2 17 [0, 2] = [0, 2]" by (simp add: eval_nat_numeral)
  have tr: "trunc_dist spec_example_sampling (spec_example_row 4) = [(1, 0)]"
    "trunc_dist spec_example_sampling (spec_example_row 5) = [(1, 2)]"
    unfolding spec_example_trunc spec_example_argmax by simp_all
  have n: "nat 2 = Suc (Suc 0)" by simp
  let ?rng = "snd (sample_rng_f32 (snd (sample_rng_f32 7)))"
  let ?g = "(ss_graph spec_example_session)\<lparr>gr_mtp_n_raw := 2\<rparr>"
  let ?s = "spec_example_session\<lparr>ss_graph := ?g, ss_prev_hc_valid := False, ss_mtp_draft_valid := False\<rparr>"
  have drafts: "sample_drafts spec_example_legacy_engine spec_example_round spec_example_sampling
      (\<lambda>fed. spec_example_row (3 + length fed)) 2 0 (nat 2) [1] (ss_graph spec_example_session) 7 =
      ((?g, ?rng), [(0, [(1, 0)]), (2, [(1, 2)])])"
    unfolding n
    by (simp add: metal_graph_eval_mtp_draft_from_hc_def spec_example_legacy_engine_def spec_example_engine_def
        spec_example_round_def spec_example_session_def tr spec_example_draw)
  have step: "spec_sample_step (spec_example_row 4) [(1, 0)] 0 1 0 1 1 r = ((0, True), snd (sample_rng_f32 r))"
    "spec_sample_step (spec_example_row 5) [(1, 2)] 2 1 0 1 1 r = ((2, True), snd (sample_rng_f32 r))" for r
    by (intro spec_example_accept; simp add: spec_example_argmax)+
  have acc: "sample_accept spec_example_sampling 2 [spec_example_row 4, spec_example_row 5, spec_example_row 6]
      [(0, [(1, 0)]), (2, [(1, 2)])] r = ((2, None), snd (sample_rng_f32 (snd (sample_rng_f32 r))))" for r
    by (simp add: spec_example_sampling_def step)
  have sucs: "4 = Suc (Suc (Suc (Suc 0)))" "5 = Suc (Suc (Suc (Suc (Suc 0))))" "6 = Suc (Suc (Suc (Suc (Suc (Suc 0)))))"
    by simp_all
  note acc = acc[unfolded sucs]
  have verify: "snd (fst (sample_verify spec_example_model spec_example_legacy_engine spec_example_round
      spec_example_sampling ?s 1 [(0, [(1, 0)]), (2, [(1, 2)])] 0 17 2 ?rng)) = SpecAccepted [0, 2]"
    using acc app
    by (simp add: sample_verify_def metal_graph_verify_suffix_tops_def sample_rollback_def sample_commit_def
        spec_example_model_def spec_example_legacy_engine_def spec_example_engine_def spec_example_round_def
        spec_example_session_def Let_def del: sample_accept.simps)
  have depth: "spec_budget spec_example_legacy_engine spec_example_session 10 17
      (sample_draft_depth spec_example_legacy_engine spec_example_env) = 2"
    by (simp add: spec_budget_def at_most_def sample_draft_depth_def spec_example_legacy_engine_def
        spec_example_engine_def spec_example_session_def)
  have hc: "ss_prev_hc_valid spec_example_session" "gr_has_prev_hc (ss_graph spec_example_session)"
    "gr_mtp_n_raw (ss_graph spec_example_session) = 0"
    by (simp_all add: spec_example_session_def)
  show ?thesis
    using verify hc drafts
    by (simp add: ds4_session_eval_speculative_sample_combined_def Let_def depth)
qed

theorem sampled_round_omits_first_token_witness:
  "\<exists>s' rng'. ds4_session_eval_speculative_sample_combined spec_example_model spec_example_legacy_engine
     spec_example_env spec_example_round spec_example_sampling (\<lambda>fed. spec_example_row (3 + length fed))
     spec_example_session 1 10 2 17 7 = ((s', SpecAccepted [0, 2]), rng')
   \<and> ss_checkpoint s' = [1, 0, 2, 1, 0, 2]"
proof -
  obtain s' rng' where r: "ds4_session_eval_speculative_sample_combined spec_example_model spec_example_legacy_engine
      spec_example_env spec_example_round spec_example_sampling (\<lambda>fed. spec_example_row (3 + length fed))
      spec_example_session 1 10 2 17 7 = ((s', SpecAccepted [0, 2]), rng')"
    using spec_example_sampled by (metis prod.collapse)
  from sampled_round_omits_first_token[OF r] show ?thesis
    using r by (auto simp: spec_example_session_def)
qed

end
