(* ===== verification/Ssd.thy ===== *)
theory Ssd
  imports Prelude
begin

text \<open>
  The sizes of the SSD streaming cache (\<open>ds4_ssd.c\<close>): the command line arguments and the plan of
  the expert cache, on 64-bit words as the code computes them.  Strings are NUL-free; a missing
  string is the empty one.  The memory lock is system calls and is not modelled.
\<close>

section \<open>Arguments\<close>

definition DS4_GIB :: u64 where
  "DS4_GIB = 1024 * 1024 * 1024"

definition UINT32_MAX :: u32 where
  "UINT32_MAX = 0xffffffff"

definition digits_value :: "string \<Rightarrow> nat" where
  "digits_value s = foldl (\<lambda>v c. 10 * v + (byte c - 48)) 0 s"

definition has_gib_suffix :: "string \<Rightarrow> bool" where
  "has_gib_suffix s \<longleftrightarrow>
     length s > 2 \<and> s ! (length s - 2) \<in> {CHR ''g'', CHR ''G''} \<and> last s \<in> {CHR ''b'', CHR ''B''}"

text \<open>\<open>strtoull\<close> and \<open>strtoul\<close> on a string of digits; an overflow sets \<open>errno\<close>.\<close>

definition strtoull_digits :: "string \<Rightarrow> u64 option" where
  "strtoull_digits s = (if digits_value s < 2 ^ 64 then Some (of_nat (digits_value s)) else None)"

definition ds4_parse_gib_arg :: "string \<Rightarrow> u64 option" where
  "ds4_parse_gib_arg s =
     (if s = [] then None
      else
        (let len = (if has_gib_suffix s then length s - 2 else length s); digits = take len s in
         if len = 0 \<or> \<not> list_all isdigit digits then None
         else if len \<ge> 32 then None
         else
           (case strtoull_digits digits of
              None \<Rightarrow> None
            | Some v \<Rightarrow> if v = 0 \<or> v > (- 1) div DS4_GIB then None else Some (v * DS4_GIB))))"

datatype cache_arg = CacheExperts u32 | CacheBytes u64

definition ds4_parse_streaming_cache_experts_arg :: "string \<Rightarrow> cache_arg option" where
  "ds4_parse_streaming_cache_experts_arg s =
     (if s = [] then None
      else if has_gib_suffix s then map_option CacheBytes (ds4_parse_gib_arg s)
      else if \<not> list_all isdigit s then None
      else
        (case strtoull_digits s of
           None \<Rightarrow> None
         | Some v \<Rightarrow> if v = 0 \<or> unat v > unat UINT32_MAX then None else Some (CacheExperts (ucast v))))"

section \<open>The cache plan\<close>

record ds4_ssd_cache_plan =
  model_target_bytes :: u64
  cache_bytes :: u64
  effective_cache_bytes :: u64
  cache_experts :: u32

definition ds4_ssd_cache_experts_for_byte_budget :: "u64 \<Rightarrow> u64 \<Rightarrow> u32" where
  "ds4_ssd_cache_experts_for_byte_budget bytes per_expert_bytes =
     (if bytes = 0 \<or> per_expert_bytes = 0 then 0
      else
        (let experts = bytes div per_expert_bytes in
         if experts = 0 \<or> unat experts > unat UINT32_MAX then 0 else ucast experts))"

definition ds4_ssd_auto_cache_plan ::
  "u64 \<Rightarrow> u64 \<Rightarrow> u64 \<Rightarrow> u64 \<Rightarrow> ds4_ssd_cache_plan option" where
  "ds4_ssd_auto_cache_plan recommended_bytes non_routed_bytes per_expert_bytes max_model_experts =
     (if recommended_bytes = 0 \<or> per_expert_bytes = 0 then None
      else
        (let target = (if recommended_bytes > (- 1) div 4 then - 1 else recommended_bytes * 4 div 5);
             bytes = (if target > non_routed_bytes then target - non_routed_bytes else 0);
             experts = bytes div per_expert_bytes;
             experts = (if experts = 0 then 1 else experts);
             experts = (if max_model_experts \<noteq> 0 \<and> experts > max_model_experts then max_model_experts
                        else experts);
             experts = (if unat experts > unat UINT32_MAX then ucast UINT32_MAX else experts) in
         if (ucast experts :: u32) = 0 then None
         else
           Some \<lparr>model_target_bytes = target, cache_bytes = bytes,
                 effective_cache_bytes = experts * per_expert_bytes, cache_experts = ucast experts\<rparr>))"

section \<open>Correctness\<close>

lemma isdigit_chr: "n < 10 \<Longrightarrow> isdigit (chr (48 + n))"
  by (simp add: isdigit_def)

lemma dec_str_digits: "list_all isdigit (dec_str n) \<and> digits_value (dec_str n) = n"
proof (induction n rule: dec_str.induct)
  case (1 n)
  show ?case
  proof (cases "n < 10")
    case True
    then show ?thesis by (simp add: dec_str.simps[of n] isdigit_chr digits_value_def)
  next
    case False
    then show ?thesis using 1 by (simp add: dec_str.simps[of n] isdigit_chr digits_value_def)
  qed
qed

lemma dec_str_length: "n < 10 ^ k \<Longrightarrow> 0 < k \<Longrightarrow> length (dec_str n) \<le> k"
proof (induction n arbitrary: k rule: dec_str.induct)
  case (1 n)
  show ?case
  proof (cases "n < 10")
    case True
    then show ?thesis using 1(3) by (simp add: dec_str.simps[of n])
  next
    case False
    obtain k' where k1: "k = Suc k'" using 1(3) by (cases k) auto
    then have "0 < k'" using 1(2) False by (cases k') auto
    note k = k1 this
    then have "n div 10 < 10 ^ k'" using 1(2) by (simp add: less_mult_imp_div_less mult.commute)
    then show ?thesis using 1(1)[of k'] False k by (simp add: dec_str.simps[of n])
  qed
qed

text \<open>A size written in GiB, with or without its unit, is read back in bytes; zero and sizes that do
  not fit 64 bits are refused.\<close>

theorem parse_gib_roundtrip:
  assumes "n < 2 ^ 64" "unit \<in> {'''', ''GB'', ''gb''}"
  shows "ds4_parse_gib_arg (dec_str n @ unit) =
    (if 0 < n \<and> n * 2 ^ 30 < 2 ^ 64 then Some (of_nat (n * 2 ^ 30)) else None)"
proof -
  note d = dec_str_digits[of n]
  have last: "isdigit (last (dec_str n))" using d by (metis dec_str_nonempty last_in_set list_all_iff)
  have len: "length (dec_str n) \<le> 20" by (rule dec_str_length) (use assms(1) in auto)
  have nosuf: "\<not> has_gib_suffix (dec_str n)"
    using last by (auto simp: has_gib_suffix_def isdigit_def byte_def)
  have dig: "(if has_gib_suffix (dec_str n @ unit) then length (dec_str n @ unit) - 2 else length (dec_str n @ unit))
      = length (dec_str n)"
    using assms(2) nosuf by (auto simp: has_gib_suffix_def nth_append)
  have v: "strtoull_digits (dec_str n) = Some (of_nat n)" using d assms(1) by (simp add: strtoull_digits_def)
  have u: "unat (of_nat n :: u64) = n" using assms(1) by (simp add: unat_of_nat)
  have q: "unat ((- 1 :: u64) div DS4_GIB) = 2 ^ 34 - 1" by (simp add: unat_div DS4_GIB_def)
  have z: "(of_nat n = (0 :: u64)) = (n = 0)" using unat_eq_zero[of "of_nat n :: u64", unfolded u] by blast
  have g: "(of_nat n > (- 1 :: u64) div DS4_GIB) = (n \<ge> 2 ^ 34)"
    unfolding word_less_nat_alt q u by simp linarith
  have "(of_nat n :: u64) * DS4_GIB = of_nat (n * 2 ^ 30)" by (simp add: DS4_GIB_def)
  moreover have "(n * 2 ^ 30 < (2 :: nat) ^ 64) = (n < 2 ^ 34)" by simp
  ultimately show ?thesis
    using d len unfolding ds4_parse_gib_arg_def Let_def dig
    by (simp add: v z g not_less)
qed

text \<open>The plan never wraps around: four fifths of the recommended memory, less the resident weights,
  filled with whole experts, at least one and at most what the model has.\<close>

theorem auto_cache_plan_exact:
  assumes "ds4_ssd_auto_cache_plan recommended non_routed per_expert max_experts = Some p"
  shows "unat (effective_cache_bytes p) = unat (cache_experts p) * unat per_expert
    \<and> unat (cache_bytes p) = unat (model_target_bytes p) - unat non_routed
    \<and> (unat recommended < 2 ^ 62 \<longrightarrow> unat (model_target_bytes p) = 4 * unat recommended div 5)
    \<and> 0 < unat (cache_experts p)
    \<and> (max_experts \<noteq> 0 \<longrightarrow> unat (cache_experts p) \<le> unat max_experts)
    \<and> (unat (effective_cache_bytes p) \<le> unat (cache_bytes p) \<or> unat (cache_experts p) = 1)"
proof -
  define target where "target = (if recommended > (- 1) div 4 then - 1 else recommended * 4 div 5)"
  define bytes where "bytes = (if target > non_routed then target - non_routed else 0)"
  define e1 where "e1 = (if bytes div per_expert = 0 then 1 else bytes div per_expert)"
  define e2 where "e2 = (if max_experts \<noteq> 0 \<and> e1 > max_experts then max_experts else e1)"
  define e3 where "e3 = (if unat e2 > unat UINT32_MAX then ucast UINT32_MAX else e2)"
  have nz: "recommended \<noteq> 0" "per_expert \<noteq> 0" "(ucast e3 :: u32) \<noteq> 0"
    and p: "p = \<lparr>model_target_bytes = target, cache_bytes = bytes,
      effective_cache_bytes = e3 * per_expert, cache_experts = ucast e3\<rparr>"
    using assms unfolding ds4_ssd_auto_cache_plan_def Let_def target_def[symmetric] bytes_def[symmetric]
      e1_def[symmetric] e2_def[symmetric] e3_def[symmetric]
    by (auto split: if_splits)
  have max32: "unat UINT32_MAX = 2 ^ 32 - 1" "unat (ucast UINT32_MAX :: u64) = 2 ^ 32 - 1"
    by (simp_all add: UINT32_MAX_def unsigned_ucast_eq)
  have e3: "unat e3 = min (unat e2) (2 ^ 32 - 1)"
    unfolding e3_def using max32 by (auto simp: min_def)
  then have small: "unat e3 < 2 ^ 32" by simp
  have cast: "unat (ucast e3 :: u32) = unat e3" using small by (simp add: unsigned_ucast_eq take_bit_nat_eq_self)
  have pe: "0 < unat per_expert" using nz(2) by (simp add: unat_gt_0)
  have bytes: "unat bytes = unat target - unat non_routed"
    by (auto simp: bytes_def unat_sub word_le_nat_alt word_less_nat_alt)
  have tgt: "unat target = 4 * unat recommended div 5" if "unat recommended < 2 ^ 62"
  proof -
    have q: "unat ((- 1 :: u64) div 4) = 2 ^ 62 - 1" by (simp add: unat_div)
    then have "\<not> recommended > (- 1) div 4" using that by (simp add: word_less_nat_alt)
    moreover have "unat (recommended * 4) = unat recommended * 4"
      using that by (subst unat_mult_lem[THEN iffD1]) simp_all
    ultimately show ?thesis by (simp add: target_def unat_div mult.commute)
  qed
  have e1: "unat e1 = max 1 (unat bytes div unat per_expert)"
    by (auto simp: e1_def unat_div max_def word_unat_eq_iff)
  have e2: "unat e2 = (if max_experts \<noteq> 0 \<and> unat e1 > unat max_experts then unat max_experts else unat e1)"
    by (simp add: e2_def word_less_nat_alt)
  have pos: "0 < unat e3" using nz(3) cast by (metis gr0I unat_eq_zero)
  have le1: "unat e3 \<le> unat e1" unfolding e3 e2 by auto
  have fit: "unat e3 * unat per_expert \<le> unat bytes \<or> unat e3 = 1"
  proof (cases "unat bytes div unat per_expert = 0")
    case True
    then show ?thesis using le1 pos e1 by simp
  next
    case False
    then have "unat e3 \<le> unat bytes div unat per_expert" using le1 e1 by simp
    then have "unat e3 * unat per_expert \<le> unat bytes"
      using pe by (simp add: less_eq_div_iff_mult_less_eq)
    then show ?thesis ..
  qed
  have eff: "unat (e3 * per_expert) = unat e3 * unat per_expert"
  proof -
    have "unat e3 * unat per_expert < 2 ^ 64"
      using fit unsigned_less[of bytes, where 'a = nat] unsigned_less[of per_expert, where 'a = nat] by auto
    then show ?thesis by (subst unat_mult_lem[THEN iffD1]) simp_all
  qed
  have "max_experts \<noteq> 0 \<longrightarrow> unat e3 \<le> unat max_experts" unfolding e3 e2 by auto
  then show ?thesis
    using fit eff bytes tgt pos cast by (simp add: p)
qed

theorem parse_gib_roundtrip_witness:
  "ds4_parse_gib_arg (dec_str 48 @ ''GB'') = Some (of_nat (48 * 2 ^ 30))"
  using parse_gib_roundtrip[of 48 "''GB''"] by simp

theorem auto_cache_plan_exact_witness:
  "\<exists>p. ds4_ssd_auto_cache_plan 100 20 7 0 = Some p
    \<and> unat (effective_cache_bytes p) = unat (cache_experts p) * 7 \<and> unat (cache_bytes p) = 60"
proof -
  obtain p where p: "ds4_ssd_auto_cache_plan 100 20 7 0 = Some p"
    by (simp add: ds4_ssd_auto_cache_plan_def Let_def UINT32_MAX_def word_less_nat_alt unat_div)
  have "(100 :: u64) \<le> (- 1) div 4" by simp
  show ?thesis using auto_cache_plan_exact[OF p] p by simp
qed

end
