(* ===== verification/TokenTable.thy ===== *)
theory TokenTable
  imports Prelude
begin

unbundle bit_operations_syntax

text \<open>
  The string tables of the tokenizer in \<open>ds4.c\<close> (\<open>str_i32_table\<close>, lines 23377 to 23442): open
  addressing with linear probing over a power of two of slots, hashed with 64-bit FNV-1a.

  A probe of a table without a free slot would go round forever; the probe loops here have one
  step per slot as fuel and give \<open>None\<close> behind it.  The tables the program builds keep at least
  half of their slots free, so that this never happens (\<open>loaded_table\<close>).
\<close>

section \<open>The table\<close>

definition hash_bytes :: "string \<Rightarrow> u64" where
  "hash_bytes s = foldl (\<lambda>h c. (h XOR of_nat (byte c)) * 1099511628211) 1469598103934665603 s"

record str_i32_entry =
  te_key :: string
  te_value :: int
  te_used :: bool

record str_i32_table =
  tb_entry :: "str_i32_entry list"
  tb_cap :: u64
  tb_used :: u64

text \<open>Doubling may run past the top bit, and then the loop never ends: \<open>None\<close>.\<close>

fun next_pow2_loop :: "nat \<Rightarrow> u64 \<Rightarrow> u64 \<Rightarrow> u64 option" where
  "next_pow2_loop 0 p n = None"
| "next_pow2_loop (Suc fuel) p n = (if p < n then next_pow2_loop fuel (push_bit 1 p) n else Some p)"

definition next_pow2 :: "u64 \<Rightarrow> u64 option" where
  "next_pow2 n = next_pow2_loop 64 1 n"

definition empty_entry :: str_i32_entry where
  "empty_entry = \<lparr>te_key = [], te_value = 0, te_used = False\<rparr>"

definition table_init :: "u64 \<Rightarrow> str_i32_table option" where
  "table_init expected =
     map_option (\<lambda>cap. \<lparr>tb_entry = replicate (unat cap) empty_entry, tb_cap = cap, tb_used = 0\<rparr>)
       (next_pow2 (expected * 2 + 16))"

fun table_put_loop ::
  "nat \<Rightarrow> u64 \<Rightarrow> string \<Rightarrow> int \<Rightarrow> u64 \<Rightarrow> str_i32_table \<Rightarrow> str_i32_table option" where
  "table_put_loop 0 msk key value i t = None"
| "table_put_loop (Suc fuel) msk key value i t =
     (let e = tb_entry t ! unat i in
      if te_used e then
        (if te_key e = key then
           Some (t\<lparr>tb_entry := (tb_entry t)[unat i := e\<lparr>te_value := value\<rparr>]\<rparr>)
         else table_put_loop fuel msk key value ((i + 1) AND msk) t)
      else
        Some (t\<lparr>tb_entry := (tb_entry t)[unat i := \<lparr>te_key = key, te_value = value, te_used = True\<rparr>],
                tb_used := tb_used t + 1\<rparr>))"

definition table_put :: "string \<Rightarrow> int \<Rightarrow> str_i32_table \<Rightarrow> str_i32_table option" where
  "table_put key value t =
     (let msk = tb_cap t - 1 in
      table_put_loop (unat (tb_cap t)) msk key value (hash_bytes key AND msk) t)"

fun table_get_loop ::
  "nat \<Rightarrow> str_i32_entry list \<Rightarrow> u64 \<Rightarrow> string \<Rightarrow> u64 \<Rightarrow> int option option" where
  "table_get_loop 0 es msk s i = None"
| "table_get_loop (Suc fuel) es msk s i =
     (let e = es ! unat i in
      if te_used e then
        (if te_key e = s then Some (Some (te_value e))
         else table_get_loop fuel es msk s ((i + 1) AND msk))
      else Some None)"

definition table_get :: "str_i32_table \<Rightarrow> string \<Rightarrow> int option option" where
  "table_get t s =
     (if tb_cap t = 0 then Some None
      else
        (let msk = tb_cap t - 1 in
         table_get_loop (unat (tb_cap t)) (tb_entry t) msk s (hash_bytes s AND msk)))"

section \<open>Probing\<close>

text \<open>The slots of a probe sequence, as numbers: the home slot of a key and the next ones, cyclically.\<close>

definition home :: "str_i32_table \<Rightarrow> string \<Rightarrow> nat" where
  "home t s = unat (hash_bytes s) mod length (tb_entry t)"

definition stops_at :: "str_i32_entry list \<Rightarrow> string \<Rightarrow> nat \<Rightarrow> bool" where
  "stops_at es s i \<longleftrightarrow> \<not> te_used (es ! i) \<or> te_key (es ! i) = s"

definition table_count :: "str_i32_table \<Rightarrow> nat" where
  "table_count t = length (filter te_used (tb_entry t))"

definition on_path :: "str_i32_entry list \<Rightarrow> nat \<Rightarrow> nat \<Rightarrow> bool" where
  "on_path es h j \<longleftrightarrow> (\<exists>d. j = (h + d) mod length es \<and> (\<forall>d'<d. te_used (es ! ((h + d') mod length es))))"

definition table_ok :: "str_i32_table \<Rightarrow> bool" where
  "table_ok t \<longleftrightarrow>
     (\<exists>k<64. unat (tb_cap t) = 2 ^ k) \<and> length (tb_entry t) = unat (tb_cap t)
     \<and> (\<forall>j<length (tb_entry t). te_used (tb_entry t ! j) \<longrightarrow>
          on_path (tb_entry t) (home t (te_key (tb_entry t ! j))) j)
     \<and> (\<forall>i<length (tb_entry t). \<forall>j<length (tb_entry t).
          te_used (tb_entry t ! i) \<and> te_used (tb_entry t ! j)
          \<and> te_key (tb_entry t ! i) = te_key (tb_entry t ! j) \<longrightarrow> i = j)"

definition table_abs :: "str_i32_table \<Rightarrow> string \<Rightarrow> int option" where
  "table_abs t = map_of (map (\<lambda>e. (te_key e, te_value e)) (filter te_used (tb_entry t)))"

lemma cap_power:
  assumes "unat (cap :: u64) = 2 ^ k"
  shows "k < 64" "cap = 2 ^ k"
proof -
  show "k < 64"
  proof (rule ccontr)
    assume "\<not> k < 64"
    then have "(2 :: nat) ^ 64 \<le> 2 ^ k" by (intro power_increasing) auto
    then show False using assms unsigned_less[of cap, where 'a = nat] by simp
  qed
  have "of_nat (unat cap) = cap" by simp
  then show "cap = 2 ^ k" unfolding assms by simp
qed

lemma mask_mod:
  assumes "unat cap = 2 ^ k"
  shows "unat (x AND (cap - 1)) = unat x mod unat (cap :: u64)"
proof -
  have "cap = 2 ^ k" by (rule cap_power[OF assms])
  then have "cap - 1 = mask k" by (simp add: mask_eq_decr_exp)
  then have "unat (x AND (cap - 1)) = unat (take_bit k x)" by (simp add: take_bit_eq_mask)
  also have "\<dots> = take_bit k (unat x)" by (simp add: unsigned_take_bit_eq)
  finally show ?thesis using assms by (simp add: take_bit_eq_mod)
qed

lemma step_mod:
  assumes "unat cap = 2 ^ k" "unat i = a mod unat (cap :: u64)"
  shows "unat ((i + 1) AND (cap - 1)) = (a + 1) mod unat cap"
proof -
  have "unat ((i + 1) AND (cap - 1)) = unat (i + 1) mod unat cap" by (rule mask_mod[OF assms(1)])
  also have "\<dots> = (unat i + 1) mod unat cap"
  proof (cases "unat i + 1 < 2 ^ 64")
    case True
    then have "unat (i + 1) = unat i + 1" by (simp add: unat_word_ariths)
    then show ?thesis by simp
  next
    case False
    have u: "unat i < 2 ^ 64" using unsigned_less[of i, where 'a = nat] by simp
    have dv: "unat cap dvd 2 ^ 64"
      unfolding assms(1) using cap_power(1)[OF assms(1)] by (intro le_imp_power_dvd) simp
    have "unat i + 1 = 2 ^ 64" using False u by simp
    moreover have "unat (i + 1) = (unat i + 1) mod 2 ^ 64" by (simp add: unat_word_ariths)
    ultimately show ?thesis using dv by simp
  qed
  also have "\<dots> = (a + 1) mod unat cap" using assms(2) by (simp add: mod_Suc_eq)
  finally show ?thesis .
qed

lemma get_loop_stop:
  assumes "unat cap = 2 ^ k" "length es = unat (cap :: u64)" "stops_at es s ((h + d) mod unat cap)"
    and "\<forall>d'<d. \<not> stops_at es s ((h + d') mod unat cap)"
    and "unat i = (h + d0) mod unat cap" "d0 \<le> d" "d - d0 < fuel"
  shows "table_get_loop fuel es (cap - 1) s i =
    (let e = es ! ((h + d) mod unat cap) in Some (if te_used e then Some (te_value e) else None))"
  using assms(5-)
proof (induction fuel arbitrary: d0 i)
  case (Suc fuel)
  show ?case
  proof (cases "d0 = d")
    case True
    then show ?thesis using Suc.prems(1) assms(3) by (auto simp: stops_at_def Let_def)
  next
    case False
    then have "\<not> stops_at es s ((h + d0) mod unat cap)" using assms(4) Suc.prems(2) by simp
    then have "table_get_loop (Suc fuel) es (cap - 1) s i = table_get_loop fuel es (cap - 1) s ((i + 1) AND (cap - 1))"
      using Suc.prems(1) by (auto simp: stops_at_def Let_def)
    moreover have "unat ((i + 1) AND (cap - 1)) = (h + Suc d0) mod unat cap"
      using step_mod[OF assms(1) Suc.prems(1)] by simp
    ultimately show ?thesis using Suc.IH[of "(i + 1) AND (cap - 1)" "Suc d0"] False Suc.prems(2,3) by simp
  qed
qed simp

lemma put_loop_stop:
  assumes "unat cap = 2 ^ k" "length (tb_entry t) = unat (cap :: u64)"
    and "stops_at (tb_entry t) s ((h + d) mod unat cap)"
    and "\<forall>d'<d. \<not> stops_at (tb_entry t) s ((h + d') mod unat cap)"
    and "unat i = (h + d0) mod unat cap" "d0 \<le> d" "d - d0 < fuel"
  shows "table_put_loop fuel (cap - 1) s v i t =
    (let j = (h + d) mod unat cap; e = tb_entry t ! j in
     Some (if te_used e then t\<lparr>tb_entry := (tb_entry t)[j := e\<lparr>te_value := v\<rparr>]\<rparr>
           else t\<lparr>tb_entry := (tb_entry t)[j := \<lparr>te_key = s, te_value = v, te_used = True\<rparr>],
                  tb_used := tb_used t + 1\<rparr>))"
  using assms(5-)
proof (induction fuel arbitrary: d0 i)
  case (Suc fuel)
  show ?case
  proof (cases "d0 = d")
    case True
    then show ?thesis using Suc.prems(1) assms(3) by (auto simp: stops_at_def Let_def)
  next
    case False
    then have "\<not> stops_at (tb_entry t) s ((h + d0) mod unat cap)" using assms(4) Suc.prems(2) by simp
    then have "table_put_loop (Suc fuel) (cap - 1) s v i t = table_put_loop fuel (cap - 1) s v ((i + 1) AND (cap - 1)) t"
      using Suc.prems(1) by (auto simp: stops_at_def Let_def)
    moreover have "unat ((i + 1) AND (cap - 1)) = (h + Suc d0) mod unat cap"
      using step_mod[OF assms(1) Suc.prems(1)] by simp
    ultimately show ?thesis using Suc.IH[of "(i + 1) AND (cap - 1)" "Suc d0"] False Suc.prems(2,3) by simp
  qed
qed simp

lemma slot_reached:
  fixes h j n :: nat
  assumes "j < n"
  shows "\<exists>d<n. (h + d) mod n = j"
proof (intro exI conjI)
  let ?d = "(j + n - h mod n) mod n"
  show "?d < n" using assms by simp
  have "h mod n < n" using assms by simp
  have "(h + ?d) mod n = (h mod n + (j + n - h mod n)) mod n" by (simp add: mod_simps)
  also have "\<dots> = (j + n) mod n" using \<open>h mod n < n\<close> by simp
  finally show "(h + ?d) mod n = j" using assms by simp
qed

text \<open>The first stop of a probe: some slot is free, so it is met within one round.\<close>

lemma first_stop:
  assumes "j < length es" "\<not> te_used (es ! j)"
  obtains d where "d < length es" "stops_at es s ((h + d) mod length es)"
    "\<forall>d'<d. \<not> stops_at es s ((h + d') mod length es)"
proof -
  let ?P = "\<lambda>d. stops_at es s ((h + d) mod length es)"
  obtain d0 where d0: "d0 < length es" "(h + d0) mod length es = j" using slot_reached[OF assms(1)] by blast
  then have "?P d0" using assms(2) by (simp add: stops_at_def)
  then have "?P (LEAST d. ?P d)" "(LEAST d. ?P d) \<le> d0" by (rule LeastI, rule Least_le)
  moreover have "\<forall>d'<(LEAST d. ?P d). \<not> ?P d'" using not_less_Least by blast
  ultimately show ?thesis using that d0(1) by (meson le_less_trans)
qed

lemma free_slot:
  assumes "table_count t < length (tb_entry t)"
  obtains j where "j < length (tb_entry t)" "\<not> te_used (tb_entry t ! j)"
proof -
  have "filter te_used (tb_entry t) \<noteq> tb_entry t" using assms by (auto simp: table_count_def)
  then obtain e where "e \<in> set (tb_entry t)" "\<not> te_used e" by (meson filter_True)
  then show ?thesis using that by (auto simp: in_set_conv_nth)
qed

text \<open>Where a probe stops, the key is there or nowhere.\<close>

lemma stop_is_key:
  assumes "table_ok t" "d < length (tb_entry t)"
    and "stops_at (tb_entry t) s ((home t s + d) mod length (tb_entry t))"
    and "\<forall>d'<d. \<not> stops_at (tb_entry t) s ((home t s + d') mod length (tb_entry t))"
    and "j < length (tb_entry t)" "te_used (tb_entry t ! j)" "te_key (tb_entry t ! j) = s"
  shows "j = (home t s + d) mod length (tb_entry t)"
proof -
  let ?es = "tb_entry t" and ?h = "home t s"
  have "on_path ?es ?h j" using assms(1,5,6,7) by (auto simp: table_ok_def)
  then obtain dj where dj: "j = (?h + dj) mod length ?es" "\<forall>d'<dj. te_used (?es ! ((?h + d') mod length ?es))"
    by (auto simp: on_path_def)
  have "\<not> dj < d" using assms(4,7) dj(1) by (auto simp: stops_at_def)
  moreover have "te_key (?es ! ((?h + d) mod length ?es)) = s" if "d < dj"
    using dj(2) that assms(3) by (auto simp: stops_at_def)
  moreover have "te_used (?es ! ((?h + d) mod length ?es))" if "d < dj" using dj(2) that by blast
  ultimately have "te_used (?es ! ((?h + d) mod length ?es))" "te_key (?es ! ((?h + d) mod length ?es)) = s"
    if "d < dj" using that by blast+
  moreover have "(?h + d) mod length ?es < length ?es" by (rule mod_less_divisor) (use assms(5) in linarith)
  ultimately have "(?h + d) mod length ?es = j" if "d < dj"
    using that assms(1,5-7) unfolding table_ok_def by blast
  then show ?thesis using \<open>\<not> dj < d\<close> dj(1) by (cases "d = dj") auto
qed

lemma table_ok_unique:
  assumes "table_ok t" "te_key (tb_entry t ! i) = te_key (tb_entry t ! j)"
    and "i < length (tb_entry t)" "j < length (tb_entry t)" "te_used (tb_entry t ! i)" "te_used (tb_entry t ! j)"
  shows "i = j"
  using assms unfolding table_ok_def by blast

lemma table_okI:
  assumes "table_ok t" "tb_cap t' = tb_cap t" "length (tb_entry t') = length (tb_entry t)"
    and "\<And>j. j < length (tb_entry t) \<Longrightarrow> te_used (tb_entry t' ! j)
      \<Longrightarrow> on_path (tb_entry t') (home t (te_key (tb_entry t' ! j))) j"
    and "\<And>i j. i < length (tb_entry t) \<Longrightarrow> j < length (tb_entry t) \<Longrightarrow> te_used (tb_entry t' ! i)
      \<Longrightarrow> te_used (tb_entry t' ! j) \<Longrightarrow> te_key (tb_entry t' ! i) = te_key (tb_entry t' ! j) \<Longrightarrow> i = j"
  shows "table_ok t'"
proof -
  have h: "home t' = home t" using assms(3) by (simp add: home_def fun_eq_iff)
  show ?thesis unfolding table_ok_def h assms(2,3)
    using assms(1,4,5) by (auto simp: table_ok_def)
qed

section \<open>Refinement of a map\<close>

lemma table_abs_Some:
  assumes "table_ok t" "j < length (tb_entry t)" "te_used (tb_entry t ! j)"
  shows "table_abs t (te_key (tb_entry t ! j)) = Some (te_value (tb_entry t ! j))"
proof -
  let ?es = "tb_entry t" and ?e = "tb_entry t ! j"
  have "?e \<in> set (filter te_used ?es)" using assms(2,3) by simp
  then have "table_abs t (te_key ?e) \<noteq> None" unfolding table_abs_def map_of_eq_None_iff by force
  then obtain v where v: "table_abs t (te_key ?e) = Some v" by blast
  from map_of_SomeD[OF this[unfolded table_abs_def]]
  obtain e where e: "e \<in> set ?es" "te_used e" "te_key e = te_key ?e" "te_value e = v" by auto
  then obtain i where i: "i < length ?es" "?es ! i = e" by (meson in_set_conv_nth)
  then have "i = j" using table_ok_unique[OF assms(1) _ i(1) assms(2) _ assms(3)] e(2,3) by blast
  then have "te_value ?e = v" using i(2) e(4) by blast
  then show ?thesis using v by (simp only:)
qed

lemma home_slot:
  assumes "table_ok t"
  shows "unat (hash_bytes s AND (tb_cap t - 1)) = home t s mod unat (tb_cap t)"
    and "home t s < length (tb_entry t)"
proof -
  obtain k where k: "unat (tb_cap t) = 2 ^ k" "length (tb_entry t) = unat (tb_cap t)"
    using assms by (auto simp: table_ok_def)
  show "unat (hash_bytes s AND (tb_cap t - 1)) = home t s mod unat (tb_cap t)"
    unfolding mask_mod[OF k(1)] home_def k(2) by simp
  show "home t s < length (tb_entry t)" using k by (simp add: home_def)
qed

lemma table_abs_None:
  assumes "\<And>j. j < length (tb_entry t) \<Longrightarrow> te_used (tb_entry t ! j) \<Longrightarrow> te_key (tb_entry t ! j) \<noteq> s"
  shows "table_abs t s = None"
  unfolding table_abs_def map_of_eq_None_iff
proof
  assume "s \<in> fst ` set (map (\<lambda>e. (te_key e, te_value e)) (filter te_used (tb_entry t)))"
  then obtain e where "e \<in> set (tb_entry t)" "te_used e" "te_key e = s" by auto
  then show False using assms by (auto simp: in_set_conv_nth)
qed

lemma table_get_correct:
  assumes "table_ok t" "table_count t < length (tb_entry t)"
  shows "table_get t s = Some (table_abs t s)"
proof -
  let ?es = "tb_entry t" and ?h = "home t s"
  obtain k where k: "unat (tb_cap t) = 2 ^ k" "length ?es = unat (tb_cap t)" using assms(1) by (auto simp: table_ok_def)
  obtain j where "j < length ?es" "\<not> te_used (?es ! j)" using free_slot[OF assms(2)] by blast
  then obtain d where d: "d < length ?es" "stops_at ?es s ((?h + d) mod length ?es)"
      "\<forall>d'<d. \<not> stops_at ?es s ((?h + d') mod length ?es)"
    using first_stop[where h = ?h and s = s] by blast
  let ?i = "(?h + d) mod length ?es"
  have "tb_cap t \<noteq> 0" using k by auto
  then have "table_get t s = Some (if te_used (?es ! ?i) then Some (te_value (?es ! ?i)) else None)"
    using get_loop_stop[OF k d(2,3)[unfolded k(2)], of "hash_bytes s AND (tb_cap t - 1)" 0 "unat (tb_cap t)"]
      home_slot(1)[OF assms(1)] d(1) k(2)
    by (simp add: table_get_def Let_def)
  moreover have i: "?i < length ?es" by (rule mod_less_divisor) (use d(1) in linarith)
  moreover have "table_abs t s = Some (te_value (?es ! ?i))" if "te_used (?es ! ?i)"
    using table_abs_Some[OF assms(1) i that] d(2) that by (simp add: stops_at_def)
  moreover have "table_abs t s = None" if "\<not> te_used (?es ! ?i)"
    using stop_is_key[OF assms(1) d] that by (metis table_abs_None)
  ultimately show ?thesis by simp
qed

lemma length_filter_update: "length (filter P (xs[i := x])) \<le> Suc (length (filter P xs))"
proof (induction xs arbitrary: i)
  case (Cons y ys)
  show ?case
  proof (cases i)
    case (Suc n)
    then show ?thesis using Cons[of n] by auto
  qed auto
qed simp

text \<open>Overwriting a used slot keeps keys and use; filling the free stop extends the path.\<close>

lemma table_ok_overwrite:
  assumes "table_ok t" "i < length (tb_entry t)"
  shows "table_ok (t\<lparr>tb_entry := (tb_entry t)[i := (tb_entry t ! i)\<lparr>te_value := v\<rparr>]\<rparr>)"
proof -
  let ?es = "(tb_entry t)[i := (tb_entry t ! i)\<lparr>te_value := v\<rparr>]"
  have same: "te_used (?es ! j) = te_used (tb_entry t ! j)" "te_key (?es ! j) = te_key (tb_entry t ! j)" for j
    using assms(2) by (cases "j = i"; simp)+
  have path: "on_path ?es h j = on_path (tb_entry t) h j" for h j by (simp add: on_path_def same)
  show ?thesis
  proof (rule table_okI[OF assms(1)]; simp add: same path)
    fix j assume "j < length (tb_entry t)" "te_used (tb_entry t ! j)"
    then show "on_path (tb_entry t) (home t (te_key (tb_entry t ! j))) j" using assms(1) by (simp add: table_ok_def)
  qed (use table_ok_unique[OF assms(1)] in blast)
qed

lemma table_ok_fill:
  assumes "table_ok t" "d < length (tb_entry t)" "i = (home t s + d) mod length (tb_entry t)"
    and "\<forall>d'<d. \<not> stops_at (tb_entry t) s ((home t s + d') mod length (tb_entry t))"
    and "\<not> te_used (tb_entry t ! i)"
  shows "table_ok (t\<lparr>tb_entry := (tb_entry t)[i := \<lparr>te_key = s, te_value = v, te_used = True\<rparr>], tb_used := u\<rparr>)"
proof -
  let ?es = "tb_entry t" and ?fs = "(tb_entry t)[i := \<lparr>te_key = s, te_value = v, te_used = True\<rparr>]"
  have i: "i < length ?es" unfolding assms(3) by (rule mod_less_divisor) (use assms(2) in linarith)
  have st: "stops_at ?es s i" using assms(5) by (simp add: stops_at_def)
  have grow: "te_used (?es ! j) \<Longrightarrow> te_used (?fs ! j)" for j using i by (cases "j = i") simp_all
  have other: "j \<noteq> i \<Longrightarrow> ?fs ! j = ?es ! j" for j by simp
  have new: "?fs ! i = \<lparr>te_key = s, te_value = v, te_used = True\<rparr>" using i by simp
  have path: "on_path ?es h j \<Longrightarrow> on_path ?fs h j" for h j using grow by (auto simp: on_path_def)
  have mine: "on_path ?fs (home t s) i"
    using assms(3,4) grow by (auto simp: on_path_def stops_at_def)
  have nokey: "te_key (?es ! j) \<noteq> s" if "j < length ?es" "te_used (?es ! j)" for j
    using stop_is_key[OF assms(1,2) _ assms(4) that] st assms(3,5) that by auto
  have "on_path ?fs (home t (te_key (?fs ! j))) j" if "j < length ?es" "te_used (?fs ! j)" for j
    using that assms(1) mine path new other by (cases "j = i") (auto simp: table_ok_def)
  moreover have "a = b" if "a < length ?es" "b < length ?es" "te_used (?fs ! a)" "te_used (?fs ! b)"
    "te_key (?fs ! a) = te_key (?fs ! b)" for a b
  proof (cases "a = i \<or> b = i")
    case True
    then show ?thesis using that nokey other new by (metis str_i32_entry.select_convs(1))
  next
    case False
    then show ?thesis using that other table_ok_unique[OF assms(1)] by simp
  qed
  ultimately show ?thesis by (intro table_okI[OF assms(1)]) simp_all
qed

lemma table_abs_iff:
  assumes "table_ok t"
  shows "table_abs t s = Some v \<longleftrightarrow>
    (\<exists>j<length (tb_entry t). te_used (tb_entry t ! j) \<and> te_key (tb_entry t ! j) = s \<and> te_value (tb_entry t ! j) = v)"
proof
  assume "table_abs t s = Some v"
  from map_of_SomeD[OF this[unfolded table_abs_def]]
  obtain e where "e \<in> set (tb_entry t)" "te_used e" "te_key e = s" "te_value e = v" by auto
  then show "\<exists>j<length (tb_entry t). te_used (tb_entry t ! j) \<and> te_key (tb_entry t ! j) = s \<and> te_value (tb_entry t ! j) = v"
    by (metis in_set_conv_nth)
qed (use table_abs_Some[OF assms] in blast)

lemma option_map_eqI: "(\<And>s v. f s = Some v \<longleftrightarrow> g s = Some v) \<Longrightarrow> f = (g :: 'a \<Rightarrow> 'b option)"
  by (rule ext) (metis not_Some_eq)

lemma abs_update:
  assumes "table_ok t" "table_ok t'" "i < length (tb_entry t)" "tb_entry t' = (tb_entry t)[i := e]"
    and "te_used e" "te_key e = s" "te_value e = v"
    and "\<And>j. j < length (tb_entry t) \<Longrightarrow> te_used (tb_entry t ! j) \<Longrightarrow> te_key (tb_entry t ! j) = s \<Longrightarrow> j = i"
    and "te_used (tb_entry t ! i) \<Longrightarrow> te_key (tb_entry t ! i) = s"
  shows "table_abs t' = (table_abs t)(s \<mapsto> v)"
proof (rule option_map_eqI)
  fix x w
  have len: "length (tb_entry t') = length (tb_entry t)" using assms(4) by simp
  have at: "tb_entry t' ! i = e" "j \<noteq> i \<Longrightarrow> tb_entry t' ! j = tb_entry t ! j" for j
    using assms(3,4) by simp_all
  show "table_abs t' x = Some w \<longleftrightarrow> ((table_abs t)(s \<mapsto> v)) x = Some w"
  proof (cases "x = s")
    case True
    have "table_abs t' s = Some v"
      using table_abs_Some[OF assms(2), of i] at(1) len assms(3,5,6,7) by simp
    then show ?thesis using True by auto
  next
    case False
    have "te_used (tb_entry t' ! j) \<and> te_key (tb_entry t' ! j) = x \<and> te_value (tb_entry t' ! j) = w
        \<longleftrightarrow> te_used (tb_entry t ! j) \<and> te_key (tb_entry t ! j) = x \<and> te_value (tb_entry t ! j) = w" for j
      using False at assms(6,9) by (cases "j = i") auto
    then show ?thesis using False unfolding table_abs_iff[OF assms(2)] fun_upd_apply len
      by (simp add: table_abs_iff[OF assms(1)])
  qed
qed

lemma table_put_correct:
  assumes "table_ok t" "table_count t < length (tb_entry t)"
  shows "\<exists>t'. table_put s v t = Some t' \<and> table_ok t' \<and> table_abs t' = (table_abs t)(s \<mapsto> v)
    \<and> length (tb_entry t') = length (tb_entry t) \<and> table_count t' \<le> Suc (table_count t)"
proof -
  let ?es = "tb_entry t" and ?h = "home t s"
  obtain k where k: "unat (tb_cap t) = 2 ^ k" "length ?es = unat (tb_cap t)" using assms(1) by (auto simp: table_ok_def)
  obtain j where "j < length ?es" "\<not> te_used (?es ! j)" using free_slot[OF assms(2)] by blast
  then obtain d where d: "d < length ?es" "stops_at ?es s ((?h + d) mod length ?es)"
      "\<forall>d'<d. \<not> stops_at ?es s ((?h + d') mod length ?es)"
    using first_stop[where h = ?h and s = s] by blast
  define i where "i = (?h + d) mod length ?es"
  have i: "i < length ?es" unfolding i_def by (rule mod_less_divisor) (use d(1) in linarith)
  define t' where "t' = (if te_used (?es ! i) then t\<lparr>tb_entry := ?es[i := (?es ! i)\<lparr>te_value := v\<rparr>]\<rparr>
    else t\<lparr>tb_entry := ?es[i := \<lparr>te_key = s, te_value = v, te_used = True\<rparr>], tb_used := tb_used t + 1\<rparr>)"
  have put: "table_put s v t = Some t'"
    using put_loop_stop[OF k d(2,3)[unfolded k(2)], of "hash_bytes s AND (tb_cap t - 1)" 0 "unat (tb_cap t)" v]
      home_slot(1)[OF assms(1), of s] d(1) k(2) by (simp add: table_put_def t'_def i_def Let_def)
  have ok: "table_ok t'"
    using table_ok_overwrite[OF assms(1) i] table_ok_fill[OF assms(1) d(1) i_def d(3)] by (simp add: t'_def)
  have only: "j = i" if "j < length ?es" "te_used (?es ! j)" "te_key (?es ! j) = s" for j
    using stop_is_key[OF assms(1) d that] by (simp add: i_def)
  have key: "te_used (?es ! i) \<Longrightarrow> te_key (?es ! i) = s" using d(2) by (simp add: stops_at_def i_def)
  have "table_abs t' = (table_abs t)(s \<mapsto> v)"
  proof (cases "te_used (?es ! i)")
    case True
    show ?thesis
      by (rule abs_update[OF assms(1) ok i, where e = "(?es ! i)\<lparr>te_value := v\<rparr>"])
        (use True only key in \<open>auto simp: t'_def\<close>)
  next
    case False
    show ?thesis
      by (rule abs_update[OF assms(1) ok i, where e = "\<lparr>te_key = s, te_value = v, te_used = True\<rparr>"])
        (use False only in \<open>auto simp: t'_def\<close>)
  qed
  moreover have "length (tb_entry t') = length ?es" "table_count t' \<le> Suc (table_count t)"
    using length_filter_update[of te_used ?es] by (simp_all add: t'_def table_count_def)
  ultimately show ?thesis using put ok by blast
qed

section \<open>Loading a table\<close>

text \<open>The loading loops of \<open>vocab_load\<close>: each string is put with its number.\<close>

fun load_strings ::
  "(string \<Rightarrow> int \<Rightarrow> 't \<Rightarrow> 't option) \<Rightarrow> int \<Rightarrow> string list \<Rightarrow> 't \<Rightarrow> 't option" where
  "load_strings put i [] t = Some t"
| "load_strings put i (s # ss) t = (case put s i t of None \<Rightarrow> None | Some t' \<Rightarrow> load_strings put (i + 1) ss t')"

fun numbered :: "int \<Rightarrow> string list \<Rightarrow> (string \<times> int) list" where
  "numbered i [] = []"
| "numbered i (s # ss) = (s, i) # numbered (i + 1) ss"

lemma numbered_iff: "(s, v) \<in> set (numbered i ss) \<longleftrightarrow> i \<le> v \<and> v < i + int (length ss) \<and> ss ! nat (v - i) = s"
proof (induction ss arbitrary: i)
  case (Cons a ss)
  have "(a # ss) ! nat (v - i) = ss ! nat (v - (i + 1))" if "i < v"
  proof -
    have "nat (v - i) = Suc (nat (v - (i + 1)))" using that by linarith
    then show ?thesis by simp
  qed
  then show ?case using Cons.IH[of "i + 1"] by (cases "v = i"; cases "i < v") (auto simp: add.assoc)
qed auto

lemma numbered_keys: "fst ` set (numbered i ss) = set ss"
  by (induction ss arbitrary: i) auto

text \<open>What a client of a string table relies on: no operation hangs while there is room, and the
  table is a map.\<close>

locale string_table =
  fixes ok :: "'t \<Rightarrow> bool"
    and lookup :: "'t \<Rightarrow> string \<Rightarrow> int option"
    and room :: "'t \<Rightarrow> nat"
    and put :: "string \<Rightarrow> int \<Rightarrow> 't \<Rightarrow> 't option"
    and get :: "'t \<Rightarrow> string \<Rightarrow> int option option"
  assumes get_lookup: "ok t \<Longrightarrow> get t s = Some (lookup t s)"
    and put_update: "ok t \<Longrightarrow> 0 < room t \<Longrightarrow>
      \<exists>t'. put s v t = Some t' \<and> ok t' \<and> lookup t' = (lookup t)(s \<mapsto> v) \<and> room t \<le> Suc (room t')"
begin

lemma load_lookup:
  assumes "ok t" "length ss \<le> room t"
  shows "\<exists>t'. load_strings put i ss t = Some t' \<and> ok t' \<and> lookup t' = lookup t ++ map_of (rev (numbered i ss))"
  using assms
proof (induction ss arbitrary: i t)
  case (Cons s ss)
  then obtain t1 where t1: "put s i t = Some t1" "ok t1" "lookup t1 = (lookup t)(s \<mapsto> i)" "room t \<le> Suc (room t1)"
    using put_update[of t s i] by auto
  moreover obtain t' where "load_strings put (i + 1) ss t1 = Some t'" "ok t'"
      "lookup t' = lookup t1 ++ map_of (rev (numbered (i + 1) ss))"
    using Cons.IH[OF t1(2)] Cons.prems(2) t1(4) by auto
  ultimately show ?case by (simp add: map_add_upd_left)
qed simp

lemma load_get:
  assumes "ok t" "lookup t = Map.empty" "length ss \<le> room t"
  shows "\<exists>t'. load_strings put 0 ss t = Some t' \<and> ok t' \<and> (\<forall>s. get t' s = Some (map_of (rev (numbered 0 ss)) s))"
  using load_lookup[OF assms(1,3), of 0] assms(2) get_lookup by fastforce

end


section \<open>The tables the program builds\<close>

definition table_room :: "str_i32_table \<Rightarrow> nat" where
  "table_room t = length (tb_entry t) - Suc (table_count t)"

definition table_ready :: "str_i32_table \<Rightarrow> bool" where
  "table_ready t \<longleftrightarrow> table_ok t \<and> table_count t < length (tb_entry t)"

interpretation hashed: string_table table_ready table_abs table_room table_put table_get
proof
  fix t s v
  assume t: "table_ready t"
  show "table_get t s = Some (table_abs t s)"
    using t table_get_correct by (simp add: table_ready_def)
  assume "0 < table_room t"
  then show "\<exists>t'. table_put s v t = Some t' \<and> table_ready t' \<and> table_abs t' = (table_abs t)(s \<mapsto> v)
      \<and> table_room t \<le> Suc (table_room t')"
    using t table_put_correct[of t s v] by (fastforce simp: table_ready_def table_room_def)
qed

lemma next_pow2_loop_Some:
  assumes "unat p = 2 ^ j" "j + fuel = 64" "0 < fuel" "unat n \<le> 2 ^ 63"
  shows "\<exists>cap k. next_pow2_loop fuel p n = Some cap \<and> k < 64 \<and> unat cap = 2 ^ k \<and> unat n \<le> unat cap"
  using assms
proof (induction fuel arbitrary: p j)
  case (Suc fuel)
  show ?case
  proof (cases "p < n")
    case False
    then have "next_pow2_loop (Suc fuel) p n = Some p" by simp
    moreover have "unat n \<le> unat p" using False by (simp add: not_less word_le_nat_alt)
    moreover have "j < 64" using Suc.prems(2) by simp
    ultimately show ?thesis using Suc.prems(1) by blast
  next
    case True
    have "(2 :: nat) ^ j < 2 ^ 63" using True Suc.prems(1,4) by (simp add: word_less_nat_alt)
    then have j: "j < 63" by (rule power_less_imp_less_exp[rotated]) simp
    then have "(2 :: nat) ^ Suc j < 2 ^ 64" by (intro power_strict_increasing) auto
    then have "unat (push_bit 1 p) = 2 ^ Suc j"
      using Suc.prems(1) by (simp add: push_bit_eq_mult unat_word_ariths mult.commute)
    then show ?thesis using Suc.IH[of "push_bit 1 p" "Suc j"] Suc.prems(2,4) True j by simp
  qed
qed simp

lemma table_init_ready:
  assumes "expected < 2 ^ 61"
  shows "\<exists>t. table_init (of_nat expected) = Some t \<and> table_ready t \<and> table_abs t = Map.empty
    \<and> expected \<le> table_room t"
proof -
  have "(of_nat expected :: u64) * 2 + 16 = of_nat (expected * 2 + 16)" by simp
  moreover have e: "unat (of_nat (expected * 2 + 16) :: u64) = expected * 2 + 16"
    using assms by (simp add: unat_of_nat del: of_nat_add of_nat_mult)
  ultimately obtain cap k where c: "next_pow2 (of_nat expected * 2 + 16) = Some cap" "k < 64" "unat cap = 2 ^ k"
      "expected * 2 + 16 \<le> unat cap"
    using next_pow2_loop_Some[of 1 0 64 "of_nat (expected * 2 + 16)"] assms unfolding next_pow2_def
    by (auto simp del: of_nat_add of_nat_mult)
  let ?t = "\<lparr>tb_entry = replicate (unat cap) empty_entry, tb_cap = cap, tb_used = 0\<rparr>"
  have "filter te_used (replicate (unat cap) empty_entry) = []" by (simp add: empty_entry_def filter_empty_conv)
  then have "table_count ?t = 0" "table_abs ?t = Map.empty" by (simp_all add: table_count_def table_abs_def)
  moreover have "table_ok ?t" using c(2,3) by (auto simp: table_ok_def empty_entry_def)
  ultimately show ?thesis using c by (simp add: table_init_def table_ready_def table_room_def)
qed

text \<open>C19. A string table built for its number of strings is loaded without hanging, every later lookup
  ends, and it finds exactly the last number under which a string was put.\<close>

theorem loaded_table:
  assumes "length ss < 2 ^ 61"
  shows "\<exists>t0 t. table_init (of_nat (length ss)) = Some t0 \<and> load_strings table_put 0 ss t0 = Some t
    \<and> (\<forall>s. table_get t s = Some (map_of (rev (numbered 0 ss)) s))"
proof -
  obtain t0 where t0: "table_init (of_nat (length ss)) = Some t0" "table_ready t0" "table_abs t0 = Map.empty"
      "length ss \<le> table_room t0"
    using table_init_ready[OF assms] by blast
  then show ?thesis using hashed.load_get[OF t0(2-4)] by blast
qed

theorem loaded_table_witness:
  "\<exists>t0 t. table_init (of_nat (length [''a'', ''b'', ''a''])) = Some t0
    \<and> load_strings table_put 0 [''a'', ''b'', ''a''] t0 = Some t
    \<and> (\<forall>s. table_get t s = Some (map_of (rev (numbered 0 [''a'', ''b'', ''a''])) s))"
  by (rule loaded_table) simp

end
