(* ===== verification/Tokenizer.thy ===== *)
theory Tokenizer
  imports TokenTable Dsml
begin

unbundle bit_operations_syntax

text \<open>
  The tokenizer and chat encoder of \<open>ds4.c\<close> (lines 23772 to 24434): byte-level BPE with the
  pre-tokenizer of the model family, the special tokens of a rendered chat, the chat encoders and
  the text of a token.

  A position in a text is the suffix that starts there.  The vocabulary holds its two string
  tables (\<open>TokenTable\<close>); the arrays of token strings and merges that \<open>vocab_load\<close> reads from the
  model file are its arguments, and \<open>None\<close> stands for the exits of the loader.
\<close>

section \<open>Bytes as printable characters\<close>

definition utf8_put_raw :: "u32 \<Rightarrow> string" where
  "utf8_put_raw cp =
     (if cp \<le> 0x7f then [put8 cp]
      else if cp \<le> 0x7ff then
        [put8 (0xc0 OR drop_bit 6 cp), put8 (0x80 OR (cp AND 0x3f))]
      else if cp \<le> 0xffff then
        [put8 (0xe0 OR drop_bit 12 cp), put8 (0x80 OR (drop_bit 6 cp AND 0x3f)),
         put8 (0x80 OR (cp AND 0x3f))]
      else
        [put8 (0xf0 OR drop_bit 18 cp), put8 (0x80 OR (drop_bit 12 cp AND 0x3f)),
         put8 (0x80 OR (drop_bit 6 cp AND 0x3f)), put8 (0x80 OR (cp AND 0x3f))])"

definition gpt2_plain :: "nat \<Rightarrow> bool" where
  "gpt2_plain x \<longleftrightarrow> x \<ge> 33 \<and> x \<le> 126 \<or> x \<ge> 161 \<and> x \<le> 172 \<or> x \<ge> 174"

text \<open>The loops over the bytes that are not printable, counting them.\<close>

fun gpt2_encode_scan :: "nat \<Rightarrow> nat \<Rightarrow> nat list \<Rightarrow> nat" where
  "gpt2_encode_scan b n [] = b"
| "gpt2_encode_scan b n (x # xs) =
     (if gpt2_plain x then gpt2_encode_scan b n xs
      else if x = b then 256 + n
      else gpt2_encode_scan b (n + 1) xs)"

definition gpt2_byte_to_codepoint :: "nat \<Rightarrow> nat" where
  "gpt2_byte_to_codepoint b = (if gpt2_plain b then b else gpt2_encode_scan b 0 [0..<256])"

fun gpt2_decode_scan :: "nat \<Rightarrow> nat \<Rightarrow> nat list \<Rightarrow> nat option" where
  "gpt2_decode_scan cp n [] = None"
| "gpt2_decode_scan cp n (b # bs) =
     (if gpt2_plain b then gpt2_decode_scan cp n bs
      else if cp = 256 + n then Some b
      else gpt2_decode_scan cp (n + 1) bs)"

definition gpt2_codepoint_to_byte :: "nat \<Rightarrow> nat option" where
  "gpt2_codepoint_to_byte cp =
     (if gpt2_plain cp \<and> cp \<le> 255 then Some cp else gpt2_decode_scan cp 0 [0..<256])"

definition byte_encode :: "string \<Rightarrow> string" where
  "byte_encode s = concat (map (\<lambda>c. utf8_put_raw (of_nat (gpt2_byte_to_codepoint (byte c)))) s)"

definition utf8_len_from_first_byte :: "char \<Rightarrow> nat" where
  "utf8_len_from_first_byte c =
     (let b = byte c in
      if b < 0x80 then 1
      else if b AND 0xe0 = 0xc0 then 2
      else if b AND 0xf0 = 0xe0 then 3
      else if b AND 0xf8 = 0xf0 then 4
      else 1)"

text \<open>The number of bytes of the first character; never past the end of the text.\<close>

definition next_utf8_char :: "string \<Rightarrow> nat" where
  "next_utf8_char s =
     (let n = utf8_len_from_first_byte (hd s) in if n > length s then 1 else n)"

lemma utf8_len_pos [simp]: "0 < utf8_len_from_first_byte c"
  by (simp add: utf8_len_from_first_byte_def Let_def)

lemma next_utf8_char_bounds [simp]: "0 < next_utf8_char s" "s \<noteq> [] \<Longrightarrow> next_utf8_char s \<le> length s"
  by (auto simp: next_utf8_char_def Let_def Suc_leI)

section \<open>Byte pair encoding\<close>

record ds4_vocab =
  vo_token :: "string list"
  vo_bos_id :: int
  vo_eos_id :: int
  vo_pad_id :: int
  vo_user_id :: int
  vo_assistant_id :: int
  vo_think_start_id :: int
  vo_think_end_id :: int
  vo_dsml_id :: int
  vo_token_to_id :: str_i32_table
  vo_merge_rank :: str_i32_table

definition table_find :: "str_i32_table \<Rightarrow> string \<Rightarrow> int option" where
  "table_find t s = (case table_get t s of Some r \<Rightarrow> r | None \<Rightarrow> None)"

definition bpe_rank :: "ds4_vocab \<Rightarrow> string \<Rightarrow> string \<Rightarrow> int" where
  "bpe_rank vocab a b =
     (case table_find (vo_merge_rank vocab) (a @ '' '' @ b) of Some rank \<Rightarrow> rank | None \<Rightarrow> - 1)"

text \<open>The encoded piece as its characters.\<close>

function bpe_symbols :: "string \<Rightarrow> string list" where
  "bpe_symbols [] = []"
| "bpe_symbols (c # s) =
     (let n = next_utf8_char (c # s) in take n (c # s) # bpe_symbols (drop n (c # s)))"
  by pat_completeness auto
termination
  by (relation "measure length") (simp_all add: Let_def diff_less)

text \<open>The leftmost adjacent pair of the lowest rank.\<close>

definition INT32_MAX :: int where
  "INT32_MAX = 2147483647"

fun bpe_best :: "ds4_vocab \<Rightarrow> nat \<Rightarrow> nat option \<Rightarrow> int \<Rightarrow> string list \<Rightarrow> nat option" where
  "bpe_best vocab i best_i best_rank (a # b # syms) =
     (let rank = bpe_rank vocab a b in
      if rank \<ge> 0 \<and> rank < best_rank then bpe_best vocab (i + 1) (Some i) rank (b # syms)
      else bpe_best vocab (i + 1) best_i best_rank (b # syms))"
| "bpe_best vocab i best_i best_rank syms = best_i"

definition bpe_merge_at :: "nat \<Rightarrow> string list \<Rightarrow> string list" where
  "bpe_merge_at i syms = take i syms @ (syms ! i @ syms ! (i + 1)) # drop (i + 2) syms"

lemma bpe_best_bound:
  "bpe_best vocab i best_i r syms = Some j
    \<Longrightarrow> best_i = Some j \<or> i \<le> j \<and> j + 1 < i + length syms"
  by (induction vocab i best_i r syms rule: bpe_best.induct) (fastforce simp: Let_def split: if_splits)+

function bpe_merge :: "ds4_vocab \<Rightarrow> string list \<Rightarrow> string list" where
  "bpe_merge vocab syms =
     (case bpe_best vocab 0 None INT32_MAX syms of
        None \<Rightarrow> syms
      | Some best_i \<Rightarrow> bpe_merge vocab (bpe_merge_at best_i syms))"
  by pat_completeness auto
termination
  by (relation "measure (length \<circ> snd)") (auto simp: bpe_merge_at_def dest!: bpe_best_bound)

declare bpe_merge.simps [simp del]

definition bpe_emit_symbol :: "ds4_vocab \<Rightarrow> string \<Rightarrow> int list" where
  "bpe_emit_symbol vocab syms =
     (case table_find (vo_token_to_id vocab) syms of
        Some token \<Rightarrow> [token]
      | None \<Rightarrow> List.map_filter (\<lambda>c. table_find (vo_token_to_id vocab) [c]) syms)"

definition bpe_emit_piece :: "ds4_vocab \<Rightarrow> string \<Rightarrow> int list" where
  "bpe_emit_piece vocab raw_piece =
     concat (map (bpe_emit_symbol vocab) (bpe_merge vocab (bpe_symbols (byte_encode raw_piece))))"

section \<open>The pre-tokenizer\<close>

definition ascii_alpha :: "char \<Rightarrow> bool" where
  "ascii_alpha c \<longleftrightarrow> 0x41 \<le> byte c \<and> byte c \<le> 0x5a \<or> 0x61 \<le> byte c \<and> byte c \<le> 0x7a"

definition ascii_digit :: "char \<Rightarrow> bool" where
  "ascii_digit c \<longleftrightarrow> 0x30 \<le> byte c \<and> byte c \<le> 0x39"

definition ascii_space :: "char \<Rightarrow> bool" where
  "ascii_space c \<longleftrightarrow> c \<in> {CHR '' '', CHR 0x09, CHR 0x0A, CHR 0x0D, CHR 0x0B, CHR 0x0C}"

definition ascii_newline :: "char \<Rightarrow> bool" where
  "ascii_newline c \<longleftrightarrow> c = CHR 0x0A \<or> c = CHR 0x0D"

definition joyai_ascii_punct_symbol :: "char \<Rightarrow> bool" where
  "joyai_ascii_punct_symbol c \<longleftrightarrow>
     0x21 \<le> byte c \<and> byte c \<le> 0x2f \<or> 0x3a \<le> byte c \<and> byte c \<le> 0x40
     \<or> 0x5b \<le> byte c \<and> byte c \<le> 0x60 \<or> 0x7B \<le> byte c \<and> byte c \<le> 0x7E"

definition utf8_is_cjk_hira_kata :: "nat \<Rightarrow> bool" where
  "utf8_is_cjk_hira_kata cp \<longleftrightarrow>
     cp \<ge> 0x4e00 \<and> cp \<le> 0x9fa5 \<or> cp \<ge> 0x3040 \<and> cp \<le> 0x309f \<or> cp \<ge> 0x30a0 \<and> cp \<le> 0x30ff"

definition utf8_peek_one :: "string \<Rightarrow> nat" where
  "utf8_peek_one s =
     (let n = next_utf8_char s; b = (\<lambda>i. byte (s ! i)) in
      if n = 1 then b 0
      else if n = 2 then push_bit 6 (b 0 AND 0x1f) OR (b 1 AND 0x3f)
      else if n = 3 then
        push_bit 12 (b 0 AND 0x0f) OR push_bit 6 (b 1 AND 0x3f) OR (b 2 AND 0x3f)
      else
        push_bit 18 (b 0 AND 0x07) OR push_bit 12 (b 1 AND 0x3f) OR push_bit 6 (b 2 AND 0x3f)
        OR (b 3 AND 0x3f))"

definition joyai_letter_like_at :: "string \<Rightarrow> bool" where
  "joyai_letter_like_at s \<longleftrightarrow> (if byte (hd s) < 128 then ascii_alpha (hd s) else True)"

definition joyai_cjk_at :: "string \<Rightarrow> bool" where
  "joyai_cjk_at s \<longleftrightarrow> (if byte (hd s) < 128 then False else utf8_is_cjk_hira_kata (utf8_peek_one s))"

text \<open>Bytes of the run of characters that satisfy a test at their position.\<close>

function consume_chars :: "(string \<Rightarrow> bool) \<Rightarrow> string \<Rightarrow> nat" where
  "consume_chars at s =
     (if s \<noteq> [] \<and> at s then
        (let n = next_utf8_char s in n + consume_chars at (drop n s))
      else 0)"
  by pat_completeness auto
termination
  by (relation "measure (length \<circ> snd)") (auto simp: diff_less)

declare consume_chars.simps [simp del]

definition joyai_consume_letters :: "string \<Rightarrow> nat" where
  "joyai_consume_letters s = consume_chars joyai_letter_like_at s"

definition run_length :: "(char \<Rightarrow> bool) \<Rightarrow> string \<Rightarrow> nat" where
  "run_length P s = length (takeWhile P s)"

definition last_newline_end :: "string \<Rightarrow> nat" where
  "last_newline_end ws = length (dropWhile (\<lambda>c. \<not> ascii_newline c) (rev ws))"

text \<open>The bytes of the next piece of a text that is not empty.\<close>

definition joyai_piece :: "string \<Rightarrow> nat" where
  "joyai_piece s =
     (let c = hd s; behind = tl s in
      if ascii_digit c then run_length ascii_digit (take 3 s)
      else if joyai_cjk_at s then
        (let n = next_utf8_char s in n + consume_chars joyai_cjk_at (drop n s))
      else if joyai_ascii_punct_symbol c \<and> behind \<noteq> [] \<and> ascii_alpha (hd behind) then
        1 + run_length ascii_alpha behind
      else if joyai_letter_like_at s then joyai_consume_letters s
      else if \<not> ascii_newline c \<and> \<not> joyai_ascii_punct_symbol c \<and> behind \<noteq> []
              \<and> joyai_letter_like_at behind then
        1 + joyai_consume_letters behind
      else if c = CHR '' '' \<and> behind \<noteq> [] \<and> joyai_ascii_punct_symbol (hd behind) then
        (let n = 1 + run_length joyai_ascii_punct_symbol behind in
         n + run_length ascii_newline (drop n s))
      else if joyai_ascii_punct_symbol c then
        (let n = run_length joyai_ascii_punct_symbol s in n + run_length ascii_newline (drop n s))
      else if ascii_space c then
        (let p = run_length ascii_space s; e = last_newline_end (take p s) in
         if e > 0 then e
         else if p < length s \<and> p > 1
                 \<and> (joyai_letter_like_at (drop p s) \<or> joyai_ascii_punct_symbol (s ! p)) then p - 1
         else p)
      else next_utf8_char s)"

definition joyai_piece_len :: "string \<Rightarrow> nat" where
  "joyai_piece_len s = (if joyai_piece s = 0 then next_utf8_char s else joyai_piece s)"

lemma joyai_piece_len_pos [simp]: "0 < joyai_piece_len s"
  by (simp add: joyai_piece_len_def)

function joyai_pieces :: "string \<Rightarrow> string list" where
  "joyai_pieces [] = []"
| "joyai_pieces (c # s) =
     take (joyai_piece_len (c # s)) (c # s) # joyai_pieces (drop (joyai_piece_len (c # s)) (c # s))"
  by pat_completeness auto
termination
  by (relation "measure length") (simp_all add: diff_less)

declare joyai_pieces.simps(2) [simp del]

definition bpe_tokenize_text :: "ds4_vocab \<Rightarrow> string \<Rightarrow> int list" where
  "bpe_tokenize_text vocab s = concat (map (bpe_emit_piece vocab) (joyai_pieces s))"

section \<open>Loading the vocabulary\<close>

definition vocab_lookup :: "str_i32_table \<Rightarrow> string \<Rightarrow> int option" where
  "vocab_lookup t s = table_find t s"

definition pad_names :: "string list" where
  "pad_names = [''<'' @ BAR @ LOW @ ''pad'' @ LOW @ BAR @ ''>'', ''<'' @ BAR @ ''pad'' @ BAR @ ''>'']"

definition THINK_START :: string where
  "THINK_START = ''<think>''"

definition THINK_END :: string where
  "THINK_END = ''</think>''"

definition load_table :: "string list \<Rightarrow> str_i32_table option" where
  "load_table ss =
     (case table_init (of_nat (length ss)) of
        None \<Rightarrow> None
      | Some t \<Rightarrow> load_strings table_put 0 ss t)"

text \<open>Merges are numbered by a cast to \<open>int\<close>, which is the number itself for a table that long.\<close>

definition vocab_load :: "string list \<Rightarrow> string list \<Rightarrow> ds4_vocab option" where
  "vocab_load tokens merges =
     (if int (length tokens) > INT32_MAX then None
      else
        (case (load_table tokens, load_table merges) of
           (Some ids, Some ranks) \<Rightarrow>
             (case (vocab_lookup ids BEGIN_OF_SENTENCE, vocab_lookup ids END_OF_SENTENCE,
                    vocab_lookup ids USER_MARK, vocab_lookup ids ASSISTANT_MARK,
                    vocab_lookup ids THINK_START, vocab_lookup ids THINK_END, vocab_lookup ids DS4_DSML) of
                (Some bos, Some eos, Some user, Some assistant, Some think_start, Some think_end, Some dsml) \<Rightarrow>
                  Some \<lparr>vo_token = tokens, vo_bos_id = bos, vo_eos_id = eos,
                        vo_pad_id = hd (List.map_filter (table_find ids) pad_names @ [- 1]),
                        vo_user_id = user, vo_assistant_id = assistant, vo_think_start_id = think_start,
                        vo_think_end_id = think_end, vo_dsml_id = dsml,
                        vo_token_to_id = ids, vo_merge_rank = ranks\<rparr>
              | _ \<Rightarrow> None)
         | _ \<Rightarrow> None))"

section \<open>Special tokens and rendered chats\<close>

definition special_tokens :: "ds4_vocab \<Rightarrow> (string \<times> int) list" where
  "special_tokens vocab =
     [(BEGIN_OF_SENTENCE, vo_bos_id vocab), (END_OF_SENTENCE, vo_eos_id vocab),
      (USER_MARK, vo_user_id vocab), (ASSISTANT_MARK, vo_assistant_id vocab),
      (THINK_START, vo_think_start_id vocab), (THINK_END, vo_think_end_id vocab),
      (DS4_DSML, vo_dsml_id vocab)]"

definition special_token_at :: "ds4_vocab \<Rightarrow> string \<Rightarrow> (int \<times> nat) option" where
  "special_token_at vocab p =
     map_option (\<lambda>(s, token). (token, length s))
       (find (\<lambda>(s, token). prefix s p) (special_tokens vocab))"

lemma special_token_at_SomeD:
  assumes "special_token_at vocab p = Some (token, n)"
  shows "(take n p, token) \<in> set (special_tokens vocab)" "0 < n" "n \<le> length p"
proof -
  obtain s where s: "(s, token) \<in> set (special_tokens vocab)" "prefix s p" "n = length s"
    using assms by (auto simp: special_token_at_def find_Some_iff dest: nth_mem)
  then show "(take n p, token) \<in> set (special_tokens vocab)" by (auto simp: prefix_def)
  have "s \<noteq> []"
    using s(1) by (auto simp: special_tokens_def BEGIN_OF_SENTENCE_def END_OF_SENTENCE_def USER_MARK_def
        ASSISTANT_MARK_def THINK_START_def THINK_END_def DS4_DSML_def BAR_def)
  then show "0 < n" using s(3) by simp
  show "n \<le> length p" using s(2,3) by (simp add: prefix_length_le)
qed

definition tokenize_span :: "ds4_vocab \<Rightarrow> string \<Rightarrow> int list" where
  "tokenize_span vocab span = (if span = [] then [] else bpe_tokenize_text vocab span)"

text \<open>The loop over a rendered chat: \<open>span\<close> is the text since the last special token.\<close>

function rendered_chat_loop :: "ds4_vocab \<Rightarrow> string \<Rightarrow> string \<Rightarrow> int list" where
  "rendered_chat_loop vocab span [] = tokenize_span vocab span"
| "rendered_chat_loop vocab span (c # p) =
     (case special_token_at vocab (c # p) of
        Some (token, n) \<Rightarrow>
          tokenize_span vocab span @ token # rendered_chat_loop vocab [] (drop n (c # p))
      | None \<Rightarrow> rendered_chat_loop vocab (span @ [c]) p)"
  by pat_completeness auto
termination
  by (relation "measure (\<lambda>(vocab, span, p). length p)")
    (auto dest: special_token_at_SomeD(2) simp: diff_less)

definition tokenize_rendered_chat_vocab :: "ds4_vocab \<Rightarrow> string option \<Rightarrow> int list" where
  "tokenize_rendered_chat_vocab vocab s = rendered_chat_loop vocab [] (str_or_empty s)"

section \<open>Chat encoders\<close>

definition encode_chat_prompt :: "ds4_vocab \<Rightarrow> string option \<Rightarrow> string \<Rightarrow> ds4_think_mode \<Rightarrow> int list" where
  "encode_chat_prompt vocab system prompt think_mode =
     [vo_bos_id vocab]
     @ (if think_mode = DS4_THINK_MAX then bpe_tokenize_text vocab ds4_think_max_prefix else [])
     @ (if str_or_empty system \<noteq> [] then bpe_tokenize_text vocab (str_or_empty system) else [])
     @ [vo_user_id vocab]
     @ bpe_tokenize_text vocab prompt
     @ [vo_assistant_id vocab]
     @ [if ds4_think_mode_enabled think_mode then vo_think_start_id vocab else vo_think_end_id vocab]"

fun tool_result_loop :: "ds4_vocab \<Rightarrow> string \<Rightarrow> string \<Rightarrow> int list" where
  "tool_result_loop vocab span [] = tokenize_span vocab span"
| "tool_result_loop vocab span (c # p) =
     (if prefix TOOL_RESULT_END (c # p) then
        tokenize_span vocab span @ bpe_tokenize_text vocab ''&lt;'' @ tool_result_loop vocab [] p
      else tool_result_loop vocab (span @ [c]) p)"

definition bpe_tokenize_tool_result_text :: "ds4_vocab \<Rightarrow> string option \<Rightarrow> int list" where
  "bpe_tokenize_tool_result_text vocab content = tool_result_loop vocab [] (str_or_empty content)"

definition ds4_chat_append_message ::
  "ds4_vocab \<Rightarrow> int list \<Rightarrow> string option \<Rightarrow> string option \<Rightarrow> int list" where
  "ds4_chat_append_message vocab tokens role content =
     (let role = (case role of None \<Rightarrow> ''user'' | Some r \<Rightarrow> r); content = str_or_empty content in
      if role = ''system'' \<or> role = ''developer'' then tokens @ bpe_tokenize_text vocab content
      else if role = ''assistant'' then
        tokens @ [vo_assistant_id vocab]
        @ (if \<not> prefix THINK_START content \<and> \<not> prefix THINK_END content
           then [vo_think_end_id vocab] else [])
        @ bpe_tokenize_text vocab content
      else if role = ''tool'' \<or> role = ''function'' then
        tokens @ [vo_user_id vocab] @ bpe_tokenize_text vocab TOOL_RESULT_START
        @ bpe_tokenize_tool_result_text vocab (Some content)
        @ bpe_tokenize_text vocab TOOL_RESULT_END
      else tokens @ [vo_user_id vocab] @ bpe_tokenize_text vocab content)"

definition ds4_chat_append_assistant_prefix :: "ds4_vocab \<Rightarrow> int list \<Rightarrow> ds4_think_mode \<Rightarrow> int list" where
  "ds4_chat_append_assistant_prefix vocab tokens think_mode =
     tokens @ [vo_assistant_id vocab,
       if ds4_think_mode_enabled think_mode then vo_think_start_id vocab else vo_think_end_id vocab]"

section \<open>The text of a token\<close>

text \<open>One character and the rest; a truncated or stray byte stands for itself.\<close>

definition utf8_decode_one :: "string \<Rightarrow> nat \<times> string" where
  "utf8_decode_one s =
     (let c = byte (hd s); b = (\<lambda>i. byte (s ! i)) in
      if c < 0x80 \<or> length s \<le> 1 then (c, drop 1 s)
      else if c AND 0xe0 = 0xc0 \<and> 1 < length s then
        (push_bit 6 (c AND 0x1f) OR (b 1 AND 0x3f), drop 2 s)
      else if c AND 0xf0 = 0xe0 \<and> 2 < length s then
        (push_bit 12 (c AND 0x0f) OR push_bit 6 (b 1 AND 0x3f) OR (b 2 AND 0x3f), drop 3 s)
      else if c AND 0xf8 = 0xf0 \<and> 3 < length s then
        (push_bit 18 (c AND 0x07) OR push_bit 12 (b 1 AND 0x3f) OR push_bit 6 (b 2 AND 0x3f)
           OR (b 3 AND 0x3f), drop 4 s)
      else (c, drop 1 s))"

lemma utf8_decode_one_length: "s \<noteq> [] \<Longrightarrow> length (snd (utf8_decode_one s)) < length s"
  by (auto simp: utf8_decode_one_def Let_def)

lemma utf8_decode_one_Cons [simp]: "length (snd (utf8_decode_one (c # s))) < Suc (length s)"
  using utf8_decode_one_length[of "c # s"] by simp

fun vocab_token_is_literal_special :: "string \<Rightarrow> bool" where
  "vocab_token_is_literal_special [] = False"
| "vocab_token_is_literal_special (c # s) =
     (prefix BAR (c # s) \<or> vocab_token_is_literal_special s)"

function token_bytes :: "string \<Rightarrow> string" where
  "token_bytes [] = []"
| "token_bytes (c # s) =
     (let cp = fst (utf8_decode_one (c # s)) in
      (case gpt2_codepoint_to_byte cp of Some b \<Rightarrow> [chr b] | None \<Rightarrow> [])
      @ token_bytes (snd (utf8_decode_one (c # s))))"
  by pat_completeness auto
termination
  by (relation "measure length") simp_all

definition ds4_token_text :: "ds4_vocab \<Rightarrow> int \<Rightarrow> string" where
  "ds4_token_text vocab token =
     (if token < 0 \<or> token \<ge> int (length (vo_token vocab)) then []
      else
        (let s = vo_token vocab ! nat token in
         if vocab_token_is_literal_special s then s else token_bytes s))"

end
