(* ===== verification/TokenText.thy ===== *)
theory TokenText
  imports Tokenizer
begin

text \<open>
  Tokenizing loses nothing: the texts of the tokens of a text, of a rendered chat or of a chat
  message, one after the other, are that text, for every byte string and every vocabulary whose
  merges produce tokens.
\<close>

unbundle bit_operations_syntax

section \<open>Bytes and printable characters\<close>

lemma gpt2_scan_inverse:
  assumes "b \<in> set xs" "\<not> gpt2_plain b"
  shows "gpt2_decode_scan (gpt2_encode_scan b n xs) n xs = Some b
    \<and> 256 + n \<le> gpt2_encode_scan b n xs \<and> gpt2_encode_scan b n xs < 256 + n + length xs"
  using assms
proof (induction xs arbitrary: n)
  case (Cons x xs)
  show ?case
  proof (cases "gpt2_plain x \<or> x = b")
    case True
    then show ?thesis using Cons.IH[of n] Cons.prems by auto
  next
    case False
    then show ?thesis using Cons.IH[of "n + 1"] Cons.prems by auto
  qed
qed simp

lemma gpt2_roundtrip:
  assumes "b < 256"
  shows "gpt2_codepoint_to_byte (gpt2_byte_to_codepoint b) = Some b" "gpt2_byte_to_codepoint b < 512"
proof -
  have "b \<in> set [0..<256]" using assms by simp
  then have s: "\<not> gpt2_plain b \<Longrightarrow> gpt2_decode_scan (gpt2_encode_scan b 0 [0..<256]) 0 [0..<256] = Some b
      \<and> 256 \<le> gpt2_encode_scan b 0 [0..<256] \<and> gpt2_encode_scan b 0 [0..<256] < 512"
    using gpt2_scan_inverse[of b "[0..<256]" 0] by simp
  show "gpt2_codepoint_to_byte (gpt2_byte_to_codepoint b) = Some b"
    using s assms by (cases "gpt2_plain b") (simp_all add: gpt2_codepoint_to_byte_def gpt2_byte_to_codepoint_def del: upt_Suc upt.simps)
  show "gpt2_byte_to_codepoint b < 512"
    using s assms by (cases "gpt2_plain b") (simp_all add: gpt2_byte_to_codepoint_def del: upt_Suc upt.simps)
qed

lemma or_low:
  assumes "y < 2 ^ n"
  shows "push_bit n x OR y = x * 2 ^ n + (y :: nat)"
proof -
  have t: "take_bit n y = y" using assms by (simp add: take_bit_nat_eq_self_iff)
  have "push_bit n x AND take_bit n y = 0" by (rule bit_eqI) (auto simp: bit_simps)
  then have "push_bit n x + y = push_bit n x OR y" unfolding t by (rule disjunctive_add_eq_or)
  then show ?thesis by (simp add: push_bit_eq_mult)
qed

lemma and_high: "z AND push_bit n m = push_bit n (drop_bit n z AND (m :: nat))"
  by (rule bit_eqI) (auto simp: bit_simps)

lemma lead_byte:
  assumes "x < (32 :: nat)"
  shows "0xc0 OR x = 0xc0 + x" "(0xc0 + x) AND 0xe0 = 0xc0" "(0xc0 + x) AND 0x1f = x"
proof -
  show "0xc0 OR x = 0xc0 + x" using or_low[of x 5 6] assms by simp
  have "(192 + x) div 32 = 6" by (rule div_nat_eqI) (use assms in auto)
  then have "(0xc0 + x) AND push_bit 5 7 = push_bit 5 6" unfolding and_high drop_bit_eq_div by simp
  then show "(0xc0 + x) AND 0xe0 = 0xc0" by simp
  have "take_bit 5 (0xc0 + x) = x" using assms by (simp add: take_bit_eq_mod mod_add_eq[symmetric, of 192])
  then show "(0xc0 + x) AND 0x1f = x" by (simp add: take_bit_eq_mask mask_eq_exp_minus_1)
qed

lemma cont_byte:
  assumes "y < (64 :: nat)"
  shows "0x80 OR y = 0x80 + y" "(0x80 + y) AND 0x3f = y"
proof -
  show "0x80 OR y = 0x80 + y" using or_low[of y 6 2] assms by simp
  have "take_bit 6 (0x80 + y) = y" using assms by (simp add: take_bit_eq_mod mod_add_eq[symmetric, of 128])
  then show "(0x80 + y) AND 0x3f = y" by (simp add: take_bit_eq_mask mask_eq_exp_minus_1)
qed

text \<open>The printable characters take one byte below 128, else a lead and a continuation byte.\<close>

lemma utf8_put_raw_bytes:
  assumes "cp < 0x800"
  shows "map byte (utf8_put_raw (of_nat cp)) =
    (if cp < 0x80 then [cp] else [0xc0 OR cp div 64, 0x80 OR cp mod 64])"
proof -
  have u: "unat (of_nat cp :: u32) = cp" using assms by (simp add: unat_of_nat)
  have le: "(of_nat cp :: u32) \<le> 0x7f \<longleftrightarrow> cp < 0x80" "(of_nat cp :: u32) \<le> 0x7ff"
    using assms by (auto simp: word_le_nat_alt u)
  have a: "unat (0xc0 OR drop_bit 6 (of_nat cp) :: u32) = 0xc0 OR cp div 64"
    unfolding unsigned_or_eq unsigned_drop_bit_eq u using assms by (simp add: drop_bit_eq_div take_bit_nat_eq_self)
  have b: "unat (0x80 OR (of_nat cp AND 0x3f) :: u32) = 0x80 OR cp mod 64"
    unfolding unsigned_or_eq unsigned_and_eq u using take_bit_eq_mask[of 6 cp] by (simp add: take_bit_eq_mod mask_eq_exp_minus_1)
  show ?thesis
    using le assms lead_byte(1)[of "cp div 64"] cont_byte(1)[of "cp mod 64"]
    by (auto simp: utf8_put_raw_def put8_def a b u)
qed


lemma byte_nth: "i < length s \<Longrightarrow> byte (s ! i) = map byte s ! i"
  by simp

text \<open>Reading and measuring one encoded character in front of any text.\<close>

lemma utf8_raw_read:
  assumes "cp < 0x800"
  shows "utf8_decode_one (utf8_put_raw (of_nat cp) @ s) = (cp, s)"
    and "next_utf8_char (utf8_put_raw (of_nat cp) @ s) = length (utf8_put_raw (of_nat cp))"
    and "utf8_put_raw (of_nat cp) \<noteq> []" "\<forall>c\<in>set (utf8_put_raw (of_nat cp)). byte c < 0xe0"
proof -
  let ?r = "utf8_put_raw (of_nat cp)"
  note m = utf8_put_raw_bytes[OF assms]
  have x: "cp div 64 < 32" "cp mod 64 < 64" using assms by auto
  consider (one) a where "?r = [a]" "byte a = cp" "cp < 0x80"
    | (two) a b where "?r = [a, b]" "byte a = 0xc0 OR cp div 64" "byte b = 0x80 OR cp mod 64" "\<not> cp < 0x80"
    using m by (cases "cp < 0x80") (auto simp: map_eq_Cons_conv)
  note cases = this
  show "utf8_decode_one (?r @ s) = (cp, s)"
  proof (cases rule: cases)
    case one
    then show ?thesis by (simp add: utf8_decode_one_def)
  next
    case two
    have "push_bit 6 (cp div 64) OR cp mod 64 = cp"
      using or_low[of "cp mod 64" 6 "cp div 64"] x(2) by simp
    then show ?thesis
      using two lead_byte[OF x(1)] cont_byte[OF x(2)] by (simp add: utf8_decode_one_def Let_def)
  qed
  show "next_utf8_char (?r @ s) = length ?r"
    using x by (cases rule: cases)
      (auto simp: next_utf8_char_def utf8_len_from_first_byte_def Let_def lead_byte)
  show "?r \<noteq> []" by (cases rule: cases) auto
  show "\<forall>c\<in>set ?r. byte c < 0xe0" using x by (cases rule: cases) (auto simp: lead_byte(1) cont_byte(1))
qed

section \<open>Encoded texts\<close>

lemma byte_encode_simps [simp]:
  "byte_encode [] = []" "byte_encode (a @ b) = byte_encode a @ byte_encode b"
  by (simp_all add: byte_encode_def)

lemma byte_encode_Cons: "byte_encode (c # s) = byte_encode [c] @ byte_encode s"
  by (simp add: byte_encode_def)

lemma byte_encode_char:
  "utf8_decode_one (byte_encode [c] @ s) = (gpt2_byte_to_codepoint (byte c), s)"
  "next_utf8_char (byte_encode [c] @ s) = length (byte_encode [c])"
  "byte_encode [c] \<noteq> []" "\<forall>d\<in>set (byte_encode [c]). byte d < 0xe0"
proof -
  have "gpt2_byte_to_codepoint (byte c) < 0x800" using gpt2_roundtrip(2)[of "byte c"] by simp
  note r = utf8_raw_read[OF this]
  show "utf8_decode_one (byte_encode [c] @ s) = (gpt2_byte_to_codepoint (byte c), s)"
    "next_utf8_char (byte_encode [c] @ s) = length (byte_encode [c])"
    "byte_encode [c] \<noteq> []" "\<forall>d\<in>set (byte_encode [c]). byte d < 0xe0"
    using r by (simp_all add: byte_encode_def)
qed

lemma byte_encode_low: "d \<in> set (byte_encode s) \<Longrightarrow> byte d < 0xe0"
proof (induction s)
  case (Cons c s)
  then have "d \<in> set (byte_encode [c]) \<or> d \<in> set (byte_encode s)" using byte_encode_Cons[of c s] by auto
  then show ?case using Cons.IH byte_encode_char(4)[of c] by blast
qed simp

lemma token_bytes_unfold:
  "s \<noteq> [] \<Longrightarrow> token_bytes s =
    (case gpt2_codepoint_to_byte (fst (utf8_decode_one s)) of Some b \<Rightarrow> [chr b] | None \<Rightarrow> [])
    @ token_bytes (snd (utf8_decode_one s))"
  by (cases s) (simp_all add: Let_def)

lemma token_bytes_encode: "token_bytes (byte_encode s) = s"
proof (induction s)
  case (Cons c s)
  have "byte_encode [c] @ byte_encode s \<noteq> []" using byte_encode_char(3) by simp
  from token_bytes_unfold[OF this] show ?case
    unfolding byte_encode_Cons[of c s] byte_encode_char(1) using Cons gpt2_roundtrip(1)[of "byte c"] by simp
qed simp

lemma literal_special_bar: "vocab_token_is_literal_special s \<longleftrightarrow> sublist BAR s"
proof (induction s)
  case Nil
  then show ?case by (simp add: BAR_def)
next
  case (Cons c s)
  then show ?case by (simp add: sublist_Cons_right)
qed

lemma encoded_not_special: "\<not> vocab_token_is_literal_special (byte_encode s)"
proof
  assume "vocab_token_is_literal_special (byte_encode s)"
  then have "CHR 0xEF \<in> set (byte_encode s)"
    unfolding literal_special_bar BAR_def by (auto dest!: set_mono_sublist)
  then show False using byte_encode_low[of "CHR 0xEF" s] by (simp add: byte_def)
qed

lemma bpe_symbols_encode: "bpe_symbols (byte_encode s) = map (\<lambda>c. byte_encode [c]) s"
proof (induction s)
  case (Cons c s)
  obtain d r where d: "byte_encode [c] = d # r" using byte_encode_char(3) by (meson neq_Nil_conv)
  have "bpe_symbols (d # r @ byte_encode s) = byte_encode [c] # bpe_symbols (byte_encode s)"
    using byte_encode_char(2)[of c "byte_encode s"] unfolding d by (simp add: Let_def)
  then show ?case using Cons unfolding byte_encode_Cons[of c s] d list.map by (simp add: d)
qed simp

section \<open>Merging\<close>

text \<open>What byte-level vocabularies have: every byte is a token, and every merge yields one.\<close>

definition vocab_closed :: "ds4_vocab \<Rightarrow> bool" where
  "vocab_closed vocab \<longleftrightarrow>
     (\<forall>c. table_find (vo_token_to_id vocab) (byte_encode [c]) \<noteq> None)
     \<and> (\<forall>a b. bpe_rank vocab a b \<ge> 0 \<longrightarrow> table_find (vo_token_to_id vocab) (a @ b) \<noteq> None)"

definition known :: "ds4_vocab \<Rightarrow> string \<Rightarrow> bool" where
  "known vocab s \<longleftrightarrow> table_find (vo_token_to_id vocab) (byte_encode s) \<noteq> None"

lemma bpe_best_rank:
  "bpe_best vocab i best_i r syms = Some j \<Longrightarrow> best_i = Some j
    \<or> i \<le> j \<and> j + 1 < i + length syms \<and> bpe_rank vocab (syms ! (j - i)) (syms ! (j + 1 - i)) \<ge> 0"
proof (induction vocab i best_i r syms rule: bpe_best.induct)
  case (1 vocab i best_i r a b syms)
  have shift: "(a # b # syms) ! (j - i) = (b # syms) ! (j - (i + 1))"
    "(a # b # syms) ! (j + 1 - i) = (b # syms) ! (j + 1 - (i + 1))" if "i + 1 \<le> j"
  proof -
    have "j - i = Suc (j - (i + 1))" "j + 1 - i = Suc (j + 1 - (i + 1))" using that by auto
    then show "(a # b # syms) ! (j - i) = (b # syms) ! (j - (i + 1))"
      "(a # b # syms) ! (j + 1 - i) = (b # syms) ! (j + 1 - (i + 1))" by simp_all
  qed
  show ?case
  proof (cases "bpe_rank vocab a b \<ge> 0 \<and> bpe_rank vocab a b < r")
    case True
    then have "bpe_best vocab (i + 1) (Some i) (bpe_rank vocab a b) (b # syms) = Some j"
      using 1(3) by (simp add: Let_def)
    from 1(1)[OF refl True this] show ?thesis using shift True by auto
  next
    case False
    then have "bpe_best vocab (i + 1) best_i r (b # syms) = Some j" using 1(3) by (auto simp: Let_def)
    from 1(2)[OF refl False this] show ?thesis using shift by auto
  qed
qed auto

lemma bpe_merge_encoded:
  assumes "vocab_closed vocab" "\<forall>p\<in>set ps. known vocab p"
  shows "\<exists>qs. bpe_merge vocab (map byte_encode ps) = map byte_encode qs \<and> concat qs = concat ps
    \<and> (\<forall>q\<in>set qs. known vocab q)"
  using assms(2)
proof (induction "length ps" arbitrary: ps rule: less_induct)
  case less
  show ?case
  proof (cases "bpe_best vocab 0 None INT32_MAX (map byte_encode ps)")
    case None
    then show ?thesis using less.prems by (subst bpe_merge.simps) auto
  next
    case (Some j)
    then have j: "j + 1 < length ps" "bpe_rank vocab (byte_encode (ps ! j)) (byte_encode (ps ! (j + 1))) \<ge> 0"
      using bpe_best_rank[OF Some] by auto
    define rs where "rs = take j ps @ (ps ! j @ ps ! (j + 1)) # drop (j + 2) ps"
    have "take j ps @ ps ! j # ps ! (j + 1) # drop (j + 2) ps = ps"
      using j(1) by (metis Suc_eq_plus1 Suc_lessD add_2_eq_Suc' id_take_nth_drop Cons_nth_drop_Suc)
    then have c: "concat rs = concat ps"
      by (metis append.assoc concat.simps(2) concat_append rs_def)
    have k: "\<forall>p\<in>set rs. known vocab p"
      using less.prems assms(1) j(2) by (auto simp: rs_def known_def vocab_closed_def dest: in_set_takeD in_set_dropD)
    have "bpe_merge_at j (map byte_encode ps) = map byte_encode rs"
      using j(1) by (simp add: bpe_merge_at_def rs_def take_map drop_map)
    then have "bpe_merge vocab (map byte_encode ps) = bpe_merge vocab (map byte_encode rs)"
      using Some by (subst bpe_merge.simps) simp
    moreover have "length rs < length ps" using j(1) by (simp add: rs_def)
    ultimately show ?thesis using less.hyps[OF _ k] c by metis
  qed
qed

section \<open>Texts of tokens\<close>

text \<open>The vocabulary knows the string of every number its tables give.\<close>

definition vocab_sound :: "ds4_vocab \<Rightarrow> bool" where
  "vocab_sound vocab \<longleftrightarrow>
     (\<forall>s id. table_find (vo_token_to_id vocab) s = Some id \<longrightarrow>
        0 \<le> id \<and> id < int (length (vo_token vocab)) \<and> vo_token vocab ! nat id = s)
     \<and> (\<forall>(s, token)\<in>set (special_tokens vocab). table_find (vo_token_to_id vocab) s = Some token)"

lemma load_table_find:
  assumes "load_table ss = Some t" "length ss < 2 ^ 61"
  shows "table_find t s = map_of (rev (numbered 0 ss)) s"
proof -
  obtain t0 t' where "table_init (of_nat (length ss)) = Some t0" "load_strings table_put 0 ss t0 = Some t'"
      "\<forall>s. table_get t' s = Some (map_of (rev (numbered 0 ss)) s)"
    using table_init_ready[OF assms(2)] hashed.load_get by blast
  then show ?thesis using assms(1) by (simp add: load_table_def table_find_def)
qed

lemma numbered_last:
  assumes "map_of (rev (numbered 0 ss)) s = Some v"
  shows "0 \<le> v \<and> v < int (length ss) \<and> ss ! nat v = s"
  using map_of_SomeD[OF assms] numbered_iff[of s v 0 ss] by simp

lemma vocab_load_SomeD:
  assumes "vocab_load tokens merges = Some vocab"
  shows "load_table tokens = Some (vo_token_to_id vocab)" "load_table merges = Some (vo_merge_rank vocab)"
    "vo_token vocab = tokens" "int (length tokens) \<le> INT32_MAX"
    "list_all (\<lambda>(s, token). table_find (vo_token_to_id vocab) s = Some token) (special_tokens vocab)"
  using assms unfolding vocab_load_def vocab_lookup_def
  by (simp_all add: special_tokens_def split: if_splits option.splits) auto

lemma vocab_load_sound:
  assumes "vocab_load tokens merges = Some vocab"
  shows "vocab_sound vocab"
proof -
  note v = vocab_load_SomeD[OF assms]
  have "length tokens < 2 ^ 61" using v(4) by (simp add: INT32_MAX_def)
  then have "table_find (vo_token_to_id vocab) s = map_of (rev (numbered 0 tokens)) s" for s
    by (rule load_table_find[OF v(1)])
  then show ?thesis using v(3,5) numbered_last by (simp add: vocab_sound_def list_all_iff)
qed

lemma token_text_found:
  assumes "vocab_sound vocab" "table_find (vo_token_to_id vocab) s = Some i"
  shows "ds4_token_text vocab i = (if vocab_token_is_literal_special s then s else token_bytes s)"
proof -
  have "0 \<le> i" "i < int (length (vo_token vocab))" "vo_token vocab ! nat i = s"
    using assms unfolding vocab_sound_def by blast+
  then show ?thesis by (simp add: ds4_token_text_def Let_def)
qed

definition tokens_text :: "ds4_vocab \<Rightarrow> int list \<Rightarrow> string" where
  "tokens_text vocab ts = concat (map (ds4_token_text vocab) ts)"

lemma tokens_text_simps [simp]:
  "tokens_text vocab [] = []" "tokens_text vocab (t # ts) = ds4_token_text vocab t @ tokens_text vocab ts"
  "tokens_text vocab (as @ bs) = tokens_text vocab as @ tokens_text vocab bs"
  by (simp_all add: tokens_text_def)

lemma emit_symbol_text:
  assumes "vocab_sound vocab" "known vocab s"
  shows "tokens_text vocab (bpe_emit_symbol vocab (byte_encode s)) = s"
proof -
  obtain id where "table_find (vo_token_to_id vocab) (byte_encode s) = Some id" using assms(2) by (auto simp: known_def)
  then show ?thesis
    using token_text_found[OF assms(1)] by (simp add: bpe_emit_symbol_def encoded_not_special token_bytes_encode)
qed

lemma emit_piece_text:
  assumes "vocab_sound vocab" "vocab_closed vocab"
  shows "tokens_text vocab (bpe_emit_piece vocab s) = s"
proof -
  have "\<forall>p\<in>set (map (\<lambda>c. [c]) s). known vocab p" using assms(2) by (auto simp: known_def vocab_closed_def)
  from bpe_merge_encoded[OF assms(2) this]
  obtain qs where q: "bpe_merge vocab (map byte_encode (map (\<lambda>c. [c]) s)) = map byte_encode qs"
      "concat qs = concat (map (\<lambda>c. [c]) s)" "\<forall>q\<in>set qs. known vocab q" by blast
  have "concat qs = s" using q(2) by (induction s arbitrary: qs) auto
  have "tokens_text vocab (concat (map (bpe_emit_symbol vocab) (map byte_encode qs))) = concat qs"
    using q(3) by (induction qs) (simp_all add: emit_symbol_text[OF assms(1)])
  then show ?thesis
    using q(1) \<open>concat qs = s\<close> by (simp add: bpe_emit_piece_def bpe_symbols_encode comp_def)
qed

lemma joyai_pieces_concat: "concat (joyai_pieces s) = s"
proof (induction s rule: joyai_pieces.induct)
  case (2 c s)
  show ?case
    unfolding joyai_pieces.simps(2)[of c s] concat.simps(2) 2 by (rule append_take_drop_id)
qed simp

lemma tokenize_text_text:
  assumes "vocab_sound vocab" "vocab_closed vocab"
  shows "tokens_text vocab (bpe_tokenize_text vocab s) = s"
proof -
  have "tokens_text vocab (concat (map (bpe_emit_piece vocab) ps)) = concat ps" for ps
    by (induction ps) (simp_all add: emit_piece_text[OF assms])
  then show ?thesis by (simp add: bpe_tokenize_text_def joyai_pieces_concat)
qed

lemma tokenize_span_text:
  "vocab_sound vocab \<Longrightarrow> vocab_closed vocab \<Longrightarrow> tokens_text vocab (tokenize_span vocab s) = s"
  by (simp add: tokenize_span_def tokenize_text_text)

section \<open>Texts of special tokens and chats\<close>

lemma byte_encode_printable:
  assumes "list_all (\<lambda>c. 33 \<le> byte c \<and> byte c \<le> 126) s"
  shows "byte_encode s = s"
proof -
  have "utf8_put_raw (of_nat (byte c)) = [c]" if "33 \<le> byte c" "byte c \<le> 126" for c
  proof -
    have "map byte (utf8_put_raw (of_nat (byte c))) = [byte c]"
      using that by (subst utf8_put_raw_bytes) auto
    then show ?thesis by (auto simp: map_eq_Cons_conv)
  qed
  then show ?thesis
    using assms unfolding byte_encode_def
    by (induction s) (simp_all add: gpt2_byte_to_codepoint_def gpt2_plain_def)
qed

lemma bar_marks_special:
  "vocab_token_is_literal_special BEGIN_OF_SENTENCE" "vocab_token_is_literal_special END_OF_SENTENCE"
  "vocab_token_is_literal_special USER_MARK" "vocab_token_is_literal_special ASSISTANT_MARK"
  "vocab_token_is_literal_special DS4_DSML"
  by (simp_all add: BEGIN_OF_SENTENCE_def END_OF_SENTENCE_def USER_MARK_def ASSISTANT_MARK_def DS4_DSML_def BAR_def)

lemma special_token_text:
  assumes "vocab_sound vocab" "(s, token) \<in> set (special_tokens vocab)"
  shows "ds4_token_text vocab token = s"
proof -
  have "table_find (vo_token_to_id vocab) s = Some token" using assms by (auto simp: vocab_sound_def)
  note t = token_text_found[OF assms(1) this]
  consider "vocab_token_is_literal_special s" | "s = THINK_START \<or> s = THINK_END"
    using assms(2) bar_marks_special unfolding special_tokens_def by auto
  then show ?thesis
  proof cases
    case 1
    then show ?thesis using t by simp
  next
    case 2
    have "list_all (\<lambda>c. 33 \<le> byte c \<and> byte c \<le> 126) s"
      using 2 by (elim disjE) (simp_all add: THINK_START_def THINK_END_def byte_def)
    then have "byte_encode s = s" by (rule byte_encode_printable)
    then show ?thesis using t token_bytes_encode[of s] by simp
  qed
qed

lemma rendered_loop_text:
  assumes "vocab_sound vocab" "vocab_closed vocab"
  shows "tokens_text vocab (rendered_chat_loop vocab span s) = span @ s"
  using assms
proof (induction vocab span s rule: rendered_chat_loop.induct)
  case (1 vocab span)
  then show ?case by (simp add: tokenize_span_text)
next
  case (2 vocab span c p)
  show ?case
  proof (cases "special_token_at vocab (c # p)")
    case None
    then show ?thesis using 2 by simp
  next
    case (Some tn)
    obtain token n where tn: "tn = (token, n)" by (cases tn)
    from special_token_at_SomeD(1)[OF Some[unfolded tn]]
    have "ds4_token_text vocab token = take n (c # p)" by (rule special_token_text[OF 2(3)])
    moreover have "tokens_text vocab (rendered_chat_loop vocab [] (drop n (c # p))) = drop n (c # p)"
      using 2(2)[OF Some tn[symmetric] 2(3,4)] by simp
    moreover have "take n (c # p) @ drop n (c # p) = c # p" by (rule append_take_drop_id)
    ultimately show ?thesis
      using 2(3,4) by (simp add: Some tn tokenize_span_text del: take_Suc_Cons append_take_drop_id)
  qed
qed

lemma tool_result_loop_text:
  assumes "vocab_sound vocab" "vocab_closed vocab"
  shows "tokens_text vocab (tool_result_loop vocab span s) = span @ protect TOOL_RESULT_END ''&lt;'' s"
  by (induction s arbitrary: span) (simp_all add: tokenize_span_text[OF assms] tokenize_text_text[OF assms])

section \<open>Vocabularies of model files\<close>

text \<open>What the file of a byte-level model holds: the seven special tokens, a token for every byte, and
  a token for the two halves of every merge put together.\<close>

definition special_names :: "string list" where
  "special_names = [BEGIN_OF_SENTENCE, END_OF_SENTENCE, USER_MARK, ASSISTANT_MARK, THINK_START, THINK_END, DS4_DSML]"

definition byte_level :: "string list \<Rightarrow> string list \<Rightarrow> bool" where
  "byte_level tokens merges \<longleftrightarrow>
     int (length tokens) \<le> INT32_MAX \<and> int (length merges) \<le> INT32_MAX
     \<and> set special_names \<subseteq> set tokens
     \<and> (\<forall>c. byte_encode [c] \<in> set tokens)
     \<and> (\<forall>a b. a @ '' '' @ b \<in> set merges \<longrightarrow> a @ b \<in> set tokens)"

lemma load_table_total:
  assumes "length ss < 2 ^ 61"
  shows "\<exists>t. load_table ss = Some t \<and> (\<forall>s. table_find t s = map_of (rev (numbered 0 ss)) s)"
proof -
  obtain t0 t' where "table_init (of_nat (length ss)) = Some t0" "load_strings table_put 0 ss t0 = Some t'"
    using table_init_ready[OF assms] hashed.load_get by blast
  then have "load_table ss = Some t'" by (simp add: load_table_def)
  then show ?thesis using load_table_find[OF _ assms] by blast
qed

lemma numbered_found: "map_of (rev (numbered 0 ss)) s \<noteq> None \<longleftrightarrow> s \<in> set ss"
  unfolding map_of_eq_None_iff using numbered_keys[of 0 ss] by simp

lemma byte_level_load:
  assumes "byte_level tokens merges"
  shows "\<exists>vocab. vocab_load tokens merges = Some vocab \<and> vocab_sound vocab \<and> vocab_closed vocab"
proof -
  have n: "length tokens < 2 ^ 61" "length merges < 2 ^ 61" "int (length tokens) \<le> INT32_MAX"
    using assms by (auto simp: byte_level_def INT32_MAX_def)
  obtain ids ranks where t: "load_table tokens = Some ids" "load_table merges = Some ranks"
    and f: "table_find ids = map_of (rev (numbered 0 tokens))" "table_find ranks = map_of (rev (numbered 0 merges))"
    using load_table_total[OF n(1)] load_table_total[OF n(2)] by blast
  have "\<forall>s\<in>set special_names. vocab_lookup ids s \<noteq> None"
    using assms unfolding vocab_lookup_def f numbered_found byte_level_def by blast
  then obtain vocab where v: "vocab_load tokens merges = Some vocab"
    using t n(3) unfolding vocab_load_def special_names_def
    by (auto split: option.splits)
  note r = vocab_load_SomeD[OF v]
  have g: "table_find (vo_token_to_id vocab) s \<noteq> None \<longleftrightarrow> s \<in> set tokens" for s
    using r(1) t(1) f(1) numbered_found by simp
  have "a @ '' '' @ b \<in> set merges" if "0 \<le> bpe_rank vocab a b" for a b
    using that r(2) t(2) f(2) numbered_found[of merges "a @ '' '' @ b"] by (simp add: bpe_rank_def split: option.splits)
  then have "vocab_closed vocab" using assms unfolding vocab_closed_def byte_level_def g by blast
  then show ?thesis using v vocab_load_sound[OF v] by blast
qed

section \<open>The normal form of merging\<close>

text \<open>No two neighbours have a rank below \<open>r\<close>.\<close>

definition unmergeable :: "ds4_vocab \<Rightarrow> int \<Rightarrow> string list \<Rightarrow> bool" where
  "unmergeable vocab r syms \<longleftrightarrow>
     list_all (\<lambda>(a, b). bpe_rank vocab a b < 0 \<or> r \<le> bpe_rank vocab a b) (zip syms (tl syms))"

lemma bpe_best_None: "bpe_best vocab i best_i r syms = None \<longleftrightarrow> best_i = None \<and> unmergeable vocab r syms"
proof (induction vocab i best_i r syms rule: bpe_best.induct)
  case (1 vocab i best_i r a b syms)
  then show ?case
    by (cases "0 \<le> bpe_rank vocab a b \<and> bpe_rank vocab a b < r") (auto simp: unmergeable_def Let_def)
qed (auto simp: unmergeable_def)

lemma bpe_merge_normal: "unmergeable vocab INT32_MAX (bpe_merge vocab syms) \<and> concat (bpe_merge vocab syms) = concat syms"
proof (induction vocab syms rule: bpe_merge.induct)
  case (1 vocab syms)
  show ?case
  proof (cases "bpe_best vocab 0 None INT32_MAX syms")
    case None
    then have "bpe_merge vocab syms = syms" by (subst bpe_merge.simps) simp
    then show ?thesis using None bpe_best_None by simp
  next
    case (Some j)
    have "j + 1 < length syms" using bpe_best_rank[OF Some] by auto
    then have "take j syms @ syms ! j # syms ! (j + 1) # drop (j + 2) syms = syms"
      by (metis Suc_eq_plus1 Suc_lessD add_2_eq_Suc' id_take_nth_drop Cons_nth_drop_Suc)
    then have "concat (bpe_merge_at j syms) = concat syms"
      unfolding bpe_merge_at_def by (metis append.assoc concat.simps(2) concat_append)
    moreover have "bpe_merge vocab syms = bpe_merge vocab (bpe_merge_at j syms)"
      using Some by (subst bpe_merge.simps) simp
    ultimately show ?thesis using 1[OF Some] by simp
  qed
qed

text \<open>C9. A vocabulary loaded from the file of a byte-level model loses no text: for every byte string
  the texts of its tokens, of the tokens of its spans and special markers when it is a rendered chat,
  and of the tokens of a tool result concatenate to that text (the tool result as the prompt renderer
  writes it).\<close>

theorem tokenizing_loses_nothing:
  assumes "byte_level tokens merges"
  shows "\<exists>vocab. vocab_load tokens merges = Some vocab
    \<and> tokens_text vocab (bpe_tokenize_text vocab s) = s
    \<and> tokens_text vocab (tokenize_rendered_chat_vocab vocab (Some s)) = s
    \<and> tokens_text vocab (bpe_tokenize_tool_result_text vocab (Some s)) = append_tool_result_text (Some s)"
proof -
  obtain vocab where v: "vocab_load tokens merges = Some vocab" "vocab_sound vocab" "vocab_closed vocab"
    using byte_level_load[OF assms] by blast
  then show ?thesis
    using tokenize_text_text[OF v(2,3)] rendered_loop_text[OF v(2,3)] tool_result_loop_text[OF v(2,3)]
    by (simp add: tokenize_rendered_chat_vocab_def bpe_tokenize_tool_result_text_def append_tool_result_text_def
        str_or_empty_def)
qed

text \<open>A vocabulary of the special tokens, the 256 bytes and one merged pair.\<close>

definition tiny_tokens :: "string list" where
  "tiny_tokens = special_names @ map (\<lambda>b. byte_encode [chr b]) [0..<256] @ [''hi'']"

lemma tiny_byte_level: "byte_level tiny_tokens [''h i'']"
proof -
  have "byte_encode [c] \<in> set tiny_tokens" for c
  proof -
    have "byte c \<in> {0..<256}" by simp
    then have "byte_encode [chr (byte c)] \<in> (\<lambda>b. byte_encode [chr b]) ` {0..<256}" by (rule imageI)
    then show ?thesis unfolding tiny_tokens_def set_append list.set_map set_upt chr_byte by blast
  qed
  moreover have "a @ b \<in> set tiny_tokens" if "a @ '' '' @ b \<in> set [''h i'']" for a b
  proof -
    have "a @ b = ''hi''" using that by (auto simp: append_eq_Cons_conv)
    then show ?thesis unfolding tiny_tokens_def set_append by simp
  qed
  moreover have "set special_names \<subseteq> set tiny_tokens" unfolding tiny_tokens_def set_append by blast
  moreover have "length tiny_tokens = 264"
    unfolding tiny_tokens_def length_append length_map length_upt special_names_def by simp
  ultimately show ?thesis unfolding byte_level_def by (simp add: INT32_MAX_def)
qed

theorem tokenizing_loses_nothing_witness:
  "\<exists>vocab. vocab_load tiny_tokens [''h i''] = Some vocab
    \<and> tokens_text vocab (bpe_tokenize_text vocab ''hi there'') = ''hi there''
    \<and> tokens_text vocab (tokenize_rendered_chat_vocab vocab (Some ''hi there'')) = ''hi there''
    \<and> tokens_text vocab (bpe_tokenize_tool_result_text vocab (Some ''hi there'')) = append_tool_result_text (Some ''hi there'')"
  using tokenizing_loses_nothing[OF tiny_byte_level] .

section \<open>The two chat encoders\<close>

text \<open>C18. For every user, tool or function message, in every state of the conversation, the token-level
  encoder appends tokens of exactly the text that the server's prompt renderer appends for it; only behind
  another tool result, which the renderer joins to the one before, the encoder writes one more user mark in
  front.\<close>

theorem appended_message_text:
  assumes "byte_level tokens merges" "vocab_load tokens merges = Some vocab"
    and "cm_role m = Some ''user'' \<or> role_is_tool (cm_role m)"
  shows "\<exists>piece. rs_out (render_message think replay st m) = rs_out st @ piece
    \<and> tokens_text vocab (ds4_chat_append_message vocab ts (cm_role m) (cm_content m))
      = tokens_text vocab ts
        @ (if role_is_tool (cm_role m) \<and> rs_pending_tool_result st then USER_MARK else []) @ piece"
proof -
  have v: "vocab_sound vocab" "vocab_closed vocab"
    using byte_level_load[OF assms(1)] assms(2) by auto
  have u: "ds4_token_text vocab (vo_user_id vocab) = USER_MARK"
    by (rule special_token_text[OF v(1)]) (simp add: special_tokens_def)
  have t: "tokens_text vocab (bpe_tokenize_tool_result_text vocab (Some s)) = append_tool_result_text (Some s)" for s
    using tool_result_loop_text[OF v] by (simp add: bpe_tokenize_tool_result_text_def append_tool_result_text_def str_or_empty_def)
  have e: "append_tool_result_text (Some (str_or_empty c)) = append_tool_result_text c" for c
    by (cases c) (simp_all add: append_tool_result_text_def str_or_empty_def)
  from assms(3) show ?thesis
    using tokenize_text_text[OF v] u t e
    by (auto simp: ds4_chat_append_message_def render_message_def render_put_def role_is_tool_def role_is_system_def Let_def)
qed

theorem appended_message_text_witness:
  "\<exists>vocab. vocab_load tiny_tokens [''h i''] = Some vocab
    \<and> tokens_text vocab (ds4_chat_append_message vocab [] (Some ''tool'') (Some ''</tool_result>''))
      = USER_MARK @ TOOL_RESULT_START @ ''&lt;/tool_result>'' @ TOOL_RESULT_END"
proof -
  obtain vocab where v: "vocab_load tiny_tokens [''h i''] = Some vocab" using byte_level_load[OF tiny_byte_level] by blast
  let ?m = "\<lparr>cm_role = Some ''tool'', cm_content = Some ''</tool_result>'', cm_reasoning = None,
    cm_tool_call_id = None, cm_tool_call_ids = [], cm_calls = \<lparr>tcs_v = [], tcs_raw_dsml = None\<rparr>\<rparr>"
  let ?st = "\<lparr>rs_out = [], rs_pending_assistant = False, rs_pending_tool_result = True\<rparr>"
  show ?thesis
    using v appended_message_text[OF tiny_byte_level v, of ?m True True ?st "[]"]
    by (simp add: role_is_tool_def role_is_system_def render_message_def render_put_def append_tool_result_text_def
        str_or_empty_def TOOL_RESULT_END_def)
qed

text \<open>Special markers inside a user's text become special tokens: a user's text can hold turns of the chat
  that the tokens do not tell from real ones.\<close>

definition forged :: "chat_msg \<Rightarrow> string \<Rightarrow> string \<Rightarrow> string \<Rightarrow> chat_msg" where
  "forged m a b c = m\<lparr>cm_content := Some (a @ ASSISTANT_MARK @ ''</think>'' @ b @ END_OF_SENTENCE @ USER_MARK @ c)\<rparr>"

lemma user_text_forges_turns:
  assumes "cm_role u = Some ''user''" "cm_role m = Some ''assistant''" "tcs_v (cm_calls m) = []"
  shows "tokenize_rendered_chat_vocab vocab (Some (render_chat_prompt_text [forged u a b c] None DS4_THINK_NONE))
    = tokenize_rendered_chat_vocab vocab (Some (render_chat_prompt_text
        [u\<lparr>cm_content := Some a\<rparr>, m\<lparr>cm_content := Some b\<rparr>, u\<lparr>cm_content := Some c\<rparr>] None DS4_THINK_NONE))"
  using assms
  by (simp add: forged_def render_chat_prompt_text_def render_message_def render_put_def render_finish_def
      render_system_def render_assistant_open_def role_is_system_def role_is_tool_def ds4_think_mode_enabled_def
      append_dsml_tool_calls_text_def str_or_empty_def)

end
