(* ===== verification/Protocol.thy ===== *)
theory Protocol
  imports Complex_Main Prelude
begin

text \<open>
  The lifecycle of one inference request (\<open>ds4_protocol_state.c\<close> and its header): the phases, the
  permitted changes, the single recovery and the single terminal outcome.  Times are only copied and
  are real numbers here; the pointers of the callers are never null, so a state stands for the object
  behind the pointer and an operation returns whether it succeeded with the new state.
\<close>

section \<open>Phases and states\<close>

datatype ds4_protocol_phase =
    DS4_PROTOCOL_QUEUED
  | DS4_PROTOCOL_PREFILL
  | DS4_PROTOCOL_DECODE
  | DS4_PROTOCOL_RECOVERY
  | DS4_PROTOCOL_SERIALIZE
  | DS4_PROTOCOL_COMPLETE
  | DS4_PROTOCOL_ERROR
  | DS4_PROTOCOL_CANCELLED

record ds4_protocol_state =
  ps_request_id :: u64
  ps_phase :: ds4_protocol_phase
  ps_tools_enabled :: bool
  ps_recovery_attempted :: bool
  ps_terminal :: bool
  ps_prompt_tokens :: int
  ps_completion_tokens :: int
  ps_created_at :: real
  ps_last_progress_at :: real

definition ds4_protocol_is_terminal :: "ds4_protocol_phase \<Rightarrow> bool" where
  "ds4_protocol_is_terminal phase \<longleftrightarrow>
     phase = DS4_PROTOCOL_COMPLETE \<or> phase = DS4_PROTOCOL_ERROR \<or> phase = DS4_PROTOCOL_CANCELLED"

definition transition_allowed :: "ds4_protocol_phase \<Rightarrow> ds4_protocol_phase \<Rightarrow> bool" where
  "transition_allowed from_phase to_phase \<longleftrightarrow>
     (if ds4_protocol_is_terminal from_phase then False
      else if ds4_protocol_is_terminal to_phase then True
      else
        (case from_phase of
           DS4_PROTOCOL_QUEUED \<Rightarrow> to_phase = DS4_PROTOCOL_PREFILL \<or> to_phase = DS4_PROTOCOL_SERIALIZE
         | DS4_PROTOCOL_PREFILL \<Rightarrow> to_phase = DS4_PROTOCOL_DECODE \<or> to_phase = DS4_PROTOCOL_SERIALIZE
         | DS4_PROTOCOL_DECODE \<Rightarrow> to_phase = DS4_PROTOCOL_RECOVERY \<or> to_phase = DS4_PROTOCOL_SERIALIZE
         | DS4_PROTOCOL_RECOVERY \<Rightarrow> to_phase = DS4_PROTOCOL_DECODE \<or> to_phase = DS4_PROTOCOL_SERIALIZE
         | _ \<Rightarrow> False))"

definition ds4_protocol_state_init :: "u64 \<Rightarrow> bool \<Rightarrow> real \<Rightarrow> ds4_protocol_state" where
  "ds4_protocol_state_init request_id tools_enabled now =
     \<lparr>ps_request_id = request_id, ps_phase = DS4_PROTOCOL_QUEUED, ps_tools_enabled = tools_enabled,
      ps_recovery_attempted = False, ps_terminal = False, ps_prompt_tokens = 0,
      ps_completion_tokens = 0, ps_created_at = now, ps_last_progress_at = now\<rparr>"

definition ds4_protocol_transition ::
  "ds4_protocol_phase \<Rightarrow> real \<Rightarrow> ds4_protocol_state \<Rightarrow> bool \<times> ds4_protocol_state" where
  "ds4_protocol_transition next_phase now state =
     (if \<not> transition_allowed (ps_phase state) next_phase then (False, state)
      else (True, state\<lparr>ps_phase := next_phase, ps_last_progress_at := now\<rparr>))"

definition ds4_protocol_begin_recovery ::
  "real \<Rightarrow> ds4_protocol_state \<Rightarrow> bool \<times> ds4_protocol_state" where
  "ds4_protocol_begin_recovery now state =
     (if ps_recovery_attempted state \<or> ps_phase state \<noteq> DS4_PROTOCOL_DECODE then (False, state)
      else ds4_protocol_transition DS4_PROTOCOL_RECOVERY now (state\<lparr>ps_recovery_attempted := True\<rparr>))"

definition ds4_protocol_finish ::
  "ds4_protocol_phase \<Rightarrow> real \<Rightarrow> ds4_protocol_state \<Rightarrow> bool \<times> ds4_protocol_state" where
  "ds4_protocol_finish terminal now state =
     (if \<not> ds4_protocol_is_terminal terminal \<or> ps_terminal state then (False, state)
      else
        (case ds4_protocol_transition terminal now state of
           (False, state') \<Rightarrow> (False, state')
         | (True, state') \<Rightarrow> (True, state'\<lparr>ps_terminal := True\<rparr>)))"

definition ds4_protocol_progress ::
  "int \<Rightarrow> int \<Rightarrow> real \<Rightarrow> ds4_protocol_state \<Rightarrow> ds4_protocol_state" where
  "ds4_protocol_progress prompt_tokens completion_tokens now state =
     (if ps_terminal state then state
      else
        state\<lparr>ps_prompt_tokens := (if prompt_tokens \<ge> 0 then prompt_tokens else ps_prompt_tokens state),
              ps_completion_tokens :=
                (if completion_tokens \<ge> 0 then completion_tokens else ps_completion_tokens state),
              ps_last_progress_at := now\<rparr>)"

fun ds4_protocol_phase_name :: "ds4_protocol_phase \<Rightarrow> string" where
  "ds4_protocol_phase_name DS4_PROTOCOL_QUEUED = ''queued''"
| "ds4_protocol_phase_name DS4_PROTOCOL_PREFILL = ''prefill''"
| "ds4_protocol_phase_name DS4_PROTOCOL_DECODE = ''decode''"
| "ds4_protocol_phase_name DS4_PROTOCOL_RECOVERY = ''recovery''"
| "ds4_protocol_phase_name DS4_PROTOCOL_SERIALIZE = ''serialize''"
| "ds4_protocol_phase_name DS4_PROTOCOL_COMPLETE = ''complete''"
| "ds4_protocol_phase_name DS4_PROTOCOL_ERROR = ''error''"
| "ds4_protocol_phase_name DS4_PROTOCOL_CANCELLED = ''cancelled''"

lemmas terminal_simps = ds4_protocol_is_terminal_def
lemmas protocol_defs = ds4_protocol_transition_def ds4_protocol_begin_recovery_def ds4_protocol_finish_def
  ds4_protocol_progress_def ds4_protocol_state_init_def

section \<open>Histories\<close>

text \<open>The phases a request goes through, from its queue to the last one: a way to the end of
  decoding with at most one recovery, the serialization, and one terminal phase.\<close>

definition lifecycles :: "ds4_protocol_phase list list" where
  "lifecycles =
     [way @ serialize @ outcome.
       way \<leftarrow> map (\<lambda>n. take (Suc n) [DS4_PROTOCOL_QUEUED, DS4_PROTOCOL_PREFILL, DS4_PROTOCOL_DECODE,
                DS4_PROTOCOL_RECOVERY, DS4_PROTOCOL_DECODE]) [0..<5],
       serialize \<leftarrow> [[], [DS4_PROTOCOL_SERIALIZE]],
       outcome \<leftarrow> [[], [DS4_PROTOCOL_COMPLETE], [DS4_PROTOCOL_ERROR], [DS4_PROTOCOL_CANCELLED]]]"

text \<open>What a history says of the state it led to.\<close>

definition history_of :: "ds4_protocol_phase list \<Rightarrow> ds4_protocol_state \<Rightarrow> bool" where
  "history_of h p \<longleftrightarrow>
     h \<in> set lifecycles \<and> last h = ps_phase p
     \<and> ps_recovery_attempted p = (DS4_PROTOCOL_RECOVERY \<in> set h)
     \<and> ps_terminal p = ds4_protocol_is_terminal (ps_phase p)"

definition extends :: "ds4_protocol_phase list \<Rightarrow> ds4_protocol_phase \<Rightarrow> bool" where
  "extends h ph \<longleftrightarrow> transition_allowed (last h) ph \<and> \<not> (ph = DS4_PROTOCOL_RECOVERY \<and> DS4_PROTOCOL_RECOVERY \<in> set h)"

definition all_phases :: "ds4_protocol_phase list" where
  "all_phases = [DS4_PROTOCOL_QUEUED, DS4_PROTOCOL_PREFILL, DS4_PROTOCOL_DECODE, DS4_PROTOCOL_RECOVERY,
     DS4_PROTOCOL_SERIALIZE, DS4_PROTOCOL_COMPLETE, DS4_PROTOCOL_ERROR, DS4_PROTOCOL_CANCELLED]"

lemma lifecycles_closed:
  "list_all (\<lambda>h. list_all (\<lambda>ph. extends h ph \<longrightarrow> h @ [ph] \<in> set lifecycles) all_phases) lifecycles"
  by code_simp

lemma in_all_phases: "ph \<in> set all_phases"
  by (cases ph) (simp_all add: all_phases_def)

lemma lifecycle_extend: "h \<in> set lifecycles \<Longrightarrow> extends h ph \<Longrightarrow> h @ [ph] \<in> set lifecycles"
  using lifecycles_closed in_all_phases by (fastforce simp: list_all_iff)

lemma lifecycles_nonempty: "h \<in> set lifecycles \<Longrightarrow> h \<noteq> [] \<and> last h \<in> set h"
  by (auto simp: lifecycles_def)

lemma history_init: "history_of [DS4_PROTOCOL_QUEUED] (ds4_protocol_state_init i tools now)"
proof -
  have "[DS4_PROTOCOL_QUEUED] \<in> set lifecycles" by code_simp
  then show ?thesis by (simp add: history_of_def protocol_defs terminal_simps)
qed

text \<open>The operations that the server uses keep the history: direct changes to neither a terminal phase
  nor the recovery, the recovery through its guard, and the ending through its guard.\<close>

lemma history_transition:
  assumes "history_of h p" "ds4_protocol_transition ph now p = (True, q)"
    and "\<not> ds4_protocol_is_terminal ph" "ph \<noteq> DS4_PROTOCOL_RECOVERY"
  shows "history_of (h @ [ph]) q"
  using assms lifecycle_extend[of h ph]
  by (auto simp: history_of_def ds4_protocol_transition_def extends_def transition_allowed_def split: if_splits)

lemma history_recovery:
  assumes "history_of h p" "ds4_protocol_begin_recovery now p = (True, q)"
  shows "history_of (h @ [DS4_PROTOCOL_RECOVERY]) q"
  using assms lifecycle_extend[of h DS4_PROTOCOL_RECOVERY]
  by (auto simp: history_of_def protocol_defs extends_def terminal_simps split: if_splits)

lemma finish_result:
  assumes "history_of h p" "ds4_protocol_is_terminal ph"
  shows "ds4_protocol_finish ph now p =
    (if ps_terminal p then (False, p)
     else (True, p\<lparr>ps_phase := ph, ps_last_progress_at := now, ps_terminal := True\<rparr>))"
  using assms by (simp add: ds4_protocol_finish_def ds4_protocol_transition_def history_of_def transition_allowed_def)

lemma history_finish:
  assumes "history_of h p" "ds4_protocol_finish ph now p = (True, q)"
  shows "history_of (h @ [ph]) q" "ps_terminal q" "ds4_protocol_is_terminal ph"
proof -
  have t: "ds4_protocol_is_terminal ph" using assms(2) by (auto simp: ds4_protocol_finish_def split: if_splits)
  then have q: "\<not> ps_terminal p" "q = p\<lparr>ps_phase := ph, ps_last_progress_at := now, ps_terminal := True\<rparr>"
    using assms finish_result by (auto split: if_splits)
  then show "history_of (h @ [ph]) q" "ps_terminal q" "ds4_protocol_is_terminal ph"
    using assms(1) t lifecycle_extend[of h ph]
    by (auto simp: history_of_def extends_def transition_allowed_def terminal_simps)
qed

lemma history_progress: "history_of h p \<Longrightarrow> history_of h (ds4_protocol_progress a b now p)"
  by (simp add: history_of_def ds4_protocol_progress_def)

lemma unchanged_on_failure:
  "ds4_protocol_transition ph now p = (False, q) \<Longrightarrow> q = p"
  "ds4_protocol_begin_recovery now p = (False, q) \<Longrightarrow> q = p"
  "ds4_protocol_finish ph now p = (False, q) \<Longrightarrow> q = p"
  by (auto simp: protocol_defs transition_allowed_def terminal_simps split: if_splits bool.splits)

lemma lifecycle_bound: "h \<in> set lifecycles \<Longrightarrow> length h \<le> 7 \<and> count_list h DS4_PROTOCOL_RECOVERY \<le> 1
    \<and> length (filter ds4_protocol_is_terminal h) \<le> 1"
proof -
  have "list_all (\<lambda>h. length h \<le> 7 \<and> count_list h DS4_PROTOCOL_RECOVERY \<le> 1
    \<and> length (filter ds4_protocol_is_terminal h) \<le> 1) lifecycles" by code_simp
  then show "h \<in> set lifecycles \<Longrightarrow> length h \<le> 7 \<and> count_list h DS4_PROTOCOL_RECOVERY \<le> 1
    \<and> length (filter ds4_protocol_is_terminal h) \<le> 1" by (simp add: list_all_iff)
qed

end
