(* ===== verification/Worker.thy ===== *)
theory Worker
  imports Protocol
begin

text \<open>
  The server's threads around the request queue (\<open>ds4_server.c\<close>): the client threads that put a job on
  the queue and wait for it, the one worker that serves the jobs, and the main thread that stops,
  drains and closes the server.  A job lives on its client's stack and is known by a pointer; the queue
  is a linked list through the jobs.  Each step of the relation is what one thread does under the
  server's lock, or one call of the request's protocol; between steps the threads interleave freely.
  The inference itself is the choice of calls that \<open>generate_job\<close> makes, in the order of its control
  flow; sockets and the session are not part of this model.
\<close>

section \<open>Jobs, the server and the queue\<close>

type_synonym job_ptr = nat

record job =
  jb_steering :: bool
  jb_has_tools :: bool
  jb_protocol :: ds4_protocol_state
  jb_done :: bool
  jb_next :: "job_ptr option"

record server =
  sv_head :: "job_ptr option"
  sv_tail :: "job_ptr option"
  sv_stopping :: bool
  sv_clients :: int
  sv_request_seq :: u64
  sv_worker_busy :: bool
  sv_active_protocol :: ds4_protocol_state
  sv_completed_requests :: u64
  sv_failed_requests :: u64
  sv_cancelled_requests :: u64
  sv_job :: "job_ptr \<Rightarrow> job"

definition put_job :: "job_ptr \<Rightarrow> job \<Rightarrow> server \<Rightarrow> server" where
  "put_job j v s = s\<lparr>sv_job := (sv_job s)(j := v)\<rparr>"

definition queue_push :: "job_ptr \<Rightarrow> server \<Rightarrow> server" where
  "queue_push j s =
     (case sv_tail s of
        Some t \<Rightarrow> put_job t ((sv_job s t)\<lparr>jb_next := Some j\<rparr>) s
      | None \<Rightarrow> s\<lparr>sv_head := Some j\<rparr>)\<lparr>sv_tail := Some j\<rparr>"

definition queue_pop :: "server \<Rightarrow> (job_ptr \<times> server) option" where
  "queue_pop s =
     (case sv_head s of
        None \<Rightarrow> None
      | Some j \<Rightarrow>
          (let nxt = jb_next (sv_job s j);
               s1 = s\<lparr>sv_head := nxt, sv_tail := (if nxt = None then None else sv_tail s)\<rparr> in
           Some (j, put_job j ((sv_job s1 j)\<lparr>jb_next := None\<rparr>) s1)))"

text \<open>\<open>client_main\<close> clears the job before it is enqueued.\<close>

definition new_job :: "bool \<Rightarrow> bool \<Rightarrow> job" where
  "new_job steering has_tools =
     \<lparr>jb_steering = steering, jb_has_tools = has_tools, jb_protocol = ds4_protocol_state_init 0 False 0,
      jb_done = False, jb_next = None\<rparr>"

definition enqueue :: "real \<Rightarrow> job_ptr \<Rightarrow> server \<Rightarrow> bool \<times> server" where
  "enqueue now j s =
     (if sv_stopping s then (False, s)
      else
        (let request_id = sv_request_seq s + 1; s1 = s\<lparr>sv_request_seq := request_id\<rparr>;
             p = ds4_protocol_state_init request_id (jb_has_tools (sv_job s j)) now in
         (True, queue_push j (put_job j ((sv_job s j)\<lparr>jb_protocol := p\<rparr>) s1))))"

text \<open>What a wait for a job ends with: \<open>None\<close> while it goes on.\<close>

definition dequeue :: "server \<Rightarrow> (job_ptr option \<times> server) option" where
  "dequeue s =
     (if sv_head s = None \<and> \<not> sv_stopping s then None
      else
        (case queue_pop s of
           None \<Rightarrow> Some (None, s)
         | Some (j, s') \<Rightarrow> Some (Some j, s')))"

text \<open>The loop of \<open>send_health\<close> over the queue.\<close>

partial_function (option) queued_from :: "server \<Rightarrow> nat \<Rightarrow> job_ptr option \<Rightarrow> nat option" where
  "queued_from s queued j =
     (case j of
        None \<Rightarrow> Some queued
      | Some i \<Rightarrow> queued_from s (queued + 1) (jb_next (sv_job s i)))"

section \<open>Protocol calls of the server\<close>

definition put_protocol :: "job_ptr \<Rightarrow> ds4_protocol_state \<Rightarrow> server \<Rightarrow> server" where
  "put_protocol j p s = (put_job j ((sv_job s j)\<lparr>jb_protocol := p\<rparr>) s)\<lparr>sv_active_protocol := p\<rparr>"

definition server_protocol_transition ::
  "real \<Rightarrow> job_ptr \<Rightarrow> ds4_protocol_phase \<Rightarrow> server \<Rightarrow> bool \<times> server" where
  "server_protocol_transition now j phase s =
     (case ds4_protocol_transition phase now (jb_protocol (sv_job s j)) of
        (ok, p) \<Rightarrow> (ok, if ok then put_protocol j p s else s))"

definition server_protocol_begin_recovery :: "real \<Rightarrow> job_ptr \<Rightarrow> server \<Rightarrow> bool \<times> server" where
  "server_protocol_begin_recovery now j s =
     (case ds4_protocol_begin_recovery now (jb_protocol (sv_job s j)) of
        (ok, p) \<Rightarrow> (ok, if ok then put_protocol j p s else s))"

definition server_protocol_progress :: "real \<Rightarrow> job_ptr \<Rightarrow> int \<Rightarrow> int \<Rightarrow> server \<Rightarrow> server" where
  "server_protocol_progress now j prompt_tokens completion_tokens s =
     put_protocol j (ds4_protocol_progress prompt_tokens completion_tokens now (jb_protocol (sv_job s j))) s"

definition count_outcome :: "ds4_protocol_phase \<Rightarrow> server \<Rightarrow> server" where
  "count_outcome phase s =
     (if phase = DS4_PROTOCOL_COMPLETE then s\<lparr>sv_completed_requests := sv_completed_requests s + 1\<rparr>
      else if phase = DS4_PROTOCOL_CANCELLED then s\<lparr>sv_cancelled_requests := sv_cancelled_requests s + 1\<rparr>
      else s\<lparr>sv_failed_requests := sv_failed_requests s + 1\<rparr>)"

definition server_protocol_finish ::
  "real \<Rightarrow> job_ptr \<Rightarrow> ds4_protocol_phase \<Rightarrow> server \<Rightarrow> bool \<times> server" where
  "server_protocol_finish now j phase s =
     (case ds4_protocol_finish phase now (jb_protocol (sv_job s j)) of
        (ok, p) \<Rightarrow> (ok, if ok then count_outcome phase (put_protocol j p s) else s))"

section \<open>The worker's control flow\<close>

text \<open>The calls of the worker and of \<open>generate_job\<close>, and where the worker stands between them.\<close>

datatype call =
    Call_Transition ds4_protocol_phase
  | Call_Recovery
  | Call_Progress int int
  | Call_Finish ds4_protocol_phase

fun perform :: "real \<Rightarrow> job_ptr \<Rightarrow> call \<Rightarrow> server \<Rightarrow> bool \<times> server" where
  "perform now j (Call_Transition phase) s = server_protocol_transition now j phase s"
| "perform now j Call_Recovery s = server_protocol_begin_recovery now j s"
| "perform now j (Call_Progress p c) s = (True, server_protocol_progress now j p c s)"
| "perform now j (Call_Finish phase) s = server_protocol_finish now j phase s"

datatype stage =
    Begin | Steering | Prefill | Decode | Recovery | Serialize | Return

datatype worker_pc =
    W_Idle
  | W_Started job_ptr
  | W_Job stage job_ptr
  | W_Clear job_ptr
  | W_Publish job_ptr
  | W_Exit

text \<open>\<open>next_call stop steering from call ok to\<close>: the call that a stage makes and the stage behind it,
  by the result of the call.  \<open>stop\<close> is the signal flag, which is never cleared.\<close>

inductive next_call :: "bool \<Rightarrow> bool \<Rightarrow> stage \<Rightarrow> call \<Rightarrow> bool \<Rightarrow> stage \<Rightarrow> bool" for stop steering where
  steer: "steering \<Longrightarrow> next_call stop steering Begin (Call_Transition DS4_PROTOCOL_SERIALIZE) ok Steering"
| steered: "next_call stop steering Steering (Call_Finish DS4_PROTOCOL_COMPLETE) ok Return"
| generate: "\<not> steering \<Longrightarrow> next_call stop steering Begin (Call_Transition DS4_PROTOCOL_PREFILL) ok Prefill"
| prefill_progress: "next_call stop steering Prefill (Call_Progress p c) ok Prefill"
| prefill_interrupted: "ph = DS4_PROTOCOL_CANCELLED \<or> ph = DS4_PROTOCOL_ERROR \<Longrightarrow>
    next_call stop steering Prefill (Call_Finish ph) ok Return"
| prefilled: "next_call stop steering Prefill (Call_Transition DS4_PROTOCOL_DECODE) ok Decode"
| decode_progress: "next_call stop steering Decode (Call_Progress p c) ok Decode"
| recover: "next_call stop steering Decode Call_Recovery True Recovery"
| recover_refused: "next_call stop steering Decode Call_Recovery False Decode"
| decode_again: "next_call stop steering Recovery (Call_Transition DS4_PROTOCOL_DECODE) ok Decode"
| decoded: "next_call stop steering Decode (Call_Transition DS4_PROTOCOL_SERIALIZE) ok Serialize"
| answered: "ph = DS4_PROTOCOL_COMPLETE \<or> ph = DS4_PROTOCOL_ERROR \<or> ph = DS4_PROTOCOL_CANCELLED \<and> stop \<Longrightarrow>
    next_call stop steering Serialize (Call_Finish ph) ok Return"

text \<open>Moves without a call: the early returns, and a recovery that could not be continued.\<close>

inductive next_silent :: "stage \<Rightarrow> stage \<Rightarrow> bool" where
  prefill_return: "next_silent Prefill Return"
| decode_return: "next_silent Decode Return"
| recovery_failed: "next_silent Recovery Decode"

section \<open>The system\<close>

datatype client_pc = C_New | C_Connected | C_Waiting | C_Leaving | C_Gone

datatype main_pc = M_Accept | M_Drain | M_Joined | M_Closed

record sys =
  sy_server :: server
  sy_worker :: worker_pc
  sy_main :: main_pc
  sy_client :: "job_ptr \<Rightarrow> client_pc"
  sy_stop :: bool

datatype event = Accepted job_ptr | Phase job_ptr ds4_protocol_phase | Served job_ptr

fun call_phase :: "call \<Rightarrow> ds4_protocol_phase option" where
  "call_phase (Call_Transition ph) = Some ph"
| "call_phase Call_Recovery = Some DS4_PROTOCOL_RECOVERY"
| "call_phase (Call_Progress p c) = None"
| "call_phase (Call_Finish ph) = Some ph"

definition call_events :: "job_ptr \<Rightarrow> call \<Rightarrow> bool \<Rightarrow> event list" where
  "call_events j c ok =
     (case call_phase c of Some ph \<Rightarrow> if ok then [Phase j ph] else [] | None \<Rightarrow> [])"

definition client_done :: "server \<Rightarrow> server" where
  "client_done s = (if sv_clients s > 0 then s\<lparr>sv_clients := sv_clients s - 1\<rparr> else s)"

definition go :: "job_ptr \<Rightarrow> client_pc \<Rightarrow> sys \<Rightarrow> sys" where
  "go j pc y = y\<lparr>sy_client := (sy_client y)(j := pc)\<rparr>"

text \<open>The exits of the worker for a job without a terminal outcome.\<close>

definition last_outcome :: "bool \<Rightarrow> ds4_protocol_phase \<Rightarrow> bool" where
  "last_outcome stop ph \<longleftrightarrow> ph = DS4_PROTOCOL_ERROR \<or> ph = DS4_PROTOCOL_CANCELLED \<and> stop"

inductive sys_step :: "sys \<Rightarrow> event list \<Rightarrow> sys \<Rightarrow> bool" where
  connect: "sy_main y = M_Accept \<Longrightarrow> sy_client y j = C_New \<Longrightarrow>
    sys_step y [] (go j C_Connected (y\<lparr>sy_server := (sy_server y)\<lparr>sv_clients := sv_clients (sy_server y) + 1\<rparr>\<rparr>))"
| answered_directly: "sy_client y j = C_Connected \<Longrightarrow> sys_step y [] (go j C_Leaving y)"
| accepted: "sy_client y j = C_Connected \<Longrightarrow>
    enqueue now j (put_job j (new_job steering has_tools) (sy_server y)) = (True, s) \<Longrightarrow>
    sys_step y [Accepted j] (go j C_Waiting (y\<lparr>sy_server := s\<rparr>))"
| refused: "sy_client y j = C_Connected \<Longrightarrow>
    enqueue now j (put_job j (new_job steering has_tools) (sy_server y)) = (False, s) \<Longrightarrow>
    sys_step y [] (go j C_Leaving (y\<lparr>sy_server := s\<rparr>))"
| woken: "sy_client y j = C_Waiting \<Longrightarrow> jb_done (sv_job (sy_server y) j) \<Longrightarrow> sys_step y [] (go j C_Leaving y)"
| left: "sy_client y j = C_Leaving \<Longrightarrow>
    sys_step y [] (go j C_Gone (y\<lparr>sy_server := client_done (sy_server y)\<rparr>))"
| signal: "sys_step y [] (y\<lparr>sy_stop := True\<rparr>)"
| stopping: "sy_main y = M_Accept \<Longrightarrow> sy_stop y \<Longrightarrow>
    sys_step y [] (y\<lparr>sy_main := M_Drain, sy_server := (sy_server y)\<lparr>sv_stopping := True\<rparr>\<rparr>)"
| joined: "sy_main y = M_Drain \<Longrightarrow> sy_worker y = W_Exit \<Longrightarrow> sys_step y [] (y\<lparr>sy_main := M_Joined\<rparr>)"
| closed: "sy_main y = M_Joined \<Longrightarrow> \<not> sv_clients (sy_server y) > 0 \<Longrightarrow> sys_step y [] (y\<lparr>sy_main := M_Closed\<rparr>)"
| take_job: "sy_worker y = W_Idle \<Longrightarrow> dequeue (sy_server y) = Some (Some j, s) \<Longrightarrow>
    sys_step y [] (y\<lparr>sy_worker := W_Started j, sy_server := s\<rparr>)"
| worker_exit: "sy_worker y = W_Idle \<Longrightarrow> dequeue (sy_server y) = Some (None, s) \<Longrightarrow>
    sys_step y [] (y\<lparr>sy_worker := W_Exit, sy_server := s\<rparr>)"
| started: "sy_worker y = W_Started j \<Longrightarrow>
    sys_step y [] (y\<lparr>sy_worker := W_Job Begin j, sy_server := (sy_server y)\<lparr>sv_worker_busy := True,
      sv_active_protocol := jb_protocol (sv_job (sy_server y) j)\<rparr>\<rparr>)"
| called: "sy_worker y = W_Job from_stage j \<Longrightarrow>
    next_call (sy_stop y) (jb_steering (sv_job (sy_server y) j)) from_stage c ok to_stage \<Longrightarrow>
    perform now j c (sy_server y) = (ok, s) \<Longrightarrow>
    sys_step y (call_events j c ok) (y\<lparr>sy_worker := W_Job to_stage j, sy_server := s\<rparr>)"
| moved: "sy_worker y = W_Job from_stage j \<Longrightarrow> next_silent from_stage to_stage \<Longrightarrow>
    sys_step y [] (y\<lparr>sy_worker := W_Job to_stage j\<rparr>)"
| returned: "sy_worker y = W_Job Return j \<Longrightarrow> ps_terminal (jb_protocol (sv_job (sy_server y) j)) \<Longrightarrow>
    sys_step y [] (y\<lparr>sy_worker := W_Clear j\<rparr>)"
| closed_job: "sy_worker y = W_Job Return j \<Longrightarrow> \<not> ps_terminal (jb_protocol (sv_job (sy_server y) j)) \<Longrightarrow>
    last_outcome (sy_stop y) ph \<Longrightarrow> server_protocol_finish now j ph (sy_server y) = (ok, s) \<Longrightarrow>
    sys_step y (call_events j (Call_Finish ph) ok) (y\<lparr>sy_worker := W_Clear j, sy_server := s\<rparr>)"
| cleared: "sy_worker y = W_Clear j \<Longrightarrow>
    sys_step y [] (y\<lparr>sy_worker := W_Publish j, sy_server := (sy_server y)\<lparr>sv_worker_busy := False,
      sv_active_protocol := jb_protocol (sv_job (sy_server y) j)\<rparr>\<rparr>)"
| served: "sy_worker y = W_Publish j \<Longrightarrow>
    sys_step y [Served j] (y\<lparr>sy_worker := W_Idle,
      sy_server := put_job j ((sv_job (sy_server y) j)\<lparr>jb_done := True\<rparr>) (sy_server y)\<rparr>)"

text \<open>The server as \<open>main\<close> sets it up, with every client still to come.\<close>

definition start_server :: "(job_ptr \<Rightarrow> job) \<Rightarrow> server" where
  "start_server jobs =
     \<lparr>sv_head = None, sv_tail = None, sv_stopping = False, sv_clients = 0, sv_request_seq = 0,
      sv_worker_busy = False, sv_active_protocol = ds4_protocol_state_init 0 False 0,
      sv_completed_requests = 0, sv_failed_requests = 0, sv_cancelled_requests = 0, sv_job = jobs\<rparr>"

definition start_sys :: "(job_ptr \<Rightarrow> job) \<Rightarrow> sys" where
  "start_sys jobs =
     \<lparr>sy_server = start_server jobs, sy_worker = W_Idle, sy_main = M_Accept,
      sy_client = (\<lambda>_. C_New), sy_stop = False\<rparr>"

inductive sys_run :: "event list \<Rightarrow> sys \<Rightarrow> bool" where
  start: "sys_run [] (start_sys jobs)"
| step: "sys_run evs y \<Longrightarrow> sys_step y es y' \<Longrightarrow> sys_run (evs @ es) y'"

end
