(* ===== verification/WorkerRun.thy ===== *)
theory WorkerRun
  imports Worker
begin

text \<open>
  What every run of the server keeps: jobs are served once each and in the order of their numbers, each
  request goes through one permitted history of phases with one terminal outcome, the counters agree
  with the outcomes, no job is touched behind its client's back, and a stopped server drains and closes.
\<close>

section \<open>The queue\<close>

text \<open>The contract of a first-in first-out queue on a state that holds it.\<close>

locale fifo =
  fixes holds :: "'s \<Rightarrow> 'a list \<Rightarrow> bool"
    and ready :: "'s \<Rightarrow> 'a \<Rightarrow> bool"
    and push :: "'a \<Rightarrow> 's \<Rightarrow> 's"
    and pop :: "'s \<Rightarrow> ('a \<times> 's) option"
  assumes push_holds: "holds s js \<Longrightarrow> ready s j \<Longrightarrow> j \<notin> set js \<Longrightarrow> holds (push j s) (js @ [j])"
    and pop_nil: "holds s [] \<Longrightarrow> pop s = None"
    and pop_cons: "holds s (j # js) \<Longrightarrow> \<exists>s'. pop s = Some (j, s') \<and> holds s' js"
begin

lemma pop_NoneD: "holds s js \<Longrightarrow> pop s = None \<Longrightarrow> js = []"
  using pop_cons by (cases js) fastforce+

lemma pop_SomeD: "holds s js \<Longrightarrow> pop s = Some (j, s') \<Longrightarrow> js = j # tl js \<and> holds s' (tl js)"
  using pop_cons pop_nil by (cases js) fastforce+

lemma pop_SomeE:
  assumes "holds s js" "pop s = Some (j, s')"
  obtains js' where "js = j # js'" "holds s' js'"
  using pop_SomeD[OF assms] by blast

end

fun linked :: "(job_ptr \<Rightarrow> job_ptr option) \<Rightarrow> job_ptr list \<Rightarrow> bool" where
  "linked nxt [] = True"
| "linked nxt [j] = (nxt j = None)"
| "linked nxt (j # k # js) = (nxt j = Some k \<and> linked nxt (k # js))"

definition next_of :: "server \<Rightarrow> job_ptr \<Rightarrow> job_ptr option" where
  "next_of s j = jb_next (sv_job s j)"

definition queue_holds :: "server \<Rightarrow> job_ptr list \<Rightarrow> bool" where
  "queue_holds s js \<longleftrightarrow> distinct js \<and> linked (next_of s) js
     \<and> sv_head s = (if js = [] then None else Some (hd js))
     \<and> sv_tail s = (if js = [] then None else Some (List.last js))"

lemma linked_cong: "(\<And>j. j \<in> set js \<Longrightarrow> f j = g j) \<Longrightarrow> linked f js = linked g js"
  by (induction f js rule: linked.induct) auto

lemma linked_snoc:
  "linked f (js @ [j]) \<Longrightarrow> f k = None \<Longrightarrow> k \<notin> set (js @ [j]) \<Longrightarrow> distinct (js @ [j]) \<Longrightarrow> linked (f(j := Some k)) (js @ [j, k])"
proof (induction f js rule: linked.induct)
  case (2 nxt a)
  then show ?case by auto
next
  case (3 nxt a b js)
  then show ?case by auto
qed auto

lemma linked_tl: "linked f (j # js) \<Longrightarrow> linked f js"
  by (cases js) auto

interpretation requests: fifo queue_holds "\<lambda>s j. next_of s j = None" queue_push queue_pop
proof
  fix s js j
  assume h: "queue_holds s js" and n: "next_of s j = None" "j \<notin> set js"
  show "queue_holds (queue_push j s) (js @ [j])"
  proof (cases js rule: rev_cases)
    case Nil
    then show ?thesis using h n by (simp add: queue_holds_def queue_push_def next_of_def)
  next
    case (snoc front t)
    have "next_of (queue_push j s) = (next_of s)(t := Some j)"
      using h snoc by (auto simp: queue_holds_def queue_push_def next_of_def put_job_def)
    then show ?thesis using h n snoc linked_snoc[of "next_of s" front t j]
      by (auto simp: queue_holds_def queue_push_def put_job_def hd_append)
  qed
next
  fix s
  assume "queue_holds s []"
  then show "queue_pop s = None" by (simp add: queue_holds_def queue_pop_def)
next
  fix s j js
  assume h: "queue_holds s (j # js)"
  obtain s' where s': "queue_pop s = Some (j, s')"
    using h by (simp add: queue_holds_def queue_pop_def Let_def)
  have n: "next_of s j = (if js = [] then None else Some (hd js))"
    using h by (cases js) (auto simp: queue_holds_def)
  have "linked (next_of s') js = linked (next_of s) js"
    by (rule linked_cong) (use h s' in \<open>auto simp: queue_holds_def queue_pop_def next_of_def put_job_def Let_def\<close>)
  then have "queue_holds s' js"
    using h s' n linked_tl[of "next_of s" j js]
    by (auto simp: queue_holds_def queue_pop_def next_of_def put_job_def Let_def)
  then show "\<exists>s'. queue_pop s = Some (j, s') \<and> queue_holds s' js" using s' by blast
qed

lemma queue_holds_cong:
  "queue_holds s js \<Longrightarrow> sv_head s' = sv_head s \<Longrightarrow> sv_tail s' = sv_tail s \<Longrightarrow>
    (\<And>j. j \<in> set js \<Longrightarrow> next_of s' j = next_of s j) \<Longrightarrow> queue_holds s' js"
  using linked_cong[of js "next_of s'" "next_of s"] by (simp add: queue_holds_def)

lemma queued_from_linked:
  "linked (next_of s) js \<Longrightarrow> queued_from s n (if js = [] then None else Some (hd js)) = Some (n + length js)"
proof (induction js arbitrary: n)
  case Nil
  then show ?case by (simp add: queued_from.simps)
next
  case (Cons j js)
  have "jb_next (sv_job s j) = (if js = [] then None else Some (hd js))"
    using Cons.prems by (cases js) (auto simp: next_of_def)
  then show ?case using Cons.IH[OF linked_tl[OF Cons.prems]] by (simp add: queued_from.simps[of s n])
qed

section \<open>Events of a run\<close>

definition accepted_of :: "event list \<Rightarrow> job_ptr list" where
  "accepted_of evs = List.map_filter (\<lambda>e. case e of Accepted j \<Rightarrow> Some j | _ \<Rightarrow> None) evs"

definition served_of :: "event list \<Rightarrow> job_ptr list" where
  "served_of evs = List.map_filter (\<lambda>e. case e of Served j \<Rightarrow> Some j | _ \<Rightarrow> None) evs"

text \<open>The phases of a job, its queue first.\<close>

definition phases_of :: "job_ptr \<Rightarrow> event list \<Rightarrow> ds4_protocol_phase list" where
  "phases_of j evs = DS4_PROTOCOL_QUEUED #
     List.map_filter (\<lambda>e. case e of Phase i ph \<Rightarrow> if i = j then Some ph else None | _ \<Rightarrow> None) evs"

definition outcomes :: "(ds4_protocol_phase \<Rightarrow> bool) \<Rightarrow> event list \<Rightarrow> nat" where
  "outcomes P evs = length (filter (\<lambda>e. case e of Phase i ph \<Rightarrow> P ph | _ \<Rightarrow> False) evs)"

lemma map_filter_append: "List.map_filter f (as @ bs) = List.map_filter f as @ List.map_filter f bs"
  by (simp add: List.map_filter_def)

lemma accepted_of_simps [simp]:
  "accepted_of [] = []" "accepted_of (as @ bs) = accepted_of as @ accepted_of bs"
  "accepted_of [Accepted j] = [j]" "accepted_of [Served j] = []" "accepted_of (call_events j c ok) = []"
  by (auto simp: accepted_of_def map_filter_append call_events_def List.map_filter_def split: option.splits)

lemma served_of_simps [simp]:
  "served_of [] = []" "served_of (as @ bs) = served_of as @ served_of bs"
  "served_of [Accepted j] = []" "served_of [Served j] = [j]" "served_of (call_events j c ok) = []"
  by (auto simp: served_of_def map_filter_append call_events_def List.map_filter_def split: option.splits)

text \<open>The phases that a call adds.\<close>

fun new_phases :: "call \<Rightarrow> bool \<Rightarrow> ds4_protocol_phase list" where
  "new_phases c False = []"
| "new_phases (Call_Transition ph) True = [ph]"
| "new_phases Call_Recovery True = [DS4_PROTOCOL_RECOVERY]"
| "new_phases (Call_Progress p c) True = []"
| "new_phases (Call_Finish ph) True = [ph]"

lemma phases_of_simps [simp]:
  "phases_of j [] = [DS4_PROTOCOL_QUEUED]" "phases_of j (as @ [Accepted i]) = phases_of j as"
  "phases_of j (as @ [Served i]) = phases_of j as"
  "phases_of j (as @ call_events i c ok) =
     phases_of j as @ (if i = j then new_phases c ok else [])"
  by (cases c; cases ok; simp add: phases_of_def map_filter_append call_events_def List.map_filter_def)+

lemma outcomes_simps [simp]:
  "outcomes P [] = 0" "outcomes P (as @ [Accepted i]) = outcomes P as" "outcomes P (as @ [Served i]) = outcomes P as"
  "outcomes P (as @ call_events i c ok) =
     outcomes P as + (if ok then case call_phase c of Some ph \<Rightarrow> of_bool (P ph) | None \<Rightarrow> 0 else 0)"
  by (auto simp: outcomes_def call_events_def split: option.splits)

text \<open>The job that the worker has taken and not yet published.\<close>

fun in_service :: "worker_pc \<Rightarrow> job_ptr list" where
  "in_service (W_Started j) = [j]"
| "in_service (W_Job st j) = [j]"
| "in_service (W_Clear j) = [j]"
| "in_service (W_Publish j) = [j]"
| "in_service W_Idle = []"
| "in_service W_Exit = []"

section \<open>What the steps leave alone\<close>

lemma put_job_sel [simp]:
  "sv_head (put_job j v s) = sv_head s" "sv_tail (put_job j v s) = sv_tail s"
  "sv_stopping (put_job j v s) = sv_stopping s" "sv_clients (put_job j v s) = sv_clients s"
  "sv_request_seq (put_job j v s) = sv_request_seq s" "sv_job (put_job j v s) = (sv_job s)(j := v)"
  "sv_completed_requests (put_job j v s) = sv_completed_requests s"
  "sv_failed_requests (put_job j v s) = sv_failed_requests s"
  "sv_cancelled_requests (put_job j v s) = sv_cancelled_requests s"
  by (simp_all add: put_job_def)

lemma put_protocol_sel [simp]:
  "sv_head (put_protocol j p s) = sv_head s" "sv_tail (put_protocol j p s) = sv_tail s"
  "sv_stopping (put_protocol j p s) = sv_stopping s" "sv_clients (put_protocol j p s) = sv_clients s"
  "sv_request_seq (put_protocol j p s) = sv_request_seq s"
  "sv_job (put_protocol j p s) = (sv_job s)(j := (sv_job s j)\<lparr>jb_protocol := p\<rparr>)"
  "sv_completed_requests (put_protocol j p s) = sv_completed_requests s"
  "sv_failed_requests (put_protocol j p s) = sv_failed_requests s"
  "sv_cancelled_requests (put_protocol j p s) = sv_cancelled_requests s"
  by (simp_all add: put_protocol_def)

lemma count_outcome_sel [simp]:
  "sv_head (count_outcome ph s) = sv_head s" "sv_tail (count_outcome ph s) = sv_tail s"
  "sv_stopping (count_outcome ph s) = sv_stopping s" "sv_clients (count_outcome ph s) = sv_clients s"
  "sv_request_seq (count_outcome ph s) = sv_request_seq s" "sv_job (count_outcome ph s) = sv_job s"
  by (simp_all add: count_outcome_def)

lemmas protocol_calls = server_protocol_transition_def server_protocol_begin_recovery_def
  server_protocol_progress_def server_protocol_finish_def

lemma perform_frame:
  assumes "perform now j c s = (ok, s')"
  shows "sv_head s' = sv_head s" "sv_tail s' = sv_tail s" "sv_stopping s' = sv_stopping s"
    "sv_clients s' = sv_clients s" "sv_request_seq s' = sv_request_seq s" "next_of s' = next_of s"
    "jb_done (sv_job s' k) = jb_done (sv_job s k)" "jb_steering (sv_job s' k) = jb_steering (sv_job s k)"
    "k \<noteq> j \<Longrightarrow> sv_job s' k = sv_job s k"
    "ps_request_id (jb_protocol (sv_job s' k)) = ps_request_id (jb_protocol (sv_job s k))"
  using assms by (cases c; auto simp: protocol_calls next_of_def protocol_defs split: prod.splits if_splits)+

lemma finish_is_call: "server_protocol_finish now j ph s = (ok, s') \<Longrightarrow> perform now j (Call_Finish ph) s = (ok, s')"
  by simp

lemma pop_frame:
  assumes "queue_pop s = Some (j, s')"
  shows "sv_stopping s' = sv_stopping s" "sv_clients s' = sv_clients s" "sv_request_seq s' = sv_request_seq s"
    "jb_done (sv_job s' k) = jb_done (sv_job s k)" "jb_steering (sv_job s' k) = jb_steering (sv_job s k)"
    "jb_protocol (sv_job s' k) = jb_protocol (sv_job s k)"
    "sv_completed_requests s' = sv_completed_requests s" "sv_failed_requests s' = sv_failed_requests s"
    "sv_cancelled_requests s' = sv_cancelled_requests s"
  using assms by (auto simp: queue_pop_def Let_def split: option.splits if_splits)

lemma push_frame:
  "sv_stopping (queue_push j s) = sv_stopping s" "sv_clients (queue_push j s) = sv_clients s"
  "sv_request_seq (queue_push j s) = sv_request_seq s" "jb_done (sv_job (queue_push j s) k) = jb_done (sv_job s k)"
  "jb_steering (sv_job (queue_push j s) k) = jb_steering (sv_job s k)"
  "jb_protocol (sv_job (queue_push j s) k) = jb_protocol (sv_job s k)"
  "sv_completed_requests (queue_push j s) = sv_completed_requests s"
  "sv_failed_requests (queue_push j s) = sv_failed_requests s"
  "sv_cancelled_requests (queue_push j s) = sv_cancelled_requests s"
  by (auto simp: queue_push_def split: option.splits)

lemma client_done_sel [simp]:
  "sv_head (client_done s) = sv_head s" "sv_tail (client_done s) = sv_tail s"
  "sv_stopping (client_done s) = sv_stopping s" "sv_request_seq (client_done s) = sv_request_seq s"
  "sv_job (client_done s) = sv_job s" "sv_completed_requests (client_done s) = sv_completed_requests s"
  "sv_failed_requests (client_done s) = sv_failed_requests s"
  "sv_cancelled_requests (client_done s) = sv_cancelled_requests s"
  by (simp_all add: client_done_def)

lemma go_sel [simp]:
  "sy_server (go j pc y) = sy_server y" "sy_worker (go j pc y) = sy_worker y" "sy_main (go j pc y) = sy_main y"
  "sy_stop (go j pc y) = sy_stop y" "sy_client (go j pc y) = (sy_client y)(j := pc)"
  by (simp_all add: go_def)

lemma enqueue_ok:
  "enqueue now j s = (True, s') \<longleftrightarrow> \<not> sv_stopping s \<and> s' = queue_push j
     (put_job j ((sv_job s j)\<lparr>jb_protocol := ds4_protocol_state_init (sv_request_seq s + 1) (jb_has_tools (sv_job s j)) now\<rparr>)
       (s\<lparr>sv_request_seq := sv_request_seq s + 1\<rparr>))"
  "enqueue now j s = (False, s') \<longleftrightarrow> sv_stopping s \<and> s' = s"
  by (auto simp: enqueue_def Let_def)

lemma dequeue_Some:
  "dequeue s = Some (Some j, s') \<longleftrightarrow> queue_pop s = Some (j, s')"
  "dequeue s = Some (None, s') \<longleftrightarrow> queue_pop s = None \<and> sv_stopping s \<and> s' = s"
  by (auto simp: dequeue_def queue_pop_def Let_def split: option.splits)

section \<open>Order\<close>

lemma queue_holds_sel:
  "queue_holds s js \<Longrightarrow> sv_head s' = sv_head s \<Longrightarrow> sv_tail s' = sv_tail s \<Longrightarrow> next_of s' = next_of s \<Longrightarrow> queue_holds s' js"
  using queue_holds_cong by metis

lemma next_of_put [simp]:
  "next_of (put_job j v s) = (next_of s)(j := jb_next v)"
  by (auto simp: next_of_def)

lemma next_of_sel [simp]:
  "next_of (s\<lparr>sv_clients := n\<rparr>) = next_of s" "next_of (s\<lparr>sv_stopping := b\<rparr>) = next_of s"
  "next_of (s\<lparr>sv_worker_busy := b\<rparr>) = next_of s" "next_of (s\<lparr>sv_active_protocol := p\<rparr>) = next_of s"
  "next_of (client_done s) = next_of s"
  by (auto simp: next_of_def client_done_def)

lemma queue_holds_put: "queue_holds s js \<Longrightarrow> j \<notin> set js \<Longrightarrow> queue_holds (put_job j v s) js"
  by (erule queue_holds_cong) auto

lemma queue_accept:
  assumes "queue_holds s js" "j \<notin> set js" "enqueue now j (put_job j (new_job st tools) s) = (True, s')"
  shows "queue_holds s' (js @ [j])"
proof -
  let ?s0 = "put_job j (new_job st tools) s"
  let ?s1 = "put_job j ((sv_job ?s0 j)\<lparr>jb_protocol := ds4_protocol_state_init (sv_request_seq ?s0 + 1)
    (jb_has_tools (sv_job ?s0 j)) now\<rparr>) (?s0\<lparr>sv_request_seq := sv_request_seq ?s0 + 1\<rparr>)"
  have "queue_holds ?s1 js"
    by (rule queue_holds_cong[OF assms(1)]) (use assms(2) in \<open>auto simp: next_of_def\<close>)
  moreover have "next_of ?s1 j = None" by (simp add: new_job_def)
  ultimately have "queue_holds (queue_push j ?s1) (js @ [j])" by (rule requests.push_holds) (rule assms(2))
  then show ?thesis using assms(3) by (simp add: enqueue_ok)
qed

definition order_inv :: "event list \<Rightarrow> sys \<Rightarrow> bool" where
  "order_inv evs y \<longleftrightarrow>
     (\<exists>js. queue_holds (sy_server y) js \<and> accepted_of evs = served_of evs @ in_service (sy_worker y) @ js)
     \<and> distinct (accepted_of evs)
     \<and> (\<forall>j. sy_client y j = C_New \<or> sy_client y j = C_Connected \<longrightarrow> j \<notin> set (accepted_of evs))"

lemma order_keep:
  assumes I: "order_inv evs y"
    and e: "accepted_of es = []" "served_of es @ in_service (sy_worker y') = in_service (sy_worker y)"
    and q: "\<And>js. queue_holds (sy_server y) js \<Longrightarrow> accepted_of evs = served_of evs @ in_service (sy_worker y) @ js
      \<Longrightarrow> queue_holds (sy_server y') js"
    and c: "\<And>j. sy_client y' j = C_New \<or> sy_client y' j = C_Connected \<Longrightarrow> sy_client y j = C_New \<or> sy_client y j = C_Connected"
  shows "order_inv (evs @ es) y'"
proof -
  obtain js where js: "queue_holds (sy_server y) js" "accepted_of evs = served_of evs @ in_service (sy_worker y) @ js"
    using I by (auto simp: order_inv_def)
  have "accepted_of (evs @ es) = served_of (evs @ es) @ in_service (sy_worker y') @ js"
    using js(2) e by (metis append.assoc append.right_neutral accepted_of_simps(2) served_of_simps(2))
  moreover have "accepted_of (evs @ es) = accepted_of evs" using e(1) by simp
  moreover have "distinct (accepted_of evs)"
    "\<forall>j. sy_client y j = C_New \<or> sy_client y j = C_Connected \<longrightarrow> j \<notin> set (accepted_of evs)"
    using I unfolding order_inv_def by blast+
  ultimately show ?thesis using q[OF js] c unfolding order_inv_def by metis
qed

lemma order_step:
  assumes I: "order_inv evs y" and "sys_step y es y'"
  shows "order_inv (evs @ es) y'"
proof -
  obtain js where js: "queue_holds (sy_server y) js" "accepted_of evs = served_of evs @ in_service (sy_worker y) @ js"
    using I by (auto simp: order_inv_def)
  have c: "\<And>j. sy_client y j = C_New \<or> sy_client y j = C_Connected \<Longrightarrow> j \<notin> set (accepted_of evs)" "distinct (accepted_of evs)"
    using I unfolding order_inv_def by blast+
  show ?thesis
    using assms(2)
  proof cases
    case (accepted j now steering has_tools s)
    have n: "j \<notin> set (accepted_of evs)" using c(1) accepted(3) by blast
    then have "queue_holds s (js @ [j])" using queue_accept[OF js(1) _ accepted(4)] js(2) by auto
    then show ?thesis using n c js(2) accepted(1,2) unfolding order_inv_def by auto
  next
    case (take_job j s)
    from take_job(4) have "queue_pop (sy_server y) = Some (j, s)" by (simp add: dequeue_Some)
    from requests.pop_SomeE[OF js(1) this] obtain js' where "js = j # js'" "queue_holds s js'" .
    then show ?thesis using c js(2) take_job(1,2,3) unfolding order_inv_def by auto
  next
    case (served j)
    show ?thesis
    proof (rule order_keep[OF I])
      fix js assume "queue_holds (sy_server y) js" "accepted_of evs = served_of evs @ in_service (sy_worker y) @ js"
      moreover from this c(2) served have "j \<notin> set js" by auto
      ultimately show "queue_holds (sy_server y') js" using served by (simp add: queue_holds_put)
    qed (use served in auto)
  next
    case (refused j now st tools s)
    show ?thesis
    proof (rule order_keep[OF I])
      fix js assume "queue_holds (sy_server y) js" "accepted_of evs = served_of evs @ in_service (sy_worker y) @ js"
      moreover from this c(1)[of j] refused have "j \<notin> set js" by auto
      ultimately show "queue_holds (sy_server y') js" using refused by (simp add: enqueue_ok queue_holds_put)
    qed (use refused in \<open>auto split: if_splits\<close>)
  next
    case (called stage j c ok to now s)
    show ?thesis
      by (rule order_keep[OF I]) (use called perform_frame(1,2,6)[OF called(5)] in \<open>auto intro: queue_holds_sel\<close>)
  next
    case (closed_job j ph now ok s)
    show ?thesis
      by (rule order_keep[OF I])
        (use closed_job perform_frame(1,2,6)[OF finish_is_call[OF closed_job(6)]] in \<open>auto intro: queue_holds_sel\<close>)
  qed (rule order_keep[OF I]; auto simp: dequeue_Some intro: queue_holds_sel split: if_splits)+
qed

section \<open>Requests\<close>

definition protocol_of :: "sys \<Rightarrow> job_ptr \<Rightarrow> ds4_protocol_state" where
  "protocol_of y j = jb_protocol (sv_job (sy_server y) j)"

fun proper :: "call \<Rightarrow> bool" where
  "proper (Call_Transition ph) = (\<not> ds4_protocol_is_terminal ph \<and> ph \<noteq> DS4_PROTOCOL_RECOVERY)"
| "proper (Call_Finish ph) = ds4_protocol_is_terminal ph"
| "proper c = True"

fun stage_ok :: "stage \<Rightarrow> ds4_protocol_phase \<Rightarrow> bool" where
  "stage_ok Begin ph = (ph = DS4_PROTOCOL_QUEUED)"
| "stage_ok Steering ph = (ph = DS4_PROTOCOL_SERIALIZE)"
| "stage_ok Prefill ph = (ph = DS4_PROTOCOL_PREFILL)"
| "stage_ok Decode ph = (ph = DS4_PROTOCOL_DECODE \<or> ph = DS4_PROTOCOL_RECOVERY)"
| "stage_ok Recovery ph = (ph = DS4_PROTOCOL_RECOVERY)"
| "stage_ok Serialize ph = (ph = DS4_PROTOCOL_SERIALIZE)"
| "stage_ok Return ph = True"

lemma next_call_proper: "next_call stop steering st c ok st' \<Longrightarrow> proper c"
  by (induction rule: next_call.induct) (auto simp: terminal_simps)

lemma perform_history:
  assumes "history_of h (jb_protocol (sv_job s j))" "perform now j c s = (ok, s')" "proper c"
  shows "history_of (h @ new_phases c ok) (jb_protocol (sv_job s' j))"
proof (cases c)
  case (Call_Transition ph)
  obtain ok' q where q: "ds4_protocol_transition ph now (jb_protocol (sv_job s j)) = (ok', q)" by (metis surj_pair)
  then show ?thesis
    using assms Call_Transition history_transition[of h _ ph now q]
    by (auto simp: server_protocol_transition_def)
next
  case Call_Recovery
  obtain ok' q where q: "ds4_protocol_begin_recovery now (jb_protocol (sv_job s j)) = (ok', q)" by (metis surj_pair)
  then show ?thesis
    using assms Call_Recovery history_recovery[of h _ now q]
    by (auto simp: server_protocol_begin_recovery_def)
next
  case (Call_Progress a b)
  then show ?thesis using assms history_progress by (auto simp: server_protocol_progress_def)
next
  case (Call_Finish ph)
  obtain ok' q where q: "ds4_protocol_finish ph now (jb_protocol (sv_job s j)) = (ok', q)" by (metis surj_pair)
  then show ?thesis
    using assms Call_Finish history_finish(1)[of h _ ph now q]
    by (auto simp: server_protocol_finish_def)
qed

lemma stage_step:
  assumes "next_call stop steering st c ok st'" "stage_ok st (ps_phase (jb_protocol (sv_job s j)))"
    and "perform now j c s = (ok, s')"
  shows "stage_ok st' (ps_phase (jb_protocol (sv_job s' j)))"
  using assms
  by (cases rule: next_call.cases)
    (auto simp: protocol_calls protocol_defs transition_allowed_def terminal_simps split: prod.splits if_splits)

lemma silent_step: "next_silent st st' \<Longrightarrow> stage_ok st ph \<Longrightarrow> stage_ok st' ph"
  by (cases rule: next_silent.cases) auto

lemma new_phasesD: "ph \<in> set (new_phases c ok) \<Longrightarrow> call_phase c = Some ph"
  by (cases c; cases ok; simp)

lemma stage_complete:
  "next_call stop steering st c ok st' \<Longrightarrow> stage_ok st ph \<Longrightarrow> DS4_PROTOCOL_COMPLETE \<in> set (new_phases c ok)
    \<Longrightarrow> ph = DS4_PROTOCOL_SERIALIZE"
  by (induction rule: next_call.induct) (auto dest!: new_phasesD)

text \<open>The phase a job has by where it is.\<close>

fun place_ok :: "worker_pc \<Rightarrow> (job_ptr \<Rightarrow> ds4_protocol_state) \<Rightarrow> bool" where
  "place_ok (W_Started j) p = (ps_phase (p j) = DS4_PROTOCOL_QUEUED)"
| "place_ok (W_Job st j) p = stage_ok st (ps_phase (p j))"
| "place_ok (W_Clear j) p = ps_terminal (p j)"
| "place_ok (W_Publish j) p = ps_terminal (p j)"
| "place_ok W_Idle p = True"
| "place_ok W_Exit p = True"

definition job_inv :: "event list \<Rightarrow> sys \<Rightarrow> bool" where
  "job_inv evs y \<longleftrightarrow>
     (\<forall>j\<in>set (accepted_of evs). history_of (phases_of j evs) (protocol_of y j))
     \<and> (\<forall>j. j \<notin> set (accepted_of evs) \<longrightarrow> phases_of j evs = [DS4_PROTOCOL_QUEUED])
     \<and> (\<forall>j\<in>set (served_of evs). ps_terminal (protocol_of y j))
     \<and> (\<forall>j\<in>set (accepted_of evs). j \<notin> set (served_of evs) \<longrightarrow> j \<notin> set (in_service (sy_worker y)) \<longrightarrow>
          ps_phase (protocol_of y j) = DS4_PROTOCOL_QUEUED)
     \<and> place_ok (sy_worker y) (protocol_of y)
     \<and> (\<forall>j. DS4_PROTOCOL_COMPLETE \<in> set (phases_of j evs) \<longrightarrow> DS4_PROTOCOL_SERIALIZE \<in> set (phases_of j evs))"

lemma job_invD:
  assumes "job_inv evs y"
  shows "j \<in> set (accepted_of evs) \<Longrightarrow> history_of (phases_of j evs) (protocol_of y j)"
    "j \<notin> set (accepted_of evs) \<Longrightarrow> phases_of j evs = [DS4_PROTOCOL_QUEUED]"
    "j \<in> set (served_of evs) \<Longrightarrow> ps_terminal (protocol_of y j)"
    "j \<in> set (accepted_of evs) \<Longrightarrow> j \<notin> set (served_of evs) \<Longrightarrow> j \<notin> set (in_service (sy_worker y)) \<Longrightarrow>
       ps_phase (protocol_of y j) = DS4_PROTOCOL_QUEUED"
    "place_ok (sy_worker y) (protocol_of y)"
    "DS4_PROTOCOL_COMPLETE \<in> set (phases_of j evs) \<Longrightarrow> DS4_PROTOCOL_SERIALIZE \<in> set (phases_of j evs)"
  using assms unfolding job_inv_def by blast+

lemma job_invI:
  assumes "\<And>j. j \<in> set (accepted_of evs) \<Longrightarrow> history_of (phases_of j evs) (protocol_of y j)"
    "\<And>j. j \<notin> set (accepted_of evs) \<Longrightarrow> phases_of j evs = [DS4_PROTOCOL_QUEUED]"
    "\<And>j. j \<in> set (served_of evs) \<Longrightarrow> ps_terminal (protocol_of y j)"
    "\<And>j. j \<in> set (accepted_of evs) \<Longrightarrow> j \<notin> set (served_of evs) \<Longrightarrow> j \<notin> set (in_service (sy_worker y)) \<Longrightarrow>
       ps_phase (protocol_of y j) = DS4_PROTOCOL_QUEUED"
    "place_ok (sy_worker y) (protocol_of y)"
    "\<And>j. DS4_PROTOCOL_COMPLETE \<in> set (phases_of j evs) \<Longrightarrow> DS4_PROTOCOL_SERIALIZE \<in> set (phases_of j evs)"
  shows "job_inv evs y"
  using assms unfolding job_inv_def by blast

lemma job_keep:
  assumes I: "job_inv evs y" and e: "es = [] \<or> es = [Served j]"
    and p: "\<And>k. protocol_of y' k = protocol_of y k"
    and s: "\<And>k. es = [Served k] \<Longrightarrow> ps_terminal (protocol_of y k)"
    and w: "place_ok (sy_worker y') (protocol_of y)"
    and i: "set (served_of (evs @ es)) \<union> set (in_service (sy_worker y')) \<supseteq> set (served_of evs) \<union> set (in_service (sy_worker y))"
  shows "job_inv (evs @ es) y'"
proof -
  have "protocol_of y' = protocol_of y" using p by (rule ext)
  moreover have "phases_of k (evs @ es) = phases_of k evs" "accepted_of (evs @ es) = accepted_of evs" for k
    using e by auto
  moreover have "set (served_of (evs @ es)) = set (served_of evs) \<union> {k. es = [Served k]}" using e by auto
  ultimately show ?thesis using I s w i unfolding job_inv_def by auto
qed

text \<open>A call of the worker changes the job in service only.\<close>

lemma job_call:
  assumes O: "order_inv evs y" and I: "job_inv evs y"
    and c: "sy_worker y = W_Job st j" "perform now j c (sy_server y) = (ok, s)" "proper c"
    and w: "place_ok pc (\<lambda>k. jb_protocol (sv_job s k))" "in_service pc = [j]"
    and d: "DS4_PROTOCOL_COMPLETE \<in> set (new_phases c ok) \<Longrightarrow> ps_phase (protocol_of y j) = DS4_PROTOCOL_SERIALIZE"
  shows "job_inv (evs @ call_events j c ok) (y\<lparr>sy_worker := pc, sy_server := s\<rparr>)"
proof -
  let ?y = "y\<lparr>sy_worker := pc, sy_server := s\<rparr>" and ?evs = "evs @ call_events j c ok"
  have j: "j \<in> set (accepted_of evs)" "j \<notin> set (served_of evs)"
    using O c(1) unfolding order_inv_def by auto
  have p: "protocol_of ?y k = protocol_of y k" if "k \<noteq> j" for k
    using perform_frame(9)[OF c(2) that] by (simp add: protocol_of_def)
  have ph: "phases_of k ?evs = phases_of k evs" if "k \<noteq> j" for k using that by auto
  have phj: "phases_of j ?evs = phases_of j evs @ new_phases c ok" by simp
  have h: "history_of (phases_of j evs) (protocol_of y j)" using I j(1) by (simp add: job_inv_def)
  then have hj: "history_of (phases_of j ?evs) (protocol_of ?y j)"
    using perform_history[OF _ c(2,3)] phj by (simp add: protocol_of_def)
  have dj: "DS4_PROTOCOL_SERIALIZE \<in> set (phases_of j ?evs)" if "DS4_PROTOCOL_COMPLETE \<in> set (phases_of j ?evs)"
  proof (cases "DS4_PROTOCOL_COMPLETE \<in> set (phases_of j evs)")
    case True
    then show ?thesis using I phj by (auto simp: job_inv_def)
  next
    case False
    have "phases_of j evs \<noteq> []" by (simp add: phases_of_def)
    moreover from False have "last (phases_of j evs) = DS4_PROTOCOL_SERIALIZE"
      using that phj d h by (simp add: history_of_def)
    ultimately have "DS4_PROTOCOL_SERIALIZE \<in> set (phases_of j evs)" using last_in_set by fastforce
    then show ?thesis using phj by simp
  qed
  have acc: "accepted_of ?evs = accepted_of evs" "served_of ?evs = served_of evs" by simp_all
  show ?thesis
  proof (rule job_invI, unfold acc)
    fix k
    show "k \<in> set (accepted_of evs) \<Longrightarrow> history_of (phases_of k ?evs) (protocol_of ?y k)"
      using hj job_invD(1)[OF I, of k] p[of k] ph[of k] by (cases "k = j") simp_all
    show "k \<notin> set (accepted_of evs) \<Longrightarrow> phases_of k ?evs = [DS4_PROTOCOL_QUEUED]"
      using j(1) ph[of k] job_invD(2)[OF I, of k] by (cases "k = j") simp_all
    show "k \<in> set (served_of evs) \<Longrightarrow> ps_terminal (protocol_of ?y k)"
      using j(2) p[of k] job_invD(3)[OF I, of k] by (cases "k = j") simp_all
    show "k \<in> set (accepted_of evs) \<Longrightarrow> k \<notin> set (served_of evs) \<Longrightarrow> k \<notin> set (in_service (sy_worker ?y)) \<Longrightarrow>
        ps_phase (protocol_of ?y k) = DS4_PROTOCOL_QUEUED"
      using w(2) c(1) p[of k] job_invD(4)[OF I, of k] by (cases "k = j") simp_all
    show "DS4_PROTOCOL_COMPLETE \<in> set (phases_of k ?evs) \<Longrightarrow> DS4_PROTOCOL_SERIALIZE \<in> set (phases_of k ?evs)"
      using dj ph[of k] job_invD(6)[OF I, of k] by (cases "k = j") simp_all
    have "protocol_of ?y = (\<lambda>k. jb_protocol (sv_job s k))" by (auto simp: protocol_of_def)
    then show "place_ok (sy_worker ?y) (protocol_of ?y)" using w(1) by simp
  qed
qed

lemma protocol_frame:
  "queue_pop s = Some (j, s') \<Longrightarrow> jb_protocol (sv_job s' k) = jb_protocol (sv_job s k)"
  by (rule pop_frame(6))

lemma start_protocol:
  assumes "enqueue now j (put_job j (new_job st tools) s) = (True, s')"
  shows "jb_protocol (sv_job s' k) =
    (if k = j then ds4_protocol_state_init (sv_request_seq s + 1) tools now else jb_protocol (sv_job s k))"
  using assms by (simp add: enqueue_ok push_frame new_job_def)

lemma job_step:
  assumes O: "order_inv evs y" and I: "job_inv evs y" and "sys_step y es y'"
  shows "job_inv (evs @ es) y'"
  using assms(3)
proof cases
  case (accepted j now steering has_tools s)
  have n: "j \<notin> set (accepted_of evs)" using O accepted(3) unfolding order_inv_def by blast
  then have n': "j \<notin> set (served_of evs)" "j \<notin> set (in_service (sy_worker y))" using O unfolding order_inv_def by auto
  have p: "protocol_of y' k = (if k = j then ds4_protocol_state_init (sv_request_seq (sy_server y) + 1) has_tools now
      else protocol_of y k)" for k
    using start_protocol[OF accepted(4)] accepted(2) by (simp add: protocol_of_def)
  have ph: "phases_of k (evs @ es) = phases_of k evs" for k using accepted(1) by simp
  have w: "sy_worker y' = sy_worker y" using accepted(2) by simp
  have a: "set (accepted_of (evs @ es)) = insert j (set (accepted_of evs))" "served_of (evs @ es) = served_of evs"
    using accepted(1) by auto
  show ?thesis
  proof (rule job_invI, unfold ph w a(2))
    fix k
    show "k \<in> set (accepted_of (evs @ es)) \<Longrightarrow> history_of (phases_of k evs) (protocol_of y' k)"
      unfolding a(1) using p[of k] job_invD(1,2)[OF I, of k] n history_init by (cases "k = j") simp_all
    show "k \<notin> set (accepted_of (evs @ es)) \<Longrightarrow> phases_of k evs = [DS4_PROTOCOL_QUEUED]"
      unfolding a(1) using job_invD(2)[OF I, of k] by simp
    show "k \<in> set (served_of evs) \<Longrightarrow> ps_terminal (protocol_of y' k)"
      using p[of k] n' job_invD(3)[OF I, of k] by (cases "k = j") simp_all
    show "k \<in> set (accepted_of (evs @ es)) \<Longrightarrow> k \<notin> set (served_of evs) \<Longrightarrow> k \<notin> set (in_service (sy_worker y)) \<Longrightarrow>
        ps_phase (protocol_of y' k) = DS4_PROTOCOL_QUEUED"
      unfolding a(1) using p[of k] job_invD(4)[OF I, of k] by (cases "k = j") (simp_all add: ds4_protocol_state_init_def)
    show "place_ok (sy_worker y) (protocol_of y')"
      using job_invD(5)[OF I] n'(2) p by (cases "sy_worker y") auto
    show "DS4_PROTOCOL_COMPLETE \<in> set (phases_of k evs) \<Longrightarrow> DS4_PROTOCOL_SERIALIZE \<in> set (phases_of k evs)"
      by (rule job_invD(6)[OF I])
  qed
next
  case (take_job j s)
  have p: "queue_pop (sy_server y) = Some (j, s)" using take_job(4) by (simp add: dequeue_Some)
  obtain js where js: "queue_holds (sy_server y) js" "accepted_of evs = served_of evs @ js"
    using O take_job(3) by (auto simp: order_inv_def)
  from requests.pop_SomeE[OF js(1) p] obtain js' where "js = j # js'" by blast
  then have "ps_phase (protocol_of y j) = DS4_PROTOCOL_QUEUED"
    using O js(2) take_job(3) by (intro job_invD(4)[OF I]) (auto simp: order_inv_def)
  then show ?thesis
    using take_job pop_frame(6)[OF p] by (intro job_keep[OF I]) (auto simp: protocol_of_def)
next
  case (called stage j c ok to now s)
  have st: "stage_ok stage (ps_phase (protocol_of y j))" using job_invD(5)[OF I] called(3) by simp
  show ?thesis
    unfolding called(1,2)
  proof (rule job_call[OF O I called(3) called(5) next_call_proper[OF called(4)]])
    show "place_ok (W_Job to j) (\<lambda>k. jb_protocol (sv_job s k))"
      using stage_step[OF called(4) _ called(5)] st by (simp add: protocol_of_def)
    show "in_service (W_Job to j) = [j]" by simp
    show "DS4_PROTOCOL_COMPLETE \<in> set (new_phases c ok) \<Longrightarrow> ps_phase (protocol_of y j) = DS4_PROTOCOL_SERIALIZE"
      by (rule stage_complete[OF called(4) st])
  qed
next
  case (closed_job j ph now ok s)
  have j: "j \<in> set (accepted_of evs)" using O closed_job(3) by (auto simp: order_inv_def)
  have f: "ds4_protocol_is_terminal ph" "ph \<noteq> DS4_PROTOCOL_COMPLETE" using closed_job(5) by (auto simp: last_outcome_def terminal_simps)
  have t: "ok" "ps_terminal (jb_protocol (sv_job s j))"
    using closed_job(4,6) finish_result[OF job_invD(1)[OF I j] f(1), of now]
    by (auto simp: server_protocol_finish_def protocol_of_def)
  show ?thesis
    unfolding closed_job(1,2)
    by (rule job_call[OF O I closed_job(3) finish_is_call[OF closed_job(6)]]) (use f t in auto)
next
  case (refused j now st tools s)
  have n: "j \<notin> set (accepted_of evs)" using O refused(3) unfolding order_inv_def by blast
  then have n': "j \<notin> set (served_of evs)" "j \<notin> set (in_service (sy_worker y))" using O unfolding order_inv_def by auto
  have p: "protocol_of y' k = protocol_of y k" if "k \<noteq> j" for k
    using refused that by (simp add: enqueue_ok protocol_of_def)
  have w: "sy_worker y' = sy_worker y" using refused(2) by simp
  show ?thesis
    unfolding refused(1) append_Nil2
  proof (rule job_invI, unfold w)
    fix k
    show "k \<in> set (accepted_of evs) \<Longrightarrow> history_of (phases_of k evs) (protocol_of y' k)"
      using p[of k] n job_invD(1)[OF I, of k] by (cases "k = j") simp_all
    show "k \<in> set (served_of evs) \<Longrightarrow> ps_terminal (protocol_of y' k)"
      using p[of k] n' job_invD(3)[OF I, of k] by (cases "k = j") simp_all
    show "k \<in> set (accepted_of evs) \<Longrightarrow> k \<notin> set (served_of evs) \<Longrightarrow> k \<notin> set (in_service (sy_worker y)) \<Longrightarrow>
        ps_phase (protocol_of y' k) = DS4_PROTOCOL_QUEUED"
      using p[of k] n job_invD(4)[OF I, of k] by (cases "k = j") simp_all
    show "place_ok (sy_worker y) (protocol_of y')"
      using job_invD(5)[OF I] n'(2) p by (cases "sy_worker y") auto
  qed (use job_invD(2,6)[OF I] in blast)+
next
  case (moved stage j to)
  have "place_ok (W_Job to j) (protocol_of y)"
    using silent_step[OF moved(4)] job_invD(5)[OF I] moved(3) by simp
  then show ?thesis using moved by (intro job_keep[OF I]) (auto simp: protocol_of_def)
next
  case (served j)
  then show ?thesis using job_invD(5)[OF I] by (intro job_keep[OF I]) (auto simp: protocol_of_def)
qed (use job_invD(5)[OF I] in \<open>intro job_keep[OF I]; auto simp: protocol_of_def dequeue_Some\<close>)+

section \<open>Counters and numbers\<close>

definition in_service_ended :: "sys \<Rightarrow> nat" where
  "in_service_ended y = length (filter (\<lambda>j. ps_terminal (protocol_of y j)) (in_service (sy_worker y)))"

definition count_inv :: "event list \<Rightarrow> sys \<Rightarrow> bool" where
  "count_inv evs y \<longleftrightarrow>
     sv_completed_requests (sy_server y) = of_nat (outcomes (\<lambda>ph. ph = DS4_PROTOCOL_COMPLETE) evs)
     \<and> sv_failed_requests (sy_server y) = of_nat (outcomes (\<lambda>ph. ph = DS4_PROTOCOL_ERROR) evs)
     \<and> sv_cancelled_requests (sy_server y) = of_nat (outcomes (\<lambda>ph. ph = DS4_PROTOCOL_CANCELLED) evs)
     \<and> outcomes ds4_protocol_is_terminal evs = length (served_of evs) + in_service_ended y"

lemma perform_counts:
  assumes "perform now j c s = (ok, s')" "proper c"
  shows "sv_completed_requests s' = sv_completed_requests s + of_nat (outcomes (\<lambda>ph. ph = DS4_PROTOCOL_COMPLETE) (call_events j c ok))"
    "sv_failed_requests s' = sv_failed_requests s + of_nat (outcomes (\<lambda>ph. ph = DS4_PROTOCOL_ERROR) (call_events j c ok))"
    "sv_cancelled_requests s' = sv_cancelled_requests s + of_nat (outcomes (\<lambda>ph. ph = DS4_PROTOCOL_CANCELLED) (call_events j c ok))"
  using assms
  by (cases c; auto simp: protocol_calls outcomes_def call_events_def count_outcome_def terminal_simps
      split: prod.splits if_splits)+

lemma perform_ended:
  assumes "history_of h (jb_protocol (sv_job s j))" "perform now j c s = (ok, s')" "proper c"
  shows "of_bool (ps_terminal (jb_protocol (sv_job s' j))) =
    of_bool (ps_terminal (jb_protocol (sv_job s j))) + outcomes ds4_protocol_is_terminal (call_events j c ok)"
  using assms
  by (cases c; auto simp: protocol_calls protocol_defs transition_allowed_def outcomes_def call_events_def history_of_def
      split: prod.splits if_splits; simp add: terminal_simps)

lemma outcomes_append: "outcomes P (as @ bs) = outcomes P as + outcomes P bs"
  by (simp add: outcomes_def)

lemma count_call:
  assumes O: "order_inv evs y" and I: "job_inv evs y" and C: "count_inv evs y"
    and c: "sy_worker y = W_Job st j" "perform now j c (sy_server y) = (ok, s)" "proper c" "in_service pc = [j]"
  shows "count_inv (evs @ call_events j c ok) (y\<lparr>sy_worker := pc, sy_server := s\<rparr>)"
proof -
  have "j \<in> set (accepted_of evs)" using O c(1) by (auto simp: order_inv_def)
  from perform_ended[OF job_invD(1)[OF I this, unfolded protocol_of_def] c(2,3)] show ?thesis
    using C perform_counts[OF c(2,3)] c(1,4)
    unfolding count_inv_def in_service_ended_def outcomes_append
    by (auto simp: protocol_of_def of_bool_def split: if_splits)
qed

lemma count_keep:
  assumes C: "count_inv evs y" and e: "es = [] \<or> (\<exists>j. es = [Served j] \<or> es = [Accepted j])"
    and c: "sv_completed_requests (sy_server y') = sv_completed_requests (sy_server y)"
      "sv_failed_requests (sy_server y') = sv_failed_requests (sy_server y)"
      "sv_cancelled_requests (sy_server y') = sv_cancelled_requests (sy_server y)"
    and s: "length (served_of es) + in_service_ended y' = in_service_ended y"
  shows "count_inv (evs @ es) y'"
proof -
  have "outcomes P (evs @ es) = outcomes P evs" for P using e by auto
  then show ?thesis using C c s by (simp add: count_inv_def)
qed

lemma count_step:
  assumes O: "order_inv evs y" and I: "job_inv evs y" and C: "count_inv evs y" and "sys_step y es y'"
  shows "count_inv (evs @ es) y'"
  using assms(4)
proof cases
  case (called stage j c ok to now s)
  show ?thesis
    unfolding called(1,2)
    by (rule count_call[OF O I C called(3,5) next_call_proper[OF called(4)]]) simp
next
  case (closed_job j ph now ok s)
  show ?thesis
    unfolding closed_job(1,2)
    by (rule count_call[OF O I C closed_job(3) finish_is_call[OF closed_job(6)]])
      (use closed_job(5) in \<open>auto simp: last_outcome_def terminal_simps\<close>)
next
  case (accepted j now steering has_tools s)
  have "j \<notin> set (in_service (sy_worker y))" using O accepted(3) by (auto simp: order_inv_def)
  then have "in_service_ended y' = in_service_ended y"
    using accepted(2) start_protocol[OF accepted(4)] by (auto simp: in_service_ended_def protocol_of_def intro!: arg_cong[of _ _ length] filter_cong)
  then show ?thesis
    using accepted by (intro count_keep[OF C]) (auto simp: enqueue_ok push_frame)
next
  case (refused j now steering has_tools s)
  have "j \<notin> set (in_service (sy_worker y))" using O refused(3) by (auto simp: order_inv_def)
  then have "in_service_ended y' = in_service_ended y"
    using refused by (auto simp: in_service_ended_def protocol_of_def enqueue_ok intro!: arg_cong[of _ _ length] filter_cong)
  then show ?thesis
    using refused by (intro count_keep[OF C]) (auto simp: enqueue_ok)
next
  case (take_job j s)
  have p: "queue_pop (sy_server y) = Some (j, s)" using take_job(4) by (simp add: dequeue_Some)
  obtain js where js: "queue_holds (sy_server y) js" "accepted_of evs = served_of evs @ js"
    using O take_job(3) by (auto simp: order_inv_def)
  from requests.pop_SomeE[OF js(1) p] obtain js' where "js = j # js'" by blast
  then have a: "j \<in> set (accepted_of evs)" "j \<notin> set (served_of evs)" using O js(2) by (auto simp: order_inv_def)
  then have "\<not> ps_terminal (protocol_of y j)"
    using job_invD(1)[OF I a(1)] job_invD(4)[OF I a] take_job(3) by (simp add: history_of_def terminal_simps)
  then have "in_service_ended y' = in_service_ended y"
    using take_job pop_frame(6)[OF p] by (simp add: in_service_ended_def protocol_of_def)
  then show ?thesis using take_job pop_frame(7-9)[OF p] by (intro count_keep[OF C]) auto
next
  case (served j)
  then have "ps_terminal (protocol_of y j)" using job_invD(5)[OF I] by simp
  then show ?thesis
    using served by (intro count_keep[OF C]) (auto simp: in_service_ended_def protocol_of_def)
qed (rule count_keep[OF C]; auto simp: in_service_ended_def protocol_of_def dequeue_Some)+

definition number_inv :: "event list \<Rightarrow> sys \<Rightarrow> bool" where
  "number_inv evs y \<longleftrightarrow>
     map (\<lambda>j. ps_request_id (protocol_of y j)) (accepted_of evs) = map of_nat [1..<Suc (length (accepted_of evs))]
     \<and> sv_request_seq (sy_server y) = of_nat (length (accepted_of evs))"

lemma number_keep:
  assumes "number_inv evs y" "accepted_of es = []" "sv_request_seq (sy_server y') = sv_request_seq (sy_server y)"
    and "\<And>j. j \<in> set (accepted_of evs) \<Longrightarrow> ps_request_id (protocol_of y' j) = ps_request_id (protocol_of y j)"
  shows "number_inv (evs @ es) y'"
proof -
  have "map (\<lambda>j. ps_request_id (protocol_of y' j)) (accepted_of evs) = map (\<lambda>j. ps_request_id (protocol_of y j)) (accepted_of evs)"
    using assms(4) by simp
  then show ?thesis using assms(1-3) unfolding number_inv_def by simp
qed

lemma number_step:
  assumes O: "order_inv evs y" and N: "number_inv evs y" and "sys_step y es y'"
  shows "number_inv (evs @ es) y'"
  using assms(3)
proof cases
  case (accepted j now steering has_tools s)
  have n: "j \<notin> set (accepted_of evs)" using O accepted(3) unfolding order_inv_def by blast
  have p: "protocol_of y' k = (if k = j then ds4_protocol_state_init (sv_request_seq (sy_server y) + 1) has_tools now
      else protocol_of y k)" for k
    using start_protocol[OF accepted(4)] accepted(2) by (simp add: protocol_of_def)
  have "map (\<lambda>k. ps_request_id (protocol_of y' k)) (accepted_of evs) = map (\<lambda>k. ps_request_id (protocol_of y k)) (accepted_of evs)"
    using p n by auto
  moreover have "ps_request_id (protocol_of y' j) = sv_request_seq (sy_server y) + 1"
    using p[of j] by (simp add: ds4_protocol_state_init_def)
  moreover have "sv_request_seq (sy_server y') = sv_request_seq (sy_server y) + 1"
    using accepted by (simp add: enqueue_ok push_frame)
  moreover have "[1..<Suc (Suc n)] = [1..<Suc n] @ [Suc n]" for n by (rule upt_Suc_append) simp
  ultimately show ?thesis
    using N accepted(1) unfolding number_inv_def
    by (simp add: add.commute del: upt_Suc map_eq_conv)
next
  case (called stage j c ok to now s)
  then show ?thesis using perform_frame(5,10)[OF called(5)] by (intro number_keep[OF N]) (auto simp: protocol_of_def)
next
  case (closed_job j ph now ok s)
  then show ?thesis using perform_frame(5,10)[OF finish_is_call[OF closed_job(6)]]
    by (intro number_keep[OF N]) (auto simp: protocol_of_def)
next
  case (refused j now steering has_tools s)
  have "j \<notin> set (accepted_of evs)" using O refused(3) unfolding order_inv_def by blast
  then show ?thesis using refused by (intro number_keep[OF N]) (auto simp: enqueue_ok protocol_of_def)
next
  case (take_job j s)
  then have p: "queue_pop (sy_server y) = Some (j, s)" by (simp add: dequeue_Some)
  then show ?thesis using take_job pop_frame(3,6)[OF p] by (intro number_keep[OF N]) (auto simp: protocol_of_def)
qed (rule number_keep[OF N]; auto simp: protocol_of_def dequeue_Some)+

section \<open>Clients and shutdown\<close>

definition inside :: "client_pc \<Rightarrow> bool" where
  "inside pc \<longleftrightarrow> pc = C_Connected \<or> pc = C_Waiting \<or> pc = C_Leaving"

definition clients_inside :: "sys \<Rightarrow> job_ptr set" where
  "clients_inside y = {j. inside (sy_client y j)}"

definition client_inv :: "event list \<Rightarrow> sys \<Rightarrow> bool" where
  "client_inv evs y \<longleftrightarrow>
     finite (clients_inside y) \<and> sv_clients (sy_server y) = int (card (clients_inside y))
     \<and> (\<forall>j\<in>set (accepted_of evs). j \<notin> set (served_of evs) \<longrightarrow> sy_client y j = C_Waiting)
     \<and> (\<forall>j. sy_client y j = C_Waiting \<longrightarrow> j \<in> set (accepted_of evs))
     \<and> (\<forall>j\<in>set (accepted_of evs). jb_done (sv_job (sy_server y) j) = (j \<in> set (served_of evs)))"

lemma inside_go:
  "clients_inside (go j pc y) = (if inside pc then insert j (clients_inside y) else clients_inside y - {j})"
  by (auto simp: clients_inside_def)

lemma clients_inside_sel [simp]:
  "clients_inside (y\<lparr>sy_server := s\<rparr>) = clients_inside y" "clients_inside (y\<lparr>sy_worker := w\<rparr>) = clients_inside y"
  "clients_inside (y\<lparr>sy_main := m\<rparr>) = clients_inside y" "clients_inside (y\<lparr>sy_stop := b\<rparr>) = clients_inside y"
  by (simp_all add: clients_inside_def)

lemma inside_simps [simp]:
  "inside C_Connected" "inside C_Waiting" "inside C_Leaving" "\<not> inside C_New" "\<not> inside C_Gone"
  by (simp_all add: inside_def)

text \<open>A step that moves no client.\<close>

lemma client_keep:
  assumes C: "client_inv evs y" and e: "accepted_of es = []" "served_of es = []"
    and s: "sy_client y' = sy_client y" "sv_clients (sy_server y') = sv_clients (sy_server y)"
    and d: "\<And>j. jb_done (sv_job (sy_server y') j) = jb_done (sv_job (sy_server y) j)"
  shows "client_inv (evs @ es) y'"
proof -
  have "clients_inside y' = clients_inside y" using s(1) by (simp add: clients_inside_def)
  then show ?thesis using C e s(2) d unfolding client_inv_def s(1) by simp
qed

text \<open>A client that stays inside, or leaves behind its job.\<close>

lemma client_invD:
  assumes "client_inv evs y"
  shows "finite (clients_inside y)" "sv_clients (sy_server y) = int (card (clients_inside y))"
    "j \<in> set (accepted_of evs) \<Longrightarrow> j \<notin> set (served_of evs) \<Longrightarrow> sy_client y j = C_Waiting"
    "sy_client y j = C_Waiting \<Longrightarrow> j \<in> set (accepted_of evs)"
    "j \<in> set (accepted_of evs) \<Longrightarrow> jb_done (sv_job (sy_server y) j) = (j \<in> set (served_of evs))"
  using assms unfolding client_inv_def by blast+

lemma client_invI:
  assumes "finite (clients_inside y)" "sv_clients (sy_server y) = int (card (clients_inside y))"
    "\<And>j. j \<in> set (accepted_of evs) \<Longrightarrow> j \<notin> set (served_of evs) \<Longrightarrow> sy_client y j = C_Waiting"
    "\<And>j. sy_client y j = C_Waiting \<Longrightarrow> j \<in> set (accepted_of evs)"
    "\<And>j. j \<in> set (accepted_of evs) \<Longrightarrow> jb_done (sv_job (sy_server y) j) = (j \<in> set (served_of evs))"
  shows "client_inv evs y"
  using assms unfolding client_inv_def by blast

lemma inside_mem: "inside (sy_client y j) \<Longrightarrow> j \<in> clients_inside y"
  by (simp add: clients_inside_def)

text \<open>A step that moves one client without a job, or behind its job.\<close>

lemma client_moved:
  assumes C: "client_inv evs y"
    and s: "sy_client y' = (sy_client y)(j := pc)" "pc \<noteq> C_Waiting"
    and j: "j \<in> set (accepted_of evs) \<Longrightarrow> j \<in> set (served_of evs)"
    and n: "finite (clients_inside y')" "sv_clients (sy_server y') = int (card (clients_inside y'))"
    and d: "\<And>k. k \<in> set (accepted_of evs) \<Longrightarrow> jb_done (sv_job (sy_server y') k) = jb_done (sv_job (sy_server y) k)"
  shows "client_inv evs y'"
proof (rule client_invI[OF n])
  fix k
  show "k \<in> set (accepted_of evs) \<Longrightarrow> k \<notin> set (served_of evs) \<Longrightarrow> sy_client y' k = C_Waiting"
    using client_invD(3)[OF C, of k] j s(1) by (cases "k = j") simp_all
  show "sy_client y' k = C_Waiting \<Longrightarrow> k \<in> set (accepted_of evs)"
    using client_invD(4)[OF C, of k] s by (cases "k = j") simp_all
  show "k \<in> set (accepted_of evs) \<Longrightarrow> jb_done (sv_job (sy_server y') k) = (k \<in> set (served_of evs))"
    using client_invD(5)[OF C, of k] d[of k] by simp
qed

lemma done_accept:
  assumes "enqueue now j (put_job j (new_job st tools) s) = (True, s')"
  shows "jb_done (sv_job s' k) = (if k = j then False else jb_done (sv_job s k))" "sv_clients s' = sv_clients s"
  using assms by (auto simp: enqueue_ok push_frame new_job_def)

lemma client_step:
  assumes O: "order_inv evs y" and C: "client_inv evs y" and "sys_step y es y'"
  shows "client_inv (evs @ es) y'"
  using assms(3)
proof cases
  case (connect j)
  have n: "j \<notin> set (accepted_of evs)" using O connect(4) unfolding order_inv_def by blast
  have "j \<notin> clients_inside y" using connect(4) by (simp add: clients_inside_def)
  then have "client_inv evs y'"
    using connect n client_invD(1,2)[OF C] by (intro client_moved[OF C, of y' j C_Connected]) (simp_all add: inside_go)
  then show ?thesis using connect(1) by simp
next
  case (answered_directly j)
  have n: "j \<notin> set (accepted_of evs)" using O answered_directly(3) unfolding order_inv_def by blast
  have "insert j (clients_inside y) = clients_inside y" using inside_mem[of y j] answered_directly(3) by auto
  then have "client_inv evs y'"
    using answered_directly n client_invD(1,2)[OF C] by (intro client_moved[OF C, of y' j C_Leaving]) (simp_all add: inside_go)
  then show ?thesis using answered_directly(1) by simp
next
  case (accepted j now steering has_tools s)
  have n: "j \<notin> set (accepted_of evs)" using O accepted(3) unfolding order_inv_def by blast
  then have n': "j \<notin> set (served_of evs)" using O by (auto simp: order_inv_def)
  have "insert j (clients_inside y) = clients_inside y" using inside_mem[of y j] accepted(3) by auto
  then have inj: "clients_inside y' = clients_inside y" using accepted(2) by (simp add: inside_go)
  have acc: "set (accepted_of (evs @ es)) = insert j (set (accepted_of evs))" "served_of (evs @ es) = served_of evs"
    using accepted(1) by auto
  show ?thesis
  proof (rule client_invI, unfold inj acc)
    show "finite (clients_inside y)" by (rule client_invD(1)[OF C])
    show "sv_clients (sy_server y') = int (card (clients_inside y))"
      using client_invD(2)[OF C] accepted(2) done_accept(2)[OF accepted(4)] by simp
    fix k
    show "k \<in> insert j (set (accepted_of evs)) \<Longrightarrow> k \<notin> set (served_of evs) \<Longrightarrow> sy_client y' k = C_Waiting"
      using client_invD(3)[OF C, of k] accepted(2) by (cases "k = j") simp_all
    show "sy_client y' k = C_Waiting \<Longrightarrow> k \<in> insert j (set (accepted_of evs))"
      using client_invD(4)[OF C, of k] accepted(2) by (cases "k = j") simp_all
    show "k \<in> insert j (set (accepted_of evs)) \<Longrightarrow> jb_done (sv_job (sy_server y') k) = (k \<in> set (served_of evs))"
      using client_invD(5)[OF C, of k] accepted(2) done_accept(1)[OF accepted(4), of k] n' by (cases "k = j") simp_all
  qed
next
  case (refused j now steering has_tools s)
  have n: "j \<notin> set (accepted_of evs)" using O refused(3) unfolding order_inv_def by blast
  have "insert j (clients_inside y) = clients_inside y" using inside_mem[of y j] refused(3) by auto
  then have "client_inv evs y'"
    using refused n client_invD(1,2)[OF C] by (intro client_moved[OF C, of y' j C_Leaving]) (auto simp: inside_go enqueue_ok)
  then show ?thesis using refused(1) by simp
next
  case (woken j)
  have "insert j (clients_inside y) = clients_inside y" using inside_mem[of y j] woken(3) by auto
  moreover have "j \<in> set (served_of evs)" using client_invD(4,5)[OF C, of j] woken(3,4) by simp
  ultimately have "client_inv evs y'"
    using woken client_invD(1,2)[OF C] by (intro client_moved[OF C, of y' j C_Leaving]) (simp_all add: inside_go)
  then show ?thesis using woken(1) by simp
next
  case (left j)
  have m: "j \<in> clients_inside y" using inside_mem[of y j] left(3) by simp
  then have c: "0 < card (clients_inside y)" using client_invD(1)[OF C] by (auto simp: card_gt_0_iff)
  then have "sv_clients (client_done (sy_server y)) = int (card (clients_inside y - {j}))"
    using client_invD(1,2)[OF C] m by (simp add: client_done_def of_nat_diff Suc_leI)
  moreover have "j \<in> set (accepted_of evs) \<Longrightarrow> j \<in> set (served_of evs)" using client_invD(3)[OF C, of j] left(3) by auto
  ultimately have "client_inv evs y'"
    using left client_invD(1)[OF C] by (intro client_moved[OF C, of y' j C_Gone]) (simp_all add: inside_go)
  then show ?thesis using left(1) by simp
next
  case (take_job j s)
  have p: "queue_pop (sy_server y) = Some (j, s)" using take_job(4) by (simp add: dequeue_Some)
  show ?thesis using take_job pop_frame(2,4)[OF p] by (intro client_keep[OF C]) auto
next
  case (called stage j c ok to now s)
  then show ?thesis using perform_frame(4,7)[OF called(5)] by (intro client_keep[OF C]) auto
next
  case (closed_job j ph now ok s)
  then show ?thesis using perform_frame(4,7)[OF finish_is_call[OF closed_job(6)]] by (intro client_keep[OF C]) auto
next
  case (served j)
  have cl: "clients_inside y' = clients_inside y" "sy_client y' = sy_client y"
    and acc: "accepted_of (evs @ es) = accepted_of evs" "set (served_of (evs @ es)) = insert j (set (served_of evs))"
    using served by auto
  show ?thesis
  proof (rule client_invI, unfold cl acc)
    show "finite (clients_inside y)" by (rule client_invD(1)[OF C])
    show "sv_clients (sy_server y') = int (card (clients_inside y))" using client_invD(2)[OF C] served(2) by simp
    fix k
    show "k \<in> set (accepted_of evs) \<Longrightarrow> k \<notin> insert j (set (served_of evs)) \<Longrightarrow> sy_client y k = C_Waiting"
      using client_invD(3)[OF C, of k] by simp
    show "sy_client y k = C_Waiting \<Longrightarrow> k \<in> set (accepted_of evs)" by (rule client_invD(4)[OF C])
    show "k \<in> set (accepted_of evs) \<Longrightarrow> jb_done (sv_job (sy_server y') k) = (k \<in> insert j (set (served_of evs)))"
      using client_invD(5)[OF C, of k] served(2) by (cases "k = j") simp_all
  qed
qed (rule client_keep[OF C]; auto simp: dequeue_Some)+

definition main_inv :: "event list \<Rightarrow> sys \<Rightarrow> bool" where
  "main_inv evs y \<longleftrightarrow>
     sv_stopping (sy_server y) = (sy_main y \<noteq> M_Accept)
     \<and> (sy_worker y = W_Exit \<longrightarrow> sv_stopping (sy_server y) \<and> served_of evs = accepted_of evs)
     \<and> (sy_main y = M_Joined \<or> sy_main y = M_Closed \<longrightarrow> sy_worker y = W_Exit)
     \<and> (sy_main y = M_Closed \<longrightarrow> clients_inside y = {})"

lemma main_step:
  assumes O: "order_inv evs y" and C: "client_inv evs y" and M: "main_inv evs y" and "sys_step y es y'"
  shows "main_inv (evs @ es) y'"
  using assms(4)
proof cases
  case (closed)
  then have "clients_inside y = {}" using client_invD(1,2)[OF C] by auto
  then show ?thesis using M closed by (auto simp: main_inv_def)
next
  case (worker_exit s)
  obtain js where js: "queue_holds (sy_server y) js" "accepted_of evs = served_of evs @ js"
    using O worker_exit(3) by (auto simp: order_inv_def)
  have "js = []" using requests.pop_NoneD[OF js(1)] worker_exit(4) by (simp add: dequeue_Some)
  then show ?thesis using M js(2) worker_exit by (auto simp: main_inv_def dequeue_Some)
next
  case (called stage j c ok to now s)
  then show ?thesis using M perform_frame(3)[OF called(5)] by (auto simp: main_inv_def)
next
  case (closed_job j ph now ok s)
  then show ?thesis using M perform_frame(3)[OF finish_is_call[OF closed_job(6)]] by (auto simp: main_inv_def)
next
  case (take_job j s)
  have p: "queue_pop (sy_server y) = Some (j, s)" using take_job(4) by (simp add: dequeue_Some)
  then show ?thesis using M take_job pop_frame(1)[OF p] by (auto simp: main_inv_def)
next
  case (left j)
  then show ?thesis using M by (auto simp: main_inv_def inside_go)
next
  case (answered_directly j)
  then show ?thesis using M inside_mem[of y j] by (auto simp: main_inv_def inside_go)
next
  case (accepted j now st tools s)
  then show ?thesis using M inside_mem[of y j] by (auto simp: main_inv_def inside_go enqueue_ok push_frame)
next
  case (refused j now st tools s)
  then show ?thesis using M inside_mem[of y j] by (auto simp: main_inv_def inside_go enqueue_ok)
next
  case (woken j)
  then show ?thesis using M inside_mem[of y j] by (auto simp: main_inv_def inside_go)
qed (use M in \<open>auto simp: main_inv_def inside_go\<close>)+

section \<open>Runs\<close>

lemma run_invs:
  assumes "sys_run evs y"
  shows "order_inv evs y \<and> job_inv evs y \<and> count_inv evs y \<and> number_inv evs y \<and> client_inv evs y \<and> main_inv evs y"
  using assms
proof (induction rule: sys_run.induct)
  case (start jobs)
  have "queue_holds (start_server jobs) []" by (simp add: queue_holds_def start_server_def)
  then show ?case
    by (auto simp: order_inv_def job_inv_def count_inv_def number_inv_def client_inv_def main_inv_def start_sys_def
        start_server_def in_service_ended_def clients_inside_def)
next
  case (step evs y es y')
  note I = step(3)
  show ?case
    using order_step[OF _ step(2)] job_step[OF _ _ step(2)] count_step[OF _ _ _ step(2)] number_step[OF _ _ step(2)]
      client_step[OF _ _ step(2)] main_step[OF _ _ _ step(2)] I by simp
qed

lemmas run_inv = run_invs[THEN conjunct1] run_invs[THEN conjunct2, THEN conjunct1]
  run_invs[THEN conjunct2, THEN conjunct2, THEN conjunct1] run_invs[THEN conjunct2, THEN conjunct2, THEN conjunct2, THEN conjunct1]
  run_invs[THEN conjunct2, THEN conjunct2, THEN conjunct2, THEN conjunct2, THEN conjunct1]
  run_invs[THEN conjunct2, THEN conjunct2, THEN conjunct2, THEN conjunct2, THEN conjunct2]

section \<open>Draining\<close>

text \<open>The work that is left behind a stop, as a number.\<close>

fun stage_weight :: "stage \<Rightarrow> bool \<Rightarrow> nat" where
  "stage_weight Begin r = 10"
| "stage_weight Prefill r = 9"
| "stage_weight Decode r = (if r then 6 else 8)"
| "stage_weight Recovery r = 7"
| "stage_weight Serialize r = 5"
| "stage_weight Steering r = 5"
| "stage_weight Return r = 4"

fun worker_weight :: "worker_pc \<Rightarrow> (job_ptr \<Rightarrow> ds4_protocol_state) \<Rightarrow> nat" where
  "worker_weight W_Idle p = 1"
| "worker_weight (W_Started j) p = 11"
| "worker_weight (W_Job st j) p = stage_weight st (ps_recovery_attempted (p j))"
| "worker_weight (W_Clear j) p = 3"
| "worker_weight (W_Publish j) p = 2"
| "worker_weight W_Exit p = 0"

fun client_weight :: "client_pc \<Rightarrow> nat" where
  "client_weight C_New = 0"
| "client_weight C_Connected = 3"
| "client_weight C_Waiting = 2"
| "client_weight C_Leaving = 1"
| "client_weight C_Gone = 0"

fun main_weight :: "main_pc \<Rightarrow> nat" where
  "main_weight M_Accept = 3"
| "main_weight M_Drain = 2"
| "main_weight M_Joined = 1"
| "main_weight M_Closed = 0"

definition clients_weight :: "sys \<Rightarrow> nat" where
  "clients_weight y = (\<Sum>j\<in>clients_inside y. client_weight (sy_client y j))"

definition drain_work :: "event list \<Rightarrow> sys \<Rightarrow> nat" where
  "drain_work evs y =
     clients_weight y
     + 20 * (length (accepted_of evs) - length (served_of evs) - length (in_service (sy_worker y)))
     + worker_weight (sy_worker y) (protocol_of y) + main_weight (sy_main y)"

definition moves_nothing :: "sys \<Rightarrow> sys \<Rightarrow> bool" where
  "moves_nothing y y' \<longleftrightarrow> sy_worker y' = sy_worker y \<and> sy_client y' = sy_client y \<and> sy_main y' = sy_main y"

lemma clients_weight_same:
  "sy_client y' = sy_client y \<Longrightarrow> clients_weight y' = clients_weight y"
  by (simp add: clients_weight_def clients_inside_def)

lemma clients_weight_go:
  assumes "finite (clients_inside y)" "inside (sy_client y j)" "client_weight pc < client_weight (sy_client y j)"
    and "sy_client y' = (sy_client y)(j := pc)"
  shows "clients_weight y' < clients_weight y"
proof -
  have j: "j \<in> clients_inside y" using assms(2) by (rule inside_mem)
  have sub: "clients_inside y' \<subseteq> clients_inside y" "clients_inside y \<subseteq> insert j (clients_inside y')"
    using assms(2,4) by (auto simp: clients_inside_def)
  have zero: "client_weight pc = 0" if "\<not> inside pc" for pc using that by (cases pc) (simp_all add: inside_def)
  have "clients_weight y' = (\<Sum>k\<in>clients_inside y. client_weight (sy_client y' k))"
    unfolding clients_weight_def using assms(1) sub(1) zero
    by (intro sum.mono_neutral_left) (auto simp: clients_inside_def)
  also have "\<dots> < (\<Sum>k\<in>clients_inside y. client_weight (sy_client y k))"
    using assms(1,3,4) j by (intro sum_strict_mono_ex1) auto
  finally show ?thesis by (simp add: clients_weight_def)
qed

lemma stage_drains:
  assumes "history_of h (jb_protocol (sv_job s j))" "stage_ok st (ps_phase (jb_protocol (sv_job s j)))"
    and "next_call stop steering st c ok st'" "perform now j c s = (ok, s')"
  shows "st' = st \<or> stage_weight st' (ps_recovery_attempted (jb_protocol (sv_job s' j)))
    < stage_weight st (ps_recovery_attempted (jb_protocol (sv_job s j)))"
proof -
  have r: "ps_phase (jb_protocol (sv_job s j)) = DS4_PROTOCOL_RECOVERY \<Longrightarrow> ps_recovery_attempted (jb_protocol (sv_job s j))"
    using assms(1) lifecycles_nonempty[of h] by (auto simp: history_of_def)
  show ?thesis
    using assms(2-4) r
    by (cases rule: next_call.cases[OF assms(3)])
      (auto simp: protocol_calls protocol_defs transition_allowed_def terminal_simps split: prod.splits if_splits)
qed

lemma drain_client:
  assumes C: "client_inv evs y" and "accepted_of es = []" "served_of es = []"
    and "inside (sy_client y j)" "client_weight pc < client_weight (sy_client y j)"
    and "sy_client y' = (sy_client y)(j := pc)" "sy_worker y' = sy_worker y" "sy_main y' = sy_main y"
    and "\<And>k. protocol_of y' k = protocol_of y k"
  shows "drain_work (evs @ es) y' < drain_work evs y"
proof -
  have "protocol_of y' = protocol_of y" using assms(9) by (rule ext)
  then show ?thesis
    using clients_weight_go[OF client_invD(1)[OF C] assms(4-6)] assms(2,3,7,8) by (simp add: drain_work_def)
qed

lemma drain_worker:
  assumes "accepted_of es = []" "served_of es = []" "sy_client y' = sy_client y" "sy_main y' = sy_main y"
    and "length (in_service (sy_worker y')) = length (in_service (sy_worker y))"
    and "worker_weight (sy_worker y') (protocol_of y') < worker_weight (sy_worker y) (protocol_of y)"
  shows "drain_work (evs @ es) y' < drain_work evs y"
  using assms clients_weight_same[of y' y] by (simp add: drain_work_def)

lemma order_lengths:
  assumes "order_inv evs y"
  shows "length (served_of evs) + length (in_service (sy_worker y)) \<le> length (accepted_of evs)"
  using assms by (auto simp: order_inv_def)

lemma drain_step:
  assumes O: "order_inv evs y" and I: "job_inv evs y" and C: "client_inv evs y" and M: "main_inv evs y"
    and m: "sy_main y \<noteq> M_Accept" and s: "sys_step y es y'"
  shows "moves_nothing y y' \<or> drain_work (evs @ es) y' < drain_work evs y"
proof -
  have stop: "sv_stopping (sy_server y)" using M m by (simp add: main_inv_def)
  note eqs = protocol_of_def
  show ?thesis
    using s
  proof cases
    case (connect j)
    then show ?thesis using m by simp
  next
    case (accepted j now st tools s)
    then show ?thesis using stop by (simp add: enqueue_ok)
  next
    case (answered_directly j)
    then show ?thesis by (intro disjI2 drain_client[OF C, of es j C_Leaving y']) (simp_all add: eqs)
  next
    case (refused j now st tools s)
    have "j \<notin> set (accepted_of evs)" using O refused(3) unfolding order_inv_def by blast
    then have "j \<notin> set (in_service (sy_worker y))" using O by (auto simp: order_inv_def)
    moreover have "protocol_of y' k = protocol_of y k" if "k \<noteq> j" for k
      using refused that by (simp add: enqueue_ok eqs)
    ultimately have "worker_weight (sy_worker y) (protocol_of y') = worker_weight (sy_worker y) (protocol_of y)"
      by (cases "sy_worker y") auto
    moreover have "clients_weight y' < clients_weight y"
      using refused by (intro clients_weight_go[OF client_invD(1)[OF C], of j C_Leaving]) simp_all
    ultimately show ?thesis using refused by (simp add: drain_work_def)
  next
    case (woken j)
    then show ?thesis by (intro disjI2 drain_client[OF C, of es j C_Leaving y']) (simp_all add: eqs)
  next
    case (left j)
    then show ?thesis by (intro disjI2 drain_client[OF C, of es j C_Gone y']) (simp_all add: eqs)
  next
    case signal
    then show ?thesis by (simp add: moves_nothing_def)
  next
    case stopping
    then show ?thesis using m by simp
  next
    case joined
    then show ?thesis using clients_weight_same[of y' y] by (simp add: drain_work_def eqs)
  next
    case closed
    then have "protocol_of y' = protocol_of y" by (auto simp: eqs)
    then show ?thesis using closed clients_weight_same[of y' y] by (simp add: drain_work_def)
  next
    case (take_job j s)
    obtain js where js: "queue_holds (sy_server y) js" "accepted_of evs = served_of evs @ js"
      using O take_job(3) by (auto simp: order_inv_def)
    have "queue_pop (sy_server y) = Some (j, s)" using take_job(4) by (simp add: dequeue_Some)
    from requests.pop_SomeE[OF js(1) this] obtain js' where "js = j # js'" by blast
    then show ?thesis using take_job js(2) clients_weight_same[of y' y] by (simp add: drain_work_def)
  next
    case (worker_exit s)
    then show ?thesis by (intro disjI2 drain_worker) simp_all
  next
    case (started j)
    then show ?thesis by (intro disjI2 drain_worker) simp_all
  next
    case (called stage j c ok to now s)
    have "j \<in> set (accepted_of evs)" using O called(3) by (auto simp: order_inv_def)
    note h = job_invD(1)[OF I this, unfolded eqs]
    have st: "stage_ok stage (ps_phase (jb_protocol (sv_job (sy_server y) j)))"
      using job_invD(5)[OF I] called(3) by (simp add: eqs)
    from stage_drains[OF h st called(4,5)] show ?thesis
    proof
      assume "to = stage"
      then show ?thesis using called by (simp add: moves_nothing_def)
    next
      assume "stage_weight to (ps_recovery_attempted (jb_protocol (sv_job s j)))
        < stage_weight stage (ps_recovery_attempted (jb_protocol (sv_job (sy_server y) j)))"
      then show ?thesis using called by (intro disjI2 drain_worker) (simp_all add: eqs)
    qed
  next
    case (moved stage j to)
    have "j \<in> set (accepted_of evs)" using O moved(3) by (auto simp: order_inv_def)
    note h = job_invD(1)[OF I this]
    have st: "stage_ok stage (ps_phase (protocol_of y j))" using job_invD(5)[OF I] moved(3) by simp
    have "stage = Recovery \<Longrightarrow> ps_recovery_attempted (protocol_of y j)"
      using h st lifecycles_nonempty[of "phases_of j evs"] by (auto simp: history_of_def)
    moreover have "protocol_of y' = protocol_of y" using moved(2) by (auto simp: eqs)
    ultimately show ?thesis
      using moved(1,2,3) moved(4) by (intro disjI2 drain_worker; cases rule: next_silent.cases[OF moved(4)]; simp)
  next
    case (returned j)
    then show ?thesis by (intro disjI2 drain_worker) simp_all
  next
    case (closed_job j ph now ok s)
    then show ?thesis by (intro disjI2 drain_worker) simp_all
  next
    case (cleared j)
    then show ?thesis by (intro disjI2 drain_worker) simp_all
  next
    case (served j)
    then show ?thesis
      using order_lengths[OF O] clients_weight_same[of y' y] by (simp add: drain_work_def)
  qed
qed

text \<open>A server that is stopped and not closed is never stuck.\<close>

lemma worker_moves:
  assumes "sv_stopping (sy_server y)" "sy_worker y \<noteq> W_Exit"
  shows "\<exists>es y'. sys_step y es y' \<and> \<not> moves_nothing y y'"
proof (cases "sy_worker y")
  case W_Idle
  show ?thesis
  proof (cases "queue_pop (sy_server y)")
    case None
    then show ?thesis
      using sys_step.worker_exit[OF W_Idle, of "sy_server y"] assms(1) W_Idle by (fastforce simp: dequeue_Some moves_nothing_def)
  next
    case (Some js)
    obtain j s where "js = (j, s)" by (cases js)
    then show ?thesis
      using sys_step.take_job[OF W_Idle, of j s] Some W_Idle by (fastforce simp: dequeue_Some moves_nothing_def)
  qed
next
  case (W_Started j)
  then show ?thesis using sys_step.started[OF W_Started] by (fastforce simp: moves_nothing_def)
next
  case (W_Clear j)
  then show ?thesis using sys_step.cleared[OF W_Clear] by (fastforce simp: moves_nothing_def)
next
  case (W_Publish j)
  then show ?thesis using sys_step.served[OF W_Publish] by (fastforce simp: moves_nothing_def)
next
  case (W_Job st j)
  let ?steer = "jb_steering (sv_job (sy_server y) j)"
  have call: "\<exists>es y'. sys_step y es y' \<and> \<not> moves_nothing y y'"
    if "\<And>ok. next_call (sy_stop y) ?steer st c ok st'" "st' \<noteq> st" for c st'
  proof -
    obtain ok s where p: "perform 0 j c (sy_server y) = (ok, s)" by (metis surj_pair)
    show ?thesis using sys_step.called[OF W_Job that(1) p] that(2) W_Job by (fastforce simp: moves_nothing_def)
  qed
  have silent: "\<exists>es y'. sys_step y es y' \<and> \<not> moves_nothing y y'" if "next_silent st st'" "st' \<noteq> st" for st'
    using sys_step.moved[OF W_Job that(1)] that(2) W_Job by (fastforce simp: moves_nothing_def)
  show ?thesis
  proof (cases st)
    case Begin
    then show ?thesis using call next_call.steer next_call.generate by (cases ?steer) blast+
  next
    case Steering
    then show ?thesis using call next_call.steered by blast
  next
    case Prefill
    then show ?thesis using silent next_silent.prefill_return by blast
  next
    case Decode
    then show ?thesis using silent next_silent.decode_return by blast
  next
    case Recovery
    then show ?thesis using silent next_silent.recovery_failed by blast
  next
    case Serialize
    then show ?thesis using call[of "Call_Finish DS4_PROTOCOL_ERROR" Return] next_call.answered by blast
  next
    case Return
    show ?thesis
    proof (cases "ps_terminal (jb_protocol (sv_job (sy_server y) j))")
      case True
      then show ?thesis using sys_step.returned[of y j] W_Job Return by (fastforce simp: moves_nothing_def)
    next
      case False
      obtain ok s where "server_protocol_finish 0 j DS4_PROTOCOL_ERROR (sy_server y) = (ok, s)" by (metis surj_pair)
      then show ?thesis
        using sys_step.closed_job[of y j DS4_PROTOCOL_ERROR 0 ok s] W_Job Return False
        by (fastforce simp: moves_nothing_def last_outcome_def)
    qed
  qed
next
  case W_Exit
  then show ?thesis using assms(2) by simp
qed

lemma system_moves:
  assumes C: "client_inv evs y" and M: "main_inv evs y" and m: "sy_main y \<noteq> M_Accept" "sy_main y \<noteq> M_Closed"
  shows "\<exists>es y'. sys_step y es y' \<and> \<not> moves_nothing y y'"
proof (cases "sy_worker y = W_Exit")
  case False
  then show ?thesis using worker_moves M m(1) by (simp add: main_inv_def)
next
  case True
  show ?thesis
  proof (cases "clients_inside y = {}")
    case False
    then obtain j where "inside (sy_client y j)" by (auto simp: clients_inside_def)
    then consider "sy_client y j = C_Connected" | "sy_client y j = C_Waiting" | "sy_client y j = C_Leaving"
      by (auto simp: inside_def)
    then show ?thesis
    proof cases
      case 1
      then show ?thesis using sys_step.answered_directly[OF 1] by (fastforce simp: moves_nothing_def dest: fun_cong[of _ _ j])
    next
      case 2
      then have "jb_done (sv_job (sy_server y) j)"
        using client_invD(4)[OF C, of j] client_invD(5)[OF C, of j] M True by (simp add: main_inv_def)
      then show ?thesis using sys_step.woken[OF 2] 2 by (fastforce simp: moves_nothing_def dest: fun_cong[of _ _ j])
    next
      case 3
      then show ?thesis using sys_step.left[OF 3] by (fastforce simp: moves_nothing_def dest: fun_cong[of _ _ j])
    qed
  next
    case none: True
    then have "sv_clients (sy_server y) = 0" using client_invD(2)[OF C] by simp
    then show ?thesis
      using sys_step.joined[of y] sys_step.closed[of y] True m
      by (cases "sy_main y") (fastforce simp: moves_nothing_def)+
  qed
qed

lemma stopped_step:
  assumes "main_inv evs y" "sy_main y \<noteq> M_Accept" "sys_step y es y'"
  shows "accepted_of es = []" "sy_main y' \<noteq> M_Accept"
  using assms(3,1,2) by (cases; auto simp: main_inv_def enqueue_ok)+

lemma drains:
  assumes "sys_run evs y" "sy_main y \<noteq> M_Accept"
  shows "\<exists>evs' y'. sys_run (evs @ evs') y' \<and> sy_main y' = M_Closed \<and> accepted_of evs' = []"
  using assms
proof (induction "drain_work evs y" arbitrary: evs y rule: less_induct)
  case less
  note inv = run_inv[OF less.prems(1)]
  show ?case
  proof (cases "sy_main y = M_Closed")
    case True
    then show ?thesis using less.prems(1) by (intro exI[of _ "[]"]) auto
  next
    case False
    obtain es y1 where s: "sys_step y es y1" "\<not> moves_nothing y y1"
      using system_moves[OF inv(5,6) less.prems(2) False] by blast
    have d: "drain_work (evs @ es) y1 < drain_work evs y"
      using drain_step[OF inv(1,2,5,6) less.prems(2) s(1)] s(2) by blast
    obtain evs' y' where "sys_run ((evs @ es) @ evs') y'" "sy_main y' = M_Closed" "accepted_of evs' = []"
      using less.hyps[OF d sys_run.step[OF less.prems(1) s(1)] stopped_step(2)[OF inv(6) less.prems(2) s(1)]] by blast
    then show ?thesis using stopped_step(1)[OF inv(6) less.prems(2) s(1)]
      by (intro exI[of _ "es @ evs'"]) auto
  qed
qed

section \<open>What the server promises\<close>

text \<open>C11. In every run of the server the accepted jobs are distinct and numbered from one in the order of their
  acceptance, they are served once each in that order, the queue holds exactly the ones that are neither
  served nor in service, and the client of each of these still waits, so the job on its stack is alive.\<close>

theorem requests_served_in_order:
  assumes "sys_run evs y"
  shows "prefix (served_of evs) (accepted_of evs) \<and> distinct (accepted_of evs)
    \<and> map (\<lambda>j. ps_request_id (protocol_of y j)) (accepted_of evs) = map of_nat [1..<Suc (length (accepted_of evs))]
    \<and> queued_from (sy_server y) 0 (sv_head (sy_server y))
      = Some (length (accepted_of evs) - length (served_of evs) - length (in_service (sy_worker y)))
    \<and> list_all (\<lambda>j. sy_client y j = C_Waiting) (drop (length (served_of evs)) (accepted_of evs))"
proof -
  note inv = run_inv[OF assms]
  obtain js where js: "queue_holds (sy_server y) js" "accepted_of evs = served_of evs @ in_service (sy_worker y) @ js"
    using inv(1) by (auto simp: order_inv_def)
  have "queued_from (sy_server y) 0 (sv_head (sy_server y)) = Some (0 + length js)"
    using js(1) queued_from_linked[of "sy_server y" js 0] by (simp add: queue_holds_def)
  moreover have "list_all (\<lambda>j. sy_client y j = C_Waiting) (drop (length (served_of evs)) (accepted_of evs))"
  proof -
    have d: "drop (length (served_of evs)) (accepted_of evs) = in_service (sy_worker y) @ js" using js(2) by simp
    have "sy_client y j = C_Waiting" if "j \<in> set (in_service (sy_worker y) @ js)" for j
      by (rule client_invD(3)[OF inv(5)]) (use that js(2) inv(1) in \<open>auto simp: order_inv_def\<close>)
    then show ?thesis unfolding d by (simp add: list_all_iff)
  qed
  ultimately show ?thesis using js(2) inv(1,4) by (auto simp: order_inv_def number_inv_def)
qed

text \<open>The histories of served requests: they end with a terminal phase, and an answer was written before
  the request counts as completed.\<close>

definition finished_lifecycles :: "ds4_protocol_phase list list" where
  "finished_lifecycles =
     filter (\<lambda>h. ds4_protocol_is_terminal (List.last h)
       \<and> (List.last h = DS4_PROTOCOL_COMPLETE \<longrightarrow> DS4_PROTOCOL_SERIALIZE \<in> set h)) lifecycles"

text \<open>C10. In every run of the server each accepted request follows a permitted history (at most one recovery, at
  most one terminal phase), a served request has exactly one terminal outcome, a completed one was
  serialized first, and the three counters of the health report agree, modulo their width, with the
  outcomes, one for each request served or about to be published.\<close>

theorem one_outcome_per_request:
  assumes "sys_run evs y"
  shows "list_all (\<lambda>j. phases_of j evs \<in> set lifecycles) (accepted_of evs)
    \<and> list_all (\<lambda>j. phases_of j evs \<in> set finished_lifecycles) (served_of evs)
    \<and> sv_completed_requests (sy_server y) = of_nat (outcomes (\<lambda>ph. ph = DS4_PROTOCOL_COMPLETE) evs)
    \<and> sv_failed_requests (sy_server y) = of_nat (outcomes (\<lambda>ph. ph = DS4_PROTOCOL_ERROR) evs)
    \<and> sv_cancelled_requests (sy_server y) = of_nat (outcomes (\<lambda>ph. ph = DS4_PROTOCOL_CANCELLED) evs)
    \<and> outcomes ds4_protocol_is_terminal evs = length (served_of evs) + in_service_ended y"
proof -
  note inv = run_inv[OF assms]
  have l: "phases_of j evs \<in> set lifecycles" if "j \<in> set (accepted_of evs)" for j
    using job_invD(1)[OF inv(2) that] by (simp add: history_of_def)
  have f: "phases_of j evs \<in> set finished_lifecycles" if "j \<in> set (served_of evs)" for j
  proof -
    have a: "j \<in> set (accepted_of evs)" using inv(1) that by (auto simp: order_inv_def)
    have "ds4_protocol_is_terminal (List.last (phases_of j evs))"
      using job_invD(1)[OF inv(2) a] job_invD(3)[OF inv(2) that] by (simp add: history_of_def)
    moreover have "DS4_PROTOCOL_SERIALIZE \<in> set (phases_of j evs)"
      if "List.last (phases_of j evs) = DS4_PROTOCOL_COMPLETE"
      using job_invD(6)[OF inv(2), of j] lifecycles_nonempty[OF l[OF a]] that by simp
    ultimately show ?thesis using l[OF a] by (simp add: finished_lifecycles_def)
  qed
  show ?thesis using l f inv(3) by (simp add: list_all_iff count_inv_def)
qed

text \<open>C12. Whatever a server has done, it can still be stopped, and then drains: there is a continuation in which
  every accepted request is served, the worker ends, no client is left inside, and the server closes.
  (Lemma \<open>drain_step\<close>: behind the stop each step that moves a thread makes the remaining work smaller.)\<close>

theorem stopped_server_drains:
  assumes "sys_run evs y"
  shows "\<exists>evs' y'. sys_run (evs @ evs') y' \<and> sy_main y' = M_Closed \<and> sy_worker y' = W_Exit
    \<and> served_of (evs @ evs') = accepted_of evs \<and> clients_inside y' = {}"
proof -
  have fin: ?thesis if "sys_run (evs @ evs') y'" "sy_main y' = M_Closed" "accepted_of evs' = []" for evs' y'
    using run_inv(6)[OF that(1)] that by (fastforce simp: main_inv_def)
  show ?thesis
  proof (cases "sy_main y = M_Accept")
    case False
    then show ?thesis using drains[OF assms] fin by blast
  next
    case True
    have "sys_run (evs @ []) (y\<lparr>sy_stop := True\<rparr>)" by (rule sys_run.step[OF assms sys_step.signal])
    then have "sys_run (evs @ []) (y\<lparr>sy_stop := True, sy_main := M_Drain, sy_server := (sy_server y)\<lparr>sv_stopping := True\<rparr>\<rparr>)"
      using sys_run.step[OF _ sys_step.stopping[of "y\<lparr>sy_stop := True\<rparr>"]] True by fastforce
    from drains[OF this] show ?thesis using fin by auto
  qed
qed

section \<open>A run\<close>

text \<open>One client asks for a change of the steering, and is served.\<close>

definition demo_jobs :: "job_ptr \<Rightarrow> job" where
  "demo_jobs = (\<lambda>_. new_job True False)"

lemma run_step: "sys_run evs y \<Longrightarrow> sys_step y es y' \<Longrightarrow> evs @ es = evs' \<Longrightarrow> sys_run evs' y'"
  using sys_run.step by blast

lemma demo_run: "\<exists>y. sys_run [Accepted 0, Phase 0 DS4_PROTOCOL_SERIALIZE, Phase 0 DS4_PROTOCOL_COMPLETE, Served 0] y
    \<and> sy_main y = M_Accept"
proof -
  note ev = start_sys_def start_server_def go_def dequeue_def queue_pop_def queue_push_def put_job_def new_job_def
    enqueue_def server_protocol_transition_def server_protocol_finish_def put_protocol_def count_outcome_def
    protocol_defs transition_allowed_def terminal_simps call_events_def Let_def
  have "\<exists>y. sys_run [] y \<and> sy_main y = M_Accept \<and> sy_worker y = W_Idle \<and> sy_client y 0 = C_Connected
      \<and> sy_server y = (start_server demo_jobs)\<lparr>sv_clients := 1\<rparr>"
    by (intro exI conjI, rule run_step[OF sys_run.start sys_step.connect[of "start_sys demo_jobs" 0]]) (simp_all add: ev)
  then obtain y1 where y1: "sys_run [] y1" "sy_main y1 = M_Accept" "sy_worker y1 = W_Idle" "sy_client y1 0 = C_Connected"
    "sy_server y1 = (start_server demo_jobs)\<lparr>sv_clients := 1\<rparr>" by blast
  let ?e = "enqueue 1 0 (put_job 0 (new_job True False) (sy_server y1))"
  have e: "?e = (True, snd ?e)" by (simp add: y1(5) ev)
  define y2 where "y2 = go 0 C_Waiting (y1\<lparr>sy_server := snd ?e\<rparr>)"
  have r2: "sys_run [Accepted 0] y2"
    unfolding y2_def using run_step[OF y1(1) sys_step.accepted[OF y1(4) e]] by simp
  let ?d = "dequeue (sy_server y2)"
  define s3 where "s3 = snd (the ?d)"
  have d: "?d = Some (Some 0, s3)" by (simp add: y2_def s3_def y1(5) ev)
  define y3 where "y3 = y2\<lparr>sy_worker := W_Started 0, sy_server := s3\<rparr>"
  have r3: "sys_run [Accepted 0] y3"
    using run_step[OF r2 sys_step.take_job[OF _ d]] y1(3) by (simp add: y3_def y2_def)
  obtain y4 where y4: "sys_run [Accepted 0] y4" "sy_worker y4 = W_Job Begin 0" "sy_main y4 = M_Accept"
      "jb_protocol (sv_job (sy_server y4) 0) = ds4_protocol_state_init 1 False 1" "jb_steering (sv_job (sy_server y4) 0)"
    using run_step[OF r3 sys_step.started[of y3 0]] y1(2)
    by (force simp: y3_def y2_def s3_def y1(5) ev)
  define t where "t = server_protocol_transition 2 0 DS4_PROTOCOL_SERIALIZE (sy_server y4)"
  have t: "perform 2 0 (Call_Transition DS4_PROTOCOL_SERIALIZE) (sy_server y4) = (True, snd t)"
    by (simp add: t_def server_protocol_transition_def y4(4) protocol_defs transition_allowed_def terminal_simps)
  obtain y5 where y5: "sys_run [Accepted 0, Phase 0 DS4_PROTOCOL_SERIALIZE] y5" "sy_worker y5 = W_Job Steering 0"
      "sy_main y5 = M_Accept" "ps_phase (jb_protocol (sv_job (sy_server y5) 0)) = DS4_PROTOCOL_SERIALIZE"
      "\<not> ps_terminal (jb_protocol (sv_job (sy_server y5) 0))"
    using run_step[OF y4(1) sys_step.called[OF y4(2) next_call.steer[OF y4(5)] t]] y4(3,4)
    by (force simp: t_def server_protocol_transition_def protocol_defs transition_allowed_def terminal_simps call_events_def)
  define f where "f = server_protocol_finish 3 0 DS4_PROTOCOL_COMPLETE (sy_server y5)"
  have f: "perform 3 0 (Call_Finish DS4_PROTOCOL_COMPLETE) (sy_server y5) = (True, snd f)"
    by (simp add: f_def server_protocol_finish_def y5(4,5) protocol_defs transition_allowed_def terminal_simps)
  obtain y6 where y6: "sys_run [Accepted 0, Phase 0 DS4_PROTOCOL_SERIALIZE, Phase 0 DS4_PROTOCOL_COMPLETE] y6"
      "sy_worker y6 = W_Job Return 0" "sy_main y6 = M_Accept" "ps_terminal (jb_protocol (sv_job (sy_server y6) 0))"
    using run_step[OF y5(1) sys_step.called[OF y5(2) next_call.steered f]] y5(3-5)
    by (force simp: f_def server_protocol_finish_def protocol_defs transition_allowed_def terminal_simps call_events_def)
  obtain y7 where y7: "sys_run [Accepted 0, Phase 0 DS4_PROTOCOL_SERIALIZE, Phase 0 DS4_PROTOCOL_COMPLETE] y7"
      "sy_worker y7 = W_Clear 0" "sy_main y7 = M_Accept"
    using run_step[OF y6(1) sys_step.returned[OF y6(2,4)]] y6(3) by force
  obtain y8 where y8: "sys_run [Accepted 0, Phase 0 DS4_PROTOCOL_SERIALIZE, Phase 0 DS4_PROTOCOL_COMPLETE] y8"
      "sy_worker y8 = W_Publish 0" "sy_main y8 = M_Accept"
    using run_step[OF y7(1) sys_step.cleared[OF y7(2)]] y7(3) by force
  show ?thesis using run_step[OF y8(1) sys_step.served[OF y8(2)]] y8(3) by force
qed

definition demo_events :: "event list" where
  "demo_events = [Accepted 0, Phase 0 DS4_PROTOCOL_SERIALIZE, Phase 0 DS4_PROTOCOL_COMPLETE, Served 0]"

lemma demo_events_run: "\<exists>y. sys_run demo_events y"
  using demo_run unfolding demo_events_def by blast

theorem requests_served_in_order_witness:
  "\<exists>y. sys_run demo_events y \<and> prefix (served_of demo_events) (accepted_of demo_events)
    \<and> map (\<lambda>j. ps_request_id (protocol_of y j)) (accepted_of demo_events) = map of_nat [1..<Suc (length (accepted_of demo_events))]
    \<and> queued_from (sy_server y) 0 (sv_head (sy_server y))
      = Some (length (accepted_of demo_events) - length (served_of demo_events) - length (in_service (sy_worker y)))"
  using demo_events_run requests_served_in_order by blast

theorem one_outcome_per_request_witness:
  "\<exists>y. sys_run demo_events y \<and> list_all (\<lambda>j. phases_of j demo_events \<in> set finished_lifecycles) (served_of demo_events)
    \<and> sv_completed_requests (sy_server y) = of_nat (outcomes (\<lambda>ph. ph = DS4_PROTOCOL_COMPLETE) demo_events)"
  using demo_events_run one_outcome_per_request by blast

theorem stopped_server_drains_witness:
  "\<exists>evs' y'. sys_run (demo_events @ evs') y' \<and> sy_main y' = M_Closed
    \<and> served_of (demo_events @ evs') = accepted_of demo_events \<and> clients_inside y' = {}"
  using demo_events_run stopped_server_drains by blast

end
