(* ===== verification/Http.thy ===== *)
theory Http
  imports Ssd Json
begin

text \<open>
  The request reader and the response writer of the HTTP server (\<open>ds4_server.c\<close>): where a request's
  header ends, how long its body is, its method and path, the endpoint it asks for, and the text of a
  response.  The network is the list of what arrives, cut anywhere; \<open>recv\<close> gives at most as many bytes as
  the caller has room for, may be interrupted by a signal, and reports the end and every error alike.
\<close>

section \<open>Headers\<close>

definition CRLF :: string where
  "CRLF = [CHR 0x0D, CHR 0x0A]"

definition LF2 :: string where
  "LF2 = [CHR 0x0A, CHR 0x0A]"

text \<open>The position behind the first blank line: one that ends with carriage returns if there is one, else
  any.\<close>

definition header_end :: "string \<Rightarrow> nat option" where
  "header_end p =
     (case strstr p (CRLF @ CRLF) of
        Some i \<Rightarrow> Some (i + 4)
      | None \<Rightarrow> map_option (\<lambda>i. i + 2) (strstr p LF2))"

text \<open>\<open>strtol\<close> to the base ten on the rest of the buffer; a value out of range is clamped.\<close>

definition strtol10 :: "string \<Rightarrow> int" where
  "strtol10 s =
     (let t = dropWhile isspace s; v = int (digits_value (takeWhile isdigit (skip_sign t))) in
      if t \<noteq> [] \<and> hd t = CHR ''-'' then max (- (2 ^ 63)) (- v) else min (2 ^ 63 - 1) v)"

definition CONTENT_LENGTH :: string where
  "CONTENT_LENGTH = ''Content-Length:''"

definition is_length_line :: "string \<Rightarrow> bool" where
  "is_length_line line \<longleftrightarrow>
     length line \<ge> 15 \<and> map tolower (take 15 line) = map tolower CONTENT_LENGTH"

text \<open>The loop over the header lines: \<open>p\<close> is the rest of the buffer, \<open>n\<close> the rest of the header.\<close>

definition line_bytes :: "string \<Rightarrow> nat \<Rightarrow> nat" where
  "line_bytes p n = length (takeWhile (\<lambda>c. c \<noteq> CHR 0x0A) (take n p))"

definition line_text :: "string \<Rightarrow> nat \<Rightarrow> string" where
  "line_text p n =
     (let len = line_bytes p n; len' = (if len > 0 \<and> p ! (len - 1) = CHR 0x0D then len - 1 else len) in
      take len' p)"

function content_length :: "string \<Rightarrow> nat \<Rightarrow> int" where
  "content_length p n =
     (if n = 0 then 0
      else
        (let line = line_text p n in
         if is_length_line line then
           strtol10 (drop (15 + length (takeWhile isspace (drop 15 line))) p)
         else content_length (drop (line_bytes p n + 1) p) (n - (line_bytes p n + 1))))"
  by pat_completeness auto
termination
  by (relation "measure snd") auto

declare content_length.simps [simp del]

section \<open>Reading a request\<close>

datatype arrival = Bytes string | Interrupted

datatype received = Got string | Eintr | Failed

fun recv :: "nat \<Rightarrow> arrival list \<Rightarrow> received \<times> arrival list" where
  "recv n [] = (Failed, [])"
| "recv n (Interrupted # net) = (Eintr, net)"
| "recv n (Bytes s # net) =
     (if s = [] then (Failed, net)
      else (Got (take n s), if length s \<le> n then net else Bytes (drop n s) # net))"

definition MAX_HEADER :: nat where
  "MAX_HEADER = 64 * 1024"

definition MAX_BODY :: nat where
  "MAX_BODY = 64 * 1024 * 1024"

fun arrival_size :: "arrival \<Rightarrow> nat" where
  "arrival_size (Bytes s) = Suc (length s)"
| "arrival_size Interrupted = 1"

definition net_size :: "arrival list \<Rightarrow> nat" where
  "net_size net = sum_list (map arrival_size net)"

lemma recv_smaller:
  assumes "(r, net') = recv n net" "0 < n" "r \<noteq> Failed"
  shows "net_size net' < net_size net"
  using assms by (cases "(n, net)" rule: recv.cases) (auto simp: net_size_def split: if_splits)

function read_header :: "string \<Rightarrow> arrival list \<Rightarrow> (string \<times> nat \<times> arrival list) option" where
  "read_header b net =
     (if length b \<ge> MAX_HEADER then None
      else
        (case recv 4096 net of
           (Eintr, net') \<Rightarrow> read_header b net'
         | (Failed, net') \<Rightarrow> None
         | (Got s, net') \<Rightarrow>
             (case header_end (b @ s) of
                Some hend \<Rightarrow> Some (b @ s, hend, net')
              | None \<Rightarrow> read_header (b @ s) net')))"
  by pat_completeness auto
termination
  by (relation "measure (net_size \<circ> snd)") (auto dest: recv_smaller)

function read_body :: "nat \<Rightarrow> string \<Rightarrow> arrival list \<Rightarrow> (string \<times> arrival list) option" where
  "read_body need b net =
     (if length b \<ge> need then Some (b, net)
      else
        (case recv 8192 net of
           (Eintr, net') \<Rightarrow> read_body need b net'
         | (Failed, net') \<Rightarrow> None
         | (Got s, net') \<Rightarrow> read_body need (b @ s) net'))"
  by pat_completeness auto
termination
  by (relation "measure (net_size \<circ> snd \<circ> snd)") (auto dest: recv_smaller)

declare read_header.simps [simp del] read_body.simps [simp del]

record http_request =
  hr_method :: string
  hr_path :: string
  hr_body :: string

text \<open>\<open>sscanf(line, "%7s %255s", ..)\<close> on the first line, and the path before a question mark.\<close>

definition scan_word :: "nat \<Rightarrow> string \<Rightarrow> string \<times> string" where
  "scan_word n s =
     (let t = dropWhile isspace s; w = take n (takeWhile (\<lambda>c. \<not> isspace c) t) in (w, drop (length w) t))"

definition request_line :: "string \<Rightarrow> (string \<times> string) option" where
  "request_line b =
     (let line = cstr (take 511 (takeWhile (\<lambda>c. c \<noteq> CHR 0x0A) b));
          (meth, rest) = scan_word 7 line; (path, _) = scan_word 255 rest in
      if meth = [] \<or> path = [] then None else Some (meth, takeWhile (\<lambda>c. c \<noteq> CHR ''?'') path))"

definition read_http_request :: "arrival list \<Rightarrow> http_request option" where
  "read_http_request net =
     (case read_header [] net of
        None \<Rightarrow> None
      | Some (b, hend, net1) \<Rightarrow>
          (case request_line b of
             None \<Rightarrow> None
           | Some (meth, path) \<Rightarrow>
               (let clen = content_length b hend in
                if clen < 0 \<or> clen > int MAX_BODY then None
                else
                  (case read_body (hend + nat clen) b net1 of
                     None \<Rightarrow> None
                   | Some (b', _) \<Rightarrow>
                       Some \<lparr>hr_method = meth, hr_path = path,
                             hr_body = take (nat clen) (drop hend b')\<rparr>))))"

section \<open>Endpoints and responses\<close>

datatype endpoint =
    E_Options | E_Models | E_Health | E_Model string | E_Messages | E_Chat | E_Responses | E_Completions
  | E_Steering | E_Steering_Profiles | E_Steering_Get | E_Unknown

definition server_model_alias_known :: "string \<Rightarrow> bool" where
  "server_model_alias_known model_id \<longleftrightarrow> model_id = ''deepseek-v4-flash'' \<or> model_id = ''deepseek-v4-pro''"

definition client_endpoint :: "http_request \<Rightarrow> endpoint" where
  "client_endpoint hr =
     (let meth = hr_method hr; path = hr_path hr; model_prefix = ''/v1/models/'' in
      if meth = ''OPTIONS'' then E_Options
      else if meth = ''GET'' \<and> path = ''/v1/models'' then E_Models
      else if meth = ''GET'' \<and> path = ''/healthz'' then E_Health
      else if meth = ''GET'' \<and> prefix model_prefix path \<and> server_model_alias_known (drop (length model_prefix) path)
        then E_Model (drop (length model_prefix) path)
      else if meth = ''POST'' \<and> path = ''/v1/messages'' then E_Messages
      else if meth = ''POST'' \<and> path = ''/v1/chat/completions'' then E_Chat
      else if meth = ''POST'' \<and> path = ''/v1/responses'' then E_Responses
      else if meth = ''POST'' \<and> path = ''/v1/completions'' then E_Completions
      else if meth = ''POST'' \<and> path = ''/v1/steering'' then E_Steering
      else if meth = ''GET'' \<and> path = ''/v1/steering/profiles'' then E_Steering_Profiles
      else if meth = ''GET'' \<and> path = ''/v1/steering'' then E_Steering_Get
      else E_Unknown)"

definition http_reason :: "nat \<Rightarrow> string" where
  "http_reason code =
     (if code = 200 then ''OK'' else if code = 204 then ''No Content''
      else if code = 400 then ''Bad Request'' else if code = 404 then ''Not Found''
      else if code = 409 then ''Conflict'' else if code = 500 then ''Internal Server Error''
      else ''Error'')"

definition cors_headers :: string where
  "cors_headers =
     ''Access-Control-Allow-Origin: *'' @ CRLF
     @ ''Access-Control-Allow-Methods: GET, POST, OPTIONS'' @ CRLF
     @ ''Access-Control-Allow-Headers: *'' @ CRLF"

definition http_response :: "bool \<Rightarrow> nat \<Rightarrow> string option \<Rightarrow> string option \<Rightarrow> string" where
  "http_response enable_cors code type body =
     (let body' = (case body of None \<Rightarrow> [] | Some b \<Rightarrow> b) in
      ''HTTP/1.1 '' @ dec_str code @ '' '' @ http_reason code @ CRLF
      @ ''Content-Length: '' @ dec_str (length body') @ CRLF
      @ (case type of Some t \<Rightarrow> if t \<noteq> [] then ''Content-Type: '' @ t @ CRLF else [] | None \<Rightarrow> [])
      @ (if enable_cors then cors_headers else [])
      @ ''Connection: close'' @ CRLF @ CRLF @ body')"

text \<open>Steering profiles stay inside the configured directory.\<close>

definition steering_resolve_profile :: "string option \<Rightarrow> string option \<Rightarrow> string option" where
  "steering_resolve_profile steering_dir name =
     (case steering_dir of
        None \<Rightarrow> None
      | Some dir \<Rightarrow>
          if dir = [] then None
          else
            (case name of
               None \<Rightarrow> None
             | Some n \<Rightarrow>
                 if n = [] \<or> strchr n (CHR ''/'') \<noteq> None \<or> strstr n ''..'' \<noteq> None then None
                 else Some (dir @ ''/'' @ n)))"

end
