(* ===== verification/HttpFrame.thy ===== *)
theory HttpFrame
  imports Http
begin

text \<open>
  However the network cuts a request into pieces, the server reads the same request; an empty length
  header is the exception that reads on into the bytes behind it.
\<close>

section \<open>Searching in a prefix\<close>

lemma prefix_drop_take: "prefix l (drop j (take m s)) \<Longrightarrow> prefix l (drop j s)"
  by (metis append_take_drop_id drop_append prefix_append prefix_def append.assoc)

lemma strstr_take:
  assumes "strstr s lit = Some i"
  shows "i + length lit \<le> m \<Longrightarrow> strstr (take m s) lit = Some i" "m < i + length lit \<Longrightarrow> strstr (take m s) lit = None"
proof -
  note s = assms[unfolded strstr_Some_iff]
  show "strstr (take m s) lit = Some i" if "i + length lit \<le> m"
  proof -
    have "take (length lit) (drop i s) = lit" using s by (auto simp: prefix_def)
    moreover have "length lit \<le> m - i" using that by linarith
    ultimately have "take (length lit) (drop i (take m s)) = lit" by (simp add: drop_take min_absorb1)
    then have "prefix lit (drop i (take m s))" by (metis take_is_prefix)
    then show ?thesis using s that prefix_drop_take by (fastforce simp: strstr_Some_iff)
  qed
  show "strstr (take m s) lit = None" if "m < i + length lit"
  proof (rule ccontr)
    assume "strstr (take m s) lit \<noteq> None"
    then obtain k where k: "strstr (take m s) lit = Some k" by blast
    then have "prefix lit (drop k s)" "k + length lit \<le> m"
      using strstr_SomeD(1)[OF k] prefix_drop_take by (auto simp: strstr_Some_iff)
    then show False using s that by (metis add_le_cancel_right leD le_less_linear less_le_trans)
  qed
qed

lemma strstr_take_None: "strstr s lit = None \<Longrightarrow> strstr (take m s) lit = None"
proof (rule ccontr)
  assume n: "strstr s lit = None" "strstr (take m s) lit \<noteq> None"
  then obtain k where "strstr (take m s) lit = Some k" by blast
  then have "prefix lit (drop k s)" "k \<le> length s" using prefix_drop_take by (auto simp: strstr_Some_iff)
  then show False using n(1) by (auto simp: strstr_None_iff)
qed

lemma strstr_pass:
  assumes "c \<notin> set a"
  shows "strstr (a @ s) (c # lit) = map_option (\<lambda>i. length a + i) (strstr s (c # lit))"
proof -
  have "\<not> prefix (c # lit) (drop q (a @ s))" if "q < length a" for q
  proof -
    have "drop q (a @ s) = (a @ s) ! q # drop (Suc q) (a @ s)" using that by (intro Cons_nth_drop_Suc[symmetric]) simp
    moreover have "(a @ s) ! q = a ! q" using that by (simp add: nth_append)
    ultimately show ?thesis using assms nth_mem[OF that] by auto
  qed
  then show ?thesis using strstr_skip[of "length a" "c # lit" "a @ s"] by simp
qed

section \<open>Header texts\<close>

definition plain_line :: "string \<Rightarrow> bool" where
  "plain_line l \<longleftrightarrow> l \<noteq> [] \<and> CHR 0x0D \<notin> set l \<and> CHR 0x0A \<notin> set l"

definition head_text :: "string list \<Rightarrow> string" where
  "head_text ls = concat (map (\<lambda>l. l @ CRLF) ls) @ CRLF"

lemma head_text_simps [simp]:
  "head_text [] = CRLF" "head_text (l # ls) = l @ CRLF @ head_text ls"
  by (simp_all add: head_text_def)

lemma head_text_start:
  assumes "list_all plain_line ls"
  shows "\<exists>c t. head_text ls = c # t \<and> c \<noteq> CHR 0x0A \<and> (c = CHR 0x0D \<longleftrightarrow> ls = [])"
  using assms by (cases ls) (auto simp: CRLF_def plain_line_def neq_Nil_conv)

lemma head_text_blank:
  "list_all plain_line ls \<Longrightarrow> ls \<noteq> [] \<Longrightarrow>
    \<exists>i. strstr (head_text ls @ rest) (CRLF @ CRLF) = Some i \<and> i + 4 = length (head_text ls)"
proof (induction ls)
  case (Cons l ls)
  have pass: "strstr (l @ s) (CRLF @ CRLF) = map_option (\<lambda>i. length l + i) (strstr s (CRLF @ CRLF))" for s
    unfolding CRLF_def append_Cons using Cons.prems(1) by (intro strstr_pass) (simp add: plain_line_def)
  show ?case
  proof (cases "ls = []")
    case True
    then show ?thesis using pass by (simp add: strstr_Cons CRLF_def)
  next
    case False
    obtain i where i: "strstr (head_text ls @ rest) (CRLF @ CRLF) = Some i" "i + 4 = length (head_text ls)"
      using Cons.IH Cons.prems(1) False by auto
    obtain c t where c: "head_text ls = c # t" "c \<noteq> CHR 0x0D" using head_text_start[of ls] Cons.prems(1) False by auto
    have "strstr (CRLF @ head_text ls @ rest) (CRLF @ CRLF) = Some (i + 2)"
      using i(1) c by (simp add: strstr_Cons CRLF_def)
    then show ?thesis using pass i(2) by (simp add: CRLF_def)
  qed
qed simp

lemma head_text_no_LF2: "list_all plain_line ls \<Longrightarrow> strstr (head_text ls) LF2 = None"
proof (induction ls)
  case Nil
  then show ?case by (simp add: strstr_Cons CRLF_def LF2_def strstr_Nil)
next
  case (Cons l ls)
  have pass: "strstr (l @ s) LF2 = map_option (\<lambda>i. length l + i) (strstr s LF2)" for s
    unfolding LF2_def using Cons.prems(1) by (intro strstr_pass) (simp add: plain_line_def)
  obtain c t where "head_text ls = c # t" "c \<noteq> CHR 0x0A" using head_text_start[of ls] Cons.prems(1) by auto
  then show ?case using pass Cons by (simp add: strstr_Cons CRLF_def LF2_def)
qed

lemma header_end_prefix:
  assumes "list_all plain_line ls" "ls \<noteq> []"
  shows "m < length (head_text ls) \<Longrightarrow> header_end (take m (head_text ls @ rest)) = None"
    "length (head_text ls) \<le> m \<Longrightarrow> header_end (take m (head_text ls @ rest)) = Some (length (head_text ls))"
proof -
  obtain i where i: "strstr (head_text ls @ rest) (CRLF @ CRLF) = Some i" "i + 4 = length (head_text ls)"
    using head_text_blank[OF assms] by blast
  have l: "length (CRLF @ CRLF) = 4" by (simp add: CRLF_def)
  show "header_end (take m (head_text ls @ rest)) = None" if "m < length (head_text ls)"
    using strstr_take(2)[OF i(1), of m] strstr_take_None[OF head_text_no_LF2[OF assms(1)], of m] that i(2) l
    by (simp add: header_end_def)
  show "header_end (take m (head_text ls @ rest)) = Some (length (head_text ls))" if "length (head_text ls) \<le> m"
    using strstr_take(1)[OF i(1), of m] that i(2) l by (simp add: header_end_def)
qed

section \<open>Receiving\<close>

fun net_data :: "arrival list \<Rightarrow> string" where
  "net_data [] = []"
| "net_data (Interrupted # net) = net_data net"
| "net_data (Bytes s # net) = s @ net_data net"

fun open_net :: "arrival list \<Rightarrow> bool" where
  "open_net [] = True"
| "open_net (Interrupted # net) = open_net net"
| "open_net (Bytes s # net) = (s \<noteq> [] \<and> open_net net)"

lemma recv_open:
  assumes "open_net net" "net_data net \<noteq> []" "0 < n"
  shows "\<exists>r net'. recv n net = (r, net') \<and> open_net net' \<and>
    (r = Eintr \<and> net_data net' = net_data net \<or> (\<exists>s. r = Got s \<and> s \<noteq> [] \<and> net_data net = s @ net_data net'))"
  using assms by (cases "(n, net)" rule: recv.cases) auto

lemma read_header_reads:
  assumes "list_all plain_line ls" "ls \<noteq> []" "length (head_text ls) \<le> MAX_HEADER"
    and "b @ net_data net = head_text ls @ rest" "length b < length (head_text ls)" "open_net net"
  shows "\<exists>b' net'. read_header b net = Some (b', length (head_text ls), net')
    \<and> b' @ net_data net' = head_text ls @ rest \<and> length (head_text ls) \<le> length b' \<and> open_net net'"
  using assms(4-6)
proof (induction b net rule: read_header.induct)
  case (1 b net)
  have ne: "net_data net \<noteq> []"
  proof
    assume "net_data net = []"
    then have "length b = length (head_text ls @ rest)" using 1(3) by (metis append_Nil2)
    then show False using 1(4) by simp
  qed
  obtain r net' where r: "recv 4096 net = (r, net')" "open_net net'"
    and cs: "r = Eintr \<and> net_data net' = net_data net \<or> (\<exists>s. r = Got s \<and> s \<noteq> [] \<and> net_data net = s @ net_data net')"
    using recv_open[OF 1(5) ne, of 4096] by auto
  have small: "\<not> MAX_HEADER \<le> length b" using 1(4) assms(3) by linarith
  from cs show ?case
  proof
    assume e: "r = Eintr \<and> net_data net' = net_data net"
    then have "\<exists>b' n'. read_header b net' = Some (b', length (head_text ls), n')
      \<and> b' @ net_data n' = head_text ls @ rest \<and> length (head_text ls) \<le> length b' \<and> open_net n'"
      using 1(2)[OF small] r 1(3,4) by simp
    then show ?thesis using small r(1) e by (subst read_header.simps) simp
  next
    assume "\<exists>s. r = Got s \<and> s \<noteq> [] \<and> net_data net = s @ net_data net'"
    then obtain s where s: "r = Got s" "net_data net = s @ net_data net'" by blast
    have t: "(b @ s) @ net_data net' = head_text ls @ rest" using 1(3) s(2) by simp
    then have p: "b @ s = take (length (b @ s)) (head_text ls @ rest)" by (metis append_eq_conv_conj)
    show ?thesis
    proof (cases "length (b @ s) < length (head_text ls)")
      case True
      have n: "header_end (b @ s) = None" using header_end_prefix(1)[OF assms(1,2) True] p by simp
      have "\<exists>b' n'. read_header (b @ s) net' = Some (b', length (head_text ls), n')
        \<and> b' @ net_data n' = head_text ls @ rest \<and> length (head_text ls) \<le> length b' \<and> open_net n'"
        using 1(1)[OF small r(1)[symmetric] s(1) n t True r(2)] .
      then show ?thesis using small r(1) s(1) n by (subst read_header.simps) simp
    next
      case False
      then have "header_end (b @ s) = Some (length (head_text ls))" using header_end_prefix(2)[OF assms(1,2), of "length (b @ s)" rest] p by simp
      then show ?thesis using small r s(1) t False by (subst read_header.simps) simp
    qed
  qed
qed

lemma read_body_reads:
  assumes "b @ net_data net = all" "need \<le> length all" "open_net net"
  shows "\<exists>b' net'. read_body need b net = Some (b', net') \<and> need \<le> length b' \<and> b' @ net_data net' = all"
  using assms
proof (induction need b net rule: read_body.induct)
  case (1 need b net)
  show ?case
  proof (cases "need \<le> length b")
    case True
    then show ?thesis using 1(3) by (subst read_body.simps) simp
  next
    case False
    then have ne: "net_data net \<noteq> []" using 1(3,4) by auto
    obtain r net' where r: "recv 8192 net = (r, net')" "open_net net'"
      and cs: "r = Eintr \<and> net_data net' = net_data net \<or> (\<exists>s. r = Got s \<and> s \<noteq> [] \<and> net_data net = s @ net_data net')"
      using recv_open[OF 1(5) ne, of 8192] by auto
    from cs show ?thesis
    proof
      assume e: "r = Eintr \<and> net_data net' = net_data net"
      then show ?thesis using 1(2)[OF False r(1)[symmetric]] 1(3,4) r False
        by (subst read_body.simps) simp
    next
      assume "\<exists>s. r = Got s \<and> s \<noteq> [] \<and> net_data net = s @ net_data net'"
      then obtain s where "r = Got s" "net_data net = s @ net_data net'" by blast
      then show ?thesis using 1(1)[OF False r(1)[symmetric]] 1(3,4) r False by (subst read_body.simps) simp
    qed
  qed
qed

section \<open>The length of the body\<close>

lemma line_of_text:
  assumes "plain_line l"
  shows "line_bytes (l @ CRLF @ s) (length l + 2 + n) = length l + 1" "line_text (l @ CRLF @ s) (length l + 2 + n) = l"
proof -
  have "take (length l + 2 + n) (l @ CRLF @ s) = l @ CRLF @ take n s" by (simp add: CRLF_def)
  moreover have "takeWhile (\<lambda>c. c \<noteq> CHR 0x0A) (l @ CRLF @ take n s) = l @ [CHR 0x0D]"
    using assms by (subst takeWhile_append2) (auto simp: plain_line_def CRLF_def)
  ultimately show b: "line_bytes (l @ CRLF @ s) (length l + 2 + n) = length l + 1" by (simp add: line_bytes_def)
  show "line_text (l @ CRLF @ s) (length l + 2 + n) = l"
    unfolding line_text_def b by (simp add: CRLF_def Let_def nth_append)
qed

lemma content_length_line:
  assumes "plain_line l"
  shows "content_length (l @ CRLF @ s) (length l + 2 + n) =
    (if is_length_line l then strtol10 (drop (15 + length (takeWhile isspace (drop 15 l))) (l @ CRLF @ s))
     else content_length s n)"
proof -
  have "drop (length l + 1 + 1) (l @ CRLF @ s) = s" by (simp add: CRLF_def)
  then show ?thesis
    using line_of_text[OF assms] by (subst content_length.simps) (simp add: Let_def)
qed

lemma content_length_skip:
  "list_all (\<lambda>l. plain_line l \<and> \<not> is_length_line l) ls \<Longrightarrow>
    content_length (concat (map (\<lambda>l. l @ CRLF) ls) @ s) (length (concat (map (\<lambda>l. l @ CRLF) ls)) + n) = content_length s n"
proof (induction ls)
  case (Cons l ls)
  let ?r = "concat (map (\<lambda>l. l @ CRLF) ls)"
  have "length (concat (map (\<lambda>l. l @ CRLF) (l # ls))) + n = length l + 2 + (length ?r + n)" by (simp add: CRLF_def)
  then show ?case
    using Cons content_length_line[of l "?r @ s" "length ?r + n"] by (simp add: add.assoc)
qed simp

lemma strtol10_dec:
  assumes "n < 2 ^ 63" "s = [] \<or> \<not> isdigit (hd s)"
  shows "strtol10 (dec_str n @ s) = int n"
proof -
  note d = dec_str_digits[of n]
  obtain c r where c: "dec_str n = c # r" using dec_str_nonempty by (meson neq_Nil_conv)
  have dc: "isdigit c" using d c by simp
  have nc: "\<not> isspace c" "c \<noteq> CHR ''-''" "c \<noteq> CHR ''+''" using dc by (auto simp: isdigit_def isspace_def byte_def)
  have "takeWhile isdigit (dec_str n @ s) = dec_str n"
    using d assms(2) by (cases s) (simp_all add: takeWhile_append2 list_all_iff takeWhile_tail)
  moreover have "skip_sign (dec_str n @ s) = dec_str n @ s" using nc c by (simp add: skip_sign_def)
  moreover have "dropWhile isspace (dec_str n @ s) = dec_str n @ s" using nc(1) c by simp
  moreover have "hd (dec_str n @ s) \<noteq> CHR ''-''" using nc c by simp
  moreover have "int n \<le> 2 ^ 63 - 1"
  proof -
    have "int n < int (2 ^ 63)" using assms(1) by (simp only: of_nat_less_iff)
    then show ?thesis by simp
  qed
  ultimately show ?thesis using d by (simp add: strtol10_def Let_def min_absorb2)
qed

definition length_line :: "nat \<Rightarrow> string" where
  "length_line n = CONTENT_LENGTH @ '' '' @ dec_str n"

lemma length_line_facts:
  "plain_line (length_line n)" "is_length_line (length_line n)"
  "15 + length (takeWhile isspace (drop 15 (length_line n))) = 16"
proof -
  note d = dec_str_digits[of n]
  obtain c r where c: "dec_str n = c # r" using dec_str_nonempty by (meson neq_Nil_conv)
  have "\<not> isspace c" using d c by (auto simp: isdigit_def isspace_def)
  then show "15 + length (takeWhile isspace (drop 15 (length_line n))) = 16"
    using c by (simp add: length_line_def CONTENT_LENGTH_def isspace_def byte_def)
  have "CHR 0x0D \<notin> set (dec_str n)" "CHR 0x0A \<notin> set (dec_str n)"
    using d by (auto simp: list_all_iff isdigit_def byte_def)
  then show "plain_line (length_line n)" by (simp add: plain_line_def length_line_def CONTENT_LENGTH_def)
  show "is_length_line (length_line n)" by (simp add: is_length_line_def length_line_def CONTENT_LENGTH_def)
qed

lemma content_length_found:
  assumes "list_all (\<lambda>l. plain_line l \<and> \<not> is_length_line l) pre" "n < 2 ^ 63"
  shows "content_length (head_text (pre @ length_line n # post) @ s) (length (head_text (pre @ length_line n # post))) = int n"
proof -
  let ?t = "head_text post @ s"
  have h: "head_text (pre @ length_line n # post) = concat (map (\<lambda>l. l @ CRLF) pre) @ length_line n @ CRLF @ head_text post"
    by (simp add: head_text_def)
  have "content_length (concat (map (\<lambda>l. l @ CRLF) pre) @ length_line n @ CRLF @ ?t)
      (length (concat (map (\<lambda>l. l @ CRLF) pre)) + (length (length_line n) + 2 + length (head_text post)))
    = strtol10 (drop 16 (length_line n @ CRLF @ ?t))"
    unfolding content_length_skip[OF assms(1)] content_length_line[OF length_line_facts(1)]
    using length_line_facts(2,3)[of n] by simp
  moreover have "drop 16 (length_line n @ CRLF @ ?t) = dec_str n @ CRLF @ ?t"
    by (simp add: length_line_def CONTENT_LENGTH_def)
  moreover have "strtol10 (dec_str n @ CRLF @ ?t) = int n"
    by (rule strtol10_dec[OF assms(2)]) (simp add: CRLF_def isdigit_def byte_def)
  ultimately show ?thesis unfolding h by (simp add: CRLF_def add.assoc)
qed

section \<open>The request line\<close>

definition plain_word :: "string \<Rightarrow> bool" where
  "plain_word w \<longleftrightarrow> w \<noteq> [] \<and> list_all (\<lambda>c. \<not> isspace c \<and> c \<noteq> NUL) w"

definition request_text :: "string \<Rightarrow> string \<Rightarrow> string" where
  "request_text meth target = meth @ '' '' @ target @ '' HTTP/1.1''"

lemma takeWhile_word: "plain_word w \<Longrightarrow> isspace d \<Longrightarrow> takeWhile (\<lambda>c. \<not> isspace c) (w @ d # s) = w"
  by (subst takeWhile_append2) (auto simp: plain_word_def list_all_iff)

lemma word_start:
  assumes "plain_word w"
  shows "dropWhile isspace (w @ s) = w @ s"
proof -
  obtain c r where "w = c # r" "\<not> isspace c" using assms by (cases w) (auto simp: plain_word_def)
  then show ?thesis by simp
qed

lemma plain_word_chars:
  assumes "plain_word w"
  shows "CHR 0x0D \<notin> set w" "CHR 0x0A \<notin> set w" "NUL \<notin> set w"
  using assms by (auto simp: plain_word_def list_all_iff isspace_def byte_def)

lemma request_text_plain:
  assumes "plain_word meth" "plain_word target"
  shows "plain_line (request_text meth target)" "nul_free (request_text meth target)"
  using plain_word_chars[OF assms(1)] plain_word_chars[OF assms(2)]
  by (auto simp: plain_line_def request_text_def nul_free_def NUL_def)

lemma request_line_read:
  assumes "plain_word meth" "length meth \<le> 7" "plain_word target" "length target \<le> 255"
    and "takeWhile (\<lambda>c. c \<noteq> CHR ''?'') target = path"
  shows "request_line (request_text meth target @ CRLF @ s) = Some (meth, path)"
proof -
  let ?l = "request_text meth target"
  note p = request_text_plain[OF assms(1,3)]
  have "takeWhile (\<lambda>c. c \<noteq> CHR 0x0A) (?l @ CRLF @ s) = ?l @ [CHR 0x0D]"
    using p(1) by (subst takeWhile_append2) (auto simp: plain_line_def CRLF_def)
  moreover have "length (?l @ [CHR 0x0D]) \<le> 511" using assms(2,4) by (simp add: request_text_def)
  moreover have "nul_free (?l @ [CHR 0x0D])" using p(2) by (simp add: nul_free_def NUL_def)
  ultimately have line: "cstr (take 511 (takeWhile (\<lambda>c. c \<noteq> CHR 0x0A) (?l @ CRLF @ s))) = ?l @ [CHR 0x0D]" by simp
  let ?rest = "'' '' @ target @ '' HTTP/1.1'' @ [CHR 0x0D]"
  have sp: "isspace (CHR '' '')" by (simp add: isspace_def byte_def)
  have "scan_word 7 (?l @ [CHR 0x0D]) = (meth, ?rest)"
    using word_start[OF assms(1)] takeWhile_word[OF assms(1) sp] assms(2)
    by (simp add: scan_word_def request_text_def Let_def)
  moreover have "scan_word 255 ?rest = (target, '' HTTP/1.1'' @ [CHR 0x0D])"
    using word_start[OF assms(3)] takeWhile_word[OF assms(3) sp] assms(4) sp
    by (simp add: scan_word_def Let_def)
  ultimately show ?thesis
    using line assms(1,3,5) by (simp add: request_line_def plain_word_def)
qed

lemma request_text_no_length:
  assumes "plain_word meth" "length meth \<le> 7"
  shows "\<not> is_length_line (request_text meth target)"
proof
  let ?l = "request_text meth target" and ?k = "length meth"
  assume "is_length_line ?l"
  then have "map tolower (take 15 ?l) ! ?k = map tolower CONTENT_LENGTH ! ?k" "15 \<le> length ?l" by (simp_all add: is_length_line_def)
  then have "tolower (CHR '' '') = map tolower CONTENT_LENGTH ! ?k"
    using assms(2) by (simp add: request_text_def nth_append)
  moreover have "map tolower CONTENT_LENGTH ! ?k \<in> set (map tolower CONTENT_LENGTH)"
    using assms(2) by (intro nth_mem) (simp add: CONTENT_LENGTH_def)
  moreover have "tolower (CHR '' '') \<notin> set (map tolower CONTENT_LENGTH)" by code_simp
  ultimately show False by simp
qed

section \<open>Requests and responses\<close>

text \<open>C13. A request that a client writes (a method, a target, header lines, the length of its body, the body) is
  read back by the server with the same method, the path of the target and exactly the body, however the
  network cuts it into pieces, whatever signals interrupt the reading, and whatever follows it.\<close>

theorem request_framed:
  assumes "plain_word meth" "length meth \<le> 7" "plain_word target" "length target \<le> 255"
    and "list_all (\<lambda>l. plain_line l \<and> \<not> is_length_line l) pre" "list_all plain_line post"
    and "head = head_text (request_text meth target # pre @ length_line (length body) # post)"
    and "length head \<le> MAX_HEADER" "length body \<le> MAX_BODY"
    and "open_net net" "net_data net = head @ body @ extra"
  shows "read_http_request net =
    Some \<lparr>hr_method = meth, hr_path = takeWhile (\<lambda>c. c \<noteq> CHR ''?'') target, hr_body = body\<rparr>"
proof -
  let ?r = "request_text meth target"
  let ?ls = "?r # pre @ length_line (length body) # post"
  have pl: "list_all plain_line ?ls"
    using assms(5,6) request_text_plain(1)[OF assms(1,3)] length_line_facts(1) by (auto simp: list_all_iff)
  have h0: "0 < length head" using assms(7) by (simp add: CRLF_def)
  obtain b net1 where b: "read_header [] net = Some (b, length head, net1)" "b @ net_data net1 = head @ body @ extra"
      "length head \<le> length b" "open_net net1"
    using read_header_reads[OF pl, of "[]" net "body @ extra"] assms(7,8,10,11) h0 by auto
  define c where "c = drop (length head) b"
  have bc: "b = head @ c" "c @ net_data net1 = body @ extra"
  proof -
    have "take (length head) b = head" using b(2,3) by (metis append_eq_append_conv_if append_eq_conv_conj take_all_iff)
    then show "b = head @ c" unfolding c_def by (metis append_take_drop_id)
    then show "c @ net_data net1 = body @ extra" using b(2) by simp
  qed
  have rl: "request_line b = Some (meth, takeWhile (\<lambda>c. c \<noteq> CHR ''?'') target)"
    using request_line_read[OF assms(1-4) refl] unfolding bc(1) assms(7) by simp
  have pre: "list_all (\<lambda>l. plain_line l \<and> \<not> is_length_line l) (?r # pre)"
    using assms(5) request_text_plain(1)[OF assms(1,3)] request_text_no_length[OF assms(1,2)] by simp
  have cl: "content_length b (length head) = int (length body)"
    using content_length_found[OF pre, of "length body" post c] assms(9) unfolding bc(1) assms(7) MAX_BODY_def by simp
  obtain b' net2 where b': "read_body (length head + length body) b net1 = Some (b', net2)"
      "length head + length body \<le> length b'" "b' @ net_data net2 = head @ body @ extra"
    using read_body_reads[OF b(2) _ b(4), of "length head + length body"] by auto
  have "take (length head + length body) (b' @ net_data net2) = head @ body" unfolding b'(3) by simp
  then have "take (length head + length body) b' = head @ body" using b'(2) by simp
  then have "take (length body) (drop (length head) b') = body" by (metis append_eq_conv_conj take_drop add.commute)
  then show ?thesis using b(1) rl cl b'(1) assms(9) by (simp add: read_http_request_def Let_def)
qed

definition demo_body :: string where
  "demo_body = ''{}''"

lemma dec_str_2: "dec_str (Suc (Suc 0)) = ''2''"
  by code_simp

theorem request_framed_witness:
  "read_http_request
     [Bytes (''POST /v1/chat/completions?x=1 HTTP/1.1'' @ CRLF @ ''Host: a'' @ [CHR 0x0D]), Interrupted,
      Bytes ([CHR 0x0A] @ ''Content-Length: 2'' @ CRLF @ ''Accept: b'' @ CRLF @ CRLF @ ''{''), Bytes ''}more'']
   = Some \<lparr>hr_method = ''POST'', hr_path = ''/v1/chat/completions'', hr_body = demo_body\<rparr>"
  by (rule request_framed[where target = "''/v1/chat/completions?x=1''" and pre = "[''Host: a'']" and post = "[''Accept: b'']"
        and extra = "''more''", THEN trans])
    (simp_all add: plain_word_def plain_line_def isspace_def byte_def NUL_def is_length_line_def length_line_def
      CONTENT_LENGTH_def demo_body_def request_text_def CRLF_def MAX_HEADER_def MAX_BODY_def dec_str_2)

text \<open>An empty length header: the number is read behind the line, so the body that is read depends on how much
  of it arrived with the header.\<close>

definition empty_length_head :: string where
  "empty_length_head = ''POST / HTTP/1.1'' @ CRLF @ ''Content-Length:'' @ CRLF @ CRLF"

lemma empty_length_reads_on:
  "content_length (empty_length_head @ body) (length empty_length_head) = strtol10 body"
proof -
  have l: "plain_line ''POST / HTTP/1.1''" "plain_line CONTENT_LENGTH" "\<not> is_length_line ''POST / HTTP/1.1''"
    "is_length_line CONTENT_LENGTH"
    by (simp_all add: plain_line_def is_length_line_def CONTENT_LENGTH_def tolower_def isupper_def byte_def)
  have "content_length (''POST / HTTP/1.1'' @ CRLF @ CONTENT_LENGTH @ CRLF @ CRLF @ body)
      (length ''POST / HTTP/1.1'' + 2 + (length CONTENT_LENGTH + 2 + 2))
    = strtol10 (drop 15 (CONTENT_LENGTH @ CRLF @ CRLF @ body))"
    unfolding content_length_line[OF l(1)] content_length_line[OF l(2)] using l(3,4) by (simp add: CONTENT_LENGTH_def)
  moreover have "strtol10 (CRLF @ CRLF @ body) = strtol10 body"
    by (simp add: strtol10_def CRLF_def isspace_def byte_def)
  ultimately show ?thesis by (simp add: empty_length_head_def CONTENT_LENGTH_def CRLF_def)
qed

text \<open>With the body at hand it is four bytes long; without, it is empty.\<close>

lemma empty_length_depends_on_arrival:
  "content_length (empty_length_head @ ''4abcd'') (length empty_length_head) = 4"
  "content_length (empty_length_head @ []) (length empty_length_head) = 0"
  unfolding empty_length_reads_on
  by (simp_all add: strtol10_def isspace_def isdigit_def byte_def skip_sign_def digits_value_def)

text \<open>A response that the server writes is framed as its reader frames a request: the header ends where the
  body begins, and the announced length is the length of the body.\<close>

theorem response_framed:
  assumes "plain_line type" "length body < 2 ^ 63"
  shows "\<exists>h. header_end (http_response cors code (Some type) (Some body)) = Some h
    \<and> drop h (http_response cors code (Some type) (Some body)) = body
    \<and> content_length (http_response cors code (Some type) (Some body)) h = int (length body)"
proof -
  let ?pre = "[''HTTP/1.1 '' @ dec_str code @ '' '' @ http_reason code]"
  let ?post = "(''Content-Type: '' @ type) # (if cors then [''Access-Control-Allow-Origin: *'',
    ''Access-Control-Allow-Methods: GET, POST, OPTIONS'', ''Access-Control-Allow-Headers: *''] else []) @ [''Connection: close'']"
  let ?ls = "?pre @ length_line (length body) # ?post"
  have r: "http_response cors code (Some type) (Some body) = head_text ?ls @ body"
    using assms(1) by (auto simp: http_response_def head_text_def cors_headers_def length_line_def CONTENT_LENGTH_def
        Let_def plain_line_def)
  have d: "CHR 0x0D \<notin> set (dec_str code)" "CHR 0x0A \<notin> set (dec_str code)"
    using dec_str_digits[of code] by (auto simp: list_all_iff isdigit_def byte_def)
  have pre: "list_all (\<lambda>l. plain_line l \<and> \<not> is_length_line l) ?pre"
    using d by (simp add: plain_line_def http_reason_def is_length_line_def CONTENT_LENGTH_def tolower_def isupper_def byte_def)
  have all: "list_all plain_line ?ls"
    using pre length_line_facts(1) assms(1) by (simp add: plain_line_def)
  define t where "t = head_text ?ls"
  have "header_end (t @ body) = Some (length t)"
    using header_end_prefix(2)[OF all, of "length (t @ body)" body] by (simp add: t_def)
  moreover have "content_length (t @ body) (length t) = int (length body)"
    unfolding t_def by (rule content_length_found[OF pre assms(2)])
  ultimately show ?thesis unfolding r t_def[symmetric] by simp
qed

theorem response_framed_witness:
  "\<exists>h. header_end (http_response True 200 (Some ''application/json'') (Some ''{}'')) = Some h
    \<and> drop h (http_response True 200 (Some ''application/json'') (Some ''{}'')) = ''{}''
    \<and> content_length (http_response True 200 (Some ''application/json'') (Some ''{}'')) h = int (length ''{}'')"
  by (rule response_framed) (simp_all add: plain_line_def)

text \<open>A resolved steering profile is a bare name in the configured directory.\<close>

lemma steering_profile_inside:
  assumes "steering_resolve_profile dir name = Some path"
  shows "\<exists>d n. dir = Some d \<and> name = Some n \<and> path = d @ ''/'' @ n \<and> d \<noteq> [] \<and> n \<noteq> [] \<and> CHR ''/'' \<notin> set n \<and> \<not> sublist ''..'' n"
proof -
  obtain d n where dn: "dir = Some d" "name = Some n" "d \<noteq> []" "n \<noteq> []" "strchr n (CHR ''/'') = None" "strstr n ''..'' = None"
      "path = d @ ''/'' @ n"
    using assms by (auto simp: steering_resolve_profile_def split: option.splits if_splits)
  have "\<not> sublist ''..'' n"
  proof
    assume "sublist ''..'' n"
    then obtain a b where "n = a @ ''..'' @ b" by (auto simp: sublist_def)
    then have "prefix ''..'' (drop (length a) n)" "length a \<le> length n" by auto
    then show False using dn(6) by (auto simp: strstr_None_iff)
  qed
  then show ?thesis using dn strchr_None_iff[of n] by auto
qed

end
