(* ===== verification/DistWire.thy ===== *)
theory DistWire
  imports Sha1 Ssd
begin

text \<open>
  The wire format of the distributed runtime (\<open>ds4_distributed.c\<close>): the fixed records that the
  coordinator and the workers exchange, their network byte order, the frames they travel in, the token
  hash that names a prefix, and the width of the activations.

  Every fixed record is a C structure of \<open>uint32_t\<close> members without padding.  Its \<open>to_wire\<close> function
  applies \<open>htonl\<close> to each member and the sender writes the bytes of the structure, so what travels is
  each member most significant byte first; \<open>from_wire\<close> reads them back.
\<close>

unbundle bit_operations_syntax

section \<open>Constants\<close>

definition DS4_DIST_MAGIC :: u32 where "DS4_DIST_MAGIC = 0x44533444"
definition DS4_DIST_MSG_HELLO :: u32 where "DS4_DIST_MSG_HELLO = 1"
definition DS4_DIST_MSG_ERROR :: u32 where "DS4_DIST_MSG_ERROR = 2"
definition DS4_DIST_MSG_WORK :: u32 where "DS4_DIST_MSG_WORK = 3"
definition DS4_DIST_MSG_RESULT :: u32 where "DS4_DIST_MSG_RESULT = 4"
definition DS4_DIST_MAX_MODEL_NAME :: u32 where "DS4_DIST_MAX_MODEL_NAME = 127"
definition DS4_DIST_WORK_F_INPUT_HC :: u32 where "DS4_DIST_WORK_F_INPUT_HC = 1"
definition DS4_DIST_WORK_F_OUTPUT_LOGITS :: u32 where "DS4_DIST_WORK_F_OUTPUT_LOGITS = 2"
definition DS4_DIST_WORK_F_RESET_SESSION :: u32 where "DS4_DIST_WORK_F_RESET_SESSION = 4"
definition DS4_DIST_WORK_F_ACK_ONLY :: u32 where "DS4_DIST_WORK_F_ACK_ONLY = 8"
definition DS4_DIST_WORK_F_VALID_MASK :: u32 where
  "DS4_DIST_WORK_F_VALID_MASK =
     (DS4_DIST_WORK_F_INPUT_HC OR DS4_DIST_WORK_F_OUTPUT_LOGITS
      OR DS4_DIST_WORK_F_RESET_SESSION OR DS4_DIST_WORK_F_ACK_ONLY)"
definition DS4_DIST_RESULT_ACK :: u32 where "DS4_DIST_RESULT_ACK = 0"
definition DS4_DIST_RESULT_HIDDEN_STATE :: u32 where "DS4_DIST_RESULT_HIDDEN_STATE = 1"
definition DS4_DIST_RESULT_LOGITS :: u32 where "DS4_DIST_RESULT_LOGITS = 2"
definition DS4_DIST_ROUTE_F_OUTPUT_LOGITS :: u32 where "DS4_DIST_ROUTE_F_OUTPUT_LOGITS = 1"
definition DS4_DIST_ROUTE_RETURN_UPSTREAM :: u32 where "DS4_DIST_ROUTE_RETURN_UPSTREAM = 1"

text \<open>\<open>NI_MAXHOST\<close> of \<open>netdb.h\<close>, the size of a host name buffer.\<close>

definition NI_MAXHOST :: nat where "NI_MAXHOST = 1025"

lemmas dist_const_defs =
  DS4_DIST_MAGIC_def DS4_DIST_MSG_HELLO_def DS4_DIST_MSG_ERROR_def DS4_DIST_MSG_WORK_def
  DS4_DIST_MSG_RESULT_def DS4_DIST_MAX_MODEL_NAME_def

lemmas dist_flag_defs =
  DS4_DIST_WORK_F_INPUT_HC_def DS4_DIST_WORK_F_OUTPUT_LOGITS_def DS4_DIST_WORK_F_RESET_SESSION_def
  DS4_DIST_WORK_F_ACK_ONLY_def DS4_DIST_WORK_F_VALID_MASK_def DS4_DIST_ROUTE_F_OUTPUT_LOGITS_def

section \<open>The fixed records\<close>

record ds4_dist_frame_header =
  fh_magic :: u32
  fh_type :: u32
  fh_bytes :: u32

record ds4_dist_hello_fixed =
  h_model_id :: u32
  h_quant_bits :: u32
  h_layer_start :: u32
  h_layer_end :: u32
  h_has_output :: u32
  h_has_hidden :: u32
  h_ctx_size :: u32
  h_n_layers :: u32
  h_listen_port :: u32
  h_model_name_len :: u32

record ds4_dist_work_fixed =
  w_model_id :: u32
  w_session_hi :: u32
  w_session_lo :: u32
  w_request_hi :: u32
  w_request_lo :: u32
  w_prefix_hash_hi :: u32
  w_prefix_hash_lo :: u32
  w_result_hash_hi :: u32
  w_result_hash_lo :: u32
  w_pos0 :: u32
  w_n_tokens :: u32
  w_layer_start :: u32
  w_layer_end :: u32
  w_flags :: u32
  w_token_bytes :: u32
  w_input_hc_bytes :: u32
  w_input_hc_bits :: u32
  w_route_count :: u32
  w_route_index :: u32
  w_route_bytes :: u32

record ds4_dist_route_fixed =
  r_host_len :: u32
  r_port :: u32
  r_layer_start :: u32
  r_layer_end :: u32
  r_flags :: u32

record ds4_dist_route_return_fixed =
  rr_kind :: u32
  rr_host_len :: u32
  rr_port :: u32

record ds4_dist_result_fixed =
  res_request_hi :: u32
  res_request_lo :: u32
  res_result_hash_hi :: u32
  res_result_hash_lo :: u32
  res_status :: u32
  res_result_kind :: u32
  res_telemetry_count :: u32
  res_telemetry_bytes :: u32
  res_payload_bytes :: u32
  res_payload_bits :: u32

record ds4_dist_telemetry_fixed =
  t_layer_start :: u32
  t_layer_end :: u32
  t_route_index :: u32
  t_pos0 :: u32
  t_n_tokens :: u32
  t_eval_usec :: u32
  t_downstream_wait_usec :: u32
  t_forward_send_usec :: u32
  t_input_bytes :: u32
  t_output_bytes :: u32

section \<open>Network byte order\<close>

definition words_wire :: "u32 list \<Rightarrow> bytes" where
  "words_wire ws = concat (map be32_bytes ws)"

definition dist_hello_to_wire :: "ds4_dist_hello_fixed \<Rightarrow> bytes" where
  "dist_hello_to_wire h =
     words_wire [h_model_id h, h_quant_bits h, h_layer_start h, h_layer_end h, h_has_output h,
       h_has_hidden h, h_ctx_size h, h_n_layers h, h_listen_port h, h_model_name_len h]"

definition dist_hello_from_wire :: "bytes \<Rightarrow> ds4_dist_hello_fixed" where
  "dist_hello_from_wire p =
     \<lparr>h_model_id = be32 p 0, h_quant_bits = be32 p 1, h_layer_start = be32 p 2, h_layer_end = be32 p 3,
      h_has_output = be32 p 4, h_has_hidden = be32 p 5, h_ctx_size = be32 p 6, h_n_layers = be32 p 7,
      h_listen_port = be32 p 8, h_model_name_len = be32 p 9\<rparr>"

definition dist_work_to_wire :: "ds4_dist_work_fixed \<Rightarrow> bytes" where
  "dist_work_to_wire w =
     words_wire [w_model_id w, w_session_hi w, w_session_lo w, w_request_hi w, w_request_lo w,
       w_prefix_hash_hi w, w_prefix_hash_lo w, w_result_hash_hi w, w_result_hash_lo w, w_pos0 w,
       w_n_tokens w, w_layer_start w, w_layer_end w, w_flags w, w_token_bytes w, w_input_hc_bytes w,
       w_input_hc_bits w, w_route_count w, w_route_index w, w_route_bytes w]"

definition dist_work_from_wire :: "bytes \<Rightarrow> ds4_dist_work_fixed" where
  "dist_work_from_wire p =
     \<lparr>w_model_id = be32 p 0, w_session_hi = be32 p 1, w_session_lo = be32 p 2, w_request_hi = be32 p 3,
      w_request_lo = be32 p 4, w_prefix_hash_hi = be32 p 5, w_prefix_hash_lo = be32 p 6,
      w_result_hash_hi = be32 p 7, w_result_hash_lo = be32 p 8, w_pos0 = be32 p 9,
      w_n_tokens = be32 p 10, w_layer_start = be32 p 11, w_layer_end = be32 p 12, w_flags = be32 p 13,
      w_token_bytes = be32 p 14, w_input_hc_bytes = be32 p 15, w_input_hc_bits = be32 p 16,
      w_route_count = be32 p 17, w_route_index = be32 p 18, w_route_bytes = be32 p 19\<rparr>"

definition dist_route_to_wire :: "ds4_dist_route_fixed \<Rightarrow> bytes" where
  "dist_route_to_wire r =
     words_wire [r_host_len r, r_port r, r_layer_start r, r_layer_end r, r_flags r]"

definition dist_route_from_wire :: "bytes \<Rightarrow> ds4_dist_route_fixed" where
  "dist_route_from_wire p =
     \<lparr>r_host_len = be32 p 0, r_port = be32 p 1, r_layer_start = be32 p 2, r_layer_end = be32 p 3,
      r_flags = be32 p 4\<rparr>"

definition dist_route_return_to_wire :: "ds4_dist_route_return_fixed \<Rightarrow> bytes" where
  "dist_route_return_to_wire r = words_wire [rr_kind r, rr_host_len r, rr_port r]"

definition dist_route_return_from_wire :: "bytes \<Rightarrow> ds4_dist_route_return_fixed" where
  "dist_route_return_from_wire p = \<lparr>rr_kind = be32 p 0, rr_host_len = be32 p 1, rr_port = be32 p 2\<rparr>"

definition dist_result_to_wire :: "ds4_dist_result_fixed \<Rightarrow> bytes" where
  "dist_result_to_wire r =
     words_wire [res_request_hi r, res_request_lo r, res_result_hash_hi r, res_result_hash_lo r,
       res_status r, res_result_kind r, res_telemetry_count r, res_telemetry_bytes r,
       res_payload_bytes r, res_payload_bits r]"

definition dist_result_from_wire :: "bytes \<Rightarrow> ds4_dist_result_fixed" where
  "dist_result_from_wire p =
     \<lparr>res_request_hi = be32 p 0, res_request_lo = be32 p 1, res_result_hash_hi = be32 p 2,
      res_result_hash_lo = be32 p 3, res_status = be32 p 4, res_result_kind = be32 p 5,
      res_telemetry_count = be32 p 6, res_telemetry_bytes = be32 p 7, res_payload_bytes = be32 p 8,
      res_payload_bits = be32 p 9\<rparr>"

definition dist_telemetry_to_wire :: "ds4_dist_telemetry_fixed \<Rightarrow> bytes" where
  "dist_telemetry_to_wire t =
     words_wire [t_layer_start t, t_layer_end t, t_route_index t, t_pos0 t, t_n_tokens t, t_eval_usec t,
       t_downstream_wait_usec t, t_forward_send_usec t, t_input_bytes t, t_output_bytes t]"

definition dist_telemetry_from_wire :: "bytes \<Rightarrow> ds4_dist_telemetry_fixed" where
  "dist_telemetry_from_wire p =
     \<lparr>t_layer_start = be32 p 0, t_layer_end = be32 p 1, t_route_index = be32 p 2, t_pos0 = be32 p 3,
      t_n_tokens = be32 p 4, t_eval_usec = be32 p 5, t_downstream_wait_usec = be32 p 6,
      t_forward_send_usec = be32 p 7, t_input_bytes = be32 p 8, t_output_bytes = be32 p 9\<rparr>"

lemma length_be32_bytes [simp]: "length (be32_bytes v) = 4"
  by (simp add: be32_bytes_def)

lemma be32_be32_bytes: "be32 (be32_bytes v @ p) 0 = v"
proof (rule bit_word_eqI)
  fix n assume "n < LENGTH(32)"
  then have "n < 8 \<or> 8 \<le> n \<and> n < 16 \<or> 16 \<le> n \<and> n < 24 \<or> 24 \<le> n \<and> n < 32" by auto
  then show "bit (be32 (be32_bytes v @ p) 0) n = bit v n"
    by (elim disjE; auto simp: be32_def be32_bytes_def bit_simps)
qed

lemma be32_skip: "be32 (be32_bytes v @ p) (Suc i) = be32 p i"
  by (simp add: be32_def nth_append add.commute)

lemma be32_words_wire: "i < length ws \<Longrightarrow> be32 (words_wire ws @ p) i = ws ! i"
proof (induction ws arbitrary: i)
  case (Cons w ws)
  then show ?case by (cases i) (auto simp: words_wire_def be32_be32_bytes be32_skip)
qed simp

lemma length_words_wire [simp]: "length (words_wire ws) = 4 * length ws"
  by (induction ws) (simp_all add: words_wire_def)

lemma dist_wire_lengths [simp]:
  "length (dist_hello_to_wire h) = 40"
  "length (dist_work_to_wire w) = 80"
  "length (dist_route_to_wire r) = 20"
  "length (dist_route_return_to_wire rr) = 12"
  "length (dist_result_to_wire res) = 40"
  "length (dist_telemetry_to_wire t) = 40"
  by (simp_all add: dist_hello_to_wire_def dist_work_to_wire_def dist_route_to_wire_def
      dist_route_return_to_wire_def dist_result_to_wire_def dist_telemetry_to_wire_def)

lemma dist_hello_wire [codec_simps]: "dist_hello_from_wire (dist_hello_to_wire h @ p) = h"
  by (simp add: dist_hello_from_wire_def dist_hello_to_wire_def be32_words_wire)

lemma dist_work_wire [codec_simps]: "dist_work_from_wire (dist_work_to_wire w @ p) = w"
  by (simp add: dist_work_from_wire_def dist_work_to_wire_def be32_words_wire)

lemma dist_route_wire [codec_simps]: "dist_route_from_wire (dist_route_to_wire r @ p) = r"
  by (simp add: dist_route_from_wire_def dist_route_to_wire_def be32_words_wire)

lemma dist_route_return_wire [codec_simps]:
  "dist_route_return_from_wire (dist_route_return_to_wire r @ p) = r"
  by (simp add: dist_route_return_from_wire_def dist_route_return_to_wire_def be32_words_wire)

lemma dist_result_wire [codec_simps]: "dist_result_from_wire (dist_result_to_wire r @ p) = r"
  by (simp add: dist_result_from_wire_def dist_result_to_wire_def be32_words_wire)

lemma dist_telemetry_wire [codec_simps]: "dist_telemetry_from_wire (dist_telemetry_to_wire t @ p) = t"
  by (simp add: dist_telemetry_from_wire_def dist_telemetry_to_wire_def be32_words_wire)

section \<open>Identifiers and the token hash\<close>

definition dist_u64_from_halves :: "u32 \<Rightarrow> u32 \<Rightarrow> u64" where
  "dist_u64_from_halves hi lo = (push_bit 32 (ucast hi) OR ucast lo)"

definition dist_u64_hi :: "u64 \<Rightarrow> u32" where
  "dist_u64_hi v = ucast (drop_bit 32 v)"

definition dist_u64_lo :: "u64 \<Rightarrow> u32" where
  "dist_u64_lo v = ucast v"

lemma dist_u64_halves [codec_simps, simp]: "dist_u64_from_halves (dist_u64_hi v) (dist_u64_lo v) = v"
proof (rule bit_word_eqI)
  fix n assume "n < LENGTH(64)"
  then have "n < 32 \<or> 32 \<le> n \<and> n < 64" by auto
  then show "bit (dist_u64_from_halves (dist_u64_hi v) (dist_u64_lo v)) n = bit v n"
    by (elim disjE; auto simp: dist_u64_from_halves_def dist_u64_hi_def dist_u64_lo_def bit_simps)
qed

lemma dist_halves_u64 [codec_simps]:
  "dist_u64_hi (dist_u64_from_halves hi lo) = hi" "dist_u64_lo (dist_u64_from_halves hi lo) = lo"
proof -
  show "dist_u64_hi (dist_u64_from_halves hi lo) = hi"
    by (rule bit_word_eqI)
      (auto simp: dist_u64_from_halves_def dist_u64_hi_def bit_simps dest: bit_imp_le_length)
  show "dist_u64_lo (dist_u64_from_halves hi lo) = lo"
    by (rule bit_word_eqI) (auto simp: dist_u64_from_halves_def dist_u64_lo_def bit_simps)
qed

text \<open>FNV-1a over the little-endian bytes of the token numbers; a token is a C \<open>int\<close>.\<close>

type_synonym token = "32 word"

definition DS4_DIST_TOKEN_HASH_INIT :: u64 where
  "DS4_DIST_TOKEN_HASH_INIT = 1469598103934665603"

definition DS4_DIST_TOKEN_HASH_PRIME :: u64 where
  "DS4_DIST_TOKEN_HASH_PRIME = 1099511628211"

definition dist_token_hash_update :: "u64 \<Rightarrow> token \<Rightarrow> u64" where
  "dist_token_hash_update h token =
     foldl (\<lambda>h i. (h XOR ucast (drop_bit (i * 8) token AND 0xff)) * DS4_DIST_TOKEN_HASH_PRIME) h [0..<4]"

definition dist_token_hash_update_span :: "u64 \<Rightarrow> token list \<Rightarrow> u64" where
  "dist_token_hash_update_span h tokens = foldl dist_token_hash_update h tokens"

definition dist_token_hash_prefix :: "token list \<Rightarrow> u64" where
  "dist_token_hash_prefix tokens = dist_token_hash_update_span DS4_DIST_TOKEN_HASH_INIT tokens"

definition dist_session_token_hash_prefix :: "token list \<Rightarrow> u32 \<Rightarrow> string + u64" where
  "dist_session_token_hash_prefix checkpoint n_tokens =
     (if length checkpoint < unat n_tokens then
        Inl (''distributed session has no '' @ dec_str (unat n_tokens) @ ''-token prefix'')
      else Inr (dist_token_hash_prefix (take (unat n_tokens) checkpoint)))"

lemma dist_token_hash_span_append [simp]:
  "dist_token_hash_update_span (dist_token_hash_update_span h a) b = dist_token_hash_update_span h (a @ b)"
  by (simp add: dist_token_hash_update_span_def)

lemma dist_token_hash_prefix_append:
  "dist_token_hash_prefix (a @ b) = dist_token_hash_update_span (dist_token_hash_prefix a) b"
  by (simp add: dist_token_hash_prefix_def)

definition dist_bytes_have_nul :: "string \<Rightarrow> bool" where
  "dist_bytes_have_nul p \<longleftrightarrow> NUL \<in> set p"

lemma dist_bytes_have_nul_iff [simp]: "dist_bytes_have_nul p \<longleftrightarrow> \<not> nul_free p"
  by (simp add: dist_bytes_have_nul_def nul_free_def)

section \<open>Activation widths\<close>

definition dist_activation_bits_or_default :: "u32 \<Rightarrow> u32" where
  "dist_activation_bits_or_default bits = (if bits \<noteq> 0 then bits else 32)"

definition dist_activation_bits_valid :: "u32 \<Rightarrow> bool" where
  "dist_activation_bits_valid bits0 \<longleftrightarrow>
     (let bits = dist_activation_bits_or_default bits0 in bits = 32 \<or> bits = 16 \<or> bits = 8)"

definition dist_activation_wire_bytes :: "u32 \<Rightarrow> u64 \<Rightarrow> u32 option" where
  "dist_activation_wire_bytes bits0 values =
     (let bits = dist_activation_bits_or_default bits0 in
      if \<not> dist_activation_bits_valid bits \<or> bits mod 8 \<noteq> 0 then None
      else
        (let n = values * ucast (bits div 8) in
         if n > ucast UINT32_MAX then None else Some (ucast n)))"

definition dist_activation_values_from_wire_bytes :: "u32 \<Rightarrow> u32 \<Rightarrow> u64 option" where
  "dist_activation_values_from_wire_bytes bits0 n =
     (let bits = dist_activation_bits_or_default bits0 in
      if \<not> dist_activation_bits_valid bits \<or> bits mod 8 \<noteq> 0 then None
      else
        (let per = bits div 8 in
         if per = 0 \<or> n mod per \<noteq> 0 then None else Some (ucast (n div per))))"

definition dist_activation_wire_bytes_from_f32_bytes :: "u32 \<Rightarrow> u32 \<Rightarrow> u32 option" where
  "dist_activation_wire_bytes_from_f32_bytes bits f32_bytes =
     (if f32_bytes mod 4 \<noteq> 0 then None
      else dist_activation_wire_bytes bits (ucast (f32_bytes div 4)))"

section \<open>Frames\<close>

text \<open>
  What a peer sends until it closes the connection or the connection breaks.  \<open>recv\<close> may give it in any
  pieces and may be interrupted by a signal; \<open>dist_read_full\<close> goes on until it has all it asked for.
  \<open>Broken\<close> carries the text of the error.
\<close>

datatype peer_end = Closed | Broken string

type_synonym inbound = "bytes \<times> peer_end"

datatype 'a received = Got 'a inbound | Gone | Failed "string option"

fun strerror :: "peer_end \<Rightarrow> string" where
  "strerror Closed = []"
| "strerror (Broken why) = why"

text \<open>\<open>dist_read_full\<close> returns 1, 0 or -1; \<open>Failed None\<close> is an error for which no text is written.\<close>

definition dist_read_full :: "inbound \<Rightarrow> nat \<Rightarrow> bytes received" where
  "dist_read_full c len =
     (if len \<le> length (fst c) then Got (take len (fst c)) (drop len (fst c), snd c)
      else (case snd c of Closed \<Rightarrow> Gone | Broken why \<Rightarrow> Failed None))"

definition dist_write_frame_header :: "u32 \<Rightarrow> u32 \<Rightarrow> bytes" where
  "dist_write_frame_header ty n = words_wire [DS4_DIST_MAGIC, ty, n]"

definition hex8 :: "u32 \<Rightarrow> string" where
  "hex8 v = map (\<lambda>i. hex_char (unat (drop_bit (4 * (7 - i)) v AND 15))) [0..<8]"

definition dist_read_frame_header :: "inbound \<Rightarrow> (u32 \<times> u32) received" where
  "dist_read_frame_header c =
     (case dist_read_full c 12 of
        Gone \<Rightarrow> Gone
      | Failed _ \<Rightarrow> Failed (Some (''failed to read frame header: '' @ strerror (snd c)))
      | Got h c' \<Rightarrow>
          if be32 h 0 \<noteq> DS4_DIST_MAGIC then Failed (Some (''bad frame magic 0x'' @ hex8 (be32 h 0))) else Got (be32 h 1, be32 h 2) c')"

definition dist_send_error :: "string \<Rightarrow> bytes" where
  "dist_send_error msg =
     dist_write_frame_header DS4_DIST_MSG_ERROR (of_nat (min (length msg) (unat UINT32_MAX)))
     @ bytes_of (take (unat UINT32_MAX) msg)"

lemma dist_read_full_append [simp]:
  "length p = n \<Longrightarrow> dist_read_full (p @ q, e) n = Got p (q, e)"
  by (simp add: dist_read_full_def)

lemma length_frame_header [simp]: "length (dist_write_frame_header ty n) = 12"
  by (simp add: dist_write_frame_header_def)

lemma dist_frame_header_roundtrip [simp]:
  "dist_read_frame_header (dist_write_frame_header ty n @ p, e) = Got (ty, n) (p, e)"
proof -
  have "be32 (words_wire [DS4_DIST_MAGIC, ty, n]) i = [DS4_DIST_MAGIC, ty, n] ! i" if "i < 3" for i
    using be32_words_wire [of i "[DS4_DIST_MAGIC, ty, n]" "[]"] that by simp
  from this [of 0] this [of 1] this [of 2] show ?thesis
    by (simp add: dist_read_frame_header_def dist_write_frame_header_def)
qed

section \<open>The greeting of a worker\<close>

text \<open>What \<open>dist_send_hello\<close> takes from the engine and the options.\<close>

record hello_source =
  hs_model_id :: u32
  hs_quant_bits :: u32
  hs_model_name :: "string option"
  hs_n_layers :: u32
  hs_start :: u32
  hs_end :: u32
  hs_has_output :: bool
  hs_ctx_size :: "32 word"
  hs_listen_port :: u32

definition dist_resolved_layer_end :: "bool \<Rightarrow> u32 \<Rightarrow> u32 \<Rightarrow> u32" where
  "dist_resolved_layer_end has_output layers_end n_layers =
     (if has_output then n_layers - 1 else layers_end)"

definition dist_hello_name :: "hello_source \<Rightarrow> string" where
  "dist_hello_name s =
     (case hs_model_name s of None \<Rightarrow> ''unknown'' | Some n \<Rightarrow> take (unat DS4_DIST_MAX_MODEL_NAME) n)"

definition dist_hello_record :: "hello_source \<Rightarrow> ds4_dist_hello_fixed" where
  "dist_hello_record s =
     \<lparr>h_model_id = hs_model_id s, h_quant_bits = hs_quant_bits s, h_layer_start = hs_start s,
      h_layer_end = dist_resolved_layer_end (hs_has_output s) (hs_end s) (hs_n_layers s),
      h_has_output = (if hs_has_output s then 1 else 0), h_has_hidden = 1,
      h_ctx_size = (if sint (hs_ctx_size s) > 0 then hs_ctx_size s else 0),
      h_n_layers = hs_n_layers s, h_listen_port = hs_listen_port s,
      h_model_name_len = of_nat (length (dist_hello_name s))\<rparr>"

definition dist_send_hello :: "hello_source \<Rightarrow> bytes" where
  "dist_send_hello s =
     dist_write_frame_header DS4_DIST_MSG_HELLO (40 + of_nat (length (dist_hello_name s)))
     @ dist_hello_to_wire (dist_hello_record s) @ bytes_of (dist_hello_name s)"

definition string_of :: "bytes \<Rightarrow> string" where
  "string_of p = map (\<lambda>b. chr (unat b)) p"

definition dist_recv_hello :: "inbound \<Rightarrow> (ds4_dist_hello_fixed \<times> string) received" where
  "dist_recv_hello c =
     (case dist_read_frame_header c of
        Gone \<Rightarrow> Gone
      | Failed e \<Rightarrow> Failed e
      | Got (ty, n) c1 \<Rightarrow>
          if ty \<noteq> DS4_DIST_MSG_HELLO then
            Failed (Some (''expected HELLO frame, got type '' @ dec_str (unat ty)))
          else if n < 40 \<or> n > 40 + DS4_DIST_MAX_MODEL_NAME then
            Failed (Some (''invalid HELLO payload length '' @ dec_str (unat n)))
          else
            (case dist_read_full c1 40 of
               Gone \<Rightarrow> Gone
             | Failed e \<Rightarrow> Failed e
             | Got p c2 \<Rightarrow>
                 (let wire = dist_hello_from_wire p; remaining = n - 40 in
                  if h_model_name_len wire \<noteq> remaining \<or> h_model_name_len wire > DS4_DIST_MAX_MODEL_NAME then
                    Failed (Some (''invalid HELLO model name length '' @ dec_str (unat (h_model_name_len wire))))
                  else if h_model_name_len wire \<noteq> 0 then
                    (case dist_read_full c2 (unat (h_model_name_len wire)) of
                       Gone \<Rightarrow> Gone
                     | Failed e \<Rightarrow> Failed e
                     | Got tmp c3 \<Rightarrow>
                         if dist_bytes_have_nul (string_of tmp) then
                           Failed (Some ''HELLO model family contains NUL bytes'')
                         else Got (wire, string_of tmp) c3)
                  else Got (wire, []) c2)))"

lemma string_of_bytes_of [simp]: "string_of (bytes_of s) = s"
proof -
  have "chr (unat (of_char c :: u8)) = c" for c
  proof -
    have "unat (of_char c :: u8) = byte c"
      using byte_less [of c] by (simp add: byte_def unat_of_nat flip: of_nat_of_char [of c, where 'a = u8])
    then show ?thesis by simp
  qed
  then show ?thesis by (simp add: string_of_def bytes_of_def comp_def)
qed

lemma bytes_of_Nil [simp]: "bytes_of [] = []"
  by (simp add: bytes_of_def)

lemma length_string_of [simp]: "length (string_of p) = length p"
  by (simp add: string_of_def)

lemma dist_hello_name_facts:
  assumes "pred_option nul_free (hs_model_name s)"
  shows "nul_free (dist_hello_name s)" "length (dist_hello_name s) \<le> 127"
  using assms
  by (auto simp: dist_hello_name_def DS4_DIST_MAX_MODEL_NAME_def NUL_def nul_free_def
      split: option.splits dest: in_set_takeD)

lemma hello_roundtrip:
  assumes "pred_option nul_free (hs_model_name s)"
  shows "dist_recv_hello (dist_send_hello s @ rest, e) = Got (dist_hello_record s, dist_hello_name s) (rest, e)"
proof -
  let ?n = "length (dist_hello_name s)"
  have n: "?n \<le> 127" and f: "nul_free (dist_hello_name s)" using dist_hello_name_facts [OF assms] by auto
  have u: "unat (of_nat ?n :: u32) = ?n" using n by (simp add: unat_of_nat)
  have l: "h_model_name_len (dist_hello_record s) = of_nat ?n" by (simp add: dist_hello_record_def)
  have u40: "unat (40 + of_nat ?n :: u32) = 40 + ?n"
    using n by (simp add: unat_word_ariths u)
  have c: "\<not> (40 + of_nat ?n :: u32) < 40" "\<not> 40 + DS4_DIST_MAX_MODEL_NAME < (40 + of_nat ?n :: u32)"
    "\<not> DS4_DIST_MAX_MODEL_NAME < (of_nat ?n :: u32)"
    using n by (simp_all add: word_less_nat_alt u40 u DS4_DIST_MAX_MODEL_NAME_def)
  have z: "(of_nat ?n :: u32) = 0 \<longleftrightarrow> dist_hello_name s = []" using u by force
  have w: "dist_hello_from_wire (dist_hello_to_wire h) = h" for h
    using dist_hello_wire [of h "[]"] by simp
  show ?thesis
    using f n by (auto simp: dist_recv_hello_def dist_send_hello_def c l u w z Let_def)
qed

text \<open>A connection that breaks inside the greeting fails without a text, which the caller prints.\<close>

lemma broken_hello_has_no_text:
  assumes "length p < 40"
  shows "dist_recv_hello (dist_write_frame_header DS4_DIST_MSG_HELLO 40 @ p, Broken why) = Failed None"
  using assms by (simp add: dist_recv_hello_def dist_read_full_def DS4_DIST_MAX_MODEL_NAME_def)

end
