(* ===== verification/DistRoute.thy ===== *)
theory DistRoute
  imports DistWire
begin

text \<open>
  The coordinator of the distributed runtime (\<open>ds4_distributed.c\<close>): the registry of workers, the check
  of a worker's greeting, the search for a route through the registered layer ranges, and the plan with
  the route payload that travels with each piece of work; and the parsers of that payload on the workers.
\<close>

unbundle bit_operations_syntax

section \<open>The registry\<close>

record ds4_dist_worker_entry =
  we_fd :: int
  we_peer_host :: string
  we_peer_port :: string
  we_model_name :: string
  we_model_id :: u32
  we_quant_bits :: u32
  we_layer_start :: u32
  we_layer_end :: u32
  we_has_output :: u32
  we_has_hidden :: u32
  we_ctx_size :: u32
  we_n_layers :: u32
  we_listen_port :: u32

text \<open>The list of workers starts at the one registered last.  \<open>cs_model_name\<close> is what the engine
  answers, \<open>unknown\<close> where it has none.\<close>

record ds4_dist_coordinator_state =
  cs_model_id :: u32
  cs_model_name :: string
  cs_n_layers :: u32
  cs_local_start :: u32
  cs_local_end :: u32
  cs_ctx_size :: u32
  cs_local_has_output :: bool
  cs_local_can_output_head :: bool
  cs_use_control_for_work :: bool
  cs_activation_bits :: u32
  cs_generation :: u64
  cs_workers :: "ds4_dist_worker_entry list"
  cs_shutting_down :: bool

text \<open>\<open>snprintf\<close> into a buffer of \<open>n\<close> bytes.\<close>

definition into_buffer :: "nat \<Rightarrow> string \<Rightarrow> string" where
  "into_buffer n s = take (n - 1) s"

definition NI_MAXSERV :: nat where "NI_MAXSERV = 32"

definition dist_stale_worker ::
  "string \<Rightarrow> ds4_dist_hello_fixed \<Rightarrow> ds4_dist_worker_entry \<Rightarrow> bool" where
  "dist_stale_worker peer_host hello old \<longleftrightarrow>
     we_peer_host old = peer_host \<and> we_model_id old = h_model_id hello
     \<and> we_layer_start old = h_layer_start hello \<and> we_layer_end old = h_layer_end hello
     \<and> we_has_output old = h_has_output hello"

definition dist_worker_entry_of ::
  "int \<Rightarrow> string \<Rightarrow> string \<Rightarrow> ds4_dist_hello_fixed \<Rightarrow> string \<Rightarrow> ds4_dist_worker_entry" where
  "dist_worker_entry_of fd peer_host peer_port hello model_name =
     \<lparr>we_fd = fd, we_peer_host = into_buffer NI_MAXHOST peer_host,
      we_peer_port = into_buffer NI_MAXSERV peer_port,
      we_model_name = into_buffer (unat DS4_DIST_MAX_MODEL_NAME + 1) model_name,
      we_model_id = h_model_id hello, we_quant_bits = h_quant_bits hello,
      we_layer_start = h_layer_start hello, we_layer_end = h_layer_end hello,
      we_has_output = h_has_output hello, we_has_hidden = h_has_hidden hello,
      we_ctx_size = h_ctx_size hello, we_n_layers = h_n_layers hello,
      we_listen_port = h_listen_port hello\<rparr>"

definition dist_coordinator_add_worker ::
  "ds4_dist_coordinator_state \<Rightarrow> int \<Rightarrow> string \<Rightarrow> string \<Rightarrow> ds4_dist_hello_fixed \<Rightarrow> string
   \<Rightarrow> ds4_dist_coordinator_state" where
  "dist_coordinator_add_worker st fd peer_host peer_port hello model_name =
     (if cs_shutting_down st then st
      else st\<lparr>cs_workers :=
                dist_worker_entry_of fd peer_host peer_port hello model_name
                # filter (\<lambda>old. \<not> dist_stale_worker peer_host hello old) (cs_workers st),
              cs_generation := cs_generation st + 1\<rparr>)"

text \<open>Unlink the first entry that satisfies a test.\<close>

fun unlink_first :: "('a \<Rightarrow> bool) \<Rightarrow> 'a list \<Rightarrow> 'a option \<times> 'a list" where
  "unlink_first P [] = (None, [])"
| "unlink_first P (x # xs) =
     (if P x then (Some x, xs) else (case unlink_first P xs of (r, ys) \<Rightarrow> (r, x # ys)))"

definition dist_coordinator_remove_worker ::
  "ds4_dist_coordinator_state \<Rightarrow> int \<Rightarrow> ds4_dist_coordinator_state" where
  "dist_coordinator_remove_worker st fd =
     (case unlink_first (\<lambda>e. we_fd e = fd) (cs_workers st) of
        (None, _) \<Rightarrow> st
      | (Some _, ws) \<Rightarrow> st\<lparr>cs_workers := ws, cs_generation := cs_generation st + 1\<rparr>)"

text \<open>The checks of \<open>dist_coordinator_client_main\<close>; the text is what the worker is told.\<close>

definition dist_coordinator_check_hello ::
  "ds4_dist_coordinator_state \<Rightarrow> ds4_dist_hello_fixed \<Rightarrow> string \<Rightarrow> string option" where
  "dist_coordinator_check_hello st hello model_name =
     map_option (into_buffer 256)
      (if h_model_id hello \<noteq> cs_model_id st then
         Some (''model id mismatch: worker='' @ dec_str (unat (h_model_id hello))
               @ '' coordinator='' @ dec_str (unat (cs_model_id st)))
       else if model_name \<noteq> cs_model_name st then
         Some (''model family mismatch: worker='' @ model_name @ '' coordinator='' @ cs_model_name st)
       else if h_n_layers hello \<noteq> cs_n_layers st then
         Some (''layer count mismatch: worker='' @ dec_str (unat (h_n_layers hello))
               @ '' coordinator='' @ dec_str (unat (cs_n_layers st)))
       else if h_quant_bits hello \<noteq> 2 \<and> h_quant_bits hello \<noteq> 4 then
         Some (''unsupported worker quant profile Q'' @ dec_str (unat (h_quant_bits hello)))
       else if h_has_output hello > 1 then
         Some (''invalid worker output-head flag '' @ dec_str (unat (h_has_output hello)))
       else if h_has_hidden hello > 1 then
         Some (''invalid worker hidden-state flag '' @ dec_str (unat (h_has_hidden hello)))
       else if h_layer_start hello \<ge> h_n_layers hello \<or> h_layer_end hello \<ge> h_n_layers hello
               \<or> h_layer_end hello < h_layer_start hello then
         Some (''invalid worker layer range '' @ dec_str (unat (h_layer_start hello)) @ '':''
               @ dec_str (unat (h_layer_end hello)) @ '' for '' @ dec_str (unat (h_n_layers hello))
               @ '' layers'')
       else if h_has_output hello \<noteq> 0 \<and> h_layer_end hello + 1 \<noteq> h_n_layers hello then
         Some (''worker output head requires final layer: range='' @ dec_str (unat (h_layer_start hello))
               @ '':'' @ dec_str (unat (h_layer_end hello)) @ '' layers=''
               @ dec_str (unat (h_n_layers hello)))
       else if cs_ctx_size st \<noteq> 0 \<and> h_ctx_size hello < cs_ctx_size st then
         Some (''worker context too small: worker='' @ dec_str (unat (h_ctx_size hello))
               @ '' coordinator='' @ dec_str (unat (cs_ctx_size st)))
       else if h_listen_port hello = 0 \<or> h_listen_port hello > 65535 then
         Some (''invalid worker data listen port '' @ dec_str (unat (h_listen_port hello)))
       else None)"

text \<open>
  A connection up to the point where the worker is registered: what is sent back, and the registry.
  The connection is closed unless the greeting is accepted.
\<close>

definition dist_coordinator_greet ::
  "ds4_dist_coordinator_state \<Rightarrow> int \<Rightarrow> string \<Rightarrow> string \<Rightarrow> inbound
   \<Rightarrow> bool \<times> bytes \<times> ds4_dist_coordinator_state" where
  "dist_coordinator_greet st fd host port c =
     (let peer_host = into_buffer NI_MAXHOST host; peer_port = into_buffer NI_MAXSERV port in
      case dist_recv_hello c of
        Got (hello, model_name) _ \<Rightarrow>
          (case dist_coordinator_check_hello st hello model_name of
             Some err \<Rightarrow> (False, dist_send_error err, st)
           | None \<Rightarrow> (True, [], dist_coordinator_add_worker st fd peer_host peer_port hello model_name))
      | Gone \<Rightarrow> (False, [], st)
      | Failed _ \<Rightarrow> (False, [], st))"

text \<open>The end of a worker's connection: its entry goes, and the connection is closed.\<close>

definition dist_coordinator_goodbye ::
  "ds4_dist_coordinator_state \<Rightarrow> int \<Rightarrow> int list \<times> ds4_dist_coordinator_state" where
  "dist_coordinator_goodbye st fd = ([fd], dist_coordinator_remove_worker st fd)"

section \<open>Route search\<close>

definition dist_worker_route_cmp :: "ds4_dist_worker_entry \<Rightarrow> ds4_dist_worker_entry \<Rightarrow> int" where
  "dist_worker_route_cmp ea eb =
     (if we_layer_start ea < we_layer_start eb then -1
      else if we_layer_start ea > we_layer_start eb then 1
      else if we_has_output ea \<noteq> we_has_output eb then (if we_has_output ea \<noteq> 0 then -1 else 1)
      else if we_layer_end ea > we_layer_end eb then -1
      else if we_layer_end ea < we_layer_end eb then 1
      else 0)"

definition dist_worker_route_candidate_ok ::
  "ds4_dist_coordinator_state \<Rightarrow> ds4_dist_worker_entry \<Rightarrow> u32 \<Rightarrow> bool" where
  "dist_worker_route_candidate_ok st w final \<longleftrightarrow>
     (let needs_hidden = (we_layer_end w < final \<or> we_has_output w = 0) in
      if needs_hidden \<and> we_has_hidden w = 0 then False
      else if we_layer_end w \<ge> final \<and> we_has_output w = 0 \<and> \<not> cs_local_can_output_head st then False
      else True)"

text \<open>
  \<open>dist_route_search_workers\<close>: the loop over the sorted workers from position \<open>i\<close> on (\<open>rest\<close>), with the
  variables it keeps, and the recursive call.  The path and the missing layer are the caller's, which the
  call updates.  \<open>fuel\<close> bounds the depth of the recursion; \<open>None\<close> is a search that ran out of it.
\<close>

type_synonym route_search = "bool \<times> ds4_dist_worker_entry list \<times> u32"

definition dist_route_dead_end :: "u32 \<Rightarrow> bool \<Rightarrow> ds4_dist_worker_entry list \<Rightarrow> u32 \<Rightarrow> route_search" where
  "dist_route_dead_end next_layer saw_start path missing =
     (False, path, if \<not> saw_start \<and> next_layer > missing then next_layer else missing)"

fun dist_route_search_workers ::
  "nat \<Rightarrow> ds4_dist_coordinator_state \<Rightarrow> ds4_dist_worker_entry list \<Rightarrow> u32 \<Rightarrow> u32
   \<Rightarrow> ds4_dist_worker_entry list \<Rightarrow> bool \<Rightarrow> ds4_dist_worker_entry list \<Rightarrow> u32 \<Rightarrow> route_search option" where
  "dist_route_search_workers fuel st workers final next_layer [] saw_start path missing =
     Some (dist_route_dead_end next_layer saw_start path missing)"
| "dist_route_search_workers fuel st workers final next_layer (w # rest) saw_start path missing =
     (if we_layer_start w < next_layer then
        dist_route_search_workers fuel st workers final next_layer rest saw_start path missing
      else if we_layer_start w > next_layer then
        Some (dist_route_dead_end next_layer saw_start path missing)
      else if \<not> dist_worker_route_candidate_ok st w final then
        dist_route_search_workers fuel st workers final next_layer rest True path missing
      else if we_layer_end w \<ge> final then Some (True, path @ [w], missing)
      else
        (case fuel of
           0 \<Rightarrow> None
         | Suc f \<Rightarrow>
             (case dist_route_search_workers f st workers final (we_layer_end w + 1) workers False
                     (path @ [w]) (we_layer_end w + 1) of
                None \<Rightarrow> None
              | Some (True, path', _) \<Rightarrow> Some (True, path', missing)
              | Some (False, path', child_missing) \<Rightarrow>
                  dist_route_search_workers fuel st workers final next_layer rest True (butlast path')
                    (if child_missing > missing then child_missing else missing))))"

text \<open>The depth is bounded by the number of layers that are left.\<close>

definition dist_route_fuel :: "u32 \<Rightarrow> u32 \<Rightarrow> nat" where
  "dist_route_fuel next_layer final = unat final + 1 - unat next_layer"

section \<open>Plans\<close>

record ds4_dist_route_entry =
  re_host :: string
  re_port :: u32
  re_layer_start :: u32
  re_layer_end :: u32
  re_flags :: u32
  re_fd :: int

text \<open>The counts of the C structure are the lengths of the lists.\<close>

record ds4_dist_route_plan =
  pl_entry :: "ds4_dist_route_entry list"
  pl_blob :: bytes

definition dist_route_entry_matches_worker :: "ds4_dist_route_entry \<Rightarrow> ds4_dist_worker_entry \<Rightarrow> bool" where
  "dist_route_entry_matches_worker route worker \<longleftrightarrow>
     (let route_has_output = (re_flags route AND DS4_DIST_ROUTE_F_OUTPUT_LOGITS \<noteq> 0) in
      re_port route = we_listen_port worker \<and> re_host route = we_peer_host worker
      \<and> re_layer_start route = we_layer_start worker \<and> re_layer_end route = we_layer_end worker
      \<and> route_has_output = (we_has_output worker \<noteq> 0))"

text \<open>The loop over the entries of the failed plan; the result also has the descriptors that were closed.\<close>

fun dist_forget_entries ::
  "ds4_dist_route_entry list \<Rightarrow> ds4_dist_worker_entry list \<Rightarrow> int list \<times> ds4_dist_worker_entry list" where
  "dist_forget_entries [] ws = ([], ws)"
| "dist_forget_entries (r # rs) ws =
     (case unlink_first (dist_route_entry_matches_worker r) ws of
        (None, _) \<Rightarrow> dist_forget_entries rs ws
      | (Some e, ws') \<Rightarrow> (case dist_forget_entries rs ws' of (fds, ws'') \<Rightarrow> (we_fd e # fds, ws'')))"

definition dist_coordinator_forget_route_workers ::
  "ds4_dist_coordinator_state \<Rightarrow> ds4_dist_route_plan \<Rightarrow> int list \<times> ds4_dist_coordinator_state" where
  "dist_coordinator_forget_route_workers st plan =
     (case dist_forget_entries (pl_entry plan) (cs_workers st) of
        (fds, ws) \<Rightarrow>
          (fds, st\<lparr>cs_workers := ws,
                   cs_generation := (if fds \<noteq> [] then cs_generation st + 1 else cs_generation st)\<rparr>))"

definition dist_route_plan_append_blob ::
  "bytes \<Rightarrow> ds4_dist_route_entry \<Rightarrow> string + bytes" where
  "dist_route_plan_append_blob blob entry =
     (let host_len = length (re_host entry); add = 20 + host_len in
      if host_len = 0 \<or> host_len \<ge> NI_MAXHOST then Inl ''invalid route host''
      else if add > unat UINT32_MAX \<or> length blob > unat UINT32_MAX - add then
        Inl ''route payload is too large''
      else
        Inr (blob
             @ dist_route_to_wire
                 \<lparr>r_host_len = of_nat host_len, r_port = re_port entry, r_layer_start = re_layer_start entry,
                  r_layer_end = re_layer_end entry, r_flags = re_flags entry\<rparr>
             @ bytes_of (re_host entry)))"

definition dist_route_plan_append_return_upstream :: "bytes \<Rightarrow> string + bytes" where
  "dist_route_plan_append_return_upstream blob =
     (if length blob > unat UINT32_MAX - 12 then Inl ''route payload is too large''
      else
        Inr (blob @ dist_route_return_to_wire
                      \<lparr>rr_kind = DS4_DIST_ROUTE_RETURN_UPSTREAM, rr_host_len = 0, rr_port = 0\<rparr>))"

definition dist_route_entry_of :: "ds4_dist_worker_entry \<Rightarrow> int \<Rightarrow> ds4_dist_route_entry" where
  "dist_route_entry_of w fd =
     \<lparr>re_host = into_buffer NI_MAXHOST (we_peer_host w), re_port = we_listen_port w,
      re_layer_start = we_layer_start w, re_layer_end = we_layer_end w,
      re_flags = (if we_has_output w \<noteq> 0 then DS4_DIST_ROUTE_F_OUTPUT_LOGITS else 0), re_fd = fd\<rparr>"

text \<open>The hops of the path; \<open>dup_fd\<close> is the system call \<open>dup\<close>, with the text of its error.\<close>

fun dist_plan_hops ::
  "(int \<Rightarrow> string + int) \<Rightarrow> bool \<Rightarrow> ds4_dist_worker_entry list \<Rightarrow> ds4_dist_route_plan
   \<Rightarrow> string + ds4_dist_route_plan" where
  "dist_plan_hops dup_fd use_control [] plan = Inr plan"
| "dist_plan_hops dup_fd use_control (w # ws) plan =
     (case (if use_control \<and> pl_entry plan = [] then dup_fd (we_fd w) else Inr (-1)) of
        Inl why \<Rightarrow> Inl (''failed to duplicate first-hop worker connection: '' @ why)
      | Inr fd \<Rightarrow>
          (let entry = dist_route_entry_of w fd in
           case dist_route_plan_append_blob (pl_blob plan) entry of
             Inl err \<Rightarrow> Inl err
           | Inr blob \<Rightarrow>
               dist_plan_hops dup_fd use_control ws
                 \<lparr>pl_entry = pl_entry plan @ [entry], pl_blob = blob\<rparr>))"

text \<open>
  \<open>sorted\<close> is the array after \<open>qsort\<close>.  The C standard leaves the order of equal elements open, so the
  result of \<open>qsort\<close> is an argument.
\<close>

definition dist_coordinator_build_route_plan ::
  "(ds4_dist_worker_entry list \<Rightarrow> ds4_dist_worker_entry list) \<Rightarrow> (int \<Rightarrow> string + int)
   \<Rightarrow> ds4_dist_coordinator_state \<Rightarrow> (string + ds4_dist_route_plan \<times> u64) option" where
  "dist_coordinator_build_route_plan qsort dup_fd st =
     (let workers = qsort (cs_workers st); final = cs_n_layers st - 1 in
      if cs_local_start st \<noteq> 0 then Some (Inl ''coordinator route does not start at layer 0'')
      else if cs_local_end st = final \<and> (cs_local_has_output st \<or> cs_local_can_output_head st) then
        Some (Inr (\<lparr>pl_entry = [], pl_blob = []\<rparr>, cs_generation st))
      else
        (let next_layer = cs_local_end st + 1 in
         case dist_route_search_workers (dist_route_fuel next_layer final) st workers final next_layer
                workers False [] next_layer of
           None \<Rightarrow> None
         | Some (False, _, missing) \<Rightarrow>
             Some (Inl (''distributed route incomplete: missing layer '' @ dec_str (unat missing)))
         | Some (True, path, _) \<Rightarrow>
             (case dist_plan_hops dup_fd (cs_use_control_for_work st) path \<lparr>pl_entry = [], pl_blob = []\<rparr> of
                Inl err \<Rightarrow> Some (Inl err)
              | Inr plan \<Rightarrow>
                  if pl_entry plan \<noteq> [] then
                    (case dist_route_plan_append_return_upstream (pl_blob plan) of
                       Inl err \<Rightarrow> Some (Inl err)
                     | Inr blob \<Rightarrow> Some (Inr (plan\<lparr>pl_blob := blob\<rparr>, cs_generation st)))
                  else Some (Inr (plan, cs_generation st)))))"

section \<open>The route payload on the workers\<close>

text \<open>
  The parsers walk over the payload; \<open>p\<close> is what is left of it.  The payload of no bytes is the null
  pointer of the callers.  \<open>dist_route_read_fixed\<close> is the step the three loops share.
\<close>

definition dist_route_read_fixed :: "bytes \<Rightarrow> string + ds4_dist_route_fixed \<times> bytes" where
  "dist_route_read_fixed p =
     (if length p < 20 then Inl ''truncated route entry''
      else Inr (dist_route_from_wire p, drop 20 p))"

definition host_at :: "u32 \<Rightarrow> bytes \<Rightarrow> string" where
  "host_at len p = string_of (take (unat len) p)"

fun dist_route_get_entry_loop :: "nat \<Rightarrow> nat \<Rightarrow> bytes \<Rightarrow> string + ds4_dist_route_entry" where
  "dist_route_get_entry_loop 0 target p =
     (if p \<noteq> [] then Inl ''route payload has trailing bytes'' else Inl ''route entry not found'')"
| "dist_route_get_entry_loop (Suc n) target p =
     (case dist_route_read_fixed p of
        Inl err \<Rightarrow> Inl err
      | Inr (fixed, q) \<Rightarrow>
          if r_host_len fixed = 0 \<or> unat (r_host_len fixed) \<ge> NI_MAXHOST
             \<or> unat (r_host_len fixed) > length q then Inl ''invalid route host length''
          else if dist_bytes_have_nul (host_at (r_host_len fixed) q) then
            Inl ''route host contains NUL bytes''
          else
            (case target of
               0 \<Rightarrow> Inr \<lparr>re_host = host_at (r_host_len fixed) q, re_port = r_port fixed,
                        re_layer_start = r_layer_start fixed, re_layer_end = r_layer_end fixed,
                        re_flags = r_flags fixed, re_fd = -1\<rparr>
             | Suc t \<Rightarrow> dist_route_get_entry_loop n t (drop (unat (r_host_len fixed)) q)))"

definition dist_route_get_entry :: "bytes \<Rightarrow> u32 \<Rightarrow> u32 \<Rightarrow> string + ds4_dist_route_entry" where
  "dist_route_get_entry blob route_count target_index =
     (if blob = [] \<or> target_index \<ge> route_count then Inl ''invalid route entry index''
      else dist_route_get_entry_loop (unat route_count) (unat target_index) blob)"

record ds4_dist_route_return =
  rt_host :: string
  rt_port :: u32
  rt_kind :: u32

fun dist_route_skip_hops :: "nat \<Rightarrow> bytes \<Rightarrow> string + bytes" where
  "dist_route_skip_hops 0 p = Inr p"
| "dist_route_skip_hops (Suc n) p =
     (case dist_route_read_fixed p of
        Inl err \<Rightarrow> Inl err
      | Inr (fixed, q) \<Rightarrow>
          if unat (r_host_len fixed) > length q then Inl ''invalid route host length''
          else if dist_bytes_have_nul (host_at (r_host_len fixed) q) then
            Inl ''route host contains NUL bytes''
          else dist_route_skip_hops n (drop (unat (r_host_len fixed)) q))"

text \<open>The final destination, up to the point where both callers have its record and its host.\<close>

definition dist_route_read_return :: "bytes \<Rightarrow> string + ds4_dist_route_return_fixed \<times> bytes" where
  "dist_route_read_return p =
     (if length p < 12 then Inl ''route payload missing final destination''
      else
        (let fixed = dist_route_return_from_wire p; q = drop 12 p in
         if unat (rr_host_len fixed) \<ge> NI_MAXHOST \<or> unat (rr_host_len fixed) > length q then
           Inl ''invalid route final destination host length''
         else if dist_bytes_have_nul (host_at (rr_host_len fixed) q) then
           Inl ''route final destination host contains NUL bytes''
         else Inr (fixed, q)))"

definition dist_route_get_return_target :: "bytes \<Rightarrow> u32 \<Rightarrow> string + ds4_dist_route_return" where
  "dist_route_get_return_target blob route_count =
     (if blob = [] \<or> route_count = 0 then Inl ''invalid route final destination''
      else
        (case dist_route_skip_hops (unat route_count) blob of
           Inl err \<Rightarrow> Inl err
         | Inr p \<Rightarrow>
             (case dist_route_read_return p of
                Inl err \<Rightarrow> Inl err
              | Inr (fixed, q) \<Rightarrow>
                  if drop (unat (rr_host_len fixed)) q \<noteq> [] then Inl ''route payload has trailing bytes''
                  else Inr \<lparr>rt_host = host_at (rr_host_len fixed) q, rt_port = rr_port fixed,
                            rt_kind = rr_kind fixed\<rparr>)))"

text \<open>The loop over the hops; \<open>prev_end\<close> is \<open>None\<close> in the first round, where it is not looked at.\<close>

fun dist_route_validate_hops :: "nat \<Rightarrow> u32 option \<Rightarrow> u32 \<Rightarrow> bytes \<Rightarrow> string + bytes" where
  "dist_route_validate_hops 0 prev_end n_layers p = Inr p"
| "dist_route_validate_hops (Suc n) prev_end n_layers p =
     (case dist_route_read_fixed p of
        Inl err \<Rightarrow> Inl err
      | Inr (fixed, q) \<Rightarrow>
          if r_host_len fixed = 0 \<or> unat (r_host_len fixed) \<ge> NI_MAXHOST
             \<or> unat (r_host_len fixed) > length q then Inl ''invalid route host length''
          else if dist_bytes_have_nul (host_at (r_host_len fixed) q) then
            Inl ''route host contains NUL bytes''
          else if r_port fixed = 0 \<or> r_port fixed > 65535 then Inl ''invalid route port''
          else if r_layer_start fixed \<ge> n_layers \<or> r_layer_end fixed \<ge> n_layers
                  \<or> r_layer_end fixed < r_layer_start fixed then Inl ''invalid route layer range''
          else if r_flags fixed AND NOT DS4_DIST_ROUTE_F_OUTPUT_LOGITS \<noteq> 0 then Inl ''invalid route flags''
          else if r_flags fixed AND DS4_DIST_ROUTE_F_OUTPUT_LOGITS \<noteq> 0
                  \<and> r_layer_end fixed + 1 \<noteq> n_layers then Inl ''route logits require final layer''
          else if (case prev_end of None \<Rightarrow> False | Some e \<Rightarrow> r_layer_start fixed \<noteq> e + 1) then
            Inl ''route layer ranges are not contiguous''
          else dist_route_validate_hops n (Some (r_layer_end fixed)) n_layers
                 (drop (unat (r_host_len fixed)) q))"

text \<open>\<open>None\<close> is an accepted payload.\<close>

definition dist_route_validate_blob :: "bytes \<Rightarrow> u32 \<Rightarrow> u32 \<Rightarrow> string option" where
  "dist_route_validate_blob blob route_count n_layers =
     (if route_count = 0 then
        (if blob = [] then None else Some ''route payload has entries without a route count'')
      else if blob = [] then Some ''route payload is missing''
      else
        (case dist_route_validate_hops (unat route_count) None n_layers blob of
           Inl err \<Rightarrow> Some err
         | Inr p \<Rightarrow>
             (case dist_route_read_return p of
                Inl err \<Rightarrow> Some err
              | Inr (ret, q) \<Rightarrow>
                  if rr_kind ret \<noteq> DS4_DIST_ROUTE_RETURN_UPSTREAM then
                    Some ''unsupported route final destination''
                  else if rr_host_len ret \<noteq> 0 \<or> rr_port ret \<noteq> 0 then
                    Some ''invalid upstream route final destination''
                  else if drop (unat (rr_host_len ret)) q \<noteq> [] then
                    Some ''route payload has trailing bytes''
                  else None)))"

section \<open>The shards of a session's KV cache\<close>

definition dist_kv_route_shard_count :: "ds4_dist_route_plan \<Rightarrow> nat" where
  "dist_kv_route_shard_count plan = 1 + length (pl_entry plan)"

text \<open>The layers of a shard and the hop that has it; shard 0 is the coordinator's own.\<close>

definition dist_kv_route_shard ::
  "ds4_dist_coordinator_state \<Rightarrow> ds4_dist_route_plan \<Rightarrow> nat \<Rightarrow> u32 \<times> u32 \<times> ds4_dist_route_entry option" where
  "dist_kv_route_shard st plan shard =
     (case shard of
        0 \<Rightarrow> (cs_local_start st, cs_local_end st, None)
      | Suc i \<Rightarrow> (let e = pl_entry plan ! i in (re_layer_start e, re_layer_end e, Some e)))"

fun dist_kv_route_chain :: "u32 \<Rightarrow> u32 \<Rightarrow> ds4_dist_route_entry list \<Rightarrow> u32 option" where
  "dist_kv_route_chain n_layers prev [] = Some prev"
| "dist_kv_route_chain n_layers prev (e # es) =
     (if prev = UINT32_MAX \<or> re_layer_start e \<noteq> prev + 1 \<or> re_layer_end e < re_layer_start e
         \<or> re_layer_end e \<ge> n_layers then None
      else dist_kv_route_chain n_layers (re_layer_end e) es)"

definition dist_kv_route_validate :: "ds4_dist_coordinator_state \<Rightarrow> ds4_dist_route_plan \<Rightarrow> string option" where
  "dist_kv_route_validate st plan =
     (if cs_n_layers st = 0 \<or> cs_local_start st \<noteq> 0 \<or> cs_local_end st \<ge> cs_n_layers st then
        Some ''distributed KV route does not start at layer 0''
      else
        (case dist_kv_route_chain (cs_n_layers st) (cs_local_end st) (pl_entry plan) of
           None \<Rightarrow> Some ''distributed KV route is not contiguous''
         | Some prev \<Rightarrow>
             if prev + 1 \<noteq> cs_n_layers st then Some ''distributed KV route does not cover all layers''
             else None))"

end
