(* ===== verification/DistRouteProofs.thy ===== *)
theory DistRouteProofs
  imports DistRoute
begin

text \<open>
  The proofs about the coordinator's routes: the registry keeps well-formed workers, the search finds a
  route exactly when there is one and else names the furthest layer that can be reached, and the plan it
  becomes is accepted by every worker and covers each layer once.
\<close>

unbundle bit_operations_syntax

section \<open>Routes\<close>

text \<open>A chain of usable workers from \<open>next_layer\<close> to the final layer; and one that stops before.\<close>

fun route_chain :: "ds4_dist_coordinator_state \<Rightarrow> u32 \<Rightarrow> u32 \<Rightarrow> ds4_dist_worker_entry list \<Rightarrow> bool" where
  "route_chain st final next_layer [] \<longleftrightarrow> False"
| "route_chain st final next_layer (w # ws) \<longleftrightarrow>
     we_layer_start w = next_layer \<and> dist_worker_route_candidate_ok st w final
     \<and> (if we_layer_end w \<ge> final then ws = [] else route_chain st final (we_layer_end w + 1) ws)"

fun route_prefix :: "ds4_dist_coordinator_state \<Rightarrow> u32 \<Rightarrow> u32 \<Rightarrow> ds4_dist_worker_entry list \<Rightarrow> u32 \<Rightarrow> bool" where
  "route_prefix st final next_layer [] n \<longleftrightarrow> n = next_layer"
| "route_prefix st final next_layer (w # ws) n \<longleftrightarrow>
     we_layer_start w = next_layer \<and> dist_worker_route_candidate_ok st w final
     \<and> we_layer_end w < final \<and> route_prefix st final (we_layer_end w + 1) ws n"

definition ranges_ok :: "ds4_dist_worker_entry list \<Rightarrow> bool" where
  "ranges_ok ws \<longleftrightarrow> list_all (\<lambda>w. we_layer_start w \<le> we_layer_end w) ws"

definition by_start :: "ds4_dist_worker_entry list \<Rightarrow> bool" where
  "by_start ws \<longleftrightarrow> sorted_wrt (\<lambda>a b. we_layer_start a \<le> we_layer_start b) ws"

text \<open>Routes and partial routes of registered workers, by their first worker.\<close>

definition starts_route ::
  "ds4_dist_coordinator_state \<Rightarrow> ds4_dist_worker_entry list \<Rightarrow> u32 \<Rightarrow> u32 \<Rightarrow> ds4_dist_worker_entry \<Rightarrow> bool" where
  "starts_route st workers final nx w \<longleftrightarrow> (\<exists>q. set q \<subseteq> set workers \<and> route_chain st final nx (w # q))"

definition starts_prefix ::
  "ds4_dist_coordinator_state \<Rightarrow> ds4_dist_worker_entry list \<Rightarrow> u32 \<Rightarrow> u32 \<Rightarrow> ds4_dist_worker_entry \<Rightarrow> u32 \<Rightarrow> bool" where
  "starts_prefix st workers final nx w n \<longleftrightarrow>
     (\<exists>q. set q \<subseteq> set workers \<and> route_prefix st final nx (w # q) n)"

definition gets_to ::
  "ds4_dist_coordinator_state \<Rightarrow> ds4_dist_worker_entry list \<Rightarrow> u32 \<Rightarrow> u32 \<Rightarrow> u32 \<Rightarrow> bool" where
  "gets_to st workers final nx n \<longleftrightarrow> (\<exists>q. set q \<subseteq> set workers \<and> route_prefix st final nx q n)"

lemma starts_route_iff:
  "starts_route st workers final nx w \<longleftrightarrow>
     we_layer_start w = nx \<and> dist_worker_route_candidate_ok st w final
     \<and> (we_layer_end w < final \<longrightarrow> (\<exists>v\<in>set workers. starts_route st workers final (we_layer_end w + 1) v))"
proof -
  have "(\<exists>q. set q \<subseteq> set workers \<and> route_chain st final n q) \<longleftrightarrow>
      (\<exists>v\<in>set workers. starts_route st workers final n v)" for n
    unfolding starts_route_def
    by (metis route_chain.simps(1) list.exhaust insert_subset list.simps(15))
  then show ?thesis
    unfolding starts_route_def [of st workers final nx w]
    by (cases "final \<le> we_layer_end w") (auto intro: exI [of _ "[]"])
qed

lemma starts_prefix_iff:
  "starts_prefix st workers final nx w n \<longleftrightarrow>
     we_layer_start w = nx \<and> dist_worker_route_candidate_ok st w final \<and> we_layer_end w < final
     \<and> gets_to st workers final (we_layer_end w + 1) n"
  by (auto simp: starts_prefix_def gets_to_def)

lemma gets_to_iff:
  "gets_to st workers final nx n \<longleftrightarrow> n = nx \<or> (\<exists>v\<in>set workers. starts_prefix st workers final nx v n)"
  unfolding starts_prefix_def gets_to_def
  by (metis route_prefix.simps(1) list.exhaust insert_subset list.simps(15) empty_subsetI list.set(1))

definition search_spec ::
  "ds4_dist_coordinator_state \<Rightarrow> ds4_dist_worker_entry list \<Rightarrow> u32 \<Rightarrow> u32 \<Rightarrow> ds4_dist_worker_entry list
   \<Rightarrow> ds4_dist_worker_entry list \<Rightarrow> u32 \<Rightarrow> route_search option \<Rightarrow> bool" where
  "search_spec st workers final nx rest path missing res \<longleftrightarrow>
     (\<exists>ok p m. res = Some (ok, p, m) \<and> missing \<le> m \<and>
       (if ok then \<exists>q. p = path @ q \<and> route_chain st final nx q \<and> set q \<subseteq> set workers
        else p = path
          \<and> (\<forall>v\<in>set rest. \<not> starts_route st workers final nx v)
          \<and> (m = missing \<or> gets_to st workers final nx m)
          \<and> (\<forall>v\<in>set rest. \<forall>n. starts_prefix st workers final nx v n \<longrightarrow> n \<le> m)))"

lemma search_specI_found:
  "res = Some (True, path @ q, m) \<Longrightarrow> missing \<le> m \<Longrightarrow> route_chain st final nx q \<Longrightarrow> set q \<subseteq> set workers
   \<Longrightarrow> search_spec st workers final nx rest path missing res"
  unfolding search_spec_def by auto

text \<open>A worker that starts no route from here may be skipped.\<close>

lemma search_spec_skip:
  assumes "search_spec st workers final nx rest path mb res" "ma \<le> mb"
    and "mb = ma \<or> gets_to st workers final nx mb"
    and "\<not> starts_route st workers final nx w"
    and "\<And>n. starts_prefix st workers final nx w n \<Longrightarrow> n \<le> mb"
  shows "search_spec st workers final nx (w # rest) path ma res"
proof -
  obtain ok p m where res: "res = Some (ok, p, m)" and m: "mb \<le> m" and
    r: "if ok then \<exists>q. p = path @ q \<and> route_chain st final nx q \<and> set q \<subseteq> set workers
        else p = path
          \<and> (\<forall>v\<in>set rest. \<not> starts_route st workers final nx v)
          \<and> (m = mb \<or> gets_to st workers final nx m)
          \<and> (\<forall>v\<in>set rest. \<forall>n. starts_prefix st workers final nx v n \<longrightarrow> n \<le> m)"
    using assms(1) unfolding search_spec_def by blast
  have le: "ma \<le> m" using m assms(2) by simp
  have x: "n \<le> m" if "starts_prefix st workers final nx w n" for n
    using assms(5) [OF that] m by simp
  show ?thesis
    using res r le x assms(3,4) unfolding search_spec_def by (cases ok) auto
qed

lemma search_spec_end:
  assumes "nx \<le> missing" "\<And>w. w \<in> set rest \<Longrightarrow> we_layer_start w \<noteq> nx"
  shows "search_spec st workers final nx rest path missing (Some (dist_route_dead_end nx saw path missing))"
proof -
  have "dist_route_dead_end nx saw path missing = (False, path, missing)"
    using assms(1) by (auto simp: dist_route_dead_end_def)
  then show ?thesis
    using assms(2) unfolding search_spec_def
    by (auto simp: starts_route_iff [of st workers final nx] starts_prefix_iff)
qed

lemma dist_route_fuel_step:
  assumes "(nx :: u32) \<le> e" "e < final" "dist_route_fuel nx final \<le> fuel"
  shows "\<exists>f. fuel = Suc f \<and> dist_route_fuel (e + 1) final \<le> f"
proof -
  have e: "unat (e + 1) = unat e + 1"
    using assms(2) unsigned_less [of final, where 'a = nat] by (simp add: unat_word_ariths word_less_nat_alt)
  have "unat nx \<le> unat e" "unat e < unat final"
    using assms by (simp_all add: word_le_nat_alt word_less_nat_alt)
  then show ?thesis using assms(3) e by (cases fuel) (auto simp: dist_route_fuel_def)
qed

lemma dist_route_search_spec:
  assumes "by_start rest" "set rest \<subseteq> set workers" "by_start workers" "ranges_ok workers"
    "nx \<le> missing" "dist_route_fuel nx final \<le> fuel"
  shows "search_spec st workers final nx rest path missing
           (dist_route_search_workers fuel st workers final nx rest saw path missing)"
  using assms
proof (induction fuel st workers final nx rest saw path missing rule: dist_route_search_workers.induct)
  case (1 fuel st workers final nx saw path missing)
  have "nx \<le> missing" by (fact 1)
  then show ?case unfolding dist_route_search_workers.simps by (rule search_spec_end) simp
next
  case (2 fuel st workers final nx w rest saw path missing)
  note prems = "2.prems"
  have rest: "by_start rest" "set rest \<subseteq> set workers" using prems by (auto simp: by_start_def)
  have w: "w \<in> set workers" using prems by simp
  have se: "we_layer_start w \<le> we_layer_end w" using prems(4) w by (auto simp: ranges_ok_def list_all_iff)
  consider (lt) "we_layer_start w < nx" | (gt) "we_layer_start w > nx"
    | (bad) "we_layer_start w = nx" "\<not> dist_worker_route_candidate_ok st w final"
    | (fin) "we_layer_start w = nx" "dist_worker_route_candidate_ok st w final" "final \<le> we_layer_end w"
    | (rec) "we_layer_start w = nx" "dist_worker_route_candidate_ok st w final" "we_layer_end w < final"
    by force
  then show ?case
  proof cases
    case lt
    then show ?thesis using "2.IH"(1) [OF lt rest prems(3-6)] lt
      by (auto intro!: search_spec_skip [where mb = missing] simp: starts_route_iff [of st workers final nx w] starts_prefix_iff)
  next
    case gt
    have "we_layer_start v \<noteq> nx" if "v \<in> set (w # rest)" for v
      using that prems(1) gt by (auto simp: by_start_def)
    moreover have "\<not> we_layer_start w < nx" using gt by simp
    ultimately show ?thesis
      using gt prems(5) search_spec_end [of nx missing "w # rest" st workers final path saw] by simp
  next
    case bad
    have no: "\<not> starts_route st workers final nx w" "\<not> starts_prefix st workers final nx w n" for n
      using bad by (subst starts_route_iff starts_prefix_iff, simp)+
    show ?thesis using "2.IH"(2) [OF _ _ _ rest prems(3-6)] bad no
      by (auto intro!: search_spec_skip [where mb = missing])
  next
    case fin
    then show ?thesis using w by (auto intro!: search_specI_found [where q = "[w]"])
  next
    case rec
    obtain f where f: "fuel = Suc f" "dist_route_fuel (we_layer_end w + 1) final \<le> f"
      using dist_route_fuel_step [of nx "we_layer_end w" final fuel] rec se prems(6) by auto
    let ?e = "we_layer_end w + 1"
    let ?child = "dist_route_search_workers f st workers final ?e workers False (path @ [w]) ?e"
    have child: "search_spec st workers final ?e workers (path @ [w]) ?e ?child"
      using "2.IH"(3) [OF _ _ _ _ f(1) prems(3) _ prems(3,4) _ f(2)] rec by auto
    obtain ok p m where res: "?child = Some (ok, p, m)" and em: "?e \<le> m" and
      r: "if ok then \<exists>q. p = (path @ [w]) @ q \<and> route_chain st final ?e q \<and> set q \<subseteq> set workers
          else p = path @ [w]
            \<and> (\<forall>v\<in>set workers. \<not> starts_route st workers final ?e v)
            \<and> (m = ?e \<or> gets_to st workers final ?e m)
            \<and> (\<forall>v\<in>set workers. \<forall>n. starts_prefix st workers final ?e v n \<longrightarrow> n \<le> m)"
      using child unfolding search_spec_def by blast
    show ?thesis
    proof (cases ok)
      case True
      then obtain q where q: "p = path @ (w # q)" "route_chain st final ?e q" "set q \<subseteq> set workers"
        using r by auto
      have "route_chain st final nx (w # q)" using q(2) rec by auto
      then show ?thesis
        using rec f(1) res q(1,3) w True by (auto intro!: search_specI_found [where q = "w # q"])
    next
      case False
      let ?m = "if m > missing then m else missing"
      have no: "\<not> starts_route st workers final nx w"
        using r False rec by (auto simp: starts_route_iff [of st workers final nx w])
      have le: "n \<le> ?m" if "starts_prefix st workers final nx w n" for n
      proof -
        have "gets_to st workers final ?e n" using that by (simp add: starts_prefix_iff)
        then have "n \<le> m" using r False em by (auto simp: gets_to_iff [of st workers final ?e n])
        then show ?thesis by auto
      qed
      have get: "?m = missing \<or> gets_to st workers final nx ?m"
      proof (cases "m > missing")
        case True
        have "gets_to st workers final ?e m" using r False by (auto simp: gets_to_iff [of st workers final ?e ?e])
        then have "starts_prefix st workers final nx w m" using rec by (simp add: starts_prefix_iff)
        then show ?thesis using w by (auto simp: gets_to_iff [of st workers final nx m])
      qed simp
      have ih: "search_spec st workers final nx rest path ?m
          (dist_route_search_workers fuel st workers final nx rest True path ?m)"
        using "2.IH"(4) [OF _ _ _ _ f(1) res] rest prems(3-6) False rec r by auto
      have eq: "dist_route_search_workers fuel st workers final nx (w # rest) saw path missing
          = dist_route_search_workers fuel st workers final nx rest True path ?m"
        using rec f(1) res False r by auto
      show ?thesis unfolding eq by (rule search_spec_skip [OF ih _ get no le]) auto
    qed
  qed
qed


theorem dist_route_search_correct:
  assumes "by_start workers" "ranges_ok workers"
  obtains ok path m where
    "dist_route_search_workers (dist_route_fuel nx final) st workers final nx workers False [] nx = Some (ok, path, m)"
    "ok \<longleftrightarrow> (\<exists>q. set q \<subseteq> set workers \<and> route_chain st final nx q)"
    "ok \<Longrightarrow> set path \<subseteq> set workers \<and> route_chain st final nx path"
    "\<not> ok \<Longrightarrow> gets_to st workers final nx m \<and> (\<forall>n. gets_to st workers final nx n \<longrightarrow> n \<le> m)"
proof -
  have spec: "search_spec st workers final nx workers [] nx
      (dist_route_search_workers (dist_route_fuel nx final) st workers final nx workers False [] nx)"
    by (rule dist_route_search_spec) (use assms in auto)
  then obtain ok p m where res:
    "dist_route_search_workers (dist_route_fuel nx final) st workers final nx workers False [] nx = Some (ok, p, m)"
    and nm: "nx \<le> m" and
    r: "if ok then \<exists>q. p = [] @ q \<and> route_chain st final nx q \<and> set q \<subseteq> set workers
        else p = []
          \<and> (\<forall>v\<in>set workers. \<not> starts_route st workers final nx v)
          \<and> (m = nx \<or> gets_to st workers final nx m)
          \<and> (\<forall>v\<in>set workers. \<forall>n. starts_prefix st workers final nx v n \<longrightarrow> n \<le> m)"
    using spec
    unfolding search_spec_def by blast
  have "ok \<longleftrightarrow> (\<exists>q. set q \<subseteq> set workers \<and> route_chain st final nx q)"
  proof (cases ok)
    case False
    have "\<not> route_chain st final nx q" if "set q \<subseteq> set workers" for q
      using that r False by (cases q) (auto simp: starts_route_def simp del: route_chain.simps(2))
    then show ?thesis using False by auto
  qed (use r in auto)
  moreover have "set p \<subseteq> set workers \<and> route_chain st final nx p" if ok
    using r that by auto
  moreover have "gets_to st workers final nx m \<and> (\<forall>n. gets_to st workers final nx n \<longrightarrow> n \<le> m)" if "\<not> ok"
    using r that nm by (auto simp: gets_to_iff [of st workers final nx])
  ultimately show ?thesis by (rule that [OF res])
qed

section \<open>The registry\<close>

definition worker_ok :: "ds4_dist_coordinator_state \<Rightarrow> ds4_dist_worker_entry \<Rightarrow> bool" where
  "worker_ok st w \<longleftrightarrow>
     we_peer_host w \<noteq> [] \<and> nul_free (we_peer_host w) \<and> length (we_peer_host w) < NI_MAXHOST
     \<and> we_model_id w = cs_model_id st \<and> we_n_layers w = cs_n_layers st
     \<and> (we_quant_bits w = 2 \<or> we_quant_bits w = 4) \<and> we_has_output w \<le> 1 \<and> we_has_hidden w \<le> 1
     \<and> we_layer_start w \<le> we_layer_end w \<and> we_layer_end w < cs_n_layers st
     \<and> (we_has_output w \<noteq> 0 \<longrightarrow> we_layer_end w + 1 = cs_n_layers st)
     \<and> cs_ctx_size st \<le> we_ctx_size w \<and> we_listen_port w \<noteq> 0 \<and> we_listen_port w \<le> 65535"

text \<open>No two registered workers are the same slice on the same host.\<close>

definition worker_slice :: "ds4_dist_worker_entry \<Rightarrow> string \<times> u32 \<times> u32 \<times> u32 \<times> u32" where
  "worker_slice w = (we_peer_host w, we_model_id w, we_layer_start w, we_layer_end w, we_has_output w)"

definition registry_ok :: "ds4_dist_coordinator_state \<Rightarrow> bool" where
  "registry_ok st \<longleftrightarrow>
     list_all (worker_ok st) (cs_workers st) \<and> distinct (map worker_slice (cs_workers st))"

text \<open>What the connection threads and the inference thread do to the registry under its mutex.\<close>

inductive registry_step :: "ds4_dist_coordinator_state \<Rightarrow> ds4_dist_coordinator_state \<Rightarrow> bool" where
  greet: "host \<noteq> [] \<Longrightarrow> nul_free host \<Longrightarrow> dist_coordinator_greet st fd host port c = (accepted, out, st') \<Longrightarrow>
     registry_step st st'"
| goodbye: "dist_coordinator_goodbye st fd = (fds, st') \<Longrightarrow> registry_step st st'"
| forget: "dist_coordinator_forget_route_workers st plan = (fds, st') \<Longrightarrow> registry_step st st'"
| shut_down: "registry_step st (st\<lparr>cs_shutting_down := True\<rparr>)"

lemma unlink_first_facts:
  "unlink_first P xs = (r, ys) \<Longrightarrow>
     set ys \<subseteq> set xs \<and> (distinct (map f xs) \<longrightarrow> distinct (map f ys))
     \<and> (case r of None \<Rightarrow> ys = xs \<and> (\<forall>x\<in>set xs. \<not> P x) | Some x \<Rightarrow> P x \<and> x \<in> set xs)"
proof (induction xs arbitrary: r ys)
  case (Cons x xs)
  obtain r' ys' where u: "unlink_first P xs = (r', ys')" by (cases "unlink_first P xs")
  show ?case
  proof (cases "P x")
    case False
    then have "r = r'" "ys = x # ys'" using Cons.prems u by auto
    then show ?thesis using False Cons.IH [OF u] by (cases r') auto
  qed (use Cons.prems in auto)
qed auto

lemma dist_forget_entries_facts:
  "dist_forget_entries rs ws = (fds, ws') \<Longrightarrow>
     set ws' \<subseteq> set ws \<and> (distinct (map f ws) \<longrightarrow> distinct (map f ws'))"
proof (induction rs ws arbitrary: fds ws' rule: dist_forget_entries.induct)
  case (2 r rs ws)
  obtain e vs where u: "unlink_first (dist_route_entry_matches_worker r) ws = (e, vs)"
    by (cases "unlink_first (dist_route_entry_matches_worker r) ws")
  then show ?case
    using 2 unlink_first_facts [OF u, of f] by (cases e) (fastforce split: prod.splits)+
qed simp

lemma check_hello_worker_ok:
  assumes "dist_coordinator_check_hello st h name = None" "host \<noteq> []" "nul_free host"
    "length host < NI_MAXHOST"
  shows "worker_ok st (dist_worker_entry_of fd host port h name)"
proof -
  have "into_buffer NI_MAXHOST host = host" using assms(4) by (simp add: into_buffer_def)
  then show ?thesis
    using assms unfolding dist_coordinator_check_hello_def worker_ok_def dist_worker_entry_of_def
    by (auto simp: not_less not_le split: if_splits)
qed

lemma registry_ok_weaken:
  assumes "registry_ok st" "set ws \<subseteq> set (cs_workers st)" "distinct (map worker_slice ws)"
  shows "registry_ok (st\<lparr>cs_workers := ws, cs_generation := g\<rparr>)"
  using assms by (auto simp: registry_ok_def worker_ok_def list_all_iff)

lemma registry_ok_add:
  assumes "registry_ok st" "dist_coordinator_check_hello st h name = None" "host \<noteq> []" "nul_free host"
    "length host < NI_MAXHOST"
  shows "registry_ok (dist_coordinator_add_worker st fd host port h name)"
proof -
  let ?w = "dist_worker_entry_of fd host port h name"
  let ?ws = "filter (\<lambda>old. \<not> dist_stale_worker host h old) (cs_workers st)"
  have h: "into_buffer NI_MAXHOST host = host" using assms(5) by (simp add: into_buffer_def)
  have "worker_slice ?w \<notin> worker_slice ` set ?ws"
    by (auto simp: worker_slice_def dist_worker_entry_of_def dist_stale_worker_def h)
  moreover have "distinct (map worker_slice ?ws)"
    using assms(1) by (simp add: registry_ok_def distinct_map_filter)
  moreover have "worker_ok st ?w" using check_hello_worker_ok [OF assms(2-5)] .
  ultimately show ?thesis
    using assms(1) by (auto simp: registry_ok_def dist_coordinator_add_worker_def worker_ok_def list_all_iff)
qed

lemma registry_step_ok:
  assumes "registry_step st st'" "registry_ok st"
  shows "registry_ok st'"
  using assms
proof (induction rule: registry_step.induct)
  case (greet host st fd port c accepted out st')
  let ?host = "into_buffer NI_MAXHOST host"
  have "?host \<noteq> [] \<and> nul_free ?host \<and> length ?host < NI_MAXHOST"
    using greet(1,2) by (auto simp: into_buffer_def NI_MAXHOST_def nul_free_def dest: in_set_takeD)
  then show ?case
    using greet(3,4)
    by (auto simp: dist_coordinator_greet_def Let_def registry_ok_add split: received.splits prod.splits option.splits)
next
  case (goodbye st fd fds st')
  obtain r ws where u: "unlink_first (\<lambda>e. we_fd e = fd) (cs_workers st) = (r, ws)"
    by (cases "unlink_first (\<lambda>e. we_fd e = fd) (cs_workers st)")
  have "registry_ok (st\<lparr>cs_workers := ws, cs_generation := g\<rparr>)" for g
    using goodbye(2) unlink_first_facts [OF u, of worker_slice]
    by (intro registry_ok_weaken) (auto simp: registry_ok_def)
  then show ?case
    using goodbye u by (auto simp: dist_coordinator_goodbye_def dist_coordinator_remove_worker_def split: option.splits)
next
  case (forget st plan fds st')
  obtain r ws where u: "dist_forget_entries (pl_entry plan) (cs_workers st) = (r, ws)"
    by (cases "dist_forget_entries (pl_entry plan) (cs_workers st)")
  have "registry_ok (st\<lparr>cs_workers := ws, cs_generation := g\<rparr>)" for g
    using forget(2) dist_forget_entries_facts [OF u, of worker_slice]
    by (intro registry_ok_weaken) (auto simp: registry_ok_def)
  then show ?case
    using forget(1) u by (auto simp: dist_coordinator_forget_route_workers_def)
next
  case (shut_down st)
  then show ?case by (auto simp: registry_ok_def worker_ok_def list_all_iff)
qed

lemma registry_reachable_ok:
  assumes "registry_step\<^sup>*\<^sup>* st st'" "cs_workers st = []"
  shows "registry_ok st'"
proof -
  have "registry_ok st" using assms(2) by (simp add: registry_ok_def)
  with assms(1) show ?thesis by (induction rule: rtranclp_induct) (auto intro: registry_step_ok)
qed

text \<open>C17. Whatever greetings arrive (any bytes, in any order, interleaved with closed connections, forgotten
  routes and a shutdown), the registry that started empty holds only workers whose slice is a valid
  layer range of the model, with the output head only on the final layer, a usable host name, port and
  context; and no two entries are the same slice on the same host.\<close>

theorem registry_stays_well_formed:
  assumes "registry_step\<^sup>*\<^sup>* st st'" "cs_workers st = []"
  shows "list_all (worker_ok st') (cs_workers st') \<and> distinct (map worker_slice (cs_workers st'))"
  using registry_reachable_ok [OF assms] by (simp add: registry_ok_def)

end
