(* ===== verification/DistPlan.thy ===== *)
theory DistPlan
  imports DistRouteProofs "HOL-Library.Multiset"
begin

text \<open>
  The plans of the coordinator: the payload that a chain of workers becomes is accepted and read back by
  every worker, covers each layer once, and is found exactly when there is one.
\<close>

unbundle bit_operations_syntax

section \<open>The route payload\<close>

definition hop_fixed :: "ds4_dist_route_entry \<Rightarrow> ds4_dist_route_fixed" where
  "hop_fixed e =
     \<lparr>r_host_len = of_nat (length (re_host e)), r_port = re_port e, r_layer_start = re_layer_start e,
      r_layer_end = re_layer_end e, r_flags = re_flags e\<rparr>"

definition hop_wire :: "ds4_dist_route_entry \<Rightarrow> bytes" where
  "hop_wire e = dist_route_to_wire (hop_fixed e) @ bytes_of (re_host e)"

definition upstream_wire :: bytes where
  "upstream_wire =
     dist_route_return_to_wire \<lparr>rr_kind = DS4_DIST_ROUTE_RETURN_UPSTREAM, rr_host_len = 0, rr_port = 0\<rparr>"

definition host_ok :: "string \<Rightarrow> bool" where
  "host_ok h \<longleftrightarrow> h \<noteq> [] \<and> nul_free h \<and> length h < NI_MAXHOST"

lemma host_len_word: "host_ok h \<Longrightarrow> unat (of_nat (length h) :: u32) = length h"
  by (simp add: host_ok_def NI_MAXHOST_def unat_of_nat)

lemma hop_read [simp]: "dist_route_read_fixed (hop_wire e @ p) = Inr (hop_fixed e, bytes_of (re_host e) @ p)"
  by (simp add: dist_route_read_fixed_def hop_wire_def codec_simps)

lemma hop_host_at: "host_ok h \<Longrightarrow> host_at (of_nat (length h)) (bytes_of h @ p) = h"
  by (simp add: host_at_def host_len_word)

lemma hop_host_facts:
  assumes "host_ok (re_host e)"
  shows "unat (r_host_len (hop_fixed e)) = length (re_host e)"
    "host_at (r_host_len (hop_fixed e)) (bytes_of (re_host e) @ p) = re_host e"
    "r_host_len (hop_fixed e) \<noteq> 0"
proof -
  show u: "unat (r_host_len (hop_fixed e)) = length (re_host e)"
    using assms by (simp add: hop_fixed_def host_len_word)
  show "host_at (r_host_len (hop_fixed e)) (bytes_of (re_host e) @ p) = re_host e"
    using assms by (simp add: hop_fixed_def hop_host_at)
  have "length (re_host e) \<noteq> 0" using assms by (simp add: host_ok_def)
  then show "r_host_len (hop_fixed e) \<noteq> 0" using u by (metis unat_0)
qed

lemma upstream_read [simp]:
  "dist_route_read_return upstream_wire =
     Inr (\<lparr>rr_kind = DS4_DIST_ROUTE_RETURN_UPSTREAM, rr_host_len = 0, rr_port = 0\<rparr>, [])"
proof -
  have "dist_route_return_from_wire upstream_wire =
      \<lparr>rr_kind = DS4_DIST_ROUTE_RETURN_UPSTREAM, rr_host_len = 0, rr_port = 0\<rparr>"
    using dist_route_return_wire [of _ "[]"] by (simp add: upstream_wire_def)
  moreover have "length upstream_wire = 12" by (simp add: upstream_wire_def)
  ultimately show ?thesis
    by (simp add: dist_route_read_return_def host_at_def string_of_def NI_MAXHOST_def)
qed

lemma get_entry_hops:
  assumes "list_all (\<lambda>e. host_ok (re_host e)) es" "i < length es"
  shows "dist_route_get_entry_loop (length es) i (concat (map hop_wire es) @ p) = Inr ((es ! i)\<lparr>re_fd := -1\<rparr>)"
  using assms
proof (induction es arbitrary: i)
  case (Cons e es)
  have h: "host_ok (re_host e)" using Cons.prems by simp
  note f = hop_host_facts [OF h]
  have n: "nul_free (re_host e)" "length (re_host e) < NI_MAXHOST" using h by (auto simp: host_ok_def)
  show ?case
    using Cons f n by (cases i) (auto simp: hop_fixed_def split: nat.splits)
qed simp

lemma skip_hops:
  assumes "list_all (\<lambda>e. host_ok (re_host e)) es"
  shows "dist_route_skip_hops (length es) (concat (map hop_wire es) @ p) = Inr p"
  using assms
proof (induction es)
  case (Cons e es)
  have h: "host_ok (re_host e)" using Cons.prems by simp
  then show ?case using Cons hop_host_facts [OF h] by (auto simp: host_ok_def)
qed simp

text \<open>Hops that a worker accepts one after the other, from a given layer on.\<close>

definition hop_ok :: "u32 \<Rightarrow> ds4_dist_route_entry \<Rightarrow> bool" where
  "hop_ok n_layers e \<longleftrightarrow>
     host_ok (re_host e) \<and> re_port e \<noteq> 0 \<and> re_port e \<le> 65535
     \<and> re_layer_start e \<le> re_layer_end e \<and> re_layer_end e < n_layers
     \<and> (re_flags e = 0 \<or> re_flags e = 1 \<and> re_layer_end e + 1 = n_layers)"

fun hops_from :: "u32 \<Rightarrow> ds4_dist_route_entry list \<Rightarrow> bool" where
  "hops_from nx [] \<longleftrightarrow> True"
| "hops_from nx (e # es) \<longleftrightarrow> re_layer_start e = nx \<and> hops_from (re_layer_end e + 1) es"

lemma validate_hops:
  assumes "list_all (hop_ok n) es" "hops_from nx es" "prev = None \<or> (\<exists>e. prev = Some e \<and> e + 1 = nx)"
  shows "dist_route_validate_hops (length es) prev n (concat (map hop_wire es) @ p) = Inr p"
  using assms
proof (induction es arbitrary: nx prev)
  case (Cons e es)
  have h: "host_ok (re_host e)" and o: "hop_ok n e" using Cons.prems by (auto simp: hop_ok_def)
  note f = hop_host_facts [OF h]
  have n: "nul_free (re_host e)" "length (re_host e) < NI_MAXHOST" using h by (auto simp: host_ok_def)
  have fl: "re_flags e AND NOT DS4_DIST_ROUTE_F_OUTPUT_LOGITS = 0"
    "re_flags e AND DS4_DIST_ROUTE_F_OUTPUT_LOGITS \<noteq> 0 \<longrightarrow> re_layer_end e + 1 = n"
    using o by (auto simp: hop_ok_def DS4_DIST_ROUTE_F_OUTPUT_LOGITS_def)
  have x: "r_port (hop_fixed e) = re_port e" "r_layer_start (hop_fixed e) = re_layer_start e"
    "r_layer_end (hop_fixed e) = re_layer_end e" "r_flags (hop_fixed e) = re_flags e"
    by (simp_all add: hop_fixed_def)
  have r: "re_port e \<noteq> 0" "\<not> 65535 < re_port e" "\<not> n \<le> re_layer_start e" "\<not> n \<le> re_layer_end e"
    "\<not> re_layer_end e < re_layer_start e"
    using o by (auto simp: hop_ok_def)
  have c: "\<not> (case prev of None \<Rightarrow> False | Some e' \<Rightarrow> r_layer_start (hop_fixed e) \<noteq> e' + 1)"
    using Cons.prems x by (auto split: option.splits)
  have ih: "dist_route_validate_hops (length es) (Some (re_layer_end e)) n (concat (map hop_wire es) @ p) = Inr p"
    using Cons.prems by (intro Cons.IH) auto
  show ?case using f n fl x r c ih by simp blast
qed simp

lemma kv_route_chain_hops:
  assumes "list_all (hop_ok n) es" "hops_from (prev + 1) es" "prev < n"
  shows "dist_kv_route_chain n prev es = Some (if es = [] then prev else re_layer_end (List.last es))"
  using assms
proof (induction es arbitrary: prev)
  case (Cons e es)
  have "prev \<noteq> UINT32_MAX"
    using Cons.prems(3) word_order.not_eq_extremum [of prev]
    by (auto simp: UINT32_MAX_def dest: leD) 
  then show ?case using Cons by (auto simp: hop_ok_def not_less not_le)
qed simp


section \<open>Plans\<close>

text \<open>The descriptor of a hop belongs to the coordinator; it does not travel.\<close>

definition wire_entry :: "ds4_dist_route_entry \<Rightarrow> ds4_dist_route_entry" where
  "wire_entry e = e\<lparr>re_fd := -1\<rparr>"

definition hop_of :: "ds4_dist_worker_entry \<Rightarrow> ds4_dist_route_entry" where
  "hop_of w = dist_route_entry_of w (-1)"

lemma hop_wire_entry [simp]: "hop_wire (wire_entry e) = hop_wire e"
  by (simp add: hop_wire_def wire_entry_def hop_fixed_def)

lemma wire_entry_of [simp]: "wire_entry (dist_route_entry_of w fd) = hop_of w"
  by (simp add: wire_entry_def dist_route_entry_of_def hop_of_def)

lemma append_blob_Inr:
  "dist_route_plan_append_blob blob e = Inr blob' \<Longrightarrow>
     blob' = blob @ hop_wire e \<and> length blob' \<le> unat UINT32_MAX"
  by (auto simp: dist_route_plan_append_blob_def Let_def hop_wire_def hop_fixed_def split: if_splits)

lemma dist_plan_hops_Inr:
  assumes "dist_plan_hops dup_fd uc ws plan = Inr plan'" "length (pl_blob plan) \<le> unat UINT32_MAX"
  shows "map wire_entry (pl_entry plan') = map wire_entry (pl_entry plan) @ map hop_of ws
    \<and> pl_blob plan' = pl_blob plan @ concat (map hop_wire (map hop_of ws))
    \<and> length (pl_blob plan') \<le> unat UINT32_MAX"
  using assms
proof (induction dup_fd uc ws plan rule: dist_plan_hops.induct)
  case (2 dup_fd uc w ws plan)
  obtain fd where fd: "(if uc \<and> pl_entry plan = [] then dup_fd (we_fd w) else Inr (- 1)) = Inr fd"
    using "2.prems"(1) by (auto split: sum.splits)
  obtain blob where b: "dist_route_plan_append_blob (pl_blob plan) (dist_route_entry_of w fd) = Inr blob"
    using "2.prems"(1) fd by (auto simp: Let_def split: sum.splits)
  note ab = append_blob_Inr [OF b]
  have hw: "hop_wire (dist_route_entry_of w fd) = hop_wire (hop_of w)"
    by (metis hop_wire_entry wire_entry_of)
  have run: "dist_plan_hops dup_fd uc ws
      \<lparr>pl_entry = pl_entry plan @ [dist_route_entry_of w fd], pl_blob = blob\<rparr> = Inr plan'"
    using "2.prems"(1) fd b by (simp add: Let_def)
  have le: "length (pl_blob \<lparr>pl_entry = pl_entry plan @ [dist_route_entry_of w fd], pl_blob = blob\<rparr>) \<le> unat UINT32_MAX"
    using conjunct2 [OF ab] by simp
  show ?case
    using "2.IH" [OF fd refl b run le] ab hw by (elim conjE, intro conjI) simp_all
qed simp

lemma hop_of_ok:
  assumes "worker_ok st w"
  shows "hop_ok (cs_n_layers st) (hop_of w)"
proof -
  have "into_buffer NI_MAXHOST (we_peer_host w) = we_peer_host w"
    using assms by (simp add: worker_ok_def into_buffer_def NI_MAXHOST_def)
  then show ?thesis
    using assms
    by (auto simp: hop_ok_def hop_of_def dist_route_entry_of_def worker_ok_def host_ok_def
        DS4_DIST_ROUTE_F_OUTPUT_LOGITS_def)
qed

lemma hop_of_simps [simp]:
  "re_layer_start (hop_of w) = we_layer_start w" "re_layer_end (hop_of w) = we_layer_end w"
  by (simp_all add: hop_of_def dist_route_entry_of_def)

lemma le_minus_one:
  assumes "(a :: u32) < n"
  shows "a \<le> n - 1"
proof -
  have "n \<noteq> 0" using assms by auto
  then show ?thesis using assms by (simp add: word_le_nat_alt word_less_nat_alt unat_minus_one)
qed

lemma route_chain_hops:
  assumes "route_chain st final nx ws" "list_all (worker_ok st) ws" "final = cs_n_layers st - 1"
  shows "hops_from nx (map hop_of ws) \<and> ws \<noteq> [] \<and> we_layer_end (List.last ws) = final"
  using assms
proof (induction ws arbitrary: nx)
  case (Cons w ws)
  have "we_layer_end w < cs_n_layers st" using Cons.prems by (simp add: worker_ok_def)
  then have "we_layer_end w \<le> final" using Cons.prems(3) by (simp add: le_minus_one)
  then show ?case using Cons by (cases "we_layer_end w \<ge> final") auto
qed simp

definition c_qsort :: "(ds4_dist_worker_entry list \<Rightarrow> ds4_dist_worker_entry list) \<Rightarrow> bool" where
  "c_qsort qs \<longleftrightarrow>
     (\<forall>ws. list_all (\<lambda>w. we_has_output w \<le> 1) ws \<longrightarrow>
        mset (qs ws) = mset ws \<and> sorted_wrt (\<lambda>a b. dist_worker_route_cmp a b \<le> 0) (qs ws))"

lemma c_qsort_registry:
  assumes "c_qsort qs" "registry_ok st"
  shows "by_start (qs (cs_workers st))" "ranges_ok (qs (cs_workers st))"
    "set (qs (cs_workers st)) = set (cs_workers st)"
proof -
  have ok: "list_all (worker_ok st) (cs_workers st)" using assms(2) by (simp add: registry_ok_def)
  then have "list_all (\<lambda>w. we_has_output w \<le> 1) (cs_workers st)"
    by (auto simp: list_all_iff worker_ok_def)
  then have m: "mset (qs (cs_workers st)) = mset (cs_workers st)"
    and s: "sorted_wrt (\<lambda>a b. dist_worker_route_cmp a b \<le> 0) (qs (cs_workers st))"
    using assms(1) by (auto simp: c_qsort_def)
  show "by_start (qs (cs_workers st))"
    unfolding by_start_def using s
    by (rule sorted_wrt_mono_rel [rotated]) (auto simp: dist_worker_route_cmp_def split: if_splits)
  show e: "set (qs (cs_workers st)) = set (cs_workers st)" using m by (rule mset_eq_setD)
  show "ranges_ok (qs (cs_workers st))"
    using ok e by (auto simp: ranges_ok_def list_all_iff worker_ok_def)
qed

definition plan_count :: "ds4_dist_route_plan \<Rightarrow> u32" where
  "plan_count plan = of_nat (length (pl_entry plan))"

text \<open>The layers of all shards, one shard after the other.\<close>

definition shard_layers :: "ds4_dist_coordinator_state \<Rightarrow> ds4_dist_route_plan \<Rightarrow> nat list" where
  "shard_layers st plan =
     concat (map (\<lambda>s. case dist_kv_route_shard st plan s of (a, b, _) \<Rightarrow> [unat a..<Suc (unat b)])
       [0..<dist_kv_route_shard_count plan])"

lemma length_hops_le: "length es \<le> length (concat (map hop_wire es))"
proof (induction es)
  case (Cons e es)
  then show ?case by (simp add: hop_wire_def)
qed simp

lemma shard_layers_eq:
  "shard_layers st plan =
     [unat (cs_local_start st)..<Suc (unat (cs_local_end st))]
     @ concat (map (\<lambda>e. [unat (re_layer_start e)..<Suc (unat (re_layer_end e))]) (pl_entry plan))"
proof -
  have m: "map (\<lambda>i. f (xs ! i)) [0..<length xs] = map f xs" for f :: "ds4_dist_route_entry \<Rightarrow> nat list" and xs
    by (rule nth_equalityI) simp_all
  have u: "[0..<dist_kv_route_shard_count plan] = 0 # map Suc [0..<length (pl_entry plan)]"
    unfolding dist_kv_route_shard_count_def map_Suc_upt by (simp add: upt_conv_Cons del: upt_Suc)
  show ?thesis
    unfolding shard_layers_def u
    by (simp add: dist_kv_route_shard_def Let_def comp_def del: upt_Suc)
      (subst m [where f = "\<lambda>e. [unat (re_layer_start e)..<Suc (unat (re_layer_end e))]", symmetric], rule refl)
qed

lemma unat_succ_less: "(e :: u32) < n \<Longrightarrow> unat (e + 1) = Suc (unat e)"
  using unsigned_less [of n, where 'a = nat] by (simp add: unat_word_ariths word_less_nat_alt)

lemma hops_from_layers:
  assumes "hops_from nx es" "list_all (hop_ok n) es" "es \<noteq> []" "re_layer_end (List.last es) + 1 = n"
  shows "unat nx < unat n"
    "concat (map (\<lambda>e. [unat (re_layer_start e)..<Suc (unat (re_layer_end e))]) es) = [unat nx..<unat n]"
proof -
  have "unat nx < unat n \<and>
      concat (map (\<lambda>e. [unat (re_layer_start e)..<Suc (unat (re_layer_end e))]) es) = [unat nx..<unat n]"
    using assms
  proof (induction es arbitrary: nx)
    case (Cons e es)
    have e: "re_layer_start e \<le> re_layer_end e" "re_layer_end e < n" "nx = re_layer_start e"
      using Cons.prems by (auto simp: hop_ok_def)
    note s = unat_succ_less [OF e(2)]
    have se: "unat (re_layer_start e) \<le> unat (re_layer_end e)" "unat (re_layer_end e) < unat n"
      using e(1,2) by (simp_all add: word_le_nat_alt word_less_nat_alt)
    show ?case
    proof (cases "es = []")
      case True
      then have "unat n = Suc (unat (re_layer_end e))" using Cons.prems(4) s by auto
      then show ?thesis using True e se by simp
    next
      case False
      have ih: "Suc (unat (re_layer_end e)) < unat n"
        "concat (map (\<lambda>e. [unat (re_layer_start e)..<Suc (unat (re_layer_end e))]) es)
          = [Suc (unat (re_layer_end e))..<unat n]"
        using Cons.IH [of "re_layer_end e + 1"] Cons.prems False s by auto
      show ?thesis
        using ih e se upt_add_eq_append [of "unat nx" "Suc (unat (re_layer_end e))" "unat n - Suc (unat (re_layer_end e))"]
        by (simp del: upt_Suc)
    qed
  qed simp
  then show "unat nx < unat n"
    "concat (map (\<lambda>e. [unat (re_layer_start e)..<Suc (unat (re_layer_end e))]) es) = [unat nx..<unat n]"
    by auto
qed

text \<open>What a plan is: no hops where the coordinator has everything, else the hops of a chain of registered
  workers and their payload.\<close>

lemma build_route_plan_cases:
  assumes "registry_ok st" "c_qsort qs"
    "dist_coordinator_build_route_plan qs dup_fd st = Some (Inr (plan, gen))"
  obtains "cs_local_start st = 0" "gen = cs_generation st" "pl_entry plan = []" "pl_blob plan = []"
      "cs_local_end st = cs_n_layers st - 1"
  | ws where "cs_local_start st = 0" "gen = cs_generation st" "set ws \<subseteq> set (cs_workers st)"
      "route_chain st (cs_n_layers st - 1) (cs_local_end st + 1) ws"
      "map wire_entry (pl_entry plan) = map hop_of ws"
      "pl_blob plan = concat (map hop_wire (pl_entry plan)) @ upstream_wire"
      "length (pl_blob plan) \<le> unat UINT32_MAX"
proof -
  let ?final = "cs_n_layers st - 1" and ?nx = "cs_local_end st + 1"
  let ?ws = "qs (cs_workers st)"
  note q = c_qsort_registry [OF assms(2,1)]
  have start: "cs_local_start st = 0"
    using assms(3) by (auto simp: dist_coordinator_build_route_plan_def Let_def split: if_splits)
  show ?thesis
  proof (cases "cs_local_end st = ?final \<and> (cs_local_has_output st \<or> cs_local_can_output_head st)")
    case True
    then show ?thesis
      using assms(3) start
      by (intro that(1)) (auto simp: dist_coordinator_build_route_plan_def Let_def)
  next
    case False
    obtain ok path m where s:
      "dist_route_search_workers (dist_route_fuel ?nx ?final) st ?ws ?final ?nx ?ws False [] ?nx = Some (ok, path, m)"
      "ok \<Longrightarrow> set path \<subseteq> set ?ws \<and> route_chain st ?final ?nx path"
      using dist_route_search_correct [OF q(1,2), of ?nx ?final st] by metis
    have ok: "ok" and r: "(case dist_plan_hops dup_fd (cs_use_control_for_work st) path \<lparr>pl_entry = [], pl_blob = []\<rparr> of
                Inl err \<Rightarrow> Some (Inl err)
              | Inr plan \<Rightarrow>
                  if pl_entry plan \<noteq> [] then
                    (case dist_route_plan_append_return_upstream (pl_blob plan) of
                       Inl err \<Rightarrow> Some (Inl err)
                     | Inr blob \<Rightarrow> Some (Inr (plan\<lparr>pl_blob := blob\<rparr>, cs_generation st)))
                  else Some (Inr (plan, cs_generation st))) = Some (Inr (plan, gen))"
      using assms(3) start False s(1)
      by (auto simp: dist_coordinator_build_route_plan_def Let_def split: bool.splits)
    obtain plan0 where p0: "dist_plan_hops dup_fd (cs_use_control_for_work st) path \<lparr>pl_entry = [], pl_blob = []\<rparr> = Inr plan0"
      using r by (auto split: sum.splits)
    have h: "map wire_entry (pl_entry plan0) = map hop_of path"
      "pl_blob plan0 = concat (map hop_wire (map hop_of path))"
      using dist_plan_hops_Inr [OF p0] by auto
    have ne: "pl_entry plan0 \<noteq> []"
      using h(1) s(2) ok by (cases path) auto
    obtain blob where b: "dist_route_plan_append_return_upstream (pl_blob plan0) = Inr blob"
      and pg: "plan = plan0\<lparr>pl_blob := blob\<rparr>" "gen = cs_generation st"
      using r p0 ne by (auto split: sum.splits)
    have bl: "blob = pl_blob plan0 @ upstream_wire" "length blob \<le> unat UINT32_MAX"
      using b by (auto simp: dist_route_plan_append_return_upstream_def upstream_wire_def UINT32_MAX_def split: if_splits)
    have "map hop_wire (pl_entry plan0) = map hop_wire (map wire_entry (pl_entry plan0))"
      by simp
    then have w: "map hop_wire (pl_entry plan0) = map hop_wire (map hop_of path)" using h(1) by metis
    show ?thesis
      by (rule that(2) [of path]) (use start pg h bl w s(2) ok q(3) in auto)
  qed
qed

lemma validate_read_back:
  assumes "list_all (hop_ok n) es" "hops_from nx es" "es \<noteq> []"
    "blob = concat (map hop_wire es) @ upstream_wire" "length blob \<le> unat UINT32_MAX"
  shows "dist_route_validate_blob blob (of_nat (length es)) n = None"
    "i < length es \<Longrightarrow> dist_route_get_entry blob (of_nat (length es)) (of_nat i) = Inr (wire_entry (es ! i))"
    "dist_route_get_return_target blob (of_nat (length es)) =
       Inr \<lparr>rt_host = [], rt_port = 0, rt_kind = DS4_DIST_ROUTE_RETURN_UPSTREAM\<rparr>"
proof -
  have len: "length es < 2 ^ 32"
    using length_hops_le [of es] assms(4,5) by (simp add: UINT32_MAX_def)
  then have u: "unat (of_nat (length es) :: u32) = length es" by (simp add: unat_of_nat)
  have c: "(of_nat (length es) :: u32) \<noteq> 0" using u assms(3) by (metis length_0_conv unat_0)
  have b: "blob \<noteq> []" using assms(4) by (simp add: upstream_wire_def flip: length_0_conv)
  have h: "list_all (\<lambda>e. host_ok (re_host e)) es"
    using assms(1) by (auto simp: list_all_iff hop_ok_def)
  have v: "dist_route_validate_hops (length es) None n blob = Inr upstream_wire"
    unfolding assms(4) using assms(1,2) by (intro validate_hops) auto
  have s: "dist_route_skip_hops (length es) blob = Inr upstream_wire"
    unfolding assms(4) by (rule skip_hops [OF h])
  show "dist_route_validate_blob blob (of_nat (length es)) n = None"
    using u c b v by (simp add: dist_route_validate_blob_def)
  show "dist_route_get_return_target blob (of_nat (length es)) =
       Inr \<lparr>rt_host = [], rt_port = 0, rt_kind = DS4_DIST_ROUTE_RETURN_UPSTREAM\<rparr>"
    using u c b s by (simp add: dist_route_get_return_target_def host_at_def string_of_def)
  show "dist_route_get_entry blob (of_nat (length es)) (of_nat i) = Inr (wire_entry (es ! i))"
    if i: "i < length es"
  proof -
    have ui: "unat (of_nat i :: u32) = i" using i len by (simp add: unat_of_nat)
    have "dist_route_get_entry_loop (length es) i blob = Inr (wire_entry (es ! i))"
      unfolding assms(4) wire_entry_def by (rule get_entry_hops [OF h i])
    then show ?thesis using i u ui b by (simp add: dist_route_get_entry_def word_le_nat_alt)
  qed
qed

lemma wire_entry_simps [simp]:
  "re_host (wire_entry e) = re_host e" "re_port (wire_entry e) = re_port e"
  "re_layer_start (wire_entry e) = re_layer_start e" "re_layer_end (wire_entry e) = re_layer_end e"
  "re_flags (wire_entry e) = re_flags e"
  by (simp_all add: wire_entry_def)

lemma hop_ok_wire_entry [simp]: "hop_ok n (wire_entry e) \<longleftrightarrow> hop_ok n e"
  by (simp add: hop_ok_def)

lemma hops_from_wire_entry [simp]: "hops_from nx (map wire_entry es) \<longleftrightarrow> hops_from nx es"
  by (induction es arbitrary: nx) simp_all

text \<open>The hops of a plan that is not empty.\<close>

lemma plan_hops_facts:
  assumes "registry_ok st" "set ws \<subseteq> set (cs_workers st)"
    "route_chain st (cs_n_layers st - 1) (cs_local_end st + 1) ws"
    "map wire_entry (pl_entry plan) = map hop_of ws"
  shows "list_all (hop_ok (cs_n_layers st)) (pl_entry plan)" "hops_from (cs_local_end st + 1) (pl_entry plan)"
    "pl_entry plan \<noteq> []" "re_layer_end (List.last (pl_entry plan)) + 1 = cs_n_layers st"
proof -
  have w: "list_all (worker_ok st) ws"
    using assms(1,2) by (auto simp: registry_ok_def list_all_iff)
  note c = route_chain_hops [OF assms(3) w refl]
  have "list_all (hop_ok (cs_n_layers st)) (map wire_entry (pl_entry plan))"
    unfolding assms(4) using w by (auto simp: list_all_iff hop_of_ok)
  then show "list_all (hop_ok (cs_n_layers st)) (pl_entry plan)" by (simp add: list_all_iff)
  show "hops_from (cs_local_end st + 1) (pl_entry plan)"
    using c assms(4) by (metis hops_from_wire_entry)
  show ne: "pl_entry plan \<noteq> []" using c assms(4) by auto
  have "re_layer_end (List.last (pl_entry plan)) = re_layer_end (List.last (map wire_entry (pl_entry plan)))"
    using ne by (simp add: last_map)
  also have "\<dots> = we_layer_end (List.last ws)" using c assms(4) by (simp add: last_map)
  finally show "re_layer_end (List.last (pl_entry plan)) + 1 = cs_n_layers st" using c by simp
qed

lemma layers_minus_one: "(a :: u32) < n \<Longrightarrow> a = n - 1 \<Longrightarrow> Suc (unat a) = unat n"
  using unat_succ_less [of a n] by simp

definition c_dup :: "(int \<Rightarrow> string + int) \<Rightarrow> bool" where
  "c_dup dup_fd \<longleftrightarrow> (\<forall>fd. \<exists>fd'. dup_fd fd = Inr fd')"

text \<open>C15. A plan the coordinator makes out of any registry that the connections may leave is one that
  every worker on the way accepts: the payload passes \<open>dist_route_validate_blob\<close>, every hop reads its own
  entry and the next one back out of it, the last one finds the way the result goes back, the route passes
  the check of the KV shards, and the shards have every layer of the model exactly once, in order.\<close>

theorem planned_route_is_accepted:
  assumes "registry_step\<^sup>*\<^sup>* st0 st" "cs_workers st0 = []" "c_qsort qs" "cs_local_end st < cs_n_layers st"
    and plan: "dist_coordinator_build_route_plan qs dup_fd st = Some (Inr (plan, gen))"
  shows "dist_route_validate_blob (pl_blob plan) (plan_count plan) (cs_n_layers st) = None
    \<and> map (\<lambda>i. dist_route_get_entry (pl_blob plan) (plan_count plan) (of_nat i)) [0..<length (pl_entry plan)]
        = map (\<lambda>e. Inr (e\<lparr>re_fd := -1\<rparr>)) (pl_entry plan)
    \<and> (pl_entry plan = [] \<or> dist_route_get_return_target (pl_blob plan) (plan_count plan) =
         Inr \<lparr>rt_host = [], rt_port = 0, rt_kind = DS4_DIST_ROUTE_RETURN_UPSTREAM\<rparr>)
    \<and> dist_kv_route_validate st plan = None
    \<and> shard_layers st plan = [0..<unat (cs_n_layers st)]"
proof -
  have reg: "registry_ok st" by (rule registry_reachable_ok [OF assms(1,2)])
  have n0: "cs_n_layers st \<noteq> 0" using assms(4) by auto
  from build_route_plan_cases [OF reg assms(3) plan] show ?thesis
  proof cases
    case 1
    then show ?thesis
      using assms(4) n0 layers_minus_one [OF assms(4)]
      by (auto simp: plan_count_def dist_route_validate_blob_def dist_kv_route_validate_def shard_layers_eq
          not_le simp del: upt_Suc)
  next
    case (2 ws)
    note p = plan_hops_facts [OF reg 2(3,4,5)]
    note v = validate_read_back [OF p(1,2,3) 2(6,7)]
    have l: "hops_from (cs_local_end st + 1) (pl_entry plan)" by (rule p(2))
    have k: "dist_kv_route_chain (cs_n_layers st) (cs_local_end st) (pl_entry plan) =
        Some (re_layer_end (List.last (pl_entry plan)))"
      using kv_route_chain_hops [OF p(1) l assms(4)] p(3) by simp
    note hl = hops_from_layers [OF l p(1,3,4)]
    have sl: "shard_layers st plan = [0..<unat (cs_n_layers st)]"
      unfolding shard_layers_eq hl(2) 2(1)
      using hl(1) unat_succ_less [OF assms(4)]
        upt_add_eq_append [of 0 "Suc (unat (cs_local_end st))" "unat (cs_n_layers st) - Suc (unat (cs_local_end st))"]
      by (simp del: upt_Suc)
    have kv: "dist_kv_route_validate st plan = None"
      using n0 2(1) assms(4) k p(4) by (simp add: dist_kv_route_validate_def not_le)
    have ent: "map (\<lambda>i. dist_route_get_entry (pl_blob plan) (plan_count plan) (of_nat i)) [0..<length (pl_entry plan)]
        = map (\<lambda>e. Inr (e\<lparr>re_fd := -1\<rparr>)) (pl_entry plan)"
      by (rule nth_equalityI) (use v(2) in \<open>simp_all add: plan_count_def wire_entry_def\<close>)
    show ?thesis using v(1,3) ent kv sl by (simp add: plan_count_def)
  qed
qed

lemma route_chain_length:
  assumes "route_chain st final nx ws" "list_all (\<lambda>w. we_layer_start w \<le> we_layer_end w \<and> we_layer_end w \<le> final) ws"
  shows "unat nx + length ws \<le> unat final + 1"
  using assms
proof (induction ws arbitrary: nx)
  case (Cons w ws)
  have w: "unat nx \<le> unat (we_layer_end w)" "unat (we_layer_end w) \<le> unat final"
    using Cons.prems by (auto simp: word_le_nat_alt)
  show ?case
  proof (cases "we_layer_end w \<ge> final")
    case False
    then have "unat (we_layer_end w + 1) + length ws \<le> unat final + 1"
      using Cons by (auto simp: not_le)
    then show ?thesis using unat_succ_less [of "we_layer_end w" final] False w by (simp add: not_le)
  qed (use Cons.prems w in auto)
qed simp

lemma append_blob_ok:
  assumes "host_ok (re_host e)" "length blob + 1044 \<le> unat UINT32_MAX"
  shows "dist_route_plan_append_blob blob e = Inr (blob @ hop_wire e)"
  using assms
  by (auto simp: dist_route_plan_append_blob_def Let_def hop_wire_def hop_fixed_def host_ok_def NI_MAXHOST_def
      UINT32_MAX_def)

lemma length_hop_wire: "host_ok (re_host e) \<Longrightarrow> length (hop_wire e) \<le> 1044"
  by (simp add: hop_wire_def host_ok_def NI_MAXHOST_def)

lemma dist_plan_hops_ok:
  assumes "c_dup dup_fd" "list_all (worker_ok st) ws" "length (pl_blob plan) + 1044 * length ws \<le> unat UINT32_MAX"
  shows "\<exists>plan'. dist_plan_hops dup_fd uc ws plan = Inr plan'
    \<and> length (pl_blob plan') \<le> length (pl_blob plan) + 1044 * length ws"
  using assms
proof (induction dup_fd uc ws plan rule: dist_plan_hops.induct)
  case (2 dup_fd uc w ws plan)
  obtain fd where fd: "(if uc \<and> pl_entry plan = [] then dup_fd (we_fd w) else Inr (- 1)) = Inr fd"
    using "2.prems"(1) unfolding c_dup_def by (cases "uc \<and> pl_entry plan = []") auto
  let ?e = "dist_route_entry_of w fd"
  have "hop_ok (cs_n_layers st) (hop_of w)" using "2.prems"(2) by (simp add: hop_of_ok)
  then have h: "host_ok (re_host ?e)" by (simp add: hop_ok_def hop_of_def dist_route_entry_of_def)
  have b: "dist_route_plan_append_blob (pl_blob plan) ?e = Inr (pl_blob plan @ hop_wire ?e)"
    using "2.prems"(3) by (intro append_blob_ok [OF h]) simp
  show ?case
    using "2.IH" [OF fd refl b "2.prems"(1)] "2.prems"(2,3) length_hop_wire [OF h] fd b
    by (fastforce simp: Let_def)
qed simp

text \<open>C14. The search is exact.  Whatever \<open>qsort\<close> does with equal elements, the recursion ends; a plan is made
  exactly when the coordinator has all layers itself or registered workers whose slices it may chain reach
  from its last layer to the end of the model; and when there is none, the layer the error names is the
  furthest one that a chain of usable workers reaches.\<close>

theorem route_search_is_exact:
  assumes "registry_step\<^sup>*\<^sup>* st0 st" "cs_workers st0 = []" "c_qsort qs" "c_dup dup_fd"
    "cs_local_start st = 0" "cs_local_end st < cs_n_layers st" "cs_n_layers st \<le> 1000000"
  shows "case dist_coordinator_build_route_plan qs dup_fd st of
      None \<Rightarrow> False
    | Some (Inr (plan, gen)) \<Rightarrow> gen = cs_generation st
        \<and> (cs_local_end st = cs_n_layers st - 1 \<and> (cs_local_has_output st \<or> cs_local_can_output_head st)
           \<or> (\<exists>ws. set ws \<subseteq> set (cs_workers st)
                \<and> route_chain st (cs_n_layers st - 1) (cs_local_end st + 1) ws))
    | Some (Inl err) \<Rightarrow>
        \<not> (cs_local_end st = cs_n_layers st - 1 \<and> (cs_local_has_output st \<or> cs_local_can_output_head st))
        \<and> (\<nexists>ws. set ws \<subseteq> set (cs_workers st)
               \<and> route_chain st (cs_n_layers st - 1) (cs_local_end st + 1) ws)
        \<and> (\<exists>m. err = ''distributed route incomplete: missing layer '' @ dec_str (unat m)
             \<and> gets_to st (cs_workers st) (cs_n_layers st - 1) (cs_local_end st + 1) m
             \<and> (\<nexists>n. n > m \<and> gets_to st (cs_workers st) (cs_n_layers st - 1) (cs_local_end st + 1) n))"
proof -
  let ?final = "cs_n_layers st - 1" and ?nx = "cs_local_end st + 1"
  let ?ws = "qs (cs_workers st)"
  let ?whole = "cs_local_end st = ?final \<and> (cs_local_has_output st \<or> cs_local_can_output_head st)"
  have reg: "registry_ok st" by (rule registry_reachable_ok [OF assms(1,2)])
  note q = c_qsort_registry [OF assms(3) reg]
  show ?thesis
  proof (cases ?whole)
    case True
    then show ?thesis using assms(5) by (simp add: dist_coordinator_build_route_plan_def Let_def)
  next
    case False
    obtain ok path m where s:
      "dist_route_search_workers (dist_route_fuel ?nx ?final) st ?ws ?final ?nx ?ws False [] ?nx = Some (ok, path, m)"
      "ok \<longleftrightarrow> (\<exists>p. set p \<subseteq> set ?ws \<and> route_chain st ?final ?nx p)"
      "ok \<Longrightarrow> set path \<subseteq> set ?ws \<and> route_chain st ?final ?nx path"
      "\<not> ok \<Longrightarrow> gets_to st ?ws ?final ?nx m \<and> (\<forall>n. gets_to st ?ws ?final ?nx n \<longrightarrow> n \<le> m)"
      by (rule dist_route_search_correct [OF q(1,2), of ?nx ?final st]) (rule that, assumption+)
    have g: "gets_to st ?ws = gets_to st (cs_workers st)"
      by (simp add: gets_to_def q(3) fun_eq_iff)
    show ?thesis
    proof (cases ok)
      case F: False
      have none: "\<nexists>p. set p \<subseteq> set (cs_workers st) \<and> route_chain st ?final ?nx p"
        using s(2) F q(3) by auto
      have far: "gets_to st (cs_workers st) ?final ?nx m" "\<nexists>n. n > m \<and> gets_to st (cs_workers st) ?final ?nx n"
        using s(4) F unfolding g by (auto simp: not_less)
      have b: "dist_coordinator_build_route_plan qs dup_fd st =
          Some (Inl (''distributed route incomplete: missing layer '' @ dec_str (unat m)))"
        using s(1) F False assms(5) unfolding dist_coordinator_build_route_plan_def Let_def by simp
      show ?thesis unfolding b using none far False by auto
    next
      case T: True
      have w: "list_all (worker_ok st) path"
        using s(3) T reg q(3) by (auto simp: registry_ok_def list_all_iff)
      have e: "w \<in> set path \<Longrightarrow> we_layer_end w \<le> ?final" for w
        using w by (auto simp: list_all_iff worker_ok_def intro: le_minus_one)
      have "unat ?nx + length path \<le> unat ?final + 1"
        using s(3) T w e by (intro route_chain_length) (auto simp: list_all_iff worker_ok_def)
      moreover have "unat ?final + 1 = unat (cs_n_layers st)"
      proof -
        have "cs_n_layers st \<noteq> 0" using assms(6) by auto
        then have "unat ?final = unat (cs_n_layers st) - 1" by (simp add: unat_minus_one)
        moreover have "0 < unat (cs_n_layers st)" using assms(6) by (simp add: word_less_nat_alt)
        ultimately show ?thesis by simp
      qed
      moreover have "unat (cs_n_layers st) \<le> 1000000" using assms(7) by (simp add: word_le_nat_alt)
      ultimately have l: "length path \<le> 1000000" by simp
      obtain plan0 where p0: "dist_plan_hops dup_fd (cs_use_control_for_work st) path \<lparr>pl_entry = [], pl_blob = []\<rparr> = Inr plan0"
        "length (pl_blob plan0) \<le> 1044 * length path"
        using dist_plan_hops_ok [OF assms(4) w, of "\<lparr>pl_entry = [], pl_blob = []\<rparr>" "cs_use_control_for_work st"] l
        by (auto simp: UINT32_MAX_def)
      have u: "dist_route_plan_append_return_upstream (pl_blob plan0) = Inr (pl_blob plan0 @ upstream_wire)"
        using p0(2) l by (simp add: dist_route_plan_append_return_upstream_def upstream_wire_def UINT32_MAX_def)
      obtain plan where b: "dist_coordinator_build_route_plan qs dup_fd st = Some (Inr (plan, cs_generation st))"
        using p0(1) u s(1) T False assms(5)
        unfolding dist_coordinator_build_route_plan_def Let_def by (cases "pl_entry plan0 = []") auto
      show ?thesis using b s(3) T q(3) by auto
    qed
  qed
qed

section \<open>A registry, a sort and a plan\<close>

text \<open>An insertion sort is one behaviour \<open>qsort\<close> may have.\<close>

fun route_insort :: "ds4_dist_worker_entry \<Rightarrow> ds4_dist_worker_entry list \<Rightarrow> ds4_dist_worker_entry list" where
  "route_insort w [] = [w]"
| "route_insort w (v # vs) = (if dist_worker_route_cmp w v \<le> 0 then w # v # vs else v # route_insort w vs)"

definition route_isort :: "ds4_dist_worker_entry list \<Rightarrow> ds4_dist_worker_entry list" where
  "route_isort ws = foldr route_insort ws []"

lemma route_cmp_total: "\<not> dist_worker_route_cmp a b \<le> 0 \<Longrightarrow> dist_worker_route_cmp b a \<le> 0"
  by (auto simp: dist_worker_route_cmp_def split: if_splits)

lemma small_flag: "(w :: u32) \<le> 1 \<longleftrightarrow> w = 0 \<or> w = 1"
proof
  assume "w \<le> 1"
  then have "unat w \<le> 1" by (simp add: word_le_nat_alt)
  then have "unat w = 0 \<or> unat w = 1" by auto
  then show "w = 0 \<or> w = 1" by (metis unat_0 unat_1 word_unat_eq_iff)
qed auto

lemma route_cmp_trans:
  assumes "dist_worker_route_cmp a b \<le> 0" "dist_worker_route_cmp b c \<le> 0"
    "we_has_output a \<le> 1" "we_has_output b \<le> 1" "we_has_output c \<le> 1"
  shows "dist_worker_route_cmp a c \<le> 0"
  using assms by (auto simp: dist_worker_route_cmp_def small_flag split: if_splits)

lemma route_insort_mset [simp]: "mset (route_insort w ws) = add_mset w (mset ws)"
  by (induction ws) auto

lemma route_insort_sorted:
  assumes "sorted_wrt (\<lambda>a b. dist_worker_route_cmp a b \<le> 0) ws" "list_all (\<lambda>w. we_has_output w \<le> 1) (w # ws)"
  shows "sorted_wrt (\<lambda>a b. dist_worker_route_cmp a b \<le> 0) (route_insort w ws)"
  using assms
proof (induction ws)
  case (Cons v vs)
  have s: "set (route_insort w vs) = insert w (set vs)"
    by (metis route_insort_mset set_mset_add_mset_insert set_mset_mset)
  show ?case
  proof (cases "dist_worker_route_cmp w v \<le> 0")
    case True
    then show ?thesis using Cons.prems by (auto simp: list_all_iff intro: route_cmp_trans)
  next
    case False
    then show ?thesis using Cons route_cmp_total [OF False] s by auto
  qed
qed simp

lemma route_isort_qsort: "c_qsort route_isort"
proof -
  have "mset (route_isort ws) = mset ws
      \<and> sorted_wrt (\<lambda>a b. dist_worker_route_cmp a b \<le> 0) (route_isort ws)"
    if "list_all (\<lambda>w. we_has_output w \<le> 1) ws" for ws
    using that
  proof (induction ws)
    case (Cons w ws)
    then have "list_all (\<lambda>w. we_has_output w \<le> 1) ws" by simp
    then have "set (route_isort ws) = set ws" using Cons.IH by (metis mset_eq_setD)
    then show ?case
      using Cons route_insort_sorted [of "route_isort ws" w] by (auto simp: route_isort_def list_all_iff)
  qed (simp add: route_isort_def)
  then show ?thesis by (auto simp: c_qsort_def)
qed

definition demo_coordinator :: ds4_dist_coordinator_state where
  "demo_coordinator =
     \<lparr>cs_model_id = 7, cs_model_name = ''ds4'', cs_n_layers = 6, cs_local_start = 0, cs_local_end = 1,
      cs_ctx_size = 100, cs_local_has_output = False, cs_local_can_output_head = False,
      cs_use_control_for_work = True, cs_activation_bits = 32, cs_generation = 0, cs_workers = [],
      cs_shutting_down = False\<rparr>"

definition demo_worker :: "u32 \<Rightarrow> u32 \<Rightarrow> bool \<Rightarrow> hello_source" where
  "demo_worker a b has_output =
     \<lparr>hs_model_id = 7, hs_quant_bits = 2, hs_model_name = Some ''ds4'', hs_n_layers = 6, hs_start = a,
      hs_end = b, hs_has_output = has_output, hs_ctx_size = 100, hs_listen_port = 9000\<rparr>"

definition demo_greet :: "ds4_dist_coordinator_state \<Rightarrow> int \<Rightarrow> string \<Rightarrow> hello_source \<Rightarrow> bool \<times> bytes \<times> ds4_dist_coordinator_state" where
  "demo_greet st fd host s = dist_coordinator_greet st fd host ''40000'' (dist_send_hello s @ [], Closed)"

definition demo_entry :: "int \<Rightarrow> string \<Rightarrow> u32 \<Rightarrow> u32 \<Rightarrow> u32 \<Rightarrow> ds4_dist_worker_entry" where
  "demo_entry fd host a b out =
     \<lparr>we_fd = fd, we_peer_host = host, we_peer_port = ''40000'', we_model_name = ''ds4'', we_model_id = 7,
      we_quant_bits = 2, we_layer_start = a, we_layer_end = b, we_has_output = out, we_has_hidden = 1,
      we_ctx_size = 100, we_n_layers = 6, we_listen_port = 9000\<rparr>"

text \<open>Two workers greet: one for the layers 2 to 3, one for the layers 4 to 5 with the output head.\<close>

definition demo_registered :: ds4_dist_coordinator_state where
  "demo_registered =
     demo_coordinator\<lparr>cs_workers := [demo_entry 6 ''10.0.0.3'' 4 5 1, demo_entry 5 ''10.0.0.2'' 2 3 0],
       cs_generation := 2\<rparr>"

lemma demo_greet_1:
  "demo_greet demo_coordinator 5 ''10.0.0.2'' (demo_worker 2 3 False) =
     (True, [], demo_coordinator\<lparr>cs_workers := [demo_entry 5 ''10.0.0.2'' 2 3 0], cs_generation := 1\<rparr>)"
  unfolding demo_greet_def dist_coordinator_greet_def
  by (subst hello_roundtrip)
    (simp_all add: demo_worker_def NUL_def nul_free_def dist_hello_record_def dist_hello_name_def
      dist_resolved_layer_end_def DS4_DIST_MAX_MODEL_NAME_def demo_coordinator_def
      dist_coordinator_check_hello_def dist_coordinator_add_worker_def dist_worker_entry_of_def
      demo_entry_def into_buffer_def NI_MAXHOST_def NI_MAXSERV_def)

lemma demo_greet_2:
  "demo_greet (demo_coordinator\<lparr>cs_workers := [demo_entry 5 ''10.0.0.2'' 2 3 0], cs_generation := 1\<rparr>) 6
     ''10.0.0.3'' (demo_worker 4 0 True) = (True, [], demo_registered)"
  unfolding demo_greet_def dist_coordinator_greet_def
  by (subst hello_roundtrip)
    (simp_all add: demo_worker_def NUL_def nul_free_def dist_hello_record_def dist_hello_name_def
      dist_resolved_layer_end_def DS4_DIST_MAX_MODEL_NAME_def demo_coordinator_def demo_registered_def
      dist_coordinator_check_hello_def dist_coordinator_add_worker_def dist_worker_entry_of_def
      demo_entry_def into_buffer_def NI_MAXHOST_def NI_MAXSERV_def dist_stale_worker_def)

lemma demo_reachable: "registry_step\<^sup>*\<^sup>* demo_coordinator demo_registered"
proof -
  have "registry_step demo_coordinator
      (demo_coordinator\<lparr>cs_workers := [demo_entry 5 ''10.0.0.2'' 2 3 0], cs_generation := 1\<rparr>)"
    by (rule registry_step.greet [OF _ _ demo_greet_1 [unfolded demo_greet_def]]) (simp_all add: NUL_def)
  moreover have "registry_step
      (demo_coordinator\<lparr>cs_workers := [demo_entry 5 ''10.0.0.2'' 2 3 0], cs_generation := 1\<rparr>) demo_registered"
    by (rule registry_step.greet [OF _ _ demo_greet_2 [unfolded demo_greet_def]]) (simp_all add: NUL_def)
  ultimately show ?thesis by simp
qed

theorem registry_stays_well_formed_witness:
  "list_all (worker_ok demo_registered) (cs_workers demo_registered)
   \<and> distinct (map worker_slice (cs_workers demo_registered)) \<and> length (cs_workers demo_registered) = 2"
  using registry_stays_well_formed [OF demo_reachable] by (simp add: demo_coordinator_def demo_registered_def)

lemma demo_fields [simp]:
  "cs_local_start demo_registered = 0" "cs_local_end demo_registered = 1"
  "cs_n_layers demo_registered = 6" "cs_use_control_for_work demo_registered"
  "cs_generation demo_registered = 2" "cs_workers demo_coordinator = []"
  "\<not> cs_local_can_output_head demo_registered"
  by (simp_all add: demo_registered_def demo_coordinator_def)

lemma demo_sorted:
  "route_isort (cs_workers demo_registered) = [demo_entry 5 ''10.0.0.2'' 2 3 0, demo_entry 6 ''10.0.0.3'' 4 5 1]"
  by (simp add: demo_registered_def route_isort_def dist_worker_route_cmp_def demo_entry_def)

lemma demo_search:
  "dist_route_search_workers (Suc (Suc f)) demo_registered (route_isort (cs_workers demo_registered)) 5 2
     (route_isort (cs_workers demo_registered)) False [] 2
   = Some (True, [demo_entry 5 ''10.0.0.2'' 2 3 0, demo_entry 6 ''10.0.0.3'' 4 5 1], 2)"
  unfolding demo_sorted
  by (simp add: demo_entry_def dist_worker_route_candidate_ok_def)

lemma demo_plan:
  "\<exists>blob. dist_coordinator_build_route_plan route_isort Inr demo_registered =
     Some (Inr (\<lparr>pl_entry =
         [\<lparr>re_host = ''10.0.0.2'', re_port = 9000, re_layer_start = 2, re_layer_end = 3, re_flags = 0, re_fd = 5\<rparr>,
          \<lparr>re_host = ''10.0.0.3'', re_port = 9000, re_layer_start = 4, re_layer_end = 5, re_flags = 1, re_fd = -1\<rparr>],
       pl_blob = blob\<rparr>, 2))"
proof -
  have fuel: "dist_route_fuel 2 5 = Suc (Suc (Suc (Suc 0)))" by (simp add: dist_route_fuel_def)
  show ?thesis
    unfolding dist_coordinator_build_route_plan_def Let_def
    by (simp add: fuel demo_search Let_def dist_route_plan_append_blob_def
        dist_route_entry_of_def demo_entry_def into_buffer_def NI_MAXHOST_def UINT32_MAX_def
        dist_route_plan_append_return_upstream_def DS4_DIST_ROUTE_F_OUTPUT_LOGITS_def)
qed

theorem planned_route_is_accepted_witness:
  "\<exists>plan gen. dist_coordinator_build_route_plan route_isort Inr demo_registered = Some (Inr (plan, gen))
     \<and> length (pl_entry plan) = 2
     \<and> dist_route_validate_blob (pl_blob plan) (plan_count plan) 6 = None
     \<and> shard_layers demo_registered plan = [0..<6]"
proof -
  obtain plan where p: "dist_coordinator_build_route_plan route_isort Inr demo_registered = Some (Inr (plan, 2))"
    "length (pl_entry plan) = 2"
    using demo_plan by fastforce
  have n: "cs_local_end demo_registered < cs_n_layers demo_registered" by simp
  show ?thesis
    using planned_route_is_accepted [OF demo_reachable _ route_isort_qsort n p(1)] p by auto
qed

theorem route_search_is_exact_witness:
  "case dist_coordinator_build_route_plan route_isort Inr demo_registered of
     Some (Inr (plan, gen)) \<Rightarrow> gen = 2
   | _ \<Rightarrow> False"
proof -
  have n: "cs_local_start demo_registered = 0" "cs_local_end demo_registered < cs_n_layers demo_registered"
    "cs_n_layers demo_registered \<le> 1000000" by simp_all
  have d: "c_dup Inr" by (simp add: c_dup_def)
  show ?thesis
    using route_search_is_exact [OF demo_reachable _ route_isort_qsort d n] demo_plan
    by (auto split: option.splits sum.splits)
qed

section \<open>Who closes a connection\<close>

text \<open>
  \<open>dist_coordinator_forget_route_workers\<close> closes the connection of the entry it removes, although the thread
  of that connection still has the descriptor and closes it when it ends.  Where the system has given the
  number to a worker that greeted in between, the end of the old thread takes the new worker out of the
  registry and closes its connection.
\<close>

theorem forgotten_connection_takes_new_worker:
  "\<exists>plan st1 st2.
     dist_coordinator_build_route_plan route_isort Inr demo_registered = Some (Inr (plan, 2))
     \<and> dist_coordinator_forget_route_workers demo_registered plan = ([5, 6], st1) \<and> cs_workers st1 = []
     \<and> demo_greet st1 5 ''10.0.0.4'' (demo_worker 2 3 False) = (True, [], st2)
     \<and> cs_workers st2 = [demo_entry 5 ''10.0.0.4'' 2 3 0]
     \<and> fst (dist_coordinator_goodbye st2 5) = [5]
     \<and> cs_workers (snd (dist_coordinator_goodbye st2 5)) = []"
proof -
  obtain plan where p: "dist_coordinator_build_route_plan route_isort Inr demo_registered = Some (Inr (plan, 2))"
    "pl_entry plan =
       [\<lparr>re_host = ''10.0.0.2'', re_port = 9000, re_layer_start = 2, re_layer_end = 3, re_flags = 0, re_fd = 5\<rparr>,
        \<lparr>re_host = ''10.0.0.3'', re_port = 9000, re_layer_start = 4, re_layer_end = 5, re_flags = 1, re_fd = -1\<rparr>]"
    using demo_plan by fastforce
  let ?st1 = "demo_coordinator\<lparr>cs_workers := [], cs_generation := 3\<rparr>"
  let ?st2 = "demo_coordinator\<lparr>cs_workers := [demo_entry 5 ''10.0.0.4'' 2 3 0], cs_generation := 4\<rparr>"
  have f: "dist_coordinator_forget_route_workers demo_registered plan = ([5, 6], ?st1)"
    by (simp add: dist_coordinator_forget_route_workers_def p(2) demo_registered_def demo_entry_def
        dist_route_entry_matches_worker_def DS4_DIST_ROUTE_F_OUTPUT_LOGITS_def)
  have g: "demo_greet ?st1 5 ''10.0.0.4'' (demo_worker 2 3 False) = (True, [], ?st2)"
    unfolding demo_greet_def dist_coordinator_greet_def
    by (subst hello_roundtrip)
      (simp_all add: demo_worker_def NUL_def nul_free_def dist_hello_record_def dist_hello_name_def
        dist_resolved_layer_end_def DS4_DIST_MAX_MODEL_NAME_def demo_coordinator_def
        dist_coordinator_check_hello_def dist_coordinator_add_worker_def dist_worker_entry_of_def
        demo_entry_def into_buffer_def NI_MAXHOST_def NI_MAXSERV_def)
  have b: "fst (dist_coordinator_goodbye ?st2 5) = [5]" "cs_workers (snd (dist_coordinator_goodbye ?st2 5)) = []"
    by (simp_all add: dist_coordinator_goodbye_def dist_coordinator_remove_worker_def demo_entry_def)
  show ?thesis
    by (rule exI [of _ plan], rule exI [of _ ?st1], rule exI [of _ ?st2]) (simp add: p(1) f g b)
qed

end
