(* ===== verification/DistWork.thy ===== *)
theory DistWork
  imports DistRoute
begin

text \<open>
  Evaluating a span of tokens over a route (\<open>ds4_distributed.c\<close>): the work the coordinator sends, what a
  worker does with it (\<open>dist_worker_process_work_payload\<close>), how it is forwarded to the next hop, and what the
  coordinator makes of the result.

  The engine is an argument: \<open>'s\<close> is the type of its sessions and \<open>'f\<close> the type of a float.  Telemetry and
  profiling, which only measure, are left out.
\<close>

unbundle bit_operations_syntax

section \<open>The engine\<close>

text \<open>What \<open>ds4_session_eval_layer_slice\<close> is asked to produce.\<close>

datatype slice_out = Want_nothing | Want_hidden | Want_logits

text \<open>
  \<open>en_encode\<close> and \<open>en_decode\<close> are the conversion between floats and activations of a given width, as
  \<open>dist_write_activation_payload\<close> and \<open>dist_decode_activation_payload\<close> apply it to each value.
\<close>

record ('s, 'f) dist_engine =
  en_vocab_size :: u32
  en_layer_count :: u32
  en_hidden_f32_values :: u64
  en_session_create :: "'s option"
  en_session_tokens :: "'s \<Rightarrow> token list option"
  en_slice_reset :: "'s \<Rightarrow> 's \<times> string option"
  en_eval_slice :: "'s \<Rightarrow> token list \<Rightarrow> u32 \<Rightarrow> u32 \<Rightarrow> u32 \<Rightarrow> 'f list option \<Rightarrow> slice_out \<Rightarrow> 's \<times> (string + 'f list)"
  en_output_head :: "'s \<Rightarrow> 'f list \<Rightarrow> nat \<Rightarrow> string + 'f list"
  en_encode :: "u32 \<Rightarrow> 'f list \<Rightarrow> bytes"
  en_decode :: "u32 \<Rightarrow> bytes \<Rightarrow> 'f list"

section \<open>Sending work\<close>

text \<open>
  The bytes behind the frame header; \<open>None\<close> is the return value -1.  \<open>hidden\<close> is the buffer of hidden
  states, and \<open>blob\<close> the route payload; both are there when their sizes are not zero.
\<close>

definition dist_send_work_frame ::
  "('s, 'f) dist_engine \<Rightarrow> ds4_dist_work_fixed \<Rightarrow> token list \<Rightarrow> 'f list \<Rightarrow> bytes \<Rightarrow> bytes option" where
  "dist_send_work_frame en work tokens hidden blob =
     (let token_bytes = ucast (w_n_tokens work) * 4 :: u64;
          values = (if w_input_hc_bytes work = 0 then Some 0
                    else dist_activation_values_from_wire_bytes (w_input_hc_bits work) (w_input_hc_bytes work));
          frame_bytes = 80 + ucast (w_token_bytes work) + ucast (w_input_hc_bytes work)
                        + ucast (w_route_bytes work) :: u64 in
      if w_n_tokens work = 0 then None
      else if token_bytes > ucast UINT32_MAX \<or> w_token_bytes work \<noteq> ucast token_bytes then None
      else
        (case values of
           None \<Rightarrow> None
         | Some v \<Rightarrow>
             if frame_bytes > ucast UINT32_MAX then None
             else
               Some (dist_work_to_wire work @ words_wire (take (unat (w_n_tokens work)) tokens)
                 @ (if w_input_hc_bytes work \<noteq> 0
                    then en_encode en (dist_activation_bits_or_default (w_input_hc_bits work)) (take (unat v) hidden)
                    else [])
                 @ take (unat (w_route_bytes work)) blob)))"

definition dist_work_request :: "ds4_dist_work_fixed \<Rightarrow> u64" where
  "dist_work_request work = dist_u64_from_halves (w_request_hi work) (w_request_lo work)"

record dist_span =
  sp_tokens :: "token list"
  sp_pos0 :: u32
  sp_session_id :: u64
  sp_request_id :: u64
  sp_prefix_hash :: u64
  sp_result_hash :: u64
  sp_reset_session :: bool
  sp_ack_only :: bool

definition dist_remote_work ::
  "ds4_dist_coordinator_state \<Rightarrow> ds4_dist_route_plan \<Rightarrow> ds4_dist_route_entry \<Rightarrow> dist_span \<Rightarrow> u32
   \<Rightarrow> ds4_dist_work_fixed" where
  "dist_remote_work st plan first sp wire_hidden_hc_bytes =
     \<lparr>w_model_id = cs_model_id st,
      w_session_hi = dist_u64_hi (sp_session_id sp), w_session_lo = dist_u64_lo (sp_session_id sp),
      w_request_hi = dist_u64_hi (sp_request_id sp), w_request_lo = dist_u64_lo (sp_request_id sp),
      w_prefix_hash_hi = dist_u64_hi (sp_prefix_hash sp), w_prefix_hash_lo = dist_u64_lo (sp_prefix_hash sp),
      w_result_hash_hi = dist_u64_hi (sp_result_hash sp), w_result_hash_lo = dist_u64_lo (sp_result_hash sp),
      w_pos0 = sp_pos0 sp, w_n_tokens = of_nat (length (sp_tokens sp)),
      w_layer_start = re_layer_start first, w_layer_end = re_layer_end first,
      w_flags = (DS4_DIST_WORK_F_INPUT_HC
         OR (if sp_reset_session sp then DS4_DIST_WORK_F_RESET_SESSION else 0)
         OR (if sp_ack_only sp then DS4_DIST_WORK_F_ACK_ONLY else 0)
         OR (if re_flags first AND DS4_DIST_ROUTE_F_OUTPUT_LOGITS \<noteq> 0 then DS4_DIST_WORK_F_OUTPUT_LOGITS else 0)),
      w_token_bytes = of_nat (length (sp_tokens sp)) * 4,
      w_input_hc_bytes = wire_hidden_hc_bytes, w_input_hc_bits = cs_activation_bits st,
      w_route_count = of_nat (length (pl_entry plan)), w_route_index = 0,
      w_route_bytes = of_nat (length (pl_blob plan))\<rparr>"

definition dist_coordinator_send_remote_work_on_fd ::
  "('s, 'f) dist_engine \<Rightarrow> ds4_dist_coordinator_state \<Rightarrow> ds4_dist_route_plan \<Rightarrow> dist_span \<Rightarrow> 'f list
   \<Rightarrow> u32 \<Rightarrow> string + bytes" where
  "dist_coordinator_send_remote_work_on_fd en st plan sp hidden hidden_bytes =
     (case pl_entry plan of
        [] \<Rightarrow> Inl ''distributed route has no remote worker''
      | first # _ \<Rightarrow>
          (case dist_activation_wire_bytes_from_f32_bytes (cs_activation_bits st) hidden_bytes of
             None \<Rightarrow> Inl ''invalid distributed hidden-state size''
           | Some wire_bytes \<Rightarrow>
               (case dist_send_work_frame en (dist_remote_work st plan first sp wire_bytes) (sp_tokens sp)
                       hidden (pl_blob plan) of
                  None \<Rightarrow> Inl ''failed to send distributed work''
                | Some frame \<Rightarrow> Inr frame)))"

section \<open>The worker\<close>

record 's dist_worker_session =
  ws_session_id :: u64
  ws_token_hash :: u64
  ws_token_hash_valid :: bool
  ws_session :: 's

record 's dist_worker_state =
  wk_model_id :: u32
  wk_layer_start :: u32
  wk_layer_end :: u32
  wk_has_output :: bool
  wk_ctx_size :: u32
  wk_sessions :: "'s dist_worker_session list"

text \<open>
  What a piece of work leads to: no answer and the end of the connection (the return value -1), an error
  or a result for the request (its number, the hash of the prefix, kind, width and payload), or work for the
  next hop.
\<close>

datatype 'f work_outcome =
    Work_dropped
  | Work_error u64 string
  | Work_result u64 u64 u32 u32 "'f list"
  | Work_forward ds4_dist_route_entry ds4_dist_work_fixed "token list" "'f list" bytes

text \<open>The checks on the fixed part, in the order of the code; \<open>n\<close> is the size of the payload.\<close>

definition dist_work_check ::
  "('s, 'f) dist_engine \<Rightarrow> 's dist_worker_state \<Rightarrow> u32 \<Rightarrow> ds4_dist_work_fixed \<Rightarrow> string option" where
  "dist_work_check en wk n work =
     (let output_logits = (w_flags work AND DS4_DIST_WORK_F_OUTPUT_LOGITS \<noteq> 0);
          input_hc_present = (w_flags work AND DS4_DIST_WORK_F_INPUT_HC \<noteq> 0) in
      if (ucast (w_token_bytes work) :: u64) \<noteq> ucast (w_n_tokens work) * 4
         \<or> ucast (w_token_bytes work) + ucast (w_input_hc_bytes work) + ucast (w_route_bytes work)
             \<noteq> (ucast (n - 80) :: u64) then
        Some ''invalid distributed WORK payload sizes''
      else if w_route_count work = 0 then Some ''WORK frame is missing distributed route''
      else if w_route_index work \<ge> w_route_count work then
        Some ''invalid distributed WORK route metadata''
      else if w_model_id work \<noteq> wk_model_id wk then
        Some (''model id mismatch: work='' @ dec_str (unat (w_model_id work)) @ '' worker=''
              @ dec_str (unat (wk_model_id wk)))
      else if w_layer_start work \<noteq> wk_layer_start wk \<or> w_layer_end work \<noteq> wk_layer_end wk then
        Some (''worker is assigned layers '' @ dec_str (unat (wk_layer_start wk)) @ '':''
              @ dec_str (unat (wk_layer_end wk)) @ '' but request asked for ''
              @ dec_str (unat (w_layer_start work)) @ '':'' @ dec_str (unat (w_layer_end work)))
      else if w_flags work AND NOT DS4_DIST_WORK_F_VALID_MASK \<noteq> 0 then
        Some ''invalid distributed WORK flags''
      else if w_n_tokens work = 0 then Some ''WORK frame has no tokens''
      else if w_pos0 work > wk_ctx_size wk \<or> w_n_tokens work > wk_ctx_size wk - w_pos0 work then
        Some ''WORK token span exceeds worker context''
      else if input_hc_present \<and> w_layer_start work = 0 then
        Some ''layer 0 WORK must not provide input hidden-state''
      else if \<not> input_hc_present \<and> w_layer_start work \<noteq> 0 then
        Some ''nonzero layer WORK requires input hidden-state''
      else if output_logits \<and> \<not> wk_has_output wk then
        Some ''worker was not assigned the output head''
      else if output_logits \<and> w_layer_end work + 1 \<noteq> en_layer_count en then
        Some ''WORK logits require final transformer layer''
      else None)"

text \<open>Reading a part of the payload: a value and the rest, an error that is answered, or a short payload.\<close>

datatype 'a work_read = Read 'a | Refused string | Short

fun dist_read_tokens :: "u32 \<Rightarrow> nat \<Rightarrow> bytes \<Rightarrow> (token list \<times> bytes) work_read" where
  "dist_read_tokens vocab 0 p = Read ([], p)"
| "dist_read_tokens vocab (Suc n) p =
     (if length p < 4 then Short
      else
        (let t = be32 p 0 in
         if t > 0x7fffffff \<or> t \<ge> vocab then Refused ''WORK token id is outside the model vocabulary''
         else
           (case dist_read_tokens vocab n (drop 4 p) of
              Read (ts, q) \<Rightarrow> Read (t # ts, q)
            | Refused e \<Rightarrow> Refused e
            | Short \<Rightarrow> Short)))"

text \<open>The number of floats of the hidden states of a span, \<open>None\<close> where their size does not fit.\<close>

definition dist_hidden_values :: "('s, 'f) dist_engine \<Rightarrow> u32 \<Rightarrow> u64 option" where
  "dist_hidden_values en n_tokens =
     (let values = ucast n_tokens * en_hidden_f32_values en in
      if values * 4 > ucast UINT32_MAX then None else Some values)"

definition dist_read_hidden ::
  "('s, 'f) dist_engine \<Rightarrow> ds4_dist_work_fixed \<Rightarrow> u64 \<Rightarrow> bytes \<Rightarrow> (bytes option \<times> bytes) work_read" where
  "dist_read_hidden en work values p =
     (let bits = dist_activation_bits_or_default (w_input_hc_bits work) in
      if w_flags work AND DS4_DIST_WORK_F_INPUT_HC \<noteq> 0 then
        (case (if \<not> dist_activation_bits_valid bits then None else dist_activation_wire_bytes bits values) of
           None \<Rightarrow> Refused ''invalid distributed activation width''
         | Some wire_bytes \<Rightarrow>
             if w_input_hc_bytes work \<noteq> wire_bytes then
               Refused ''input hidden-state size does not match token span''
             else if unat (w_input_hc_bytes work) > length p then Short
             else Read (Some (take (unat (w_input_hc_bytes work)) p), drop (unat (w_input_hc_bytes work)) p))
      else if w_input_hc_bytes work \<noteq> 0 then
        Refused ''WORK frame has hidden bytes without input flag''
      else Read (None, p))"

text \<open>The route of the work: the entry of this worker is checked, the next one is returned.\<close>

definition dist_work_route ::
  "('s, 'f) dist_engine \<Rightarrow> ds4_dist_work_fixed \<Rightarrow> bytes \<Rightarrow> string + ds4_dist_route_entry option" where
  "dist_work_route en work blob =
     (let output_logits = (w_flags work AND DS4_DIST_WORK_F_OUTPUT_LOGITS \<noteq> 0);
          has_route = (w_route_count work \<noteq> 0);
          has_next = (has_route \<and> w_route_index work + 1 < w_route_count work) in
      if \<not> has_route then Inr None
      else
        (case dist_route_validate_blob blob (w_route_count work) (en_layer_count en) of
           Some err \<Rightarrow> Inl err
         | None \<Rightarrow>
             (case dist_route_get_entry blob (w_route_count work) (w_route_index work) of
                Inl err \<Rightarrow> Inl err
              | Inr cur \<Rightarrow>
                  if re_layer_start cur \<noteq> w_layer_start work \<or> re_layer_end cur \<noteq> w_layer_end work then
                    Inl ''WORK layer range does not match route entry''
                  else if (re_flags cur AND DS4_DIST_ROUTE_F_OUTPUT_LOGITS \<noteq> 0) \<noteq> output_logits then
                    Inl ''WORK logits flag does not match route entry''
                  else if has_next then
                    (case dist_route_get_entry blob (w_route_count work) (w_route_index work + 1) of
                       Inl err \<Rightarrow> Inl err
                     | Inr nxt \<Rightarrow>
                         if output_logits then Inl ''non-final route entry requested logits'' else Inr (Some nxt))
                  else
                    (case dist_route_get_return_target blob (w_route_count work) of
                       Inl err \<Rightarrow> Inl err
                     | Inr ret \<Rightarrow>
                         if rt_kind ret \<noteq> DS4_DIST_ROUTE_RETURN_UPSTREAM then
                           Inl ''unsupported final result destination''
                         else Inr None))))"


text \<open>The session of the work, made where there is none; a list of sessions has one for each number.\<close>

definition dist_worker_get_session_locked ::
  "('s, 'f) dist_engine \<Rightarrow> 's dist_worker_state \<Rightarrow> u64
   \<Rightarrow> string + 's dist_worker_session \<times> 's dist_worker_state" where
  "dist_worker_get_session_locked en wk session_id =
     (case find (\<lambda>it. ws_session_id it = session_id) (wk_sessions wk) of
        Some it \<Rightarrow> Inr (it, wk)
      | None \<Rightarrow>
          (case en_session_create en of
             None \<Rightarrow> Inl ''failed to create distributed worker session''
           | Some x \<Rightarrow>
               (let entry = \<lparr>ws_session_id = session_id, ws_token_hash = 0, ws_token_hash_valid = False,
                             ws_session = x\<rparr> in
                Inr (entry, wk\<lparr>wk_sessions := entry # wk_sessions wk\<rparr>))))"

definition put_session :: "'s dist_worker_session \<Rightarrow> 's dist_worker_state \<Rightarrow> 's dist_worker_state" where
  "put_session s wk =
     wk\<lparr>wk_sessions := map (\<lambda>it. if ws_session_id it = ws_session_id s then s else it) (wk_sessions wk)\<rparr>"

text \<open>Reset, recomputing a hash that is not known, and the comparison of the prefix.\<close>

definition dist_session_prefix ::
  "('s, 'f) dist_engine \<Rightarrow> ds4_dist_work_fixed \<Rightarrow> 's dist_worker_session
   \<Rightarrow> string option \<times> 's dist_worker_session" where
  "dist_session_prefix en work s =
     (let compare = (\<lambda>s. (if ws_token_hash s \<noteq> dist_u64_from_halves (w_prefix_hash_hi work) (w_prefix_hash_lo work)
                         then Some ''worker KV prefix hash mismatch'' else None, s)) in
      if w_flags work AND DS4_DIST_WORK_F_RESET_SESSION \<noteq> 0 then
        (case en_slice_reset en (ws_session s) of
           (x, Some err) \<Rightarrow> (Some err, s\<lparr>ws_session := x\<rparr>)
         | (x, None) \<Rightarrow>
             compare (s\<lparr>ws_session := x, ws_token_hash := DS4_DIST_TOKEN_HASH_INIT, ws_token_hash_valid := True\<rparr>))
      else if \<not> ws_token_hash_valid s then
        (case en_session_tokens en (ws_session s) of
           None \<Rightarrow> (Some ''worker session has no token timeline'', s)
         | Some timeline \<Rightarrow>
             compare (s\<lparr>ws_token_hash := dist_token_hash_prefix timeline, ws_token_hash_valid := True\<rparr>))
      else compare s)"

definition dist_decode_activation_payload ::
  "('s, 'f) dist_engine \<Rightarrow> u32 \<Rightarrow> bytes \<Rightarrow> string + 'f list \<times> u32" where
  "dist_decode_activation_payload en bits0 wire =
     (let bits = dist_activation_bits_or_default bits0 in
      if \<not> dist_activation_bits_valid bits then
        Inl (''invalid distributed activation width: '' @ dec_str (unat bits) @ '' bits'')
      else
        (case dist_activation_values_from_wire_bytes bits (of_nat (length wire)) of
           None \<Rightarrow> Inl ''invalid distributed activation payload size''
         | Some values \<Rightarrow>
             if values * 4 > ucast UINT32_MAX then Inl ''distributed activation payload is too large''
             else Inr (en_decode en bits wire, ucast (values * 4))))"

text \<open>What a worker produces: nothing on the last hop of work that asks for an acknowledgement only, the
  logits where the last hop has the output head, else the hidden states.\<close>

definition dist_work_want :: "ds4_dist_work_fixed \<Rightarrow> bool \<Rightarrow> slice_out" where
  "dist_work_want work has_next =
     (let final_ack_only = (w_flags work AND DS4_DIST_WORK_F_ACK_ONLY \<noteq> 0 \<and> \<not> has_next) in
      if final_ack_only then Want_nothing
      else if w_flags work AND DS4_DIST_WORK_F_OUTPUT_LOGITS \<noteq> 0 \<and> \<not> has_next then Want_logits
      else Want_hidden)"

fun result_kind_of :: "slice_out \<Rightarrow> u32" where
  "result_kind_of Want_nothing = DS4_DIST_RESULT_ACK"
| "result_kind_of Want_logits = DS4_DIST_RESULT_LOGITS"
| "result_kind_of Want_hidden = DS4_DIST_RESULT_HIDDEN_STATE"

text \<open>From the decoded input on, under the mutex of the worker.\<close>

definition dist_work_eval ::
  "('s, 'f) dist_engine \<Rightarrow> 's dist_worker_state \<Rightarrow> ds4_dist_work_fixed \<Rightarrow> token list \<Rightarrow> u64 \<Rightarrow> 'f list option
   \<Rightarrow> ds4_dist_route_entry option \<Rightarrow> bytes \<Rightarrow> 'f work_outcome \<times> 's dist_worker_state" where
  "dist_work_eval en wk work tokens values input_hc nxt blob =
     (let req = dist_work_request work;
          result_hash = dist_u64_from_halves (w_result_hash_hi work) (w_result_hash_lo work);
          want = dist_work_want work (nxt \<noteq> None);
          bits = dist_activation_bits_or_default (w_input_hc_bits work) in
      case dist_worker_get_session_locked en wk (dist_u64_from_halves (w_session_hi work) (w_session_lo work)) of
        Inl err \<Rightarrow> (Work_error req err, wk)
      | Inr (s, wk1) \<Rightarrow>
          (case dist_session_prefix en work s of
             (Some err, s1) \<Rightarrow> (Work_error req err, put_session s1 wk1)
           | (None, s1) \<Rightarrow>
               (case en_eval_slice en (ws_session s1) tokens (w_pos0 work) (w_layer_start work)
                       (w_layer_end work) input_hc want of
                  (x, Inl err) \<Rightarrow>
                    (Work_error req err, put_session (s1\<lparr>ws_session := x, ws_token_hash_valid := False\<rparr>) wk1)
                | (x, Inr result) \<Rightarrow>
                    (let wk2 = put_session (s1\<lparr>ws_session := x, ws_token_hash := result_hash,
                                 ws_token_hash_valid := True\<rparr>) wk1 in
                     if want = Want_hidden
                        \<and> dist_activation_wire_bytes_from_f32_bytes bits (ucast (values * 4)) = None then
                       (Work_error req ''invalid output hidden-state size'', wk2)
                     else
                       (case nxt of
                          Some e \<Rightarrow> (Work_forward e work tokens result blob, wk2)
                        | None \<Rightarrow>
                            (Work_result req result_hash (result_kind_of want)
                               (if want = Want_hidden then bits else 32)
                               (if want = Want_nothing then [] else result), wk2))))))"

definition dist_worker_process_work_payload ::
  "('s, 'f) dist_engine \<Rightarrow> 's dist_worker_state \<Rightarrow> bytes \<Rightarrow> 'f work_outcome \<times> 's dist_worker_state" where
  "dist_worker_process_work_payload en wk payload =
     (if length payload < 80 then (Work_error 0 ''truncated distributed WORK frame'', wk)
      else
        (let work = dist_work_from_wire payload; req = dist_work_request work in
         case dist_work_check en wk (of_nat (length payload)) work of
           Some err \<Rightarrow> (Work_error req err, wk)
         | None \<Rightarrow>
             (case dist_read_tokens (en_vocab_size en) (unat (w_n_tokens work)) (drop 80 payload) of
                Refused err \<Rightarrow> (Work_error req err, wk)
              | Short \<Rightarrow> (Work_dropped, wk)
              | Read (tokens, p1) \<Rightarrow>
                  if dist_token_hash_update_span
                       (dist_u64_from_halves (w_prefix_hash_hi work) (w_prefix_hash_lo work)) tokens
                     \<noteq> dist_u64_from_halves (w_result_hash_hi work) (w_result_hash_lo work) then
                    (Work_error req ''WORK token prefix hash metadata mismatch'', wk)
                  else
                    (case dist_hidden_values en (w_n_tokens work) of
                       None \<Rightarrow> (Work_error req ''distributed hidden-state payload is too large'', wk)
                     | Some values \<Rightarrow>
                         (case dist_read_hidden en work values p1 of
                            Refused err \<Rightarrow> (Work_error req err, wk)
                          | Short \<Rightarrow> (Work_dropped, wk)
                          | Read (wire, p2) \<Rightarrow>
                              if unat (w_route_bytes work) > length p2 then (Work_dropped, wk)
                              else
                                (let blob = take (unat (w_route_bytes work)) p2 in
                                 case dist_work_route en work blob of
                                   Inl err \<Rightarrow> (Work_error req err, wk)
                                 | Inr nxt \<Rightarrow>
                                     (case wire of
                                        None \<Rightarrow> dist_work_eval en wk work tokens values None nxt blob
                                      | Some w \<Rightarrow>
                                          (case dist_decode_activation_payload en (w_input_hc_bits work) w of
                                             Inl err \<Rightarrow> (Work_error req err, wk)
                                           | Inr (input_hc, n) \<Rightarrow>
                                               if n \<noteq> ucast (values * 4) then
                                                 (Work_error req
                                                    ''decoded input hidden-state size does not match token span'', wk)
                                               else dist_work_eval en wk work tokens values (Some input_hc) nxt blob))))))))"

section \<open>Forwarding\<close>

definition dist_forward_work ::
  "ds4_dist_route_entry \<Rightarrow> ds4_dist_work_fixed \<Rightarrow> u32 \<Rightarrow> string + ds4_dist_work_fixed" where
  "dist_forward_work nxt work hidden_hc_bytes =
     (let bits = dist_activation_bits_or_default (w_input_hc_bits work) in
      case dist_activation_wire_bytes_from_f32_bytes bits hidden_hc_bytes of
        None \<Rightarrow> Inl ''invalid forwarded hidden-state size''
      | Some wire_bytes \<Rightarrow>
          (let flags = w_flags work OR DS4_DIST_WORK_F_INPUT_HC in
           Inr (work\<lparr>w_layer_start := re_layer_start nxt, w_layer_end := re_layer_end nxt,
                     w_route_index := w_route_index work + 1, w_input_hc_bits := bits,
                     w_input_hc_bytes := wire_bytes,
                     w_flags := (if re_flags nxt AND DS4_DIST_ROUTE_F_OUTPUT_LOGITS \<noteq> 0
                                 then flags OR DS4_DIST_WORK_F_OUTPUT_LOGITS
                                 else flags AND NOT DS4_DIST_WORK_F_OUTPUT_LOGITS)\<rparr>)))"

text \<open>The answer of the next hop on its way back: the relay answers for a hop that is gone or that
  answers another request.\<close>

fun dist_relay :: "u64 \<Rightarrow> 'f work_outcome \<Rightarrow> 'f work_outcome" where
  "dist_relay expected (Work_result r h k b p) =
     (if r \<noteq> expected then Work_error expected ''next worker RESULT metadata mismatch'' else Work_result r h k b p)"
| "dist_relay expected (Work_error r msg) =
     (if r \<noteq> expected then Work_error expected ''next worker RESULT metadata mismatch'' else Work_error r msg)"
| "dist_relay expected Work_dropped = Work_error expected ''next worker closed connection''"
| "dist_relay expected (Work_forward e w t h b) = Work_error expected ''next worker did not return valid RESULT''"

text \<open>A frame goes through the workers of a route; each is connected to the next.\<close>

fun dist_run_route ::
  "('s, 'f) dist_engine \<Rightarrow> 's dist_worker_state list \<Rightarrow> bytes \<Rightarrow> 'f work_outcome \<times> 's dist_worker_state list" where
  "dist_run_route en [] frame = (Work_dropped, [])"
| "dist_run_route en (wk # wks) frame =
     (case dist_worker_process_work_payload en wk frame of
        (Work_forward nxt work tokens hidden blob, wk') \<Rightarrow>
          (case dist_hidden_values en (w_n_tokens work) of
             None \<Rightarrow> (Work_dropped, wk' # wks)
           | Some values \<Rightarrow>
               (case dist_forward_work nxt work (ucast (values * 4)) of
                  Inl err \<Rightarrow> (Work_error (dist_work_request work) err, wk' # wks)
                | Inr forwarded \<Rightarrow>
                    (case dist_send_work_frame en forwarded tokens hidden blob of
                       None \<Rightarrow> (Work_error (dist_work_request work) ''failed to forward distributed work'', wk' # wks)
                     | Some frame' \<Rightarrow>
                         (case dist_run_route en wks frame' of
                            (out, wks') \<Rightarrow> (dist_relay (dist_work_request work) out, wk' # wks')))))
      | (out, wk') \<Rightarrow> (out, wk' # wks))"


section \<open>The coordinator\<close>

text \<open>What the coordinator makes of the answer; texts are not cut to the caller's buffer.\<close>

definition dist_result_payload ::
  "('s, 'f) dist_engine \<Rightarrow> u32 \<Rightarrow> u32 \<Rightarrow> 'f list \<Rightarrow> string + 'f list \<times> u32" where
  "dist_result_payload en kind bits payload =
     (if kind = DS4_DIST_RESULT_HIDDEN_STATE \<and> payload \<noteq> [] then
        dist_decode_activation_payload en bits (en_encode en (dist_activation_bits_or_default bits) payload)
      else Inr (payload, of_nat (length payload) * 4))"

definition dist_recv_result ::
  "('s, 'f) dist_engine \<Rightarrow> u64 \<Rightarrow> 'f work_outcome \<Rightarrow> string + u32 \<times> u64 \<times> 'f list \<times> u32" where
  "dist_recv_result en request_id out =
     (case out of
        Work_dropped \<Rightarrow> Inl ''distributed worker closed connection''
      | Work_forward _ _ _ _ _ \<Rightarrow> Inl ''distributed worker returned invalid frame''
      | Work_error r msg \<Rightarrow>
          if r \<noteq> request_id then Inl ''distributed result metadata mismatch''
          else if msg = [] then Inl ''distributed worker returned an error'' else Inl msg
      | Work_result r h kind bits payload \<Rightarrow>
          if r \<noteq> request_id then Inl ''distributed result metadata mismatch''
          else
            (case dist_result_payload en kind bits payload of
               Inl err \<Rightarrow> Inl err
             | Inr (q, n) \<Rightarrow> Inr (kind, h, q, n)))"

definition dist_coordinator_eval_remote_on_fd ::
  "('s, 'f) dist_engine \<Rightarrow> ds4_dist_coordinator_state \<Rightarrow> 's \<Rightarrow> ds4_dist_route_plan \<Rightarrow> 's dist_worker_state list
   \<Rightarrow> dist_span \<Rightarrow> 'f list \<Rightarrow> u32 \<Rightarrow> (string + 'f list) \<times> 's dist_worker_state list" where
  "dist_coordinator_eval_remote_on_fd en st session plan wks sp hidden hidden_bytes =
     (case dist_coordinator_send_remote_work_on_fd en st plan sp hidden hidden_bytes of
        Inl err \<Rightarrow> (Inl err, wks)
      | Inr frame \<Rightarrow>
          (case dist_run_route en wks frame of
             (out, wks') \<Rightarrow>
               ((case dist_recv_result en (sp_request_id sp) out of
                   Inl err \<Rightarrow> Inl err
                 | Inr (kind, h, payload, n) \<Rightarrow>
                     if h \<noteq> sp_result_hash sp then Inl ''distributed result prefix hash mismatch''
                     else if kind = DS4_DIST_RESULT_LOGITS \<and> n = en_vocab_size en * 4 then Inr payload
                     else if kind = DS4_DIST_RESULT_HIDDEN_STATE \<and> n = hidden_bytes then
                       en_output_head en session payload (length (sp_tokens sp))
                     else if kind = DS4_DIST_RESULT_HIDDEN_STATE then
                       Inl ''distributed route returned invalid hidden-state size''
                     else Inl ''distributed route did not return logits or hidden-state''), wks')))"

definition dist_span_prefix_hash ::
  "('s, 'f) dist_engine \<Rightarrow> 's \<Rightarrow> u32 \<Rightarrow> bool \<Rightarrow> string + u64" where
  "dist_span_prefix_hash en session pos0 reset_session =
     (if reset_session then
        (if pos0 \<noteq> 0 then Inl ''distributed reset span must start at position 0''
         else Inr DS4_DIST_TOKEN_HASH_INIT)
      else
        (case en_session_tokens en session of
           None \<Rightarrow> Inl (''distributed session has no '' @ dec_str (unat pos0) @ ''-token prefix'')
         | Some checkpoint \<Rightarrow> dist_session_token_hash_prefix checkpoint pos0))"

text \<open>One span over the whole model: the coordinator's own slice, and the route behind it.\<close>

definition dist_coordinator_eval_span ::
  "('s, 'f) dist_engine \<Rightarrow> ds4_dist_coordinator_state \<Rightarrow> 's \<Rightarrow> ds4_dist_route_plan \<Rightarrow> 's dist_worker_state list
   \<Rightarrow> token list \<Rightarrow> u32 \<Rightarrow> u64 \<Rightarrow> u64 \<Rightarrow> bool
   \<Rightarrow> (string + 'f list) \<times> 's \<times> 's dist_worker_state list" where
  "dist_coordinator_eval_span en st session plan wks tokens pos0 session_id request_id reset_session =
     (case dist_hidden_values en (of_nat (length tokens)) of
        None \<Rightarrow> (Inl ''distributed coordinator hidden-state chunk is too large'', session, wks)
      | Some values \<Rightarrow>
          (case dist_span_prefix_hash en session pos0 reset_session of
             Inl err \<Rightarrow> (Inl err, session, wks)
           | Inr prefix_hash \<Rightarrow>
               (let sp = \<lparr>sp_tokens = tokens, sp_pos0 = pos0, sp_session_id = session_id,
                           sp_request_id = request_id, sp_prefix_hash = prefix_hash,
                           sp_result_hash = dist_token_hash_update_span prefix_hash tokens,
                           sp_reset_session = reset_session, sp_ack_only = False\<rparr> in
                case (if reset_session then en_slice_reset en session else (session, None)) of
                  (s0, Some err) \<Rightarrow> (Inl err, s0, wks)
                | (s0, None) \<Rightarrow>
                    if pl_entry plan \<noteq> [] \<and> re_fd (hd (pl_entry plan)) < 0 then
                      (Inl ''distributed route has no live first-hop connection'', s0, wks)
                    else
                      (case en_eval_slice en s0 tokens pos0 (cs_local_start st) (cs_local_end st) None
                              (if pl_entry plan = [] then Want_logits else Want_hidden) of
                         (s1, Inl err) \<Rightarrow> (Inl err, s1, wks)
                       | (s1, Inr out) \<Rightarrow>
                           if pl_entry plan = [] then (Inr out, s1, wks)
                           else
                             (case dist_coordinator_eval_remote_on_fd en st s1 plan wks sp out (ucast (values * 4)) of
                                (r, wks') \<Rightarrow> (r, s1, wks'))))))"

end
