(* ===== verification/DistSpan.thy ===== *)
theory DistSpan
  imports DistWork DistPlan
begin

text \<open>
  The proofs about distributed evaluation: work that goes through the workers of a planned route is the
  composition of their slices.
\<close>

unbundle bit_operations_syntax

section \<open>Sizes\<close>

lemma ucast_of_nat_u64: "k < 2 ^ 32 \<Longrightarrow> (ucast (of_nat k :: u32) :: u64) = of_nat k"
  by (rule word_unat_eq_iff [THEN iffD2]) (simp add: unat_of_nat unsigned_ucast_eq take_bit_nat_eq_self)

lemma unat_of_nat_u64: "k < 2 ^ 64 \<Longrightarrow> unat (of_nat k :: u64) = k"
  by (simp add: unat_of_nat)

lemma unat_of_nat_u32: "k < 2 ^ 32 \<Longrightarrow> unat (of_nat k :: u32) = k"
  by (simp add: unat_of_nat)

lemma ucast_of_nat_u32: "(ucast (of_nat k :: u64) :: u32) = of_nat k"
  by (rule bit_word_eqI) (simp add: bit_simps)

lemma le_max_u64: "k < 2 ^ 32 \<Longrightarrow> \<not> ucast UINT32_MAX < (of_nat k :: u64)"
  by (simp add: UINT32_MAX_def word_less_nat_alt unat_of_nat)

text \<open>An activation width the coordinator may be given, and the bytes of a value.\<close>

definition width_ok :: "u32 \<Rightarrow> bool" where
  "width_ok bits \<longleftrightarrow> bits = 32 \<or> bits = 16 \<or> bits = 8"

definition value_bytes :: "u32 \<Rightarrow> nat" where
  "value_bytes bits = unat bits div 8"

lemma width_facts:
  assumes "width_ok bits"
  shows "dist_activation_bits_or_default bits = bits" "dist_activation_bits_valid bits" "bits mod 8 = 0"
    "bits div 8 = of_nat (value_bytes bits)" "value_bytes bits = 1 \<or> value_bytes bits = 2 \<or> value_bytes bits = 4"
  using assms
  by (auto simp: width_ok_def dist_activation_bits_or_default_def dist_activation_bits_valid_def value_bytes_def)

lemma wire_bytes_of_values:
  assumes "width_ok bits" "v * value_bytes bits < 2 ^ 32"
  shows "dist_activation_wire_bytes bits (of_nat v) = Some (of_nat (v * value_bytes bits))"
proof -
  note w = width_facts [OF assms(1)]
  have v: "value_bytes bits < 2 ^ 32" using w(5) by auto
  have e: "of_nat v * ucast (bits div 8) = (of_nat (v * value_bytes bits) :: u64)"
    unfolding w(4) ucast_of_nat_u64 [OF v] by simp
  show ?thesis
    unfolding dist_activation_wire_bytes_def Let_def w(1) e
    using w(2,3) le_max_u64 [OF assms(2)] by (simp add: ucast_of_nat_u32 del: of_nat_mult)
qed

lemma u32_div_mod:
  assumes "n = v * d" "n < 2 ^ 32" "0 < d"
  shows "(of_nat n :: u32) mod of_nat d = 0" "(of_nat n :: u32) div of_nat d = of_nat v" "v < 2 ^ 32"
proof -
  show v: "v < 2 ^ 32"
    using assms by (metis le_less_trans mult_le_mono2 nat_mult_1_right Suc_leI One_nat_def)
  show "(of_nat n :: u32) mod of_nat d = 0"
  proof (cases "d < 2 ^ 32")
    case True
    then show ?thesis
      using assms by (auto intro!: word_unat_eq_iff [THEN iffD2] simp: unat_mod_distrib unat_of_nat_u32 simp del: of_nat_mult)
  next
    case False
    then have "v = 0" using assms by (cases v) auto
    then show ?thesis using assms(1) by simp
  qed
  show "(of_nat n :: u32) div of_nat d = of_nat v"
  proof (cases "d < 2 ^ 32")
    case True
    then show ?thesis
      using assms v by (auto intro!: word_unat_eq_iff [THEN iffD2] simp: unat_div_distrib unat_of_nat_u32 simp del: of_nat_mult)
  next
    case False
    then have "v = 0" using assms by (cases v) auto
    then show ?thesis using assms(1) by simp
  qed
qed

lemma wire_bytes_from_f32:
  assumes "width_ok bits" "n = v * 4" "n < 2 ^ 32" "v * value_bytes bits < 2 ^ 32"
  shows "dist_activation_wire_bytes_from_f32_bytes bits (of_nat n) = Some (of_nat (v * value_bytes bits))"
  unfolding dist_activation_wire_bytes_from_f32_bytes_def
  using u32_div_mod [OF assms(2,3)] wire_bytes_of_values [OF assms(1,4)]
  by (simp add: ucast_of_nat_u64 del: of_nat_mult)

lemma values_of_wire_bytes:
  assumes "width_ok bits" "n = v * value_bytes bits" "n < 2 ^ 32"
  shows "dist_activation_values_from_wire_bytes bits (of_nat n) = Some (of_nat v)"
proof -
  note w = width_facts [OF assms(1)]
  have p: "0 < value_bytes bits" using w(5) by auto
  have z: "bits div 8 \<noteq> 0" using assms(1) by (auto simp: width_ok_def)
  note d = u32_div_mod [OF assms(2,3) p, folded w(4)]
  show ?thesis
    unfolding dist_activation_values_from_wire_bytes_def Let_def w(1) d(1,2)
    using w(2,3) z ucast_of_nat_u64 [OF d(3)] by simp
qed

section \<open>The work of a hop\<close>

text \<open>The floats of the hidden states of a span.\<close>

definition span_values :: "('s, 'f) dist_engine \<Rightarrow> dist_span \<Rightarrow> nat" where
  "span_values en sp = length (sp_tokens sp) * unat (en_hidden_f32_values en)"

text \<open>A span that fits: tokens of the vocabulary, the hash they lead to, and sizes below 4 GiB.\<close>

definition span_ok ::
  "('s, 'f) dist_engine \<Rightarrow> ds4_dist_coordinator_state \<Rightarrow> ds4_dist_route_plan \<Rightarrow> dist_span \<Rightarrow> bool" where
  "span_ok en st plan sp \<longleftrightarrow>
     width_ok (cs_activation_bits st) \<and> sp_tokens sp \<noteq> []
     \<and> list_all (\<lambda>t. t \<le> 0x7fffffff \<and> t < en_vocab_size en) (sp_tokens sp)
     \<and> sp_result_hash sp = dist_token_hash_update_span (sp_prefix_hash sp) (sp_tokens sp)
     \<and> en_hidden_f32_values en \<noteq> 0 \<and> span_values en sp * 4 < 2 ^ 32
     \<and> 80 + 4 * length (sp_tokens sp) + span_values en sp * value_bytes (cs_activation_bits st)
         + length (pl_blob plan) < 2 ^ 32
     \<and> en_layer_count en = cs_n_layers st"

text \<open>What the engine promises: sizes of the activations of a width, and of the hidden states of a span.\<close>

definition engine_sizes :: "('s, 'f) dist_engine \<Rightarrow> u32 \<Rightarrow> dist_span \<Rightarrow> bool" where
  "engine_sizes en bits sp \<longleftrightarrow>
     (\<forall>h. length h = span_values en sp \<longrightarrow>
        length (en_encode en bits h) = span_values en sp * value_bytes bits)
     \<and> (\<forall>s a b i x r. en_eval_slice en s (sp_tokens sp) (sp_pos0 sp) a b i Want_hidden = (x, Inr r) \<longrightarrow>
          length r = span_values en sp)"

definition hop_work ::
  "('s, 'f) dist_engine \<Rightarrow> ds4_dist_coordinator_state \<Rightarrow> ds4_dist_route_plan \<Rightarrow> dist_span \<Rightarrow> nat
   \<Rightarrow> ds4_dist_route_entry \<Rightarrow> ds4_dist_work_fixed" where
  "hop_work en st plan sp i e =
     (dist_remote_work st plan e sp (of_nat (span_values en sp * value_bytes (cs_activation_bits st))))
       \<lparr>w_route_index := of_nat i\<rparr>"

definition hop_frame ::
  "('s, 'f) dist_engine \<Rightarrow> ds4_dist_coordinator_state \<Rightarrow> ds4_dist_route_plan \<Rightarrow> dist_span \<Rightarrow> nat
   \<Rightarrow> ds4_dist_route_entry \<Rightarrow> 'f list \<Rightarrow> bytes" where
  "hop_frame en st plan sp i e h =
     dist_work_to_wire (hop_work en st plan sp i e) @ words_wire (sp_tokens sp)
     @ en_encode en (cs_activation_bits st) h @ pl_blob plan"

text \<open>The flags: input is always there, the others as asked for.\<close>

lemma remote_flags:
  "w_flags (hop_work en st plan sp i e) AND DS4_DIST_WORK_F_INPUT_HC \<noteq> 0"
  "w_flags (hop_work en st plan sp i e) AND DS4_DIST_WORK_F_OUTPUT_LOGITS \<noteq> 0
     \<longleftrightarrow> re_flags e AND DS4_DIST_ROUTE_F_OUTPUT_LOGITS \<noteq> 0"
  "w_flags (hop_work en st plan sp i e) AND DS4_DIST_WORK_F_RESET_SESSION \<noteq> 0 \<longleftrightarrow> sp_reset_session sp"
  "w_flags (hop_work en st plan sp i e) AND DS4_DIST_WORK_F_ACK_ONLY \<noteq> 0 \<longleftrightarrow> sp_ack_only sp"
  "w_flags (hop_work en st plan sp i e) AND NOT DS4_DIST_WORK_F_VALID_MASK = 0"
  by (simp_all add: hop_work_def dist_remote_work_def dist_flag_defs)

lemma span_facts:
  assumes "span_ok en st plan sp"
  shows "width_ok (cs_activation_bits st)" "0 < length (sp_tokens sp)" "length (sp_tokens sp) < 2 ^ 32"
    "4 * length (sp_tokens sp) < 2 ^ 32" "0 < span_values en sp" "span_values en sp * 4 < 2 ^ 32"
    "span_values en sp * value_bytes (cs_activation_bits st) < 2 ^ 32" "length (pl_blob plan) < 2 ^ 32"
    "0 < span_values en sp * value_bytes (cs_activation_bits st)" "span_values en sp < 2 ^ 32"
proof -
  have h: "0 < unat (en_hidden_f32_values en)" using assms by (simp add: span_ok_def unat_gt_0)
  show w: "width_ok (cs_activation_bits st)" and t: "0 < length (sp_tokens sp)"
    using assms by (auto simp: span_ok_def)
  have v: "value_bytes (cs_activation_bits st) \<noteq> 0" using width_facts(5) [OF w] by auto
  show s: "0 < span_values en sp" using h t by (simp add: span_values_def)
  show "0 < span_values en sp * value_bytes (cs_activation_bits st)" using s v by simp
  show "length (sp_tokens sp) < 2 ^ 32" "4 * length (sp_tokens sp) < 2 ^ 32" "span_values en sp * 4 < 2 ^ 32"
    "span_values en sp * value_bytes (cs_activation_bits st) < 2 ^ 32" "length (pl_blob plan) < 2 ^ 32"
    "span_values en sp < 2 ^ 32"
    using assms by (auto simp: span_ok_def)
qed

lemma hop_work_fields [simp]:
  "w_n_tokens (hop_work en st plan sp i e) = of_nat (length (sp_tokens sp))"
  "w_token_bytes (hop_work en st plan sp i e) = of_nat (4 * length (sp_tokens sp))"
  "w_input_hc_bytes (hop_work en st plan sp i e) = of_nat (span_values en sp * value_bytes (cs_activation_bits st))"
  "w_input_hc_bits (hop_work en st plan sp i e) = cs_activation_bits st"
  "w_route_count (hop_work en st plan sp i e) = plan_count plan"
  "w_route_index (hop_work en st plan sp i e) = of_nat i"
  "w_route_bytes (hop_work en st plan sp i e) = of_nat (length (pl_blob plan))"
  "w_model_id (hop_work en st plan sp i e) = cs_model_id st"
  "w_layer_start (hop_work en st plan sp i e) = re_layer_start e"
  "w_layer_end (hop_work en st plan sp i e) = re_layer_end e"
  "w_pos0 (hop_work en st plan sp i e) = sp_pos0 sp"
  "dist_work_request (hop_work en st plan sp i e) = sp_request_id sp"
  "dist_u64_from_halves (w_session_hi (hop_work en st plan sp i e)) (w_session_lo (hop_work en st plan sp i e)) = sp_session_id sp"
  "dist_u64_from_halves (w_prefix_hash_hi (hop_work en st plan sp i e)) (w_prefix_hash_lo (hop_work en st plan sp i e)) = sp_prefix_hash sp"
  "dist_u64_from_halves (w_result_hash_hi (hop_work en st plan sp i e)) (w_result_hash_lo (hop_work en st plan sp i e)) = sp_result_hash sp"
  by (simp_all add: hop_work_def dist_remote_work_def plan_count_def dist_work_request_def)

lemma hidden_values_span:
  assumes "span_ok en st plan sp"
  shows "dist_hidden_values en (of_nat (length (sp_tokens sp))) = Some (of_nat (span_values en sp))"
proof -
  note f = span_facts [OF assms]
  have e: "(ucast (of_nat (length (sp_tokens sp)) :: u32) :: u64) * en_hidden_f32_values en = of_nat (span_values en sp)"
    unfolding ucast_of_nat_u64 [OF f(3)] span_values_def by simp
  have m: "(of_nat (span_values en sp) :: u64) * 4 = of_nat (span_values en sp * 4)" by simp
  show ?thesis
    unfolding dist_hidden_values_def Let_def e m using le_max_u64 [OF f(6)] by (simp del: of_nat_mult)
qed

lemma hop_send:
  assumes "span_ok en st plan sp" "length h = span_values en sp"
  shows "dist_send_work_frame en (hop_work en st plan sp i e) (sp_tokens sp) h (pl_blob plan)
    = Some (hop_frame en st plan sp i e h)"
proof -
  note f = span_facts [OF assms(1)]
  let ?n = "length (sp_tokens sp)" and ?hb = "span_values en sp * value_bytes (cs_activation_bits st)"
  let ?rb = "length (pl_blob plan)"
  note u = unat_of_nat_u32
  have n: "(of_nat ?n :: u32) \<noteq> 0" using u [OF f(3)] f(2) by (metis unat_0 less_not_refl)
  have hb: "(of_nat ?hb :: u32) \<noteq> 0" using u [OF f(7)] f(9) by (metis unat_0 less_not_refl)
  have tb: "(ucast (of_nat ?n :: u32) :: u64) * 4 = of_nat (4 * ?n)"
    unfolding ucast_of_nat_u64 [OF f(3)] by simp
  have fb: "80 + ucast (of_nat (4 * ?n) :: u32) + ucast (of_nat ?hb :: u32) + ucast (of_nat ?rb :: u32)
      = (of_nat (80 + 4 * ?n + ?hb + ?rb) :: u64)"
    unfolding ucast_of_nat_u64 [OF f(4)] ucast_of_nat_u64 [OF f(7)] ucast_of_nat_u64 [OF f(8)] by simp
  have sz: "80 + 4 * ?n + ?hb + ?rb < 2 ^ 32" using assms(1) by (simp add: span_ok_def)
  have v: "dist_activation_values_from_wire_bytes (cs_activation_bits st) (of_nat ?hb) = Some (of_nat (span_values en sp))"
    by (rule values_of_wire_bytes [OF f(1) refl f(7)])
  have uv: "unat (of_nat (span_values en sp) :: u64) = span_values en sp"
    using f(10) by (simp add: unat_of_nat_u64)
  show ?thesis
    unfolding dist_send_work_frame_def Let_def hop_work_fields tb fb
    using n hb v le_max_u64 [OF sz] le_max_u64 [OF f(4)] u [OF f(3)] u [OF f(8)] uv assms(2) width_facts(1) [OF f(1)]
    by (simp add: hop_frame_def ucast_of_nat_u32 del: of_nat_mult of_nat_add)
qed

lemma read_tokens_wire:
  "list_all (\<lambda>t. t \<le> 0x7fffffff \<and> t < vocab) ts \<Longrightarrow>
     dist_read_tokens vocab (length ts) (words_wire ts @ q) = Read (ts, q)"
  by (induction ts) (auto simp: words_wire_def be32_be32_bytes Let_def not_less not_le)

section \<open>A worker that is ready\<close>

text \<open>It has the slice of its hop, room for the span, and a session that holds exactly the prefix, or one
  that the reset brings to the empty prefix; \<open>s\<close> is the engine's session it then evaluates in.\<close>

definition session_ready ::
  "('s, 'f) dist_engine \<Rightarrow> dist_span \<Rightarrow> 's dist_worker_session \<Rightarrow> 's \<Rightarrow> bool" where
  "session_ready en sp t s \<longleftrightarrow>
     (if sp_reset_session sp
      then en_slice_reset en (ws_session t) = (s, None) \<and> sp_prefix_hash sp = DS4_DIST_TOKEN_HASH_INIT
      else ws_session t = s \<and> ws_token_hash_valid t \<and> ws_token_hash t = sp_prefix_hash sp)"

definition worker_ready ::
  "('s, 'f) dist_engine \<Rightarrow> ds4_dist_coordinator_state \<Rightarrow> dist_span \<Rightarrow> ds4_dist_route_entry
   \<Rightarrow> 's dist_worker_state \<Rightarrow> 's \<Rightarrow> bool" where
  "worker_ready en st sp e wk s \<longleftrightarrow>
     wk_model_id wk = cs_model_id st \<and> wk_layer_start wk = re_layer_start e \<and> wk_layer_end wk = re_layer_end e
     \<and> (re_flags e = 0 \<or> wk_has_output wk)
     \<and> sp_pos0 sp \<le> wk_ctx_size wk \<and> of_nat (length (sp_tokens sp)) \<le> wk_ctx_size wk - sp_pos0 sp
     \<and> (case find (\<lambda>it. ws_session_id it = sp_session_id sp) (wk_sessions wk) of
          None \<Rightarrow> False
        | Some t \<Rightarrow> session_ready en sp t s)"

text \<open>The plan of a route behind the coordinator's own layers.\<close>

definition plan_ok :: "ds4_dist_coordinator_state \<Rightarrow> ds4_dist_route_plan \<Rightarrow> bool" where
  "plan_ok st plan \<longleftrightarrow>
     cs_local_end st < cs_n_layers st \<and> pl_entry plan \<noteq> []
     \<and> list_all (hop_ok (cs_n_layers st)) (pl_entry plan) \<and> hops_from (cs_local_end st + 1) (pl_entry plan)
     \<and> re_layer_end (List.last (pl_entry plan)) + 1 = cs_n_layers st
     \<and> pl_blob plan = concat (map hop_wire (pl_entry plan)) @ upstream_wire
     \<and> length (pl_blob plan) \<le> unat UINT32_MAX"

lemma hops_from_nth:
  assumes "hops_from nx es" "Suc i < length es"
  shows "re_layer_start (es ! Suc i) = re_layer_end (es ! i) + 1"
  using assms
proof (induction es arbitrary: nx i)
  case (Cons e es)
  then show ?case by (cases i; cases es) auto
qed simp

lemma plan_hop_facts:
  assumes "plan_ok st plan" "i < length (pl_entry plan)"
  defines "e \<equiv> pl_entry plan ! i"
  shows "hop_ok (cs_n_layers st) e" "re_layer_start e \<noteq> 0"
    "Suc i < length (pl_entry plan) \<Longrightarrow> re_flags e = 0"
proof -
  show o: "hop_ok (cs_n_layers st) e" using assms by (auto simp: plan_ok_def list_all_iff)
  have succ: "(a :: u32) + 1 \<noteq> 0" if "a < cs_n_layers st" for a
    using unat_succ_less [OF that] by (metis unat_0 nat.simps(3))
  show "re_layer_start e \<noteq> 0"
  proof (cases i)
    case 0
    then have "re_layer_start e = cs_local_end st + 1"
      using assms by (cases "pl_entry plan") (auto simp: plan_ok_def)
    then show ?thesis using assms(1) succ by (simp add: plan_ok_def)
  next
    case (Suc j)
    then have "re_layer_start e = re_layer_end (pl_entry plan ! j) + 1"
      using hops_from_nth [of "cs_local_end st + 1" "pl_entry plan" j] assms by (simp add: plan_ok_def)
    moreover have "re_layer_end (pl_entry plan ! j) < cs_n_layers st"
      using assms Suc by (auto simp: plan_ok_def list_all_iff hop_ok_def)
    ultimately show ?thesis using succ by simp
  qed
  show "re_flags e = 0" if i: "Suc i < length (pl_entry plan)"
  proof (rule ccontr)
    assume "re_flags e \<noteq> 0"
    then have "re_layer_end e + 1 = cs_n_layers st" using o by (auto simp: hop_ok_def)
    moreover have "re_layer_start (pl_entry plan ! Suc i) = re_layer_end e + 1"
      using hops_from_nth [OF _ i] assms(1) by (auto simp: plan_ok_def e_def)
    moreover have "hop_ok (cs_n_layers st) (pl_entry plan ! Suc i)"
      using assms(1) i by (auto simp: plan_ok_def list_all_iff)
    ultimately show False by (auto simp: hop_ok_def)
  qed
qed

lemma plan_length:
  assumes "plan_ok st plan"
  shows "length (pl_entry plan) < 2 ^ 32" "unat (plan_count plan) = length (pl_entry plan)" "plan_count plan \<noteq> 0"
proof -
  have b: "length (pl_blob plan) = length (concat (map hop_wire (pl_entry plan))) + length upstream_wire"
    using assms by (simp add: plan_ok_def)
  then show l: "length (pl_entry plan) < 2 ^ 32"
    using length_hops_le [of "pl_entry plan"] assms by (auto simp: plan_ok_def UINT32_MAX_def)
  then show c: "unat (plan_count plan) = length (pl_entry plan)"
    by (simp add: plan_count_def unat_of_nat_u32)
  have "pl_entry plan \<noteq> []" using assms by (simp add: plan_ok_def)
  then show "plan_count plan \<noteq> 0" using c by (metis unat_0 length_0_conv)
qed

lemma length_hop_frame:
  assumes "engine_sizes en (cs_activation_bits st) sp" "length h = span_values en sp"
  shows "length (hop_frame en st plan sp i e h)
    = 80 + 4 * length (sp_tokens sp) + span_values en sp * value_bytes (cs_activation_bits st) + length (pl_blob plan)"
  using assms by (simp add: hop_frame_def engine_sizes_def)

lemma hop_check:
  assumes "span_ok en st plan sp" "plan_ok st plan" "i < length (pl_entry plan)"
    "worker_ready en st sp (pl_entry plan ! i) wk s"
    "n = of_nat (80 + 4 * length (sp_tokens sp) + span_values en sp * value_bytes (cs_activation_bits st)
           + length (pl_blob plan))"
  shows "dist_work_check en wk n (hop_work en st plan sp i (pl_entry plan ! i)) = None"
proof -
  let ?e = "pl_entry plan ! i"
  let ?n = "length (sp_tokens sp)" and ?hb = "span_values en sp * value_bytes (cs_activation_bits st)"
  let ?rb = "length (pl_blob plan)"
  note f = span_facts [OF assms(1)]
  note o = plan_hop_facts [OF assms(2,3)]
  note cnt = plan_length(1) [OF assms(2)]
  note c = plan_length(2) [OF assms(2)]
  note c0 = plan_length(3) [OF assms(2)]
  have i: "unat (of_nat i :: u32) = i" using cnt assms(3) by (simp add: unat_of_nat_u32)
  have ci: "\<not> plan_count plan \<le> of_nat i" using c i assms(3) by (simp add: word_le_nat_alt)
  have tb: "(ucast (of_nat ?n :: u32) :: u64) * 4 = ucast (of_nat (4 * ?n) :: u32)"
    unfolding ucast_of_nat_u64 [OF f(3)] ucast_of_nat_u64 [OF f(4)] by simp
  have sz: "4 * ?n + ?hb + ?rb < 2 ^ 32" using assms(1) by (simp add: span_ok_def)
  have n80: "n - 80 = of_nat (4 * ?n + ?hb + ?rb)" unfolding assms(5) by simp
  have fb: "ucast (of_nat (4 * ?n) :: u32) + ucast (of_nat ?hb :: u32) + ucast (of_nat ?rb :: u32)
      = (ucast (n - 80) :: u64)"
    unfolding n80 ucast_of_nat_u64 [OF f(4)] ucast_of_nat_u64 [OF f(7)] ucast_of_nat_u64 [OF f(8)]
      ucast_of_nat_u64 [OF sz] by simp
  have nz: "(of_nat ?n :: u32) \<noteq> 0" using unat_of_nat_u32 [OF f(3)] f(2) by (metis unat_0 less_not_refl)
  have out: "re_flags ?e AND DS4_DIST_ROUTE_F_OUTPUT_LOGITS \<noteq> 0 \<Longrightarrow>
      wk_has_output wk \<and> re_layer_end ?e + 1 = en_layer_count en"
    using o(1) assms(1,4)
    by (auto simp: hop_ok_def worker_ready_def span_ok_def DS4_DIST_ROUTE_F_OUTPUT_LOGITS_def)
  show ?thesis
    unfolding dist_work_check_def Let_def hop_work_fields tb fb
    using c0 ci nz assms(4) o(2) out remote_flags [of en st plan sp i ?e]
    by (auto simp: worker_ready_def not_le not_less simp del: of_nat_mult)
qed

lemma hop_route:
  assumes "span_ok en st plan sp" "plan_ok st plan" "i < length (pl_entry plan)"
  shows "dist_work_route en (hop_work en st plan sp i (pl_entry plan ! i)) (pl_blob plan) =
     Inr (if Suc i < length (pl_entry plan) then Some (wire_entry (pl_entry plan ! Suc i)) else None)"
proof -
  let ?e = "pl_entry plan ! i"
  have p: "list_all (hop_ok (cs_n_layers st)) (pl_entry plan)" "hops_from (cs_local_end st + 1) (pl_entry plan)"
    "pl_entry plan \<noteq> []" "pl_blob plan = concat (map hop_wire (pl_entry plan)) @ upstream_wire"
    "length (pl_blob plan) \<le> unat UINT32_MAX"
    using assms(2) by (auto simp: plan_ok_def)
  note v = validate_read_back [OF p, folded plan_count_def]
  note cnt = plan_length(1) [OF assms(2)]
  note c = plan_length(2) [OF assms(2)]
  note c0 = plan_length(3) [OF assms(2)]
  have n: "en_layer_count en = cs_n_layers st" using assms(1) by (simp add: span_ok_def)
  have s: "of_nat i + 1 = (of_nat (Suc i) :: u32)" by (simp add: add.commute)
  have nx: "of_nat (Suc i) < plan_count plan \<longleftrightarrow> Suc i < length (pl_entry plan)"
  proof -
    have "unat (of_nat (Suc i) :: u32) = Suc i \<or> length (pl_entry plan) = Suc i \<and> Suc i = 2 ^ 32"
      using cnt assms(3) by (simp add: unat_of_nat_u32 del: of_nat_Suc)
    then show ?thesis using c cnt by (auto simp: word_less_nat_alt simp del: of_nat_Suc)
  qed
  show ?thesis
    unfolding dist_work_route_def Let_def hop_work_fields s nx n v(1) v(3) v(2) [OF assms(3)]
    using c0 v(2) [of "Suc i"] plan_hop_facts(3) [OF assms(2,3)] remote_flags(2) [of en st plan sp i ?e]
    by (auto simp del: of_nat_Suc)
qed

section \<open>One hop\<close>

text \<open>What the next hop sees of hidden states that travel with a width.\<close>

definition transport :: "('s, 'f) dist_engine \<Rightarrow> u32 \<Rightarrow> 'f list \<Rightarrow> 'f list" where
  "transport en bits h = en_decode en bits (en_encode en bits h)"

definition hop_want :: "dist_span \<Rightarrow> ds4_dist_route_entry \<Rightarrow> bool \<Rightarrow> slice_out" where
  "hop_want sp e has_next =
     (if has_next then Want_hidden else if sp_ack_only sp then Want_nothing
      else if re_flags e AND DS4_DIST_ROUTE_F_OUTPUT_LOGITS \<noteq> 0 then Want_logits else Want_hidden)"

lemma hop_want_work: "dist_work_want (hop_work en st plan sp i e) has_next = hop_want sp e has_next"
  using remote_flags [of en st plan sp i e]
  by (auto simp: dist_work_want_def hop_want_def Let_def)

lemma decode_activation:
  assumes "width_ok bits" "v * 4 < 2 ^ 32" "length wire = v * value_bytes bits" "length wire < 2 ^ 32"
  shows "dist_decode_activation_payload en bits wire = Inr (en_decode en bits wire, ucast ((of_nat v :: u64) * 4))"
proof -
  have m: "(of_nat v :: u64) * 4 = of_nat (v * 4)" by simp
  have x: "dist_activation_values_from_wire_bytes bits (of_nat (length wire)) = Some (of_nat v)"
    by (rule values_of_wire_bytes [OF assms(1,3,4)])
  show ?thesis
    unfolding dist_decode_activation_payload_def Let_def width_facts(1) [OF assms(1)] x
    using width_facts(2) [OF assms(1)] le_max_u64 [OF assms(2)]
    by (simp add: m del: of_nat_mult)
qed

lemma hop_read_hidden:
  assumes "span_ok en st plan sp" "engine_sizes en (cs_activation_bits st) sp" "length h = span_values en sp"
  shows "dist_read_hidden en (hop_work en st plan sp i e) (of_nat (span_values en sp))
      (en_encode en (cs_activation_bits st) h @ q) = Read (Some (en_encode en (cs_activation_bits st) h), q)"
proof -
  note f = span_facts [OF assms(1)]
  have l: "length (en_encode en (cs_activation_bits st) h) = span_values en sp * value_bytes (cs_activation_bits st)"
    using assms(2,3) by (simp add: engine_sizes_def)
  show ?thesis
    unfolding dist_read_hidden_def Let_def hop_work_fields width_facts(1) [OF f(1)]
    using remote_flags(1) [of en st plan sp i e] width_facts(2) [OF f(1)] wire_bytes_of_values [OF f(1,7)]
      unat_of_nat_u32 [OF f(7)] l
    by (simp del: of_nat_mult)
qed

lemma hop_process:
  assumes "span_ok en st plan sp" "plan_ok st plan" "i < length (pl_entry plan)"
    "engine_sizes en (cs_activation_bits st) sp" "length h = span_values en sp"
    "worker_ready en st sp (pl_entry plan ! i) wk s"
  shows "dist_worker_process_work_payload en wk (hop_frame en st plan sp i (pl_entry plan ! i) h) =
    dist_work_eval en wk (hop_work en st plan sp i (pl_entry plan ! i)) (sp_tokens sp) (of_nat (span_values en sp))
      (Some (transport en (cs_activation_bits st) h))
      (if Suc i < length (pl_entry plan) then Some (wire_entry (pl_entry plan ! Suc i)) else None) (pl_blob plan)"
proof -
  let ?e = "pl_entry plan ! i" and ?bits = "cs_activation_bits st"
  let ?work = "hop_work en st plan sp i ?e" and ?p = "hop_frame en st plan sp i ?e h"
  note f = span_facts [OF assms(1)]
  have fw: "dist_work_from_wire ?p = ?work" by (simp add: hop_frame_def codec_simps)
  have d: "drop 80 ?p = words_wire (sp_tokens sp) @ en_encode en ?bits h @ pl_blob plan"
    by (simp add: hop_frame_def)
  have chk: "dist_work_check en wk (of_nat (length ?p)) ?work = None"
    by (rule hop_check [OF assms(1,2,3,6)]) (simp add: length_hop_frame [OF assms(4,5)])
  have tok: "list_all (\<lambda>t. t \<le> 0x7fffffff \<and> t < en_vocab_size en) (sp_tokens sp)"
    and hash: "sp_result_hash sp = dist_token_hash_update_span (sp_prefix_hash sp) (sp_tokens sp)"
    using assms(1) by (auto simp: span_ok_def)
  have rd: "dist_read_tokens (en_vocab_size en) (unat (of_nat (length (sp_tokens sp)) :: u32)) (drop 80 ?p)
      = Read (sp_tokens sp, en_encode en ?bits h @ pl_blob plan)"
    unfolding d unat_of_nat_u32 [OF f(3)] by (rule read_tokens_wire [OF tok])
  have l: "length (en_encode en ?bits h) = span_values en sp * value_bytes ?bits"
    using assms(4,5) by (simp add: engine_sizes_def)
  have dec: "dist_decode_activation_payload en ?bits (en_encode en ?bits h)
      = Inr (transport en ?bits h, ucast ((of_nat (span_values en sp) :: u64) * 4))"
    unfolding transport_def by (rule decode_activation [OF f(1,6) l, unfolded l, OF f(7)])
  have len: "\<not> length ?p < 80" by (simp add: hop_frame_def)
  show ?thesis
    unfolding dist_worker_process_work_payload_def Let_def fw hop_work_fields rd
    using len chk hash hidden_values_span [OF assms(1)] hop_read_hidden [OF assms(1,4,5)]
      hop_route [OF assms(1,2,3)] dec unat_of_nat_u32 [OF f(8)]
    by simp
qed

text \<open>The session of the span in a worker.\<close>

definition span_session :: "dist_span \<Rightarrow> 's dist_worker_state \<Rightarrow> 's dist_worker_session option" where
  "span_session sp wk = find (\<lambda>it. ws_session_id it = sp_session_id sp) (wk_sessions wk)"

lemma span_session_put:
  assumes "span_session sp wk = Some t" "ws_session_id t' = sp_session_id sp"
  shows "span_session sp (put_session t' wk) = Some t'"
proof -
  have "find (\<lambda>it. ws_session_id it = k) (map (\<lambda>it. if ws_session_id it = k then t' else it) xs) = Some t'"
    if "find (\<lambda>it. ws_session_id it = k) xs = Some t" "ws_session_id t' = k" for k xs
    using that by (induction xs) (auto split: if_splits)
  then show ?thesis using assms by (simp add: span_session_def put_session_def)
qed

lemma session_ready_prefix:
  assumes "session_ready en sp t s"
  shows "\<exists>t'. dist_session_prefix en (hop_work en st plan sp i e) t = (None, t')
    \<and> ws_session t' = s \<and> ws_session_id t' = ws_session_id t"
  using assms remote_flags(3) [of en st plan sp i e]
  by (cases "sp_reset_session sp") (auto simp: session_ready_def dist_session_prefix_def Let_def)

text \<open>An evaluated hop: an error of the engine is answered; else the session has the new hash, and the
  hidden states go on or the result comes back.\<close>

lemma hop_eval:
  assumes "span_ok en st plan sp" "worker_ready en st sp e wk s"
  obtains wk' t where
    "dist_work_eval en wk (hop_work en st plan sp i e) (sp_tokens sp) (of_nat (span_values en sp)) inp nxt blob =
       ((case snd (en_eval_slice en s (sp_tokens sp) (sp_pos0 sp) (re_layer_start e) (re_layer_end e) inp
                     (hop_want sp e (nxt \<noteq> None))) of
           Inl err \<Rightarrow> Work_error (sp_request_id sp) err
         | Inr r \<Rightarrow>
             (case nxt of
                Some e' \<Rightarrow> Work_forward e' (hop_work en st plan sp i e) (sp_tokens sp) r blob
              | None \<Rightarrow>
                  Work_result (sp_request_id sp) (sp_result_hash sp) (result_kind_of (hop_want sp e False))
                    (if hop_want sp e False = Want_hidden then cs_activation_bits st else 32)
                    (if hop_want sp e False = Want_nothing then [] else r))), wk')"
    "span_session sp wk' = Some t"
    "isl (snd (en_eval_slice en s (sp_tokens sp) (sp_pos0 sp) (re_layer_start e) (re_layer_end e) inp
                     (hop_want sp e (nxt \<noteq> None)))) = (\<not> ws_token_hash_valid t)"
    "ws_token_hash_valid t \<Longrightarrow> ws_token_hash t = sp_result_hash sp"
proof -
  let ?work = "hop_work en st plan sp i e" and ?want = "hop_want sp e (nxt \<noteq> None)"
  note f = span_facts [OF assms(1)]
  obtain t0 where t0: "span_session sp wk = Some t0" "session_ready en sp t0 s"
    using assms(2) by (auto simp: worker_ready_def span_session_def split: option.splits)
  have id0: "ws_session_id t0 = sp_session_id sp"
    using t0(1) by (auto simp: span_session_def find_Some_iff)
  obtain t1 where t1: "dist_session_prefix en ?work t0 = (None, t1)" "ws_session t1 = s"
    "ws_session_id t1 = sp_session_id sp"
    using session_ready_prefix [OF t0(2), of st plan i e] id0 by auto
  have get: "dist_worker_get_session_locked en wk (sp_session_id sp) = Inr (t0, wk)"
    using t0(1) by (simp add: dist_worker_get_session_locked_def span_session_def)
  have m: "ucast ((of_nat (span_values en sp) :: u64) * 4) = (of_nat (span_values en sp * 4) :: u32)"
    using ucast_of_nat_u32 [of "span_values en sp * 4"] by simp
  have wb: "dist_activation_wire_bytes_from_f32_bytes (cs_activation_bits st)
      (ucast ((of_nat (span_values en sp) :: u64) * 4)) \<noteq> None"
    unfolding m using wire_bytes_from_f32 [OF f(1) refl f(6,7)] by simp
  obtain x r where ev: "en_eval_slice en s (sp_tokens sp) (sp_pos0 sp) (re_layer_start e) (re_layer_end e) inp ?want = (x, r)"
    by (cases "en_eval_slice en s (sp_tokens sp) (sp_pos0 sp) (re_layer_start e) (re_layer_end e) inp ?want")
  show ?thesis
  proof (cases r)
    case (Inl err)
    let ?t = "t1\<lparr>ws_session := x, ws_token_hash_valid := False\<rparr>"
    show ?thesis
      by (rule that [of "put_session ?t wk" ?t])
        (use Inl ev t1 get span_session_put [OF t0(1), of ?t] hop_want_work [of en st plan sp i e]
         in \<open>simp_all add: dist_work_eval_def Let_def width_facts(1) [OF f(1)]\<close>)
  next
    case (Inr y)
    let ?t = "t1\<lparr>ws_session := x, ws_token_hash := sp_result_hash sp, ws_token_hash_valid := True\<rparr>"
    show ?thesis
      by (rule that [of "put_session ?t wk" ?t])
        (use Inr ev t1 get wb span_session_put [OF t0(1), of ?t] hop_want_work [of en st plan sp i e]
         in \<open>auto simp: dist_work_eval_def Let_def width_facts(1) [OF f(1)] split: option.splits\<close>)
  qed
qed


section \<open>The route\<close>

lemma forward_flags:
  "(let flags = w_flags (hop_work en st plan sp i e) OR DS4_DIST_WORK_F_INPUT_HC in
    if re_flags e' AND DS4_DIST_ROUTE_F_OUTPUT_LOGITS \<noteq> 0 then flags OR DS4_DIST_WORK_F_OUTPUT_LOGITS
    else flags AND NOT DS4_DIST_WORK_F_OUTPUT_LOGITS) = w_flags (hop_work en st plan sp j e')"
  by (simp add: hop_work_def dist_remote_work_def dist_flag_defs Let_def)

lemma hop_forward:
  assumes "span_ok en st plan sp"
  shows "dist_forward_work (wire_entry e') (hop_work en st plan sp i e) (ucast ((of_nat (span_values en sp) :: u64) * 4))
    = Inr (hop_work en st plan sp (Suc i) e')"
proof -
  note f = span_facts [OF assms]
  have m: "ucast ((of_nat (span_values en sp) :: u64) * 4) = (of_nat (span_values en sp * 4) :: u32)"
    using ucast_of_nat_u32 [of "span_values en sp * 4"] by simp
  have w: "dist_activation_wire_bytes_from_f32_bytes (cs_activation_bits st) (of_nat (span_values en sp * 4))
      = Some (of_nat (span_values en sp * value_bytes (cs_activation_bits st)))"
    by (rule wire_bytes_from_f32 [OF f(1) refl f(6,7)])
  show ?thesis
    unfolding dist_forward_work_def m hop_work_fields width_facts(1) [OF f(1)] Let_def w option.case
      wire_entry_simps forward_flags [of en st plan sp i e e' "Suc i", unfolded Let_def]
    by (simp add: hop_work_def dist_remote_work_def add.commute)
qed

text \<open>The slices one after the other, each on what the last one sent.\<close>

fun span_value ::
  "('s, 'f) dist_engine \<Rightarrow> u32 \<Rightarrow> dist_span \<Rightarrow> (ds4_dist_route_entry \<times> 's) list \<Rightarrow> 'f list \<Rightarrow> string + 'f list" where
  "span_value en bits sp [] h = Inr h"
| "span_value en bits sp ((e, s) # hops) h =
     (case snd (en_eval_slice en s (sp_tokens sp) (sp_pos0 sp) (re_layer_start e) (re_layer_end e)
                  (Some (transport en bits h)) (hop_want sp e (hops \<noteq> []))) of
        Inl err \<Rightarrow> Inl err
      | Inr r \<Rightarrow> span_value en bits sp hops r)"

definition span_answer ::
  "ds4_dist_coordinator_state \<Rightarrow> dist_span \<Rightarrow> ds4_dist_route_entry \<Rightarrow> string + 'f list \<Rightarrow> 'f work_outcome" where
  "span_answer st sp final value =
     (case value of
        Inl err \<Rightarrow> Work_error (sp_request_id sp) err
      | Inr r \<Rightarrow>
          Work_result (sp_request_id sp) (sp_result_hash sp) (result_kind_of (hop_want sp final False))
            (if hop_want sp final False = Want_hidden then cs_activation_bits st else 32)
            (if hop_want sp final False = Want_nothing then [] else r))"

lemma relay_answer [simp]: "dist_relay (sp_request_id sp) (span_answer st sp e v) = span_answer st sp e v"
  by (simp add: span_answer_def split: sum.splits)

definition session_at_result :: "dist_span \<Rightarrow> 's dist_worker_state \<Rightarrow> bool" where
  "session_at_result sp wk \<longleftrightarrow>
     (case span_session sp wk of None \<Rightarrow> False | Some t \<Rightarrow> ws_token_hash_valid t \<and> ws_token_hash t = sp_result_hash sp)"

lemma run_route_hops:
  assumes "span_ok en st plan sp" "plan_ok st plan" "engine_sizes en (cs_activation_bits st) sp"
    "map fst hops = drop i (pl_entry plan)" "hops \<noteq> []" "length h = span_values en sp"
    "list_all2 (\<lambda>p wk. worker_ready en st sp (fst p) wk (snd p)) hops wks"
  shows "\<exists>wks'. dist_run_route en wks (hop_frame en st plan sp i (fst (hd hops)) h) =
      (span_answer st sp (List.last (pl_entry plan)) (span_value en (cs_activation_bits st) sp hops h), wks')
    \<and> (isl (span_value en (cs_activation_bits st) sp hops h) \<or> list_all (session_at_result sp) wks')"
  using assms(4-7)
proof (induction hops arbitrary: i h wks)
  case (Cons p hops)
  obtain e s where p: "p = (e, s)" by (cases p)
  have i: "i < length (pl_entry plan)" and e: "e = pl_entry plan ! i"
    using Cons.prems(1) p by (metis length_drop length_map list.size(3) zero_less_diff length_greater_0_conv list.distinct(1) list.simps(9),
        metis Cons.prems(1) Cons_nth_drop_Suc drop_eq_Nil fst_conv linorder_not_less list.distinct(1) list.inject list.simps(9))
  have rest: "map fst hops = drop (Suc i) (pl_entry plan)"
    using Cons.prems(1) Cons_nth_drop_Suc [OF i] by (metis list.inject list.simps(9))
  have nx: "Suc i < length (pl_entry plan) \<longleftrightarrow> hops \<noteq> []"
    using arg_cong [OF rest, of length] by (cases hops) auto
  obtain wk wks0 where wks: "wks = wk # wks0" and rdy: "worker_ready en st sp e wk s"
    and all: "list_all2 (\<lambda>p wk. worker_ready en st sp (fst p) wk (snd p)) hops wks0"
    using Cons.prems(4) p by (cases wks) auto
  let ?bits = "cs_activation_bits st"
  let ?nxt = "if Suc i < length (pl_entry plan) then Some (wire_entry (pl_entry plan ! Suc i)) else None"
  let ?in = "Some (transport en ?bits h)"
  have proc: "dist_worker_process_work_payload en wk (hop_frame en st plan sp i e h) =
      dist_work_eval en wk (hop_work en st plan sp i e) (sp_tokens sp) (of_nat (span_values en sp)) ?in ?nxt (pl_blob plan)"
    unfolding e by (rule hop_process [OF assms(1,2) i assms(3) Cons.prems(3) rdy [unfolded e]])
  have some: "(?nxt \<noteq> None) = (hops \<noteq> [])" using nx by auto
  obtain wk' t where ev:
    "dist_work_eval en wk (hop_work en st plan sp i e) (sp_tokens sp) (of_nat (span_values en sp)) ?in ?nxt (pl_blob plan) =
       ((case snd (en_eval_slice en s (sp_tokens sp) (sp_pos0 sp) (re_layer_start e) (re_layer_end e) ?in
                     (hop_want sp e (hops \<noteq> []))) of
           Inl err \<Rightarrow> Work_error (sp_request_id sp) err
         | Inr r \<Rightarrow>
             (case ?nxt of
                Some e' \<Rightarrow> Work_forward e' (hop_work en st plan sp i e) (sp_tokens sp) r (pl_blob plan)
              | None \<Rightarrow>
                  Work_result (sp_request_id sp) (sp_result_hash sp) (result_kind_of (hop_want sp e False))
                    (if hop_want sp e False = Want_hidden then cs_activation_bits st else 32)
                    (if hop_want sp e False = Want_nothing then [] else r))), wk')"
    "span_session sp wk' = Some t"
    "isl (snd (en_eval_slice en s (sp_tokens sp) (sp_pos0 sp) (re_layer_start e) (re_layer_end e) ?in
                     (hop_want sp e (hops \<noteq> [])))) = (\<not> ws_token_hash_valid t)"
    "ws_token_hash_valid t \<Longrightarrow> ws_token_hash t = sp_result_hash sp"
    by (rule hop_eval [OF assms(1) rdy, where i = i and inp = ?in and nxt = ?nxt and blob = "pl_blob plan",
          unfolded some]) (rule that, assumption+)
  obtain x r where sl: "en_eval_slice en s (sp_tokens sp) (sp_pos0 sp) (re_layer_start e) (re_layer_end e) ?in
      (hop_want sp e (hops \<noteq> [])) = (x, r)"
    by fastforce
  show ?case
  proof (cases r)
    case (Inl err)
    then show ?thesis using proc ev(1) sl by (simp add: p wks span_answer_def)
  next
    case (Inr y)
    have at: "session_at_result sp wk'"
      using ev(2,3,4) sl Inr by (simp add: session_at_result_def)
    show ?thesis
    proof (cases "hops = []")
      case True
      then have "List.last (pl_entry plan) = e"
        using nx i unfolding e by (metis Suc_lessI diff_Suc_1 last_conv_nth length_0_conv not_less_zero)
      moreover have "wks0 = []" using all True by simp
      ultimately show ?thesis
        using proc ev(1) sl Inr True nx at by (simp add: p wks span_answer_def)
    next
      case False
      obtain e' s' hops' where h': "hops = (e', s') # hops'" using False by (cases hops) auto
      have e': "pl_entry plan ! Suc i = e'"
        using rest h' Cons_nth_drop_Suc [of "Suc i" "pl_entry plan"] nx
        by (metis False fst_conv list.inject list.simps(9))
      have ly: "length y = span_values en sp"
        using assms(3) sl Inr False by (auto simp: engine_sizes_def hop_want_def)
      obtain wks' where ih: "dist_run_route en wks0 (hop_frame en st plan sp (Suc i) e' y) =
          (span_answer st sp (List.last (pl_entry plan)) (span_value en ?bits sp hops y), wks')"
        "isl (span_value en ?bits sp hops y) \<or> list_all (session_at_result sp) wks'"
        using Cons.IH [OF rest False ly all] h' by auto
      have fwd: "dist_forward_work (wire_entry e') (hop_work en st plan sp i e)
          (ucast ((of_nat (span_values en sp) :: u64) * 4)) = Inr (hop_work en st plan sp (Suc i) e')"
        by (rule hop_forward [OF assms(1)])
      have out: "dist_work_eval en wk (hop_work en st plan sp i e) (sp_tokens sp) (of_nat (span_values en sp)) ?in ?nxt (pl_blob plan)
          = (Work_forward (wire_entry e') (hop_work en st plan sp i e) (sp_tokens sp) y (pl_blob plan), wk')"
        using ev(1) sl Inr nx False e' by simp
      have val: "span_value en ?bits sp (p # hops) h = span_value en ?bits sp hops y"
        using sl Inr False by (simp add: p)
      have run: "dist_run_route en wks (hop_frame en st plan sp i e h)
          = (span_answer st sp (List.last (pl_entry plan)) (span_value en ?bits sp hops y), wk' # wks')"
        using proc out hidden_values_span [OF assms(1)] fwd hop_send [OF assms(1) ly, of "Suc i" e'] ih(1)
        by (simp add: wks)
      show ?thesis
        unfolding val using run ih(2) at by (simp add: p)
    qed
  qed
qed simp

section \<open>A span over the whole model\<close>

definition logits_size :: "('s, 'f) dist_engine \<Rightarrow> dist_span \<Rightarrow> bool" where
  "logits_size en sp \<longleftrightarrow>
     (\<forall>s a b i x r. en_eval_slice en s (sp_tokens sp) (sp_pos0 sp) a b i Want_logits = (x, Inr r) \<longrightarrow>
        length r = unat (en_vocab_size en))"

lemma span_value_size:
  assumes "engine_sizes en bits sp" "logits_size en sp" "\<not> sp_ack_only sp" "hops \<noteq> []"
    "span_value en bits sp hops h = Inr r"
  shows "if re_flags (fst (List.last hops)) AND DS4_DIST_ROUTE_F_OUTPUT_LOGITS \<noteq> 0
    then length r = unat (en_vocab_size en) else length r = span_values en sp"
  using assms(4,5)
proof (induction hops arbitrary: h)
  case (Cons p hops)
  obtain e s where p: "p = (e, s)" by (cases p)
  obtain x y where sl: "en_eval_slice en s (sp_tokens sp) (sp_pos0 sp) (re_layer_start e) (re_layer_end e)
      (Some (transport en bits h)) (hop_want sp e (hops \<noteq> [])) = (x, Inr y)"
    and v: "span_value en bits sp hops y = Inr r"
    using Cons.prems(2) p
    by (cases "en_eval_slice en s (sp_tokens sp) (sp_pos0 sp) (re_layer_start e) (re_layer_end e)
        (Some (transport en bits h)) (hop_want sp e (hops \<noteq> []))") (auto split: sum.splits)
  show ?case
  proof (cases "hops = []")
    case True
    then show ?thesis
      using sl v p assms(1,2,3) by (auto simp: hop_want_def engine_sizes_def logits_size_def split: if_splits)
  next
    case False
    then show ?thesis using Cons.IH [OF False v] by simp
  qed
qed simp

lemma plan_ok_reachable:
  assumes "registry_step\<^sup>*\<^sup>* st0 st" "cs_workers st0 = []" "c_qsort qs" "cs_local_end st < cs_n_layers st"
    "dist_coordinator_build_route_plan qs dup_fd st = Some (Inr (plan, gen))" "pl_entry plan \<noteq> []"
  shows "plan_ok st plan" "cs_local_start st = 0"
proof -
  have reg: "registry_ok st" by (rule registry_reachable_ok [OF assms(1,2)])
  from build_route_plan_cases [OF reg assms(3,5)] have "plan_ok st plan \<and> cs_local_start st = 0"
  proof cases
    case 1
    then show ?thesis using assms(6) by simp
  next
    case (2 ws)
    then show ?thesis
      using plan_hops_facts [OF reg 2(3,4,5)] assms(4) by (simp add: plan_ok_def)
  qed
  then show "plan_ok st plan" "cs_local_start st = 0" by auto
qed

lemma hop_send_first:
  assumes "span_ok en st plan sp" "plan_ok st plan" "length h = span_values en sp"
  shows "dist_coordinator_send_remote_work_on_fd en st plan sp h (ucast ((of_nat (span_values en sp) :: u64) * 4))
    = Inr (hop_frame en st plan sp 0 (hd (pl_entry plan)) h)"
proof -
  note f = span_facts [OF assms(1)]
  have m: "ucast ((of_nat (span_values en sp) :: u64) * 4) = (of_nat (span_values en sp * 4) :: u32)"
    using ucast_of_nat_u32 [of "span_values en sp * 4"] by simp
  have w: "dist_activation_wire_bytes_from_f32_bytes (cs_activation_bits st) (of_nat (span_values en sp * 4))
      = Some (of_nat (span_values en sp * value_bytes (cs_activation_bits st)))"
    by (rule wire_bytes_from_f32 [OF f(1) refl f(6,7)])
  obtain e es where e: "pl_entry plan = e # es" using assms(2) by (cases "pl_entry plan") (auto simp: plan_ok_def)
  have "dist_remote_work st plan e sp (of_nat (span_values en sp * value_bytes (cs_activation_bits st)))
      = hop_work en st plan sp 0 e"
    by (simp add: hop_work_def dist_remote_work_def)
  then show ?thesis
    unfolding dist_coordinator_send_remote_work_on_fd_def m e list.case w option.case
    using hop_send [OF assms(1,3), of 0 e] by simp
qed

definition span_of ::
  "token list \<Rightarrow> u32 \<Rightarrow> u64 \<Rightarrow> u64 \<Rightarrow> u64 \<Rightarrow> bool \<Rightarrow> dist_span" where
  "span_of tokens pos0 session_id request_id prefix_hash reset_session =
     \<lparr>sp_tokens = tokens, sp_pos0 = pos0, sp_session_id = session_id, sp_request_id = request_id,
      sp_prefix_hash = prefix_hash, sp_result_hash = dist_token_hash_update_span prefix_hash tokens,
      sp_reset_session = reset_session, sp_ack_only = False\<rparr>"

text \<open>The result of the slices as the coordinator hands it out: logits as they are, hidden states through
  its own output head.\<close>

definition span_logits ::
  "('s, 'f) dist_engine \<Rightarrow> ds4_dist_coordinator_state \<Rightarrow> 's \<Rightarrow> dist_span \<Rightarrow> ds4_dist_route_entry
   \<Rightarrow> string + 'f list \<Rightarrow> string + 'f list" where
  "span_logits en st session sp final value =
     (case value of
        Inl err \<Rightarrow> Inl (if err = [] then ''distributed worker returned an error'' else err)
      | Inr r \<Rightarrow>
          if re_flags final AND DS4_DIST_ROUTE_F_OUTPUT_LOGITS \<noteq> 0 then Inr r
          else en_output_head en session (transport en (cs_activation_bits st) r) (length (sp_tokens sp)))"

text \<open>C16. Evaluating a span over any planned route is the composition of the slices: the coordinator's layers,
  then each hop's layers on the activations as they travelled, then the logits of the last hop or of the
  coordinator's output head.  Every frame is accepted on the way, an error of an engine comes back as the
  result, and where there is none every worker's session ends at the prefix with the span behind it.\<close>

theorem distributed_span_composes_slices:
  assumes "registry_step\<^sup>*\<^sup>* st0 st" "cs_workers st0 = []" "c_qsort qs" "cs_local_end st < cs_n_layers st"
    and plan: "dist_coordinator_build_route_plan qs dup_fd st = Some (Inr (plan, gen))"
      "pl_entry plan \<noteq> []" "0 \<le> re_fd (hd (pl_entry plan))"
    and prefix: "dist_span_prefix_hash en session pos0 reset = Inr prefix_hash"
      "(if reset then en_slice_reset en session else (session, None)) = (s0, None)"
    and fits: "sp = span_of tokens pos0 session_id request_id prefix_hash reset" "span_ok en st plan sp"
      "engine_sizes en (cs_activation_bits st) sp" "logits_size en sp"
    and hops: "map fst hops = pl_entry plan" "list_all2 (\<lambda>p wk. worker_ready en st sp (fst p) wk (snd p)) hops wks"
    and own: "en_eval_slice en s0 tokens pos0 0 (cs_local_end st) None Want_hidden = (s1, Inr h)"
  shows "\<exists>wks'. dist_coordinator_eval_span en st session plan wks tokens pos0 session_id request_id reset =
      (span_logits en st s1 sp (List.last (pl_entry plan)) (span_value en (cs_activation_bits st) sp hops h), s1, wks')
    \<and> (isl (span_value en (cs_activation_bits st) sp hops h) \<or> list_all (session_at_result sp) wks')"
proof -
  note ok = plan_ok_reachable [OF assms(1-4) plan(1,2)]
  let ?bits = "cs_activation_bits st" and ?v = "span_values en sp"
  let ?outcome = "span_value en ?bits sp hops h" and ?final = "List.last (pl_entry plan)"
  let ?hb = "ucast ((of_nat ?v :: u64) * 4) :: u32"
  note f = span_facts [OF fits(2)]
  have sp: "sp_tokens sp = tokens" "sp_pos0 sp = pos0" "\<not> sp_ack_only sp" "sp_request_id sp = request_id"
    using fits(1) by (simp_all add: span_of_def)
  have lh: "length h = ?v" using fits(3) own sp by (auto simp: engine_sizes_def)
  have h1: "fst (hd hops) = hd (pl_entry plan)" "hops \<noteq> []" and hl: "fst (List.last hops) = ?final"
    using hops(1) plan(2) by (metis hd_map list.map_disc_iff, metis list.map_disc_iff, metis last_map list.map_disc_iff)
  obtain wks' where run: "dist_run_route en wks (hop_frame en st plan sp 0 (hd (pl_entry plan)) h)
      = (span_answer st sp ?final ?outcome, wks')"
    and at: "isl ?outcome \<or> list_all (session_at_result sp) wks'"
    using run_route_hops [OF fits(2) ok(1) fits(3), of hops 0 h wks] hops h1 lh by auto
  have remote: "dist_coordinator_eval_remote_on_fd en st s1 plan wks sp h ?hb =
      (span_logits en st s1 sp ?final ?outcome, wks')"
  proof (cases ?outcome)
    case (Inl err)
    then show ?thesis
      using hop_send_first [OF fits(2) ok(1) lh] run
      by (simp add: dist_coordinator_eval_remote_on_fd_def dist_recv_result_def span_answer_def span_logits_def)
  next
    case (Inr r)
    note sz = span_value_size [OF fits(3,4) sp(3) h1(2) Inr, unfolded hl]
    show ?thesis
    proof (cases "re_flags ?final AND DS4_DIST_ROUTE_F_OUTPUT_LOGITS = 0")
      case False
      have "of_nat (length r) * 4 = en_vocab_size en * 4" using sz False by simp
      then show ?thesis
        using hop_send_first [OF fits(2) ok(1) lh] run Inr False sp
        by (simp add: dist_coordinator_eval_remote_on_fd_def dist_recv_result_def span_answer_def span_logits_def
            hop_want_def dist_result_payload_def DS4_DIST_RESULT_LOGITS_def DS4_DIST_RESULT_HIDDEN_STATE_def)
    next
      case True
      have lr: "length r = ?v" using sz True by simp
      have le: "length (en_encode en ?bits r) = ?v * value_bytes ?bits"
        using fits(3) lr by (simp add: engine_sizes_def)
      have ne: "r \<noteq> []" using lr f(5) by auto
      have "dist_decode_activation_payload en ?bits (en_encode en ?bits r) = Inr (transport en ?bits r, ?hb)"
        unfolding transport_def by (rule decode_activation [OF f(1,6) le, unfolded le, OF f(7)])
      then show ?thesis
        using hop_send_first [OF fits(2) ok(1) lh] run Inr True sp ne width_facts(1) [OF f(1)]
        by (simp add: dist_coordinator_eval_remote_on_fd_def dist_recv_result_def span_answer_def span_logits_def
            hop_want_def dist_result_payload_def DS4_DIST_RESULT_LOGITS_def DS4_DIST_RESULT_HIDDEN_STATE_def)
    qed
  qed
  have hv: "dist_hidden_values en (of_nat (length tokens)) = Some (of_nat ?v)"
    using hidden_values_span [OF fits(2)] sp(1) by simp
  have "dist_coordinator_eval_span en st session plan wks tokens pos0 session_id request_id reset =
      (span_logits en st s1 sp ?final ?outcome, s1, wks')"
    unfolding dist_coordinator_eval_span_def hv option.case prefix Let_def span_of_def [symmetric]
    using plan(2,3) own ok(2) remote by (simp add: not_less fits(1))
  then show ?thesis using at by blast
qed


section \<open>A span over two workers\<close>

text \<open>An engine on numbers: a slice multiplies by ten and adds its first layer, so the result shows which
  slices ran and in which order.\<close>

definition demo_engine :: "(token list, nat) dist_engine" where
  "demo_engine =
     \<lparr>en_vocab_size = 1, en_layer_count = 6, en_hidden_f32_values = 1, en_session_create = None,
      en_session_tokens = Some, en_slice_reset = (\<lambda>s. ([], None)),
      en_eval_slice = (\<lambda>s ts pos a b i want. (s @ ts, Inr (replicate (length ts)
         (10 * (case i of None \<Rightarrow> 1 | Some h \<Rightarrow> hd h) + unat a)))),
      en_output_head = (\<lambda>s h n. Inr h),
      en_encode = (\<lambda>bits h. concat (map (\<lambda>x. of_nat x # replicate (value_bytes bits - 1) 0) h)),
      en_decode = (\<lambda>bits p. [unat (hd p)])\<rparr>"

definition demo_worker_state :: "u32 \<Rightarrow> u32 \<Rightarrow> bool \<Rightarrow> token list dist_worker_state" where
  "demo_worker_state a b has_output =
     \<lparr>wk_model_id = 7, wk_layer_start = a, wk_layer_end = b, wk_has_output = has_output, wk_ctx_size = 100,
      wk_sessions = [\<lparr>ws_session_id = 9, ws_token_hash = 0, ws_token_hash_valid = False, ws_session = [5]\<rparr>]\<rparr>"

lemma demo_plan_blob:
  "\<exists>blob. dist_coordinator_build_route_plan route_isort Inr demo_registered =
     Some (Inr (\<lparr>pl_entry =
         [\<lparr>re_host = ''10.0.0.2'', re_port = 9000, re_layer_start = 2, re_layer_end = 3, re_flags = 0, re_fd = 5\<rparr>,
          \<lparr>re_host = ''10.0.0.3'', re_port = 9000, re_layer_start = 4, re_layer_end = 5, re_flags = 1, re_fd = -1\<rparr>],
       pl_blob = blob\<rparr>, 2)) \<and> length blob = 68"
proof -
  obtain blob where b: "dist_coordinator_build_route_plan route_isort Inr demo_registered =
     Some (Inr (\<lparr>pl_entry =
         [\<lparr>re_host = ''10.0.0.2'', re_port = 9000, re_layer_start = 2, re_layer_end = 3, re_flags = 0, re_fd = 5\<rparr>,
          \<lparr>re_host = ''10.0.0.3'', re_port = 9000, re_layer_start = 4, re_layer_end = 5, re_flags = 1, re_fd = -1\<rparr>],
       pl_blob = blob\<rparr>, 2))"
    using demo_plan by blast
  have "plan_ok demo_registered \<lparr>pl_entry =
         [\<lparr>re_host = ''10.0.0.2'', re_port = 9000, re_layer_start = 2, re_layer_end = 3, re_flags = 0, re_fd = 5\<rparr>,
          \<lparr>re_host = ''10.0.0.3'', re_port = 9000, re_layer_start = 4, re_layer_end = 5, re_flags = 1, re_fd = -1\<rparr>],
       pl_blob = blob\<rparr>"
    by (rule plan_ok_reachable(1) [OF demo_reachable _ route_isort_qsort _ b]) simp_all
  then have "length blob = 68" by (simp add: plan_ok_def hop_wire_def upstream_wire_def)
  then show ?thesis using b by blast
qed

theorem distributed_span_composes_slices_witness:
  "\<exists>plan gen wks'. dist_coordinator_build_route_plan route_isort Inr demo_registered = Some (Inr (plan, gen))
     \<and> dist_coordinator_eval_span demo_engine demo_registered [5] plan
         [demo_worker_state 2 3 False, demo_worker_state 4 5 True] [0] 0 9 1 True = (Inr [1024], [0], wks')
     \<and> list_all (session_at_result (span_of [0] 0 9 1 DS4_DIST_TOKEN_HASH_INIT True)) wks'"
proof -
  obtain blob where b: "dist_coordinator_build_route_plan route_isort Inr demo_registered =
     Some (Inr (\<lparr>pl_entry =
         [\<lparr>re_host = ''10.0.0.2'', re_port = 9000, re_layer_start = 2, re_layer_end = 3, re_flags = 0, re_fd = 5\<rparr>,
          \<lparr>re_host = ''10.0.0.3'', re_port = 9000, re_layer_start = 4, re_layer_end = 5, re_flags = 1, re_fd = -1\<rparr>],
       pl_blob = blob\<rparr>, 2))" "length blob = 68"
    using demo_plan_blob by blast
  let ?e1 = "\<lparr>re_host = ''10.0.0.2'', re_port = 9000, re_layer_start = 2, re_layer_end = 3, re_flags = 0, re_fd = 5\<rparr>"
  let ?e2 = "\<lparr>re_host = ''10.0.0.3'', re_port = 9000, re_layer_start = 4, re_layer_end = 5, re_flags = 1, re_fd = -1\<rparr>"
  let ?plan = "\<lparr>pl_entry = [?e1, ?e2], pl_blob = blob\<rparr>"
  let ?sp = "span_of [0] 0 9 1 DS4_DIST_TOKEN_HASH_INIT True"
  have f: "cs_activation_bits demo_registered = 32" "cs_model_id demo_registered = 7"
    by (simp_all add: demo_registered_def demo_coordinator_def)
  have v: "span_values demo_engine ?sp = 1" by (simp add: span_values_def span_of_def demo_engine_def)
  have ok: "span_ok demo_engine demo_registered ?plan ?sp"
    using b(2) v by (simp add: span_ok_def f width_ok_def value_bytes_def) (simp add: span_of_def demo_engine_def)
  have sz: "engine_sizes demo_engine (cs_activation_bits demo_registered) ?sp"
    unfolding engine_sizes_def v by (auto simp: f value_bytes_def demo_engine_def span_of_def length_Suc_conv)
  have lg: "logits_size demo_engine ?sp" by (simp add: logits_size_def demo_engine_def span_of_def)
  have rdy: "list_all2 (\<lambda>p wk. worker_ready demo_engine demo_registered ?sp (fst p) wk (snd p))
      [(?e1, []), (?e2, [])] [demo_worker_state 2 3 False, demo_worker_state 4 5 True]"
    by (simp add: worker_ready_def f demo_worker_state_def span_of_def session_ready_def demo_engine_def)
  have own: "en_eval_slice demo_engine [] [0] 0 0 (cs_local_end demo_registered) None Want_hidden = ([0], Inr [10])"
    by (simp add: demo_engine_def)
  have pre: "dist_span_prefix_hash demo_engine [5] 0 True = Inr DS4_DIST_TOKEN_HASH_INIT"
    "(if True then en_slice_reset demo_engine [5] else ([5], None)) = ([], None)"
    by (simp_all add: dist_span_prefix_hash_def demo_engine_def)
  have val: "span_value demo_engine (cs_activation_bits demo_registered) ?sp [(?e1, []), (?e2, [])] [10] = Inr [1024]"
    by (simp add: f demo_engine_def span_of_def transport_def value_bytes_def)
  have n: "cs_local_end demo_registered < cs_n_layers demo_registered" by simp
  show ?thesis
    using distributed_span_composes_slices [OF demo_reachable _ route_isort_qsort n b(1) _ _ pre refl ok sz lg _ rdy own] b(1) val
    by (simp add: span_logits_def DS4_DIST_ROUTE_F_OUTPUT_LOGITS_def)
qed

end
