(* ===== verification/Spec2Isabelle.thy ===== *)
theory Spec2Isabelle
  imports Json Streaming Chat Thinking LoopGuard Dsml DsmlParse DsmlRound DsmlStream Sha1 KvFile KvCache KvStore Session SampleProps SpecSample Ssd
    TokenText WorkerRun HttpFrame DistPlan DistSpan
begin

text \<open>
  A verification development of DwarfStar 4, a single-model inference server in C
  (\<open>src/ds4_server.c\<close>) over an engine (\<open>src/ds4.c\<close>) with speculative decoding.

  \<^bold>\<open>The program.\<close>  A request arrives as JSON; its messages become a transcript, the transcript
  a prompt text with DSML tool markup, the prompt a token sequence.  The engine brings its one
  live session to the prompt (reusing the tokens the session or a checkpoint on disk already
  holds), then decodes token by token or, with a draft head, several tokens per round.  The
  generated text is streamed back without the bytes that may still turn into protocol, and
  finally parsed into reasoning, content and tool calls.

  \<^bold>\<open>Theories and sources.\<close>
    \<^item> \<open>Prelude\<close>: bytes, C strings and the part of the C library the sources call.
    \<^item> \<open>Json\<close>: the JSON reader and writer of \<open>ds4_server.c\<close> (\<open>json_*\<close>, \<open>utf8_put\<close>).
    \<^item> \<open>Streaming\<close>: stop lists, the UTF-8 release length and the plain stream of \<open>generate_job\<close>.
    \<^item> \<open>Chat\<close>: \<open>parse_messages\<close> and the transcript it fills.
    \<^item> \<open>Thinking\<close>, \<open>LoopGuard\<close>: reasoning modes and the think-tag scanner; the guards against
      repeating models and agents.
    \<^item> \<open>Dsml\<close>, \<open>DsmlParse\<close>, \<open>DsmlRound\<close>: rendering a prompt, reading a generated message and
      repairing it, and the round trip between both.
    \<^item> \<open>DsmlTrack\<close>, \<open>DsmlStream\<close>: the incremental tool-call recognizer and the streaming limits.
    \<^item> \<open>Sha1\<close>, \<open>KvFile\<close>, \<open>KvCache\<close>, \<open>KvStore\<close>: the checkpoint store of \<open>ds4_kvstore.c\<close>: names,
      file format, eviction, publication, lookup and loading.
    \<^item> \<open>DSpark\<close>, \<open>Speculative\<close>: the draft controllers (\<open>ds4_dspark_runtime.c\<close> and \<open>ds4.c\<close>) and
      the speculative rounds of \<open>ds4.c\<close>.  \<open>SpecCanonical\<close>: the canonical path of
      \<open>ds4_session_eval_speculative_argmax\<close> with its verifiers, the dispatcher over all rounds and the decode
      loop of \<open>ds4_cli.c\<close>.  \<open>SpecGreedy\<close> proves the rounds, \<open>SpecLegacy\<close> the canonical path, \<open>SpecLoop\<close> the
      loop.
    \<^item> \<open>SessionSync\<close>: \<open>ds4_session_sync\<close> with its prefill loops, progress and cancellation, and
      the rewrite of the live tail; \<open>SyncResult\<close> and \<open>Session\<close> prove them.
    \<^item> \<open>Sampling\<close>, \<open>SpecSample\<close>: the samplers, the truncated distribution and its acceptance
      step, the sampled round; \<open>SampleLaw\<close> and \<open>SampleProps\<close> prove them.
    \<^item> \<open>Ssd\<close>: argument parsing and cache planning of \<open>ds4_ssd.c\<close>.
    \<^item> \<open>TokenTable\<close>, \<open>Tokenizer\<close>: the string tables, the byte-level BPE tokenizer and the chat
      encoders of \<open>ds4.c\<close>; \<open>TokenText\<close> proves that tokenizing loses nothing.
    \<^item> \<open>Protocol\<close>, \<open>Worker\<close>: the lifecycle of a request (\<open>ds4_protocol_state.c\<close>) and the threads of
      the server around its queue (\<open>enqueue\<close>, \<open>dequeue\<close>, \<open>worker_main\<close>, \<open>client_main\<close>, \<open>main\<close>), as a
      step relation; \<open>WorkerRun\<close> proves its invariants and that a stopped server drains.
    \<^item> \<open>Http\<close>: reading a request from the network, choosing its endpoint, writing a response;
      \<open>HttpFrame\<close> proves the framing.
    \<^item> \<open>DistWire\<close>, \<open>DistRoute\<close>: the distributed runtime (\<open>ds4_distributed.c\<close>): wire records and frames,
      the registry of workers, the route search, plans and the parsers of the route payload;
      \<open>DistRouteProofs\<close> and \<open>DistPlan\<close> prove them.  \<open>DistWork\<close>: evaluating a span of tokens over a
      route, on the coordinator (\<open>dist_coordinator_eval_span\<close>) and on each worker
      (\<open>dist_worker_process_work_payload\<close>, \<open>dist_forward_work_to_next\<close>); \<open>DistSpan\<close> proves it.

  \<^bold>\<open>What the lemmas show.\<close>  Readers: what the writer wrote is read back, nesting and buffers
  are bounded, accepted input is well formed.  Streams: every released chunk is part of the final
  answer and no protocol.  Checkpoints: publication is atomic, eviction meets its budget, a stored
  checkpoint is found and nothing is trusted by its hash.  Decoding: each speculative round commits only
  tokens that the target chose behind exactly the tokens in front of them (or, when sampling, tokens with
  the law of the target), every error invalidates the session, synchronizing followed by generating prints
  such a stream behind the prompt, and strict mode prints exactly the stream of the one-token kernels.  Tokens: a text, a rendered chat and a tool result are read back from their
  tokens.  Server: requests are framed however the network cuts them, served once and in order, end
  with one outcome each, and are all served before a stopped server closes.  Distribution: the
  registry stays well formed, a route is found exactly when there is one, and every worker accepts
  the route it is sent, so that evaluating a span over a route is the composition of the slices of
  its hops.  Failing expectations are stated as theorems too: a few operations do not
  keep what their comments say.

  \<^bold>\<open>Interfaces.\<close>  \<open>member_reader\<close> and \<open>elem_reader\<close> (what the JSON object and array loops ask of
  their handlers), \<open>guarded_text\<close> (text that cannot close its wrapper), \<open>string_codec\<close> (a
  renderer with its reader), \<open>target_decoder\<close> (what a decoding round promises to the loop; the
  rounds of any engine, and the rounds of strict mode, are its interpretations), \<open>string_table\<close> (a map that its
  operations reach without hanging while there is room; the hash tables of the vocabulary), \<open>fifo\<close> (a
  queue; the linked list of jobs).

  \<^bold>\<open>Abstractions.\<close>  Floats are real numbers and logits are finite.  The forward pass is a
  parameter (\<open>spec_model\<close>, \<open>sy_prefill\<close>, \<open>mtp_row\<close>): a row of logits as a function of the tokens absorbed,
  one for the one-token, one for the batched and one for the layer-major kernels.  The kernels round
  differently, and so do the caches they leave, so no theorem assumes that they agree: every round has a
  \<open>spec_model\<close> of its own, and the theorems speak of the set of rows computed behind a context
  (\<open>round_rows\<close>, \<open>prompted_rows\<close>).  The caches of a device are the token
  sequence they have absorbed; every device operation may fail, as the \<open>_io\<close> records say.
  \<open>qsort\<close> is a parameter with the hypotheses \<open>qsort_ok\<close> and \<open>c_qsort\<close>, \<open>dup\<close> one with \<open>c_dup\<close>.  A directory is a list of files.
  Environment variables are arguments.  Strings hold no NUL; \<open>malloc\<close> does not fail.

  \<^bold>\<open>Bounds and fuel.\<close>  The padding loop of SHA-1 has fuel 64, one more than the zeros it can
  append.  The tracker loop has fuel one more than the text length, because every step that goes
  on moves forward.  The decode loop runs once per token asked for.  The chunk loop of the prefill
  is a partial function whose totality is proved.  The probe loops of the string tables have as much
  fuel as there are slots, and doubling a capacity has 64 steps: a table always has a free slot, so
  neither runs out.  The route search has as much fuel as there are layers left, because every worker
  on a path moves the next layer forward.  The reading loops of a request end because the network's data do.  Words keep their width wherever sizes, hashes
  or counters are computed.

  \<^bold>\<open>Not modelled.\<close>  Device kernels and the arithmetic of the model; the GGUF
  reader; the sampled round of DSpark below temperature zero (a parameter); the prefill pipeline, the snapshots and the telemetry
  of distributed sessions (their engine, \<open>dist_engine\<close>, with its conversion of activations is a
  parameter); sockets and server-sent events; the
  Anthropic and Responses readers; session payload files; the agent, evaluation and web tools;
  vendored code.  Logging, timing displays and profiling are left out everywhere.
\<close>

end
